(* ===== verification/State_Core.thy ===== *)
theory State_Core
  imports Prelude
begin

text \<open>
  The workflow state of the graph engine (\<open>state/state_core.rs\<close>,
  \<open>state/workflow_state.rs\<close>): the untyped \<open>State\<close>, its mutations, the batch
  application of mutations, the JSON accessors and reducers, and the merge strategies of
  parallel branches. The trait \<open>MergeStrategy\<close> is the locale \<open>merge_strategy\<close>,
  interpreted on \<open>StateMerge\<close> and \<open>LastWriteWins\<close>.
\<close>

section \<open>State and mutations\<close>

type_synonym 'v state = "(string, 'v) hashmap"

datatype 'v state_mutation = Put string 'v | Delete string

fun mutation_apply :: "'v state_mutation \<Rightarrow> 'v state \<Rightarrow> 'v state" where
  "mutation_apply (Put k v) s = hm_insert k v s"
| "mutation_apply (Delete k) s = hm_remove k s"

text \<open>
  The trait \<open>WorkflowState\<close>, as the dictionary of the operations the engine calls:
  \<open>apply\<close> of a mutation, \<open>snapshot\<close> and \<open>restore\<close>. \<open>apply_batch\<close> is the
  trait's default method.
\<close>

record ('s, 'm, 'c) workflow_ops =
  op_apply :: "'m \<Rightarrow> 's \<Rightarrow> 's"
  op_snapshot :: "'s \<Rightarrow> 'c"
  op_restore :: "'c \<Rightarrow> 's"

definition apply_batch :: "('s, 'm, 'c) workflow_ops \<Rightarrow> 'm list \<Rightarrow> 's \<Rightarrow> 's" where
  "apply_batch ops ms s = foldl (\<lambda>s m. op_apply ops m s) s ms"

definition state_snapshot :: "'v state \<Rightarrow> 'v state" where
  "state_snapshot s = s"

definition state_restore :: "'v state \<Rightarrow> 'v state" where
  "state_restore c = c"

definition state_ops :: "('v state, 'v state_mutation, 'v state) workflow_ops" where
  "state_ops = \<lparr>op_apply = mutation_apply, op_snapshot = state_snapshot, op_restore = state_restore\<rparr>"

lemma state_ops_simps [simp]:
  "op_apply state_ops = mutation_apply"
  "op_snapshot state_ops = state_snapshot"
  "op_restore state_ops = state_restore"
  by (simp_all add: state_ops_def)

lemma apply_batch_Nil [simp]: "apply_batch ops [] s = s"
  by (simp add: apply_batch_def)

lemma apply_batch_Cons [simp]: "apply_batch ops (m # ms) s = apply_batch ops ms (op_apply ops m s)"
  by (simp add: apply_batch_def)

lemma apply_batch_append [simp]: "apply_batch ops (ms @ ns) s = apply_batch ops ns (apply_batch ops ms s)"
  by (simp add: apply_batch_def)

lemma mutation_apply_ok [intro]: "hm_ok s \<Longrightarrow> hm_ok (mutation_apply m s)"
  by (cases m) auto

lemma apply_batch_ok: "hm_ok s \<Longrightarrow> hm_ok (apply_batch state_ops ms s)"
  by (induction ms arbitrary: s) (auto)

text \<open>
  What a batch leaves under a key is decided by the last mutation of that key alone: the
  net effect of a batch is a map from keys to optional values.
\<close>

fun mutation_key :: "'v state_mutation \<Rightarrow> string" where
  "mutation_key (Put k v) = k"
| "mutation_key (Delete k) = k"

fun mutation_value :: "'v state_mutation \<Rightarrow> 'v option" where
  "mutation_value (Put k v) = Some v"
| "mutation_value (Delete k) = None"

lemma mutation_apply_get:
  "hm_get (mutation_apply m s) k = (if k = mutation_key m then mutation_value m else hm_get s k)"
  by (cases m) auto

lemma apply_batch_get:
  "hm_get (apply_batch state_ops ms s) k =
     (case filter (\<lambda>m. mutation_key m = k) ms of
        [] \<Rightarrow> hm_get s k
      | x # xs \<Rightarrow> mutation_value (last (x # xs)))"
proof (induction ms rule: rev_induct)
  case Nil
  then show ?case by simp
next
  case (snoc m ms)
  then show ?case
    by (auto simp: mutation_apply_get split: list.splits)
qed

section \<open>Accessors and reducers\<close>

datatype state_error =
    MissingKey string
  | Deserialize string string
  | ReducerConflict string string
  | DeltaApply string string
  | StateConflict string "string list"

definition get_str :: "json state \<Rightarrow> string \<Rightarrow> string option" where
  "get_str s k = Option.bind (hm_get s k) json_as_str"

definition get_bool :: "json state \<Rightarrow> string \<Rightarrow> bool option" where
  "get_bool s k = Option.bind (hm_get s k) json_as_bool"

definition get_u64 :: "json state \<Rightarrow> string \<Rightarrow> nat option" where
  "get_u64 s k = Option.bind (hm_get s k) json_as_u64"

definition get_i64 :: "json state \<Rightarrow> string \<Rightarrow> int option" where
  "get_i64 s k = Option.bind (hm_get s k) json_as_i64"

text \<open>
  \<open>get_json\<close> and \<open>set\<close> go through the caller's \<open>Serialize\<close> and
  \<open>Deserialize\<close> implementations, which are arguments.
\<close>

definition get_json :: "(json \<Rightarrow> string + 'a) \<Rightarrow> json state \<Rightarrow> string \<Rightarrow> state_error + 'a" where
  "get_json from_value s k =
     (case hm_get s k of
        None \<Rightarrow> Inl (MissingKey k)
      | Some v \<Rightarrow> (case from_value v of Inl e \<Rightarrow> Inl (Deserialize k e) | Inr a \<Rightarrow> Inr a))"

definition state_set :: "('a \<Rightarrow> string + json) \<Rightarrow> string \<Rightarrow> 'a \<Rightarrow> json state \<Rightarrow> json state" where
  "state_set to_value k a s =
     hm_insert k (case to_value a of Inl _ \<Rightarrow> JNull | Inr v \<Rightarrow> v) s"

definition state_remove :: "string \<Rightarrow> json state \<Rightarrow> json option \<times> json state" where
  "state_remove k s = (hm_get s k, hm_remove k s)"

definition state_contains :: "json state \<Rightarrow> string \<Rightarrow> bool" where
  "state_contains s k = hm_contains s k"

definition state_reduce ::
  "string \<Rightarrow> json \<Rightarrow> (json \<Rightarrow> json \<Rightarrow> string + json) \<Rightarrow> json state \<Rightarrow> string + json state" where
  "state_reduce k value reducer s =
     (case hm_get s k of
        Some existing \<Rightarrow>
          (case reducer existing value of Inl e \<Rightarrow> Inl e | Inr merged \<Rightarrow> Inr (hm_insert k merged s))
      | None \<Rightarrow> Inr (hm_insert k value s))"

definition append_array :: "string \<Rightarrow> json \<Rightarrow> json state \<Rightarrow> string + json state" where
  "append_array k items s =
     (case json_as_array items of
        None \<Rightarrow> Inl ''append_array expects an array''
      | Some new_items \<Rightarrow>
          (case hm_get s k of
             Some existing \<Rightarrow>
               (case json_as_array existing of
                  None \<Rightarrow> Inl ''append_array: existing value is not an array''
                | Some arr \<Rightarrow> Inr (hm_insert k (JArray (arr @ new_items)) s))
           | None \<Rightarrow> Inr (hm_insert k items s)))"

definition array_reducer :: "json \<Rightarrow> json \<Rightarrow> string + json" where
  "array_reducer existing new =
     (case json_as_array existing of
        None \<Rightarrow> Inl ''array_reducer: existing is not an array''
      | Some base \<Rightarrow>
          (case json_as_array new of
             None \<Rightarrow> Inl ''array_reducer: new value is not an array''
           | Some items \<Rightarrow> Inr (JArray (base @ items))))"

lemma json_as_array_Some [simp]: "json_as_array v = Some xs \<longleftrightarrow> v = JArray xs"
  by (cases v) auto

text \<open>
  On array values the two ways of appending agree: \<open>append_array\<close> is \<open>reduce\<close> with
  the built-in \<open>array_reducer\<close>.
\<close>

lemma append_array_is_reduce:
  "append_array k (JArray xs) s = Inr s' \<longleftrightarrow> state_reduce k (JArray xs) array_reducer s = Inr s'"
  by (auto simp: append_array_def state_reduce_def array_reducer_def split: option.splits)

section \<open>Merging parallel branches\<close>

datatype workflow_error =
    MergeConflict string
  | ApplyFailed string
  | Serialization string

text \<open>
  \<open>StateMerge\<close> records per key the value written (\<open>None\<close> for a deletion) and the
  number of branches that changed it. The fold over the base keys finds deletions, the
  fold over the branch's entries finds writes.
\<close>

type_synonym 'v key_changes = "(string, 'v option \<times> nat) hashmap"

definition note_delete :: "string \<Rightarrow> 'v key_changes \<Rightarrow> 'v key_changes" where
  "note_delete k ch =
     (case hm_get ch k of
        None \<Rightarrow> hm_insert k (None, 1) ch
      | Some (v, n) \<Rightarrow> hm_insert k (v, n + 1) ch)"

definition note_write :: "string \<Rightarrow> 'v \<Rightarrow> 'v key_changes \<Rightarrow> 'v key_changes" where
  "note_write k v ch =
     (case hm_get ch k of
        None \<Rightarrow> hm_insert k (Some v, 1) ch
      | Some (_, n) \<Rightarrow> hm_insert k (Some v, n + 1) ch)"

definition note_branch :: "'v state \<Rightarrow> 'v key_changes \<Rightarrow> 'v state \<Rightarrow> 'v key_changes" where
  "note_branch base ch branch =
     foldl (\<lambda>ch (k, v). if hm_get base k = Some v then ch else note_write k v ch)
       (foldl (\<lambda>ch k. if hm_contains branch k then ch else note_delete k ch) ch (hm_keys base))
       branch"

text \<open>
  The text of the conflict message names the key and the number of writers; the number is
  kept as a number.
\<close>

datatype merge_error = StateMergeConflict string nat | OtherMergeError workflow_error

fun apply_changes :: "'v key_changes \<Rightarrow> 'v state \<Rightarrow> merge_error + 'v state" where
  "apply_changes [] merged = Inr merged"
| "apply_changes ((k, value, writers) # rest) merged =
     (if writers > 1 then Inl (StateMergeConflict k writers)
      else apply_changes rest
        (case value of Some v \<Rightarrow> hm_insert k v merged | None \<Rightarrow> hm_remove k merged))"

definition state_merge :: "'v state \<Rightarrow> 'v state list \<Rightarrow> merge_error + 'v state" where
  "state_merge base branches = apply_changes (foldl (note_branch base) [] branches) base"

definition last_write_wins :: "'s \<Rightarrow> 's list \<Rightarrow> merge_error + 's" where
  "last_write_wins base branches =
     (if branches = [] then Inl (OtherMergeError (MergeConflict ''no branches to merge''))
      else Inr (last branches))"


subsection \<open>What the merge computes\<close>

text \<open>
  A branch changes a key when its entry differs from the base's. The abstract
  specification of the merge is stated on lookups only: no key has two writers, and each
  key holds its writer's entry, or the base's when there is none.
\<close>

definition changed :: "'v state \<Rightarrow> string \<Rightarrow> 'v state \<Rightarrow> bool" where
  "changed base k b \<longleftrightarrow> hm_get b k \<noteq> hm_get base k"

definition writers :: "'v state \<Rightarrow> 'v state list \<Rightarrow> string \<Rightarrow> nat" where
  "writers base bs k = length (filter (changed base k) bs)"

definition merged_value :: "'v state \<Rightarrow> 'v state list \<Rightarrow> string \<Rightarrow> 'v option" where
  "merged_value base bs k =
     (case filter (changed base k) bs of [] \<Rightarrow> hm_get base k | b # _ \<Rightarrow> hm_get b k)"

definition note_count :: "'v key_changes \<Rightarrow> string \<Rightarrow> nat" where
  "note_count ch k = (case hm_get ch k of None \<Rightarrow> 0 | Some (_, n) \<Rightarrow> n)"

definition note_value :: "'v key_changes \<Rightarrow> string \<Rightarrow> 'v option" where
  "note_value ch k = (case hm_get ch k of None \<Rightarrow> None | Some (v, _) \<Rightarrow> v)"

definition notes_ok :: "'v key_changes \<Rightarrow> bool" where
  "notes_ok ch \<longleftrightarrow> hm_ok ch \<and> (\<forall>k. hm_get ch k \<noteq> None \<longrightarrow> note_count ch k > 0)"

lemma note_delete_simps [simp]:
  "note_count (note_delete k ch) k' = note_count ch k' + (if k' = k then 1 else 0)"
  "note_value (note_delete k ch) k' = note_value ch k'"
  "hm_ok ch \<Longrightarrow> hm_ok (note_delete k ch)"
  by (auto simp: note_count_def note_value_def note_delete_def split: option.splits)

lemma note_write_simps [simp]:
  "note_count (note_write k v ch) k' = note_count ch k' + (if k' = k then 1 else 0)"
  "note_value (note_write k v ch) k' = (if k' = k then Some v else note_value ch k')"
  "hm_ok ch \<Longrightarrow> hm_ok (note_write k v ch)"
  by (auto simp: note_count_def note_value_def note_write_def split: option.splits)

lemma note_delete_ok [simp]: "notes_ok ch \<Longrightarrow> notes_ok (note_delete k ch)"
  by (auto simp: notes_ok_def note_count_def note_delete_def split: option.splits)

lemma note_write_ok [simp]: "notes_ok ch \<Longrightarrow> notes_ok (note_write k v ch)"
  by (auto simp: notes_ok_def note_count_def note_write_def split: option.splits)

lemma note_deletes:
  fixes branch :: "'v state"
  assumes "distinct ks"
  defines "f \<equiv> \<lambda>ch k. if hm_contains branch k then ch else note_delete k ch"
  shows "note_count (foldl f ch ks) k =
           note_count ch k + (if k \<in> set ks \<and> hm_get branch k = None then 1 else 0)
         \<and> note_value (foldl f ch ks) k = note_value ch k
         \<and> (notes_ok ch \<longrightarrow> notes_ok (foldl f ch ks))"
  using assms(1)
  by (induction ks arbitrary: ch) (auto simp: f_def hm_contains_iff)

lemma note_writes:
  fixes base branch :: "'v state"
  assumes "hm_ok branch"
  defines "f \<equiv> \<lambda>ch (k, v). if hm_get base k = Some v then ch else note_write k v ch"
  shows "note_count (foldl f ch branch) k =
           note_count ch k + (if hm_get branch k \<noteq> None \<and> changed base k branch then 1 else 0)
         \<and> note_value (foldl f ch branch) k =
           (if hm_get branch k \<noteq> None \<and> changed base k branch then hm_get branch k else note_value ch k)
         \<and> (notes_ok ch \<longrightarrow> notes_ok (foldl f ch branch))"
  using assms(1)
proof (induction branch arbitrary: ch)
  case (Cons x branch)
  then show ?case
    by (cases x) (auto simp: f_def changed_def)
qed simp

lemma note_branch_simps:
  assumes "hm_ok base" and "hm_ok branch"
  shows "note_count (note_branch base ch branch) k = note_count ch k + (if changed base k branch then 1 else 0)"
    and "note_value (note_branch base ch branch) k =
           (if changed base k branch \<and> hm_get branch k \<noteq> None then hm_get branch k else note_value ch k)"
    and "notes_ok ch \<Longrightarrow> notes_ok (note_branch base ch branch)"
  using assms note_deletes [of "hm_keys base" branch ch k]
    note_writes [OF assms(2), of base _ k]
  by (auto simp: note_branch_def changed_def hm_contains_iff hm_ok_def)

lemma note_branches:
  fixes base :: "'v state"
  assumes "hm_ok base" and "\<forall>b \<in> set bs. hm_ok b"
  defines "f \<equiv> note_branch base"
  shows "notes_ok (foldl f [] bs) \<and> note_count (foldl f [] bs) k = writers base bs k
         \<and> (writers base bs k = 1 \<longrightarrow> note_value (foldl f [] bs) k = merged_value base bs k)
         \<and> (writers base bs k = 0 \<longrightarrow> note_value (foldl f [] bs) k = None)"
  using assms(2)
proof (induction bs rule: rev_induct)
  case Nil
  show ?case by (simp add: notes_ok_def note_count_def note_value_def writers_def)
next
  case (snoc b bs)
  then have b: "hm_ok b" by simp
  note step = note_branch_simps [OF assms(1) b, folded f_def]
  from snoc show ?case
    by (auto simp: step writers_def merged_value_def filter_empty_conv split: list.splits)
qed

lemma apply_changes_ok_iff:
  assumes "hm_ok ch"
  shows "(\<exists>m'. apply_changes ch m = Inr m') \<longleftrightarrow> (\<forall>k. note_count ch k \<le> 1)"
  using assms
proof (induction ch arbitrary: m)
  case Nil
  show ?case by (simp add: note_count_def)
next
  case (Cons c ch)
  obtain k v n where c: "c = (k, v, n)" by (cases c)
  with Cons.prems have none: "hm_get ch k = None" and ok: "hm_ok ch" by simp_all
  have count: "note_count (c # ch) k' = (if k' = k then n else note_count ch k')" for k'
    by (simp add: note_count_def c)
  have "note_count ch k = 0" using none by (simp add: note_count_def)
  then have "(\<forall>k'. note_count (c # ch) k' \<le> 1) \<longleftrightarrow> n \<le> 1 \<and> (\<forall>k'. note_count ch k' \<le> 1)"
    unfolding count by (metis le0)
  then show ?case using Cons.IH [OF ok] by (auto simp: c)
qed

lemma apply_changes_get:
  assumes "hm_ok ch" and "hm_ok m" and "apply_changes ch m = Inr m'"
  shows "hm_ok m' \<and> hm_get m' k = (case hm_get ch k of None \<Rightarrow> hm_get m k | Some (v, _) \<Rightarrow> v)"
  using assms
proof (induction ch arbitrary: m)
  case (Cons c ch)
  obtain k1 v n where c: "c = (k1, v, n)" by (cases c)
  define m1 where "m1 = (case v of Some v \<Rightarrow> hm_insert k1 v m | None \<Rightarrow> hm_remove k1 m)"
  from Cons.prems have m1: "hm_ok m1" by (auto simp: m1_def split: option.splits)
  from Cons.prems c have none: "hm_get ch k1 = None" and ok: "hm_ok ch"
    and run: "apply_changes ch m1 = Inr m'" by (simp_all add: m1_def split: if_splits)
  from Cons.IH [OF ok m1 run] none show ?case
    by (auto simp: c m1_def split: option.splits)
qed simp

lemma state_merge_ok_iff:
  assumes "hm_ok base" and "\<forall>b \<in> set bs. hm_ok b"
  shows "(\<exists>m. state_merge base bs = Inr m) \<longleftrightarrow> (\<forall>k. writers base bs k \<le> 1)"
proof -
  define ch where "ch = foldl (note_branch base) [] bs"
  have "hm_ok ch" and "\<And>k. note_count ch k = writers base bs k"
    using note_branches [OF assms, folded ch_def] by (auto simp: notes_ok_def)
  with apply_changes_ok_iff [of ch base] show ?thesis
    by (simp add: state_merge_def ch_def)
qed

lemma state_merge_get:
  assumes "hm_ok base" and "\<forall>b \<in> set bs. hm_ok b" and "state_merge base bs = Inr m"
  shows "hm_ok m \<and> hm_get m k = merged_value base bs k"
proof -
  define ch where "ch = foldl (note_branch base) [] bs"
  note ch = note_branches [OF assms(1,2), folded ch_def, of k]
  have run: "apply_changes ch base = Inr m" using assms(3) by (simp add: state_merge_def ch_def)
  have "hm_ok ch" using ch by (simp add: notes_ok_def)
  note get = apply_changes_get [OF this assms(1) run, of k]
  have "writers base bs k \<le> 1" using state_merge_ok_iff [OF assms(1,2)] assms(3) by blast
  then consider "writers base bs k = 0" | "writers base bs k = 1" by linarith
  then show ?thesis
  proof cases
    case 1
    with ch have "hm_get ch k = None" unfolding notes_ok_def by (metis less_irrefl)
    with 1 get show ?thesis by (simp add: merged_value_def writers_def)
  next
    case 2
    with ch get show ?thesis
      by (auto simp: note_value_def note_count_def split: option.splits)
  qed
qed


section \<open>The merge interface\<close>

text \<open>
  What a parallel node relies on when it calls \<open>M::merge(&base, branches)\<close>: a single
  branch is taken over as it is, and branches that changed nothing leave the base. States
  are compared by \<open>eqv\<close> (equal entries for hash maps).
\<close>

locale merge_strategy =
  fixes merge :: "'s \<Rightarrow> 's list \<Rightarrow> merge_error + 's"
    and eqv :: "'s \<Rightarrow> 's \<Rightarrow> bool"
    and inv :: "'s \<Rightarrow> bool"
  assumes merge_single: "inv base \<Longrightarrow> inv b \<Longrightarrow> \<exists>m. merge base [b] = Inr m \<and> inv m \<and> eqv m b"
    and merge_unchanged: "inv base \<Longrightarrow> bs \<noteq> [] \<Longrightarrow> set bs \<subseteq> {base} \<Longrightarrow>
      \<exists>m. merge base bs = Inr m \<and> inv m \<and> eqv m base"
    and merge_inv: "inv base \<Longrightarrow> \<forall>b \<in> set bs. inv b \<Longrightarrow> merge base bs = Inr m \<Longrightarrow> inv m"
begin

text \<open>A fork whose branches all fail to change the state can be repeated any number of times.\<close>

lemma merge_replicate:
  assumes "inv base" and "0 < n"
  shows "\<exists>m. merge base (replicate n base) = Inr m \<and> inv m \<and> eqv m base"
  using assms by (intro merge_unchanged) auto

end

definition state_eqv :: "'v state \<Rightarrow> 'v state \<Rightarrow> bool" where
  "state_eqv a b \<longleftrightarrow> hm_get a = hm_get b"

lemma state_merge_single:
  assumes "hm_ok base" and "hm_ok b"
  shows "\<exists>m. state_merge base [b] = Inr m \<and> hm_ok m \<and> state_eqv m b"
proof -
  from assms obtain m where m: "state_merge base [b] = Inr m"
    using state_merge_ok_iff [of base "[b]"] by (auto simp: writers_def)
  from state_merge_get [OF assms(1) _ m] assms show ?thesis
    using m by (auto simp: state_eqv_def merged_value_def changed_def fun_eq_iff)
qed

lemma state_merge_unchanged:
  assumes "hm_ok base" and "set bs \<subseteq> {base}"
  shows "\<exists>m. state_merge base bs = Inr m \<and> hm_ok m \<and> state_eqv m base"
proof -
  have bs: "\<forall>b \<in> set bs. hm_ok b" and none: "filter (changed base k) bs = []" for k
    using assms by (auto simp: filter_empty_conv changed_def)
  from none obtain m where m: "state_merge base bs = Inr m"
    using state_merge_ok_iff [OF assms(1) bs] by (auto simp: writers_def)
  from state_merge_get [OF assms(1) bs m] none show ?thesis
    using m by (auto simp: state_eqv_def merged_value_def fun_eq_iff)
qed

interpretation state_merge: merge_strategy state_merge state_eqv hm_ok
proof (unfold_locales, goal_cases)
  case (1 base b)
  then show ?case by (rule state_merge_single)
next
  case (2 base bs)
  then show ?case by (intro state_merge_unchanged)
next
  case (3 base bs m)
  then show ?case using state_merge_get by blast
qed

interpretation last_write: merge_strategy last_write_wins "(=)" "\<lambda>_. True"
  by unfold_locales (auto simp: last_write_wins_def dest: last_in_set)

section \<open>Properties\<close>

text \<open>
  C21: \<open>StateMerge\<close> succeeds exactly when no key was changed by two branches, and then
  the merged state holds, for every key, the entry of the branch that changed it (a
  deletion included), or the base's entry when no branch did.
\<close>

theorem state_merge_delta_spec:
  assumes "hm_ok base" and "\<forall>b \<in> set bs. hm_ok b"
  shows "case state_merge base bs of
           Inl e \<Rightarrow> (\<exists>k. writers base bs k > 1)
         | Inr m \<Rightarrow> (\<forall>k. writers base bs k \<le> 1) \<and> (\<forall>k. hm_get m k = merged_value base bs k)"
proof (cases "state_merge base bs")
  case (Inl e)
  with state_merge_ok_iff [OF assms] have "\<not> (\<forall>k. writers base bs k \<le> 1)" by auto
  with Inl show ?thesis by (auto simp: not_le)
next
  case (Inr m)
  with state_merge_ok_iff [OF assms] state_merge_get [OF assms Inr] show ?thesis by auto
qed

theorem state_merge_delta_spec_witness:
  "case state_merge [(''a'', 1::nat), (''b'', 2)] [[(''a'', 1), (''b'', 2), (''c'', 3)], [(''b'', 2)]] of
     Inl e \<Rightarrow> False
   | Inr m \<Rightarrow> hm_get m ''a'' = None \<and> hm_get m ''c'' = Some 3 \<and> hm_get m ''b'' = Some 2"
  using state_merge_delta_spec [of "[(''a'', 1::nat), (''b'', 2)]" "[[(''a'', 1), (''b'', 2), (''c'', 3)], [(''b'', 2)]]"]
  by (simp add: state_merge_def note_branch_def note_write_def note_delete_def merged_value_def
      writers_def changed_def)

text \<open>
  C17: The result of \<open>StateMerge\<close> does not depend on the order in which the branches are
  merged: any permutation succeeds or fails alike and yields the same entries.
\<close>

theorem state_merge_order_independent:
  assumes "hm_ok base" and "\<forall>b \<in> set bs. hm_ok b" and "mset bs = mset cs"
  shows "case (state_merge base bs, state_merge base cs) of
           (Inr m, Inr m') \<Rightarrow> state_eqv m m'
         | (Inl _, Inl _) \<Rightarrow> True
         | _ \<Rightarrow> False"
proof -
  have cs: "\<forall>b \<in> set cs. hm_ok b" using assms(2,3) by (metis set_mset_mset)
  have w: "writers base bs k = writers base cs k" for k
    unfolding writers_def using assms(3) by (metis mset_filter size_mset)
  have v: "merged_value base bs k = merged_value base cs k" if "writers base bs k \<le> 1" for k
  proof -
    have "mset (filter (changed base k) bs) = mset (filter (changed base k) cs)"
      using assms(3) by (simp only: mset_filter)
    with that show ?thesis
      by (cases "filter (changed base k) bs"; cases "filter (changed base k) cs")
         (auto simp: merged_value_def writers_def)
  qed
  note ok = state_merge_ok_iff [OF assms(1,2)] state_merge_ok_iff [OF assms(1) cs]
  show ?thesis
  proof (cases "\<forall>k. writers base bs k \<le> 1")
    case True
    with ok w obtain m m' where m: "state_merge base bs = Inr m" "state_merge base cs = Inr m'"
      by metis
    with True v state_merge_get [OF assms(1,2)] state_merge_get [OF assms(1) cs]
    show ?thesis by (simp add: state_eqv_def fun_eq_iff)
  next
    case False
    with ok w obtain e e' where "state_merge base bs = Inl e" "state_merge base cs = Inl e'"
      by (metis sum.exhaust)
    then show ?thesis by simp
  qed
qed

theorem state_merge_order_independent_witness:
  "case (state_merge [(''a'', 1::nat)] [[(''a'', 1), (''b'', 2)], []],
         state_merge [(''a'', 1)] [[], [(''a'', 1), (''b'', 2)]]) of
     (Inr m, Inr m') \<Rightarrow> state_eqv m m' | (Inl _, Inl _) \<Rightarrow> True | _ \<Rightarrow> False"
  by (rule state_merge_order_independent) simp_all

end
