(* ===== verification/Engine.thy ===== *)
theory Engine
  imports State_Core
begin

text \<open>
  The error types of the graph engine (\<open>error/mod.rs\<close>, \<open>durable/model.rs\<close>) and the
  execution engine (\<open>exec/execution_engine.rs\<close>, \<open>node/node_context.rs\<close>): what a node
  may do through its context, and how the engine buffers and commits it.

  A node is user code. It sees the state and the cancellation flag and produces a list of
  calls on its context (\<open>node_op\<close>), because no context method but \<open>state()\<close> and
  \<open>is_cancelled()\<close> returns information; a leaf node can issue the \<open>leaf_op\<close>s only,
  since its context borrows the state immutably. The type variable \<open>'w\<close> is everything
  outside the engine that nodes and sinks may read and change.
\<close>

section \<open>Errors\<close>

datatype durable_error =
    Busy
  | NotFound
  | AlreadyExists
  | UnsupportedFormat
  | Incompatible string
  | Conflict string
  | Unsupported string
  | Suspended
  | Stopped
  | BranchCancelled
  | Io string
  | Codec string

text \<open>
  Where the source turns a nested error into its display text, the model keeps the error
  itself (\<open>SourceError\<close>, the second component in \<open>ParallelFailures\<close>, \<open>StateError\<close>);
  a state error whose text is not that of a failed merge is \<open>StateText\<close>.
\<close>

datatype terminal_error =
    Durable durable_error
  | ParallelFailures "(string \<times> terminal_error) list"
  | InvalidGraph string
  | NodeNotFound string
  | MissingEdge string string
  | NodeExecutionFailed string failure_source
  | StepsExceeded nat
  | LoopLimitExceeded nat
  | BarrierTimeout string nat
  | BarrierCancelled string
  | BarrierHandlerMissing string
  | Unrouted string "(string \<times> string option \<times> bool) list"
  | StateError merge_error
  | StateText string
  | CheckpointSaveFailed string
  | RestoreUnsupported string string
  | RestoreNotLatest string string
  | RestoreUnsupportedFormat nat nat
  | RestoreGraphMismatch "64 word" "64 word"
  | TraceNotFresh string string
  | CheckpointLoadFailed string
  | RestoreFailed string
and failure_source = SourceError terminal_error | SourceText string

section \<open>Control signals\<close>

record barrier_id =
  node_id :: string
  occurrence :: "32 word"

datatype execution_signal = PauseSignal barrier_id "nat option"

datatype next_action = Next | GotoNode string | EndRun

record execution_control =
  ctl_next :: "next_action option"
  ctl_signal :: "execution_signal option"

definition control_new :: execution_control where
  "control_new = \<lparr>ctl_next = None, ctl_signal = None\<rparr>"

definition control_goto :: "string \<Rightarrow> execution_control \<Rightarrow> execution_control" where
  "control_goto target c = c\<lparr>ctl_next := Some (GotoNode target)\<rparr>"

definition control_end :: "execution_control \<Rightarrow> execution_control" where
  "control_end c = c\<lparr>ctl_next := Some EndRun\<rparr>"

definition control_pause :: "barrier_id \<Rightarrow> nat option \<Rightarrow> execution_control \<Rightarrow> execution_control" where
  "control_pause bid timeout c = c\<lparr>ctl_signal := Some (PauseSignal bid timeout)\<rparr>"

definition control_take ::
  "execution_control \<Rightarrow> (next_action \<times> execution_signal option) \<times> execution_control" where
  "control_take c =
     ((case ctl_next c of None \<Rightarrow> Next | Some a \<Rightarrow> a, ctl_signal c),
      c\<lparr>ctl_next := None, ctl_signal := None\<rparr>)"

lemma control_take_new [simp]: "snd (control_take c) = control_new"
  by (simp add: control_take_def control_new_def)

record node_metadata =
  token_cost :: "64 word"
  has_side_effects :: bool

definition metadata_default :: node_metadata where
  "metadata_default = \<lparr>token_cost = 0, has_side_effects = False\<rparr>"

section \<open>The engine and the node contexts\<close>

text \<open>
  \<open>eng_stream\<close> is the stream sink: \<open>None\<close> without one, else the chunks emitted so
  far in order.
\<close>

record ('s, 'm, 'k) engine =
  eng_state :: 's
  eng_stream :: "'k list option"
  eng_cancelled :: bool
  eng_control :: execution_control
  eng_metadata :: node_metadata
  eng_mutations :: "'m list"

definition engine_new :: "'s \<Rightarrow> 'k list option \<Rightarrow> bool \<Rightarrow> ('s, 'm, 'k) engine" where
  "engine_new s stream cancelled =
     \<lparr>eng_state = s, eng_stream = stream, eng_cancelled = cancelled,
      eng_control = control_new, eng_metadata = metadata_default, eng_mutations = []\<rparr>"

datatype ('m, 'k) leaf_op =
    Record 'm
  | Emit 'k
  | Goto string
  | End
  | Pause barrier_id "nat option"
  | SetTokenCost "64 word"
  | SetHasSideEffects
  | CancelToken

datatype ('s, 'm, 'k) node_op = Leaf "('m, 'k) leaf_op" | ReplaceState 's

fun exec_leaf_op :: "('m, 'k) leaf_op \<Rightarrow> ('s, 'm, 'k) engine \<Rightarrow> ('s, 'm, 'k) engine" where
  "exec_leaf_op (Record m) e = e\<lparr>eng_mutations := eng_mutations e @ [m]\<rparr>"
| "exec_leaf_op (Emit c) e =
     (case eng_stream e of None \<Rightarrow> e | Some cs \<Rightarrow> e\<lparr>eng_stream := Some (cs @ [c])\<rparr>)"
| "exec_leaf_op (Goto t) e = e\<lparr>eng_control := control_goto t (eng_control e)\<rparr>"
| "exec_leaf_op End e = e\<lparr>eng_control := control_end (eng_control e)\<rparr>"
| "exec_leaf_op (Pause bid timeout) e = e\<lparr>eng_control := control_pause bid timeout (eng_control e)\<rparr>"
| "exec_leaf_op (SetTokenCost c) e = e\<lparr>eng_metadata := (eng_metadata e)\<lparr>token_cost := c\<rparr>\<rparr>"
| "exec_leaf_op SetHasSideEffects e = e\<lparr>eng_metadata := (eng_metadata e)\<lparr>has_side_effects := True\<rparr>\<rparr>"
| "exec_leaf_op CancelToken e = e\<lparr>eng_cancelled := True\<rparr>"

fun exec_node_op :: "('s, 'm, 'k) node_op \<Rightarrow> ('s, 'm, 'k) engine \<Rightarrow> ('s, 'm, 'k) engine" where
  "exec_node_op (Leaf l) e = exec_leaf_op l e"
| "exec_node_op (ReplaceState s) e = e\<lparr>eng_state := s\<rparr>"

definition exec_leaf_ops :: "('m, 'k) leaf_op list \<Rightarrow> ('s, 'm, 'k) engine \<Rightarrow> ('s, 'm, 'k) engine" where
  "exec_leaf_ops ops e = foldl (\<lambda>e l. exec_leaf_op l e) e ops"

definition exec_node_ops :: "('s, 'm, 'k) node_op list \<Rightarrow> ('s, 'm, 'k) engine \<Rightarrow> ('s, 'm, 'k) engine" where
  "exec_node_ops ops e = foldl (\<lambda>e n. exec_node_op n e) e ops"

definition take_commit_batch :: "('s, 'm, 'k) engine \<Rightarrow> 'm list \<times> ('s, 'm, 'k) engine" where
  "take_commit_batch e = (eng_mutations e, e\<lparr>eng_mutations := []\<rparr>)"

definition apply_batch_to_state ::
  "('s, 'm, 'c) workflow_ops \<Rightarrow> 'm list \<Rightarrow> ('s, 'm, 'k) engine \<Rightarrow> ('s, 'm, 'k) engine" where
  "apply_batch_to_state ops ms e =
     (if ms \<noteq> [] then e\<lparr>eng_state := apply_batch ops ms (eng_state e)\<rparr> else e)"

definition commit :: "('s, 'm, 'c) workflow_ops \<Rightarrow> ('s, 'm, 'k) engine \<Rightarrow> ('s, 'm, 'k) engine" where
  "commit ops e = (let (batch, e') = take_commit_batch e in apply_batch_to_state ops batch e')"

definition take_control ::
  "('s, 'm, 'k) engine \<Rightarrow> (next_action \<times> execution_signal option) \<times> ('s, 'm, 'k) engine" where
  "take_control e = (let (r, c) = control_take (eng_control e) in (r, e\<lparr>eng_control := c\<rparr>))"

definition take_metadata :: "('s, 'm, 'k) engine \<Rightarrow> node_metadata \<times> ('s, 'm, 'k) engine" where
  "take_metadata e = (eng_metadata e, e\<lparr>eng_metadata := metadata_default\<rparr>)"

section \<open>Facts about contexts and commits\<close>

lemma exec_leaf_op_state [frame_simps]: "eng_state (exec_leaf_op l e) = eng_state e"
  by (cases l) (auto split: option.splits)

lemma exec_leaf_ops_state [frame_simps]: "eng_state (exec_leaf_ops ls e) = eng_state e"
  unfolding exec_leaf_ops_def
  by (induction ls rule: rev_induct) (auto simp: frame_simps)

fun recorded :: "('m, 'k) leaf_op list \<Rightarrow> 'm list" where
  "recorded [] = []"
| "recorded (Record m # ls) = m # recorded ls"
| "recorded (_ # ls) = recorded ls"

lemma exec_leaf_ops_Cons: "exec_leaf_ops (l # ls) e = exec_leaf_ops ls (exec_leaf_op l e)"
  by (simp add: exec_leaf_ops_def)

lemma exec_leaf_ops_mutations:
  "eng_mutations (exec_leaf_ops ls e) = eng_mutations e @ recorded ls"
proof (induction ls arbitrary: e)
  case Nil
  show ?case by (simp add: exec_leaf_ops_def)
next
  case (Cons l ls)
  then show ?case
    by (cases l) (auto simp: exec_leaf_ops_Cons split: option.splits)
qed

lemma commit_simps [simp]:
  "eng_state (commit ops e) = apply_batch ops (eng_mutations e) (eng_state e)"
  "eng_mutations (commit ops e) = []"
  "eng_control (commit ops e) = eng_control e"
  "eng_cancelled (commit ops e) = eng_cancelled e"
  "eng_stream (commit ops e) = eng_stream e"
  "eng_metadata (commit ops e) = eng_metadata e"
  by (simp_all add: commit_def take_commit_batch_def apply_batch_to_state_def)

lemma take_control_simps [simp]:
  "eng_state (snd (take_control e)) = eng_state e"
  "eng_mutations (snd (take_control e)) = eng_mutations e"
  "eng_control (snd (take_control e)) = control_new"
  "eng_cancelled (snd (take_control e)) = eng_cancelled e"
  "eng_stream (snd (take_control e)) = eng_stream e"
  "eng_metadata (snd (take_control e)) = eng_metadata e"
  by (simp_all add: take_control_def split_beta)

text \<open>
  A leaf node changes the state through its recorded mutations only, and only when the
  engine commits: until then the state is untouched, and the commit applies exactly the
  recorded mutations, in the order they were recorded.
\<close>

theorem leaf_effects_are_the_recorded_mutations:
  "eng_state (exec_leaf_ops ls (engine_new s stream cancelled)) = s
   \<and> eng_state (commit ops (exec_leaf_ops ls (engine_new s stream cancelled)))
       = apply_batch ops (recorded ls) s
   \<and> eng_mutations (commit ops (exec_leaf_ops ls (engine_new s stream cancelled))) = []"
  by (simp add: exec_leaf_ops_mutations frame_simps engine_new_def)

end
