(* ===== verification/Graph_Core.thy ===== *)
theory Graph_Core
  imports Engine "HOL-Library.List_Lexorder" "HOL-Library.Char_ord"
begin

unbundle bit_operations_syntax

text \<open>
  The graph data type (\<open>graph/graph_core.rs\<close>, \<open>node/*.rs\<close>): edges of three classes,
  node kinds, route resolution and the structural validations; and the graph builder with
  the structural hash (\<open>graph/graph_builder.rs\<close>).
\<close>

section \<open>Edges\<close>

record edge_analysis =
  max_visits :: "nat option"

record 's edge =
  e_from :: string
  e_to :: string
  e_condition :: "('s \<Rightarrow> bool) option"
  e_analysis :: "edge_analysis option"
  e_fallback :: bool

definition is_conditional :: "'s edge \<Rightarrow> bool" where
  "is_conditional e \<longleftrightarrow> e_condition e \<noteq> None \<and> \<not> e_fallback e"

definition is_normal :: "'s edge \<Rightarrow> bool" where
  "is_normal e \<longleftrightarrow> e_condition e = None \<and> \<not> e_fallback e"

definition edge_fires :: "'s \<Rightarrow> 's edge \<Rightarrow> bool" where
  "edge_fires s e \<longleftrightarrow> is_conditional e \<and> (case e_condition e of None \<Rightarrow> False | Some c \<Rightarrow> c s)"

section \<open>Nodes\<close>

datatype barrier_default_action = RejectDefault | ApproveDefault | SkipDefault

record barrier_node =
  bn_name :: string
  bn_timeout :: "nat option"
  bn_default_action :: barrier_default_action
  bn_reject_key :: string
  bn_approve_key :: string
  bn_reject_target :: "string option"

definition barrier_new :: "string \<Rightarrow> barrier_node" where
  "barrier_new name = \<lparr>bn_name = name, bn_timeout = None, bn_default_action = RejectDefault,
     bn_reject_key = name @ ''.reject_reason'', bn_approve_key = name @ ''.approved'',
     bn_reject_target = None\<rparr>"

text \<open>
  A node function reads the world, the state and the cancellation flag, and returns the new
  world, its calls on the context in order, and its error, if any.
\<close>

type_synonym ('s, 'm, 'k, 'w) node_fn =
  "'w \<Rightarrow> 's \<Rightarrow> bool \<Rightarrow> 'w \<times> ('s, 'm, 'k) node_op list \<times> terminal_error option"

type_synonym ('s, 'm, 'k, 'w) leaf_fn =
  "'w \<Rightarrow> 's \<Rightarrow> bool \<Rightarrow> 'w \<times> ('m, 'k) leaf_op list \<times> terminal_error option"

datatype error_strategy = FailFast | CollectAll

text \<open>
  The durable signature of a graph is a JSON text; the model keeps the value that is
  serialised: the canonical hash, the end points, the nodes in order with their kind and
  nested signature, and the edges in order.
\<close>

datatype signature =
    GraphSignature "64 word" string string "(string \<times> string \<times> signature option) list"
      "(string \<times> string \<times> bool \<times> bool) list"
  | BudgetSignature nat signature
  | ParallelSignature error_strategy "(string \<times> signature option) list"

text \<open>A \<open>dyn FlowNode\<close> (and the branches of a parallel node).\<close>

record ('s, 'm, 'k, 'w) flow_node =
  fn_approval :: "terminal_error option"
  fn_durable :: "terminal_error option"
  fn_signature :: "signature option"
  fn_execute :: "('s, 'm, 'k, 'w) node_fn"

text \<open>
  A \<open>dyn StateProjector\<close>: the compiled subgraph of a node. It changes the outer state in
  place (also when it fails), may emit chunks and may set the cancellation flag.
\<close>

record ('s, 'k, 'w) projector =
  sp_approval :: "terminal_error option"
  sp_durable :: "terminal_error option"
  sp_signature :: "signature option"
  sp_execute :: "'w \<Rightarrow> 's \<Rightarrow> bool \<Rightarrow> 'w \<times> 's \<times> 'k list \<times> bool \<times> terminal_error option"

record ('s, 'm, 'k, 'w) parallel_node =
  pn_branches :: "(string \<times> ('s, 'm, 'k, 'w) flow_node) list"
  pn_strategy :: error_strategy
  pn_merge :: "'s \<Rightarrow> 's list \<Rightarrow> merge_error + 's"

datatype ('s, 'm, 'k, 'w) node_kind =
    Task "('s, 'm, 'k, 'w) node_fn"
  | Condition "(string \<times> ('s \<Rightarrow> bool)) list"
  | Barrier barrier_node
  | Parallel "('s, 'm, 'k, 'w) parallel_node"
  | External "('s, 'm, 'k, 'w) flow_node"
  | ExternalLeaf "('s, 'm, 'k, 'w) leaf_fn"
  | Subgraph "('s, 'k, 'w) projector"

section \<open>Graphs and routing\<close>

record ('s, 'm, 'k, 'w) graph =
  g_name :: string
  g_nodes :: "(string, ('s, 'm, 'k, 'w) node_kind) hashmap"
  g_edges :: "'s edge list"
  g_start :: string
  g_end :: string
  g_canonical_hash :: "64 word"

definition edges_from :: "('s, 'm, 'k, 'w) graph \<Rightarrow> string \<Rightarrow> 's edge list" where
  "edges_from g from = filter (\<lambda>e. e_from e = from) (g_edges g)"

definition find_edge :: "('s, 'm, 'k, 'w) graph \<Rightarrow> string \<Rightarrow> string \<Rightarrow> 's edge option" where
  "find_edge g from to = find (\<lambda>e. e_from e = from \<and> e_to e = to) (g_edges g)"

definition find_fallback_edge :: "('s, 'm, 'k, 'w) graph \<Rightarrow> string \<Rightarrow> string option" where
  "find_fallback_edge g from = map_option e_to (find (\<lambda>e. e_from e = from \<and> e_fallback e) (g_edges g))"

definition resolve_next :: "('s, 'm, 'k, 'w) graph \<Rightarrow> string \<Rightarrow> 's \<Rightarrow> string option" where
  "resolve_next g current s =
     (case find (edge_fires s) (edges_from g current) of
        Some e \<Rightarrow> Some (e_to e)
      | None \<Rightarrow>
          (case find is_normal (edges_from g current) of
             Some e \<Rightarrow> Some (e_to e)
           | None \<Rightarrow>
               (case find e_fallback (edges_from g current) of
                  Some e \<Rightarrow> Some (e_to e)
                | None \<Rightarrow> None)))"

definition resolve_next_inline :: "('s, 'm, 'k, 'w) graph \<Rightarrow> string \<Rightarrow> 's \<Rightarrow> terminal_error + string" where
  "resolve_next_inline g current s =
     (if edges_from g current = []
      then Inl (InvalidGraph (''node '' @ quoted current @ '' has no outgoing edges and is not the end node''))
      else ok_or (InvalidGraph (''node '' @ quoted current @ '' has no matching outgoing edge''))
             (resolve_next g current s))"

section \<open>The durable signature\<close>

definition parallel_signature :: "('s, 'm, 'k, 'w) parallel_node \<Rightarrow> signature" where
  "parallel_signature p =
     ParallelSignature (pn_strategy p) (map (\<lambda>(name, n). (name, fn_signature n)) (pn_branches p))"

fun nested_signature :: "('s, 'm, 'k, 'w) node_kind \<Rightarrow> signature option" where
  "nested_signature (Subgraph spec) = sp_signature spec"
| "nested_signature (Parallel p) = Some (parallel_signature p)"
| "nested_signature (External n) = fn_signature n"
| "nested_signature _ = None"

fun kind_name :: "('s, 'm, 'k, 'w) node_kind \<Rightarrow> string" where
  "kind_name (Task _) = ''task''"
| "kind_name (Condition _) = ''condition''"
| "kind_name (Barrier _) = ''barrier''"
| "kind_name (Parallel _) = ''parallel''"
| "kind_name (Subgraph _) = ''subgraph''"
| "kind_name (External _) = ''external''"
| "kind_name (ExternalLeaf _) = ''leaf''"

definition scope_signature :: "('s, 'm, 'k, 'w) graph \<Rightarrow> signature" where
  "scope_signature g =
     GraphSignature (g_canonical_hash g) (g_start g) (g_end g)
       (map (\<lambda>(name, kind). (name, kind_name kind, nested_signature kind)) (g_nodes g))
       (map (\<lambda>e. (e_from e, e_to e, e_condition e \<noteq> None, e_fallback e)) (g_edges g))"

section \<open>Structural validation\<close>

fun validate_edges :: "('s, 'm, 'k, 'w) graph \<Rightarrow> 's edge list \<Rightarrow> terminal_error option" where
  "validate_edges g [] = None"
| "validate_edges g (e # es) =
     (if \<not> hm_contains (g_nodes g) (e_from e)
      then Some (InvalidGraph (''edge references non-existent source node '' @ quoted (e_from e)))
      else if \<not> hm_contains (g_nodes g) (e_to e)
      then Some (InvalidGraph (''edge references non-existent target node '' @ quoted (e_to e)))
      else validate_edges g es)"

definition validate :: "('s, 'm, 'k, 'w) graph \<Rightarrow> terminal_error option" where
  "validate g =
     (if \<not> hm_contains (g_nodes g) (g_start g)
      then Some (InvalidGraph (''start node '' @ quoted (g_start g) @ '' not found''))
      else if \<not> hm_contains (g_nodes g) (g_end g)
      then Some (InvalidGraph (''end node '' @ quoted (g_end g) @ '' not found''))
      else validate_edges g (g_edges g))"

definition parallel_validate_approval :: "('s, 'm, 'k, 'w) parallel_node \<Rightarrow> terminal_error option" where
  "parallel_validate_approval p = first_error (\<lambda>(_, n). fn_approval n) (pn_branches p)"

fun node_validate_approval ::
  "bool \<Rightarrow> string \<times> ('s, 'm, 'k, 'w) node_kind \<Rightarrow> terminal_error option" where
  "node_validate_approval has_handler (name, Barrier _) =
     (if \<not> has_handler then Some (BarrierHandlerMissing name) else None)"
| "node_validate_approval _ (_, Subgraph spec) = sp_approval spec"
| "node_validate_approval _ (_, Parallel p) = parallel_validate_approval p"
| "node_validate_approval _ (_, External n) = fn_approval n"
| "node_validate_approval _ _ = None"

definition validate_approval_handlers :: "bool \<Rightarrow> ('s, 'm, 'k, 'w) graph \<Rightarrow> terminal_error option" where
  "validate_approval_handlers has_handler g = first_error (node_validate_approval has_handler) (g_nodes g)"

fun parallel_durable_branches ::
  "string list \<Rightarrow> (string \<times> ('s, 'm, 'k, 'w) flow_node) list \<Rightarrow> terminal_error option" where
  "parallel_durable_branches seen [] = None"
| "parallel_durable_branches seen ((name, n) # rest) =
     (if name \<in> set seen then Some (Durable (Conflict (''duplicate branch name '' @ name)))
      else case fn_durable n of Some e \<Rightarrow> Some e
           | None \<Rightarrow> parallel_durable_branches (name # seen) rest)"

definition parallel_validate_durable :: "('s, 'm, 'k, 'w) parallel_node \<Rightarrow> terminal_error option" where
  "parallel_validate_durable p = parallel_durable_branches [] (pn_branches p)"

fun node_validate_durable :: "string \<times> ('s, 'm, 'k, 'w) node_kind \<Rightarrow> terminal_error option" where
  "node_validate_durable (_, Subgraph spec) = sp_durable spec"
| "node_validate_durable (_, Parallel p) = parallel_validate_durable p"
| "node_validate_durable (_, External n) = fn_durable n"
| "node_validate_durable _ = None"

definition validate_durable :: "('s, 'm, 'k, 'w) graph \<Rightarrow> terminal_error option" where
  "validate_durable g = first_error node_validate_durable (g_nodes g)"

fun node_validate_persistable :: "string \<times> ('s, 'm, 'k, 'w) node_kind \<Rightarrow> terminal_error option" where
  "node_validate_persistable (name, Parallel _) = Some (RestoreUnsupported name ''Parallel'')"
| "node_validate_persistable (name, Subgraph _) = Some (RestoreUnsupported name ''Subgraph'')"
| "node_validate_persistable (name, Barrier _) = Some (RestoreUnsupported name ''Barrier'')"
| "node_validate_persistable _ = None"

definition validate_persistable :: "('s, 'm, 'k, 'w) graph \<Rightarrow> terminal_error option" where
  "validate_persistable g = first_error node_validate_persistable (g_nodes g)"

section \<open>The builder\<close>

datatype build_error =
    DuplicateNode string
  | MissingNode string string
  | MissingEntryPoint
  | MissingExitPoint
  | InvalidEdgeDefinition string string terminal_error
  | InvalidFallback string string

record ('s, 'm, 'k, 'w) graph_builder =
  gb_name :: string
  gb_nodes :: "(string, ('s, 'm, 'k, 'w) node_kind) hashmap"
  gb_edges :: "'s edge list"
  gb_start :: "string option"
  gb_end :: "string option"
  gb_hash :: "64 word option"

definition builder_new :: "string \<Rightarrow> ('s, 'm, 'k, 'w) graph_builder" where
  "builder_new name = \<lparr>gb_name = name, gb_nodes = [], gb_edges = [], gb_start = None,
     gb_end = None, gb_hash = None\<rparr>"

definition builder_start :: "string \<Rightarrow> ('s, 'm, 'k, 'w) graph_builder \<Rightarrow> ('s, 'm, 'k, 'w) graph_builder" where
  "builder_start n b = b\<lparr>gb_start := Some n\<rparr>"

definition builder_end :: "string \<Rightarrow> ('s, 'm, 'k, 'w) graph_builder \<Rightarrow> ('s, 'm, 'k, 'w) graph_builder" where
  "builder_end n b = b\<lparr>gb_end := Some n\<rparr>"

definition builder_canonical_hash :: "64 word \<Rightarrow> ('s, 'm, 'k, 'w) graph_builder \<Rightarrow> ('s, 'm, 'k, 'w) graph_builder" where
  "builder_canonical_hash h b = b\<lparr>gb_hash := Some h\<rparr>"

definition builder_node ::
  "string \<Rightarrow> ('s, 'm, 'k, 'w) node_kind \<Rightarrow> ('s, 'm, 'k, 'w) graph_builder \<Rightarrow> ('s, 'm, 'k, 'w) graph_builder" where
  "builder_node name kind b = b\<lparr>gb_nodes := hm_insert name kind (gb_nodes b)\<rparr>"

definition builder_edge ::
  "string \<Rightarrow> string \<Rightarrow> ('s, 'm, 'k, 'w) graph_builder \<Rightarrow> ('s, 'm, 'k, 'w) graph_builder" where
  "builder_edge from to b = b\<lparr>gb_edges := gb_edges b @
     [\<lparr>e_from = from, e_to = to, e_condition = None, e_analysis = None, e_fallback = False\<rparr>]\<rparr>"

definition builder_edge_if ::
  "string \<Rightarrow> string \<Rightarrow> ('s \<Rightarrow> bool) \<Rightarrow> ('s, 'm, 'k, 'w) graph_builder \<Rightarrow> ('s, 'm, 'k, 'w) graph_builder" where
  "builder_edge_if from to c b = b\<lparr>gb_edges := gb_edges b @
     [\<lparr>e_from = from, e_to = to, e_condition = Some c, e_analysis = None, e_fallback = False\<rparr>]\<rparr>"

definition builder_edge_fallback ::
  "string \<Rightarrow> string \<Rightarrow> ('s, 'm, 'k, 'w) graph_builder \<Rightarrow> ('s, 'm, 'k, 'w) graph_builder" where
  "builder_edge_fallback from to b = b\<lparr>gb_edges := gb_edges b @
     [\<lparr>e_from = from, e_to = to, e_condition = None, e_analysis = None, e_fallback = True\<rparr>]\<rparr>"

text \<open>
  \<open>max_visits\<close> is called on the handle of the edge just added, the last of the list.
\<close>

definition pending_max_visits :: "nat \<Rightarrow> ('s, 'm, 'k, 'w) graph_builder \<Rightarrow> ('s, 'm, 'k, 'w) graph_builder" where
  "pending_max_visits n b =
     b\<lparr>gb_edges := (let i = length (gb_edges b) - 1 in
        (gb_edges b)[i := (gb_edges b ! i)\<lparr>e_analysis := Some \<lparr>max_visits = Some n\<rparr>\<rparr>])\<rparr>"

subsection \<open>The structural hash\<close>

definition fnv_step :: "64 word \<Rightarrow> char \<Rightarrow> 64 word" where
  "fnv_step hash byte = (hash XOR of_nat (of_char byte)) * 0x100000001b3"

definition fnv_hash :: "string \<Rightarrow> 64 word" where
  "fnv_hash s = foldl fnv_step 0xcbf29ce484222325 s"

fun join :: "string \<Rightarrow> string list \<Rightarrow> string" where
  "join sep [] = []"
| "join sep [x] = x"
| "join sep (x # xs) = x @ sep @ join sep xs"

text \<open>\<open>{:?}\<close> of the condition mark prints it in double quotes.\<close>

definition edge_descr :: "'s edge \<Rightarrow> string" where
  "edge_descr e = e_from e @ ''->'' @ e_to e
     @ (if e_condition e \<noteq> None then [CHR 0x22, CHR 0x3F, CHR 0x22] else [CHR 0x22, CHR 0x22])
     @ (if e_fallback e then ''!'' else [])"

definition structural_text ::
  "(string, ('s, 'm, 'k, 'w) node_kind) hashmap \<Rightarrow> 's edge list \<Rightarrow> string" where
  "structural_text nodes edges =
     join '','' (sort (hm_keys nodes)) @ ''|'' @ join '','' (sort (map edge_descr edges))"

definition compute_structural_hash ::
  "(string, ('s, 'm, 'k, 'w) node_kind) hashmap \<Rightarrow> 's edge list \<Rightarrow> 64 word" where
  "compute_structural_hash nodes edges = fnv_hash (structural_text nodes edges)"

definition hash_u64 :: "('s, 'm, 'k, 'w) graph \<Rightarrow> 64 word" where
  "hash_u64 g = fnv_hash (structural_text (g_nodes g) (g_edges g))"

subsection \<open>Building\<close>

fun duplicate_errors :: "string list \<Rightarrow> string list \<Rightarrow> build_error list" where
  "duplicate_errors seen [] = []"
| "duplicate_errors seen (n # ns) =
     (if n \<in> set seen then DuplicateNode n # duplicate_errors seen ns
      else duplicate_errors (n # seen) ns)"

definition missing_node_errors ::
  "(string, ('s, 'm, 'k, 'w) node_kind) hashmap \<Rightarrow> 's edge \<Rightarrow> build_error list" where
  "missing_node_errors nodes e =
     (if \<not> hm_contains nodes (e_from e) then [MissingNode (e_from e) (e_to e)] else [])
     @ (if \<not> hm_contains nodes (e_to e) then [MissingNode (e_from e) (e_to e)] else [])"

definition build :: "('s, 'm, 'k, 'w) graph_builder \<Rightarrow> build_error list + ('s, 'm, 'k, 'w) graph" where
  "build b =
     (case gb_start b of
        None \<Rightarrow> Inl [MissingEntryPoint]
      | Some start \<Rightarrow>
     (case gb_end b of
        None \<Rightarrow> Inl [MissingExitPoint]
      | Some end_node \<Rightarrow>
     (let errors = duplicate_errors [] (hm_keys (gb_nodes b))
                   @ concat (map (missing_node_errors (gb_nodes b)) (gb_edges b)) in
      if errors \<noteq> [] then Inl errors
      else
        (let structural_hash = compute_structural_hash (gb_nodes b) (gb_edges b);
             g = \<lparr>g_name = gb_name b, g_nodes = gb_nodes b, g_edges = gb_edges b,
                  g_start = start, g_end = end_node,
                  g_canonical_hash = (case gb_hash b of None \<Rightarrow> structural_hash | Some h \<Rightarrow> h)\<rparr> in
         case validate g of
           Some e \<Rightarrow> Inl [InvalidEdgeDefinition ''graph'' ''graph'' e]
         | None \<Rightarrow> Inr g))))"


section \<open>Facts about routing and validation\<close>

definition has_node :: "('s, 'm, 'k, 'w) graph \<Rightarrow> string \<Rightarrow> bool" where
  "has_node g n \<longleftrightarrow> hm_get (g_nodes g) n \<noteq> None"

definition graph_wf :: "('s, 'm, 'k, 'w) graph \<Rightarrow> bool" where
  "graph_wf g \<longleftrightarrow> has_node g (g_start g) \<and> has_node g (g_end g)
     \<and> (\<forall>e \<in> set (g_edges g). has_node g (e_from e) \<and> has_node g (e_to e))"

lemma validate_edges_None:
  "validate_edges g es = None \<longleftrightarrow> (\<forall>e \<in> set es. has_node g (e_from e) \<and> has_node g (e_to e))"
  by (induction es) (auto simp: has_node_def hm_contains_iff)

lemma validate_None_iff: "validate g = None \<longleftrightarrow> graph_wf g"
  by (auto simp: validate_def graph_wf_def validate_edges_None has_node_def hm_contains_iff)

lemma validate_SomeD: "validate g = Some e \<Longrightarrow> \<not> graph_wf g"
  by (simp add: validate_None_iff [symmetric])

lemma find_SomeD: "find P xs = Some x \<Longrightarrow> x \<in> set xs \<and> P x"
  by (auto simp: find_Some_iff)

lemma resolve_next_edge:
  "resolve_next g c s = Some n \<Longrightarrow> \<exists>e \<in> set (g_edges g). e_from e = c \<and> e_to e = n"
  by (auto simp: resolve_next_def edges_from_def split: option.splits dest!: find_SomeD)

lemma resolve_next_inline_edge:
  "resolve_next_inline g c s = Inr n \<Longrightarrow> \<exists>e \<in> set (g_edges g). e_from e = c \<and> e_to e = n"
  by (auto simp: resolve_next_inline_def resolve_next_edge split: if_splits)

lemma resolve_next_inline_wf:
  "graph_wf g \<Longrightarrow> resolve_next_inline g c s = Inr n \<Longrightarrow> has_node g n"
  by (auto simp: graph_wf_def dest!: resolve_next_inline_edge)

text \<open>
  The class of an edge in a state: a conditional edge that holds, an edge without a
  condition, a fallback edge (with or without one); a conditional edge that does not hold
  has none and does not qualify.
\<close>

definition edge_rank :: "'s \<Rightarrow> 's edge \<Rightarrow> nat option" where
  "edge_rank s e =
     (if e_fallback e then Some 2
      else case e_condition e of None \<Rightarrow> Some 1 | Some holds \<Rightarrow> (if holds s then Some 0 else None))"

lemma edge_rank_class:
  "edge_rank s e = (if edge_fires s e then Some 0 else if is_normal e then Some 1
     else if e_fallback e then Some 2 else None)"
  by (auto simp: edge_rank_def edge_fires_def is_conditional_def is_normal_def split: option.splits)

definition outranks :: "'s \<Rightarrow> 's edge \<Rightarrow> 's edge \<Rightarrow> bool \<Rightarrow> bool" where
  "outranks s e e' strict \<longleftrightarrow>
     (case (edge_rank s e, edge_rank s e') of
        (Some r, Some r') \<Rightarrow> (if strict then r < r' else r \<le> r')
      | (Some _, None) \<Rightarrow> True
      | _ \<Rightarrow> False)"

lemma find_split:
  "find P xs = Some x \<Longrightarrow> \<exists>pre post. xs = pre @ x # post \<and> P x \<and> (\<forall>y \<in> set pre. \<not> P y)"
  by (induction xs) (auto split: if_splits, metis append_Nil empty_iff list.set(1),
      metis Cons_eq_appendI set_ConsD)

lemma find_None_all: "find P xs = None \<Longrightarrow> y \<in> set xs \<Longrightarrow> \<not> P y"
  by (simp add: find_None_iff)

lemma resolve_next_best:
  assumes "resolve_next g c s = Some n"
  shows "\<exists>pre e post. edges_from g c = pre @ e # post \<and> e_to e = n \<and> edge_rank s e \<noteq> None
           \<and> (\<forall>e' \<in> set pre. outranks s e e' True) \<and> (\<forall>e' \<in> set post. outranks s e e' False)"
proof -
  let ?es = "edges_from g c"
  consider e where "find (edge_fires s) ?es = Some e" "n = e_to e"
    | e where "find (edge_fires s) ?es = None" "find is_normal ?es = Some e" "n = e_to e"
    | e where "find (edge_fires s) ?es = None" "find is_normal ?es = None"
        "find e_fallback ?es = Some e" "n = e_to e"
    using assms by (auto simp: resolve_next_def split: option.splits)
  then show ?thesis
  proof cases
    case 1
    from find_split [OF 1(1)] obtain pre post where "?es = pre @ e # post" "edge_fires s e"
      "\<forall>y \<in> set pre. \<not> edge_fires s y" by blast
    with 1(2) show ?thesis
      by (intro exI [of _ pre] exI [of _ e] exI [of _ post])
         (auto simp: outranks_def edge_rank_class)
  next
    case 2
    from find_split [OF 2(2)] obtain pre post where es: "?es = pre @ e # post" "is_normal e"
      "\<forall>y \<in> set pre. \<not> is_normal y" by blast
    with find_None_all [OF 2(1)] have "\<forall>y \<in> set pre \<union> {e} \<union> set post. \<not> edge_fires s y" by auto
    with es 2(3) show ?thesis
      by (intro exI [of _ pre] exI [of _ e] exI [of _ post])
         (auto simp: outranks_def edge_rank_class)
  next
    case 3
    from find_split [OF 3(3)] obtain pre post where es: "?es = pre @ e # post" "e_fallback e"
      "\<forall>y \<in> set pre. \<not> e_fallback y" by blast
    with find_None_all [OF 3(1)] find_None_all [OF 3(2)]
    have "\<forall>y \<in> set pre \<union> {e} \<union> set post. \<not> edge_fires s y \<and> \<not> is_normal y" by auto
    with es 3(4) show ?thesis
      by (intro exI [of _ pre] exI [of _ e] exI [of _ post])
         (auto simp: outranks_def edge_rank_class)
  qed
qed

lemma resolve_next_None_iff:
  "resolve_next g c s = None \<longleftrightarrow> (\<forall>e \<in> set (edges_from g c). edge_rank s e = None)"
proof (cases "resolve_next g c s")
  case None
  then show ?thesis
    by (auto simp: resolve_next_def edge_rank_class find_None_iff split: option.splits)
next
  case (Some n)
  then obtain e where "e \<in> set (edges_from g c)" "edge_rank s e \<noteq> None"
    by (auto simp: resolve_next_def edge_rank_class split: option.splits dest!: find_SomeD)
  with Some show ?thesis by auto
qed

text \<open>
  C27: Route resolution follows an outgoing edge that qualifies, the first of the best class: a
  conditional edge whose condition holds beats every normal edge, a normal edge beats every
  fallback edge, and within a class the edge registered first wins. So it fails exactly when
  every outgoing edge is a conditional edge that does not hold.
\<close>

theorem routing_follows_the_best_edge:
  "case resolve_next_inline g c s of
     Inr n \<Rightarrow> \<exists>pre e post. edges_from g c = pre @ e # post \<and> e_to e = n \<and> edge_rank s e \<noteq> None
                \<and> list_all (\<lambda>e'. outranks s e e' True) pre \<and> list_all (\<lambda>e'. outranks s e e' False) post
   | Inl _ \<Rightarrow> list_all (\<lambda>e. edge_rank s e = None) (edges_from g c)"
proof (cases "resolve_next_inline g c s")
  case (Inl e)
  then show ?thesis
    by (auto simp: resolve_next_inline_def resolve_next_None_iff list_all_iff split: if_splits)
next
  case (Inr n)
  then have "resolve_next g c s = Some n" by (simp add: resolve_next_inline_def split: if_splits)
  from resolve_next_best [OF this] Inr show ?thesis by (simp add: list_all_iff)
qed

section \<open>Facts about the builder\<close>

lemma duplicate_errors_distinct:
  "distinct ns \<Longrightarrow> set ns \<inter> set seen = {} \<Longrightarrow> duplicate_errors seen ns = []"
  by (induction seen ns rule: duplicate_errors.induct) auto

lemma builder_ok:
  "hm_ok (gb_nodes (builder_new name))"
  "hm_ok (gb_nodes b) \<Longrightarrow> hm_ok (gb_nodes (builder_node n k b))"
  by (simp_all add: builder_new_def builder_node_def)

definition builder_wf :: "('s, 'm, 'k, 'w) graph_builder \<Rightarrow> bool" where
  "builder_wf b \<longleftrightarrow>
     (\<exists>s t. gb_start b = Some s \<and> gb_end b = Some t \<and> hm_contains (gb_nodes b) s \<and> hm_contains (gb_nodes b) t)
     \<and> (\<forall>e \<in> set (gb_edges b). hm_contains (gb_nodes b) (e_from e) \<and> hm_contains (gb_nodes b) (e_to e))"

lemma missing_node_errors_Nil:
  "missing_node_errors nodes e = [] \<longleftrightarrow> hm_contains nodes (e_from e) \<and> hm_contains nodes (e_to e)"
  by (auto simp: missing_node_errors_def)

lemma build_InrD: "build b = Inr g \<Longrightarrow> validate g = None \<and> g_nodes g = gb_nodes b \<and> g_edges g = gb_edges b"
  by (auto simp: build_def Let_def split: option.splits if_splits)

lemma build_spec:
  assumes "hm_ok (gb_nodes b)"
  shows "case build b of
           Inr g \<Rightarrow> builder_wf b \<and> graph_wf g \<and> g_nodes g = gb_nodes b \<and> g_edges g = gb_edges b
         | Inl errors \<Rightarrow> \<not> builder_wf b \<and> (\<forall>n. DuplicateNode n \<notin> set errors)"
proof -
  have dup: "duplicate_errors [] (hm_keys (gb_nodes b)) = []"
    using assms by (intro duplicate_errors_distinct) (auto simp: hm_ok_def)
  show ?thesis
  proof (cases "build b")
    case (Inr g)
    with build_InrD [OF Inr] dup show ?thesis
      by (auto simp: validate_None_iff build_def Let_def builder_wf_def graph_wf_def has_node_def
          hm_contains_iff split: option.splits if_splits)
  next
    case (Inl errors)
    with dup show ?thesis
      by (auto simp: build_def Let_def builder_wf_def graph_wf_def has_node_def
          hm_contains_iff missing_node_errors_def split: option.splits if_splits dest!: validate_SomeD)
  qed
qed

text \<open>
  C28: On a builder filled through its methods, \<open>build\<close> returns a graph exactly when the
  entry and exit points are set and name nodes, and every edge joins two nodes; the graph
  it returns passes \<open>validate\<close>, and no \<open>DuplicateNode\<close> error is ever reported.
\<close>

theorem build_accepts_exactly_wellformed:
  assumes "hm_ok (gb_nodes b)"
  shows "case build b of
           Inr g \<Rightarrow> builder_wf b \<and> graph_wf g \<and> g_nodes g = gb_nodes b \<and> g_edges g = gb_edges b
         | Inl errors \<Rightarrow> \<not> builder_wf b \<and> (\<forall>n. DuplicateNode n \<notin> set errors)"
  using assms by (rule build_spec)

theorem build_accepts_exactly_wellformed_witness:
  "case build (builder_edge ''a'' ''b'' (builder_node ''b'' (Condition []) (builder_node ''a'' (Condition [])
       (builder_end ''b'' (builder_start ''a'' (builder_new ''g'' :: (nat, nat, nat, nat) graph_builder)))))) of
     Inr g \<Rightarrow> graph_wf g | Inl errors \<Rightarrow> False"
  using build_accepts_exactly_wellformed [of "builder_edge ''a'' ''b'' (builder_node ''b'' (Condition [])
      (builder_node ''a'' (Condition []) (builder_end ''b'' (builder_start ''a''
        (builder_new ''g'' :: (nat, nat, nat, nat) graph_builder)))))"]
  by (auto simp: builder_wf_def builder_edge_def builder_node_def builder_start_def builder_end_def
      builder_new_def split: sum.splits)

lemma sort_mset_cong: "mset xs = mset ys \<Longrightarrow> sort xs = sort ys"
  by (metis mset_sort properties_for_sort sorted_sort)

text \<open>
  The structural hash does not depend on the order in which nodes and edges were
  registered: two builders with the same node names and the same multiset of edge
  descriptions have the same hash.
\<close>

theorem structural_hash_order_free:
  assumes "mset (hm_keys nodes) = mset (hm_keys nodes')"
    and "mset (map edge_descr edges) = mset (map edge_descr edges')"
  shows "compute_structural_hash nodes edges = compute_structural_hash nodes' edges'"
  using sort_mset_cong [OF assms(1)] sort_mset_cong [OF assms(2)]
  by (simp add: compute_structural_hash_def structural_text_def)

theorem structural_hash_order_free_witness:
  fixes k :: "(nat, nat, nat, nat) node_kind" and e1 e2 :: "nat edge"
  defines "k \<equiv> Condition []"
    and "e1 \<equiv> \<lparr>e_from = ''a'', e_to = ''b'', e_condition = None, e_analysis = None, e_fallback = False\<rparr>"
    and "e2 \<equiv> \<lparr>e_from = ''b'', e_to = ''a'', e_condition = None, e_analysis = None, e_fallback = True\<rparr>"
  shows "compute_structural_hash [(''a'', k), (''b'', k)] [e1, e2]
       = compute_structural_hash [(''b'', k), (''a'', k)] [e2, e1]"
  by (rule structural_hash_order_free) auto

text \<open>
  The same insensitivity applies to edges whose order decides routing: there are two
  buildable graphs with the same canonical hash that route the same node in the same state
  to different successors. A checkpoint of one passes the fingerprint check of the other.
\<close>

theorem canonical_hash_ignores_routing_order:
  "\<exists>(b1 :: (nat, nat, nat, nat) graph_builder) (b2 :: (nat, nat, nat, nat) graph_builder) g1 g2.
     build b1 = Inr g1 \<and> build b2 = Inr g2 \<and> g_canonical_hash g1 = g_canonical_hash g2
     \<and> resolve_next g1 ''a'' (0::nat) = Some ''b'' \<and> resolve_next g2 ''a'' 0 = Some ''c''"
proof -
  define b0 :: "(nat, nat, nat, nat) graph_builder" where
    "b0 = builder_node ''c'' (Condition []) (builder_node ''b'' (Condition []) (builder_node ''a'' (Condition [])
            (builder_end ''c'' (builder_start ''a'' (builder_new ''g'')))))"
  define b1 where "b1 = builder_edge ''a'' ''c'' (builder_edge ''a'' ''b'' b0)"
  define b2 where "b2 = builder_edge ''a'' ''b'' (builder_edge ''a'' ''c'' b0)"
  note defs = b0_def b1_def b2_def builder_edge_def builder_node_def builder_start_def
    builder_end_def builder_new_def
  have hash: "compute_structural_hash (gb_nodes b1) (gb_edges b1) = compute_structural_hash (gb_nodes b2) (gb_edges b2)"
    unfolding compute_structural_hash_def structural_text_def
    by (intro arg_cong [where f = fnv_hash] arg_cong2 [where f = "(@)"] arg_cong [where f = "join _"]
        sort_mset_cong refl) (simp_all add: defs)
  have "\<exists>g1. build b1 = Inr g1" "\<exists>g2. build b2 = Inr g2"
    by (simp_all add: build_def defs Let_def missing_node_errors_def validate_def)
  then obtain g1 g2 where g: "build b1 = Inr g1" "build b2 = Inr g2" by blast
  have h: "g_canonical_hash g1 = g_canonical_hash g2"
    using g hash by (auto simp: build_def Let_def b0_def b1_def b2_def builder_edge_def builder_node_def
        builder_start_def builder_end_def builder_new_def split: if_splits option.splits)
  have e: "g_edges g1 = gb_edges b1" "g_edges g2 = gb_edges b2"
    using build_InrD [OF g(1)] build_InrD [OF g(2)] by blast+
  have r: "resolve_next g1 ''a'' (0::nat) = Some ''b''" "resolve_next g2 ''a'' (0::nat) = Some ''c''"
    by (simp_all add: resolve_next_def edges_from_def e edge_fires_def is_conditional_def is_normal_def defs)
  show ?thesis
    by (intro exI conjI, rule g(1), rule g(2), rule h, rule r(1), rule r(2))
qed

end
