(* ===== verification/Run_Loop.thy ===== *)
theory Run_Loop
  imports Graph_Core
begin

text \<open>
  The execution loop of a graph (\<open>graph/run_loop.rs\<close>) outside a durable run, with the
  dispatch on node kinds, the barrier decision, the route and the checkpoint boundary; and
  parallel nodes (\<open>node/parallel_execute.rs\<close>), graph branches
  (\<open>node/graph_branch.rs\<close>) and subgraphs (\<open>node/subgraph_spec.rs\<close>), which run the
  same loop inside a node.

  The loop is a \<open>function\<close> whose measure is the step budget that is left. One iteration
  is \<open>loop_step\<close>; its result says whether the run stops or goes on, with which node and
  which step count.
\<close>

section \<open>Barrier decisions, sinks, callbacks\<close>

datatype barrier_decision =
    Approve
  | Reject string
  | Modify string json
  | Reroute string

datatype barrier_outcome = Decision barrier_decision | TimedOut | Cancelled

record frame_info =
  fi_next_node :: "string option"
  fi_step :: nat

text \<open>
  The sinks the caller lends to the engine: \<open>on_checkpoint\<close> (with the display text of
  its error) and \<open>wait_decision\<close>.
\<close>

record ('s, 'w) sinks =
  sk_checkpoint :: "('w \<Rightarrow> 's \<Rightarrow> frame_info \<Rightarrow> 'w \<times> string option) option"
  sk_barrier :: "('w \<Rightarrow> barrier_id \<Rightarrow> nat option \<Rightarrow> 'w \<times> barrier_outcome) option"

definition no_sinks :: "('s, 'w) sinks" where
  "no_sinks = \<lparr>sk_checkpoint = None, sk_barrier = None\<rparr>"

datatype step_event =
    NodeStart string nat
  | NodeEnd string nat bool
  | BarrierWaiting barrier_id string

text \<open>
  The state of a run: the engine, the world, the occurrence counters of the barrier nodes
  (an \<open>AtomicU32\<close> per node) and the calls made on the step callback.
\<close>

record ('s, 'm, 'k, 'w) run_state =
  rs_engine :: "('s, 'm, 'k) engine"
  rs_world :: 'w
  rs_occurrences :: "string \<Rightarrow> 32 word"
  rs_log :: "step_event list"

text \<open>
  The environment of a run: the \<open>WorkflowState\<close> operations and the order in which the
  executor completes \<open>n\<close> concurrent branches.
\<close>

record ('s, 'm, 'c, 'w) run_env =
  re_ops :: "('s, 'm, 'c) workflow_ops"
  re_schedule :: "'w \<Rightarrow> nat \<Rightarrow> nat list"

definition log_event :: "step_event \<Rightarrow> ('s, 'm, 'k, 'w) run_state \<Rightarrow> ('s, 'm, 'k, 'w) run_state" where
  "log_event ev rs = rs\<lparr>rs_log := rs_log rs @ [ev]\<rparr>"

section \<open>Executing one node\<close>

type_synonym ('s, 'm, 'k, 'w) run_result = "terminal_error option \<times> ('s, 'm, 'k, 'w) run_state"

definition run_node_fn ::
  "('s, 'm, 'k, 'w) node_fn \<Rightarrow> ('s, 'm, 'k, 'w) run_state \<Rightarrow> ('s, 'm, 'k, 'w) run_result" where
  "run_node_fn f rs =
     (case f (rs_world rs) (eng_state (rs_engine rs)) (eng_cancelled (rs_engine rs)) of
        (w, ops, err) \<Rightarrow>
          (err, rs\<lparr>rs_world := w, rs_engine := exec_node_ops ops (rs_engine rs)\<rparr>))"

definition run_leaf_fn ::
  "('s, 'm, 'k, 'w) leaf_fn \<Rightarrow> ('s, 'm, 'k, 'w) run_state \<Rightarrow> ('s, 'm, 'k, 'w) run_result" where
  "run_leaf_fn f rs =
     (case f (rs_world rs) (eng_state (rs_engine rs)) (eng_cancelled (rs_engine rs)) of
        (w, ops, err) \<Rightarrow>
          (err, rs\<lparr>rs_world := w, rs_engine := exec_leaf_ops ops (rs_engine rs)\<rparr>))"

definition condition_execute ::
  "(string \<times> ('s \<Rightarrow> bool)) list \<Rightarrow> ('s, 'm, 'k, 'w) run_state \<Rightarrow> ('s, 'm, 'k, 'w) run_result" where
  "condition_execute branches rs =
     (case find (\<lambda>(_, c). c (eng_state (rs_engine rs))) branches of
        Some (target, _) \<Rightarrow> (None, rs\<lparr>rs_engine := exec_leaf_op (Goto target) (rs_engine rs)\<rparr>)
      | None \<Rightarrow> (None, rs))"

definition barrier_execute ::
  "string \<Rightarrow> barrier_node \<Rightarrow> ('s, 'm, 'k, 'w) run_state \<Rightarrow> ('s, 'm, 'k, 'w) run_result" where
  "barrier_execute key b rs =
     (let occ = rs_occurrences rs key;
          bid = \<lparr>node_id = bn_name b, occurrence = occ\<rparr> in
      (None, rs\<lparr>rs_occurrences := (rs_occurrences rs)(key := occ + 1),
                rs_engine := exec_leaf_ops [Pause bid (bn_timeout b), SetHasSideEffects] (rs_engine rs)\<rparr>))"

definition subgraph_node_execute ::
  "('s, 'k, 'w) projector \<Rightarrow> ('s, 'm, 'k, 'w) run_state \<Rightarrow> ('s, 'm, 'k, 'w) run_result" where
  "subgraph_node_execute spec rs =
     (let e = rs_engine rs in
      case sp_execute spec (rs_world rs) (eng_state e) (eng_cancelled e) of
        (w, s, chunks, cancelled, err) \<Rightarrow>
          (err, rs\<lparr>rs_world := w,
                   rs_engine := e\<lparr>eng_state := s, eng_stream := map_option (\<lambda>cs. cs @ chunks) (eng_stream e),
                                  eng_cancelled := cancelled\<rparr>\<rparr>))"

text \<open>
  The dispatch. How a parallel node runs is the argument \<open>par\<close>, since its branches run
  this very loop on a graph of one node.
\<close>

fun exec_node ::
  "(('s, 'm, 'k, 'w) parallel_node \<Rightarrow> ('s, 'm, 'k, 'w) run_state \<Rightarrow> ('s, 'm, 'k, 'w) run_result)
   \<Rightarrow> string \<Rightarrow> ('s, 'm, 'k, 'w) node_kind \<Rightarrow> ('s, 'm, 'k, 'w) run_state \<Rightarrow> ('s, 'm, 'k, 'w) run_result" where
  "exec_node par key (Task f) rs = run_node_fn f rs"
| "exec_node par key (Condition branches) rs = condition_execute branches rs"
| "exec_node par key (Barrier b) rs = barrier_execute key b rs"
| "exec_node par key (External n) rs = run_node_fn (fn_execute n) rs"
| "exec_node par key (ExternalLeaf f) rs = run_leaf_fn f rs"
| "exec_node par key (Parallel p) rs = par p rs"
| "exec_node par key (Subgraph spec) rs = subgraph_node_execute spec rs"

section \<open>Routing after a node\<close>

definition resolve_next_opt ::
  "('s, 'm, 'k, 'w) graph \<Rightarrow> next_action \<Rightarrow> string \<Rightarrow> 's \<Rightarrow> terminal_error + string option" where
  "resolve_next_opt g action current s =
     (case action of
        EndRun \<Rightarrow> Inr None
      | GotoNode target \<Rightarrow> Inr (Some target)
      | Next \<Rightarrow>
          (if current = g_end g then Inr None
           else (case resolve_next_inline g current s of Inl e \<Rightarrow> Inl e | Inr n \<Rightarrow> Inr (Some n))))"

definition wait_barrier ::
  "('s, 'w) sinks \<Rightarrow> barrier_id \<Rightarrow> nat option \<Rightarrow> 'w \<Rightarrow> (terminal_error + barrier_outcome) \<times> 'w" where
  "wait_barrier sk bid timeout w =
     (case sk_barrier sk of
        None \<Rightarrow> (Inl (BarrierHandlerMissing (node_id bid)), w)
      | Some wait \<Rightarrow> (case wait w bid timeout of (w', outcome) \<Rightarrow> (Inr outcome, w')))"

definition barrier_rejected :: "barrier_node \<Rightarrow> barrier_outcome \<Rightarrow> bool" where
  "barrier_rejected b outcome =
     (case outcome of
        Decision (Reject _) \<Rightarrow> True
      | TimedOut \<Rightarrow> bn_default_action b = RejectDefault
      | _ \<Rightarrow> False)"

definition barrier_route ::
  "('s, 'm, 'k, 'w) graph \<Rightarrow> string \<Rightarrow> barrier_node \<Rightarrow> next_action \<Rightarrow> barrier_outcome \<Rightarrow> 's
   \<Rightarrow> terminal_error + string option" where
  "barrier_route g current b action outcome s =
     (if barrier_rejected b outcome then Inr (bn_reject_target b)
      else (case outcome of
              Decision (Reroute target) \<Rightarrow> Inr (Some target)
            | Cancelled \<Rightarrow> Inl (BarrierCancelled current)
            | _ \<Rightarrow> resolve_next_opt g action current s))"

definition route ::
  "('s, 'm, 'k, 'w) graph \<Rightarrow> ('s, 'w) sinks \<Rightarrow> string \<Rightarrow> ('s, 'm, 'k, 'w) node_kind \<Rightarrow> next_action
   \<Rightarrow> execution_signal option \<Rightarrow> ('s, 'm, 'k, 'w) run_state
   \<Rightarrow> (terminal_error + string option) \<times> ('s, 'm, 'k, 'w) run_state" where
  "route g sk current node action signal rs =
     (case signal of
        Some (PauseSignal bid timeout) \<Rightarrow>
          (let rs1 = log_event (BarrierWaiting bid current) rs in
           case wait_barrier sk bid timeout (rs_world rs1) of
             (Inl e, w) \<Rightarrow> (Inl e, rs1\<lparr>rs_world := w\<rparr>)
           | (Inr outcome, w) \<Rightarrow>
               (let rs2 = rs1\<lparr>rs_world := w\<rparr> in
                (case node of
                   Barrier b \<Rightarrow> barrier_route g current b action outcome (eng_state (rs_engine rs2))
                 | _ \<Rightarrow> Inl (Durable (Unsupported ''Pause must be represented by a Barrier node'')), rs2)))
      | None \<Rightarrow> (resolve_next_opt g action current (eng_state (rs_engine rs)), rs))"

definition emit_checkpoint ::
  "('s, 'w) sinks \<Rightarrow> string option \<Rightarrow> nat \<Rightarrow> ('s, 'm, 'k, 'w) run_state \<Rightarrow> ('s, 'm, 'k, 'w) run_result" where
  "emit_checkpoint sk next step rs =
     (case sk_checkpoint sk of
        None \<Rightarrow> (None, rs)
      | Some save \<Rightarrow>
          (case save (rs_world rs) (eng_state (rs_engine rs)) \<lparr>fi_next_node = next, fi_step = step\<rparr> of
             (w, err) \<Rightarrow> (map_option CheckpointSaveFailed err, rs\<lparr>rs_world := w\<rparr>)))"

section \<open>The loop\<close>

datatype ('s, 'm, 'k, 'w) step_outcome =
    Stop "terminal_error option" "('s, 'm, 'k, 'w) run_state"
  | Continue string nat "('s, 'm, 'k, 'w) run_state"

definition commit_and_take ::
  "('s, 'm, 'c, 'w) run_env \<Rightarrow> ('s, 'm, 'k, 'w) run_state
   \<Rightarrow> (next_action \<times> execution_signal option) \<times> ('s, 'm, 'k, 'w) run_state" where
  "commit_and_take env rs =
     (case take_control (commit (re_ops env) (rs_engine rs)) of
        (control, e) \<Rightarrow> (control, rs\<lparr>rs_engine := e\<rparr>))"

definition loop_step where
  "loop_step env par g sk current step max_steps rs =
     (case usize_checked_add step 1 of
        None \<Rightarrow> Stop (Some (StepsExceeded max_steps)) rs
      | Some step' \<Rightarrow>
     (if step' > max_steps then Stop (Some (StepsExceeded max_steps)) rs
      else
     (case hm_get (g_nodes g) current of
        None \<Rightarrow> Stop (Some (NodeNotFound current)) rs
      | Some node \<Rightarrow>
     (case exec_node par current node (log_event (NodeStart current step') rs) of
        (Some e, rs1) \<Rightarrow> Stop (Some e) (log_event (NodeEnd current step' False) rs1)
      | (None, rs1) \<Rightarrow>
     (case commit_and_take env (log_event (NodeEnd current step' True) rs1) of
        ((action, signal), rs2) \<Rightarrow>
     (case route g sk current node action signal rs2 of
        (Inl e, rs3) \<Rightarrow> Stop (Some e) rs3
      | (Inr next, rs3) \<Rightarrow>
     (case emit_checkpoint sk next step' rs3 of
        (Some e, rs4) \<Rightarrow> Stop (Some e) rs4
      | (None, rs4) \<Rightarrow>
          (case next of None \<Rightarrow> Stop None rs4 | Some n \<Rightarrow> Continue n step' rs4))))))))"

lemma loop_step_Continue:
  assumes "loop_step env par g sk current step max_steps rs = Continue n k rs'"
  shows "k = Suc step \<and> k \<le> max_steps \<and> k \<le> usize_max \<and> has_node g current"
proof -
  from assms have "k = Suc step \<and> k \<le> max_steps \<and> k \<le> usize_max \<and> hm_get (g_nodes g) current \<noteq> None"
    unfolding loop_step_def
    by (auto split: option.splits if_splits prod.splits sum.splits)
  then show ?thesis by (simp add: has_node_def)
qed

function run_loop where
  "run_loop env par g sk current step max_steps rs =
     (case loop_step env par g sk current step max_steps rs of
        Stop r rs' \<Rightarrow> (r, rs')
      | Continue n k rs' \<Rightarrow> run_loop env par g sk n k max_steps rs')"
  by pat_completeness auto
termination
  by (relation "measure (\<lambda>(env, par, g, sk, current, step, max_steps, rs). max_steps - step)")
     (auto dest!: loop_step_Continue)

declare run_loop.simps [simp del]

definition run_graph_loop where
  "run_graph_loop env par g sk start_node steps_used max_steps rs =
     (case validate_approval_handlers (sk_barrier sk \<noteq> None) g of
        Some e \<Rightarrow> (Some e, rs)
      | None \<Rightarrow> run_loop env par g sk start_node steps_used max_steps rs)"


section \<open>Facts about the loop\<close>

lemma run_loop_Stop:
  "loop_step env par g sk c k mx rs = Stop r rs' \<Longrightarrow> run_loop env par g sk c k mx rs = (r, rs')"
  by (simp add: run_loop.simps [of env par g sk c k mx rs])

lemma run_loop_Continue:
  "loop_step env par g sk c k mx rs = Continue n k' rs' \<Longrightarrow>
     run_loop env par g sk c k mx rs = run_loop env par g sk n k' mx rs'"
  by (simp add: run_loop.simps [of env par g sk c k mx rs])

lemma log_event_simps [simp]:
  "rs_engine (log_event ev rs) = rs_engine rs"
  "rs_world (log_event ev rs) = rs_world rs"
  "rs_occurrences (log_event ev rs) = rs_occurrences rs"
  "rs_log (log_event ev rs) = rs_log rs @ [ev]"
  by (simp_all add: log_event_def)

lemma commit_and_take_simps [simp]:
  "rs_world (snd (commit_and_take env rs)) = rs_world rs"
  "rs_log (snd (commit_and_take env rs)) = rs_log rs"
  "rs_occurrences (snd (commit_and_take env rs)) = rs_occurrences rs"
  "eng_mutations (rs_engine (snd (commit_and_take env rs))) = []"
  "eng_control (rs_engine (snd (commit_and_take env rs))) = control_new"
  "eng_state (rs_engine (snd (commit_and_take env rs)))
     = apply_batch (re_ops env) (eng_mutations (rs_engine rs)) (eng_state (rs_engine rs))"
  by (auto simp: commit_and_take_def take_control_def control_take_def control_new_def split: prod.splits)

lemma emit_checkpoint_simps [simp]:
  "rs_engine (snd (emit_checkpoint sk next step rs)) = rs_engine rs"
  "rs_log (snd (emit_checkpoint sk next step rs)) = rs_log rs"
  "rs_occurrences (snd (emit_checkpoint sk next step rs)) = rs_occurrences rs"
  by (auto simp: emit_checkpoint_def split: option.splits prod.splits)

lemma emit_checkpoint_engine:
  "emit_checkpoint sk nx step rs = (r, rs') \<Longrightarrow> rs_engine rs' = rs_engine rs"
  by (metis emit_checkpoint_simps(1) snd_conv)

lemma route_engine [simp]: "rs_engine (snd (route g sk c node a sig rs)) = rs_engine rs"
  by (auto simp: route_def Let_def split: option.splits execution_signal.splits prod.splits sum.splits)

text \<open>The node starts in a callback log, and the logs of the two ways a step ends.\<close>

fun starts :: "step_event list \<Rightarrow> (string \<times> nat) list" where
  "starts [] = []"
| "starts (NodeStart n k # evs) = (n, k) # starts evs"
| "starts (_ # evs) = starts evs"

lemma starts_append [simp]: "starts (xs @ ys) = starts xs @ starts ys"
  by (induction xs rule: starts.induct) auto

definition keeps_log :: "(('s, 'm, 'k, 'w) parallel_node \<Rightarrow> ('s, 'm, 'k, 'w) run_state
    \<Rightarrow> ('s, 'm, 'k, 'w) run_result) \<Rightarrow> bool" where
  "keeps_log par \<longleftrightarrow> (\<forall>p rs. rs_log (snd (par p rs)) = rs_log rs)"

lemma exec_node_log:
  "keeps_log par \<Longrightarrow> rs_log (snd (exec_node par key node rs)) = rs_log rs"
  by (cases node)
     (auto simp: keeps_log_def run_node_fn_def run_leaf_fn_def condition_execute_def barrier_execute_def
        subgraph_node_execute_def Let_def split: prod.splits option.splits)

lemma route_log:
  "\<exists>evs. rs_log (snd (route g sk c node a sig rs)) = rs_log rs @ evs \<and> starts evs = []"
  by (auto simp: route_def Let_def split: option.splits execution_signal.splits prod.splits sum.splits)

definition log_extends :: "('s, 'm, 'k, 'w) run_state \<Rightarrow> ('s, 'm, 'k, 'w) run_state \<Rightarrow> (string \<times> nat) list \<Rightarrow> bool" where
  "log_extends rs rs' ss \<longleftrightarrow> (\<exists>evs. rs_log rs' = rs_log rs @ evs \<and> starts evs = ss)"

lemma log_extends_trans:
  "log_extends rs1 rs2 ss \<Longrightarrow> log_extends rs2 rs3 ts \<Longrightarrow> log_extends rs1 rs3 (ss @ ts)"
  by (auto simp: log_extends_def)

lemma log_extends_refl [simp]: "log_extends rs rs []"
  by (simp add: log_extends_def)

lemma loop_step_cases:
  obtains (exhausted) "\<And>rs. loop_step env par g sk c k mx rs = Stop (Some (StepsExceeded mx)) rs"
  | (missing) "\<And>rs. loop_step env par g sk c k mx rs = Stop (Some (NodeNotFound c)) rs" "\<not> has_node g c"
  | (ran) node where "hm_get (g_nodes g) c = Some node" "Suc k \<le> mx" "Suc k \<le> usize_max"
proof -
  show ?thesis
  proof (cases "Suc k \<le> usize_max \<and> Suc k \<le> mx")
    case False
    then have "loop_step env par g sk c k mx rs = Stop (Some (StepsExceeded mx)) rs" for rs
      by (auto simp: loop_step_def split: option.splits)
    then show ?thesis by (rule exhausted)
  next
    case True
    show ?thesis
    proof (cases "hm_get (g_nodes g) c")
      case None
      with True have "loop_step env par g sk c k mx rs = Stop (Some (NodeNotFound c)) rs" for rs
        by (auto simp: loop_step_def split: option.splits)
      with None show ?thesis by (intro missing) (simp_all add: has_node_def)
    next
      case (Some node)
      with True show ?thesis by (intro ran) auto
    qed
  qed
qed

text \<open>One iteration that finds its node, cut at the three calls that can end it.\<close>

lemma loop_step_ran:
  assumes "hm_get (g_nodes g) c = Some node" and "Suc k \<le> mx" and "Suc k \<le> usize_max"
    and "exec_node par c node (log_event (NodeStart c (Suc k)) rs) = (res, rs1)"
    and "commit_and_take env (log_event (NodeEnd c (Suc k) True) rs1) = ((action, signal), rs2)"
    and "route g sk c node action signal rs2 = (nxt, rs3)"
  shows "loop_step env par g sk c k mx rs =
     (case res of
        Some e \<Rightarrow> Stop (Some e) (log_event (NodeEnd c (Suc k) False) rs1)
      | None \<Rightarrow>
          (case nxt of
             Inl e \<Rightarrow> Stop (Some e) rs3
           | Inr nx \<Rightarrow>
               (case emit_checkpoint sk nx (Suc k) rs3 of
                  (Some e, rs4) \<Rightarrow> Stop (Some e) rs4
                | (None, rs4) \<Rightarrow>
                    (case nx of None \<Rightarrow> Stop None rs4 | Some n \<Rightarrow> Continue n (Suc k) rs4))))"
proof -
  have "usize_checked_add k 1 = Some (Suc k)" using assms(3) by simp
  with assms show ?thesis
    by (auto simp: loop_step_def split: option.splits sum.splits)
qed

lemma loop_step_log:
  assumes "keeps_log par"
  shows "case loop_step env par g sk c k mx rs of
           Stop r rs' \<Rightarrow> log_extends rs rs' [] \<or> (Suc k \<le> mx \<and> has_node g c \<and> log_extends rs rs' [(c, Suc k)])
         | Continue n k' rs' \<Rightarrow> log_extends rs rs' [(c, Suc k)]"
proof (cases rule: loop_step_cases [of env par g sk c k mx])
  case (ran node)
  obtain res rs1 where ex: "exec_node par c node (log_event (NodeStart c (Suc k)) rs) = (res, rs1)"
    by fastforce
  obtain action signal rs2 where ct:
    "commit_and_take env (log_event (NodeEnd c (Suc k) True) rs1) = ((action, signal), rs2)"
    by (metis prod.exhaust)
  obtain nxt rs3 where ro: "route g sk c node action signal rs2 = (nxt, rs3)" by fastforce
  have "rs_log rs1 = rs_log rs @ [NodeStart c (Suc k)]"
    using exec_node_log [OF assms, of c node] ex by (metis log_event_simps(4) snd_conv)
  then have 1: "log_extends rs (log_event (NodeEnd c (Suc k) b) rs1) [(c, Suc k)]" for b
    by (auto simp: log_extends_def)
  have "rs_log rs2 = rs_log (log_event (NodeEnd c (Suc k) True) rs1)"
    using ct commit_and_take_simps(2) by (metis snd_conv)
  then have 2: "log_extends rs rs2 [(c, Suc k)]" using 1 [of True] by (simp add: log_extends_def)
  have "log_extends rs2 rs3 []"
    using route_log [of g sk c node action signal rs2] ro by (auto simp: log_extends_def)
  from log_extends_trans [OF 2 this] have 3: "log_extends rs rs3 [(c, Suc k)]" by simp
  have 4: "log_extends rs (snd (emit_checkpoint sk nx (Suc k) rs3)) [(c, Suc k)]" for nx
    using 3 by (simp add: log_extends_def)
  show ?thesis
    unfolding loop_step_ran [OF ran ex ct ro]
    using 1 3 4 ran(1,2)
    by (auto simp: has_node_def split: option.splits sum.splits prod.splits) (metis snd_conv)+
qed simp_all

lemma zip_upt_Cons: "zip (n # ns) [k..<k + length (n # ns)] = (n, k) # zip ns [Suc k..<Suc k + length ns]"
  by (simp add: upt_conv_Cons del: upt_Suc)

text \<open>
  The nodes a run starts: present in the graph, beginning with the current one, and
  numbered one after another within the budget.
\<close>

definition visits :: "('s, 'm, 'k, 'w) graph \<Rightarrow> string \<Rightarrow> nat \<Rightarrow> nat \<Rightarrow> (string \<times> nat) list \<Rightarrow> bool" where
  "visits g c k mx ss \<longleftrightarrow>
     (\<exists>ns. ss = zip ns [Suc k..<Suc k + length ns] \<and> length ns \<le> mx - k
         \<and> list_all (has_node g) ns \<and> (ns = [] \<or> hd ns = c))"

lemma visits_Nil [simp]: "visits g c k mx []"
  by (auto simp: visits_def)

lemma visits_Cons:
  "Suc k \<le> mx \<Longrightarrow> has_node g c \<Longrightarrow> visits g n (Suc k) mx ss \<Longrightarrow> visits g c k mx ((c, Suc k) # ss)"
  unfolding visits_def
  by (elim exE conjE, rule_tac x = "c # ns" in exI) (simp only: zip_upt_Cons, simp)

lemma run_loop_log:
  assumes "keeps_log par"
  shows "\<exists>ss. log_extends rs (snd (run_loop env par g sk c k mx rs)) ss \<and> visits g c k mx ss"
  using assms
proof (induction env par g sk c k mx rs rule: run_loop.induct)
  case (1 env par g sk c k mx rs)
  note step = loop_step_log [OF 1(2), where env = env and g = g and sk = sk and c = c and k = k
      and mx = mx and rs = rs]
  show ?case
  proof (cases "loop_step env par g sk c k mx rs")
    case (Stop r rs')
    with step consider "log_extends rs rs' []"
      | "Suc k \<le> mx" "has_node g c" "log_extends rs rs' [(c, Suc k)]" by auto
    then show ?thesis
    proof cases
      case 1
      then show ?thesis
        by (intro exI [of _ "[]"]) (simp add: run_loop_Stop [OF Stop])
    next
      case 2
      then show ?thesis
        by (intro exI [of _ "[(c, Suc k)]"]) (simp add: run_loop_Stop [OF Stop] visits_Cons)
    qed
  next
    case (Continue n k' rs')
    from loop_step_Continue [OF Continue] have k': "k' = Suc k" "Suc k \<le> mx" "has_node g c" by simp_all
    from 1(1) [OF Continue 1(2)] obtain ss where
      ss: "log_extends rs' (snd (run_loop env par g sk n k' mx rs')) ss" "visits g n k' mx ss" by blast
    from step Continue have "log_extends rs rs' [(c, Suc k)]" by simp
    from log_extends_trans [OF this ss(1)] visits_Cons [OF k'(2,3)] ss(2) k'(1) show ?thesis
      unfolding run_loop_Continue [OF Continue] by auto
  qed
qed


section \<open>Boundaries and resumption\<close>

text \<open>
  The configurations a run passes through at its checkpoint boundaries: what is left of the
  run is the run from there.
\<close>

inductive boundary for env par g sk mx where
  first: "loop_step env par g sk c k mx rs = Continue n k' rs' \<Longrightarrow>
     boundary env par g sk mx (c, k, rs) (n, k', rs')"
| next_boundary: "boundary env par g sk mx cfg (c, k, rs) \<Longrightarrow>
     loop_step env par g sk c k mx rs = Continue n k' rs' \<Longrightarrow>
     boundary env par g sk mx cfg (n, k', rs')"

inductive_cases boundary_cases: "boundary env par g sk mx cfg (n, k, rs)"

lemma boundary_run_loop:
  assumes "boundary env par g sk mx (c, k, rs) (n, k', rs')"
  shows "run_loop env par g sk c k mx rs = run_loop env par g sk n k' mx rs'"
  using assms
  by (induction "(c, k, rs)" "(n, k', rs')" arbitrary: n k' rs' rule: boundary.induct)
     (simp_all add: run_loop_Continue)

definition clean :: "('s, 'm, 'k) engine \<Rightarrow> bool" where
  "clean e \<longleftrightarrow> eng_mutations e = [] \<and> eng_control e = control_new"

lemma loop_step_clean:
  assumes "loop_step env par g sk c k mx rs = Continue n k' rs'"
  shows "clean (rs_engine rs')"
proof (cases rule: loop_step_cases [of env par g sk c k mx])
  case (ran node)
  obtain res rs1 where ex: "exec_node par c node (log_event (NodeStart c (Suc k)) rs) = (res, rs1)"
    by fastforce
  obtain action signal rs2 where ct:
    "commit_and_take env (log_event (NodeEnd c (Suc k) True) rs1) = ((action, signal), rs2)"
    by (metis prod.exhaust)
  obtain nxt rs3 where ro: "route g sk c node action signal rs2 = (nxt, rs3)" by fastforce
  have "clean (rs_engine rs2)"
    using commit_and_take_simps(4,5) [of env "log_event (NodeEnd c (Suc k) True) rs1"] ct
    by (simp add: clean_def)
  moreover have "rs_engine rs3 = rs_engine rs2"
    using route_engine [of g sk c node action signal rs2] ro by simp
  ultimately show ?thesis
    using assms unfolding loop_step_ran [OF ran ex ct ro]
    by (auto split: option.splits sum.splits prod.splits dest!: emit_checkpoint_engine)
qed (use assms in simp_all)

lemma boundary_clean: "boundary env par g sk mx cfg (n, k, rs) \<Longrightarrow> clean (rs_engine rs)"
  by (erule boundary_cases) (auto dest: loop_step_clean)

text \<open>
  Two run states are alike when they agree on everything a node, a sink or the route can
  see: the world and the engine except its metadata and its stream, which no operation reads.
  The log of the one continues the log of the other after \<open>pre\<close>.
\<close>

definition alike :: "step_event list \<Rightarrow> ('s, 'm, 'k, 'w) run_state \<Rightarrow> ('s, 'm, 'k, 'w) run_state \<Rightarrow> bool" where
  "alike pre rs rs' \<longleftrightarrow>
     rs_world rs = rs_world rs' \<and> rs_log rs = pre @ rs_log rs'
     \<and> (rs_engine rs)\<lparr>eng_stream := None, eng_metadata := metadata_default\<rparr>
       = (rs_engine rs')\<lparr>eng_stream := None, eng_metadata := metadata_default\<rparr>"

definition engine_alike :: "('s, 'm, 'k) engine \<Rightarrow> ('s, 'm, 'k) engine \<Rightarrow> bool" where
  "engine_alike e e' \<longleftrightarrow> eng_state e = eng_state e'
     \<and> eng_cancelled e = eng_cancelled e' \<and> eng_control e = eng_control e'
     \<and> eng_mutations e = eng_mutations e'"

lemma engine_alike_iff:
  "e\<lparr>eng_stream := None, eng_metadata := metadata_default\<rparr> = e'\<lparr>eng_stream := None, eng_metadata := metadata_default\<rparr> \<longleftrightarrow>
     engine_alike e (e' :: ('s, 'm, 'k) engine)"
  by (cases e; cases e') (auto simp: engine_alike_def)

lemma alike_def':
  "alike pre rs rs' \<longleftrightarrow> rs_world rs = rs_world rs' \<and> rs_log rs = pre @ rs_log rs'
     \<and> engine_alike (rs_engine rs) (rs_engine rs')"
  by (simp add: alike_def engine_alike_iff)

lemma exec_leaf_op_alike: "engine_alike e e' \<Longrightarrow> engine_alike (exec_leaf_op l e) (exec_leaf_op l e')"
  by (cases l) (auto simp: engine_alike_def split: option.splits)

lemma exec_leaf_ops_alike: "engine_alike e e' \<Longrightarrow> engine_alike (exec_leaf_ops ls e) (exec_leaf_ops ls e')"
  unfolding exec_leaf_ops_def by (induction ls arbitrary: e e') (auto intro: exec_leaf_op_alike)

lemma exec_node_op_alike: "engine_alike e e' \<Longrightarrow> engine_alike (exec_node_op l e) (exec_node_op l e')"
  by (cases l) (auto intro: exec_leaf_op_alike, simp add: engine_alike_def)

lemma exec_node_ops_alike: "engine_alike e e' \<Longrightarrow> engine_alike (exec_node_ops ls e) (exec_node_ops ls e')"
  unfolding exec_node_ops_def by (induction ls arbitrary: e e') (auto intro: exec_node_op_alike)

definition result_alike where
  "result_alike pre r r' \<longleftrightarrow> fst r = fst r' \<and> alike pre (snd r) (snd r')"

lemma result_alikeE:
  assumes "result_alike pre r r'" and "r = (x, a)"
  obtains b where "r' = (x, b)" and "alike pre a b"
  using assms by (cases r') (simp add: result_alike_def)

lemma exec_node_alike:
  assumes "node_validate_persistable (key, node) = None" and "alike pre rs rs'"
  shows "result_alike pre (exec_node par c node rs) (exec_node par c node rs')"
  using assms
  by (cases node)
     (auto simp: result_alike_def alike_def' run_node_fn_def run_leaf_fn_def condition_execute_def
        engine_alike_def [of "rs_engine rs"] exec_node_ops_alike exec_leaf_ops_alike
        split: prod.splits option.splits,
      auto simp: engine_alike_def intro!: exec_leaf_op_alike exec_node_ops_alike exec_leaf_ops_alike)


lemma commit_and_take_alike:
  "alike pre rs rs' \<Longrightarrow> result_alike pre (commit_and_take env rs) (commit_and_take env rs')"
  by (simp add: result_alike_def alike_def' engine_alike_def commit_and_take_def take_control_def
      control_take_def)

lemma log_event_alike: "alike pre rs rs' \<Longrightarrow> alike pre (log_event ev rs) (log_event ev rs')"
  by (simp add: alike_def')

lemma route_alike:
  "alike pre rs rs' \<Longrightarrow> result_alike pre (route g sk c node a sig rs) (route g sk c node a sig rs')"
  by (cases node)
    (auto simp: result_alike_def route_def alike_def' engine_alike_def Let_def
      split: option.splits execution_signal.splits prod.splits sum.splits)

lemma emit_checkpoint_alike:
  "alike pre rs rs' \<Longrightarrow> result_alike pre (emit_checkpoint sk nx k rs) (emit_checkpoint sk nx k rs')"
  by (auto simp: result_alike_def emit_checkpoint_def alike_def' engine_alike_def
      split: option.splits prod.splits)

fun outcome_alike where
  "outcome_alike pre (Stop r rs) (Stop r' rs') \<longleftrightarrow> r = r' \<and> alike pre rs rs'"
| "outcome_alike pre (Continue n k rs) (Continue n' k' rs') \<longleftrightarrow> n = n' \<and> k = k' \<and> alike pre rs rs'"
| "outcome_alike pre _ _ \<longleftrightarrow> False"

lemma persistable_node:
  "validate_persistable g = None \<Longrightarrow> hm_get (g_nodes g) c = Some node \<Longrightarrow>
     node_validate_persistable (c, node) = None"
  by (auto simp: validate_persistable_def dest: map_of_SomeD)

lemma loop_step_alike:
  assumes "validate_persistable g = None" and "alike pre rs rs'"
  shows "outcome_alike pre (loop_step env par g sk c k mx rs) (loop_step env par g sk c k mx rs')"
proof (cases rule: loop_step_cases [of env par g sk c k mx])
  case exhausted
  with assms(2) show ?thesis by simp
next
  case missing
  with assms(2) show ?thesis by simp
next
  case (ran node)
  note ex = exec_node_alike [OF persistable_node [OF assms(1) ran(1)] log_event_alike [OF assms(2)],
      of par c "NodeStart c (Suc k)"]
  obtain res rs1 where p1: "exec_node par c node (log_event (NodeStart c (Suc k)) rs) = (res, rs1)"
    by fastforce
  obtain rs1' where q1: "exec_node par c node (log_event (NodeStart c (Suc k)) rs') = (res, rs1')"
    and a1: "alike pre rs1 rs1'"
    by (rule result_alikeE [OF ex p1])
  note ct = commit_and_take_alike [OF log_event_alike [OF a1], of env "NodeEnd c (Suc k) True"]
  obtain a sig rs2
    where p2: "commit_and_take env (log_event (NodeEnd c (Suc k) True) rs1) = ((a, sig), rs2)"
    by (metis prod.exhaust)
  obtain rs2'
    where q2: "commit_and_take env (log_event (NodeEnd c (Suc k) True) rs1') = ((a, sig), rs2')"
      and a2: "alike pre rs2 rs2'"
    by (rule result_alikeE [OF ct p2])
  note ro = route_alike [OF a2, of g sk c node a sig]
  obtain nxt rs3 where p3: "route g sk c node a sig rs2 = (nxt, rs3)" by fastforce
  obtain rs3' where q3: "route g sk c node a sig rs2' = (nxt, rs3')" and a3: "alike pre rs3 rs3'"
    by (rule result_alikeE [OF ro p3])
  have em: "result_alike pre (emit_checkpoint sk nx (Suc k) rs3) (emit_checkpoint sk nx (Suc k) rs3')" for nx
    by (rule emit_checkpoint_alike [OF a3])
  show ?thesis
  proof (cases res)
    case (Some e)
    with log_event_alike [OF a1] show ?thesis
      by (simp add: loop_step_ran [OF ran p1 p2 p3] loop_step_ran [OF ran q1 q2 q3])
  next
    case None
    with a3 em show ?thesis
      by (auto simp: loop_step_ran [OF ran p1 p2 p3] loop_step_ran [OF ran q1 q2 q3] result_alike_def
          split: sum.splits prod.splits option.splits)
        (metis fst_conv option.distinct(1) option.inject snd_conv)+
  qed
qed

lemma run_loop_alike:
  assumes "validate_persistable g = None" and "alike pre rs rs'"
  shows "result_alike pre (run_loop env par g sk c k mx rs) (run_loop env par g sk c k mx rs')"
  using assms
proof (induction env par g sk c k mx rs arbitrary: rs' rule: run_loop.induct)
  case (1 env par g sk c k mx rs)
  note step = loop_step_alike [OF 1(2,3), of env par sk c k mx]
  show ?case
  proof (cases "loop_step env par g sk c k mx rs")
    case (Stop r rs1)
    with step obtain rs1' where Stop': "loop_step env par g sk c k mx rs' = Stop r rs1'" "alike pre rs1 rs1'"
      by (cases "loop_step env par g sk c k mx rs'") auto
    then show ?thesis by (simp add: run_loop_Stop [OF Stop] run_loop_Stop [OF Stop'(1)] result_alike_def)
  next
    case (Continue n k' rs1)
    with step obtain rs1' where Cont': "loop_step env par g sk c k mx rs' = Continue n k' rs1'" "alike pre rs1 rs1'"
      by (cases "loop_step env par g sk c k mx rs'") auto
    from 1(1) [OF Continue 1(2) Cont'(2)] show ?thesis
      by (simp add: run_loop_Continue [OF Continue] run_loop_Continue [OF Cont'(1)])
  qed
qed

end
