(* ===== verification/Composite.thy ===== *)
theory Composite
  imports Run_Loop
begin

text \<open>
  Nodes that run graphs: parallel nodes (\<open>node/parallel_node.rs\<close>,
  \<open>node/parallel_execute.rs\<close>), graph branches (\<open>node/graph_branch.rs\<close>) and subgraphs
  (\<open>node/subgraph_spec.rs\<close>, \<open>state/state_lens.rs\<close>); and the entry points
  \<open>run_inline\<close> and \<open>run_inline_from\<close>.

  The branches of a parallel node are polled concurrently and handed back in completion
  order. The model runs them one after another in the order the schedule gives, each on
  its own copy of the state: a node is a function of the world, so what a branch does to the
  world is one block of that order, any order of these blocks is a schedule, and a branch
  sees the cancellation that earlier ones caused. Not modelled are nodes that suspend half
  way, whose effects on the world mix with those of the other branches; the states of the
  branches are copies and cannot mix.
\<close>

section \<open>Parallel nodes\<close>

definition branch_graph :: "('s, 'm, 'k, 'w) flow_node \<Rightarrow> ('s, 'm, 'k, 'w) graph" where
  "branch_graph node = projr (build
     (builder_node ''body'' (External node) (builder_end ''body'' (builder_start ''body''
        (builder_new ''parallel_branch'')))))"

lemma branch_graph_simps [simp]:
  "g_nodes (branch_graph node) = [(''body'', External node)]"
  "g_edges (branch_graph node) = []"
  "g_end (branch_graph node) = ''body''"
  by (simp_all add: branch_graph_def build_def builder_node_def builder_end_def builder_start_def
      builder_new_def validate_def Let_def)

text \<open>Inside a branch graph there is no parallel node; \<open>no_parallel\<close> is never called.\<close>

definition no_parallel ::
  "('s, 'm, 'k, 'w) parallel_node \<Rightarrow> ('s, 'm, 'k, 'w) run_state \<Rightarrow> ('s, 'm, 'k, 'w) run_result" where
  "no_parallel p rs = (None, rs)"

type_synonym 's branch_outcome = "nat \<times> string \<times> (terminal_error + 's)"

definition run_branch ::
  "('s, 'm, 'c, 'w) run_env \<Rightarrow> 's \<Rightarrow> bool \<Rightarrow> ('s, 'm, 'k, 'w) flow_node \<Rightarrow> ('s, 'm, 'k, 'w) run_state
   \<Rightarrow> (terminal_error + 's) \<times> ('s, 'm, 'k, 'w) run_state" where
  "run_branch env base cancelled node rs =
     (let rs0 = rs\<lparr>rs_engine := engine_new base (eng_stream (rs_engine rs)) cancelled, rs_log := []\<rparr> in
      case run_graph_loop env no_parallel (branch_graph node) no_sinks ''body'' 0 1 rs0 of
        (res, brs) \<Rightarrow>
          ((case res of None \<Rightarrow> Inr (eng_state (rs_engine brs)) | Some e \<Rightarrow> Inl e),
           rs\<lparr>rs_world := rs_world brs, rs_occurrences := rs_occurrences brs,
              rs_engine := (rs_engine rs)\<lparr>eng_stream := eng_stream (rs_engine brs)\<rparr>\<rparr>))"

definition cancels_group :: "error_strategy \<Rightarrow> terminal_error + 's \<Rightarrow> bool" where
  "cancels_group strategy out =
     (case out of
        Inr _ \<Rightarrow> False
      | Inl e \<Rightarrow> (if e = Durable Suspended then False
                  else if e = Durable Stopped then True
                  else strategy = FailFast))"

fun run_branches ::
  "('s, 'm, 'c, 'w) run_env \<Rightarrow> error_strategy \<Rightarrow> 's \<Rightarrow> bool
   \<Rightarrow> (nat \<times> string \<times> ('s, 'm, 'k, 'w) flow_node) list \<Rightarrow> ('s, 'm, 'k, 'w) run_state
   \<Rightarrow> 's branch_outcome list \<times> ('s, 'm, 'k, 'w) run_state" where
  "run_branches env strategy base cancelled [] rs = ([], rs)"
| "run_branches env strategy base cancelled ((index, name, node) # rest) rs =
     (case run_branch env base cancelled node rs of
        (out, rs1) \<Rightarrow>
          (case run_branches env strategy base (cancelled \<or> cancels_group strategy out) rest rs1 of
             (outs, rs2) \<Rightarrow> ((index, name, out) # outs, rs2)))"

record 's collected =
  co_states :: "(nat \<times> 's) list"
  co_errors :: "(string \<times> terminal_error) list"
  co_suspended :: bool
  co_stopped :: bool

definition collect_empty :: "'s collected" where
  "collect_empty = \<lparr>co_states = [], co_errors = [], co_suspended = False, co_stopped = False\<rparr>"

definition collect_one :: "'s collected \<Rightarrow> 's branch_outcome \<Rightarrow> 's collected" where
  "collect_one c out =
     (case out of
        (index, name, Inr s) \<Rightarrow> c\<lparr>co_states := co_states c @ [(index, s)]\<rparr>
      | (index, name, Inl e) \<Rightarrow>
          (if e = Durable Suspended then c\<lparr>co_suspended := True\<rparr>
           else if e = Durable Stopped then c\<lparr>co_stopped := True\<rparr>
           else c\<lparr>co_errors := co_errors c @ [(name, e)]\<rparr>))"

definition collect :: "'s branch_outcome list \<Rightarrow> 's collected" where
  "collect outs = foldl collect_one collect_empty outs"

definition parallel_verdict ::
  "error_strategy \<Rightarrow> ('s \<Rightarrow> 's list \<Rightarrow> merge_error + 's) \<Rightarrow> 's \<Rightarrow> 's collected \<Rightarrow> terminal_error + 's" where
  "parallel_verdict strategy merge base c =
     (if co_stopped c then Inl (Durable Stopped)
      else case co_errors c of
        (name, e) # _ \<Rightarrow>
          (if strategy = CollectAll then Inl (ParallelFailures (co_errors c))
           else Inl (NodeExecutionFailed name (SourceError e)))
      | [] \<Rightarrow>
          (if co_suspended c then Inl (Durable Suspended)
           else case merge base (map snd (sort_key fst (co_states c))) of
                  Inl e \<Rightarrow> Inl (StateError e)
                | Inr merged \<Rightarrow> Inr merged))"

text \<open>The schedule, made a permutation of the branch indices whatever the executor returns.\<close>

definition completion_order :: "nat list \<Rightarrow> nat \<Rightarrow> nat list" where
  "completion_order sched n =
     (let o1 = filter (\<lambda>i. i < n) (remdups sched) in o1 @ filter (\<lambda>i. i \<notin> set o1) [0..<n])"

definition scheduled_branches ::
  "nat list \<Rightarrow> (string \<times> ('s, 'm, 'k, 'w) flow_node) list \<Rightarrow> (nat \<times> string \<times> ('s, 'm, 'k, 'w) flow_node) list" where
  "scheduled_branches sched branches = map (\<lambda>i. (i, branches ! i)) (completion_order sched (length branches))"

definition parallel_execute ::
  "('s, 'm, 'c, 'w) run_env \<Rightarrow> ('s, 'm, 'k, 'w) parallel_node \<Rightarrow> ('s, 'm, 'k, 'w) run_state
   \<Rightarrow> ('s, 'm, 'k, 'w) run_result" where
  "parallel_execute env p rs =
     (let base = eng_state (rs_engine rs);
          sched = re_schedule env (rs_world rs) (length (pn_branches p)) in
      case run_branches env (pn_strategy p) base (eng_cancelled (rs_engine rs))
             (scheduled_branches sched (pn_branches p)) rs of
        (outs, rs1) \<Rightarrow>
          (case parallel_verdict (pn_strategy p) (pn_merge p) base (collect outs) of
             Inl e \<Rightarrow> (Some e, rs1)
           | Inr merged \<Rightarrow> (None, rs1\<lparr>rs_engine := (rs_engine rs1)\<lparr>eng_state := merged\<rparr>\<rparr>)))"

section \<open>Entry points\<close>

definition run_inline_from where
  "run_inline_from env g sk start_node steps_used max_steps rs =
     run_graph_loop env (parallel_execute env) g sk start_node steps_used max_steps rs"

definition run_inline where
  "run_inline env g sk max_steps rs = run_inline_from env g sk (g_start g) 0 max_steps rs"

section \<open>Graphs inside nodes\<close>

text \<open>
  A graph run inside a node gets a fresh engine on its state, the stream and the
  cancellation flag of the outer one, and no sinks.
\<close>

definition inner_run_state :: "'w \<Rightarrow> 's \<Rightarrow> bool \<Rightarrow> ('s, 'm, 'k, 'w) run_state" where
  "inner_run_state w s cancelled =
     \<lparr>rs_engine = engine_new s (Some []) cancelled, rs_world = w, rs_occurrences = (\<lambda>_. 0), rs_log = []\<rparr>"

definition emitted :: "('s, 'm, 'k, 'w) run_state \<Rightarrow> 'k list" where
  "emitted rs = (case eng_stream (rs_engine rs) of None \<Rightarrow> [] | Some cs \<Rightarrow> cs)"

definition graph_branch ::
  "('s, 'm, 'c, 'w) run_env \<Rightarrow> ('s, 'm, 'k, 'w) graph \<Rightarrow> nat \<Rightarrow> ('s, 'm, 'k, 'w) flow_node" where
  "graph_branch env g max_steps =
     \<lparr>fn_approval = validate_approval_handlers False g,
      fn_durable = validate_durable g,
      fn_signature = Some (BudgetSignature max_steps (scope_signature g)),
      fn_execute = (\<lambda>w s cancelled.
        case run_inline env g no_sinks max_steps (inner_run_state w s cancelled) of
          (err, rs) \<Rightarrow>
            (rs_world rs,
             map (\<lambda>c. Leaf (Emit c)) (emitted rs)
               @ (if eng_cancelled (rs_engine rs) \<and> \<not> cancelled then [Leaf CancelToken] else [])
               @ (if err = None then [ReplaceState (eng_state (rs_engine rs))] else []),
             err))\<rparr>"

text \<open>
  A lens projects \<open>&mut Outer\<close> to \<open>&mut Inner\<close>: reading is \<open>get\<close>, and what is
  written through the inner reference is \<open>put\<close> back.
\<close>

record ('o, 'i) lens =
  lens_get :: "'o \<Rightarrow> 'i"
  lens_put :: "'i \<Rightarrow> 'o \<Rightarrow> 'o"

definition identity_lens :: "('s, 's) lens" where
  "identity_lens = \<lparr>lens_get = (\<lambda>s. s), lens_put = (\<lambda>i _. i)\<rparr>"

definition subgraph_default_max_steps :: nat where
  "subgraph_default_max_steps = 1000"

definition subgraph_compile ::
  "('i, 'm, 'c, 'w) run_env \<Rightarrow> ('i, 'm, 'k, 'w) graph \<Rightarrow> ('o, 'i) lens \<Rightarrow> nat \<Rightarrow> ('o, 'k, 'w) projector" where
  "subgraph_compile env g l max_steps =
     \<lparr>sp_approval = validate_approval_handlers False g,
      sp_durable = validate_durable g,
      sp_signature = Some (BudgetSignature max_steps (scope_signature g)),
      sp_execute = (\<lambda>w outer cancelled.
        case run_inline env g no_sinks max_steps (inner_run_state w (lens_get l outer) cancelled) of
          (err, rs) \<Rightarrow>
            (rs_world rs, lens_put l (eng_state (rs_engine rs)) outer, emitted rs,
             eng_cancelled (rs_engine rs), err))\<rparr>"

section \<open>Facts about parallel nodes\<close>

lemma run_branch_log: "run_branch env base cancelled node rs = (out, rs') \<Longrightarrow> rs_log rs' = rs_log rs"
  by (auto simp: run_branch_def Let_def split: prod.splits)

lemma run_branches_log:
  "run_branches env strategy base cancelled bs rs = (outs, rs') \<Longrightarrow> rs_log rs' = rs_log rs"
  by (induction bs arbitrary: cancelled rs outs rs')
     (auto split: prod.splits dest!: run_branch_log)

lemma parallel_execute_keeps_log: "keeps_log (parallel_execute env)"
  by (auto simp: keeps_log_def parallel_execute_def Let_def split: prod.splits sum.splits
      dest!: run_branches_log)

lemma run_graph_loop_log:
  "keeps_log par \<Longrightarrow>
     \<exists>ss. log_extends rs (snd (run_graph_loop env par g sk c k mx rs)) ss \<and> visits g c k mx ss"
  using run_loop_log [of par rs env g sk c k mx]
  by (auto simp: run_graph_loop_def split: option.splits intro!: exI [of _ "[]"])

text \<open>
  C23: a run started at a node with \<open>used\<close> steps already spent reports node starts that
  are all nodes of the graph, begin with that node, are numbered one after another from
  \<open>used + 1\<close>, and never exceed the step budget.
\<close>

theorem run_stays_within_step_budget:
  "\<exists>evs ns. rs_log (snd (run_inline_from env g sk c used mx rs)) = rs_log rs @ evs
     \<and> starts evs = zip ns [Suc used..<Suc used + length ns]
     \<and> length ns \<le> mx - used \<and> list_all (has_node g) ns \<and> (ns = [] \<or> hd ns = c)"
proof -
  obtain ss where "log_extends rs (snd (run_inline_from env g sk c used mx rs)) ss"
    and "visits g c used mx ss"
    unfolding run_inline_from_def
    using run_graph_loop_log [OF parallel_execute_keeps_log] by blast
  then show ?thesis unfolding log_extends_def visits_def by blast
qed

text \<open>
  What a branch is: one execution of its node on its own copy of the state. The branch
  graph has one node and a budget of one step, so a jump exhausts the budget and a pause
  finds no handler.
\<close>

definition branch_spec ::
  "('s, 'm, 'c) workflow_ops \<Rightarrow> 's \<Rightarrow> bool \<Rightarrow> ('s, 'm, 'k, 'w) flow_node \<Rightarrow> 'w \<Rightarrow> terminal_error + 's" where
  "branch_spec ops s cancelled node w =
     (case fn_approval node of
        Some e \<Rightarrow> Inl e
      | None \<Rightarrow>
          (case fn_execute node w s cancelled of
             (_, acts, Some e) \<Rightarrow> Inl e
           | (_, acts, None) \<Rightarrow>
               (let e = exec_node_ops acts (engine_new s None cancelled) in
                case (ctl_signal (eng_control e), ctl_next (eng_control e)) of
                  (Some (PauseSignal bid _), _) \<Rightarrow> Inl (BarrierHandlerMissing (node_id bid))
                | (None, Some (GotoNode t)) \<Rightarrow> Inl (StepsExceeded 1)
                | (None, _) \<Rightarrow> Inr (apply_batch ops (eng_mutations e) (eng_state e)))))"

definition drop_stream :: "('s, 'm, 'k) engine \<Rightarrow> ('s, 'm, 'k) engine" where
  "drop_stream e = e\<lparr>eng_stream := None\<rparr>"

lemma exec_node_op_drop_stream:
  "drop_stream (exec_node_op l e) = drop_stream (exec_node_op l (drop_stream e))"
proof (cases l)
  case (Leaf x)
  then show ?thesis by (cases x) (auto simp: drop_stream_def split: option.splits)
qed (simp add: drop_stream_def)

lemma exec_node_ops_drop_stream:
  "drop_stream (exec_node_ops ls e) = drop_stream (exec_node_ops ls (drop_stream e))"
proof (induction ls arbitrary: e)
  case Nil
  show ?case by (simp add: exec_node_ops_def drop_stream_def)
next
  case (Cons l ls)
  have "drop_stream (exec_node_ops (l # ls) e) = drop_stream (exec_node_ops ls (exec_node_op l e))"
    by (simp add: exec_node_ops_def)
  also have "\<dots> = drop_stream (exec_node_ops ls (drop_stream (exec_node_op l (drop_stream e))))"
    unfolding Cons.IH [of "exec_node_op l e"] exec_node_op_drop_stream [of l e] ..
  also have "\<dots> = drop_stream (exec_node_ops (l # ls) (drop_stream e))"
    unfolding Cons.IH [of "exec_node_op l (drop_stream e)", symmetric] by (simp add: exec_node_ops_def)
  finally show ?case .
qed

lemma exec_node_ops_new_stream:
  "drop_stream (exec_node_ops ls (engine_new s st c)) = drop_stream (exec_node_ops ls (engine_new s None c))"
  using exec_node_ops_drop_stream [of ls "engine_new s st c"]
  by (simp add: engine_new_def drop_stream_def)

lemma engine_new_simps [simp]:
  "eng_state (engine_new s st c) = s" "eng_cancelled (engine_new s st c) = c"
  "eng_stream (engine_new s st c) = st" "eng_control (engine_new s st c) = control_new"
  "eng_mutations (engine_new s st c) = []"
  by (simp_all add: engine_new_def)

lemma drop_stream_eqD:
  "drop_stream e = drop_stream e' \<Longrightarrow>
     eng_state e = eng_state e' \<and> eng_control e = eng_control e' \<and> eng_mutations e = eng_mutations e'
     \<and> eng_cancelled e = eng_cancelled e'"
  by (cases e; cases e') (simp add: drop_stream_def)

lemma run_branch_spec:
  "fst (run_branch env base cancelled node rs) = branch_spec (re_ops env) base cancelled node (rs_world rs)"
proof -
  obtain w acts err where ex: "fn_execute node (rs_world rs) base cancelled = (w, acts, err)"
    by (metis prod_cases3)
  define e where "e = exec_node_ops acts (engine_new base (eng_stream (rs_engine rs)) cancelled)"
  define e' where "e' = exec_node_ops acts (engine_new base None cancelled)"
  have "drop_stream e = drop_stream e'"
    unfolding e_def e'_def by (rule exec_node_ops_new_stream)
  note same = drop_stream_eqD [OF this]
  have fold_e: "exec_node_ops acts (engine_new base (eng_stream (rs_engine rs)) cancelled) = e"
    by (simp add: e_def)
  have usize: "usize_checked_add 0 (Suc 0) = Some (Suc 0)" "usize_checked_add (Suc 0) (Suc 0) = Some 2"
    by (simp_all add: usize_max_def)
  show ?thesis
  proof (cases "fn_approval node")
    case (Some x)
    then show ?thesis
      by (simp add: run_branch_def run_graph_loop_def validate_approval_handlers_def branch_spec_def Let_def)
  next
    case None
    show ?thesis
      using same
      by (cases err; cases "ctl_signal (eng_control e')"; cases "ctl_next (eng_control e')")
        (simp_all add: None run_branch_def run_graph_loop_def validate_approval_handlers_def
          branch_spec_def ex Let_def run_loop.simps loop_step_def usize run_node_fn_def fold_e
          e'_def [symmetric] commit_and_take_def take_control_def control_take_def route_def
          resolve_next_opt_def wait_barrier_def no_sinks_def emit_checkpoint_def
          split: execution_signal.splits next_action.splits)
  qed
qed

lemma run_branch_state: "run_branch env base cancelled node rs = (out, rs') \<Longrightarrow> eng_state (rs_engine rs') = eng_state (rs_engine rs)"
  by (auto simp: run_branch_def Let_def split: prod.splits)

lemma run_branches_state:
  "run_branches env strategy base cancelled bs rs = (outs, rs') \<Longrightarrow> eng_state (rs_engine rs') = eng_state (rs_engine rs)"
  by (induction bs arbitrary: cancelled rs outs rs')
     (auto split: prod.splits dest!: run_branch_state)

text \<open>
  C24: A branch of a parallel node returns exactly what one execution of its node on a copy
  of the base state returns: the committed state, or the error of the approval check, of
  the node, of a pause (no handler) or of a jump (the budget of one step is spent).
\<close>

theorem branch_is_one_isolated_execution:
  "fst (run_branch env base cancelled node rs) = branch_spec (re_ops env) base cancelled node (rs_world rs)"
  by (rule run_branch_spec)

text \<open>The completion order is a permutation of the indices, and sorting undoes it.\<close>

lemma completion_order_set [simp]: "set (completion_order sched n) = {0..<n}"
  by (auto simp: completion_order_def Let_def)

lemma completion_order_distinct [simp]: "distinct (completion_order sched n)"
  by (auto simp: completion_order_def Let_def)

lemma sort_completion_order:
  "map snd (sort_key fst (map (\<lambda>i. (i, f i)) (completion_order sched n))) = map f [0..<n]"
proof -
  let ?ys = "sort_key fst (map (\<lambda>i. (i, f i)) (completion_order sched n))"
  have "distinct (map fst ?ys)"
    by (simp add: distinct_map inj_on_def)
  moreover have "set (map fst ?ys) = set [0..<n]" by (simp add: image_image)
  ultimately have keys: "map fst ?ys = [0..<n]"
    by (intro sorted_distinct_set_unique) simp_all
  have "map snd ?ys = map (\<lambda>y. f (fst y)) ?ys"
    by (rule map_cong) auto
  also have "\<dots> = map f [0..<n]"
    unfolding keys [symmetric] by simp
  finally show ?thesis .
qed

definition world_free :: "('s, 'm, 'k, 'w) flow_node \<Rightarrow> bool" where
  "world_free node \<longleftrightarrow>
     (\<forall>w w' s c. fst (fn_execute node w s c) = w \<and> snd (fn_execute node w s c) = snd (fn_execute node w' s c))"

lemma branch_spec_world_free:
  "world_free node \<Longrightarrow> branch_spec ops s c node w = branch_spec ops s c node w'"
proof -
  assume free: "world_free node"
  obtain acts err where "fn_execute node w s c = (w, acts, err)"
    using free unfolding world_free_def by (metis prod.collapse)
  moreover have "fn_execute node w' s c = (w', acts, err)"
    using calculation free unfolding world_free_def by (metis prod.collapse snd_conv)
  ultimately show ?thesis by (simp add: branch_spec_def split: option.splits)
qed

lemma run_branch_world:
  assumes "world_free node" and "run_branch env base cancelled node rs = (out, rs')"
  shows "rs_world rs' = rs_world rs"
proof -
  obtain acts err where ex: "fn_execute node (rs_world rs) base cancelled = (rs_world rs, acts, err)"
    using assms(1) unfolding world_free_def by (metis prod.collapse)
  define e where "e = exec_node_ops acts (engine_new base (eng_stream (rs_engine rs)) cancelled)"
  have usize: "usize_checked_add 0 (Suc 0) = Some (Suc 0)" "usize_checked_add (Suc 0) (Suc 0) = Some 2"
    by (simp_all add: usize_max_def)
  show ?thesis
    using assms(2)
    by (cases "fn_approval node"; cases err; cases "ctl_signal (eng_control e)"; cases "ctl_next (eng_control e)")
      (auto simp add: run_branch_def run_graph_loop_def validate_approval_handlers_def
          ex Let_def run_loop.simps loop_step_def usize run_node_fn_def
          e_def [symmetric] commit_and_take_def take_control_def control_take_def route_def
          resolve_next_opt_def wait_barrier_def no_sinks_def emit_checkpoint_def
          split: execution_signal.splits next_action.splits)
qed

lemma run_branches_success:
  assumes "\<And>i name node. (i, name, node) \<in> set bs \<Longrightarrow>
      world_free node \<and> branch_spec (re_ops env) base cancelled node (rs_world rs) = Inr (f i)"
  shows "fst (run_branches env strategy base cancelled bs rs) = map (\<lambda>(i, name, _). (i, name, Inr (f i))) bs"
  using assms
proof (induction bs arbitrary: rs)
  case (Cons b bs)
  obtain i name node where b: "b = (i, name, node)" by (metis prod_cases3)
  obtain out rs1 where br: "run_branch env base cancelled node rs = (out, rs1)" by fastforce
  from Cons.prems [of i name node] b have pure: "world_free node"
    and "branch_spec (re_ops env) base cancelled node (rs_world rs) = Inr (f i)" by simp_all
  with br have out: "out = Inr (f i)"
    using run_branch_spec [of env base cancelled node rs] by simp
  have "fst (run_branches env strategy base cancelled bs rs1) = map (\<lambda>(i, name, _). (i, name, Inr (f i))) bs"
    using Cons.prems run_branch_world [OF pure br] by (intro Cons.IH) auto
  then show ?case
    by (simp add: b br out cancels_group_def split_beta)
qed simp

lemma collect_success:
  "collect (map (\<lambda>(i, name, _). (i, name, Inr (f i))) bs)
     = collect_empty\<lparr>co_states := map (\<lambda>(i, _). (i, f i)) bs\<rparr>"
proof -
  have "foldl collect_one c (map (\<lambda>(i, name, _). (i, name, Inr (f i))) bs)
      = c\<lparr>co_states := co_states c @ map (\<lambda>(i, _). (i, f i)) bs\<rparr>" for c :: "'a collected"
    by (induction bs arbitrary: c) (auto simp: collect_one_def split_beta)
  then show ?thesis by (simp add: collect_def collect_empty_def)
qed

text \<open>
  C26: When the branches of a parallel node neither read nor change the outside world and
  all succeed, the result is the merge of their states in branch order, whatever order the
  executor completes them in.
\<close>

theorem parallel_merge_is_schedule_independent:
  assumes "list_all (\<lambda>(_, n). world_free n) (pn_branches p)"
    and "map (\<lambda>(_, n). branch_spec (re_ops env) (eng_state (rs_engine rs)) (eng_cancelled (rs_engine rs)) n
            (rs_world rs)) (pn_branches p) = map Inr sts"
  shows "(fst (parallel_execute env p rs), eng_state (rs_engine (snd (parallel_execute env p rs))))
     = (case pn_merge p (eng_state (rs_engine rs)) sts of
          Inl e \<Rightarrow> (Some (StateError e), eng_state (rs_engine rs))
        | Inr merged \<Rightarrow> (None, merged))"
proof -
  let ?base = "eng_state (rs_engine rs)" and ?n = "length (pn_branches p)"
  let ?order = "completion_order (re_schedule env (rs_world rs) ?n) ?n"
  let ?bs = "map (\<lambda>i. (i, pn_branches p ! i)) ?order"
  obtain outs rs1 where run:
    "run_branches env (pn_strategy p) ?base (eng_cancelled (rs_engine rs)) ?bs rs = (outs, rs1)" by fastforce
  have len: "length sts = ?n" using arg_cong [OF assms(2), of length] by simp
  have "world_free node \<and>
      branch_spec (re_ops env) ?base (eng_cancelled (rs_engine rs)) node (rs_world rs) = Inr (sts ! i)"
    if "(i, name, node) \<in> set ?bs" for i name node
  proof -
    from that have i: "i < ?n" "pn_branches p ! i = (name, node)" by auto
    moreover have "world_free node" using assms(1) i nth_mem by (fastforce simp: list_all_iff)
    moreover have "map (\<lambda>(_, n). branch_spec (re_ops env) ?base (eng_cancelled (rs_engine rs)) n
            (rs_world rs)) (pn_branches p) ! i = map Inr sts ! i" by (simp only: assms(2))
    ultimately show ?thesis using len by simp
  qed
  then have "fst (run_branches env (pn_strategy p) ?base (eng_cancelled (rs_engine rs)) ?bs rs)
      = map (\<lambda>(i, name, _). (i, name, Inr (sts ! i))) ?bs"
    by (rule run_branches_success)
  then have outs: "outs = map (\<lambda>(i, name, _). (i, name, Inr (sts ! i))) ?bs"
    unfolding run by simp
  have "collect outs = collect_empty\<lparr>co_states := map (\<lambda>i. (i, sts ! i)) ?order\<rparr>"
    unfolding outs collect_success by (simp add: comp_def split_beta)
  then have verdict: "parallel_verdict (pn_strategy p) (pn_merge p) ?base (collect outs)
      = (case pn_merge p ?base sts of Inl e \<Rightarrow> Inl (StateError e) | Inr merged \<Rightarrow> Inr merged)"
    by (simp add: parallel_verdict_def collect_empty_def sort_completion_order len [symmetric] map_nth)
  have base: "eng_state (rs_engine rs1) = ?base" using run by (rule run_branches_state)
  have "parallel_execute env p rs =
      (case parallel_verdict (pn_strategy p) (pn_merge p) ?base (collect outs) of
         Inl e \<Rightarrow> (Some e, rs1)
       | Inr merged \<Rightarrow> (None, rs1\<lparr>rs_engine := (rs_engine rs1)\<lparr>eng_state := merged\<rparr>\<rparr>))"
    by (simp only: parallel_execute_def Let_def scheduled_branches_def run prod.case)
  then show ?thesis
    unfolding verdict by (cases "pn_merge p ?base sts") (simp_all add: base)
qed

text \<open>The parallel node of the example: two branches that write different keys.\<close>

definition writer_node :: "string \<Rightarrow> nat \<Rightarrow> (nat state, nat state_mutation, unit, 'w) flow_node" where
  "writer_node k v =
     \<lparr>fn_approval = None, fn_durable = None, fn_signature = None,
      fn_execute = (\<lambda>w s c. (w, [Leaf (Record (Put k v))], None))\<rparr>"

definition two_writers :: "(nat state, nat state_mutation, unit, unit) parallel_node" where
  "two_writers =
     \<lparr>pn_branches = [(''a'', writer_node ''x'' 1), (''b'', writer_node ''y'' 2)],
      pn_strategy = FailFast, pn_merge = state_merge\<rparr>"

definition backwards_env :: "(nat state, nat state_mutation, nat state, unit) run_env" where
  "backwards_env = \<lparr>re_ops = state_ops, re_schedule = (\<lambda>w n. rev [0..<n])\<rparr>"

definition start_state :: "'s \<Rightarrow> 'w \<Rightarrow> ('s, 'm, 'k, 'w) run_state" where
  "start_state s w =
     \<lparr>rs_engine = engine_new s None False, rs_world = w, rs_occurrences = (\<lambda>_. 0), rs_log = []\<rparr>"

lemma parallel_merge_is_schedule_independent_witness:
  "fst (parallel_execute backwards_env two_writers (start_state [] ())) = None
   \<and> eng_state (rs_engine (snd (parallel_execute backwards_env two_writers (start_state [] ()))))
       = [(''x'', 1), (''y'', 2)]"
proof -
  have "list_all (\<lambda>(_, n). world_free n) (pn_branches two_writers)"
    by (simp add: two_writers_def writer_node_def world_free_def)
  moreover have "map (\<lambda>(_, n). branch_spec (re_ops backwards_env)
        (eng_state (rs_engine (start_state [] () :: (nat state, nat state_mutation, unit, unit) run_state)))
        (eng_cancelled (rs_engine (start_state [] () :: (nat state, nat state_mutation, unit, unit) run_state)))
        n (rs_world (start_state [] () :: (nat state, nat state_mutation, unit, unit) run_state)))
      (pn_branches two_writers) = map Inr [[(''x'', 1)], [(''y'', 2)]]"
    by (simp add: two_writers_def writer_node_def start_state_def branch_spec_def backwards_env_def
        exec_node_ops_def Let_def control_new_def)
  moreover have "state_merge [] [[(''x'', 1)], [(''y'', 2 :: nat)]] = Inr [(''x'', 1), (''y'', 2)]"
    by code_simp
  ultimately show ?thesis
    using parallel_merge_is_schedule_independent [of two_writers backwards_env "start_state [] ()"
        "[[(''x'', 1)], [(''y'', 2)]]"]
    by (simp add: two_writers_def start_state_def)
qed

lemma collect_ok_iff:
  "(co_errors (collect outs) = [] \<and> \<not> co_suspended (collect outs) \<and> \<not> co_stopped (collect outs))
     \<longleftrightarrow> list_all (\<lambda>(_, _, out). is_ok out) outs"
proof -
  have "(co_errors (foldl collect_one c outs) = [] \<and> \<not> co_suspended (foldl collect_one c outs)
        \<and> \<not> co_stopped (foldl collect_one c outs))
     \<longleftrightarrow> co_errors c = [] \<and> \<not> co_suspended c \<and> \<not> co_stopped c \<and> list_all (\<lambda>(_, _, out). is_ok out) outs"
    for c :: "'a collected"
    by (induction outs arbitrary: c)
       (auto simp: collect_one_def is_ok_def split: sum.splits prod.splits if_splits)
  then show ?thesis by (simp add: collect_def collect_empty_def)
qed

lemma parallel_verdict_Inr:
  "parallel_verdict strategy merge base (collect outs) = Inr s \<longleftrightarrow>
     list_all (\<lambda>(_, _, out). is_ok out) outs
     \<and> merge base (map snd (sort_key fst (co_states (collect outs)))) = Inr s"
  unfolding collect_ok_iff [symmetric]
  by (auto simp: parallel_verdict_def split: list.splits sum.splits if_splits)

text \<open>What the branches gave: each branch of the order once, the outcome of its isolated execution.\<close>

lemma run_branches_each:
  "run_branches env strategy base cancelled bs rs = (outs, rs') \<Longrightarrow>
     list_all2 (\<lambda>(i, n, node) (j, m, out). j = i \<and> m = n \<and> (\<exists>c w. out = branch_spec (re_ops env) base c node w)) bs outs
     \<and> eng_control (rs_engine rs') = eng_control (rs_engine rs) \<and> eng_mutations (rs_engine rs') = eng_mutations (rs_engine rs)"
proof (induction bs arbitrary: cancelled rs outs rs')
  case (Cons b bs)
  obtain i name node where b: "b = (i, name, node)" by (metis prod_cases3)
  obtain out rs1 where br: "run_branch env base cancelled node rs = (out, rs1)" by fastforce
  have keep: "eng_control (rs_engine rs1) = eng_control (rs_engine rs)" "eng_mutations (rs_engine rs1) = eng_mutations (rs_engine rs)"
    using br by (auto simp: run_branch_def Let_def split: prod.splits)
  obtain outs1 rs2 where rest: "run_branches env strategy base (cancelled \<or> cancels_group strategy out) bs rs1 = (outs1, rs2)" by fastforce
  have "\<exists>c w. out = branch_spec (re_ops env) base c node w"
    using run_branch_spec [of env base cancelled node rs] br by (metis fst_conv)
  moreover have "outs = (i, name, out) # outs1" "rs' = rs2" using Cons.prems by (simp_all add: b br rest)
  ultimately show ?case using Cons.IH [OF rest] keep by (simp add: b)
qed simp

text \<open>Every branch succeeded, with the state of an isolated execution of its node: the states, as declared.\<close>

definition branch_states ::
  "('s, 'm, 'c) workflow_ops \<Rightarrow> 's \<Rightarrow> (string \<times> ('s, 'm, 'k, 'w) flow_node) list \<Rightarrow> 's branch_outcome list \<Rightarrow> 's list \<Rightarrow> bool" where
  "branch_states ops base branches outs sts \<longleftrightarrow>
     list_all2 (\<lambda>(i, name, node) s. (i, name, Inr s) \<in> set outs \<and> (\<exists>c w. branch_spec ops base c node w = Inr s))
       (enumerate 0 branches) sts"

lemma branches_all_ok:
  assumes run: "run_branches env strategy base cancelled (scheduled_branches sched branches) rs = (outs, rs')"
    and oks: "list_all (\<lambda>(_, _, out). is_ok out) outs"
  obtains sts where "map snd (sort_key fst (co_states (collect outs))) = sts"
    and "branch_states (re_ops env) base branches outs sts"
proof -
  let ?order = "completion_order sched (length branches)"
  define bs where "bs = scheduled_branches sched branches"
  have bs: "bs = map (\<lambda>i. (i, branches ! i)) ?order" by (simp add: bs_def scheduled_branches_def)
  note each = conjunct1 [OF run_branches_each [OF run], folded bs_def]
  have keys: "map fst outs = ?order"
    using each by (auto simp: bs list_all2_conv_all_nth split_beta intro!: nth_equalityI)
  then have dist: "distinct (map fst outs)" by simp
  define f where "f i = projr (snd (the (map_of outs i)))" for i
  have f: "out = Inr (f i)" if "(i, name, out) \<in> set outs" for i name out
    using that oks map_of_is_SomeI [OF dist that] by (auto simp: f_def list_all_iff is_ok_def split: sum.splits)
  have entry: "(i, fst (branches ! i), Inr (f i)) \<in> set outs \<and> (\<exists>c w. branch_spec (re_ops env) base c (snd (branches ! i)) w = Inr (f i))"
    if "i < length branches" for i
  proof -
    have "i \<in> set ?order" using that by simp
    then obtain k where k: "k < length ?order" "?order ! k = i" by (meson in_set_conv_nth)
    obtain j m out where o: "outs ! k = (j, m, out)" by (metis prod_cases3)
    have len: "length outs = length ?order" using keys by (metis length_map)
    with o k list_all2_nthD2 [OF each, of k] have "j = i" "m = fst (branches ! i)"
      "\<exists>c w. out = branch_spec (re_ops env) base c (snd (branches ! i)) w" by (auto simp: bs split_beta)
    moreover have "(j, m, out) \<in> set outs" using o k(1) len nth_mem by metis
    ultimately show ?thesis using f by metis
  qed
  have "outs = map (\<lambda>(i, name, _). (i, name, Inr (f i))) bs"
  proof (rule nth_equalityI)
    show len: "length outs = length (map (\<lambda>(i, name, _). (i, name, Inr (f i) :: terminal_error + 'a)) bs)"
      using list_all2_lengthD [OF each] by simp
    fix k assume k: "k < length outs"
    obtain j m out where o: "outs ! k = (j, m, out)" by (metis prod_cases3)
    with f [of j m out] nth_mem [OF k] list_all2_nthD2 [OF each k] k len
    show "outs ! k = map (\<lambda>(i, name, _). (i, name, Inr (f i))) bs ! k" by (auto simp: split_beta)
  qed
  then have "map snd (sort_key fst (co_states (collect outs))) = map f [0..<length branches]"
    by (simp only: collect_success) (simp add: bs collect_empty_def comp_def split_beta sort_completion_order)
  moreover have "branch_states (re_ops env) base branches outs (map f [0..<length branches])"
    using entry by (simp add: branch_states_def list_all2_conv_all_nth nth_enumerate_eq split_beta)
  ultimately show ?thesis by (rule that)
qed

text \<open>
  C25: A parallel node is all or nothing. When it fails, the state of the run is the one it found, and a
  branch failed, or every branch succeeded and the merge of their states failed with the error reported.
  When it succeeds, every branch succeeded with the state of an isolated execution of its node on a copy
  of the state found, and the new state is the merge of exactly these states, one for each branch, in
  the order in which the branches were declared.
\<close>

theorem parallel_is_all_or_nothing:
  "let base = eng_state (rs_engine rs);
       outs = fst (run_branches env (pn_strategy p) base (eng_cancelled (rs_engine rs))
            (scheduled_branches (re_schedule env (rs_world rs) (length (pn_branches p))) (pn_branches p)) rs) in
   case parallel_execute env p rs of
     (Some e, rs') \<Rightarrow> eng_state (rs_engine rs') = base
       \<and> ((\<exists>i name err. (i, name, Inl err) \<in> set outs)
          \<or> (\<exists>sts err. branch_states (re_ops env) base (pn_branches p) outs sts
               \<and> pn_merge p base sts = Inl err \<and> e = StateError err))
   | (None, rs') \<Rightarrow>
       (\<exists>sts. branch_states (re_ops env) base (pn_branches p) outs sts
          \<and> pn_merge p base sts = Inr (eng_state (rs_engine rs')))"
proof -
  let ?base = "eng_state (rs_engine rs)"
  obtain outs rs1 where run:
    "run_branches env (pn_strategy p) ?base (eng_cancelled (rs_engine rs))
       (scheduled_branches (re_schedule env (rs_world rs) (length (pn_branches p))) (pn_branches p)) rs
     = (outs, rs1)" by fastforce
  show ?thesis
  proof (cases "parallel_verdict (pn_strategy p) (pn_merge p) ?base (collect outs)")
    case (Inl e)
    have "(\<exists>i name err. (i, name, Inl err) \<in> set outs)
        \<or> (\<exists>sts err. branch_states (re_ops env) ?base (pn_branches p) outs sts \<and> pn_merge p ?base sts = Inl err \<and> e = StateError err)"
    proof (cases "list_all (\<lambda>(_, _, out). is_ok out) outs")
      case True
      obtain sts where sts: "map snd (sort_key fst (co_states (collect outs))) = sts"
        "branch_states (re_ops env) ?base (pn_branches p) outs sts" by (rule branches_all_ok [OF run True])
      with True Inl collect_ok_iff [of outs] show ?thesis by (auto simp: parallel_verdict_def split: sum.splits)
    next
      case False
      then show ?thesis by (fastforce simp: list_all_iff is_ok_def split: sum.splits)
    qed
    with Inl show ?thesis
      using run_branches_state [OF run] by (simp add: parallel_execute_def Let_def run)
  next
    case (Inr s)
    then have oks: "list_all (\<lambda>(_, _, out). is_ok out) outs"
      and merge: "pn_merge p ?base (map snd (sort_key fst (co_states (collect outs)))) = Inr s"
      by (simp_all add: parallel_verdict_Inr)
    obtain sts where "map snd (sort_key fst (co_states (collect outs))) = sts"
      "branch_states (re_ops env) ?base (pn_branches p) outs sts" by (rule branches_all_ok [OF run oks])
    with Inr merge show ?thesis by (auto simp: parallel_execute_def Let_def run)
  qed
qed

end
