(* ===== verification/Blob_Store.thy ===== *)
theory Blob_Store
  imports Text
begin

text \<open>
  The checkpoint stores (\<open>checkpoint/store.rs\<close>): the SPI \<open>BlobCheckpointStore\<close> as a
  dictionary of operations, the in-memory store, the file store with its sequence-numbered
  files and its write protocol, and the interface \<open>blob_store\<close> both provide.

  Identifiers (\<open>SparkId\<close>, \<open>Uuid\<close>) are kept as their display texts and times as
  nanoseconds since the epoch. The envelope's JSON, base64 and \<open>SparkId::from_str\<close> are
  the components of a \<open>file_codec\<close>.
\<close>

section \<open>The store interface\<close>

type_synonym checkpoint_id = string
type_synonym trace_id = string

record blob =
  bl_id :: checkpoint_id
  bl_data :: string
  bl_hash :: "64 word"
  bl_created :: nat

datatype store_error =
    Storage string
  | CheckpointNotFound checkpoint_id
  | Corrupted string
  | SerializationError string
  | GraphMismatch "64 word" "64 word"
  | UnsupportedFormatError string

type_synonym ('st, 'a) store_act = "'st \<Rightarrow> (store_error + 'a) \<times> 'st"

record 'st blob_ops =
  bs_save :: "trace_id \<Rightarrow> blob \<Rightarrow> ('st, unit) store_act"
  bs_load :: "checkpoint_id \<Rightarrow> 'st \<Rightarrow> store_error + blob option"
  bs_load_latest :: "trace_id \<Rightarrow> 'st \<Rightarrow> store_error + blob option"
  bs_list :: "trace_id \<Rightarrow> 'st \<Rightarrow> store_error + checkpoint_id list"
  bs_delete :: "checkpoint_id \<Rightarrow> ('st, bool) store_act"
  bs_prune :: "trace_id \<Rightarrow> nat \<Rightarrow> ('st, nat) store_act"

section \<open>The in-memory store\<close>

record memory_store =
  ms_store :: "(checkpoint_id, blob) hashmap"
  ms_index :: "(trace_id, checkpoint_id list) hashmap"

definition memory_new :: memory_store where
  "memory_new = \<lparr>ms_store = [], ms_index = []\<rparr>"

definition memory_len :: "memory_store \<Rightarrow> nat" where
  "memory_len st = length (ms_store st)"

definition memory_ids :: "trace_id \<Rightarrow> memory_store \<Rightarrow> checkpoint_id list" where
  "memory_ids t st = (case hm_get (ms_index st) t of None \<Rightarrow> [] | Some ids \<Rightarrow> ids)"

definition memory_save :: "trace_id \<Rightarrow> blob \<Rightarrow> (memory_store, unit) store_act" where
  "memory_save t b st =
     (Inr (), st\<lparr>ms_store := hm_insert (bl_id b) b (ms_store st),
                ms_index := hm_insert t (memory_ids t st @ [bl_id b]) (ms_index st)\<rparr>)"

definition memory_load :: "checkpoint_id \<Rightarrow> memory_store \<Rightarrow> store_error + blob option" where
  "memory_load i st = Inr (hm_get (ms_store st) i)"

definition memory_load_latest :: "trace_id \<Rightarrow> memory_store \<Rightarrow> store_error + blob option" where
  "memory_load_latest t st =
     (case hm_get (ms_index st) t of
        None \<Rightarrow> Inr None
      | Some ids \<Rightarrow> (if ids = [] then Inr None else Inr (hm_get (ms_store st) (last ids))))"

definition memory_list :: "trace_id \<Rightarrow> memory_store \<Rightarrow> store_error + checkpoint_id list" where
  "memory_list t st = Inr (rev (memory_ids t st))"

definition memory_delete :: "checkpoint_id \<Rightarrow> (memory_store, bool) store_act" where
  "memory_delete i st =
     (Inr (hm_get (ms_store st) i \<noteq> None), st\<lparr>ms_store := hm_remove i (ms_store st)\<rparr>)"

definition memory_prune :: "trace_id \<Rightarrow> nat \<Rightarrow> (memory_store, nat) store_act" where
  "memory_prune t keep st =
     (case hm_get (ms_index st) t of
        None \<Rightarrow> (Inr 0, st)
      | Some ids \<Rightarrow>
          (if length ids > keep
           then let remove_count = length ids - keep;
                    to_delete = take remove_count ids in
                (Inr (length to_delete),
                 st\<lparr>ms_index := hm_insert t (drop remove_count ids) (ms_index st),
                    ms_store := foldl (\<lambda>m i. hm_remove i m) (ms_store st) to_delete\<rparr>)
           else (Inr 0, st)))"

definition memory_ops :: "memory_store blob_ops" where
  "memory_ops =
     \<lparr>bs_save = memory_save, bs_load = memory_load, bs_load_latest = memory_load_latest,
      bs_list = memory_list, bs_delete = memory_delete, bs_prune = memory_prune\<rparr>"

section \<open>The file store\<close>

record envelope =
  en_id :: string
  en_hash :: "64 word"
  en_created :: nat
  en_data :: string

text \<open>
  \<open>serde_json\<close> on the envelope, base64 and the identifier parser. \<open>'f\<close> is what a file
  holds.
\<close>

record 'f file_codec =
  fc_write :: "envelope \<Rightarrow> string + 'f"
  fc_read :: "'f \<Rightarrow> string + envelope"
  fc_encode :: "string \<Rightarrow> string"
  fc_decode :: "string \<Rightarrow> string + string"
  fc_parse_id :: "string \<Rightarrow> string + checkpoint_id"

type_synonym 'f directory = "(string, 'f) hashmap"

text \<open>The root directory: absent, or the trace directories with their files.\<close>

type_synonym 'f file_store = "(trace_id, 'f directory) hashmap option"

definition parse_entry :: "string \<Rightarrow> (nat \<times> string \<times> string) option" where
  "parse_entry name =
     (if ends_with name ''.tmp'' then None
      else case split_at CHR ''_'' name of
             None \<Rightarrow> None
           | Some (p, rest) \<Rightarrow>
               (case parse_u64 p of None \<Rightarrow> None | Some seq \<Rightarrow> Some (seq, name, rest)))"

definition scan_trace_dir :: "'f directory \<Rightarrow> (nat \<times> string \<times> string) list" where
  "scan_trace_dir d = List.map_filter parse_entry (hm_keys d)"

definition read_blob :: "'f file_codec \<Rightarrow> 'f \<Rightarrow> store_error + blob" where
  "read_blob c f =
     (case fc_read c f of
        Inl e \<Rightarrow> Inl (Corrupted (''envelope: '' @ e))
      | Inr env \<Rightarrow>
     (case fc_decode c (en_data env) of
        Inl e \<Rightarrow> Inl (Corrupted (''base64: '' @ e))
      | Inr data \<Rightarrow>
     (case fc_parse_id c (en_id env) of
        Inl e \<Rightarrow> Inl (Corrupted (''id: '' @ e))
      | Inr i \<Rightarrow> Inr \<lparr>bl_id = i, bl_data = data, bl_hash = en_hash env, bl_created = en_created env\<rparr>)))"

definition trace_dir :: "'f file_store \<Rightarrow> trace_id \<Rightarrow> 'f directory option" where
  "trace_dir fs t = (case fs of None \<Rightarrow> None | Some dirs \<Rightarrow> hm_get dirs t)"

definition put_dir :: "trace_id \<Rightarrow> 'f directory \<Rightarrow> 'f file_store \<Rightarrow> 'f file_store" where
  "put_dir t d fs = Some (hm_insert t d (case fs of None \<Rightarrow> [] | Some dirs \<Rightarrow> dirs))"

text \<open>
  Where a save can be interrupted, by an error of the file system or by the death of the
  process: the effects on the files are the same. A write that fails may leave any content
  in the temporary file.
\<close>

datatype 'f save_fault =
    CreateDirFails | ScanFails | CreateTmpFails | WriteFails 'f | FlushFails 'f | RenameFails

definition next_seq :: "'f directory \<Rightarrow> nat option" where
  "next_seq d =
     (case scan_trace_dir d of
        [] \<Rightarrow> Some 1
      | es \<Rightarrow> (let m = Max (set (map fst es)) in if m + 1 < 2 ^ 64 then Some (m + 1) else None))"

definition blob_envelope :: "'f file_codec \<Rightarrow> blob \<Rightarrow> envelope" where
  "blob_envelope c b =
     \<lparr>en_id = bl_id b, en_hash = bl_hash b, en_created = bl_created b mod 2 ^ 64,
      en_data = fc_encode c (bl_data b)\<rparr>"

definition final_name :: "nat \<Rightarrow> checkpoint_id \<Rightarrow> string" where
  "final_name seq i = show_nat seq @ ''_'' @ i"

definition tmp_name :: "nat \<Rightarrow> checkpoint_id \<Rightarrow> string" where
  "tmp_name seq i = show_nat seq @ ''_'' @ i @ ''.tmp''"

definition file_save ::
  "'f file_codec \<Rightarrow> 'f save_fault option \<Rightarrow> trace_id \<Rightarrow> blob \<Rightarrow> ('f file_store, unit) store_act" where
  "file_save c fault t b fs =
     (if fault = Some CreateDirFails then (Inl (Storage ''create dir''), fs)
      else
     (let d = (case trace_dir fs t of None \<Rightarrow> [] | Some d \<Rightarrow> d);
          fs1 = put_dir t d fs in
      if fault = Some ScanFails then (Inl (Storage ''read trace dir''), fs1)
      else
     (case next_seq d of
        None \<Rightarrow> (Inl (Storage ''checkpoint seq overflow''), fs1)
      | Some seq \<Rightarrow>
     (case fc_write c (blob_envelope c b) of
        Inl e \<Rightarrow> (Inl (SerializationError e), fs1)
      | Inr json \<Rightarrow>
          (case fault of
             Some CreateTmpFails \<Rightarrow> (Inl (Storage ''create tmp''), fs1)
           | Some (WriteFails f) \<Rightarrow>
               (Inl (Storage ''write''), put_dir t (hm_insert (tmp_name seq (bl_id b)) f d) fs)
           | Some (FlushFails f) \<Rightarrow>
               (Inl (Storage ''flush''), put_dir t (hm_insert (tmp_name seq (bl_id b)) f d) fs)
           | Some RenameFails \<Rightarrow>
               (Inl (Storage ''rename''), put_dir t (hm_insert (tmp_name seq (bl_id b)) json d) fs)
           | _ \<Rightarrow>
               (Inr (),
                put_dir t
                  (hm_insert (final_name seq (bl_id b)) json
                    (hm_remove (tmp_name seq (bl_id b)) (hm_insert (tmp_name seq (bl_id b)) json d)))
                  fs))))))"

fun find_entry ::
  "(trace_id \<times> 'f directory) list \<Rightarrow> checkpoint_id \<Rightarrow> (trace_id \<times> 'f directory \<times> string) option" where
  "find_entry [] i = None"
| "find_entry ((t, d) # ds) i =
     (case find (\<lambda>(_, _, eid). eid = i) (scan_trace_dir d) of
        Some (_, name, _) \<Rightarrow> Some (t, d, name)
      | None \<Rightarrow> find_entry ds i)"

definition read_file :: "'f file_codec \<Rightarrow> 'f directory \<Rightarrow> string \<Rightarrow> store_error + blob" where
  "read_file c d name =
     (case hm_get d name of None \<Rightarrow> Inl (Storage (''read '' @ name)) | Some f \<Rightarrow> read_blob c f)"

definition file_load :: "'f file_codec \<Rightarrow> checkpoint_id \<Rightarrow> 'f file_store \<Rightarrow> store_error + blob option" where
  "file_load c i fs =
     (case fs of
        None \<Rightarrow> Inl (Storage ''read root'')
      | Some dirs \<Rightarrow>
          (case find_entry dirs i of
             None \<Rightarrow> Inr None
           | Some (t, d, name) \<Rightarrow>
               (case read_file c d name of Inl e \<Rightarrow> Inl e | Inr b \<Rightarrow> Inr (Some b))))"

text \<open>\<open>Iterator::max_by_key\<close>: of several maximal entries the last.\<close>

definition max_by_seq :: "(nat \<times> 'a) list \<Rightarrow> (nat \<times> 'a) option" where
  "max_by_seq es =
     foldl (\<lambda>acc x. case acc of None \<Rightarrow> Some x | Some y \<Rightarrow> if fst y \<le> fst x then Some x else Some y) None es"

definition file_load_latest :: "'f file_codec \<Rightarrow> trace_id \<Rightarrow> 'f file_store \<Rightarrow> store_error + blob option" where
  "file_load_latest c t fs =
     (case trace_dir fs t of
        None \<Rightarrow> Inr None
      | Some d \<Rightarrow>
          (case max_by_seq (scan_trace_dir d) of
             None \<Rightarrow> Inr None
           | Some (_, name, _) \<Rightarrow>
               (case read_file c d name of Inl e \<Rightarrow> Inl e | Inr b \<Rightarrow> Inr (Some b))))"

text \<open>The stable sort by falling sequence number.\<close>

definition newest_first :: "(nat \<times> 'a) list \<Rightarrow> (nat \<times> 'a) list" where
  "newest_first es = sort_key (\<lambda>e. - int (fst e)) es"

fun parse_ids :: "'f file_codec \<Rightarrow> string list \<Rightarrow> store_error + checkpoint_id list" where
  "parse_ids c [] = Inr []"
| "parse_ids c (s # ss) =
     (case fc_parse_id c s of
        Inl e \<Rightarrow> Inl (Corrupted (''id: '' @ e))
      | Inr i \<Rightarrow> (case parse_ids c ss of Inl e \<Rightarrow> Inl e | Inr is \<Rightarrow> Inr (i # is)))"

definition file_list :: "'f file_codec \<Rightarrow> trace_id \<Rightarrow> 'f file_store \<Rightarrow> store_error + checkpoint_id list" where
  "file_list c t fs =
     (case trace_dir fs t of
        None \<Rightarrow> Inr []
      | Some d \<Rightarrow> parse_ids c (map (\<lambda>(_, _, i). i) (newest_first (scan_trace_dir d))))"

definition file_delete :: "checkpoint_id \<Rightarrow> ('f file_store, bool) store_act" where
  "file_delete i fs =
     (case fs of
        None \<Rightarrow> (Inl (Storage ''read root''), fs)
      | Some dirs \<Rightarrow>
          (case find_entry dirs i of
             None \<Rightarrow> (Inr False, fs)
           | Some (t, d, name) \<Rightarrow> (Inr True, Some (hm_insert t (hm_remove name d) dirs))))"

definition file_prune :: "trace_id \<Rightarrow> nat \<Rightarrow> ('f file_store, nat) store_act" where
  "file_prune t keep fs =
     (case trace_dir fs t of
        None \<Rightarrow> (Inr 0, fs)
      | Some d \<Rightarrow>
          (let entries = scan_trace_dir d in
           if length entries \<le> keep then (Inr 0, fs)
           else let doomed = drop keep (newest_first entries) in
                (Inr (length doomed),
                 put_dir t (foldl (\<lambda>d (_, name, _). hm_remove name d) d doomed) fs)))"

definition file_ops :: "'f file_codec \<Rightarrow> 'f file_store blob_ops" where
  "file_ops c =
     \<lparr>bs_save = file_save c None, bs_load = file_load c, bs_load_latest = file_load_latest c,
      bs_list = file_list c, bs_delete = file_delete, bs_prune = file_prune\<rparr>"

section \<open>The contract of a store\<close>

text \<open>
  What the checkpoint layer relies on, over the history of each trace: the blobs it holds,
  oldest first. A save of a fresh identifier that succeeds appends, a prune keeps the
  newest, and the lookups read the history.
\<close>

locale blob_store =
  fixes ops :: "'st blob_ops"
    and inv :: "'st \<Rightarrow> bool"
    and valid :: "blob \<Rightarrow> bool"
    and hist :: "'st \<Rightarrow> trace_id \<Rightarrow> blob list"
  assumes list_hist: "inv st \<Longrightarrow> bs_list ops t st = Inr (rev (map bl_id (hist st t)))"
    and latest_hist: "inv st \<Longrightarrow>
      bs_load_latest ops t st = Inr (if hist st t = [] then None else Some (last (hist st t)))"
    and load_hist: "inv st \<Longrightarrow> b \<in> set (hist st t) \<Longrightarrow> bs_load ops (bl_id b) st = Inr (Some b)"
    and save_hist: "inv st \<Longrightarrow> valid b \<Longrightarrow> (\<And>t'. bl_id b \<notin> bl_id ` set (hist st t')) \<Longrightarrow>
      bs_save ops t b st = (Inr (), st') \<Longrightarrow> inv st' \<and> hist st' = (hist st)(t := hist st t @ [b])"
    and prune_hist: "inv st \<Longrightarrow> bs_prune ops t keep st = (r, st') \<Longrightarrow>
      r = Inr (length (hist st t) - keep) \<and> inv st'
      \<and> hist st' = (hist st)(t := drop (length (hist st t) - keep) (hist st t))"
begin

lemma latest_after_save:
  assumes "inv st" and "valid b" and "\<And>t'. bl_id b \<notin> bl_id ` set (hist st t')"
    and "bs_save ops t b st = (Inr (), st')"
  shows "bs_load_latest ops t st' = Inr (Some b)"
    and "bs_load ops (bl_id b) st' = Inr (Some b)"
    and "t' \<noteq> t \<Longrightarrow> bs_load_latest ops t' st' = bs_load_latest ops t' st"
  using save_hist [OF assms] latest_hist [of st'] latest_hist [OF assms(1)] load_hist [of st' b t]
  by auto

lemma latest_after_prune:
  assumes "inv st" and "0 < keep" and "bs_prune ops t keep st = (r, st')"
  shows "bs_load_latest ops t' st' = bs_load_latest ops t' st"
proof -
  have "length (hist st t) - keep < length (hist st t)" if "hist st t \<noteq> []"
    using that assms(2) by simp
  then show ?thesis
    using prune_hist [OF assms(1,3), THEN conjunct2, THEN conjunct1, THEN latest_hist, of t']
      prune_hist [OF assms(1,3), THEN conjunct2, THEN conjunct2] latest_hist [OF assms(1), of t']
    by (cases "hist st t = []") (auto simp: last_drop)
qed

lemma list_after_prune:
  assumes "inv st" and "bs_prune ops t keep st = (r, st')"
  shows "bs_list ops t st' = Inr (take keep (rev (map bl_id (hist st t))))"
  using prune_hist [OF assms] list_hist [of st' t]
  by (simp add: take_rev drop_map)

end

section \<open>The in-memory store keeps the contract\<close>

definition memory_hist :: "memory_store \<Rightarrow> trace_id \<Rightarrow> blob list" where
  "memory_hist st t = map (\<lambda>i. the (hm_get (ms_store st) i)) (memory_ids t st)"

text \<open>
  The index names exactly the stored identifiers, each once, and a blob is stored under its
  own identifier.
\<close>

definition memory_inv :: "memory_store \<Rightarrow> bool" where
  "memory_inv st \<longleftrightarrow>
     (\<forall>i b. hm_get (ms_store st) i = Some b \<longrightarrow> bl_id b = i)
     \<and> (\<forall>i. hm_get (ms_store st) i \<noteq> None \<longleftrightarrow> (\<exists>t. i \<in> set (memory_ids t st)))
     \<and> (\<forall>t. distinct (memory_ids t st))
     \<and> (\<forall>t t'. t \<noteq> t' \<longrightarrow> set (memory_ids t st) \<inter> set (memory_ids t' st) = {})"

lemma memory_ids_insert [simp]:
  "memory_ids t (st\<lparr>ms_store := m, ms_index := hm_insert t' ids (ms_index st)\<rparr>)
     = (if t = t' then ids else memory_ids t st)"
  "memory_ids t (st\<lparr>ms_index := hm_insert t' ids (ms_index st), ms_store := m\<rparr>)
     = (if t = t' then ids else memory_ids t st)"
  by (simp_all add: memory_ids_def)

lemma memory_inv_new [simp]: "memory_inv memory_new"
  by (simp add: memory_inv_def memory_new_def memory_ids_def)

lemma memory_stored:
  "memory_inv st \<Longrightarrow> i \<in> set (memory_ids t st) \<Longrightarrow> \<exists>b. hm_get (ms_store st) i = Some b \<and> bl_id b = i"
  unfolding memory_inv_def by (metis not_Some_eq)

lemma memory_disjoint:
  "memory_inv st \<Longrightarrow> i \<in> set (memory_ids t st) \<Longrightarrow> i \<in> set (memory_ids t' st) \<Longrightarrow> t' = t"
  unfolding memory_inv_def by (meson disjoint_iff)

lemma memory_distinct: "memory_inv st \<Longrightarrow> distinct (memory_ids t st)"
  by (simp add: memory_inv_def)

lemma memory_known: "memory_inv st \<Longrightarrow> (hm_get (ms_store st) i \<noteq> None) = (\<exists>t. i \<in> set (memory_ids t st))"
  by (simp add: memory_inv_def)

lemma memory_own_id: "memory_inv st \<Longrightarrow> hm_get (ms_store st) i = Some b \<Longrightarrow> bl_id b = i"
  by (simp add: memory_inv_def)

lemma memory_hist_ids: "memory_inv st \<Longrightarrow> map bl_id (memory_hist st t) = memory_ids t st"
  unfolding memory_hist_def map_map
  by (rule map_idI) (auto dest: memory_stored)

lemma foldl_remove_get:
  "hm_get (foldl (\<lambda>m i. hm_remove i m) m ids) k = (if k \<in> set ids then None else hm_get m k)"
  by (induction ids arbitrary: m) auto

lemma memory_save_inv:
  assumes inv: "memory_inv st" and fresh: "\<And>t'. bl_id b \<notin> bl_id ` set (memory_hist st t')"
    and save: "memory_save t b st = (Inr (), st')"
  shows "memory_inv st'" and "memory_hist st' = (memory_hist st)(t := memory_hist st t @ [b])"
proof -
  have new: "bl_id b \<notin> set (memory_ids t' st)" for t'
    using fresh [of t'] memory_hist_ids [OF inv, of t'] by (metis set_map)
  from save have st': "st' = st\<lparr>ms_store := hm_insert (bl_id b) b (ms_store st),
        ms_index := hm_insert t (memory_ids t st @ [bl_id b]) (ms_index st)\<rparr>"
    by (simp add: memory_save_def)
  have ids': "memory_ids t' st' = (if t' = t then memory_ids t st @ [bl_id b] else memory_ids t' st)" for t'
    by (simp add: st')
  have get': "hm_get (ms_store st') i = (if i = bl_id b then Some b else hm_get (ms_store st) i)" for i
    by (simp add: st')
  show "memory_inv st'"
    unfolding memory_inv_def
  proof (intro conjI allI impI)
    show "bl_id b' = i" if "hm_get (ms_store st') i = Some b'" for i b'
      using that memory_own_id [OF inv] by (auto simp: get' split: if_splits)
    show "(hm_get (ms_store st') i \<noteq> None) = (\<exists>t'. i \<in> set (memory_ids t' st'))" for i
      using memory_known [OF inv, of i] by (auto simp: get' ids')
    show "distinct (memory_ids t' st')" for t'
      using memory_distinct [OF inv] new by (simp add: ids')
    show "set (memory_ids t1 st') \<inter> set (memory_ids t2 st') = {}" if "t1 \<noteq> t2" for t1 t2
      using that new memory_disjoint [OF inv] by (auto simp: ids' split: if_splits)
  qed
  show "memory_hist st' = (memory_hist st)(t := memory_hist st t @ [b])"
    using new by (auto simp: st' memory_hist_def fun_eq_iff intro!: map_cong)
qed

lemma memory_prune_inv:
  assumes inv: "memory_inv st" and prune: "memory_prune t keep st = (r, st')"
  shows "r = Inr (length (memory_hist st t) - keep) \<and> memory_inv st'
     \<and> memory_hist st' = (memory_hist st)(t := drop (length (memory_hist st t) - keep) (memory_hist st t))"
proof -
  let ?ids = "memory_ids t st"
  let ?n = "length ?ids - keep"
  have len: "length (memory_hist st t) = length ?ids" by (simp add: memory_hist_def)
  show ?thesis
  proof (cases "length ?ids > keep")
    case False
    then have "r = Inr 0 \<and> st' = st"
      using prune by (auto simp: memory_prune_def memory_ids_def split: option.splits)
    with False inv len show ?thesis by simp
  next
    case True
    then have r: "r = Inr ?n" and st': "st' = st\<lparr>ms_index := hm_insert t (drop ?n ?ids) (ms_index st),
        ms_store := foldl (\<lambda>m i. hm_remove i m) (ms_store st) (take ?n ?ids)\<rparr>"
      using prune by (auto simp: memory_prune_def memory_ids_def Let_def split: option.splits)
    have dist: "distinct ?ids" using inv by (simp add: memory_inv_def)
    then have gone: "i \<in> set ?ids \<longleftrightarrow> i \<in> set (take ?n ?ids) \<or> i \<in> set (drop ?n ?ids)"
      and apart: "set (take ?n ?ids) \<inter> set (drop ?n ?ids) = {}" for i
      by (metis append_take_drop_id set_append Un_iff,
          metis append_take_drop_id distinct_append)
    have other: "i \<notin> set (take ?n ?ids)" if "i \<in> set (memory_ids t' st)" "t' \<noteq> t" for i t'
      using that in_set_takeD memory_disjoint [OF inv] by metis
    have ids': "memory_ids t' st' = (if t' = t then drop ?n ?ids else memory_ids t' st)" for t'
      by (simp add: st')
    have get': "hm_get (ms_store st') i = (if i \<in> set (take ?n ?ids) then None else hm_get (ms_store st) i)" for i
      by (simp add: st' foldl_remove_get)
    have "memory_inv st'"
      unfolding memory_inv_def
    proof (intro conjI allI impI)
      show "bl_id b = i" if "hm_get (ms_store st') i = Some b" for i b
        using that memory_own_id [OF inv] by (auto simp: get' split: if_splits)
      show "(hm_get (ms_store st') i \<noteq> None) = (\<exists>t'. i \<in> set (memory_ids t' st'))" for i
        using memory_known [OF inv, of i] gone [of i] apart other [of i] by (auto simp: get' ids')
      show "distinct (memory_ids t' st')" for t'
        using memory_distinct [OF inv] by (simp add: ids')
      show "set (memory_ids t1 st') \<inter> set (memory_ids t2 st') = {}" if "t1 \<noteq> t2" for t1 t2
        using that memory_disjoint [OF inv] set_drop_subset [of ?n ?ids] by (auto simp: ids' split: if_splits)
    qed
    moreover have "memory_hist st' = (memory_hist st)(t := drop ?n (memory_hist st t))"
      using apart other by (auto simp: fun_eq_iff memory_hist_def ids' get' drop_map intro!: map_cong)
    ultimately show ?thesis using r len by simp
  qed
qed

interpretation memory: blob_store memory_ops memory_inv "\<lambda>_. True" memory_hist
proof
  fix st t
  assume inv: "memory_inv st"
  show "bs_list memory_ops t st = Inr (rev (map bl_id (memory_hist st t)))"
    by (simp add: memory_ops_def memory_list_def memory_hist_ids [OF inv])
  show "bs_load_latest memory_ops t st
      = Inr (if memory_hist st t = [] then None else Some (last (memory_hist st t)))"
    using memory_stored [OF inv, of "last (memory_ids t st)" t]
    by (auto simp: memory_ops_def memory_load_latest_def memory_hist_def memory_ids_def last_map
        split: option.splits)
  show "bs_load memory_ops (bl_id b) st = Inr (Some b)" if "b \<in> set (memory_hist st t)" for b
    using that memory_stored [OF inv] by (fastforce simp: memory_ops_def memory_load_def memory_hist_def)
qed (auto simp: memory_ops_def dest: memory_save_inv memory_prune_inv)

section \<open>File names\<close>

lemma underscore_no_digit: "CHR ''_'' \<notin> set (show_nat n)"
  using show_nat_digits [of "CHR ''_''" n] by (auto simp: char_digit_def)

lemma parse_entry_final [simp]:
  "seq < 2 ^ 64 \<Longrightarrow> \<not> ends_with (final_name seq i) ''.tmp'' \<Longrightarrow>
     parse_entry (final_name seq i) = Some (seq, final_name seq i, i)"
  using underscore_no_digit [of seq] by (simp add: parse_entry_def final_name_def)

lemma parse_entry_tmp [simp]: "parse_entry (tmp_name seq i) = None"
  by (simp add: parse_entry_def tmp_name_def suffix_def)

lemma parse_entry_name: "parse_entry n = Some (seq, name, i) \<Longrightarrow> name = n"
  by (auto simp: parse_entry_def split: if_splits option.splits)

lemma map_filter_mem: "y \<in> set (List.map_filter f xs) \<longleftrightarrow> (\<exists>x \<in> set xs. f x = Some y)"
  by (induction xs) (auto simp: List.map_filter_simps split: option.splits)

lemma scan_mem:
  "(seq, name, i) \<in> set (scan_trace_dir d) \<longleftrightarrow> hm_contains d name \<and> parse_entry name = Some (seq, name, i)"
  unfolding scan_trace_dir_def map_filter_mem by (metis parse_entry_name)

lemma scan_Nil [simp]: "scan_trace_dir [] = []"
  by (simp add: scan_trace_dir_def List.map_filter_simps)

definition files_of :: "'f file_store \<Rightarrow> trace_id \<Rightarrow> 'f directory" where
  "files_of fs t = (case trace_dir fs t of None \<Rightarrow> [] | Some d \<Rightarrow> d)"

lemma file_load_latest_files:
  "file_load_latest c t fs =
     (case max_by_seq (scan_trace_dir (files_of fs t)) of
        None \<Rightarrow> Inr None
      | Some (_, name, _) \<Rightarrow>
          (case read_file c (files_of fs t) name of Inl e \<Rightarrow> Inl e | Inr b \<Rightarrow> Inr (Some b)))"
  by (simp add: file_load_latest_def files_of_def max_by_seq_def split: option.splits)

lemma file_list_files:
  "file_list c t fs = parse_ids c (map (\<lambda>(_, _, i). i) (newest_first (scan_trace_dir (files_of fs t))))"
  by (simp add: file_list_def files_of_def newest_first_def split: option.splits)

lemma scan_insert_ignored:
  "parse_entry n = None \<Longrightarrow> scan_trace_dir (hm_insert n f d) = scan_trace_dir d"
  by (auto simp: scan_trace_dir_def update_keys List.map_filter_def)

lemma scan_remove:
  "scan_trace_dir (hm_remove n d) = filter (\<lambda>(_, name, _). name \<noteq> n) (scan_trace_dir d)"
proof -
  have "List.map_filter parse_entry (filter (\<lambda>k. k \<noteq> n) ks)
      = filter (\<lambda>(_, name, _). name \<noteq> n) (List.map_filter parse_entry ks)" for ks
    by (induction ks) (auto simp: List.map_filter_simps dest: parse_entry_name split: option.splits)
  then show ?thesis
    by (simp add: scan_trace_dir_def delete_keys removeAll_filter_not_eq eq_commute)
qed

lemma scan_remove_ignored: "parse_entry n = None \<Longrightarrow> scan_trace_dir (hm_remove n d) = scan_trace_dir d"
  unfolding scan_remove by (rule filter_True) (auto simp: scan_mem)

lemma scan_insert_new:
  "\<not> hm_contains d n \<Longrightarrow> parse_entry n = Some e \<Longrightarrow> scan_trace_dir (hm_insert n f d) = scan_trace_dir d @ [e]"
  by (cases e) (simp add: scan_trace_dir_def update_keys List.map_filter_def)

lemma trace_dir_put [simp]: "trace_dir (put_dir t d fs) t' = (if t' = t then Some d else trace_dir fs t')"
  by (auto simp: trace_dir_def put_dir_def split: option.splits)

lemma files_of_put [simp]: "files_of (put_dir t d fs) t' = (if t' = t then d else files_of fs t')"
  by (simp add: files_of_def)

lemma max_by_seq_mem: "max_by_seq es = Some e \<Longrightarrow> e \<in> set es"
  unfolding max_by_seq_def
  by (induction es arbitrary: e rule: rev_induct) (auto split: option.splits if_splits)

text \<open>
  A save that is interrupted, at whatever point and whatever it left in the temporary
  file, reports an error and is invisible: the latest checkpoint and the list of
  checkpoints of every trace are what they were.
\<close>

theorem interrupted_save_is_invisible:
  "\<not> is_ok (fst (file_save c (Some fault) t b fs))
   \<and> file_load_latest c t' (snd (file_save c (Some fault) t b fs)) = file_load_latest c t' fs
   \<and> file_list c t' (snd (file_save c (Some fault) t b fs)) = file_list c t' fs"
proof -
  define d where "d = files_of fs t"
  have same_dir: "file_load_latest c t' (put_dir t d' fs) = file_load_latest c t' fs
      \<and> file_list c t' (put_dir t d' fs) = file_list c t' fs"
    if scan: "scan_trace_dir d' = scan_trace_dir d"
      and files: "\<And>n. parse_entry n \<noteq> None \<Longrightarrow> hm_get d' n = hm_get d n" for d'
  proof -
    have "read_file c d' n = read_file c d n" if "max_by_seq (scan_trace_dir d) = Some (seq, n, i)" for seq n i
    proof -
      from that have "(seq, n, i) \<in> set (scan_trace_dir d)" by (rule max_by_seq_mem)
      then show ?thesis by (simp add: read_file_def files scan_mem)
    qed
    then show ?thesis
      by (auto simp: file_load_latest_files file_list_files scan simp flip: d_def split: option.splits)
  qed
  have tmp: "file_load_latest c t' (put_dir t (hm_insert (tmp_name seq i) f d) fs) = file_load_latest c t' fs
      \<and> file_list c t' (put_dir t (hm_insert (tmp_name seq i) f d) fs) = file_list c t' fs" for seq i f
    by (rule same_dir) (auto simp: scan_insert_ignored)
  have plain: "file_load_latest c t' (put_dir t d fs) = file_load_latest c t' fs
      \<and> file_list c t' (put_dir t d fs) = file_list c t' fs"
    by (rule same_dir) auto
  show ?thesis
    using tmp plain
    by (cases fault) (auto simp: file_save_def Let_def files_of_def [symmetric] d_def [symmetric]
        split: option.splits sum.splits)
qed

section \<open>Sorting by sequence number\<close>

lemma newest_first_rev:
  assumes "distinct (map fst es)"
  shows "newest_first es = rev (sort_key fst es)"
  unfolding newest_first_def
proof (rule properties_for_sort_key)
  show "mset (rev (sort_key fst es)) = mset es" by simp
  show "sorted (map (\<lambda>e. - int (fst e)) (rev (sort_key fst es)))"
  proof -
    have "sorted (map fst (sort_key fst es))" by simp
    then have "sorted_wrt (\<lambda>x y. fst y \<le> fst x) (rev (sort_key fst es))"
      by (simp add: sorted_wrt_rev sorted_map)
    then show ?thesis by (simp add: sorted_map)
  qed
  fix k assume "k \<in> set (rev (sort_key fst es))"
  then have k: "k \<in> set es" by simp
  have one: "filter (\<lambda>x. - int (fst k) = - int (fst x)) xs = [k]"
    if "distinct (map fst xs)" "k \<in> set xs" for xs
    using that by (induction xs) (auto simp: filter_empty_conv rev_image_eqI)
  show "filter (\<lambda>x. - int (fst k) = - int (fst x)) (rev (sort_key fst es))
      = filter (\<lambda>x. - int (fst k) = - int (fst x)) es"
  proof -
    have "distinct (map fst (rev (sort_key fst es)))"
      using assms by (simp add: distinct_map rev_map)
    with one k assms show ?thesis by simp
  qed
qed

lemma max_by_seq_last:
  assumes "es \<noteq> []"
  shows "\<exists>e \<in> set es. max_by_seq es = Some e \<and> (\<forall>x \<in> set es. fst x \<le> fst e)"
  using assms
proof (induction es rule: rev_induct)
  case (snoc x es)
  show ?case
  proof (cases "es = []")
    case False
    with snoc.IH obtain e where e: "e \<in> set es" "max_by_seq es = Some e" "\<forall>x \<in> set es. fst x \<le> fst e" by blast
    then have "max_by_seq (es @ [x]) = (if fst e \<le> fst x then Some x else Some e)"
      by (simp add: max_by_seq_def)
    with e show ?thesis by auto
  qed (simp add: max_by_seq_def)
qed simp

lemma sorted_le_last: "sorted ys \<Longrightarrow> y \<in> set ys \<Longrightarrow> y \<le> last (ys :: 'a :: linorder list)"
  by (induction ys) auto

lemma max_by_seq_sort:
  assumes "distinct (map fst es)"
  shows "max_by_seq es = (if es = [] then None else Some (last (sort_key fst es)))"
proof (cases "es = []")
  case False
  then obtain e where e: "e \<in> set es" "max_by_seq es = Some e" "\<forall>x \<in> set es. fst x \<le> fst e"
    using max_by_seq_last by blast
  let ?s = "sort_key fst es"
  have ne: "?s \<noteq> []" using False by (metis set_empty set_sort)
  have "last ?s \<in> set es" using last_in_set [OF ne] by simp
  moreover have "fst e \<le> fst (last ?s)"
  proof -
    have "fst e \<in> set (map fst ?s)" using e(1) by simp
    then have "fst e \<le> last (map fst ?s)" by (intro sorted_le_last) simp_all
    then show ?thesis using ne by (simp add: last_map)
  qed
  ultimately have "fst (last ?s) = fst e" using e(3) by (simp add: order_antisym)
  then have "last ?s = e"
    using assms \<open>last ?s \<in> set es\<close> e(1) by (simp add: distinct_map inj_on_def)
  with e(2) False show ?thesis by simp
qed (simp add: max_by_seq_def)

lemma sort_key_snoc:
  assumes "\<And>y. y \<in> set xs \<Longrightarrow> f y < f x"
  shows "sort_key f (xs @ [x]) = sort_key f xs @ [x]"
proof (rule properties_for_sort_key)
  fix k assume "k \<in> set (sort_key f xs @ [x])"
  show "filter (\<lambda>y. f k = f y) (sort_key f xs @ [x]) = filter (\<lambda>y. f k = f y) (xs @ [x])"
    using sort_key_stable [of f "f k" xs] by (simp add: eq_commute)
qed (use assms in \<open>auto simp: sorted_append intro: less_imp_le\<close>)

section \<open>The file store keeps the contract\<close>

definition dir_inv :: "'f file_codec \<Rightarrow> 'f directory \<Rightarrow> bool" where
  "dir_inv c d \<longleftrightarrow> hm_ok d \<and> distinct (map fst (scan_trace_dir d))
     \<and> distinct (map (\<lambda>(_, _, i). i) (scan_trace_dir d))
     \<and> (\<forall>(seq, name, i) \<in> set (scan_trace_dir d).
          \<exists>b. read_file c d name = Inr b \<and> bl_id b = i \<and> fc_parse_id c i = Inr i)"

definition dir_ids :: "'f directory \<Rightarrow> checkpoint_id set" where
  "dir_ids d = (\<lambda>(_, _, i). i) ` set (scan_trace_dir d)"

definition file_inv :: "'f file_codec \<Rightarrow> 'f file_store \<Rightarrow> bool" where
  "file_inv c fs \<longleftrightarrow> (\<forall>t. dir_inv c (files_of fs t))
     \<and> (\<forall>t t'. t \<noteq> t' \<longrightarrow> dir_ids (files_of fs t) \<inter> dir_ids (files_of fs t') = {})
     \<and> (case fs of None \<Rightarrow> True | Some dirs \<Rightarrow> hm_ok dirs)"

definition dir_blobs :: "'f file_codec \<Rightarrow> 'f directory \<Rightarrow> blob list" where
  "dir_blobs c d = map (\<lambda>(_, name, _). projr (read_file c d name)) (sort_key fst (scan_trace_dir d))"

definition file_hist :: "'f file_codec \<Rightarrow> 'f file_store \<Rightarrow> trace_id \<Rightarrow> blob list" where
  "file_hist c fs t = dir_blobs c (files_of fs t)"

definition file_valid :: "'f file_codec \<Rightarrow> blob \<Rightarrow> bool" where
  "file_valid c b \<longleftrightarrow> bl_created b < 2 ^ 64 \<and> \<not> ends_with (bl_id b) ''.tmp'' \<and> fc_parse_id c (bl_id b) = Inr (bl_id b)"

locale file_codec_laws =
  fixes c :: "'f file_codec"
  assumes read_write: "fc_write c e = Inr f \<Longrightarrow> fc_read c f = Inr e"
    and decode_encode: "fc_decode c (fc_encode c s) = Inr s"
begin

lemma read_blob_written:
  "file_valid c b \<Longrightarrow> fc_write c (blob_envelope c b) = Inr f \<Longrightarrow> read_blob c f = Inr b"
  by (drule read_write) (simp add: read_blob_def blob_envelope_def decode_encode file_valid_def)

end

lemma final_name_not_tmp: "\<not> ends_with i ''.tmp'' \<Longrightarrow> \<not> ends_with (final_name seq i) ''.tmp''"
proof
  assume i: "\<not> ends_with i ''.tmp''" and "ends_with (final_name seq i) ''.tmp''"
  then have "suffix ''.tmp'' ((show_nat seq @ ''_'') @ i)" by (simp add: final_name_def)
  with i obtain xs where xs: "''.tmp'' = xs @ i" "suffix xs (show_nat seq @ ''_'')"
    unfolding suffix_append by blast
  show False
  proof (cases xs rule: rev_cases)
    case Nil
    with xs i show False by simp
  next
    case (snoc ys y)
    with xs(2) have "y = CHR ''_''" by (simp add: suffix_snoc)
    with snoc have "CHR ''_'' \<in> set xs" by simp
    then have "CHR ''_'' \<in> set ''.tmp''" unfolding xs(1) by simp
    then show False by simp
  qed
qed

lemma dir_inv_Nil [simp]: "dir_inv c []"
  by (simp add: dir_inv_def)

lemma dir_inv_ids:
  assumes "dir_inv c d"
  shows "map bl_id (dir_blobs c d) = map (\<lambda>(_, _, i). i) (sort_key fst (scan_trace_dir d))"
  unfolding dir_blobs_def map_map
  by (rule map_cong) (use assms in \<open>auto simp: dir_inv_def\<close>)

lemma dir_blobs_ids: "dir_inv c d \<Longrightarrow> bl_id ` set (dir_blobs c d) = dir_ids d"
  using arg_cong [OF dir_inv_ids, of c d set] by (simp add: dir_ids_def)

lemma parse_ids_ok: "(\<And>i. i \<in> set is \<Longrightarrow> fc_parse_id c i = Inr i) \<Longrightarrow> parse_ids c is = Inr is"
  by (induction "is") auto

lemma dir_list:
  assumes "dir_inv c d"
  shows "parse_ids c (map (\<lambda>(_, _, i). i) (newest_first (scan_trace_dir d))) = Inr (rev (map bl_id (dir_blobs c d)))"
proof -
  have "newest_first (scan_trace_dir d) = rev (sort_key fst (scan_trace_dir d))"
    using assms by (intro newest_first_rev) (simp add: dir_inv_def)
  moreover have "fc_parse_id c i = Inr i" if "i \<in> dir_ids d" for i
    using that assms by (auto simp: dir_ids_def dir_inv_def)
  ultimately show ?thesis
    by (simp add: dir_inv_ids [OF assms] rev_map) (rule parse_ids_ok, simp add: dir_ids_def)
qed

lemma dir_latest:
  assumes "dir_inv c d"
  shows "(case max_by_seq (scan_trace_dir d) of None \<Rightarrow> Inr None
     | Some (_, name, _) \<Rightarrow> (case read_file c d name of Inl e \<Rightarrow> Inl e | Inr b \<Rightarrow> Inr (Some b)))
     = Inr (if dir_blobs c d = [] then None else Some (last (dir_blobs c d)))"
proof (cases "scan_trace_dir d = []")
  case True
  then show ?thesis by (simp add: max_by_seq_def dir_blobs_def)
next
  case False
  let ?s = "sort_key fst (scan_trace_dir d)"
  have ne: "?s \<noteq> []" using False by (metis set_empty set_sort)
  obtain seq name i where l: "last ?s = (seq, name, i)" by (metis prod_cases3)
  have "(seq, name, i) \<in> set (scan_trace_dir d)" using last_in_set [OF ne] l by simp
  then obtain b where b: "read_file c d name = Inr b" using assms by (auto simp: dir_inv_def)
  have "max_by_seq (scan_trace_dir d) = Some (seq, name, i)"
    using assms False l by (simp add: max_by_seq_sort dir_inv_def)
  moreover have "last (dir_blobs c d) = b" using ne l b by (simp add: dir_blobs_def last_map)
  moreover have "dir_blobs c d \<noteq> []" using ne by (simp add: dir_blobs_def)
  ultimately show ?thesis using b by simp
qed

text \<open>Saving appends the next sequence number.\<close>

definition saved_dir :: "nat \<Rightarrow> checkpoint_id \<Rightarrow> 'f \<Rightarrow> 'f directory \<Rightarrow> 'f directory" where
  "saved_dir seq i json d =
     hm_insert (final_name seq i) json (hm_remove (tmp_name seq i) (hm_insert (tmp_name seq i) json d))"

lemma next_seq_bound:
  assumes "next_seq d = Some seq"
  shows "seq < 2 ^ 64" and "(s, name, i) \<in> set (scan_trace_dir d) \<Longrightarrow> s < seq"
proof -
  show "seq < 2 ^ 64"
    using assms by (auto simp: next_seq_def Let_def split: list.splits if_splits)
  assume mem: "(s, name, i) \<in> set (scan_trace_dir d)"
  then have "s \<in> fst ` set (scan_trace_dir d)" by force
  then have "s \<le> Max (fst ` set (scan_trace_dir d))" by simp
  moreover have "seq = Suc (Max (fst ` set (scan_trace_dir d)))"
    using assms mem by (auto simp: next_seq_def Let_def split: list.splits if_splits)
  ultimately show "s < seq" by simp
qed

lemma saved_dir_scan:
  assumes "next_seq d = Some seq" and "\<not> ends_with i ''.tmp''"
  shows "scan_trace_dir (saved_dir seq i json d) = scan_trace_dir d @ [(seq, final_name seq i, i)]"
proof -
  have entry: "parse_entry (final_name seq i) = Some (seq, final_name seq i, i)"
    by (rule parse_entry_final [OF next_seq_bound(1) [OF assms(1)] final_name_not_tmp [OF assms(2)]])
  have "\<not> hm_contains d (final_name seq i)"
    using entry scan_mem [of seq "final_name seq i" i d] next_seq_bound(2) [OF assms(1)] by blast
  moreover have "final_name seq i \<noteq> tmp_name seq i" using entry by (metis option.distinct(1) parse_entry_tmp)
  ultimately have "\<not> hm_contains (hm_remove (tmp_name seq i) (hm_insert (tmp_name seq i) json d)) (final_name seq i)"
    by (simp add: hm_contains_iff)
  from scan_insert_new [OF this entry] show ?thesis
    by (simp add: saved_dir_def scan_remove_ignored scan_insert_ignored)
qed

lemma saved_dir_read:
  assumes "parse_entry name \<noteq> None"
  shows "read_file c (saved_dir seq i json d) name
    = (if name = final_name seq i then read_blob c json else read_file c d name)"
  using assms by (auto simp: read_file_def saved_dir_def)

lemma dir_blobs_cong:
  assumes "scan_trace_dir d' = scan_trace_dir d"
    and "\<And>seq name i. (seq, name, i) \<in> set (scan_trace_dir d) \<Longrightarrow> read_file c d' name = read_file c d name"
  shows "dir_blobs c d' = dir_blobs c d"
  using assms by (auto simp: dir_blobs_def intro!: map_cong)

context file_codec_laws
begin

lemma saved_dir_inv:
  assumes inv: "dir_inv c d" and seq: "next_seq d = Some seq" and valid: "file_valid c b"
    and json: "fc_write c (blob_envelope c b) = Inr json" and fresh: "bl_id b \<notin> dir_ids d"
  shows "dir_inv c (saved_dir seq (bl_id b) json d)"
    and "dir_blobs c (saved_dir seq (bl_id b) json d) = dir_blobs c d @ [b]"
    and "dir_ids (saved_dir seq (bl_id b) json d) = insert (bl_id b) (dir_ids d)"
proof -
  let ?d = "saved_dir seq (bl_id b) json d" and ?f = "final_name seq (bl_id b)"
  have scan: "scan_trace_dir ?d = scan_trace_dir d @ [(seq, ?f, bl_id b)]"
    using valid by (intro saved_dir_scan [OF seq]) (simp add: file_valid_def)
  have old: "name \<noteq> ?f" if "(s, name, i) \<in> set (scan_trace_dir d)" for s name i
  proof
    assume "name = ?f"
    with that have "s = seq"
      using parse_entry_final [OF next_seq_bound(1) [OF seq] final_name_not_tmp, of "bl_id b"] valid
      by (simp add: scan_mem file_valid_def)
    with next_seq_bound(2) [OF seq that] show False by simp
  qed
  have read: "read_file c ?d name = (if name = ?f then Inr b else read_file c d name)"
    if "(s, name, i) \<in> set (scan_trace_dir ?d)" for s name i
    using that read_blob_written [OF valid json] by (simp add: scan_mem saved_dir_read)
  show "dir_ids ?d = insert (bl_id b) (dir_ids d)" by (simp add: dir_ids_def scan)
  have "seq \<notin> fst ` set (scan_trace_dir d)"
    using next_seq_bound(2) [OF seq] by fastforce
  moreover have "bl_id b \<notin> (\<lambda>(_, _, i). i) ` set (scan_trace_dir d)"
    using fresh by (simp add: dir_ids_def)
  moreover have "\<forall>(s, name, i) \<in> set (scan_trace_dir ?d).
      \<exists>b'. read_file c ?d name = Inr b' \<and> bl_id b' = i \<and> fc_parse_id c i = Inr i"
    using inv valid read old by (fastforce simp: scan dir_inv_def file_valid_def)
  moreover have "hm_ok ?d" using inv by (auto simp: dir_inv_def saved_dir_def)
  ultimately show "dir_inv c ?d" using inv by (simp add: dir_inv_def scan)
  have "sort_key fst (scan_trace_dir ?d) = sort_key fst (scan_trace_dir d) @ [(seq, ?f, bl_id b)]"
    unfolding scan by (rule sort_key_snoc) (use next_seq_bound(2) [OF seq] in auto)
  moreover have "read_file c ?d ?f = Inr b" by (rule read [of seq _ "bl_id b", THEN trans]) (simp_all add: scan)
  moreover have "map (\<lambda>(_, name, _). projr (read_file c ?d name)) (sort_key fst (scan_trace_dir d))
      = map (\<lambda>(_, name, _). projr (read_file c d name)) (sort_key fst (scan_trace_dir d))"
    by (rule map_cong) (use read old in \<open>auto simp: scan\<close>)
  ultimately show "dir_blobs c ?d = dir_blobs c d @ [b]" by (simp add: dir_blobs_def)
qed

end

text \<open>Pruning keeps the entries with the largest sequence numbers.\<close>

lemma foldl_remove_scan:
  "scan_trace_dir (foldl (\<lambda>d (_, name, _). hm_remove name d) d es)
     = filter (\<lambda>(_, name, _). name \<notin> (\<lambda>(_, n, _). n) ` set es) (scan_trace_dir d)"
  by (induction es arbitrary: d) (auto simp: scan_remove intro: filter_cong)

lemma foldl_remove_read:
  "name \<notin> (\<lambda>(_, n, _). n) ` set es \<Longrightarrow>
     read_file c (foldl (\<lambda>d (_, name, _). hm_remove name d) d es) name = read_file c d name"
  by (induction es arbitrary: d) (auto simp: read_file_def split: prod.splits)

lemma foldl_remove_ok: "hm_ok d \<Longrightarrow> hm_ok (foldl (\<lambda>d (_, name, _). hm_remove name d) d es)"
  by (induction es arbitrary: d) auto

lemma filter_not_taken:
  "distinct xs \<Longrightarrow> filter (\<lambda>x. x \<notin> set (take n xs)) xs = drop n xs"
proof -
  assume d: "distinct xs"
  then have "set (take n xs) \<inter> set (drop n xs) = {}"
    by (metis append_take_drop_id distinct_append)
  then have "filter (\<lambda>x. x \<notin> set (take n xs)) (take n xs @ drop n xs) = drop n xs"
    unfolding filter_append by (auto simp: filter_empty_conv filter_id_conv)
  then show ?thesis by simp
qed

definition pruned_dir :: "nat \<Rightarrow> 'f directory \<Rightarrow> 'f directory" where
  "pruned_dir keep d =
     foldl (\<lambda>d (_, name, _). hm_remove name d) d (drop keep (newest_first (scan_trace_dir d)))"

lemma pruned_dir_inv:
  fixes d :: "'f directory"
  assumes inv: "dir_inv c d"
  shows "dir_inv c (pruned_dir keep d)" (is "dir_inv c ?d")
    and "dir_blobs c (pruned_dir keep d) = drop (length (scan_trace_dir d) - keep) (dir_blobs c d)"
    and "dir_ids (pruned_dir keep d) \<subseteq> dir_ids d"
proof -
  let ?es = "scan_trace_dir d"
  let ?s = "sort_key fst ?es"
  let ?n = "length ?es - keep"
  let ?doomed = "drop keep (newest_first ?es)"
  have dist: "distinct (map fst ?es)" using inv by (simp add: dir_inv_def)
  then have dist_s: "distinct ?s" by (simp add: distinct_map)
  have doomed: "set ?doomed = set (take ?n ?s)"
    by (simp add: newest_first_rev [OF dist] drop_rev)
  have sub: "set ?doomed \<subseteq> set ?es"
    using doomed set_take_subset [of ?n ?s] by simp
  have keep_iff: "(case e of (_, name, _) \<Rightarrow> name \<notin> (\<lambda>(_, n, _). n) ` set ?doomed) \<longleftrightarrow> e \<notin> set (take ?n ?s)"
    if "e \<in> set ?es" for e
  proof -
    obtain s name i where e: "e = (s, name, i)" by (metis prod_cases3)
    have "e \<in> set ?doomed" if "(s', name, i') \<in> set ?doomed" for s' i'
    proof -
      have "parse_entry name = Some (s', name, i')" using that sub by (auto simp: scan_mem)
      moreover have "parse_entry name = Some (s, name, i)" using \<open>e \<in> set ?es\<close> e by (simp add: scan_mem)
      ultimately show ?thesis using that e by simp
    qed
    then have "name \<in> (\<lambda>(_, n, _). n) ` set ?doomed \<longleftrightarrow> e \<in> set ?doomed"
      unfolding e by (auto intro: rev_image_eqI)
    then show ?thesis using e doomed by simp
  qed
  have scan: "scan_trace_dir ?d = filter (\<lambda>e. e \<notin> set (take ?n ?s)) ?es"
    unfolding pruned_dir_def foldl_remove_scan by (rule filter_cong) (use keep_iff in auto)
  have sorted: "sort_key fst (scan_trace_dir ?d) = drop ?n ?s"
    unfolding scan filter_sort [symmetric] by (rule filter_not_taken [OF dist_s])
  have read: "read_file c ?d name = read_file c d name" if "(s, name, i) \<in> set (scan_trace_dir ?d)" for s name i
    unfolding pruned_dir_def
  proof (rule foldl_remove_read)
    from that have "(s, name, i) \<in> set ?es" "(s, name, i) \<notin> set (take ?n ?s)" by (auto simp: scan)
    with keep_iff [of "(s, name, i)"] show "name \<notin> (\<lambda>(_, n, _). n) ` set ?doomed" by simp
  qed
  show "dir_ids ?d \<subseteq> dir_ids d" unfolding dir_ids_def scan by (rule image_mono) auto
  have "hm_ok ?d" using inv by (simp add: dir_inv_def pruned_dir_def foldl_remove_ok)
  moreover have "\<forall>(s, name, i) \<in> set (scan_trace_dir ?d).
      \<exists>b. read_file c ?d name = Inr b \<and> bl_id b = i \<and> fc_parse_id c i = Inr i"
    using inv read by (fastforce simp: scan dir_inv_def)
  ultimately show "dir_inv c ?d"
    using inv by (simp add: dir_inv_def scan distinct_map_filter)
  have "map (\<lambda>(_, name, _). projr (read_file c ?d name)) (drop ?n ?s)
      = map (\<lambda>(_, name, _). projr (read_file c d name)) (drop ?n ?s)"
    using read sorted [symmetric] by (intro map_cong) (auto simp: scan)
  then show "dir_blobs c ?d = drop ?n (dir_blobs c d)"
    by (simp add: dir_blobs_def sorted drop_map)
qed

text \<open>The store as a whole: what holds for its directories holds for it.\<close>

lemma file_inv_put:
  assumes inv: "file_inv c fs" and dir: "dir_inv c d"
    and ids: "\<And>i t'. i \<in> dir_ids d \<Longrightarrow> t' \<noteq> t \<Longrightarrow> i \<notin> dir_ids (files_of fs t')"
  shows "file_inv c (put_dir t d fs)"
    and "file_hist c (put_dir t d fs) = (file_hist c fs)(t := dir_blobs c d)"
proof -
  have "dir_ids (files_of (put_dir t d fs) t1) \<inter> dir_ids (files_of (put_dir t d fs) t2) = {}" if "t1 \<noteq> t2" for t1 t2
    using inv ids that by (auto simp: file_inv_def split: if_splits)
  moreover have "case put_dir t d fs of None \<Rightarrow> True | Some dirs \<Rightarrow> hm_ok dirs"
    using inv by (auto simp: file_inv_def put_dir_def split: option.splits)
  ultimately show "file_inv c (put_dir t d fs)"
    using inv dir by (simp add: file_inv_def)
  show "file_hist c (put_dir t d fs) = (file_hist c fs)(t := dir_blobs c d)"
    by (auto simp: file_hist_def fun_eq_iff)
qed

lemma file_ids: "file_inv c fs \<Longrightarrow> bl_id ` set (file_hist c fs t) = dir_ids (files_of fs t)"
  by (simp add: file_hist_def file_inv_def dir_blobs_ids)

lemma find_distinct_key:
  "(seq, name, i) \<in> set es \<Longrightarrow> distinct (map (\<lambda>(_, _, i). i) es) \<Longrightarrow>
     find (\<lambda>(_, _, eid). eid = i) es = Some (seq, name, i)"
  by (induction es) (auto simp: rev_image_eqI)

lemma find_entry_unique:
  assumes "(t, d) \<in> set dirs" and "(seq, name, i) \<in> set (scan_trace_dir d)"
    and "\<And>t' d'. (t', d') \<in> set dirs \<Longrightarrow> i \<in> dir_ids d' \<Longrightarrow> (t', d') = (t, d)"
    and "distinct (map (\<lambda>(_, _, i). i) (scan_trace_dir d))"
  shows "find_entry dirs i = Some (t, d, name)"
  using assms(1,3)
proof (induction dirs)
  case (Cons x dirs)
  obtain t1 d1 where x: "x = (t1, d1)" by fastforce
  show ?case
  proof (cases "x = (t, d)")
    case True
    have "find (\<lambda>(_, _, eid). eid = i) (scan_trace_dir d) = Some (seq, name, i)"
      using assms(2,4) by (rule find_distinct_key)
    with True show ?thesis by simp
  next
    case False
    then have "i \<notin> dir_ids d1" using Cons.prems(2) [of t1 d1] x by auto
    then have "find (\<lambda>(_, _, eid). eid = i) (scan_trace_dir d1) = None"
      by (auto simp: find_None_iff dir_ids_def rev_image_eqI)
    moreover have "find_entry dirs i = Some (t, d, name)"
      using Cons False by auto
    ultimately show ?thesis by (simp add: x)
  qed
qed simp

lemma find_entry_hist:
  assumes inv: "file_inv c fs" and b: "b \<in> set (file_hist c fs t)"
  obtains dirs name seq where "fs = Some dirs" and "hm_get dirs t = Some (files_of fs t)"
    and "find_entry dirs (bl_id b) = Some (t, files_of fs t, name)"
    and "(seq, name, bl_id b) \<in> set (scan_trace_dir (files_of fs t))"
    and "read_file c (files_of fs t) name = Inr b"
proof -
  let ?d = "files_of fs t"
  have dir: "dir_inv c ?d" using inv by (simp add: file_inv_def)
  from b obtain seq name i where e: "(seq, name, i) \<in> set (scan_trace_dir ?d)" "b = projr (read_file c ?d name)"
    by (auto simp: file_hist_def dir_blobs_def)
  then have read: "read_file c ?d name = Inr b" "bl_id b = i"
    using dir by (auto simp: dir_inv_def)
  obtain dirs where fs: "fs = Some dirs" "hm_get dirs t = Some ?d"
    using e(1) by (cases fs; cases "hm_get (the fs) t") (auto simp: files_of_def trace_dir_def)
  have "(t', d') = (t, ?d)" if "(t', d') \<in> set dirs" "i \<in> dir_ids d'" for t' d'
  proof -
    have "hm_ok dirs" using inv fs by (simp add: file_inv_def)
    with that(1) have d': "files_of fs t' = d'"
      by (simp add: files_of_def trace_dir_def fs hm_get_Some_iff [THEN iffD2])
    moreover have "i \<in> dir_ids ?d" using e(1) by (force simp: dir_ids_def)
    ultimately show ?thesis
      using inv that(2) unfolding file_inv_def by (metis disjoint_iff)
  qed
  then have "find_entry dirs i = Some (t, ?d, name)"
    using dir fs(2) e(1) by (intro find_entry_unique) (auto simp: dir_inv_def dest: map_of_SomeD)
  with fs read e(1) show ?thesis by (intro that) simp_all
qed

lemma file_load_found:
  assumes "file_inv c fs" and "b \<in> set (file_hist c fs t)"
  shows "file_load c (bl_id b) fs = Inr (Some b)"
  by (rule find_entry_hist [OF assms]) (simp add: file_load_def)

text \<open>Deleting removes the one file of the checkpoint.\<close>

lemma file_delete_inv:
  assumes inv: "file_inv c fs" and b: "b \<in> set (file_hist c fs t)"
  shows "fst (file_delete (bl_id b) fs) = Inr True"
    and "file_inv c (snd (file_delete (bl_id b) fs))"
    and "file_hist c (snd (file_delete (bl_id b) fs))
      = (file_hist c fs)(t := filter (\<lambda>x. bl_id x \<noteq> bl_id b) (file_hist c fs t))"
proof -
  obtain dirs name seq where fs: "fs = Some dirs" "hm_get dirs t = Some (files_of fs t)"
    and found: "find_entry dirs (bl_id b) = Some (t, files_of fs t, name)"
    and e: "(seq, name, bl_id b) \<in> set (scan_trace_dir (files_of fs t))"
    using find_entry_hist [OF inv b] by metis
  let ?d = "files_of fs t"
  let ?r = "hm_remove name ?d"
  have dir: "dir_inv c ?d" using inv by (simp add: file_inv_def)
  have del: "file_delete (bl_id b) fs = (Inr True, put_dir t ?r fs)"
    using found by (simp add: file_delete_def fs(1) put_dir_def)
  then show "fst (file_delete (bl_id b) fs) = Inr True" by simp
  have same: "n = name \<longleftrightarrow> i = bl_id b" if "(s, n, i) \<in> set (scan_trace_dir ?d)" for s n i
  proof
    assume "n = name"
    with that e show "i = bl_id b" by (simp add: scan_mem)
  next
    assume "i = bl_id b"
    moreover have "distinct (map (\<lambda>(_, _, i). i) (scan_trace_dir ?d))" using dir by (simp add: dir_inv_def)
    ultimately have "(s, n, i) = (seq, name, bl_id b)"
      using that e by (metis (mono_tags) find_distinct_key option.inject)
    then show "n = name" by simp
  qed
  have scan: "scan_trace_dir ?r = filter (\<lambda>(_, n, _). n \<noteq> name) (scan_trace_dir ?d)" by (rule scan_remove)
  have read: "n \<noteq> name \<Longrightarrow> read_file c ?r n = read_file c ?d n" for n by (simp add: read_file_def)
  have ok: "\<forall>(s, n, i) \<in> set (scan_trace_dir ?r).
      \<exists>b'. read_file c ?r n = Inr b' \<and> bl_id b' = i \<and> fc_parse_id c i = Inr i"
    using dir read by (fastforce simp: scan dir_inv_def)
  have "hm_ok ?r" using dir by (auto simp: dir_inv_def)
  with ok dir have inv': "dir_inv c ?r"
    by (simp add: dir_inv_def scan distinct_map_filter)
  have ids: "dir_ids ?r \<subseteq> dir_ids ?d" unfolding dir_ids_def scan by (rule image_mono) auto
  have "i \<notin> dir_ids (files_of fs t')" if "i \<in> dir_ids ?r" "t' \<noteq> t" for i t'
    using that inv ids unfolding file_inv_def by (metis disjoint_iff subsetD)
  note put = file_inv_put [OF inv inv' this]
  from put(1) show "file_inv c (snd (file_delete (bl_id b) fs))" by (simp add: del)
  have "dir_blobs c ?r = map (\<lambda>(_, n, _). projr (read_file c ?r n))
      (filter (\<lambda>(_, n, _). n \<noteq> name) (sort_key fst (scan_trace_dir ?d)))"
    by (simp add: dir_blobs_def scan filter_sort)
  also have "\<dots> = filter (\<lambda>x. bl_id x \<noteq> bl_id b) (dir_blobs c ?d)"
    unfolding dir_blobs_def filter_map o_def
    by (rule map_cong [OF filter_cong]) (use same read dir in \<open>fastforce simp: dir_inv_def\<close>)+
  finally show "file_hist c (snd (file_delete (bl_id b) fs))
      = (file_hist c fs)(t := filter (\<lambda>x. bl_id x \<noteq> bl_id b) (file_hist c fs t))"
    using put(2) by (simp add: del file_hist_def)
qed

context file_codec_laws
begin

lemma file_save_inv:
  assumes inv: "file_inv c fs" and valid: "file_valid c b"
    and fresh: "\<And>t'. bl_id b \<notin> bl_id ` set (file_hist c fs t')"
    and save: "file_save c None t b fs = (Inr (), fs')"
  shows "file_inv c fs' \<and> file_hist c fs' = (file_hist c fs)(t := file_hist c fs t @ [b])"
proof -
  from save obtain seq json where seq: "next_seq (files_of fs t) = Some seq"
    and json: "fc_write c (blob_envelope c b) = Inr json"
    and fs': "fs' = put_dir t (saved_dir seq (bl_id b) json (files_of fs t)) fs"
    by (auto simp: file_save_def Let_def files_of_def [symmetric] saved_dir_def split: option.splits sum.splits)
  have new: "bl_id b \<notin> dir_ids (files_of fs t')" for t'
    using fresh [of t'] file_ids [OF inv, of t'] by simp
  have dir: "dir_inv c (files_of fs t)" using inv by (simp add: file_inv_def)
  note saved = saved_dir_inv [OF dir seq valid json new]
  have "i \<notin> dir_ids (files_of fs t')"
    if "i \<in> dir_ids (saved_dir seq (bl_id b) json (files_of fs t))" "t' \<noteq> t" for i t'
    using that inv new unfolding saved(3) file_inv_def by (metis disjoint_iff insertE)
  from file_inv_put [OF inv saved(1) this] show ?thesis
    by (simp add: fs' saved(2) file_hist_def)
qed

end

lemma file_prune_inv:
  assumes inv: "file_inv c fs" and prune: "file_prune t keep fs = (r, fs')"
  shows "r = Inr (length (file_hist c fs t) - keep) \<and> file_inv c fs'
     \<and> file_hist c fs' = (file_hist c fs)(t := drop (length (file_hist c fs t) - keep) (file_hist c fs t))"
proof (cases "trace_dir fs t")
  case None
  with prune inv show ?thesis
    by (auto simp: file_prune_def file_hist_def files_of_def dir_blobs_def fun_eq_iff)
next
  case (Some d)
  then have d: "files_of fs t = d" by (simp add: files_of_def)
  then have dir: "dir_inv c d" using inv by (auto simp: file_inv_def)
  have len: "length (file_hist c fs t) = length (scan_trace_dir d)"
    by (simp add: file_hist_def dir_blobs_def d)
  show ?thesis
  proof (cases "length (scan_trace_dir d) \<le> keep")
    case True
    with prune Some inv len show ?thesis by (auto simp: file_prune_def Let_def)
  next
    case False
    with prune Some have r: "r = Inr (length (scan_trace_dir d) - keep)"
      and fs': "fs' = put_dir t (pruned_dir keep d) fs"
      by (auto simp: file_prune_def Let_def pruned_dir_def newest_first_def)
    note pruned = pruned_dir_inv [OF dir, of keep]
    have "i \<notin> dir_ids (files_of fs t')" if "i \<in> dir_ids (pruned_dir keep d)" "t' \<noteq> t" for i t'
      using that inv pruned(3) d unfolding file_inv_def by (metis disjoint_iff subsetD)
    from file_inv_put [OF inv pruned(1) this] show ?thesis
      using r len by (simp add: fs' pruned(2) file_hist_def d)
  qed
qed

sublocale file_codec_laws \<subseteq> files: blob_store "file_ops c" "file_inv c" "file_valid c" "file_hist c"
proof
  fix fs t
  assume inv: "file_inv c fs"
  then have dir: "dir_inv c (files_of fs t)" for t by (simp add: file_inv_def)
  show "bs_list (file_ops c) t fs = Inr (rev (map bl_id (file_hist c fs t)))"
    by (simp add: file_ops_def file_list_files file_hist_def dir_list [OF dir])
  show "bs_load_latest (file_ops c) t fs
      = Inr (if file_hist c fs t = [] then None else Some (last (file_hist c fs t)))"
    unfolding file_hist_def by (simp add: file_ops_def file_load_latest_files dir_latest [OF dir])
  show "bs_load (file_ops c) (bl_id b) fs = Inr (Some b)" if "b \<in> set (file_hist c fs t)" for b
    using file_load_found [OF inv that] by (simp add: file_ops_def)
  show "file_inv c fs' \<and> file_hist c fs' = (file_hist c fs)(t := file_hist c fs t @ [b])"
    if valid: "file_valid c b" and fresh: "\<And>t'. bl_id b \<notin> bl_id ` set (file_hist c fs t')"
      and save: "bs_save (file_ops c) t b fs = (Inr (), fs')" for b fs'
    using file_save_inv [OF inv valid fresh] save by (simp add: file_ops_def)
  show "r = Inr (length (file_hist c fs t) - keep) \<and> file_inv c fs'
      \<and> file_hist c fs' = (file_hist c fs)(t := drop (length (file_hist c fs t) - keep) (file_hist c fs t))"
    if "bs_prune (file_ops c) t keep fs = (r, fs')" for keep r fs'
    using file_prune_inv [OF inv] that by (simp add: file_ops_def)
qed

context file_codec_laws
begin

lemma file_store: "blob_store (file_ops c) (file_inv c) (file_valid c) (file_hist c)"
  by unfold_locales

end

section \<open>Properties of the stores\<close>

text \<open>
  A concrete codec: files hold the envelope itself and identifiers are their own texts. It
  shows that the laws of a codec can hold; the properties below assume the laws only.
\<close>

definition plain_codec :: "envelope file_codec" where
  "plain_codec =
     \<lparr>fc_write = Inr, fc_read = Inr, fc_encode = (\<lambda>s. s), fc_decode = Inr, fc_parse_id = Inr\<rparr>"

interpretation plain: file_codec_laws plain_codec
  by unfold_locales (simp_all add: plain_codec_def)

text \<open>
  After a successful save of a fresh checkpoint the file store returns it, byte for
  byte, as the latest of its trace and by its identifier; the latest of every other trace
  is unchanged and the directory invariant holds again.
\<close>

theorem file_save_then_load:
  assumes "\<And>e f. fc_write c e = Inr f \<Longrightarrow> fc_read c f = Inr e"
    and "\<And>s. fc_decode c (fc_encode c s) = Inr s"
    and "file_inv c fs" and "file_valid c b" and "\<And>t'. bl_id b \<notin> bl_id ` set (file_hist c fs t')"
    and "file_save c None t b fs = (Inr (), fs')"
  shows "file_load_latest c t fs' = Inr (Some b) \<and> file_load c (bl_id b) fs' = Inr (Some b)
    \<and> (t' = t \<or> file_load_latest c t' fs' = file_load_latest c t' fs) \<and> file_inv c fs'"
proof -
  have laws: "file_codec_laws c" using assms(1,2) by unfold_locales
  have save: "bs_save (file_ops c) t b fs = (Inr (), fs')" using assms(6) by (simp add: file_ops_def)
  note store = file_codec_laws.file_store [OF laws]
  note latest = blob_store.latest_after_save [OF store assms(3,4,5) save]
  show ?thesis
    using latest(1,2) latest(3) [of t'] blob_store.save_hist [OF store assms(3,4,5) save]
    by (auto simp: file_ops_def)
qed

definition example_blob :: "checkpoint_id \<Rightarrow> blob" where
  "example_blob i = \<lparr>bl_id = i, bl_data = ''{}'', bl_hash = 7, bl_created = 5\<rparr>"

lemma example_blob_id [simp]: "bl_id (example_blob i) = i"
  by (simp add: example_blob_def)

lemma file_save_then_load_witness:
  "\<exists>fs'. file_save plain_codec None ''t'' (example_blob ''b'') (Some [(''u'', [])]) = (Inr (), fs')
     \<and> file_load_latest plain_codec ''t'' fs' = Inr (Some (example_blob ''b''))"
proof -
  obtain r fs' where save: "file_save plain_codec None ''t'' (example_blob ''b'') (Some [(''u'', [])]) = (r, fs')"
    by fastforce
  then have "r = Inr ()"
    by (auto simp: file_save_def trace_dir_def next_seq_def plain_codec_def Let_def)
  moreover have empty: "files_of (Some [(''u'', [])] :: envelope file_store) t = []" for t
    by (simp add: files_of_def trace_dir_def)
  then have "file_inv plain_codec (Some [(''u'', [])])"
    by (simp add: file_inv_def dir_ids_def)
  moreover have "file_valid plain_codec (example_blob ''b'')"
    by (simp add: file_valid_def example_blob_def plain_codec_def suffix_def)
  moreover have "bl_id (example_blob ''b'') \<notin> bl_id ` set (file_hist plain_codec (Some [(''u'', [])]) t')" for t'
    by (simp add: file_hist_def dir_blobs_def empty)
  ultimately show ?thesis
    using file_save_then_load [of plain_codec "Some [(''u'', [])]" "example_blob ''b''" "''t''" fs'] save
    by (auto simp: plain_codec_def)
qed

lemma file_save_empty:
  "file_save plain_codec None t b fs = (Inr (), snd (file_save plain_codec None t b fs))"
  if "next_seq (files_of fs t) \<noteq> None"
  using that by (auto simp: file_save_def files_of_def [symmetric] plain_codec_def Let_def split: option.splits)

lemma empty_store [simp]:
  "files_of None t = []" "file_hist c None t = []"
  by (simp_all add: files_of_def trace_dir_def file_hist_def dir_blobs_def)

lemma two_saves:
  obtains fs where "file_inv plain_codec fs"
    and "file_hist plain_codec fs ''t'' = [example_blob ''a'', example_blob ''b'']"
proof -
  have valid: "file_valid plain_codec (example_blob ''a'')" "file_valid plain_codec (example_blob ''b'')"
    by (simp_all add: file_valid_def example_blob_def plain_codec_def suffix_def)
  have inv: "file_inv plain_codec None" by (simp add: file_inv_def dir_ids_def)
  have fresh: "bl_id (example_blob ''a'') \<notin> bl_id ` set (file_hist plain_codec None t')" for t'
    by simp
  let ?fs = "snd (file_save plain_codec None ''t'' (example_blob ''a'') None)"
  have s1: "file_save plain_codec None ''t'' (example_blob ''a'') None = (Inr (), ?fs)"
    by (rule file_save_empty) (simp add: next_seq_def)
  have h1: "file_inv plain_codec ?fs" "file_hist plain_codec ?fs = (\<lambda>_. [])(''t'' := [example_blob ''a''])"
    using plain.file_save_inv [OF inv valid(1) fresh s1] by (simp_all add: fun_eq_iff)
  have fresh2: "bl_id (example_blob ''b'') \<notin> bl_id ` set (file_hist plain_codec ?fs t')" for t'
    unfolding h1(2) by auto
  let ?fs2 = "snd (file_save plain_codec None ''t'' (example_blob ''b'') ?fs)"
  have "next_seq (files_of ?fs ''t'') \<noteq> None"
  proof -
    have "files_of ?fs ''t'' = saved_dir 1 ''a'' (blob_envelope plain_codec (example_blob ''a'')) []"
      by (simp add: file_save_def trace_dir_def next_seq_def plain_codec_def Let_def saved_dir_def)
    then have "scan_trace_dir (files_of ?fs ''t'') = [(1, final_name 1 ''a'', ''a'')]"
      using saved_dir_scan [of "[]" 1 "''a''"] by (simp add: next_seq_def suffix_def)
    then show ?thesis by (simp add: next_seq_def)
  qed
  then have s2: "file_save plain_codec None ''t'' (example_blob ''b'') ?fs = (Inr (), ?fs2)"
    by (rule file_save_empty)
  have "file_inv plain_codec ?fs2 \<and> file_hist plain_codec ?fs2 ''t'' = [example_blob ''a'', example_blob ''b'']"
    using plain.file_save_inv [OF h1(1) valid(2) fresh2 s2] by (simp add: h1(2))
  then show ?thesis using that by blast
qed

text \<open>
  The in-memory store's delete leaves the identifier in the trace's index: deleting
  the newest of two checkpoints hides the older one, which is still stored, so the trace
  looks as if it had no checkpoint. The file store returns the older one.
\<close>

theorem memory_delete_hides_older_checkpoints:
  "\<exists>st. memory_inv st \<and> memory_load_latest ''t'' st = Inr (Some (example_blob ''b''))
     \<and> memory_load ''a'' st = Inr (Some (example_blob ''a''))
     \<and> memory_load_latest ''t'' (snd (memory_delete ''b'' st)) = Inr None
     \<and> memory_load ''a'' (snd (memory_delete ''b'' st)) = Inr (Some (example_blob ''a''))
     \<and> memory_list ''t'' (snd (memory_delete ''b'' st)) = Inr [''b'', ''a'']
     \<and> (\<exists>fs. file_load_latest plain_codec ''t'' fs = Inr (Some (example_blob ''b''))
          \<and> file_load_latest plain_codec ''t'' (snd (file_delete ''b'' fs)) = Inr (Some (example_blob ''a'')))"
proof -
  let ?st = "snd (memory_save ''t'' (example_blob ''b'') (snd (memory_save ''t'' (example_blob ''a'') memory_new)))"
  obtain fs where fs: "file_inv plain_codec fs" "file_hist plain_codec fs ''t'' = [example_blob ''a'', example_blob ''b'']"
    by (rule two_saves)
  have "memory_inv ?st"
    by (auto simp: memory_inv_def memory_save_def memory_new_def memory_ids_def example_blob_def)
  moreover have "memory_load_latest ''t'' ?st = Inr (Some (example_blob ''b''))
     \<and> memory_load ''a'' ?st = Inr (Some (example_blob ''a''))
     \<and> memory_load_latest ''t'' (snd (memory_delete ''b'' ?st)) = Inr None
     \<and> memory_load ''a'' (snd (memory_delete ''b'' ?st)) = Inr (Some (example_blob ''a''))
     \<and> memory_list ''t'' (snd (memory_delete ''b'' ?st)) = Inr [''b'', ''a'']"
    by (simp add: memory_save_def memory_new_def memory_load_latest_def memory_delete_def memory_load_def
        memory_list_def memory_ids_def example_blob_def)
  moreover have "file_load_latest plain_codec ''t'' fs = Inr (Some (example_blob ''b''))"
    using plain.files.latest_hist [OF fs(1), of "''t''"] by (simp add: file_ops_def fs(2))
  moreover have "file_load_latest plain_codec ''t'' (snd (file_delete ''b'' fs)) = Inr (Some (example_blob ''a''))"
    using file_delete_inv(2,3) [OF fs(1), of "example_blob ''b''" "''t''"]
      plain.files.latest_hist [of "snd (file_delete ''b'' fs)" "''t''"]
    by (simp add: file_ops_def fs(2) example_blob_def)
  ultimately show ?thesis by blast
qed

end
