(* ===== verification/Checkpoint.thy ===== *)
theory Checkpoint
  imports Blob_Store Run_Loop "HOL-Library.List_Lexorder" "HOL-Library.Char_ord" "HOL-Library.Countable"
begin

text \<open>
  Checkpoints (\<open>checkpoint/checkpoint_data.rs\<close>), their JSON codec and the typed store
  (\<open>checkpoint/checkpoint_codec.rs\<close>), the retention policy
  (\<open>checkpoint/checkpoint_policy.rs\<close>), the configuration with its restore checks
  (\<open>exec/execution_loop.rs\<close>), the sink that saves at every boundary
  (\<open>exec/checkpoint_save_sink.rs\<close>), the mutation log (\<open>checkpoint/mutation_log.rs\<close>) and
  the trace sink (\<open>checkpoint/trace.rs\<close>).

  JSON text, the serde implementations of the state and of identifiers are the components
  of a \<open>serde_fns\<close>. Identifiers and times come from the clock of the world.
\<close>

section \<open>Checkpoints\<close>

definition checkpoint_format_version :: nat where
  "checkpoint_format_version = 1"

record 'c checkpoint =
  cp_version :: nat
  cp_id :: checkpoint_id
  cp_next :: "string option"
  cp_state :: 'c
  cp_hash :: "64 word"
  cp_steps :: nat
  cp_created :: nat

definition checkpoint_new ::
  "('s, 'm, 'c) workflow_ops \<Rightarrow> checkpoint_id \<Rightarrow> nat \<Rightarrow> string option \<Rightarrow> 's \<Rightarrow> 64 word \<Rightarrow> nat \<Rightarrow> 'c checkpoint" where
  "checkpoint_new ops i now nxt s hash steps =
     \<lparr>cp_version = checkpoint_format_version, cp_id = i, cp_next = nxt, cp_state = op_snapshot ops s,
      cp_hash = hash, cp_steps = steps, cp_created = now\<rparr>"

definition restore_state :: "('s, 'm, 'c) workflow_ops \<Rightarrow> 'c checkpoint \<Rightarrow> 's" where
  "restore_state ops cp = op_restore ops (cp_state cp)"

section \<open>The JSON codec\<close>

text \<open>
  \<open>serde_json::Value\<close> keeps the members of an object sorted: what is parsed back is the
  text's value with its objects in that order.
\<close>

fun json_norm :: "json \<Rightarrow> json" where
  "json_norm (JArray vs) = JArray (map json_norm vs)"
| "json_norm (JObject kvs) = JObject (sort_key fst (map (\<lambda>(k, v). (k, json_norm v)) kvs))"
| "json_norm v = v"

record 'c serde_fns =
  sd_text :: "json \<Rightarrow> string"
  sd_parse :: "string \<Rightarrow> string + json"
  sd_state :: "'c \<Rightarrow> string + json"
  sd_of_state :: "json \<Rightarrow> string + 'c"
  sd_id :: "checkpoint_id \<Rightarrow> json"
  sd_of_id :: "json \<Rightarrow> string + checkpoint_id"

definition time_to_value :: "nat \<Rightarrow> json" where
  "time_to_value t =
     JObject [(''secs_since_epoch'', JInt (int (t div 10 ^ 9))), (''nanos_since_epoch'', JInt (int (t mod 10 ^ 9)))]"

definition checkpoint_to_value :: "'c serde_fns \<Rightarrow> 'c checkpoint \<Rightarrow> string + json" where
  "checkpoint_to_value sd cp =
     (case sd_state sd (cp_state cp) of
        Inl e \<Rightarrow> Inl e
      | Inr state \<Rightarrow>
          Inr (JObject
            [(''format_version'', JInt (int (cp_version cp))),
             (''checkpoint_id'', sd_id sd (cp_id cp)),
             (''next_node'', case cp_next cp of None \<Rightarrow> JNull | Some n \<Rightarrow> JString n),
             (''state'', state),
             (''graph_hash'', JInt (uint (cp_hash cp))),
             (''steps_used'', JInt (int (cp_steps cp))),
             (''created_at'', time_to_value (cp_created cp))]))"

text \<open>The derived \<open>Deserialize\<close>: every field by name, any missing or ill-typed one an error.\<close>

definition need :: "json \<Rightarrow> string \<Rightarrow> (json \<Rightarrow> string + 'a) \<Rightarrow> ('a \<Rightarrow> string + 'b) \<Rightarrow> string + 'b" where
  "need v k conv cont =
     (case json_get v k of
        None \<Rightarrow> Inl (''missing field '' @ k)
      | Some x \<Rightarrow> (case conv x of Inl e \<Rightarrow> Inl e | Inr a \<Rightarrow> cont a))"

definition as_bounded :: "nat \<Rightarrow> json \<Rightarrow> string + nat" where
  "as_bounded bound v =
     (case json_as_u64 v of
        None \<Rightarrow> Inl ''invalid type''
      | Some n \<Rightarrow> if n < bound then Inr n else Inl ''invalid value'')"

definition as_node :: "json \<Rightarrow> string + string option" where
  "as_node v = (case v of JNull \<Rightarrow> Inr None | JString n \<Rightarrow> Inr (Some n) | _ \<Rightarrow> Inl ''invalid type'')"

definition as_time :: "json \<Rightarrow> string + nat" where
  "as_time v =
     need v ''secs_since_epoch'' (as_bounded (2 ^ 64)) (\<lambda>s.
     need v ''nanos_since_epoch'' (as_bounded (2 ^ 32)) (\<lambda>n. Inr (s * 10 ^ 9 + n)))"

definition checkpoint_from_value :: "'c serde_fns \<Rightarrow> json \<Rightarrow> string + 'c checkpoint" where
  "checkpoint_from_value sd v =
     need v ''format_version'' (as_bounded (2 ^ 32)) (\<lambda>version.
     need v ''checkpoint_id'' (sd_of_id sd) (\<lambda>i.
     need v ''next_node'' as_node (\<lambda>nxt.
     need v ''state'' (sd_of_state sd) (\<lambda>state.
     need v ''graph_hash'' (as_bounded (2 ^ 64)) (\<lambda>hash.
     need v ''steps_used'' (as_bounded (2 ^ 64)) (\<lambda>steps.
     need v ''created_at'' as_time (\<lambda>created.
       Inr \<lparr>cp_version = version, cp_id = i, cp_next = nxt, cp_state = state,
            cp_hash = word_of_nat hash, cp_steps = steps, cp_created = created\<rparr>)))))))"

definition codec_serialize :: "'c serde_fns \<Rightarrow> 'c checkpoint \<Rightarrow> 64 word \<Rightarrow> store_error + blob" where
  "codec_serialize sd cp hash =
     (case checkpoint_to_value sd cp of
        Inl e \<Rightarrow> Inl (SerializationError e)
      | Inr v \<Rightarrow> Inr \<lparr>bl_id = cp_id cp, bl_data = sd_text sd v, bl_hash = hash, bl_created = cp_created cp\<rparr>)"

definition validate_checkpoint_format :: "'c serde_fns \<Rightarrow> json \<Rightarrow> store_error option" where
  "validate_checkpoint_format sd v =
     (case json_get v ''format_version'' of
        None \<Rightarrow> Some (UnsupportedFormatError ''missing format_version (legacy format?)'')
      | Some fmt \<Rightarrow>
          (if json_as_u64 fmt \<noteq> Some checkpoint_format_version
           then Some (UnsupportedFormatError (''unsupported format_version: '' @ sd_text sd fmt))
           else if json_get v ''next_node'' = None
           then Some (UnsupportedFormatError ''missing next_node (legacy current_node format?)'')
           else None))"

definition codec_deserialize :: "'c serde_fns \<Rightarrow> blob \<Rightarrow> 64 word \<Rightarrow> store_error + 'c checkpoint" where
  "codec_deserialize sd b expected =
     (if bl_hash b \<noteq> expected then Inl (GraphMismatch expected (bl_hash b))
      else
     (case sd_parse sd (bl_data b) of
        Inl e \<Rightarrow> Inl (Corrupted e)
      | Inr v \<Rightarrow>
     (if \<not> json_is_object v then Inl (Corrupted ''checkpoint is not a JSON object'')
      else
     (case validate_checkpoint_format sd v of
        Some e \<Rightarrow> Inl e
      | None \<Rightarrow>
          (case checkpoint_from_value sd v of Inl e \<Rightarrow> Inl (Corrupted e) | Inr cp \<Rightarrow> Inr cp)))))"

section \<open>The typed store\<close>

definition typed_save ::
  "'st blob_ops \<Rightarrow> 'c serde_fns \<Rightarrow> trace_id \<Rightarrow> 'c checkpoint \<Rightarrow> 64 word \<Rightarrow> ('st, unit) store_act" where
  "typed_save ops sd t cp hash st =
     (case codec_serialize sd cp hash of Inl e \<Rightarrow> (Inl e, st) | Inr b \<Rightarrow> bs_save ops t b st)"

definition typed_read ::
  "'c serde_fns \<Rightarrow> 64 word \<Rightarrow> store_error + blob option \<Rightarrow> store_error + 'c checkpoint option" where
  "typed_read sd expected r =
     (case r of
        Inl e \<Rightarrow> Inl e
      | Inr None \<Rightarrow> Inr None
      | Inr (Some b) \<Rightarrow>
          (case codec_deserialize sd b expected of Inl e \<Rightarrow> Inl e | Inr cp \<Rightarrow> Inr (Some cp)))"

definition typed_load ::
  "'st blob_ops \<Rightarrow> 'c serde_fns \<Rightarrow> checkpoint_id \<Rightarrow> 64 word \<Rightarrow> 'st \<Rightarrow> store_error + 'c checkpoint option" where
  "typed_load ops sd i expected st = typed_read sd expected (bs_load ops i st)"

definition typed_load_latest ::
  "'st blob_ops \<Rightarrow> 'c serde_fns \<Rightarrow> trace_id \<Rightarrow> 64 word \<Rightarrow> 'st \<Rightarrow> store_error + 'c checkpoint option" where
  "typed_load_latest ops sd t expected st = typed_read sd expected (bs_load_latest ops t st)"

section \<open>Retention and configuration\<close>

datatype retention_policy = KeepAll | KeepLatest nat

fun prune_keep :: "retention_policy \<Rightarrow> nat option" where
  "prune_keep KeepAll = None"
| "prune_keep (KeepLatest n) = Some n"

fun hex_digits :: "nat \<Rightarrow> nat \<Rightarrow> string" where
  "hex_digits 0 n = []"
| "hex_digits (Suc w) n = hex_digits w (n div 16) @ [(''0123456789abcdef'' ! (n mod 16))]"

definition show_hash :: "64 word \<Rightarrow> string" where
  "show_hash h = ''0x'' @ hex_digits 16 (unat h)"

fun show_store_error :: "store_error \<Rightarrow> string" where
  "show_store_error (Storage e) = ''storage error: '' @ e"
| "show_store_error (CheckpointNotFound i) = ''checkpoint not found: '' @ i"
| "show_store_error (Corrupted e) = ''corrupted checkpoint: '' @ e"
| "show_store_error (SerializationError e) = ''serialization error: '' @ e"
| "show_store_error (GraphMismatch e a) =
     ''graph mismatch: expected hash '' @ show_hash e @ '', got '' @ show_hash a"
| "show_store_error (UnsupportedFormatError e) = ''unsupported checkpoint format: '' @ e"

record ('w, 'c) checkpoint_config =
  cc_retention :: retention_policy
  cc_save :: "'c checkpoint \<Rightarrow> trace_id \<Rightarrow> ('w, unit) store_act"
  cc_hash :: "64 word"
  cc_store :: "'w blob_ops option"

definition config_new ::
  "('c checkpoint \<Rightarrow> trace_id \<Rightarrow> ('w, unit) store_act) \<Rightarrow> 64 word \<Rightarrow> ('w, 'c) checkpoint_config" where
  "config_new save hash = \<lparr>cc_retention = KeepAll, cc_save = save, cc_hash = hash, cc_store = None\<rparr>"

definition config_with_retention ::
  "retention_policy \<Rightarrow> ('w, 'c) checkpoint_config \<Rightarrow> ('w, 'c) checkpoint_config" where
  "config_with_retention r cfg = cfg\<lparr>cc_retention := r\<rparr>"

definition config_for_store :: "'w blob_ops \<Rightarrow> 'c serde_fns \<Rightarrow> 64 word \<Rightarrow> ('w, 'c) checkpoint_config" where
  "config_for_store ops sd hash =
     \<lparr>cc_retention = KeepAll,
      cc_save = (\<lambda>cp t w. case codec_serialize sd cp hash of Inl e \<Rightarrow> (Inl e, w) | Inr b \<Rightarrow> bs_save ops t b w),
      cc_hash = hash, cc_store = Some ops\<rparr>"

definition apply_retention :: "('w, 'c) checkpoint_config \<Rightarrow> trace_id \<Rightarrow> ('w, unit) store_act" where
  "apply_retention cfg t w =
     (case (prune_keep (cc_retention cfg), cc_store cfg) of
        (Some keep, Some ops) \<Rightarrow>
          (case bs_prune ops t keep w of (Inl e, w') \<Rightarrow> (Inl e, w') | (Inr _, w') \<Rightarrow> (Inr (), w'))
      | _ \<Rightarrow> (Inr (), w))"

definition check_restore_latest ::
  "('w, 'c) checkpoint_config \<Rightarrow> trace_id \<Rightarrow> 'c checkpoint \<Rightarrow> 'w \<Rightarrow> terminal_error option" where
  "check_restore_latest cfg t cp w =
     (case cc_store cfg of
        None \<Rightarrow> None
      | Some ops \<Rightarrow>
          (case bs_load_latest ops t w of
             Inr (Some latest) \<Rightarrow>
               (if bl_id latest \<noteq> cp_id cp then Some (RestoreNotLatest (cp_id cp) (bl_id latest)) else None)
           | Inr None \<Rightarrow> Some (RestoreFailed (''no checkpoints found for trace '' @ t))
           | Inl e \<Rightarrow> Some (CheckpointLoadFailed (show_store_error e))))"

definition assert_fresh_trace :: "('w, 'c) checkpoint_config \<Rightarrow> trace_id \<Rightarrow> 'w \<Rightarrow> terminal_error option" where
  "assert_fresh_trace cfg t w =
     (case cc_store cfg of
        None \<Rightarrow> None
      | Some ops \<Rightarrow>
          (case bs_load_latest ops t w of
             Inr (Some latest) \<Rightarrow> Some (TraceNotFresh t (bl_id latest))
           | Inr None \<Rightarrow> None
           | Inl e \<Rightarrow> Some (CheckpointLoadFailed (show_store_error e))))"

section \<open>The sink that saves at every boundary\<close>

text \<open>
  \<open>clock\<close> is \<open>CheckpointId::new()\<close> and \<open>SystemTime::now()\<close>. The best-effort
  \<open>CheckpointSaved\<close> event is left out; a failed prune is only logged.
\<close>

definition on_checkpoint ::
  "('w \<Rightarrow> (checkpoint_id \<times> nat) \<times> 'w) \<Rightarrow> ('s, 'm, 'c) workflow_ops \<Rightarrow> ('w, 'c) checkpoint_config \<Rightarrow> trace_id
   \<Rightarrow> 's \<Rightarrow> frame_info \<Rightarrow> ('w, unit) store_act" where
  "on_checkpoint clock ops cfg t s frame w =
     (case clock w of ((i, now), w1) \<Rightarrow>
     (case cc_save cfg (checkpoint_new ops i now (fi_next_node frame) s (cc_hash cfg) (fi_step frame)) t w1 of
        (Inl e, w2) \<Rightarrow> (Inl e, w2)
      | (Inr _, w2) \<Rightarrow>
          (case prune_keep (cc_retention cfg) of
             None \<Rightarrow> (Inr (), w2)
           | Some keep \<Rightarrow>
               (if keep = 0 then (Inl (Storage ''KeepLatest(0) is invalid''), w2)
                else (case cc_store cfg of
                        None \<Rightarrow> (Inr (), w2)
                      | Some store \<Rightarrow> (Inr (), snd (bs_prune store t keep w2)))))))"

definition save_sink ::
  "('w \<Rightarrow> (checkpoint_id \<times> nat) \<times> 'w) \<Rightarrow> ('s, 'm, 'c) workflow_ops \<Rightarrow> ('w, 'c) checkpoint_config \<Rightarrow> trace_id
   \<Rightarrow> 'w \<Rightarrow> 's \<Rightarrow> frame_info \<Rightarrow> 'w \<times> string option" where
  "save_sink clock ops cfg t w s frame =
     (case on_checkpoint clock ops cfg t s frame w of
        (Inl e, w') \<Rightarrow> (w', Some (show_store_error e))
      | (Inr _, w') \<Rightarrow> (w', None))"

section \<open>The mutation log\<close>

record mutation_log_entry =
  le_trace :: trace_id
  le_step :: nat
  le_node :: string
  le_checkpoint :: "checkpoint_id option"
  le_index :: nat
  le_mutation :: json

type_synonym mutation_log = "(trace_id, mutation_log_entry list) hashmap"

definition log_entries :: "mutation_log \<Rightarrow> trace_id \<Rightarrow> mutation_log_entry list" where
  "log_entries l t = (case hm_get l t of None \<Rightarrow> [] | Some es \<Rightarrow> es)"

definition log_len :: "mutation_log \<Rightarrow> nat" where
  "log_len l = sum_list (map (\<lambda>(_, es). length es) l)"

definition log_append :: "mutation_log_entry \<Rightarrow> mutation_log \<Rightarrow> mutation_log" where
  "log_append e l = hm_insert (le_trace e) (log_entries l (le_trace e) @ [e]) l"

definition log_append_batch :: "mutation_log_entry list \<Rightarrow> mutation_log \<Rightarrow> mutation_log" where
  "log_append_batch es l = foldl (\<lambda>l e. log_append e l) l es"

definition log_replay :: "trace_id \<Rightarrow> nat \<Rightarrow> mutation_log \<Rightarrow> mutation_log_entry list" where
  "log_replay t from_step l = filter (\<lambda>e. le_step e \<ge> from_step) (log_entries l t)"

definition log_truncate :: "trace_id \<Rightarrow> nat \<Rightarrow> mutation_log \<Rightarrow> nat \<times> mutation_log" where
  "log_truncate t keep l =
     (let es = log_entries l t; kept = filter (\<lambda>e. le_step e \<ge> keep) es in
      (length es - length kept, hm_insert t kept l))"

fun log_enumerate ::
  "('e \<Rightarrow> string + json) \<Rightarrow> trace_id \<Rightarrow> nat \<Rightarrow> string \<Rightarrow> checkpoint_id option \<Rightarrow> nat \<Rightarrow> 'e list
   \<Rightarrow> mutation_log_entry list" where
  "log_enumerate conv t step node cp idx [] = []"
| "log_enumerate conv t step node cp idx (m # ms) =
     (case conv m of
        Inl _ \<Rightarrow> log_enumerate conv t step node cp (Suc idx) ms
      | Inr v \<Rightarrow>
          \<lparr>le_trace = t, le_step = step, le_node = node, le_checkpoint = cp, le_index = idx, le_mutation = v\<rparr>
          # log_enumerate conv t step node cp (Suc idx) ms)"

definition mutations_to_log_entries where
  "mutations_to_log_entries conv t step node cp ms = log_enumerate conv t step node cp 0 ms"

section \<open>Execution traces\<close>

record 'e trace_step =
  ts_step :: nat
  ts_node :: string
  ts_mutations :: "'e list"

record 'e memory_trace_sink =
  mt_steps :: "'e trace_step list"
  mt_max :: nat

definition trace_default :: "'e memory_trace_sink" where
  "trace_default = \<lparr>mt_steps = [], mt_max = 10000\<rparr>"

definition trace_with_max_steps :: "nat \<Rightarrow> 'e memory_trace_sink" where
  "trace_with_max_steps m = \<lparr>mt_steps = [], mt_max = m\<rparr>"

fun evict_oldest :: "nat \<Rightarrow> 'a list \<Rightarrow> 'a list" where
  "evict_oldest m [] = []"
| "evict_oldest m (x # xs) = (if length (x # xs) > m then evict_oldest m xs else x # xs)"

definition record_step :: "'e trace_step \<Rightarrow> 'e memory_trace_sink \<Rightarrow> 'e memory_trace_sink" where
  "record_step st sink = sink\<lparr>mt_steps := evict_oldest (mt_max sink) (mt_steps sink @ [st])\<rparr>"

definition export_trace :: "('e \<Rightarrow> string + json) \<Rightarrow> 'e memory_trace_sink \<Rightarrow> (nat \<times> string \<times> json list) list" where
  "export_trace conv sink =
     map (\<lambda>st. (ts_step st, ts_node st,
       List.map_filter (\<lambda>m. case conv m of Inl _ \<Rightarrow> None | Inr v \<Rightarrow> Some v) (ts_mutations st))) (mt_steps sink)"

section \<open>The codec gives back what was serialised\<close>

text \<open>
  What the code relies on: parsing a text gives its value (with sorted objects), and the
  serde implementations of the state and of identifiers are inverse to each other, on the
  states \<open>storable\<close> (for a hash map state: its canonical representatives).
\<close>

lemma distinct_sort_keys: "distinct (map fst xs) \<Longrightarrow> distinct (map fst (sort_key fst xs))"
  unfolding distinct_map by simp

lemma json_get_norm:
  assumes "distinct (map fst kvs)"
  shows "json_get (json_norm (JObject kvs)) k = map_option json_norm (map_of kvs k)"
proof -
  let ?m = "map (\<lambda>(k, v). (k, json_norm v)) kvs"
  have d: "distinct (map fst ?m)"
    using assms by (simp add: comp_def case_prod_unfold)
  then have "distinct (map fst (sort_key fst ?m))"
    by (rule distinct_sort_keys)
  with d have "map_of (sort_key fst ?m) = map_of ?m"
    by (intro map_of_inject_set [THEN iffD2]) simp_all
  then show ?thesis by (simp add: map_of_map)
qed

definition cp_fields :: "'c serde_fns \<Rightarrow> 'c checkpoint \<Rightarrow> json \<Rightarrow> (string \<times> json) list" where
  "cp_fields sd cp state =
    [(''format_version'', JInt (int (cp_version cp))),
     (''checkpoint_id'', sd_id sd (cp_id cp)),
     (''next_node'', case cp_next cp of None \<Rightarrow> JNull | Some n \<Rightarrow> JString n),
     (''state'', state),
     (''graph_hash'', JInt (uint (cp_hash cp))),
     (''steps_used'', JInt (int (cp_steps cp))),
     (''created_at'', time_to_value (cp_created cp))]"

definition cp_value :: "'c serde_fns \<Rightarrow> 'c checkpoint \<Rightarrow> json \<Rightarrow> json" where
  "cp_value sd cp state = JObject (cp_fields sd cp state)"

lemma as_time_norm: "t < 2 ^ 64 \<Longrightarrow> as_time (json_norm (time_to_value t)) = Inr t"
proof -
  assume t: "t < 2 ^ 64"
  have "json_get (json_norm (time_to_value t)) k = map_option json_norm
      (map_of [(''secs_since_epoch'', JInt (int (t div 10 ^ 9))), (''nanos_since_epoch'', JInt (int (t mod 10 ^ 9)))] k)" for k
    unfolding time_to_value_def by (rule json_get_norm) simp
  moreover have "t mod 1000000000 < 4294967296"
    by (rule less_trans [OF mod_less_divisor]) simp_all
  moreover have "t div 1000000000 < 18446744073709551616"
    using t by (simp add: le_less_trans [OF div_le_dividend])
  ultimately show ?thesis
    by (simp add: as_time_def need_def as_bounded_def)
qed

lemma hash_bounds: "uint (h :: 64 word) < 18446744073709551616" "unat (h :: 64 word) < 18446744073709551616"
  using uint_lt2p [of h] unsigned_less [of h, where ?'a = nat] by simp_all

locale checkpoint_serde =
  fixes sd :: "'c serde_fns" and storable :: "'c \<Rightarrow> bool"
  assumes parse_text: "sd_parse sd (sd_text sd v) = Inr (json_norm v)"
    and state_back: "storable c \<Longrightarrow> sd_state sd c = Inr v \<Longrightarrow> sd_of_state sd (json_norm v) = Inr c"
    and id_back: "sd_of_id sd (json_norm (sd_id sd i)) = Inr i"
begin

lemma codec_roundtrip:
  assumes "cp_version cp = checkpoint_format_version" and "storable (cp_state cp)"
    and "cp_steps cp < 2 ^ 64" and "cp_created cp < 2 ^ 64"
    and "codec_serialize sd cp h = Inr b"
  shows "codec_deserialize sd b h = Inr cp"
proof -
  from assms(5) obtain state where state: "sd_state sd (cp_state cp) = Inr state"
    and b: "b = \<lparr>bl_id = cp_id cp, bl_data = sd_text sd (cp_value sd cp state), bl_hash = h, bl_created = cp_created cp\<rparr>"
    by (auto simp: codec_serialize_def checkpoint_to_value_def cp_value_def cp_fields_def split: sum.splits)
  have time: "as_time (json_norm (time_to_value t)) = Inr t" if "t < 2 ^ 64" for t
    using that as_time_norm by simp
  have field: "json_get (json_norm (cp_value sd cp state)) k = map_option json_norm (map_of (cp_fields sd cp state) k)" for k
    unfolding cp_value_def by (rule json_get_norm) (simp add: cp_fields_def)
  have parsed: "sd_parse sd (bl_data b) = Inr (json_norm (cp_value sd cp state))" by (simp add: b parse_text)
  have format_ok: "validate_checkpoint_format sd (json_norm (cp_value sd cp state)) = None"
    using assms(1) by (simp add: validate_checkpoint_format_def field cp_fields_def checkpoint_format_version_def)
  have "checkpoint_from_value sd (json_norm (cp_value sd cp state)) = Inr cp"
    using assms(1-4) time state_back [OF assms(2) state] id_back
      hash_bounds [of "cp_hash cp"]
    by (simp add: checkpoint_from_value_def need_def field cp_fields_def as_bounded_def as_node_def
        checkpoint_format_version_def split: option.splits)
  with parsed format_ok show ?thesis
    by (simp add: codec_deserialize_def b cp_value_def)
qed

end

text \<open>
  Serde functions of the map state that satisfy the laws: a text numbers the value it
  stands for.
\<close>

instance word :: (len) countable
  by (rule countable_classI [of unat]) (rule unsigned_word_eqI)

instance json :: countable
  by countable_datatype

definition state_serde :: "json state serde_fns" where
  "state_serde =
     \<lparr>sd_text = (\<lambda>v. show_nat (to_nat v)),
      sd_parse = (\<lambda>s. case parse_digits 0 s of None \<Rightarrow> Inl ''expected value'' | Some n \<Rightarrow> Inr (json_norm (from_nat n))),
      sd_state = (\<lambda>s. Inr (JObject s)),
      sd_of_state = (\<lambda>v. case v of JObject kvs \<Rightarrow> Inr kvs | _ \<Rightarrow> Inl ''invalid type''),
      sd_id = JString,
      sd_of_id = (\<lambda>v. case v of JString i \<Rightarrow> Inr i | _ \<Rightarrow> Inl ''invalid type'')\<rparr>"

definition canonical_state :: "json state \<Rightarrow> bool" where
  "canonical_state s \<longleftrightarrow> json_norm (JObject s) = JObject s"

interpretation state_serde: checkpoint_serde state_serde canonical_state
  by unfold_locales (auto simp: state_serde_def canonical_state_def simp del: json_norm.simps(2))

text \<open>
  A checkpoint that is serialised with the graph's hash is given back unchanged by a
  deserialisation that expects this hash, and refused as a graph mismatch by any other.
\<close>

theorem checkpoint_roundtrip:
  assumes "\<And>v. sd_parse sd (sd_text sd v) = Inr (json_norm v)"
    and "\<And>v. sd_state sd (cp_state cp) = Inr v \<Longrightarrow> sd_of_state sd (json_norm v) = Inr (cp_state cp)"
    and "\<And>i. sd_of_id sd (json_norm (sd_id sd i)) = Inr i"
    and "cp_version cp = checkpoint_format_version" and "cp_steps cp < 2 ^ 64" and "cp_created cp < 2 ^ 64"
    and "codec_serialize sd cp h = Inr b"
  shows "codec_deserialize sd b h' = (if h' = h then Inr cp else Inl (GraphMismatch h' h))"
proof -
  have laws: "checkpoint_serde sd (\<lambda>c. c = cp_state cp)"
    using assms(1-3) by unfold_locales auto
  have "bl_hash b = h"
    using assms(7) by (auto simp: codec_serialize_def split: sum.splits)
  then show ?thesis
    using checkpoint_serde.codec_roundtrip [OF laws assms(4) refl assms(5,6,7)]
    by (auto simp: codec_deserialize_def)
qed

definition example_checkpoint :: "json state checkpoint" where
  "example_checkpoint =
     \<lparr>cp_version = 1, cp_id = ''c1'', cp_next = Some ''b'', cp_state = [(''k'', JInt 5)],
      cp_hash = 9, cp_steps = 3, cp_created = 1700000000000000000\<rparr>"

lemma checkpoint_roundtrip_witness:
  "\<exists>b. codec_serialize state_serde example_checkpoint 9 = Inr b
     \<and> codec_deserialize state_serde b 9 = Inr example_checkpoint
     \<and> codec_deserialize state_serde b 8 = Inl (GraphMismatch 8 9)"
proof -
  obtain b where b: "codec_serialize state_serde example_checkpoint 9 = Inr b"
    by (simp add: codec_serialize_def checkpoint_to_value_def state_serde_def)
  note roundtrip = checkpoint_roundtrip [of state_serde example_checkpoint 9 b, OF _ _ _ _ _ _ b]
  have "codec_deserialize state_serde b h' = (if h' = 9 then Inr example_checkpoint else Inl (GraphMismatch h' 9))" for h'
    by (rule roundtrip) (auto simp: example_checkpoint_def checkpoint_format_version_def state_serde_def)
  with b show ?thesis by simp
qed

lemma need_Inr_iff:
  "need v k conv cont = Inr r \<longleftrightarrow> (\<exists>x a. json_get v k = Some x \<and> conv x = Inr a \<and> cont a = Inr r)"
  by (auto simp: need_def split: option.splits sum.splits)

text \<open>
  C18: Whatever the blob holds, deserialisation yields a checkpoint only when the blob
  carries the expected graph hash, its text is an object of the supported format version
  and the object has a \<open>next_node\<close> member; the checkpoint is finished only when this
  member is an explicit \<open>null\<close>.
\<close>

theorem codec_never_guesses:
  "case codec_deserialize sd b h of
     Inl e \<Rightarrow> True
   | Inr cp \<Rightarrow> bl_hash b = h \<and> cp_version cp = checkpoint_format_version
       \<and> (\<exists>v x. sd_parse sd (bl_data b) = Inr v \<and> json_is_object v \<and> json_get v ''next_node'' = Some x
            \<and> (cp_next cp = None \<longleftrightarrow> x = JNull) \<and> (\<forall>n. cp_next cp = Some n \<longleftrightarrow> x = JString n))"
proof (cases "codec_deserialize sd b h")
  case (Inr cp)
  then obtain v where v: "bl_hash b = h" "sd_parse sd (bl_data b) = Inr v" "json_is_object v"
    "validate_checkpoint_format sd v = None" "checkpoint_from_value sd v = Inr cp"
    by (auto simp: codec_deserialize_def split: if_splits sum.splits option.splits)
  from v(4) have "\<exists>fmt. json_get v ''format_version'' = Some fmt \<and> json_as_u64 fmt = Some 1"
    by (auto simp: validate_checkpoint_format_def checkpoint_format_version_def split: option.splits if_splits)
  moreover from v(5) obtain fmt x nxt where "json_get v ''format_version'' = Some fmt"
    "as_bounded (2 ^ 32) fmt = Inr (cp_version cp)"
    "json_get v ''next_node'' = Some x" "as_node x = Inr nxt" "cp_next cp = nxt"
    by (auto simp: checkpoint_from_value_def need_Inr_iff)
  ultimately show ?thesis using Inr v
    by (auto simp: as_bounded_def as_node_def checkpoint_format_version_def split: json.splits if_splits)
      (metis option.inject)+
qed simp

section \<open>What a save leaves behind\<close>

text \<open>
  The interface of the checkpoint layer: a store, a codec, and a clock. \<open>issued w\<close> are the
  identifiers that the generator has given out so far: it never gives one out twice, it does
  not touch the store, and the store does not touch it.
\<close>

locale checkpointing = blob_store ops inv valid hist + checkpoint_serde sd storable
  for ops :: "'w blob_ops" and inv :: "'w \<Rightarrow> bool" and valid :: "blob \<Rightarrow> bool"
    and hist :: "'w \<Rightarrow> trace_id \<Rightarrow> blob list" and sd :: "'c serde_fns" and storable :: "'c \<Rightarrow> bool" +
  fixes clock :: "'w \<Rightarrow> (checkpoint_id \<times> nat) \<times> 'w" and issued :: "'w \<Rightarrow> checkpoint_id set"
  assumes clock_issues: "inv w \<Longrightarrow> clock w = ((i, now), w') \<Longrightarrow>
      inv w' \<and> hist w' = hist w \<and> i \<notin> issued w \<and> issued w' = insert i (issued w) \<and> now < 2 ^ 64"
    and store_issues_none: "issued (snd (bs_save ops t b w)) = issued w"
      "issued (snd (bs_prune ops t k w)) = issued w"
    and clock_valid: "inv w \<Longrightarrow> clock w = ((i, now), w') \<Longrightarrow> bl_id b = i \<Longrightarrow> bl_created b = now \<Longrightarrow> valid b"
begin

lemma on_checkpoint_saved:
  assumes inv: "inv w" and known: "\<And>t. bl_id ` set (hist w t) \<subseteq> issued w"
    and small: "fi_step frame < 2 ^ 64" and ok: "storable (op_snapshot wops s)"
    and saved: "on_checkpoint clock wops (config_with_retention r (config_for_store ops sd h)) t s frame w = (Inr (), w')"
  obtains i now b where "codec_deserialize sd b h = Inr (checkpoint_new wops i now (fi_next_node frame) s h (fi_step frame))"
    and "bl_id b = i" and "inv w'" and "issued w' = insert i (issued w)"
    and "hist w' = (hist w)(t := (case r of KeepAll \<Rightarrow> hist w t @ [b]
           | KeepLatest k \<Rightarrow> drop (length (hist w t @ [b]) - k) (hist w t @ [b])))"
    and "case r of KeepAll \<Rightarrow> True | KeepLatest k \<Rightarrow> 0 < k"
proof -
  obtain i now w1 where clock: "clock w = ((i, now), w1)" by (metis prod.exhaust)
  let ?cp = "checkpoint_new wops i now (fi_next_node frame) s h (fi_step frame)"
  obtain e w2 where save: "(case codec_serialize sd ?cp h of Inl e \<Rightarrow> (Inl e, w1) | Inr b \<Rightarrow> bs_save ops t b w1) = (e, w2)"
    by fastforce
  note w1 = clock_issues [OF inv clock]
  from saved clock save have "e = Inr ()"
    by (cases e) (auto simp: on_checkpoint_def config_with_retention_def config_for_store_def)
  with save obtain b where b: "codec_serialize sd ?cp h = Inr b" "bs_save ops t b w1 = (Inr (), w2)"
    by (auto split: sum.splits)
  have fields: "bl_id b = i" "bl_created b = now"
    using b(1) by (auto simp: codec_serialize_def checkpoint_new_def split: sum.splits)
  have "codec_deserialize sd b h = Inr ?cp"
    using w1 small ok by (intro codec_roundtrip [OF _ _ _ _ b(1)]) (auto simp: checkpoint_new_def)
  moreover have w2: "inv w2 \<and> hist w2 = (hist w)(t := hist w t @ [b])"
  proof -
    have "bl_id b \<notin> bl_id ` set (hist w1 t')" for t'
      using w1 known [of t'] fields(1) by auto
    with save_hist [OF _ clock_valid [OF inv clock fields] _ b(2)] w1 show ?thesis by simp
  qed
  moreover have "issued w2 = insert i (issued w)"
    using w1 b(2) store_issues_none(1) [of t b w1] by simp
  then have "issued w' = insert i (issued w)"
    using saved clock b store_issues_none(2) [of t _ w2]
    by (cases r) (auto simp: on_checkpoint_def config_with_retention_def config_for_store_def split: if_splits)
  moreover have "inv w' \<and> hist w' = (hist w)(t := (case r of KeepAll \<Rightarrow> hist w t @ [b]
           | KeepLatest k \<Rightarrow> drop (length (hist w t @ [b]) - k) (hist w t @ [b])))
       \<and> (case r of KeepAll \<Rightarrow> True | KeepLatest k \<Rightarrow> 0 < k)"
  proof (cases r)
    case KeepAll
    with saved clock b w2 show ?thesis
      by (auto simp: on_checkpoint_def config_with_retention_def config_for_store_def)
  next
    case (KeepLatest k)
    with saved clock b have "0 < k" and w': "w' = snd (bs_prune ops t k w2)"
      by (auto simp: on_checkpoint_def config_with_retention_def config_for_store_def split: if_splits)
    with KeepLatest w2 prune_hist [of w2 t k "fst (bs_prune ops t k w2)" w'] show ?thesis by simp
  qed
  ultimately show ?thesis using fields by (intro that) auto
qed

lemma on_checkpoint_recoverable:
  assumes inv: "inv w" and known: "\<And>t. bl_id ` set (hist w t) \<subseteq> issued w"
    and small: "fi_step frame < 2 ^ 64" and ok: "storable (op_snapshot wops s)"
    and cfg: "cfg = config_with_retention r (config_for_store ops sd h)"
    and saved: "on_checkpoint clock wops cfg t s frame w = (Inr (), w')"
  shows "\<exists>i now cp. cp = checkpoint_new wops i now (fi_next_node frame) s h (fi_step frame)
     \<and> typed_load_latest ops sd t h w' = Inr (Some cp)
     \<and> check_restore_latest cfg t cp w' = None
     \<and> assert_fresh_trace cfg t w' = Some (TraceNotFresh t i)
     \<and> (\<forall>t'. t' \<noteq> t \<longrightarrow> bs_load_latest ops t' w' = bs_load_latest ops t' w)
     \<and> (case r of KeepAll \<Rightarrow> True | KeepLatest k \<Rightarrow> (\<forall>ids. bs_list ops t w' = Inr ids \<longrightarrow> length ids \<le> k))
     \<and> inv w' \<and> (\<forall>t. bl_id ` set (hist w' t) \<subseteq> issued w')"
proof -
  obtain i now b where b: "codec_deserialize sd b h = Inr (checkpoint_new wops i now (fi_next_node frame) s h (fi_step frame))"
    "bl_id b = i" "inv w'" "hist w' = (hist w)(t := (case r of KeepAll \<Rightarrow> hist w t @ [b]
           | KeepLatest k \<Rightarrow> drop (length (hist w t @ [b]) - k) (hist w t @ [b])))"
    "case r of KeepAll \<Rightarrow> True | KeepLatest k \<Rightarrow> 0 < k" and issued: "issued w' = insert i (issued w)"
    using on_checkpoint_saved [OF inv known small ok saved [unfolded cfg]] by metis
  have "bl_id ` set (hist w' t'') \<subseteq> issued w'" for t''
    using known [of t''] b(2,4) issued by (cases r) (auto dest!: in_set_dropD)
  have latest: "bs_load_latest ops t w' = Inr (Some b)"
    using latest_hist [OF b(3), of t] b(4,5) by (cases r) (auto simp: last_drop)
  have "bs_load_latest ops t' w' = bs_load_latest ops t' w" if "t' \<noteq> t" for t'
    using that latest_hist [OF b(3), of t'] latest_hist [OF inv, of t'] b(4) by simp
  moreover have "case r of KeepAll \<Rightarrow> True | KeepLatest k \<Rightarrow> (\<forall>ids. bs_list ops t w' = Inr ids \<longrightarrow> length ids \<le> k)"
    using list_hist [OF b(3), of t] b(4) by (cases r) auto
  ultimately show ?thesis
    using latest b(1,2,3) \<open>\<And>t''. bl_id ` set (hist w' t'') \<subseteq> issued w'\<close>
    by (intro exI [of _ i] exI [of _ now]
        exI [of _ "checkpoint_new wops i now (fi_next_node frame) s h (fi_step frame)"])
      (simp add: typed_load_latest_def typed_read_def check_restore_latest_def assert_fresh_trace_def
        cfg config_with_retention_def config_for_store_def checkpoint_new_def)
qed

end

section \<open>A world with a store\<close>

text \<open>A store as one part of the world, and a clock that picks an unused identifier.\<close>

definition lift_store :: "'st blob_ops \<Rightarrow> ('st \<times> 'x) blob_ops" where
  "lift_store ops =
     \<lparr>bs_save = (\<lambda>t b (st, x). case bs_save ops t b st of (r, st') \<Rightarrow> (r, (st', x))),
      bs_load = (\<lambda>i (st, x). bs_load ops i st),
      bs_load_latest = (\<lambda>t (st, x). bs_load_latest ops t st),
      bs_list = (\<lambda>t (st, x). bs_list ops t st),
      bs_delete = (\<lambda>i (st, x). case bs_delete ops i st of (r, st') \<Rightarrow> (r, (st', x))),
      bs_prune = (\<lambda>t k (st, x). case bs_prune ops t k st of (r, st') \<Rightarrow> (r, (st', x)))\<rparr>"

context blob_store
begin

lemma lift_blob_store:
  "blob_store (lift_store ops) (\<lambda>w :: 'st \<times> 'x. inv (fst w)) valid (\<lambda>w. hist (fst w))"
proof
  fix w :: "'st \<times> 'x" and t
  assume inv: "inv (fst w)"
  obtain st x where w: "w = (st, x)" by fastforce
  note inv' = inv [unfolded w fst_conv]
  show "bs_list (lift_store ops) t w = Inr (rev (map bl_id (hist (fst w) t)))"
    using list_hist [OF inv'] by (simp add: w lift_store_def)
  show "bs_load_latest (lift_store ops) t w
      = Inr (if hist (fst w) t = [] then None else Some (last (hist (fst w) t)))"
    using latest_hist [OF inv'] by (simp add: w lift_store_def)
  show "bs_load (lift_store ops) (bl_id b) w = Inr (Some b)" if "b \<in> set (hist (fst w) t)" for b
    using that load_hist [OF inv'] by (simp add: w lift_store_def)
  show "inv (fst w') \<and> hist (fst w') = (hist (fst w))(t := hist (fst w) t @ [b])"
    if "valid b" "\<And>t'. bl_id b \<notin> bl_id ` set (hist (fst w) t')" "bs_save (lift_store ops) t b w = (Inr (), w')" for b w'
  proof -
    note save = that
    obtain st' where st': "bs_save ops t b st = (Inr (), st')" "w' = (st', x)"
      using save(3) by (auto simp: w lift_store_def split: prod.splits)
    from save_hist [OF inv' save(1) save(2) [unfolded w fst_conv] st'(1)] show ?thesis
      by (simp only: w st'(2) fst_conv)
  qed
  show "r = Inr (length (hist (fst w) t) - k) \<and> inv (fst w')
      \<and> hist (fst w') = (hist (fst w))(t := drop (length (hist (fst w) t) - k) (hist (fst w) t))"
    if "bs_prune (lift_store ops) t k w = (r, w')" for k r w'
  proof -
    note prune = that
    obtain st' where "bs_prune ops t k st = (r, st')" "w' = (st', x)"
      using prune by (auto simp: w lift_store_def split: prod.splits)
    with prune_hist [OF inv'] show ?thesis by (simp add: w)
  qed
qed

end

text \<open>
  What the code relies on of \<open>CheckpointId::new()\<close> (sparkid) and \<open>SystemTime::now()\<close>: the
  generator is some part of the world, \<open>issued\<close> are the identifiers it gave out; it gives no
  identifier twice, touches no store, and the time fits 64 bits of nanoseconds. The store
  holds no identifier from elsewhere.
\<close>

definition unique_ids ::
  "('st \<times> 'x \<Rightarrow> (checkpoint_id \<times> nat) \<times> ('st \<times> 'x)) \<Rightarrow> ('x \<Rightarrow> checkpoint_id set) \<Rightarrow> bool" where
  "unique_ids clock issued \<longleftrightarrow>
     (\<forall>st x i now w'. clock (st, x) = ((i, now), w') \<longrightarrow>
        fst w' = st \<and> i \<notin> issued x \<and> issued (snd w') = insert i (issued x) \<and> now < 2 ^ 64)"

definition ids_issued :: "('x \<Rightarrow> checkpoint_id set) \<Rightarrow> memory_store \<times> 'x \<Rightarrow> bool" where
  "ids_issued issued w \<longleftrightarrow> (\<forall>t. set (memory_ids t (fst w)) \<subseteq> issued (snd w))"

lemma ids_issued_hist:
  "memory_inv (fst w) \<Longrightarrow> ids_issued issued w \<longleftrightarrow> (\<forall>t. bl_id ` set (memory_hist (fst w) t) \<subseteq> issued (snd w))"
  unfolding ids_issued_def by (metis memory_hist_ids set_map)

lemma lifted_store_rest:
  "snd (snd (bs_save (lift_store ops) t b w)) = snd w" "snd (snd (bs_prune (lift_store ops) t k w)) = snd w"
  by (cases w; simp add: lift_store_def split: prod.split)+

lemma memory_checkpointing:
  fixes issued :: "'x \<Rightarrow> checkpoint_id set"
  assumes "checkpoint_serde sd storable" and "unique_ids clock issued"
  shows "checkpointing (lift_store memory_ops) (\<lambda>w :: memory_store \<times> 'x. memory_inv (fst w)) (\<lambda>_. True)
    (\<lambda>w. memory_hist (fst w)) sd storable clock (\<lambda>w. issued (snd w))"
proof (intro checkpointing.intro checkpointing_axioms.intro)
  show "blob_store (lift_store memory_ops) (\<lambda>w :: memory_store \<times> 'x. memory_inv (fst w)) (\<lambda>_. True)
      (\<lambda>w. memory_hist (fst w))"
    by (rule memory.lift_blob_store)
  show "checkpoint_serde sd storable" by fact
  fix w w' :: "memory_store \<times> 'x" and i now
  assume inv: "memory_inv (fst w)" and clock: "clock w = ((i, now), w')"
  have "clock (fst w, snd w) = ((i, now), w')" using clock by simp
  with assms(2) have "fst w' = fst w \<and> i \<notin> issued (snd w) \<and> issued (snd w') = insert i (issued (snd w)) \<and> now < 2 ^ 64"
    unfolding unique_ids_def by blast
  with inv show "memory_inv (fst w') \<and> memory_hist (fst w') = memory_hist (fst w)
      \<and> i \<notin> issued (snd w) \<and> issued (snd w') = insert i (issued (snd w)) \<and> now < 2 ^ 64"
    by simp
qed (simp_all add: lifted_store_rest)

text \<open>A generator that counts, as an instance.\<close>

definition counting_clock :: "'st \<times> nat \<Rightarrow> (checkpoint_id \<times> nat) \<times> ('st \<times> nat)" where
  "counting_clock w = (case w of (st, n) \<Rightarrow> ((replicate n CHR ''x'', n mod 2 ^ 64), (st, Suc n)))"

definition counted_ids :: "nat \<Rightarrow> checkpoint_id set" where
  "counted_ids n = (\<lambda>k. replicate k CHR ''x'') ` {..<n}"

lemma counting_clock_unique: "unique_ids counting_clock counted_ids"
proof -
  have "replicate n CHR ''x'' \<notin> counted_ids n" for n
  proof
    assume "replicate n CHR ''x'' \<in> counted_ids n"
    then obtain k where "k < n" "replicate n CHR ''x'' = replicate k CHR ''x''" by (auto simp: counted_ids_def)
    then show False by (metis length_replicate less_irrefl)
  qed
  then show ?thesis by (auto simp: unique_ids_def counting_clock_def counted_ids_def lessThan_Suc)
qed

lemma new_store_ids: "ids_issued issued (memory_new, x)"
  by (simp add: ids_issued_def memory_new_def memory_ids_def)

interpretation memory_checkpoints:
  checkpointing "lift_store memory_ops" "\<lambda>w. memory_inv (fst w)" "\<lambda>_. True" "\<lambda>w. memory_hist (fst w)"
    state_serde canonical_state counting_clock "\<lambda>w. counted_ids (snd w)"
  by (rule memory_checkpointing [OF _ counting_clock_unique]) unfold_locales

text \<open>
  C9: When the sink over the in-memory store reports that a boundary was saved, the latest
  checkpoint of the trace reads back as exactly this boundary (next node, snapshot, step,
  graph hash), the restore check accepts it, the trace is no longer fresh, no other trace
  changed its latest checkpoint and the retention bound holds. Identifiers and times come
  from any generator that gives no identifier twice.
\<close>

theorem saved_boundary_is_recoverable:
  fixes w :: "memory_store \<times> 'x"
  assumes "\<And>v. sd_parse sd (sd_text sd v) = Inr (json_norm v)"
    and "\<And>v. sd_state sd (op_snapshot wops s) = Inr v \<Longrightarrow> sd_of_state sd (json_norm v) = Inr (op_snapshot wops s)"
    and "\<And>i. sd_of_id sd (json_norm (sd_id sd i)) = Inr i"
    and clock: "unique_ids clock issued" and "ids_issued issued w"
    and "memory_inv (fst w)" and "fi_step frame < 2 ^ 64"
    and "cfg = config_with_retention r (config_for_store (lift_store memory_ops) sd h)"
    and "on_checkpoint clock wops cfg t s frame w = (Inr (), w')"
  shows "\<exists>i now cp. cp = checkpoint_new wops i now (fi_next_node frame) s h (fi_step frame)
     \<and> typed_load_latest (lift_store memory_ops) sd t h w' = Inr (Some cp)
     \<and> check_restore_latest cfg t cp w' = None
     \<and> assert_fresh_trace cfg t w' = Some (TraceNotFresh t i)
     \<and> (\<forall>t'. t' \<noteq> t \<longrightarrow> memory_load_latest t' (fst w') = memory_load_latest t' (fst w))
     \<and> (case r of KeepAll \<Rightarrow> True | KeepLatest k \<Rightarrow> length (memory_ids t (fst w')) \<le> k)
     \<and> memory_inv (fst w') \<and> ids_issued issued w'"
proof -
  have laws: "checkpoint_serde sd (\<lambda>c. c = op_snapshot wops s)"
    using assms(1-3) by unfold_locales auto
  have lifted: "bs_load_latest (lift_store memory_ops) t v = memory_load_latest t (fst v)"
    "bs_list (lift_store memory_ops) t v = Inr (rev (memory_ids t (fst v)))" for t and v :: "memory_store \<times> 'x"
    by (cases v; simp add: lift_store_def memory_ops_def memory_list_def)+
  have known: "bl_id ` set (memory_hist (fst w) t) \<subseteq> issued (snd w)" for t
    using assms(5) by (simp add: ids_issued_hist [OF assms(6)])
  note saved = checkpointing.on_checkpoint_recoverable
    [OF memory_checkpointing [OF laws clock] assms(6) known assms(7) refl assms(8,9), unfolded lifted]
  then have "memory_inv (fst w') \<and> ids_issued issued w'" using ids_issued_hist by blast
  moreover have "case r of KeepAll \<Rightarrow> True | KeepLatest k \<Rightarrow> length (memory_ids t (fst w')) \<le> k"
    using saved by (cases r) auto
  ultimately show ?thesis using saved by blast
qed

lemma saved_boundary_is_recoverable_witness:
  "\<exists>w'. on_checkpoint counting_clock state_ops (config_with_retention (KeepLatest 2)
        (config_for_store (lift_store memory_ops) state_serde 9)) ''t'' [(''k'', JInt 1)]
        \<lparr>fi_next_node = Some ''b'', fi_step = 1\<rparr> (memory_new, Suc 0) = (Inr (), w')
     \<and> assert_fresh_trace (config_with_retention (KeepLatest 2)
        (config_for_store (lift_store memory_ops) state_serde 9)) ''t'' w' = Some (TraceNotFresh ''t'' ''x'')"
proof -
  let ?cfg = "config_with_retention (KeepLatest 2) (config_for_store (lift_store memory_ops) state_serde 9)
    :: (memory_store \<times> nat, json state) checkpoint_config"
  obtain w' where run: "on_checkpoint counting_clock state_ops ?cfg ''t'' [(''k'', JInt 1)]
      \<lparr>fi_next_node = Some ''b'', fi_step = 1\<rparr> (memory_new, Suc 0) = (Inr (), w')"
    by (simp add: on_checkpoint_def counting_clock_def config_with_retention_def config_for_store_def
        codec_serialize_def checkpoint_to_value_def state_serde_def lift_store_def memory_ops_def memory_save_def)
  have "\<exists>i now cp. cp = checkpoint_new state_ops i now (Some ''b'') [(''k'', JInt 1)] 9 1
      \<and> typed_load_latest (lift_store memory_ops) state_serde ''t'' 9 w' = Inr (Some cp)
      \<and> assert_fresh_trace ?cfg ''t'' w' = Some (TraceNotFresh ''t'' i)"
    using saved_boundary_is_recoverable [of state_serde state_ops "[(''k'', JInt 1)]" counting_clock counted_ids "(memory_new, Suc 0)"
        "\<lparr>fi_next_node = Some ''b'', fi_step = 1\<rparr>" ?cfg "KeepLatest 2" 9 "''t''" w',
        OF _ _ _ counting_clock_unique new_store_ids _ _ refl run]
    by (auto simp: state_serde_def state_snapshot_def memory_inv_new)
  then show ?thesis using run
    by (auto simp: on_checkpoint_def counting_clock_def config_with_retention_def config_for_store_def
        codec_serialize_def checkpoint_to_value_def state_serde_def lift_store_def memory_ops_def memory_save_def
        assert_fresh_trace_def memory_load_latest_def memory_prune_def memory_new_def memory_ids_def
        checkpoint_new_def)
qed

section \<open>Properties of the logs\<close>

lemma log_append_entries:
  "log_entries (log_append e l) t = log_entries l t @ (if le_trace e = t then [e] else [])"
  by (simp add: log_append_def log_entries_def)

lemma log_append_batch_entries:
  "log_entries (log_append_batch es l) t = log_entries l t @ filter (\<lambda>e. le_trace e = t) es"
  unfolding log_append_batch_def
  by (induction es arbitrary: l) (simp_all add: log_append_entries)

text \<open>
  The mutation log replays, per trace and in order, the entries appended from a step
  on; a truncation drops exactly the entries before its step, reports how many there were,
  and leaves the other traces alone.
\<close>

theorem mutation_log_replays_what_was_appended:
  "log_replay t k (log_append_batch es l) = log_replay t k l @ filter (\<lambda>e. le_trace e = t \<and> k \<le> le_step e) es
   \<and> log_replay t' k (snd (log_truncate t keep l)) = (if t' = t then log_replay t (max k keep) l else log_replay t' k l)
   \<and> fst (log_truncate t keep l) = length (filter (\<lambda>e. le_step e < keep) (log_entries l t))"
proof -
  have "length (filter (\<lambda>e. keep \<le> le_step e) xs) + length (filter (\<lambda>e. le_step e < keep) xs) = length xs"
    for xs :: "mutation_log_entry list"
    using sum_length_filter_compl [of "\<lambda>e. keep \<le> le_step e" xs] by (simp add: not_le)
  from this [of "log_entries l t"]
  have "fst (log_truncate t keep l) = length (filter (\<lambda>e. le_step e < keep) (log_entries l t))"
    by (simp add: log_truncate_def Let_def)
  moreover have "log_replay t' k (snd (log_truncate t keep l))
      = (if t' = t then log_replay t (max k keep) l else log_replay t' k l)"
    by (auto simp: log_replay_def log_truncate_def Let_def log_entries_def intro!: filter_cong)
  moreover have "log_replay t k (log_append_batch es l)
      = log_replay t k l @ filter (\<lambda>e. le_trace e = t \<and> k \<le> le_step e) es"
    by (simp add: log_replay_def log_append_batch_entries conj_commute)
  ultimately show ?thesis by blast
qed

lemma evict_oldest_drop: "evict_oldest m xs = drop (length xs - m) xs"
  by (induction m xs rule: evict_oldest.induct) (auto simp: Suc_diff_le not_less)

lemma record_step_simps:
  "mt_steps (record_step st sink) = evict_oldest (mt_max sink) (mt_steps sink @ [st])"
  "mt_max (record_step st sink) = mt_max sink"
  by (simp_all add: record_step_def)

lemma drop_keeps_newest:
  "drop (length (drop (length xs - m) xs @ [x]) - m) (drop (length xs - m) xs @ [x])
     = drop (length (xs @ [x]) - m) (xs @ [x])"
proof (cases "length xs < m")
  case False
  then have "length xs = m + (length xs - m)" by simp
  then obtain d where d: "length xs = m + d" by blast
  then show ?thesis by (cases m) simp_all
qed simp

lemma record_steps_keeps_newest:
  "mt_steps (foldl (\<lambda>sk st. record_step st sk) sink steps)
     = drop (length (mt_steps sink @ steps) - mt_max sink) (mt_steps sink @ steps)"
  if "length (mt_steps sink) \<le> mt_max sink"
  using that
proof (induction steps rule: rev_induct)
  case (snoc x steps)
  have "mt_max (foldl (\<lambda>sk st. record_step st sk) sink steps) = mt_max sink"
    by (induction steps rule: rev_induct) (simp_all add: record_step_simps)
  with snoc show ?case
    using drop_keeps_newest [of "mt_steps sink @ steps" "mt_max sink" x]
    by (simp only: foldl_append foldl_Cons foldl_Nil record_step_simps evict_oldest_drop append_assoc)
qed simp

end
