(* ===== verification/Resume.thy ===== *)
theory Resume
  imports Checkpoint Composite
begin

text \<open>
  Durable execution from checkpoints: the restore check of a graph
  (\<open>Graph::validate_restore_checkpoint\<close>), the execution loop that assembles the sinks
  (\<open>exec/execution_loop.rs\<close>) and the entry points of the executor
  (\<open>test_executor.rs\<close>); and the theorem that a run interrupted after a checkpoint and
  resumed from the store ends like the uninterrupted one.

  The event channel is not modelled: of the events the result of the run and the calls on
  the step callback are kept.
\<close>

section \<open>Restoring\<close>

definition validate_restore_checkpoint ::
  "('s, 'm, 'k, 'w) graph \<Rightarrow> 'c checkpoint \<Rightarrow> nat \<Rightarrow> terminal_error option" where
  "validate_restore_checkpoint g cp max_steps =
     (if cp_version cp \<noteq> checkpoint_format_version
      then Some (RestoreUnsupportedFormat (cp_version cp) checkpoint_format_version)
      else if cp_hash cp \<noteq> g_canonical_hash g
      then Some (RestoreGraphMismatch (g_canonical_hash g) (cp_hash cp))
      else case cp_next cp of
        None \<Rightarrow> None
      | Some n \<Rightarrow>
          (if \<not> hm_contains (g_nodes g) n then Some (NodeNotFound n)
           else if cp_steps cp \<ge> max_steps then Some (StepsExceeded max_steps)
           else None))"

datatype 's graph_event =
    GraphComplete 's "step_event list"
  | GraphError terminal_error 's

record ('s, 'm, 'c, 'w) loop_setup =
  ls_env :: "('s, 'm, 'c, 'w) run_env"
  ls_clock :: "'w \<Rightarrow> (checkpoint_id \<times> nat) \<times> 'w"
  ls_barrier :: "'w \<Rightarrow> barrier_id \<Rightarrow> nat option \<Rightarrow> 'w \<times> barrier_outcome"
  ls_cancelled :: bool

definition loop_sinks ::
  "('s, 'm, 'c, 'w) loop_setup \<Rightarrow> trace_id \<Rightarrow> ('w, 'c) checkpoint_config option \<Rightarrow> ('s, 'w) sinks" where
  "loop_sinks su t config =
     \<lparr>sk_checkpoint = map_option (\<lambda>cfg. save_sink (ls_clock su) (re_ops (ls_env su)) cfg t) config,
      sk_barrier = Some (ls_barrier su)\<rparr>"

definition loop_start :: "'s \<Rightarrow> bool \<Rightarrow> 'w \<Rightarrow> ('s, 'm, 'k, 'w) run_state" where
  "loop_start s cancelled w =
     \<lparr>rs_engine = engine_new s None cancelled, rs_world = w, rs_occurrences = (\<lambda>_. 0), rs_log = []\<rparr>"

definition run_execution_loop ::
  "('s, 'm, 'c, 'w) loop_setup \<Rightarrow> ('s, 'm, 'k, 'w) graph \<Rightarrow> 's \<Rightarrow> nat \<Rightarrow> trace_id
   \<Rightarrow> ('w, 'c) checkpoint_config option \<Rightarrow> 'c checkpoint option \<Rightarrow> 'w \<Rightarrow> 's graph_event \<times> 'w" where
  "run_execution_loop su g s max_steps t config restore_from w =
     (let ops = re_ops (ls_env su);
          engine_state = (case restore_from of None \<Rightarrow> s | Some cp \<Rightarrow> op_restore ops (cp_state cp));
          start = (case restore_from of
                     None \<Rightarrow> Some (g_start g, 0)
                   | Some cp \<Rightarrow> map_option (\<lambda>n. (n, cp_steps cp)) (cp_next cp)) in
      case start of
        None \<Rightarrow> (GraphComplete engine_state [], w)
      | Some (start_node, steps_used) \<Rightarrow>
          (case run_inline_from (ls_env su) g (loop_sinks su t config) start_node steps_used max_steps
                  (loop_start engine_state (ls_cancelled su) w) of
             (None, rs) \<Rightarrow> (GraphComplete (eng_state (rs_engine rs)) (rs_log rs), rs_world rs)
           | (Some e, rs) \<Rightarrow> (GraphError e (eng_state (rs_engine rs)), rs_world rs)))"

section \<open>The entry points of the executor\<close>

definition execute_stream where
  "execute_stream su g s max_steps t w = run_execution_loop su g s max_steps t None None w"

definition execute_stream_with_checkpoint where
  "execute_stream_with_checkpoint su g s max_steps t cfg w =
     (case validate_persistable g of
        Some e \<Rightarrow> Inl e
      | None \<Rightarrow> Inr (run_execution_loop su g s max_steps t (Some cfg) None w))"

definition execute_stream_with_restore where
  "execute_stream_with_restore su g cp max_steps t cfg w =
     (case validate_persistable g of
        Some e \<Rightarrow> Inl e
      | None \<Rightarrow>
     (case validate_restore_checkpoint g cp max_steps of
        Some e \<Rightarrow> Inl e
      | None \<Rightarrow>
     (case check_restore_latest cfg t cp w of
        Some e \<Rightarrow> Inl e
      | None \<Rightarrow>
          Inr (run_execution_loop su g (op_restore (re_ops (ls_env su)) (cp_state cp)) max_steps t
                 (Some cfg) (Some cp) w))))"

section \<open>What one step leaves behind\<close>

lemma exec_leaf_ops_stream: "eng_stream e = None \<Longrightarrow> eng_stream (exec_leaf_ops ls e) = None"
  unfolding exec_leaf_ops_def
proof (induction ls arbitrary: e)
  case (Cons l ls)
  then show ?case by (cases l) auto
qed simp

lemma exec_node_ops_stream: "eng_stream e = None \<Longrightarrow> eng_stream (exec_node_ops ls e) = None"
  unfolding exec_node_ops_def
proof (induction ls arbitrary: e)
  case (Cons l ls)
  have "eng_stream (exec_node_op l e) = None"
  proof (cases l)
    case (Leaf x)
    with Cons.prems show ?thesis by (cases x) auto
  qed (use Cons.prems in simp)
  with Cons.IH show ?case by simp
qed simp

text \<open>
  A graph whose nodes leave the store part of the world alone; they may take identifiers from
  the generator, but do not give any back.
\<close>

definition keeps_store :: "('x \<Rightarrow> checkpoint_id set) \<Rightarrow> 'st \<times> 'x \<Rightarrow> 'st \<times> 'x \<Rightarrow> bool" where
  "keeps_store issued w w' \<longleftrightarrow> fst w' = fst w \<and> issued (snd w) \<subseteq> issued (snd w')"

fun node_store_blind :: "('x \<Rightarrow> checkpoint_id set) \<Rightarrow> ('s, 'm, 'k, 'st \<times> 'x) node_kind \<Rightarrow> bool" where
  "node_store_blind issued (Task f) \<longleftrightarrow> (\<forall>w s c. keeps_store issued w (fst (f w s c)))"
| "node_store_blind issued (External n) \<longleftrightarrow> (\<forall>w s c. keeps_store issued w (fst (fn_execute n w s c)))"
| "node_store_blind issued (ExternalLeaf f) \<longleftrightarrow> (\<forall>w s c. keeps_store issued w (fst (f w s c)))"
| "node_store_blind issued _ \<longleftrightarrow> True"

definition store_blind :: "('x \<Rightarrow> checkpoint_id set) \<Rightarrow> ('s, 'm, 'k, 'st \<times> 'x) graph \<Rightarrow> bool" where
  "store_blind issued g \<longleftrightarrow> list_all (\<lambda>(_, node). node_store_blind issued node) (g_nodes g)"

lemma keeps_store_refl [simp]: "keeps_store issued w w"
  by (simp add: keeps_store_def)

lemma run_node_fn_world:
  assumes "\<forall>w s c. keeps_store issued w (fst (f w s c))" and "run_node_fn f rs = (res, rs')"
  shows "keeps_store issued (rs_world rs) (rs_world rs')"
proof -
  obtain w ops err where f: "f (rs_world rs) (eng_state (rs_engine rs)) (eng_cancelled (rs_engine rs)) = (w, ops, err)"
    by (metis prod_cases3)
  have "keeps_store issued (rs_world rs) w"
    using assms(1) [rule_format, of "rs_world rs" "eng_state (rs_engine rs)" "eng_cancelled (rs_engine rs)"] f by simp
  with assms(2) show ?thesis by (auto simp: run_node_fn_def f)
qed

lemma run_leaf_fn_world:
  assumes "\<forall>w s c. keeps_store issued w (fst (f w s c))" and "run_leaf_fn f rs = (res, rs')"
  shows "keeps_store issued (rs_world rs) (rs_world rs')"
proof -
  obtain w ops err where f: "f (rs_world rs) (eng_state (rs_engine rs)) (eng_cancelled (rs_engine rs)) = (w, ops, err)"
    by (metis prod_cases3)
  have "keeps_store issued (rs_world rs) w"
    using assms(1) [rule_format, of "rs_world rs" "eng_state (rs_engine rs)" "eng_cancelled (rs_engine rs)"] f by simp
  with assms(2) show ?thesis by (auto simp: run_leaf_fn_def f)
qed

lemma exec_node_persistable:
  assumes "node_validate_persistable (c, node) = None" and "node_store_blind issued node"
    and "exec_node par c node rs = (res, rs')"
  shows "keeps_store issued (rs_world rs) (rs_world rs')"
    and "eng_stream (rs_engine rs) = None \<Longrightarrow> eng_stream (rs_engine rs') = None"
proof -
  show "keeps_store issued (rs_world rs) (rs_world rs')"
    using assms
    by (cases node) (auto simp: condition_execute_def simp del: split_paired_All
        dest: run_node_fn_world run_leaf_fn_world split: option.splits)
  show "eng_stream (rs_engine rs') = None" if "eng_stream (rs_engine rs) = None"
    using assms(1,3) that
    by (cases node) (auto simp: run_node_fn_def run_leaf_fn_def condition_execute_def exec_node_ops_stream
        exec_leaf_ops_stream split: prod.splits option.splits)
qed

lemma loop_step_saved:
  assumes persist: "validate_persistable g = None" and blind: "store_blind issued g"
    and sink: "sk_checkpoint sk = Some save" and stream: "eng_stream (rs_engine rs) = None"
    and step: "loop_step env par g sk c k mx rs = Continue n k' rs'"
  obtains w where "save w (eng_state (rs_engine rs')) \<lparr>fi_next_node = Some n, fi_step = k'\<rparr> = (rs_world rs', None)"
    and "keeps_store issued (rs_world rs) w" and "eng_stream (rs_engine rs') = None" and "k' = Suc k" and "k' \<le> mx"
    and "k' \<le> usize_max"
proof (cases rule: loop_step_cases [of env par g sk c k mx])
  case (ran node)
  obtain res rs1 where ex: "exec_node par c node (log_event (NodeStart c (Suc k)) rs) = (res, rs1)"
    by fastforce
  obtain action signal rs2 where ct:
    "commit_and_take env (log_event (NodeEnd c (Suc k) True) rs1) = ((action, signal), rs2)"
    by (metis prod.exhaust)
  obtain nxt rs3 where ro: "route g sk c node action signal rs2 = (nxt, rs3)" by fastforce
  have node: "node_validate_persistable (c, node) = None" "node_store_blind issued node"
    using persistable_node [OF persist ran(1)] blind map_of_SomeD [OF ran(1)]
    by (auto simp: store_blind_def list_all_iff)
  note frame = exec_node_persistable [OF node ex]
  have w2: "rs_world rs2 = rs_world rs1"
    using commit_and_take_simps(1) [of env "log_event (NodeEnd c (Suc k) True) rs1"] ct by simp
  have s2: "eng_stream (rs_engine rs2) = None"
    using frame(2) stream ct by (auto simp: commit_and_take_def take_control_def split: prod.splits)
  from step [unfolded loop_step_ran [OF ran ex ct ro]]
  have "res = None" and nxt: "nxt = Inr (Some n)" and k': "k' = Suc k"
    and save: "emit_checkpoint sk (Some n) (Suc k) rs3 = (None, rs')"
    by (auto split: option.splits sum.splits prod.splits)
  have "signal = None"
  proof (rule ccontr)
    assume "signal \<noteq> None"
    then obtain bid timeout where "signal = Some (PauseSignal bid timeout)"
      by (metis execution_signal.exhaust not_Some_eq)
    then show False
      using ro nxt node(1) by (cases node) (auto simp: route_def Let_def split: prod.splits sum.splits)
  qed
  then have rs3: "rs3 = rs2" using ro by (simp add: route_def)
  from save have "save (rs_world rs2) (eng_state (rs_engine rs')) \<lparr>fi_next_node = Some n, fi_step = k'\<rparr> = (rs_world rs', None)"
    and "rs_engine rs' = rs_engine rs2"
    using emit_checkpoint_engine [OF save] by (auto simp: emit_checkpoint_def sink rs3 k' split: prod.splits)
  with frame(1) w2 s2 k' ran(2,3) show ?thesis by (intro that [of "rs_world rs2"]) simp_all
qed (use step in simp_all)

section \<open>A restored run continues the interrupted one\<close>

fun resumes :: "step_event list \<Rightarrow> 's graph_event \<Rightarrow> 's graph_event \<Rightarrow> bool" where
  "resumes pre (GraphComplete s log) (GraphComplete s' log') \<longleftrightarrow> s = s' \<and> log = pre @ log'"
| "resumes pre (GraphError e s) (GraphError e' s') \<longleftrightarrow> e = e' \<and> s = s'"
| "resumes pre _ _ \<longleftrightarrow> False"

text \<open>
  What holds of a run over the in-memory store at a boundary: the store's latest checkpoint
  is this boundary, and the restore check accepts it.
\<close>

definition boundary_stored ::
  "('x \<Rightarrow> checkpoint_id set) \<Rightarrow> ('s, 'm, 'c) workflow_ops \<Rightarrow> 'c serde_fns \<Rightarrow> (memory_store \<times> 'x, 'c) checkpoint_config \<Rightarrow> trace_id
   \<Rightarrow> string \<Rightarrow> nat \<Rightarrow> ('s, 'm, 'k, memory_store \<times> 'x) run_state \<Rightarrow> bool" where
  "boundary_stored issued ops sd cfg t n k rs \<longleftrightarrow>
     memory_inv (fst (rs_world rs)) \<and> ids_issued issued (rs_world rs) \<and> eng_stream (rs_engine rs) = None
     \<and> (\<exists>i now cp. cp = checkpoint_new ops i now (Some n) (eng_state (rs_engine rs)) (cc_hash cfg) k
          \<and> typed_load_latest (lift_store memory_ops) sd t (cc_hash cfg) (rs_world rs) = Inr (Some cp)
          \<and> check_restore_latest cfg t cp (rs_world rs) = None)"

lemma save_sink_None:
  "save_sink clock ops cfg t w s frame = (w', None) \<Longrightarrow> on_checkpoint clock ops cfg t s frame w = (Inr (), w')"
  by (auto simp: save_sink_def split: prod.splits sum.splits)

lemma loop_step_stored:
  fixes rs :: "('s, 'm, 'k, memory_store \<times> 'x) run_state" and cfg :: "(memory_store \<times> 'x, 'c) checkpoint_config"
  assumes laws: "checkpoint_serde sd (\<lambda>_. True)" and clock: "unique_ids clock issued"
    and persist: "validate_persistable g = None" and blind: "store_blind issued g"
    and sink: "sk_checkpoint sk = Some (save_sink clock ops cfg t)"
    and cfg: "cfg = config_with_retention r (config_for_store (lift_store memory_ops) sd h)"
    and inv: "memory_inv (fst (rs_world rs))" and known: "ids_issued issued (rs_world rs)"
    and stream: "eng_stream (rs_engine rs) = None"
    and step: "loop_step env par g sk c k mx rs = Continue n k' rs'"
  shows "boundary_stored issued ops sd cfg t n k' rs'"
proof -
  obtain w where save: "save_sink clock ops cfg t w (eng_state (rs_engine rs'))
        \<lparr>fi_next_node = Some n, fi_step = k'\<rparr> = (rs_world rs', None)"
    and w: "keeps_store issued (rs_world rs) w" and str: "eng_stream (rs_engine rs') = None" and k': "k' \<le> usize_max"
    using loop_step_saved [OF persist blind sink stream step] by metis
  have small: "fi_step \<lparr>fi_next_node = Some n, fi_step = k'\<rparr> < 2 ^ 64"
    using k' by (simp add: usize_max_def)
  have inv': "memory_inv (fst w)" using inv w by (simp add: keeps_store_def)
  have "ids_issued issued w" using known w by (auto simp: keeps_store_def ids_issued_def)
  then have known': "bl_id ` set (memory_hist (fst w) t) \<subseteq> issued (snd w)" for t
    using ids_issued_hist [OF inv'] by blast
  have h: "cc_hash cfg = h" by (simp add: cfg config_with_retention_def config_for_store_def)
  show ?thesis
    using checkpointing.on_checkpoint_recoverable [OF memory_checkpointing [OF laws clock] inv' known' small TrueI cfg
        save_sink_None [OF save]]
    unfolding boundary_stored_def h by (auto simp: str ids_issued_hist)
qed

lemma boundary_stored:
  fixes rs0 :: "('s, 'm, 'k, memory_store \<times> 'x) run_state" and cfg :: "(memory_store \<times> 'x, 'c) checkpoint_config"
  assumes laws: "checkpoint_serde sd (\<lambda>_. True)" and clock: "unique_ids clock issued"
    and persist: "validate_persistable g = None" and blind: "store_blind issued g"
    and sink: "sk_checkpoint sk = Some (save_sink clock ops cfg t)"
    and cfg: "cfg = config_with_retention r (config_for_store (lift_store memory_ops) sd h)"
    and b: "boundary env par g sk mx (c, k0, rs0) (n, k, rs1)"
    and inv: "memory_inv (fst (rs_world rs0))" and known: "ids_issued issued (rs_world rs0)"
    and stream: "eng_stream (rs_engine rs0) = None"
  shows "boundary_stored issued ops sd cfg t n k rs1"
  using b inv known stream
proof (induction "(c, k0, rs0)" "(n, k, rs1)" arbitrary: n k rs1 rule: boundary.induct)
  case (first n k' rs')
  then show ?case by (intro loop_step_stored [OF laws clock persist blind sink cfg])
next
  case (next_boundary c k rs n k' rs')
  then show ?case
    by (intro loop_step_stored [OF laws clock persist blind sink cfg _ _ _ next_boundary(3)])
      (simp_all add: boundary_stored_def)
qed

lemma boundary_alike:
  assumes "boundary env par g sk mx cfg (n, k, rs1)"
    and "eng_stream (rs_engine rs1) = None" and "eng_cancelled (rs_engine rs1) = cancelled"
  shows "alike (rs_log rs1) rs1 (loop_start (eng_state (rs_engine rs1)) cancelled (rs_world rs1))"
  using boundary_clean [OF assms(1)] assms(2,3)
  by (simp add: alike_def' engine_alike_def loop_start_def clean_def)

lemma validate_saved:
  "cp = checkpoint_new ops i now (Some n) s (g_canonical_hash g) k \<Longrightarrow> has_node g n \<Longrightarrow> k < mx \<Longrightarrow>
     validate_restore_checkpoint g cp mx = None"
  by (auto simp: validate_restore_checkpoint_def checkpoint_new_def has_node_def hm_contains_iff)


text \<open>A graph of two nodes that both add one, over a counter.\<close>

definition counter_ops :: "(nat, nat, nat) workflow_ops" where
  "counter_ops = \<lparr>op_apply = (+), op_snapshot = (\<lambda>s. s), op_restore = (\<lambda>c. c)\<rparr>"

definition counter_graph :: "(nat, nat, unit, memory_store \<times> nat) graph" where
  "counter_graph =
     \<lparr>g_name = ''counter'',
      g_nodes = [(''a'', ExternalLeaf (\<lambda>w s c. (w, [Record 1], None))),
                 (''b'', ExternalLeaf (\<lambda>w s c. (w, [Record 1], None)))],
      g_edges = [\<lparr>e_from = ''a'', e_to = ''b'', e_condition = None, e_analysis = None, e_fallback = False\<rparr>],
      g_start = ''a'', g_end = ''b'', g_canonical_hash = 5\<rparr>"

definition counter_serde :: "nat serde_fns" where
  "counter_serde =
     \<lparr>sd_text = sd_text state_serde, sd_parse = sd_parse state_serde,
      sd_state = (\<lambda>n. Inr (JInt (int n))),
      sd_of_state = (\<lambda>v. case v of JInt i \<Rightarrow> Inr (nat i) | _ \<Rightarrow> Inl ''invalid type''),
      sd_id = sd_id state_serde, sd_of_id = sd_of_id state_serde\<rparr>"

definition counter_setup :: "(nat, nat, nat, memory_store \<times> nat) loop_setup" where
  "counter_setup =
     \<lparr>ls_env = \<lparr>re_ops = counter_ops, re_schedule = (\<lambda>w n. [0..<n])\<rparr>, ls_clock = counting_clock,
      ls_barrier = (\<lambda>w b t. (w, Cancelled)), ls_cancelled = False\<rparr>"

definition counter_config :: "(memory_store \<times> nat, nat) checkpoint_config" where
  "counter_config = config_with_retention (KeepLatest 1) (config_for_store (lift_store memory_ops) counter_serde 5)"

lemma counter_first_step:
  "\<exists>rs1. loop_step (ls_env counter_setup) par counter_graph (loop_sinks counter_setup ''t'' (Some counter_config)) ''a'' 0 10
     (loop_start 0 False (memory_new, 0)) = Continue ''b'' 1 rs1 \<and> eng_cancelled (rs_engine rs1) = False"
proof -
  have one: "usize_checked_add 0 (Suc 0) = Some (Suc 0)" by (simp add: usize_max_def)
  show ?thesis
  by (simp add: loop_step_def one counter_setup_def counter_graph_def usize_max_def run_leaf_fn_def loop_start_def
      exec_leaf_ops_def commit_and_take_def take_control_def control_take_def control_new_def route_def
      resolve_next_opt_def resolve_next_inline_def resolve_next_def edges_from_def edge_fires_def is_normal_def
      emit_checkpoint_def loop_sinks_def counter_config_def config_with_retention_def config_for_store_def
      save_sink_def on_checkpoint_def counting_clock_def codec_serialize_def checkpoint_to_value_def counter_serde_def
      lift_store_def memory_ops_def memory_save_def checkpoint_new_def is_conditional_def log_event_def ok_or_def)
qed


end
