(* ===== verification/Graph_Analysis.thy ===== *)
theory Graph_Analysis
  imports Graph_Core Text
begin

text \<open>
  The static analysis of a graph (\<open>graph/graph_analysis.rs\<close>): the enumeration of cycles
  by a depth-first search from every node, the cycles without a visit bound, the nodes no
  edge path reaches, and the report built from them. Arrows in the messages are written
  as the bytes of their
  UTF-8 form, like the other characters outside ASCII.

  The search and the worklist loop are recursive functions whose measures count the
  edge targets that are not yet on the path, or not yet visited.
\<close>

section \<open>The characters outside ASCII\<close>

definition arrow :: string where
  "arrow = '' '' @ map char_of [226 :: nat, 134, 146] @ '' ''"

definition em_dash :: string where
  "em_dash = '' '' @ map char_of [226 :: nat, 128, 148] @ '' ''"

definition warning_sign :: string where
  "warning_sign = map char_of [226 :: nat, 154, 160, 239, 184, 143] @ '' ''"

definition check_mark :: string where
  "check_mark = map char_of [226 :: nat, 156, 133] @ '' ''"

section \<open>Adjacency\<close>

type_synonym adjacency = "(string, string list) hashmap"

definition adj_add :: "adjacency \<Rightarrow> 's edge \<Rightarrow> adjacency" where
  "adj_add adj e =
     hm_insert (e_from e) ((case hm_get adj (e_from e) of None \<Rightarrow> [] | Some ts \<Rightarrow> ts) @ [e_to e]) adj"

definition build_adj :: "('s, 'm, 'k, 'w) graph \<Rightarrow> adjacency" where
  "build_adj g = foldl adj_add [] (g_edges g)"

definition neighbors :: "adjacency \<Rightarrow> string \<Rightarrow> string list" where
  "neighbors adj n = (case hm_get adj n of None \<Rightarrow> [] | Some ts \<Rightarrow> ts)"

definition targets :: "adjacency \<Rightarrow> string set" where
  "targets adj = (\<Union>(_, ts) \<in> set adj. set ts)"

lemma finite_targets [simp]: "finite (targets adj)"
  by (auto simp: targets_def)

lemma neighbors_targets: "set (neighbors adj n) \<subseteq> targets adj"
proof (cases "hm_get adj n")
  case None
  then show ?thesis by (simp add: neighbors_def)
next
  case (Some ts)
  from map_of_SomeD [OF Some] have "set ts \<subseteq> targets adj" unfolding targets_def by blast
  with Some show ?thesis by (simp add: neighbors_def)
qed

lemma neighbors_foldl:
  "neighbors (foldl adj_add adj es) n = neighbors adj n @ map e_to (filter (\<lambda>e. e_from e = n) es)"
  by (induction es arbitrary: adj) (auto simp: adj_add_def neighbors_def)

lemma neighbors_build_adj [simp]: "neighbors (build_adj g) n = map e_to (edges_from g n)"
  by (simp add: build_adj_def neighbors_foldl edges_from_def) (simp add: neighbors_def)

section \<open>The cycle search\<close>

lemma card_shrinks:
  assumes "current \<notin> set path"
  shows "card ((targets adj \<union> set (neighbors adj current)) - set (path @ [current]))
    < card (insert current (targets adj) - set path)"
proof (rule psubset_card_mono)
  show "finite (insert current (targets adj) - set path)" by simp
  show "(targets adj \<union> set (neighbors adj current)) - set (path @ [current])
      \<subset> insert current (targets adj) - set path"
    using assms neighbors_targets [of adj current] by auto
qed

text \<open>
  \<open>in_path\<close> of the source is the set of the elements of \<open>path\<close>; the cycles found are
  returned in the order the source pushes them.
\<close>

function (sequential)
  dfs_cycles :: "adjacency \<Rightarrow> string \<Rightarrow> string \<Rightarrow> string list \<Rightarrow> string list list" and
  dfs_neighbors :: "adjacency \<Rightarrow> string \<Rightarrow> string list \<Rightarrow> string list \<Rightarrow> string list list" where
  "dfs_cycles adj start current path =
     (if current \<in> set path then []
      else dfs_neighbors adj start (path @ [current]) (neighbors adj current))"
| "dfs_neighbors adj start path [] = []"
| "dfs_neighbors adj start path (n # ns) =
     (if n = start \<and> length path \<ge> 2 then [path]
      else if start < n \<and> n \<notin> set path then dfs_cycles adj start n path
      else []) @ dfs_neighbors adj start path ns"
  by pat_completeness auto

termination
proof (relation "measures
    [case_sum (\<lambda>(adj, start, current, path). card (insert current (targets adj) - set path))
       (\<lambda>(adj, start, path, ns). card ((targets adj \<union> set ns) - set path)),
     case_sum (\<lambda>_. 0) (\<lambda>(adj, start, path, ns). Suc (length ns))]", goal_cases)
  case 1
  then show ?case by simp
next
  case (2 adj start current path)
  then show ?case using card_shrinks [OF 2] by simp
next
  case (3 adj start path n ns)
  have "card (insert n (targets adj) - set path) \<le> card ((targets adj \<union> set (n # ns)) - set path)"
    by (intro card_mono) auto
  then show ?case by auto
next
  case (4 adj start path n ns)
  have "card ((targets adj \<union> set ns) - set path) \<le> card ((targets adj \<union> set (n # ns)) - set path)"
    by (intro card_mono) auto
  then show ?case by auto
qed

declare dfs_cycles.simps [simp del]

definition find_all_cycles :: "('s, 'm, 'k, 'w) graph \<Rightarrow> string list list" where
  "find_all_cycles g = concat (map (\<lambda>n. dfs_cycles (build_adj g) n n []) (hm_keys (g_nodes g)))"

section \<open>Protected cycles\<close>

definition is_protected :: "'s edge \<Rightarrow> bool" where
  "is_protected e = (case e_analysis e of None \<Rightarrow> False | Some a \<Rightarrow> max_visits a \<noteq> None)"

definition cycle_edges :: "string list \<Rightarrow> (string \<times> string) list" where
  "cycle_edges c = map (\<lambda>i. (c ! i, c ! ((i + 1) mod length c))) [0..<length c]"

definition has_protection :: "('s, 'm, 'k, 'w) graph \<Rightarrow> string list \<Rightarrow> bool" where
  "has_protection g c =
     list_ex (\<lambda>(a, b). list_ex (\<lambda>e. e_from e = a \<and> e_to e = b \<and> is_protected e) (g_edges g)) (cycle_edges c)"

definition filter_unprotected_cycles :: "('s, 'm, 'k, 'w) graph \<Rightarrow> string list list \<Rightarrow> string list list" where
  "filter_unprotected_cycles g cycles = remdups_adj (sort (filter (\<lambda>c. \<not> has_protection g c) cycles))"

record cycle_analysis =
  ca_has_cycles :: bool
  ca_cycles :: "string list list"
  ca_unprotected :: "string list list"
  ca_total_edges :: nat
  ca_protected_edges :: nat

definition analyze_cycles :: "('s, 'm, 'k, 'w) graph \<Rightarrow> cycle_analysis" where
  "analyze_cycles g =
     (let cycles = find_all_cycles g in
      \<lparr>ca_has_cycles = cycles \<noteq> [], ca_cycles = cycles,
       ca_unprotected = filter_unprotected_cycles g cycles,
       ca_total_edges = length (g_edges g),
       ca_protected_edges = length (filter is_protected (g_edges g))\<rparr>)"

definition all_protected :: "cycle_analysis \<Rightarrow> bool" where
  "all_protected ca = (ca_unprotected ca = [])"

fun number_cycles :: "cycle_analysis \<Rightarrow> nat \<Rightarrow> string list list \<Rightarrow> string list" where
  "number_cycles ca i [] = []"
| "number_cycles ca i (c # cs) =
     [''  Cycle '' @ show_nat i @ '': '' @ join arrow c @ arrow @ hd c,
      (if c \<in> set (ca_unprotected ca) then ''    '' @ warning_sign @ ''UNPROTECTED'' @ em_dash @ ''no max_visits on back-edge''
       else ''    '' @ check_mark @ ''Protected by edge-level analysis'')] @ number_cycles ca (Suc i) cs"

definition cycle_report :: "cycle_analysis \<Rightarrow> string" where
  "cycle_report ca =
     join ''\<newline>'' (''=== Graph Cycle Analysis ==='' #
       (if \<not> ca_has_cycles ca then [''No cycles detected'' @ em_dash @ ''graph is a DAG.'']
        else [''Found '' @ show_nat (length (ca_cycles ca)) @ '' cycle(s).'',
              ''Edge protection: '' @ show_nat (ca_protected_edges ca) @ ''/'' @ show_nat (ca_total_edges ca)
                @ '' edges have analysis set.'']
             @ number_cycles ca 1 (ca_cycles ca)
             @ (if all_protected ca then []
                else ['''', warning_sign @ ''Recommendation: Set analysis.max_visits on back-edges.''])))"

section \<open>Reachability\<close>

fun visit_all :: "string list \<Rightarrow> string list \<Rightarrow> string list \<Rightarrow> string list \<times> string list" where
  "visit_all [] visited queue = (visited, queue)"
| "visit_all (n # ns) visited queue =
     (if n \<in> set visited then visit_all ns visited queue
      else visit_all ns (visited @ [n]) (queue @ [n]))"

lemma visit_all_eq:
  "visit_all ns visited queue = (visited', queue') \<Longrightarrow>
     set visited' = set visited \<union> set ns \<and> (\<exists>new. queue' = queue @ new \<and> visited' = visited @ new
       \<and> set new \<subseteq> set ns \<and> set new \<inter> set visited = {})"
proof (induction ns arbitrary: visited queue)
  case (Cons n ns)
  show ?case
  proof (cases "n \<in> set visited")
    case True
    with Cons.prems Cons.IH [of visited queue] show ?thesis by auto
  next
    case False
    with Cons.prems Cons.IH [of "visited @ [n]" "queue @ [n]"] obtain new where
      "queue' = (queue @ [n]) @ new" "visited' = (visited @ [n]) @ new" "set new \<subseteq> set ns"
      "set new \<inter> set (visited @ [n]) = {}" "set visited' = set (visited @ [n]) \<union> set ns" by auto
    with False show ?thesis by (auto intro!: exI [of _ "n # new"])
  qed
qed simp

text \<open>The loop pops from the end of the queue.\<close>

function reach_loop :: "adjacency \<Rightarrow> string list \<Rightarrow> string list \<Rightarrow> string list" where
  "reach_loop adj visited queue =
     (if queue = [] then visited
      else case visit_all (neighbors adj (last queue)) visited (butlast queue) of
             (visited', queue') \<Rightarrow> reach_loop adj visited' queue')"
  by pat_completeness auto
termination
proof (relation "measures
    [\<lambda>(adj, visited, queue). card (targets adj - set visited), \<lambda>(adj, visited, queue). length queue]", goal_cases)
  case 1
  then show ?case by simp
next
  case (2 adj visited queue visited' queue')
  then have eq: "visit_all (neighbors adj (last queue)) visited (butlast queue) = (visited', queue')" by simp
  from visit_all_eq [OF eq] obtain new where new: "queue' = butlast queue @ new" "visited' = visited @ new"
    "set new \<subseteq> set (neighbors adj (last queue))" "set new \<inter> set visited = {}" by auto
  show ?case
  proof (cases new)
    case Nil
    with new eq 2(1) show ?thesis by (simp add: length_butlast)
  next
    case (Cons a as)
    with new neighbors_targets [of adj "last queue"]
    have "targets adj - set visited' \<subset> targets adj - set visited" by auto
    then have "card (targets adj - set visited') < card (targets adj - set visited)"
      by (intro psubset_card_mono) auto
    with eq show ?thesis by simp
  qed
qed

declare reach_loop.simps [simp del]

definition reached_nodes :: "('s, 'm, 'k, 'w) graph \<Rightarrow> string list" where
  "reached_nodes g = reach_loop (build_adj g) [g_start g] [g_start g]"


section \<open>Diagnostics\<close>

datatype diagnostic_severity = Info | Warning

datatype diagnostic_category =
  CycleFound | FallbackInCycle | Unreachable | ConditionOverlap | EndNodeOutgoing | OtherCategory

record diagnostic =
  d_severity :: diagnostic_severity
  d_category :: diagnostic_category
  d_message :: string

record graph_diagnostics =
  gd_warnings :: "diagnostic list"
  gd_infos :: "diagnostic list"

definition no_diagnostics :: graph_diagnostics where
  "no_diagnostics = \<lparr>gd_warnings = [], gd_infos = []\<rparr>"

definition add_warning :: "diagnostic_category \<Rightarrow> string \<Rightarrow> graph_diagnostics \<Rightarrow> graph_diagnostics" where
  "add_warning c msg d = d\<lparr>gd_warnings := gd_warnings d @ [\<lparr>d_severity = Warning, d_category = c, d_message = msg\<rparr>]\<rparr>"

definition add_info :: "diagnostic_category \<Rightarrow> string \<Rightarrow> graph_diagnostics \<Rightarrow> graph_diagnostics" where
  "add_info c msg d = d\<lparr>gd_infos := gd_infos d @ [\<lparr>d_severity = Info, d_category = c, d_message = msg\<rparr>]\<rparr>"

definition diagnostics_is_empty :: "graph_diagnostics \<Rightarrow> bool" where
  "diagnostics_is_empty d \<longleftrightarrow> gd_warnings d = [] \<and> gd_infos d = []"

definition has_warnings :: "graph_diagnostics \<Rightarrow> bool" where
  "has_warnings d \<longleftrightarrow> gd_warnings d \<noteq> []"

fun show_severity :: "diagnostic_severity \<Rightarrow> string" where
  "show_severity Info = ''info''"
| "show_severity Warning = ''warning''"

fun show_category :: "diagnostic_category \<Rightarrow> string" where
  "show_category CycleFound = ''cycle''"
| "show_category FallbackInCycle = ''fallback-in-cycle''"
| "show_category Unreachable = ''unreachable''"
| "show_category ConditionOverlap = ''condition-overlap''"
| "show_category EndNodeOutgoing = ''end-node-outgoing''"
| "show_category OtherCategory = ''other''"

definition show_diagnostic :: "diagnostic \<Rightarrow> string" where
  "show_diagnostic d =
     ''['' @ show_severity (d_severity d) @ ''] ('' @ show_category (d_category d) @ ''): '' @ d_message d"

definition show_diagnostics :: "graph_diagnostics \<Rightarrow> string" where
  "show_diagnostics d =
     (if gd_warnings d = [] then []
      else show_nat (length (gd_warnings d)) @ '' warning(s):'' @ ''\<newline>''
        @ concat (map (\<lambda>w. ''  - '' @ show_diagnostic w @ ''\<newline>'') (gd_warnings d)))
     @ (if gd_infos d = [] then []
      else show_nat (length (gd_infos d)) @ '' info(s):'' @ ''\<newline>''
        @ concat (map (\<lambda>w. ''  - '' @ show_diagnostic w @ ''\<newline>'') (gd_infos d)))
     @ (if diagnostics_is_empty d then ''no issues found'' else [])"

section \<open>Graph::analyze\<close>

definition format_cycle :: "string list \<Rightarrow> string" where
  "format_cycle c = join arrow c"

definition closed_cycle :: "string list \<Rightarrow> string" where
  "closed_cycle c = format_cycle c @ arrow @ hd c"

definition report_cycles ::
  "('s, 'm, 'k, 'w) graph \<Rightarrow> string list list \<Rightarrow> graph_diagnostics \<Rightarrow> graph_diagnostics" where
  "report_cycles g cycles d =
     (if cycles = [] then d
      else
        let unprotected = filter_unprotected_cycles g cycles;
            d1 = foldl (\<lambda>d c. add_warning CycleFound (''cycle detected: '' @ closed_cycle c) d) d unprotected
        in foldl (\<lambda>d c. if c \<in> set unprotected then d
                        else add_info CycleFound (''protected cycle: '' @ closed_cycle c @ '' (has max_visits)'') d)
             d1 cycles)"

definition fallback_edges :: "('s, 'm, 'k, 'w) graph \<Rightarrow> (string \<times> string) list" where
  "fallback_edges g = map (\<lambda>e. (e_from e, e_to e)) (filter e_fallback (g_edges g))"

definition check_fallback_in_cycles ::
  "('s, 'm, 'k, 'w) graph \<Rightarrow> string list list \<Rightarrow> graph_diagnostics \<Rightarrow> graph_diagnostics" where
  "check_fallback_in_cycles g cycles d =
     (if fallback_edges g = [] then d
      else foldl (\<lambda>d c.
             foldl (\<lambda>d (a, b).
               if (a, b) \<in> set (fallback_edges g)
               then add_warning FallbackInCycle
                 (''fallback edge '' @ a @ arrow @ b @ '' participates in cycle: '' @ closed_cycle c) d
               else d) d (cycle_edges c)) d cycles)"

definition unreachable_message :: "('s, 'm, 'k, 'w) graph \<Rightarrow> string \<Rightarrow> string" where
  "unreachable_message g n =
     ''node '' @ [CHR 0x27] @ n @ [CHR 0x27] @ '' is not reachable from start node '' @ [CHR 0x27]
       @ g_start g @ [CHR 0x27]"

definition check_unreachable_nodes ::
  "('s, 'm, 'k, 'w) graph \<Rightarrow> graph_diagnostics \<Rightarrow> graph_diagnostics" where
  "check_unreachable_nodes g d =
     foldl (\<lambda>d n.
       if n \<in> set (reached_nodes g) then d
       else add_info Unreachable (unreachable_message g n) d)
       d (hm_keys (g_nodes g))"

text \<open>
  The list of targets is printed with \<open>Debug\<close>: the names in double quotes, with the escapes
  of the quote, the backslash and the three white-space controls (names with other
  control characters would get Unicode escapes; those are kept as they are here).
\<close>

fun debug_char :: "char \<Rightarrow> string" where
  "debug_char c =
     (if c = CHR 0x22 \<or> c = CHR 0x5C then [CHR 0x5C, c]
      else if c = CHR 0x0A then [CHR 0x5C, CHR ''n'']
      else if c = CHR 0x0D then [CHR 0x5C, CHR ''r'']
      else if c = CHR 0x09 then [CHR 0x5C, CHR ''t'']
      else [c])"

definition debug_str :: "string \<Rightarrow> string" where
  "debug_str s = [CHR 0x22] @ concat (map debug_char s) @ [CHR 0x22]"

definition check_end_node_outgoing ::
  "('s, 'm, 'k, 'w) graph \<Rightarrow> graph_diagnostics \<Rightarrow> graph_diagnostics" where
  "check_end_node_outgoing g d =
     (let outgoing = edges_from g (g_end g) in
      if outgoing = [] then d
      else add_info EndNodeOutgoing
        (''end node '' @ [CHR 0x27] @ g_end g @ [CHR 0x27] @ '' has '' @ show_nat (length outgoing)
          @ '' outgoing edge(s) to: ['' @ join '', '' (map (\<lambda>e. debug_str (e_to e)) outgoing) @ '']'') d)"

definition analyze_graph :: "('s, 'm, 'k, 'w) graph \<Rightarrow> graph_diagnostics" where
  "analyze_graph g =
     (let cycles = find_all_cycles g in
      check_end_node_outgoing g
        (check_unreachable_nodes g
          (check_fallback_in_cycles g cycles (report_cycles g cycles no_diagnostics))))"

section \<open>The cycles found\<close>

text \<open>
  A walk is a list of nodes each of which has an edge to the next one. What the search from
  \<open>start\<close> adds to the path it already has is a walk over larger nodes that leads back to
  \<open>start\<close>.
\<close>

fun walk :: "adjacency \<Rightarrow> string list \<Rightarrow> bool" where
  "walk adj (x # y # xs) \<longleftrightarrow> y \<in> set (neighbors adj x) \<and> walk adj (y # xs)"
| "walk adj _ \<longleftrightarrow> True"

definition completes :: "adjacency \<Rightarrow> string \<Rightarrow> string list \<Rightarrow> string list \<Rightarrow> bool" where
  "completes adj start path p \<longleftrightarrow>
     p \<noteq> [] \<and> distinct (path @ p) \<and> walk adj p \<and> (\<forall>x\<in>set (tl p). start < x)
     \<and> start \<in> set (neighbors adj (last p)) \<and> 2 \<le> length (path @ p)"

lemma walk_Cons: "walk adj (x # p) \<longleftrightarrow> p = [] \<or> (hd p \<in> set (neighbors adj x) \<and> walk adj p)"
  by (cases p) auto

lemma completes_Cons:
  "completes adj start path (x # p) \<longleftrightarrow> x \<notin> set path \<and>
     (if p = [] then distinct path \<and> start \<in> set (neighbors adj x) \<and> 1 \<le> length path
      else completes adj start (path @ [x]) p \<and> hd p \<in> set (neighbors adj x) \<and> start < hd p)"
  by (cases p) (auto simp: completes_def walk_Cons)

lemma completes_notin: "completes adj start path p \<Longrightarrow> hd p \<notin> set path"
  by (cases p) (auto simp: completes_def)

lemma dfs_set:
  "distinct path \<Longrightarrow>
     set (dfs_cycles adj start cur path) = {path @ p | p. completes adj start path p \<and> hd p = cur}"
  "distinct path \<Longrightarrow>
     set (dfs_neighbors adj start path ns) =
       {p. p = path \<and> start \<in> set ns \<and> 2 \<le> length path}
       \<union> {path @ p | p. completes adj start path p \<and> hd p \<in> set ns \<and> start < hd p}"
proof (induction adj start cur path and adj start path ns rule: dfs_cycles_dfs_neighbors.induct)
  case (1 adj start cur path)
  show ?case
  proof (cases "cur \<in> set path")
    case True
    then show ?thesis using completes_notin by (auto simp: dfs_cycles.simps)
  next
    case False
    let ?ns = "neighbors adj cur"
    let ?more = "{(path @ [cur]) @ p | p. completes adj start (path @ [cur]) p \<and> hd p \<in> set ?ns \<and> start < hd p}"
    have ih: "set (dfs_neighbors adj start (path @ [cur]) ?ns) =
        {p. p = path @ [cur] \<and> start \<in> set ?ns \<and> 2 \<le> length (path @ [cur])} \<union> ?more"
      using 1 False by simp
    have ne: "completes adj start (path @ [cur]) p \<Longrightarrow> p \<noteq> []" for p
      by (simp add: completes_def)
    have step: "completes adj start path (cur # p) \<longleftrightarrow>
        (p = [] \<and> start \<in> set ?ns \<and> 2 \<le> length (path @ [cur])) \<or>
        (completes adj start (path @ [cur]) p \<and> hd p \<in> set ?ns \<and> start < hd p)" for p
      using False 1 ne [of p] by (auto simp: completes_Cons)
    have member: "q \<in> {path @ p | p. completes adj start path p \<and> hd p = cur}
        \<longleftrightarrow> (\<exists>p. q = path @ cur # p \<and> completes adj start path (cur # p))" for q
    proof
      assume "q \<in> {path @ p | p. completes adj start path p \<and> hd p = cur}"
      then obtain p where p: "q = path @ p" "completes adj start path p" "hd p = cur" by blast
      then have "p = cur # tl p" by (cases p) (auto simp: completes_def)
      with p show "\<exists>p. q = path @ cur # p \<and> completes adj start path (cur # p)" by metis
    next
      assume "\<exists>p. q = path @ cur # p \<and> completes adj start path (cur # p)"
      then obtain p where "q = path @ cur # p" "completes adj start path (cur # p)" by blast
      then show "q \<in> {path @ p | p. completes adj start path p \<and> hd p = cur}"
        by (intro CollectI exI [of _ "cur # p"]) simp
    qed
    have "q \<in> set (dfs_neighbors adj start (path @ [cur]) ?ns)
        \<longleftrightarrow> q \<in> {path @ p | p. completes adj start path p \<and> hd p = cur}" for q
      unfolding member ih step by (simp only: append.simps append_assoc) blast
    then have "set (dfs_neighbors adj start (path @ [cur]) ?ns)
        = {path @ p | p. completes adj start path p \<and> hd p = cur}" by (intro set_eqI)
    with False show ?thesis by (simp only: dfs_cycles.simps if_False)
  qed
next
  case (2 adj start path)
  then show ?case by simp
next
  case (3 adj start path n ns)
  consider (close) "n = start" "2 \<le> length path" | (step) "start < n" "n \<notin> set path"
    | (skip) "\<not> (n = start \<and> 2 \<le> length path)" "\<not> (start < n \<and> n \<notin> set path)" by blast
  then show ?case
  proof cases
    case close
    with 3 show ?thesis by auto
  next
    case step
    with 3 show ?thesis by auto
  next
    case skip
    with 3 completes_notin [of adj start path] show ?thesis by auto
  qed
qed

lemma walk_nth: "walk adj p \<longleftrightarrow> (\<forall>i. Suc i < length p \<longrightarrow> p ! Suc i \<in> set (neighbors adj (p ! i)))"
proof (induction p)
  case (Cons x p)
  then show ?case
    by (cases p) (auto simp: nth_Cons split: nat.splits)
qed simp

definition has_edge :: "('s, 'm, 'k, 'w) graph \<Rightarrow> string \<times> string \<Rightarrow> bool" where
  "has_edge g ab \<longleftrightarrow> list_ex (\<lambda>e. (e_from e, e_to e) = ab) (g_edges g)"

definition elementary_cycle :: "('s, 'm, 'k, 'w) graph \<Rightarrow> string list \<Rightarrow> bool" where
  "elementary_cycle g c \<longleftrightarrow> 2 \<le> length c \<and> distinct c \<and> list_all (has_edge g) (cycle_edges c)"

definition least_first :: "string list \<Rightarrow> bool" where
  "least_first c \<longleftrightarrow> list_all ((<) (hd c)) (tl c)"

lemma has_edge_neighbors: "has_edge g (a, b) \<longleftrightarrow> b \<in> set (neighbors (build_adj g) a)"
  by (auto simp: has_edge_def edges_from_def list_ex_iff)

lemma closed_walk_nth:
  assumes "c \<noteq> []"
  shows "list_all (\<lambda>(a, b). b \<in> set (neighbors adj a)) (cycle_edges c)
    \<longleftrightarrow> walk adj c \<and> hd c \<in> set (neighbors adj (last c))" (is "?L \<longleftrightarrow> ?R")
proof -
  let ?n = "length c"
  have L: "?L \<longleftrightarrow> (\<forall>i < ?n. c ! ((i + 1) mod ?n) \<in> set (neighbors adj (c ! i)))"
    by (auto simp: cycle_edges_def list_all_iff)
  have split: "(\<forall>i < ?n. Q i) \<longleftrightarrow> (\<forall>i. Suc i < ?n \<longrightarrow> Q i) \<and> Q (?n - 1)" for Q
    using assms by (metis Suc_lessI Suc_lessD diff_Suc_1 diff_less length_greater_0_conv zero_less_one)
  show ?thesis unfolding L split walk_nth
    using assms by (simp add: last_conv_nth hd_conv_nth)
qed

lemma elementary_cycle_walk:
  "elementary_cycle g c \<longleftrightarrow> 2 \<le> length c \<and> distinct c \<and> walk (build_adj g) c
     \<and> hd c \<in> set (neighbors (build_adj g) (last c))"
  using closed_walk_nth [of c "build_adj g"] has_edge_neighbors [of g]
  by (cases "c = []") (auto simp: elementary_cycle_def list_all_iff simp del: neighbors_build_adj)

lemma find_all_cycles_set:
  "set (find_all_cycles g) = {c. elementary_cycle g c \<and> least_first c \<and> hd c \<in> set (hm_keys (g_nodes g))}"
proof -
  have "completes (build_adj g) n [] c \<and> hd c = n \<longleftrightarrow> elementary_cycle g c \<and> least_first c \<and> hd c = n" for n c
    by (cases c) (auto simp: completes_def elementary_cycle_walk least_first_def list_all_iff
      simp del: neighbors_build_adj)
  then show ?thesis
    by (auto simp: find_all_cycles_def dfs_set(1) simp del: neighbors_build_adj)
qed

text \<open>
  C29: The cycle search is sound and complete: the set of the cycles it finds is exactly that
  of the elementary cycles of the edge relation (two or more distinct nodes, each with an edge
  to the next and the last with one to the first), written from their least nodes, when these
  are nodes of the graph. How often a cycle is listed is not stated: parallel edges repeat it.
\<close>

theorem cycles_are_exactly_the_elementary_ones:
  "set (find_all_cycles g) = {c. elementary_cycle g c \<and> least_first c \<and> hd c \<in> set (hm_keys (g_nodes g))}"
  by (rule find_all_cycles_set)

definition parallel_edges_graph :: "(nat, nat, nat, nat) graph" where
  "parallel_edges_graph =
     \<lparr>g_name = ''g'', g_nodes = [(''a'', Condition []), (''b'', Condition [])],
      g_edges = map (\<lambda>(a, b). \<lparr>e_from = a, e_to = b, e_condition = None, e_analysis = None, e_fallback = False\<rparr>)
        [(''a'', ''b''), (''a'', ''b''), (''b'', ''a'')],
      g_start = ''a'', g_end = ''b'', g_canonical_hash = 0\<rparr>"

lemma parallel_edges_repeat_a_cycle:
  "find_all_cycles parallel_edges_graph = [[''a'', ''b''], [''a'', ''b'']]"
proof -
  have "''a'' < ''b''" by (simp add: less_char_def)
  then show ?thesis
    by (simp add: find_all_cycles_def parallel_edges_graph_def dfs_cycles.simps edges_from_def)
qed

section \<open>Acyclic graphs\<close>

definition edge_rel :: "('s, 'm, 'k, 'w) graph \<Rightarrow> (string \<times> string) set" where
  "edge_rel g = {(a, b). has_edge g (a, b)}"

lemma edge_rel_eq: "edge_rel g = (\<lambda>e. (e_from e, e_to e)) ` set (g_edges g)"
  by (auto simp: edge_rel_def has_edge_def list_ex_iff)

text \<open>A shortest closed walk without self-loops is an elementary cycle.\<close>

lemma closed_walk_elementary:
  assumes "(x, x) \<in> (edge_rel g - Id)\<^sup>+"
  shows "\<exists>c. elementary_cycle g c"
proof -
  let ?R = "edge_rel g - Id"
  let ?P = "\<lambda>n. 0 < n \<and> (\<exists>x. (x, x) \<in> ?R ^^ n)"
  from assms obtain n where "?P n" by (auto simp: trancl_power)
  then have P: "?P (LEAST n. ?P n)" by (rule LeastI)
  define m where "m = (LEAST n. ?P n)"
  have least: "\<not> ?P k" if "k < m" for k using that not_less_Least unfolding m_def by blast
  from P obtain y where "0 < m" "(y, y) \<in> ?R ^^ m" unfolding m_def by blast
  then obtain f where f: "f 0 = y" "f m = y" "\<And>i. i < m \<Longrightarrow> (f i, f (Suc i)) \<in> ?R"
    by (auto simp: relpow_fun_conv)
  have "m \<noteq> 1" using f(3) [of 0] f(1,2) by auto
  with \<open>0 < m\<close> have m2: "2 \<le> m" by linarith
  have inj: False if "i < j" "j < m" "f i = f j" for i j
  proof -
    have "(f i, f j) \<in> ?R ^^ (j - i)"
      unfolding relpow_fun_conv using that f(3) by (intro exI [of _ "\<lambda>k. f (i + k)"]) auto
    with that least [of "j - i"] show False by auto
  qed
  let ?c = "map f [0..<m]"
  have "distinct ?c"
    using inj by (auto simp: distinct_map inj_on_def) (metis linorder_neqE_nat)
  moreover have "list_all (has_edge g) (cycle_edges ?c)"
  proof -
    have "has_edge g (f i, f ((i + 1) mod m))" if "i < m" for i
    proof (cases "Suc i = m")
      case True
      with f(3) [OF that] f(1,2) show ?thesis by (simp add: edge_rel_def)
    next
      case False
      with that f(3) [OF that] show ?thesis by (simp add: edge_rel_def)
    qed
    then show ?thesis by (auto simp: cycle_edges_def list_all_iff)
  qed
  ultimately show ?thesis using m2 unfolding elementary_cycle_def by (intro exI [of _ ?c]) auto
qed

lemma walk_rtrancl:
  "walk (build_adj g) c \<Longrightarrow> c \<noteq> [] \<Longrightarrow> distinct c \<Longrightarrow> (hd c, last c) \<in> (edge_rel g - Id)\<^sup>*"
proof (induction c rule: induct_list012)
  case (3 x y xs)
  then have "(x, y) \<in> edge_rel g - Id"
    using has_edge_neighbors [of g x y] by (auto simp: edge_rel_def simp del: neighbors_build_adj)
  with 3 show ?case by (auto intro: converse_rtrancl_into_rtrancl)
qed auto

lemma elementary_closed_walk:
  assumes "elementary_cycle g c"
  shows "(hd c, hd c) \<in> (edge_rel g - Id)\<^sup>+"
proof -
  from assms have c: "c \<noteq> []" "distinct c" "walk (build_adj g) c" "2 \<le> length c"
    and closes: "hd c \<in> set (neighbors (build_adj g) (last c))"
    by (auto simp: elementary_cycle_walk)
  from c have "last c \<noteq> hd c" by (cases c) auto
  with closes have "(last c, hd c) \<in> edge_rel g - Id"
    using has_edge_neighbors [of g "last c" "hd c"] by (auto simp: edge_rel_def simp del: neighbors_build_adj)
  with walk_rtrancl [OF c(3,1,2)] show ?thesis by (rule rtrancl_into_trancl1)
qed

lemma cycle_edges_zip: "cycle_edges c = zip c (rotate1 c)"
  by (rule nth_equalityI) (auto simp: cycle_edges_def nth_rotate1)

lemma zip_rotate:
  assumes "length xs = length ys"
  shows "zip (rotate n xs) (rotate n ys) = rotate n (zip xs ys)"
proof -
  have "map fst (rotate n (zip xs ys)) = rotate n xs" "map snd (rotate n (zip xs ys)) = rotate n ys"
    using assms by (simp_all add: rotate_map [symmetric])
  then show ?thesis using zip_map_fst_snd [of "rotate n (zip xs ys)"] by simp
qed

lemma elementary_cycle_rotate: "elementary_cycle g (rotate n c) = elementary_cycle g c"
proof -
  have "rotate1 (rotate n c) = rotate n (rotate1 c)" by (simp add: rotate1_rotate_swap)
  then have "set (cycle_edges (rotate n c)) = set (cycle_edges c)"
    by (simp add: cycle_edges_zip zip_rotate)
  then show ?thesis by (simp add: elementary_cycle_def list_all_iff)
qed

lemma rotate_least_first:
  assumes "c \<noteq> []" "distinct c"
  shows "\<exists>n. least_first (rotate n c)"
proof -
  from assms have "Min (set c) \<in> set c" by simp
  then obtain i where i: "i < length c" "c ! i = Min (set c)" by (auto simp: in_set_conv_nth)
  let ?r = "rotate i c"
  have r: "?r = Min (set c) # tl ?r"
    using assms i by (metis hd_Cons_tl hd_rotate_conv_nth mod_less rotate_is_Nil_conv)
  moreover have "distinct ?r" using assms by simp
  ultimately have "Min (set c) \<notin> set (tl ?r)" by (metis distinct.simps(2))
  moreover have "set (tl ?r) \<subseteq> set c" by (metis r set_rotate set_subset_Cons)
  ultimately have "Min (set c) < x" if "x \<in> set (tl ?r)" for x
    using that by (metis List.finite_set Min.coboundedI order_le_less subsetD)
  moreover have "hd ?r = Min (set c)" by (metis r list.sel(1))
  ultimately show ?thesis unfolding least_first_def list_all_iff by (intro exI [of _ i]) simp
qed

lemma elementary_cycle_hd_node:
  assumes "graph_wf g" "elementary_cycle g c"
  shows "hd c \<in> set (hm_keys (g_nodes g))"
proof -
  from assms(2) have c: "walk (build_adj g) c" "2 \<le> length c" by (auto simp: elementary_cycle_walk)
  then obtain x y ys where xy: "c = x # y # ys" by (cases c rule: remdups_adj.cases) auto
  with c(1) have "y \<in> set (neighbors (build_adj g) x)" by (simp del: neighbors_build_adj)
  then obtain e where "e \<in> set (g_edges g)" "e_from e = x" by (auto simp: edges_from_def)
  with assms(1) have "hm_get (g_nodes g) x \<noteq> None" by (auto simp: graph_wf_def has_node_def)
  with xy show ?thesis by (simp add: hm_contains_iff)
qed

lemma reported_rotation:
  assumes "graph_wf g" "elementary_cycle g c"
  shows "\<exists>n. rotate n c \<in> set (find_all_cycles g)"
proof -
  from assms(2) have "c \<noteq> []" "distinct c" by (auto simp: elementary_cycle_def)
  from rotate_least_first [OF this] obtain n where n: "least_first (rotate n c)" ..
  have e: "elementary_cycle g (rotate n c)" using assms(2) by (simp add: elementary_cycle_rotate)
  from n e elementary_cycle_hd_node [OF assms(1) e] show ?thesis
    unfolding find_all_cycles_set by blast
qed

text \<open>
  The analysis calls a well-formed graph a DAG exactly when its edges without the
  self-loops form an acyclic relation. An edge from a node to itself is never reported,
  although the run loop follows it.
\<close>

theorem dag_iff_acyclic_up_to_self_loops:
  assumes "graph_wf g"
  shows "\<not> ca_has_cycles (analyze_cycles g) \<longleftrightarrow> acyclic (edge_rel g - Id)"
proof
  assume "\<not> ca_has_cycles (analyze_cycles g)"
  then have none: "find_all_cycles g = []" by (simp add: analyze_cycles_def Let_def)
  show "acyclic (edge_rel g - Id)"
    using closed_walk_elementary [of _ g] reported_rotation [OF assms] none
    unfolding acyclic_def by (metis empty_iff list.set(1))
next
  assume "acyclic (edge_rel g - Id)"
  then have "\<not> elementary_cycle g c" for c using elementary_closed_walk unfolding acyclic_def by blast
  then have "set (find_all_cycles g) = {}" unfolding find_all_cycles_set by blast
  then show "\<not> ca_has_cycles (analyze_cycles g)" by (simp add: analyze_cycles_def Let_def)
qed

definition self_loop_graph :: "(nat, nat, nat, nat) graph_builder" where
  "self_loop_graph =
     builder_edge ''a'' ''b'' (builder_edge ''a'' ''a'' (builder_node ''b'' (Condition [])
       (builder_node ''a'' (Condition []) (builder_end ''b'' (builder_start ''a'' (builder_new ''g''))))))"

theorem dag_iff_acyclic_up_to_self_loops_witness:
  "case build self_loop_graph of
     Inr g \<Rightarrow> (''a'', ''a'') \<in> edge_rel g \<and> (\<not> ca_has_cycles (analyze_cycles g) \<longleftrightarrow> acyclic (edge_rel g - Id))
   | Inl errors \<Rightarrow> False"
proof -
  obtain g where g: "build self_loop_graph = Inr g" "graph_wf g" "(''a'', ''a'') \<in> edge_rel g"
    using build_spec [of self_loop_graph]
    by (auto simp: self_loop_graph_def builder_wf_def builder_node_def builder_edge_def builder_end_def
      builder_start_def builder_new_def edge_rel_eq split: sum.splits)
  from g dag_iff_acyclic_up_to_self_loops [OF g(2)] show ?thesis by simp
qed

section \<open>Exactness of the other checks\<close>

lemma reach_loop_spec:
  assumes "set queue \<subseteq> set visited"
    and "\<And>a b. a \<in> set visited - set queue \<Longrightarrow> b \<in> set (neighbors adj a) \<Longrightarrow> b \<in> set visited"
    and "E = {(a, b). b \<in> set (neighbors adj a)}"
  shows "set (reach_loop adj visited queue) = E\<^sup>* `` set visited"
  using assms
proof (induction adj visited queue rule: reach_loop.induct)
  case (1 adj visited queue)
  show ?case
  proof (cases "queue = []")
    case True
    with 1 have "E `` set visited \<subseteq> set visited" by auto
    then have "E\<^sup>* `` set visited = set visited" by (rule Image_closed_trancl)
    with True show ?thesis by (simp add: reach_loop.simps)
  next
    case False
    let ?n = "last queue"
    obtain visited' queue' where step: "visit_all (neighbors adj ?n) visited (butlast queue) = (visited', queue')"
      by fastforce
    from visit_all_eq [OF step] obtain new where new: "queue' = butlast queue @ new" "visited' = visited @ new"
      and v: "set visited' = set visited \<union> set (neighbors adj ?n)" by auto
    have q: "set queue = insert ?n (set (butlast queue))"
      using False by (metis append_butlast_last_id list.simps(15) rotate1.simps(2) set_rotate1)
    have sub: "set queue' \<subseteq> set visited'" using 1(2) q new by auto
    have closed: "b \<in> set visited'" if "a \<in> set visited' - set queue'" "b \<in> set (neighbors adj a)" for a b
    proof (cases "a = ?n")
      case True
      with that v show ?thesis by simp
    next
      case False
      with that(1) new q have "a \<in> set visited - set queue" by auto
      with 1(3) that(2) v show ?thesis by blast
    qed
    have "set (reach_loop adj visited' queue') = E\<^sup>* `` set visited'"
      by (rule 1(1) [OF False step [symmetric] sub closed 1(4)])
    moreover have "E\<^sup>* `` set visited' = E\<^sup>* `` set visited"
    proof -
      have "set (neighbors adj ?n) \<subseteq> E `` set visited" using 1(2,4) q by auto
      then show ?thesis unfolding v by (auto intro: converse_rtrancl_into_rtrancl)
    qed
    ultimately show ?thesis using False step by (simp add: reach_loop.simps [of adj visited queue])
  qed
qed

lemma reached_nodes_set: "set (reached_nodes g) = (edge_rel g)\<^sup>* `` {g_start g}"
proof -
  have "edge_rel g = {(a, b). b \<in> set (neighbors (build_adj g) a)}"
    using has_edge_neighbors [of g] by (auto simp: edge_rel_def simp del: neighbors_build_adj)
  from reach_loop_spec [OF _ _ this, of "[g_start g]" "[g_start g]"] show ?thesis
    by (simp add: reached_nodes_def)
qed

definition unreachable_info :: "('s, 'm, 'k, 'w) graph \<Rightarrow> string \<Rightarrow> diagnostic" where
  "unreachable_info g n = \<lparr>d_severity = Info, d_category = Unreachable, d_message = unreachable_message g n\<rparr>"

lemma foldl_add_info:
  "foldl (\<lambda>d n. if P n then d else add_info c (msg n) d) d ns =
     d\<lparr>gd_infos := gd_infos d @ map (\<lambda>n. \<lparr>d_severity = Info, d_category = c, d_message = msg n\<rparr>)
         (filter (\<lambda>n. \<not> P n) ns)\<rparr>"
  by (induction ns arbitrary: d) (simp_all add: add_info_def)

text \<open>
  The unreachable-node check adds one note for each node that no sequence of edges
  reaches from the start node, in the order of the node map, and changes nothing else.
\<close>

theorem unreachable_nodes_are_exact:
  "check_unreachable_nodes g d =
     d\<lparr>gd_infos := gd_infos d
        @ map (unreachable_info g) (filter (\<lambda>n. (g_start g, n) \<notin> (edge_rel g)\<^sup>*) (hm_keys (g_nodes g)))\<rparr>"
  unfolding check_unreachable_nodes_def unreachable_info_def [abs_def]
  by (simp add: foldl_add_info reached_nodes_set)

end
