(* ===== verification/Barrier_Sink.thy ===== *)
theory Barrier_Sink
  imports Run_Loop Text
begin

text \<open>
  How a barrier gets its decision: the handle a caller holds (\<open>GraphHandle\<close>,
  \<open>event.rs\<close>), the channels between the handle and the run, and the sinks that wait on
  them (\<open>node/barrier_sink.rs\<close>), with the decision's effect on the state that
  \<open>node/barrier_node.rs\<close> defines.

  The two channels and the sink's cache and queue are one record. A wait that finds
  nothing to do blocks; what the owner of the handle does meanwhile is the argument
  \<open>arrivals\<close>, the operations made before the timeout fires, in order. A wait without
  timeout that nothing ends has the result \<open>None\<close>: it does not return.
\<close>

section \<open>The channels and the handle\<close>

datatype decision_message =
    Exact barrier_id barrier_decision
  | Wildcard string barrier_decision

record channel_sink =
  cs_decisions :: "decision_message list"
  cs_decisions_open :: bool
  cs_cancels :: nat
  cs_cancel_open :: bool
  cs_cancelled :: bool
  cs_wildcards :: "(string, barrier_decision) hashmap"
  cs_pending :: "decision_message list"

definition channel_sink_new :: channel_sink where
  "channel_sink_new =
     \<lparr>cs_decisions = [], cs_decisions_open = True, cs_cancels = 0, cs_cancel_open = True,
      cs_cancelled = False, cs_wildcards = [], cs_pending = []\<rparr>"

text \<open>
  The cancel channel holds one message, and \<open>cancel\<close> does not wait for room. Dropping the
  handle drops its two senders one after the other.
\<close>

datatype handle_op =
    Decide barrier_id barrier_decision
  | DecideWildcard string barrier_decision
  | CancelRun
  | DropDecisionSender
  | DropCancelSender

fun handle_step :: "handle_op \<Rightarrow> channel_sink \<Rightarrow> channel_sink" where
  "handle_step (Decide bid d) s = s\<lparr>cs_decisions := cs_decisions s @ [Exact bid d]\<rparr>"
| "handle_step (DecideWildcard n d) s = s\<lparr>cs_decisions := cs_decisions s @ [Wildcard n d]\<rparr>"
| "handle_step CancelRun s = s\<lparr>cs_cancels := min 1 (Suc (cs_cancels s))\<rparr>"
| "handle_step DropDecisionSender s = s\<lparr>cs_decisions_open := False\<rparr>"
| "handle_step DropCancelSender s = s\<lparr>cs_cancel_open := False\<rparr>"

text \<open>What the caller gets back: the run's end of the channel may be gone.\<close>

definition decide_result :: "bool \<Rightarrow> terminal_error option" where
  "decide_result receiver_alive =
     (if receiver_alive then None else Some (BarrierCancelled ''decision channel closed''))"

section \<open>The sinks\<close>

definition noop_wait :: "barrier_id \<Rightarrow> nat option \<Rightarrow> barrier_outcome" where
  "noop_wait bid timeout = Decision Approve"

definition mock_wait :: "barrier_decision \<Rightarrow> barrier_id \<Rightarrow> nat option \<Rightarrow> barrier_outcome" where
  "mock_wait d bid timeout = Decision d"

fun matches :: "barrier_id \<Rightarrow> decision_message \<Rightarrow> bool" where
  "matches bid (Exact b d) \<longleftrightarrow> b = bid"
| "matches bid (Wildcard n d) \<longleftrightarrow> n = node_id bid"

fun message_decision :: "decision_message \<Rightarrow> barrier_decision" where
  "message_decision (Exact b d) = d"
| "message_decision (Wildcard n d) = d"

text \<open>A message that is delivered: a wildcard is also cached for its node.\<close>

fun deliver :: "decision_message \<Rightarrow> channel_sink \<Rightarrow> barrier_outcome \<times> channel_sink" where
  "deliver (Exact b d) s = (Decision d, s)"
| "deliver (Wildcard n d) s = (Decision d, s\<lparr>cs_wildcards := hm_insert n d (cs_wildcards s)\<rparr>)"

definition take_pending :: "barrier_id \<Rightarrow> decision_message list \<Rightarrow> (decision_message \<times> decision_message list) option" where
  "take_pending bid q =
     (case dropWhile (\<lambda>m. \<not> matches bid m) q of
        [] \<Rightarrow> None
      | m # rest \<Rightarrow> Some (m, takeWhile (\<lambda>m. \<not> matches bid m) q @ rest))"

text \<open>
  One poll of the two receivers, the cancel channel first: \<open>recv\<close> completes with a message,
  or when the channel is empty and closed.
\<close>

definition poll :: "barrier_id \<Rightarrow> channel_sink \<Rightarrow> (barrier_outcome \<times> channel_sink) option" where
  "poll bid s =
     (if 0 < cs_cancels s \<or> \<not> cs_cancel_open s
      then Some (Cancelled, s\<lparr>cs_cancels := cs_cancels s - 1, cs_cancelled := True\<rparr>)
      else case cs_decisions s of
             [] \<Rightarrow> if cs_decisions_open s then None else Some (Cancelled, s)
           | m # ms \<Rightarrow>
               (let s' = s\<lparr>cs_decisions := ms\<rparr> in
                Some (if matches bid m then deliver m s'
                      else (Cancelled, s'\<lparr>cs_pending := cs_pending s' @ [m]\<rparr>))))"

fun wait_arrivals ::
  "barrier_id \<Rightarrow> nat option \<Rightarrow> handle_op list \<Rightarrow> channel_sink \<Rightarrow> (barrier_outcome \<times> channel_sink \<times> handle_op list) option" where
  "wait_arrivals bid timeout arrivals s =
     (case poll bid s of
        Some (outcome, s') \<Rightarrow> Some (outcome, s', arrivals)
      | None \<Rightarrow>
          (case arrivals of
             [] \<Rightarrow> (if timeout = None then None else Some (TimedOut, s, []))
           | a # as \<Rightarrow> wait_arrivals bid timeout as (handle_step a s)))"

declare wait_arrivals.simps [simp del]

definition wait_decision ::
  "barrier_id \<Rightarrow> nat option \<Rightarrow> handle_op list \<Rightarrow> channel_sink \<Rightarrow> (barrier_outcome \<times> channel_sink \<times> handle_op list) option" where
  "wait_decision bid timeout arrivals s =
     (case hm_get (cs_wildcards s) (node_id bid) of
        Some d \<Rightarrow> Some (Decision d, s, arrivals)
      | None \<Rightarrow>
          (case take_pending bid (cs_pending s) of
             Some (m, q) \<Rightarrow>
               (case deliver m (s\<lparr>cs_pending := q\<rparr>) of (outcome, s') \<Rightarrow> Some (outcome, s', arrivals))
           | None \<Rightarrow> wait_arrivals bid timeout arrivals s))"

section \<open>The effect of a decision on the state\<close>

definition apply_decision_ops :: "barrier_node \<Rightarrow> barrier_decision \<Rightarrow> ('s, json state_mutation, 'k) node_op list" where
  "apply_decision_ops b d =
     (case d of
        Approve \<Rightarrow> [Leaf (Record (Put (bn_approve_key b) (JBool True))), Leaf (Record (Delete (bn_reject_key b)))]
      | Reject reason \<Rightarrow>
          [Leaf (Record (Put (bn_reject_key b) (JString reason))), Leaf (Record (Delete (bn_approve_key b)))]
      | Modify key v \<Rightarrow> [Leaf (Record (Put key v))]
      | Reroute target \<Rightarrow> [Leaf (Goto target)])"


section \<open>Decisions are delivered or kept\<close>

definition held :: "channel_sink \<Rightarrow> decision_message multiset" where
  "held s = mset (cs_pending s) + mset (cs_decisions s)"

fun op_message :: "handle_op \<Rightarrow> decision_message multiset" where
  "op_message (Decide bid d) = {#Exact bid d#}"
| "op_message (DecideWildcard n d) = {#Wildcard n d#}"
| "op_message _ = {#}"

definition sent :: "handle_op list \<Rightarrow> decision_message multiset" where
  "sent ops = sum_list (map op_message ops)"

lemma sent_simps [simp]:
  "sent [] = {#}" "sent (a # as) = op_message a + sent as" "sent (as @ bs) = sent as + sent bs"
  by (simp_all add: sent_def)

lemma handle_step_held: "held (handle_step a s) = held s + op_message a"
  by (cases a) (simp_all add: held_def)

lemma handle_step_frame [simp]:
  "cs_wildcards (handle_step a s) = cs_wildcards s" "cs_pending (handle_step a s) = cs_pending s"
  by (cases a; simp)+

lemma deliver_held:
  "deliver m s = (outcome, s') \<Longrightarrow> held s' = held s \<and> outcome = Decision (message_decision m)"
  by (cases m) (auto simp: held_def)

lemma take_pending_SomeD:
  assumes "take_pending bid q = Some (m, q')"
  shows "matches bid m \<and> mset q = add_mset m (mset q')"
proof -
  let ?no = "\<lambda>m. \<not> matches bid m"
  from assms obtain rest where rest: "dropWhile ?no q = m # rest" "q' = takeWhile ?no q @ rest"
    by (auto simp: take_pending_def split: list.splits)
  then have "matches bid m" using dropWhile_eq_Cons_conv [of ?no q m rest] by blast
  moreover have "mset q = mset (takeWhile ?no q @ dropWhile ?no q)" by simp
  ultimately show ?thesis using rest by (simp del: takeWhile_dropWhile_id)
qed

text \<open>What a wait may have consumed, given its outcome.\<close>

definition accounts_for :: "barrier_id \<Rightarrow> channel_sink \<Rightarrow> barrier_outcome \<Rightarrow> decision_message multiset \<Rightarrow> bool" where
  "accounts_for bid s outcome consumed \<longleftrightarrow>
     (case outcome of
        Decision d \<Rightarrow> (consumed = {#} \<and> hm_get (cs_wildcards s) (node_id bid) = Some d)
                       \<or> (\<exists>m. consumed = {#m#} \<and> matches bid m \<and> message_decision m = d)
      | _ \<Rightarrow> consumed = {#})"

lemma poll_Some:
  assumes "poll bid s = Some (outcome, s')"
  shows "\<exists>consumed. held s = held s' + consumed \<and> accounts_for bid s0 outcome consumed"
proof (cases "0 < cs_cancels s \<or> \<not> cs_cancel_open s")
  case True
  with assms show ?thesis by (auto simp: poll_def held_def accounts_for_def)
next
  case False
  show ?thesis
  proof (cases "cs_decisions s")
    case Nil
    with False assms show ?thesis by (auto simp: poll_def held_def accounts_for_def split: if_splits)
  next
    case (Cons m ms)
    show ?thesis
    proof (cases "matches bid m")
      case True
      with False Cons assms have d: "deliver m (s\<lparr>cs_decisions := ms\<rparr>) = (outcome, s')" by (simp add: poll_def)
      from deliver_held [OF d] True Cons show ?thesis
        by (intro exI [of _ "{#m#}"]) (auto simp: held_def accounts_for_def)
    next
      case no: False
      with False Cons assms show ?thesis by (auto simp: poll_def held_def accounts_for_def)
    qed
  qed
qed

lemma poll_NoneD: "poll bid s = None \<Longrightarrow> cs_decisions s = [] \<and> cs_decisions_open s \<and> cs_cancel_open s \<and> cs_cancels s = 0"
  by (auto simp: poll_def Let_def split: if_splits list.splits)

lemma wait_arrivals_accounts:
  "case wait_arrivals bid t as s of
     None \<Rightarrow> t = None \<and> cs_decisions s = [] \<and> sent as = {#}
   | Some (outcome, s', as') \<Rightarrow> \<exists>before consumed. as = before @ as' \<and> held s + sent before = held s' + consumed
       \<and> accounts_for bid s0 outcome consumed"
proof (induction as arbitrary: s)
  case Nil
  show ?case
  proof (cases "poll bid s")
    case None
    then show ?thesis
      by (auto simp: wait_arrivals.simps [of bid t "[]" s] accounts_for_def dest: poll_NoneD)
  next
    case (Some r)
    obtain outcome s' where r: "r = (outcome, s')" by (cases r)
    from Some r poll_Some [of bid s outcome s' s0] show ?thesis
      by (auto simp: wait_arrivals.simps [of bid t "[]" s])
  qed
next
  case (Cons a as)
  show ?case
  proof (cases "poll bid s")
    case None
    then have w: "wait_arrivals bid t (a # as) s = wait_arrivals bid t as (handle_step a s)"
      by (simp add: wait_arrivals.simps [of bid t "a # as" s])
    show ?thesis
    proof (cases "wait_arrivals bid t as (handle_step a s)")
      case None
      with Cons.IH [of "handle_step a s"] w poll_NoneD [OF \<open>poll bid s = None\<close>] show ?thesis
        by (cases a) auto
    next
      case (Some r)
      obtain outcome s' as' where r: "r = (outcome, s', as')" by (cases r)
      with Some Cons.IH [of "handle_step a s"] obtain before consumed where
        "as = before @ as'" "held s + op_message a + sent before = held s' + consumed"
        "accounts_for bid s0 outcome consumed" by (auto simp: handle_step_held)
      with Some w r show ?thesis
        by (auto intro!: exI [of _ "a # before"] exI [of _ consumed] simp: add.assoc)
    qed
  next
    case (Some r)
    obtain outcome s' where r: "r = (outcome, s')" by (cases r)
    from Some r poll_Some [of bid s outcome s' s0] show ?thesis
      by (auto simp: wait_arrivals.simps [of bid t "a # as" s])
  qed
qed


section \<open>What ends a run instead\<close>

lemma take_pending_None: "list_all (\<lambda>m. \<not> matches bid m) q \<Longrightarrow> take_pending bid q = None"
  by (simp add: take_pending_def list_all_iff dropWhile_eq_Nil_conv [THEN iffD2])

text \<open>
  C27: A decision that arrives for another barrier ends the run. When the first message of the
  channel is not for the waiting barrier (and nothing cached or queued is), the wait is
  cancelled, even when the decision the barrier waits for is the next message, and the route
  after a cancelled wait is the error \<open>BarrierCancelled\<close>; the message is queued for a later
  wait that this run does not reach.
\<close>

theorem mismatched_decision_ends_the_run:
  assumes "hm_get (cs_wildcards s) (node_id bid) = None"
    and "list_all (\<lambda>m. \<not> matches bid m) (cs_pending s)"
    and "cs_cancels s = 0" "cs_cancel_open s"
    and "cs_decisions s = m # ms" "\<not> matches bid m"
  shows "wait_decision bid t as s = Some (Cancelled, s\<lparr>cs_decisions := ms, cs_pending := cs_pending s @ [m]\<rparr>, as)
    \<and> barrier_route g current b action Cancelled st = Inl (BarrierCancelled current)"
  using assms
  by (simp_all add: wait_decision_def take_pending_None wait_arrivals.simps [of bid t as s] poll_def
      barrier_route_def barrier_rejected_def)

theorem mismatched_decision_ends_the_run_witness:
  "wait_decision \<lparr>node_id = ''review'', occurrence = 0\<rparr> None []
     (channel_sink_new\<lparr>cs_decisions := [Exact \<lparr>node_id = ''other'', occurrence = 0\<rparr> Approve,
        Exact \<lparr>node_id = ''review'', occurrence = 0\<rparr> Approve]\<rparr>)
   = Some (Cancelled, channel_sink_new\<lparr>cs_decisions := [Exact \<lparr>node_id = ''review'', occurrence = 0\<rparr> Approve],
        cs_pending := [Exact \<lparr>node_id = ''other'', occurrence = 0\<rparr> Approve]\<rparr>, [])"
  by (subst mismatched_decision_ends_the_run [THEN conjunct1]) (simp_all add: channel_sink_new_def)

text \<open>
  A decision that was sent is overtaken by the loss of the handle: once the handle is
  dropped, a wait that has to look at the channels is cancelled and the cancellation token of
  the run is set, whatever decisions the channel holds.
\<close>

theorem dropping_the_handle_cancels_sent_decisions:
  assumes "hm_get (cs_wildcards s) (node_id bid) = None"
    and "list_all (\<lambda>m. \<not> matches bid m) (cs_pending s)"
  shows "\<exists>s'. wait_decision bid t as (handle_step DropCancelSender (handle_step DropDecisionSender
           (handle_step (Decide bid d) s))) = Some (Cancelled, s', as)
         \<and> cs_cancelled s' \<and> Exact bid d \<in># held s'"
  using assms
  by (simp add: wait_decision_def take_pending_None wait_arrivals.simps [of bid t as] poll_def held_def)

theorem dropping_the_handle_cancels_sent_decisions_witness:
  "\<exists>s'. wait_decision \<lparr>node_id = ''review'', occurrence = 0\<rparr> None []
     (handle_step DropCancelSender (handle_step DropDecisionSender
       (handle_step (Decide \<lparr>node_id = ''review'', occurrence = 0\<rparr> Approve) channel_sink_new)))
     = Some (Cancelled, s', [])"
  using dropping_the_handle_cancels_sent_decisions [of channel_sink_new "\<lparr>node_id = ''review'', occurrence = 0\<rparr>"
      None "[]" Approve]
  by (auto simp: channel_sink_new_def)

text \<open>
  A decision to modify a key is routed exactly as an approval and the state the run goes
  on with is the state the barrier was reached with: the key and the value are dropped. The
  function that would record the modification commits it to exactly that key.
\<close>

theorem modify_decision_leaves_the_state:
  assumes "sk_barrier sk = Some wait" "wait (rs_world rs) bid t = (w, Decision (Modify key v))"
  shows "route g sk current (Barrier b) action (Some (PauseSignal bid t)) rs
    = (resolve_next_opt g action current (eng_state (rs_engine rs)),
       (log_event (BarrierWaiting bid current) rs)\<lparr>rs_world := w\<rparr>)
    \<and> eng_state (commit state_ops (exec_node_ops (apply_decision_ops b (Modify key v)) (e\<lparr>eng_mutations := []\<rparr>)))
      = hm_insert key v (eng_state e)"
  using assms
  by (simp_all add: route_def wait_barrier_def barrier_route_def barrier_rejected_def apply_decision_ops_def
      exec_node_ops_def commit_def take_commit_batch_def apply_batch_to_state_def apply_batch_def state_ops_def)

definition asking_run :: "((string, json) hashmap, json state_mutation, unit, unit) run_state" where
  "asking_run = \<lparr>rs_engine = engine_new [(''plan'', JBool True)] None False, rs_world = (), rs_occurrences = (\<lambda>_. 0), rs_log = []\<rparr>"

definition asking_graph :: "((string, json) hashmap, json state_mutation, unit, unit) graph" where
  "asking_graph = \<lparr>g_name = ''g'', g_nodes = [(''ask'', Barrier (barrier_new ''ask''))], g_edges = [], g_start = ''ask'',
     g_end = ''ask'', g_canonical_hash = 0\<rparr>"

theorem modify_decision_leaves_the_state_witness:
  "route asking_graph \<lparr>sk_checkpoint = None, sk_barrier = Some (\<lambda>w bid t. (w, Decision (Modify ''plan'' JNull)))\<rparr>
      ''ask'' (Barrier (barrier_new ''ask'')) Next (Some (PauseSignal \<lparr>node_id = ''ask'', occurrence = 0\<rparr> None)) asking_run
    = (Inr None, log_event (BarrierWaiting \<lparr>node_id = ''ask'', occurrence = 0\<rparr> ''ask'') asking_run)"
  by (subst modify_decision_leaves_the_state [THEN conjunct1])
    (simp_all add: resolve_next_opt_def asking_graph_def asking_run_def)

end
