(* ===== verification/Json_Text.thy ===== *)
theory Json_Text
  imports Text
begin

text \<open>
  The text \<open>serde_json::to_string\<close> gives for the values the code builds identities from:
  strings with the escapes of JSON, unsigned numbers, booleans, arrays and tuples. Strings are
  byte lists, and bytes outside ASCII are written as they are.

  The lemmas show that such a text can be read back from the front of a longer text, so that
  texts composed of them do not collide.
\<close>

section \<open>Strings\<close>

definition hex_char :: "nat \<Rightarrow> char" where
  "hex_char n = (if n < 10 then char_of (48 + n) else char_of (87 + n))"

definition escape_char :: "char \<Rightarrow> string" where
  "escape_char c =
     (if c = CHR 0x22 then [CHR 0x5C, CHR 0x22]
      else if c = CHR 0x5C then [CHR 0x5C, CHR 0x5C]
      else if c = CHR 0x08 then [CHR 0x5C, CHR ''b'']
      else if c = CHR 0x09 then [CHR 0x5C, CHR ''t'']
      else if c = CHR 0x0A then [CHR 0x5C, CHR ''n'']
      else if c = CHR 0x0C then [CHR 0x5C, CHR ''f'']
      else if c = CHR 0x0D then [CHR 0x5C, CHR ''r'']
      else if (of_char c :: nat) < 32
      then [CHR 0x5C, CHR ''u'', CHR ''0'', CHR ''0'', hex_char (of_char c div 16), hex_char (of_char c mod 16)]
      else [c])"

definition json_str :: "string \<Rightarrow> string" where
  "json_str s = [CHR 0x22] @ concat (map escape_char s) @ [CHR 0x22]"

definition json_bool :: "bool \<Rightarrow> string" where
  "json_bool b = (if b then ''true'' else ''false'')"

fun json_commas :: "string list \<Rightarrow> string" where
  "json_commas [] = []"
| "json_commas [x] = x"
| "json_commas (x # y # xs) = x @ '','' @ json_commas (y # xs)"

definition json_seq :: "string list \<Rightarrow> string" where
  "json_seq xs = ''['' @ json_commas xs @ '']''"

fun json_opt_str :: "string option \<Rightarrow> string" where
  "json_opt_str None = ''null''"
| "json_opt_str (Some s) = json_str s"

section \<open>Reading a string back\<close>

definition unhex :: "char \<Rightarrow> nat" where
  "unhex c = (if (of_char c :: nat) < 58 then of_char c - 48 else of_char c - 87)"

fun read_escaped :: "string \<Rightarrow> (char \<times> string) option" where
  "read_escaped [] = None"
| "read_escaped (c # r) =
     (if c \<noteq> CHR 0x5C then Some (c, r)
      else case r of
             [] \<Rightarrow> None
           | e # r' \<Rightarrow>
               if e = CHR ''b'' then Some (CHR 0x08, r')
               else if e = CHR ''t'' then Some (CHR 0x09, r')
               else if e = CHR ''n'' then Some (CHR 0x0A, r')
               else if e = CHR ''f'' then Some (CHR 0x0C, r')
               else if e = CHR ''r'' then Some (CHR 0x0D, r')
               else if e = CHR ''u'' then
                 (case r' of _ # _ # h # l # r'' \<Rightarrow> Some (char_of (16 * unhex h + unhex l), r'') | _ \<Rightarrow> None)
               else Some (e, r'))"

lemma unhex_hex_char: "n < 16 \<Longrightarrow> unhex (hex_char n) = n"
  by (auto simp: unhex_def hex_char_def)

lemma read_escaped_escape: "read_escaped (escape_char c @ r) = Some (c, r)"
proof -
  have "char_of (16 * ((of_char c :: nat) div 16) + of_char c mod 16) = c" by simp
  moreover have "(of_char c :: nat) < 32 \<Longrightarrow> (of_char c :: nat) div 16 < 16" by simp
  ultimately show ?thesis by (simp add: escape_char_def unhex_hex_char)
qed

lemma escape_char_not_quote: "escape_char c \<noteq> [] \<and> hd (escape_char c) \<noteq> CHR 0x22"
  by (simp add: escape_char_def)

lemma escape_char_prefix_free: "escape_char c @ r = escape_char d @ r' \<Longrightarrow> c = d \<and> r = r'"
  by (metis read_escaped_escape option.inject prod.inject)

lemma json_str_body_prefix_free:
  "concat (map escape_char s) @ CHR 0x22 # r = concat (map escape_char t) @ CHR 0x22 # r' \<Longrightarrow> s = t \<and> r = r'"
proof (induction s arbitrary: t)
  case Nil
  show ?case
  proof (cases t)
    case (Cons d t')
    with Nil escape_char_not_quote [of d] show ?thesis by (cases "escape_char d") auto
  qed (use Nil in auto)
next
  case (Cons c s)
  show ?case
  proof (cases t)
    case Nil
    with Cons escape_char_not_quote [of c] show ?thesis by (cases "escape_char c") auto
  next
    case (Cons d t')
    with Cons.prems have
      "escape_char c @ concat (map escape_char s) @ CHR 0x22 # r
         = escape_char d @ concat (map escape_char t') @ CHR 0x22 # r'" by simp
    from escape_char_prefix_free [OF this] Cons.IH [of t'] Cons show ?thesis by auto
  qed
qed

lemma json_str_prefix_free: "json_str s @ r = json_str t @ r' \<Longrightarrow> s = t \<and> r = r'"
  using json_str_body_prefix_free [of s r t r'] by (simp add: json_str_def)

lemma json_str_inj [simp]: "json_str s = json_str t \<longleftrightarrow> s = t"
  using json_str_prefix_free [of s "[]" t "[]"] by auto

text \<open>A numeral followed by something that is not a digit can be read back too.\<close>

lemma show_nat_prefix_free:
  assumes "show_nat a @ c # r = show_nat b @ c # r'" "char_digit c = None"
  shows "a = b \<and> r = r'"
proof -
  have "takeWhile (\<lambda>c. char_digit c \<noteq> None) (show_nat n @ c # x) = show_nat n" for n x
    using show_nat_digits assms(2) by (subst takeWhile_append2) auto
  with assms(1) have "show_nat a = show_nat b" by metis
  with assms(1) show ?thesis by (simp add: show_nat_inj)
qed

end
