(* ===== verification/Durable_Record.thy ===== *)
theory Durable_Record
  imports Graph_Core Json_Text "HOL-Library.Monad_Syntax"
begin

text \<open>
  The record of a durable run (\<open>durable/model.rs\<close>, \<open>durable/tasks.rs\<close>): its data, the
  checks of \<open>validate\<close>, and its JSON form, which the derived serialisers write and
  \<open>decode\<close> reads under stricter rules than the derived ones (an optional member must be
  present). \<open>signature\<close> of \<open>durable/scope.rs\<close> is the text of the value \<open>scope_signature\<close>
  computes.

  The maps of the record are \<open>BTreeMap\<close>s; the order of their entries is not observed.
\<close>

section \<open>The text of a signature\<close>

fun strategy_text :: "error_strategy \<Rightarrow> string" where
  "strategy_text FailFast = ''FailFast''"
| "strategy_text CollectAll = ''CollectAll''"

fun signature_text :: "signature \<Rightarrow> string" where
  "signature_text (GraphSignature h st en ns es) =
     json_seq [show_nat (unat h), json_str st, json_str en,
       json_seq (map (\<lambda>(n, k, nested). json_seq [json_str n, json_str k,
         json_opt_str (map_option signature_text nested)]) ns),
       json_seq (map (\<lambda>(a, b, c, f). json_seq [json_str a, json_str b, json_bool c, json_bool f]) es)]"
| "signature_text (BudgetSignature m s) = show_nat m @ '':'' @ signature_text s"
| "signature_text (ParallelSignature strategy bs) =
     json_seq [json_str (strategy_text strategy),
       json_seq (map (\<lambda>(n, nested). json_seq [json_str n, json_opt_str (map_option signature_text nested)]) bs)]"

definition durable_signature :: "('s, 'm, 'k, 'w) graph \<Rightarrow> string" where
  "durable_signature g = signature_text (scope_signature g)"

section \<open>The record\<close>

definition run_format_version :: nat where
  "run_format_version = 2"

datatype run_status = Running | SuspendedRun | CompletedRun | RejectedRun | CancelledRun | ExpiredRun

record run_version =
  rv_workflow :: string
  rv_state_schema :: string

record frame_record =
  fr_signature :: string
  fr_state :: json
  fr_next_node :: "string option"
  fr_steps_used :: nat
  fr_max_steps :: nat
  fr_active :: bool

datatype approval_decision = ApproveRun | RejectRun string

record decision_receipt =
  dr_request_id :: string
  dr_decision :: approval_decision
  dr_accepted_revision :: nat

record approval_request =
  ar_id :: string
  ar_frame :: string
  ar_node :: string
  ar_content :: json
  ar_content_token :: string
  ar_deadline :: "nat option"
  ar_receipt :: "decision_receipt option"
  ar_applied :: bool

datatype replay_policy = ManualRecovery | ReplaySafe | IdempotentWithKey

datatype task_status = Planned | Started | TaskCompleted | UnknownOutcome

datatype task_resolution = ResolvedResult json | Retry

record task_record =
  tr_id :: string
  tr_version :: string
  tr_input :: json
  tr_policy :: replay_policy
  tr_status :: task_status
  tr_attempts :: nat
  tr_result :: "json option"
  tr_resolutions :: "(string, task_resolution) hashmap"

record run_record =
  rr_format :: nat
  rr_id :: string
  rr_revision :: nat
  rr_version :: run_version
  rr_status :: run_status
  rr_steps_used :: nat
  rr_max_steps :: nat
  rr_frames :: "(string, frame_record) hashmap"
  rr_approvals :: "(string, approval_request) hashmap"
  rr_tasks :: "(string, task_record) hashmap"

section \<open>Validation\<close>

definition invalid_run :: durable_error where
  "invalid_run = Incompatible ''invalid run invariants''"

definition frame_bad :: "frame_record \<Rightarrow> bool" where
  "frame_bad f \<longleftrightarrow> fr_steps_used f > fr_max_steps f \<or> (fr_active f \<and> fr_next_node f = None)"

definition approval_bad :: "run_record \<Rightarrow> string \<times> approval_request \<Rightarrow> bool" where
  "approval_bad r ia = (case ia of (i, a) \<Rightarrow>
     i \<noteq> ar_id a \<or> hm_get (rr_frames r) (ar_frame a) = None \<or> (ar_applied a \<and> ar_receipt a = None)
     \<or> (case ar_receipt a of None \<Rightarrow> False | Some rc \<Rightarrow> dr_accepted_revision rc > rr_revision r))"

definition task_bad :: "string \<times> task_record \<Rightarrow> bool" where
  "task_bad it = (case it of (i, t) \<Rightarrow> i \<noteq> tr_id t \<or> (tr_status t = TaskCompleted \<and> tr_result t = None))"

definition validate_run :: "run_record \<Rightarrow> durable_error option" where
  "validate_run r =
     (if rr_format r \<noteq> run_format_version then Some UnsupportedFormat
      else case hm_get (rr_frames r) ''root'' of
             None \<Rightarrow> Some invalid_run
           | Some root \<Rightarrow>
               (if rv_workflow (rr_version r) = [] \<or> rv_state_schema (rr_version r) = []
                   \<or> rr_steps_used r > rr_max_steps r
                   \<or> (rr_status r = CompletedRun \<and> fr_next_node root \<noteq> None)
                   \<or> list_ex (\<lambda>(_, f). frame_bad f) (rr_frames r)
                   \<or> list_ex (approval_bad r) (rr_approvals r)
                   \<or> list_ex task_bad (rr_tasks r)
                then Some invalid_run else None))"

definition valid_run_id :: "string \<Rightarrow> bool" where
  "valid_run_id s \<longleftrightarrow> s \<noteq> [] \<and> length s \<le> 128 \<and>
     list_all (\<lambda>c. let n = (of_char c :: nat) in
       48 \<le> n \<and> n \<le> 57 \<or> 65 \<le> n \<and> n \<le> 90 \<or> 97 \<le> n \<and> n \<le> 122 \<or> n = 45 \<or> n = 95) s"

definition validate_id :: "string \<Rightarrow> durable_error option" where
  "validate_id s =
     (if valid_run_id s then None
      else Some (Conflict (''run_id must contain 1..128 ASCII letters, digits, '' @ [CHR 0x27] @ ''-'' @ [CHR 0x27]
             @ '' or '' @ [CHR 0x27] @ ''_'' @ [CHR 0x27])))"

section \<open>Writing the record\<close>

definition opt_json :: "('a \<Rightarrow> json) \<Rightarrow> 'a option \<Rightarrow> json" where
  "opt_json f x = (case x of None \<Rightarrow> JNull | Some v \<Rightarrow> f v)"

definition nat_json :: "nat \<Rightarrow> json" where
  "nat_json n = JInt (int n)"

definition map_json :: "('a \<Rightarrow> json) \<Rightarrow> (string, 'a) hashmap \<Rightarrow> json" where
  "map_json f m = JObject (map (\<lambda>(k, v). (k, f v)) m)"

fun status_json :: "run_status \<Rightarrow> json" where
  "status_json Running = JString ''Running''"
| "status_json SuspendedRun = JString ''Suspended''"
| "status_json CompletedRun = JString ''Completed''"
| "status_json RejectedRun = JString ''Rejected''"
| "status_json CancelledRun = JString ''Cancelled''"
| "status_json ExpiredRun = JString ''Expired''"

fun policy_json :: "replay_policy \<Rightarrow> json" where
  "policy_json ManualRecovery = JString ''ManualRecovery''"
| "policy_json ReplaySafe = JString ''ReplaySafe''"
| "policy_json IdempotentWithKey = JString ''IdempotentWithKey''"

fun task_status_json :: "task_status \<Rightarrow> json" where
  "task_status_json Planned = JString ''Planned''"
| "task_status_json Started = JString ''Started''"
| "task_status_json TaskCompleted = JString ''Completed''"
| "task_status_json UnknownOutcome = JString ''Unknown''"

fun decision_json :: "approval_decision \<Rightarrow> json" where
  "decision_json ApproveRun = JString ''Approve''"
| "decision_json (RejectRun reason) = JObject [(''Reject'', JObject [(''reason'', JString reason)])]"

fun resolution_json :: "task_resolution \<Rightarrow> json" where
  "resolution_json (ResolvedResult v) = JObject [(''Completed'', v)]"
| "resolution_json Retry = JString ''Retry''"

definition version_json :: "run_version \<Rightarrow> json" where
  "version_json v = JObject [(''workflow'', JString (rv_workflow v)), (''state_schema'', JString (rv_state_schema v))]"

definition frame_json :: "frame_record \<Rightarrow> json" where
  "frame_json f = JObject [
     (''graph_signature'', JString (fr_signature f)), (''state'', fr_state f),
     (''next_node'', opt_json JString (fr_next_node f)), (''steps_used'', nat_json (fr_steps_used f)),
     (''max_steps'', nat_json (fr_max_steps f)), (''active'', JBool (fr_active f))]"

definition receipt_json :: "decision_receipt \<Rightarrow> json" where
  "receipt_json r = JObject [(''request_id'', JString (dr_request_id r)), (''decision'', decision_json (dr_decision r)),
     (''accepted_revision'', nat_json (dr_accepted_revision r))]"

definition approval_json :: "approval_request \<Rightarrow> json" where
  "approval_json a = JObject [
     (''id'', JString (ar_id a)), (''frame'', JString (ar_frame a)), (''node'', JString (ar_node a)),
     (''content'', ar_content a), (''content_token'', JString (ar_content_token a)),
     (''deadline_unix_ms'', opt_json nat_json (ar_deadline a)), (''receipt'', opt_json receipt_json (ar_receipt a)),
     (''applied'', JBool (ar_applied a))]"

definition present_json :: "json \<Rightarrow> json" where
  "present_json v = JObject [(''value'', v)]"

definition task_json :: "task_record \<Rightarrow> json" where
  "task_json t = JObject [
     (''id'', JString (tr_id t)), (''version'', JString (tr_version t)), (''input'', tr_input t),
     (''policy'', policy_json (tr_policy t)), (''status'', task_status_json (tr_status t)),
     (''attempts'', nat_json (tr_attempts t)), (''result'', opt_json present_json (tr_result t)),
     (''resolutions'', map_json resolution_json (tr_resolutions t))]"

definition run_json :: "run_record \<Rightarrow> json" where
  "run_json r = JObject [
     (''format_version'', nat_json (rr_format r)), (''run_id'', JString (rr_id r)),
     (''revision'', nat_json (rr_revision r)), (''version'', version_json (rr_version r)),
     (''status'', status_json (rr_status r)), (''steps_used'', nat_json (rr_steps_used r)),
     (''max_steps'', nat_json (rr_max_steps r)), (''frames'', map_json frame_json (rr_frames r)),
     (''approvals'', map_json approval_json (rr_approvals r)), (''tasks'', map_json task_json (rr_tasks r))]"


section \<open>Reading the record\<close>

text \<open>
  The readers accept the forms the writers produce, with the members in any order, no
  unknown member, and numbers in the range of their type. (The derived code also reads a
  structure from an array of its members; \<open>decode\<close> refuses that form for the run, its
  frames and its approvals, and the model refuses it everywhere.) A member of type
  \<open>Option\<close> may be missing here, and is \<open>None\<close> then.
\<close>

definition members :: "string list \<Rightarrow> json \<Rightarrow> (string \<times> json) list option" where
  "members allowed v =
     (case v of JObject kvs \<Rightarrow> if set (map fst kvs) \<subseteq> set allowed then Some kvs else None | _ \<Rightarrow> None)"

definition member :: "(string \<times> json) list \<Rightarrow> string \<Rightarrow> (json \<Rightarrow> 'a option) \<Rightarrow> 'a option" where
  "member kvs k f = Option.bind (map_of kvs k) f"

definition nullable :: "(json \<Rightarrow> 'a option) \<Rightarrow> json \<Rightarrow> 'a option option" where
  "nullable f v = (if v = JNull then Some None else map_option Some (f v))"

definition opt_member :: "(string \<times> json) list \<Rightarrow> string \<Rightarrow> (json \<Rightarrow> 'a option) \<Rightarrow> 'a option option" where
  "opt_member kvs k f = (case map_of kvs k of None \<Rightarrow> Some None | Some v \<Rightarrow> nullable f v)"

definition nat_of :: "nat \<Rightarrow> json \<Rightarrow> nat option" where
  "nat_of bound v = (case v of JInt i \<Rightarrow> if 0 \<le> i \<and> i < int bound then Some (nat i) else None | _ \<Rightarrow> None)"

definition map_of_json :: "(json \<Rightarrow> 'a option) \<Rightarrow> json \<Rightarrow> (string, 'a) hashmap option" where
  "map_of_json f v =
     (case v of JObject kvs \<Rightarrow> those (map (\<lambda>(k, x). map_option (Pair k) (f x)) kvs) | _ \<Rightarrow> None)"

abbreviation u64_of :: "json \<Rightarrow> nat option" where "u64_of \<equiv> nat_of (2 ^ 64)"
abbreviation u32_of :: "json \<Rightarrow> nat option" where "u32_of \<equiv> nat_of (2 ^ 32)"

definition status_of :: "json \<Rightarrow> run_status option" where
  "status_of v = find (\<lambda>s. status_json s = v)
     [Running, SuspendedRun, CompletedRun, RejectedRun, CancelledRun, ExpiredRun]"

definition policy_of :: "json \<Rightarrow> replay_policy option" where
  "policy_of v = find (\<lambda>s. policy_json s = v) [ManualRecovery, ReplaySafe, IdempotentWithKey]"

definition task_status_of :: "json \<Rightarrow> task_status option" where
  "task_status_of v = find (\<lambda>s. task_status_json s = v) [Planned, Started, TaskCompleted, UnknownOutcome]"

definition decision_of :: "json \<Rightarrow> approval_decision option" where
  "decision_of v =
     (case v of
        JString s \<Rightarrow> if s = ''Approve'' then Some ApproveRun else None
      | JObject [(k, JObject kvs)] \<Rightarrow>
          (if k = ''Reject'' then map_option RejectRun (member kvs ''reason'' json_as_str) else None)
      | _ \<Rightarrow> None)"

definition resolution_of :: "json \<Rightarrow> task_resolution option" where
  "resolution_of v =
     (case v of
        JString s \<Rightarrow> if s = ''Retry'' then Some Retry else None
      | JObject [(k, x)] \<Rightarrow> if k = ''Completed'' then Some (ResolvedResult x) else None
      | _ \<Rightarrow> None)"

definition version_of :: "json \<Rightarrow> run_version option" where
  "version_of v = do {
     kvs \<leftarrow> members [''workflow'', ''state_schema''] v;
     w \<leftarrow> member kvs ''workflow'' json_as_str;
     s \<leftarrow> member kvs ''state_schema'' json_as_str;
     Some \<lparr>rv_workflow = w, rv_state_schema = s\<rparr> }"

definition frame_of :: "json \<Rightarrow> frame_record option" where
  "frame_of v = do {
     kvs \<leftarrow> members [''graph_signature'', ''state'', ''next_node'', ''steps_used'', ''max_steps'', ''active''] v;
     sg \<leftarrow> member kvs ''graph_signature'' json_as_str;
     st \<leftarrow> member kvs ''state'' Some;
     nx \<leftarrow> opt_member kvs ''next_node'' json_as_str;
     su \<leftarrow> member kvs ''steps_used'' u64_of;
     mx \<leftarrow> member kvs ''max_steps'' u64_of;
     ac \<leftarrow> member kvs ''active'' json_as_bool;
     Some \<lparr>fr_signature = sg, fr_state = st, fr_next_node = nx, fr_steps_used = su, fr_max_steps = mx, fr_active = ac\<rparr> }"

definition receipt_of :: "json \<Rightarrow> decision_receipt option" where
  "receipt_of v = do {
     kvs \<leftarrow> members [''request_id'', ''decision'', ''accepted_revision''] v;
     i \<leftarrow> member kvs ''request_id'' json_as_str;
     d \<leftarrow> member kvs ''decision'' decision_of;
     a \<leftarrow> member kvs ''accepted_revision'' u64_of;
     Some \<lparr>dr_request_id = i, dr_decision = d, dr_accepted_revision = a\<rparr> }"

definition approval_of :: "json \<Rightarrow> approval_request option" where
  "approval_of v = do {
     kvs \<leftarrow> members [''id'', ''frame'', ''node'', ''content'', ''content_token'', ''deadline_unix_ms'', ''receipt'', ''applied''] v;
     i \<leftarrow> member kvs ''id'' json_as_str;
     f \<leftarrow> member kvs ''frame'' json_as_str;
     n \<leftarrow> member kvs ''node'' json_as_str;
     c \<leftarrow> member kvs ''content'' Some;
     t \<leftarrow> member kvs ''content_token'' json_as_str;
     d \<leftarrow> opt_member kvs ''deadline_unix_ms'' u64_of;
     r \<leftarrow> opt_member kvs ''receipt'' receipt_of;
     ap \<leftarrow> member kvs ''applied'' json_as_bool;
     Some \<lparr>ar_id = i, ar_frame = f, ar_node = n, ar_content = c, ar_content_token = t, ar_deadline = d,
       ar_receipt = r, ar_applied = ap\<rparr> }"

definition present_of :: "json \<Rightarrow> json option" where
  "present_of v = do { kvs \<leftarrow> members [''value''] v; member kvs ''value'' Some }"

definition task_of :: "json \<Rightarrow> task_record option" where
  "task_of v = do {
     kvs \<leftarrow> members [''id'', ''version'', ''input'', ''policy'', ''status'', ''attempts'', ''result'', ''resolutions''] v;
     i \<leftarrow> member kvs ''id'' json_as_str;
     ve \<leftarrow> member kvs ''version'' json_as_str;
     ip \<leftarrow> member kvs ''input'' Some;
     p \<leftarrow> member kvs ''policy'' policy_of;
     s \<leftarrow> member kvs ''status'' task_status_of;
     a \<leftarrow> member kvs ''attempts'' u32_of;
     r \<leftarrow> member kvs ''result'' (nullable present_of);
     rs \<leftarrow> member kvs ''resolutions'' (map_of_json resolution_of);
     Some \<lparr>tr_id = i, tr_version = ve, tr_input = ip, tr_policy = p, tr_status = s, tr_attempts = a,
       tr_result = r, tr_resolutions = rs\<rparr> }"

definition run_of :: "json \<Rightarrow> run_record option" where
  "run_of v = do {
     kvs \<leftarrow> members [''format_version'', ''run_id'', ''revision'', ''version'', ''status'', ''steps_used'',
       ''max_steps'', ''frames'', ''approvals'', ''tasks''] v;
     fv \<leftarrow> member kvs ''format_version'' u32_of;
     i \<leftarrow> member kvs ''run_id'' json_as_str;
     rv \<leftarrow> member kvs ''revision'' u64_of;
     ve \<leftarrow> member kvs ''version'' version_of;
     st \<leftarrow> member kvs ''status'' status_of;
     su \<leftarrow> member kvs ''steps_used'' u64_of;
     mx \<leftarrow> member kvs ''max_steps'' u64_of;
     fs \<leftarrow> member kvs ''frames'' (map_of_json frame_of);
     as \<leftarrow> member kvs ''approvals'' (map_of_json approval_of);
     ts \<leftarrow> member kvs ''tasks'' (map_of_json task_of);
     Some \<lparr>rr_format = fv, rr_id = i, rr_revision = rv, rr_version = ve, rr_status = st, rr_steps_used = su,
       rr_max_steps = mx, rr_frames = fs, rr_approvals = as, rr_tasks = ts\<rparr> }"

definition object_values :: "json option \<Rightarrow> json list" where
  "object_values v = (case v of Some (JObject kvs) \<Rightarrow> map snd kvs | _ \<Rightarrow> [])"

definition decode_value :: "json \<Rightarrow> durable_error + run_record" where
  "decode_value v =
     (if Option.bind (json_get v ''format_version'') json_as_u64 \<noteq> Some run_format_version then Inl UnsupportedFormat
      else if list_ex (\<lambda>f. json_get f ''next_node'' = None) (object_values (json_get v ''frames''))
      then Inl UnsupportedFormat
      else if list_ex (\<lambda>a. json_get a ''receipt'' = None \<or> json_get a ''deadline_unix_ms'' = None)
                (object_values (json_get v ''approvals''))
      then Inl UnsupportedFormat
      else case run_of v of
             None \<Rightarrow> Inl (Codec [])
           | Some r \<Rightarrow> (case validate_run r of Some e \<Rightarrow> Inl e | None \<Rightarrow> Inr r))"

text \<open>\<open>decode\<close>: the parser of JSON text is a parameter; its error is a codec error.\<close>

definition decode :: "('b \<Rightarrow> string + json) \<Rightarrow> 'b \<Rightarrow> durable_error + run_record" where
  "decode parse b = (case parse b of Inl e \<Rightarrow> Inl (Codec e) | Inr v \<Rightarrow> decode_value v)"

section \<open>Facts about readers and writers\<close>

definition record_bounded :: "run_record \<Rightarrow> bool" where
  "record_bounded r \<longleftrightarrow>
     rr_format r < 2 ^ 32 \<and> rr_revision r < 2 ^ 64 \<and> rr_steps_used r < 2 ^ 64 \<and> rr_max_steps r < 2 ^ 64
     \<and> list_all (\<lambda>(_, f). fr_steps_used f < 2 ^ 64 \<and> fr_max_steps f < 2 ^ 64) (rr_frames r)
     \<and> list_all (\<lambda>(_, a). (case ar_deadline a of None \<Rightarrow> True | Some d \<Rightarrow> d < 2 ^ 64)
          \<and> (case ar_receipt a of None \<Rightarrow> True | Some rc \<Rightarrow> dr_accepted_revision rc < 2 ^ 64)) (rr_approvals r)
     \<and> list_all (\<lambda>(_, t). tr_attempts t < 2 ^ 32) (rr_tasks r)"

lemma nat_of_nat_json [simp]: "n < bound \<Longrightarrow> nat_of bound (nat_json n) = Some n"
  by (simp add: nat_of_def nat_json_def)

lemma status_roundtrip [simp]: "status_of (status_json s) = Some s"
  by (cases s) (simp_all add: status_of_def)

lemma policy_roundtrip [simp]: "policy_of (policy_json p) = Some p"
  by (cases p) (simp_all add: policy_of_def)

lemma task_status_roundtrip [simp]: "task_status_of (task_status_json t) = Some t"
  by (cases t) (simp_all add: task_status_of_def)

lemma decision_roundtrip [simp]: "decision_of (decision_json d) = Some d"
  by (cases d) (simp_all add: decision_of_def member_def)

lemma resolution_roundtrip [simp]: "resolution_of (resolution_json rs) = Some rs"
  by (cases rs) (simp_all add: resolution_of_def)

lemma version_roundtrip [simp]: "version_of (version_json v) = Some v"
  by (simp add: version_of_def version_json_def members_def member_def)

lemma present_roundtrip [simp]: "present_of (present_json x) = Some x"
  by (simp add: present_of_def present_json_def members_def member_def)

lemma those_map_Some: "list_all (\<lambda>x. f x = Some x) xs \<Longrightarrow> those (map f xs) = Some xs"
  by (induction xs) auto

lemma map_json_roundtrip:
  "list_all (\<lambda>(_, x). f (g x) = Some x) m \<Longrightarrow> map_of_json f (map_json g m) = Some m"
  by (induction m) (auto simp: map_of_json_def map_json_def)

lemma frame_roundtrip [simp]:
  "fr_steps_used f < 2 ^ 64 \<Longrightarrow> fr_max_steps f < 2 ^ 64 \<Longrightarrow> frame_of (frame_json f) = Some f"
  by (cases "fr_next_node f")
     (simp_all add: frame_of_def frame_json_def members_def member_def opt_member_def nullable_def opt_json_def)

lemma receipt_roundtrip [simp]: "dr_accepted_revision r < 2 ^ 64 \<Longrightarrow> receipt_of (receipt_json r) = Some r"
  by (simp add: receipt_of_def receipt_json_def members_def member_def)

lemma nat_json_not_null [simp]: "nat_json n \<noteq> JNull"
  by (simp add: nat_json_def)

lemma receipt_json_not_null [simp]: "receipt_json r \<noteq> JNull"
  by (simp add: receipt_json_def)

lemma approval_roundtrip [simp]:
  "(case ar_deadline a of None \<Rightarrow> True | Some d \<Rightarrow> d < 2 ^ 64) \<Longrightarrow>
     (case ar_receipt a of None \<Rightarrow> True | Some rc \<Rightarrow> dr_accepted_revision rc < 2 ^ 64) \<Longrightarrow>
     approval_of (approval_json a) = Some a"
  by (cases "ar_deadline a"; cases "ar_receipt a")
     (simp_all add: approval_of_def approval_json_def members_def member_def opt_member_def nullable_def opt_json_def)

lemma present_json_not_null [simp]: "present_json v \<noteq> JNull"
  by (simp add: present_json_def)

lemma task_roundtrip [simp]: "tr_attempts t < 2 ^ 32 \<Longrightarrow> task_of (task_json t) = Some t"
  by (cases "tr_result t")
     (simp_all add: task_of_def task_json_def members_def member_def nullable_def opt_json_def
        map_json_roundtrip list_all_iff)

lemma run_roundtrip:
  assumes "record_bounded r"
  shows "run_of (run_json r) = Some r"
proof -
  note b = assms [unfolded record_bounded_def list_all_iff]
  have "map_of_json frame_of (map_json frame_json (rr_frames r)) = Some (rr_frames r)"
    using b by (intro map_json_roundtrip) (force simp: list_all_iff)
  moreover have "map_of_json approval_of (map_json approval_json (rr_approvals r)) = Some (rr_approvals r)"
    using b by (intro map_json_roundtrip) (force simp: list_all_iff)
  moreover have "map_of_json task_of (map_json task_json (rr_tasks r)) = Some (rr_tasks r)"
    using b by (intro map_json_roundtrip) (force simp: list_all_iff)
  ultimately show ?thesis using assms
    by (simp add: run_of_def run_json_def members_def member_def record_bounded_def)
qed

lemma written_members_present [simp]:
  "json_get (frame_json f) ''next_node'' = Some (opt_json JString (fr_next_node f))"
  "json_get (approval_json a) ''receipt'' = Some (opt_json receipt_json (ar_receipt a))"
  "json_get (approval_json a) ''deadline_unix_ms'' = Some (opt_json nat_json (ar_deadline a))"
  by (simp_all add: frame_json_def approval_json_def)

lemma decode_value_written:
  assumes "record_bounded r"
  shows "decode_value (run_json r) = (case validate_run r of Some e \<Rightarrow> Inl e | None \<Rightarrow> Inr r)"
proof -
  let ?v = "run_json r"
  have v: "json_get ?v ''format_version'' = Some (nat_json (rr_format r))"
    "json_get ?v ''frames'' = Some (map_json frame_json (rr_frames r))"
    "json_get ?v ''approvals'' = Some (map_json approval_json (rr_approvals r))"
    by (simp_all add: run_json_def)
  have fv: "json_as_u64 (nat_json (rr_format r)) = Some (rr_format r)"
    using assms by (simp add: nat_json_def record_bounded_def)
  show ?thesis
  proof (cases "rr_format r = run_format_version")
    case False
    with v fv show ?thesis by (simp add: decode_value_def validate_run_def)
  next
    case True
    have "\<not> list_ex (\<lambda>f. json_get f ''next_node'' = None) (object_values (json_get ?v ''frames''))"
      unfolding v by (auto simp: object_values_def map_json_def list_ex_iff)
    moreover have "\<not> list_ex (\<lambda>a. json_get a ''receipt'' = None \<or> json_get a ''deadline_unix_ms'' = None)
        (object_values (json_get ?v ''approvals''))"
      unfolding v by (auto simp: object_values_def map_json_def list_ex_iff)
    ultimately show ?thesis using True v(1) fv by (simp add: decode_value_def run_roundtrip [OF assms])
  qed
qed

text \<open>
  The text form as an interface: what the stores ask of the JSON printer and parser is that a
  written value is read back. (An object is its members; the order in which the library keeps
  them is not observed.)
\<close>

locale json_text =
  fixes print :: "json \<Rightarrow> 'b" and parse :: "'b \<Rightarrow> string + json"
  assumes parse_print: "parse (print v) = Inr v"
begin

lemma decode_written:
  "record_bounded r \<Longrightarrow> decode parse (print (run_json r)) = (case validate_run r of Some e \<Rightarrow> Inl e | None \<Rightarrow> Inr r)"
  by (simp add: decode_def parse_print decode_value_written)

end

text \<open>The values themselves are one such text form, the one the in-memory examples use.\<close>

interpretation value_text: json_text "\<lambda>v. v" Inr
  by unfold_locales simp

text \<open>
  C17: A run record that is valid and within the ranges of its numbers is read back unchanged
  from what was written for it.
\<close>

theorem run_record_roundtrip:
  assumes "\<And>v. parse (print v) = Inr v" "record_bounded r" "validate_run r = None"
  shows "decode parse (print (run_json r)) = Inr r"
  using assms json_text.decode_written [of print parse r] by (simp add: json_text_def)

definition example_frame :: frame_record where
  "example_frame = \<lparr>fr_signature = ''sig'', fr_state = JObject [], fr_next_node = Some ''a'',
     fr_steps_used = 1, fr_max_steps = 5, fr_active = True\<rparr>"

definition example_approval :: approval_request where
  "example_approval = \<lparr>ar_id = ''x'', ar_frame = ''root'', ar_node = ''a'', ar_content = JNull,
     ar_content_token = ''t'', ar_deadline = None, ar_receipt = Some \<lparr>dr_request_id = ''q'',
     dr_decision = RejectRun ''no'', dr_accepted_revision = 3\<rparr>, ar_applied = False\<rparr>"

definition example_run :: run_record where
  "example_run = \<lparr>rr_format = 2, rr_id = ''run'', rr_revision = 4,
     rr_version = \<lparr>rv_workflow = ''w'', rv_state_schema = ''s''\<rparr>, rr_status = SuspendedRun,
     rr_steps_used = 1, rr_max_steps = 5, rr_frames = [(''root'', example_frame)],
     rr_approvals = [(''x'', example_approval)],
     rr_tasks = [(''t'', \<lparr>tr_id = ''t'', tr_version = ''1'', tr_input = JNull, tr_policy = ManualRecovery,
       tr_status = TaskCompleted, tr_attempts = 1, tr_result = Some JNull, tr_resolutions = []\<rparr>)]\<rparr>"

lemma example_run_ok: "record_bounded example_run" "validate_run example_run = None"
  by (simp_all add: example_run_def example_frame_def example_approval_def record_bounded_def validate_run_def
      run_format_version_def frame_bad_def approval_bad_def task_bad_def)

theorem run_record_roundtrip_witness:
  "decode Inr (run_json example_run) = Inr example_run"
  by (rule run_record_roundtrip [where print = "\<lambda>v. v"]) (simp_all add: example_run_ok)

text \<open>
  Decoding never guesses. It gives a record only from an object of the supported format in
  which every frame has an explicit cursor and every approval an explicit receipt and
  deadline, and the record satisfies the invariants of a run: a root frame, no frame beyond
  its budget, an active frame with a cursor, a finished run without one, applied approvals
  with a receipt, and completed tasks with a result.
\<close>

theorem decode_gives_valid_explicit_records:
  "case decode parse b of
     Inl e \<Rightarrow> True
   | Inr r \<Rightarrow> validate_run r = None \<and> rr_format r = run_format_version
       \<and> (\<exists>v. parse b = Inr v \<and> run_of v = Some r
            \<and> list_all (\<lambda>f. json_get f ''next_node'' \<noteq> None) (object_values (json_get v ''frames''))
            \<and> list_all (\<lambda>a. json_get a ''receipt'' \<noteq> None \<and> json_get a ''deadline_unix_ms'' \<noteq> None)
                 (object_values (json_get v ''approvals'')))
       \<and> list_all (\<lambda>(_, f). fr_steps_used f \<le> fr_max_steps f \<and> \<not> (fr_active f \<and> fr_next_node f = None)) (rr_frames r)
       \<and> list_all (\<lambda>(_, t). \<not> (tr_status t = TaskCompleted \<and> tr_result t = None)) (rr_tasks r)"
proof (cases "decode parse b")
  case (Inr r)
  then obtain v where v: "parse b = Inr v" "decode_value v = Inr r"
    by (auto simp: decode_def split: sum.splits)
  then have run: "run_of v = Some r" "validate_run r = None"
    by (auto simp: decode_value_def split: if_splits option.splits)
  from v(2) have present:
    "\<not> list_ex (\<lambda>f. json_get f ''next_node'' = None) (object_values (json_get v ''frames''))"
    "\<not> list_ex (\<lambda>a. json_get a ''receipt'' = None \<or> json_get a ''deadline_unix_ms'' = None)
        (object_values (json_get v ''approvals''))"
    by (auto simp: decode_value_def split: if_splits)
  from run(2) have inv: "rr_format r = run_format_version" "\<not> list_ex (\<lambda>(_, f). frame_bad f) (rr_frames r)"
    "\<not> list_ex task_bad (rr_tasks r)"
    by (auto simp: validate_run_def split: if_splits option.splits)
  from inv(2) have "list_all (\<lambda>(_, f). fr_steps_used f \<le> fr_max_steps f \<and> \<not> (fr_active f \<and> fr_next_node f = None)) (rr_frames r)"
    by (auto simp: list_ex_iff list_all_iff frame_bad_def)
  moreover from inv(3) have "list_all (\<lambda>(_, t). \<not> (tr_status t = TaskCompleted \<and> tr_result t = None)) (rr_tasks r)"
    by (auto simp: list_ex_iff list_all_iff task_bad_def)
  ultimately show ?thesis using Inr v run present inv(1) by (auto simp: list_ex_iff list_all_iff)
qed simp

end
