(* ===== verification/Durable_Store.thy ===== *)
theory Durable_Store
  imports Durable_Record
begin

text \<open>
  The stores of durable runs (\<open>durable/store.rs\<close>): records under an exclusive lease, in
  memory and in files. A lease is the run's identifier together with the right to load and
  save; dropping it frees the run. JSON text is written and read by the parameters \<open>print\<close>
  and \<open>parse\<close>.

  The contract the runtime relies on is the locale \<open>run_store\<close>: at most one holder, a
  successful save is what the next load reads, a failed save leaves what was stored, and
  leases do not affect records. It is interpreted on both stores.
\<close>

section \<open>The in-memory store\<close>

record 'b memory_runs =
  mr_records :: "(string, 'b) hashmap"
  mr_held :: "string list"

definition memory_runs_new :: "'b memory_runs" where
  "memory_runs_new = \<lparr>mr_records = [], mr_held = []\<rparr>"

definition memory_acquire :: "string \<Rightarrow> 'b memory_runs \<Rightarrow> durable_error option \<times> 'b memory_runs" where
  "memory_acquire i st =
     (case validate_id i of
        Some e \<Rightarrow> (Some e, st)
      | None \<Rightarrow> if i \<in> set (mr_held st) then (Some Busy, st) else (None, st\<lparr>mr_held := i # mr_held st\<rparr>))"

definition memory_release :: "string \<Rightarrow> 'b memory_runs \<Rightarrow> 'b memory_runs" where
  "memory_release i st = st\<lparr>mr_held := removeAll i (mr_held st)\<rparr>"

definition memory_inspect ::
  "('b \<Rightarrow> string + json) \<Rightarrow> string \<Rightarrow> 'b memory_runs \<Rightarrow> durable_error + run_record" where
  "memory_inspect parse i st =
     (case validate_id i of
        Some e \<Rightarrow> Inl e
      | None \<Rightarrow> (case hm_get (mr_records st) i of None \<Rightarrow> Inl NotFound | Some b \<Rightarrow> decode parse b))"

definition memory_run_load ::
  "('b \<Rightarrow> string + json) \<Rightarrow> string \<Rightarrow> 'b memory_runs \<Rightarrow> durable_error + run_record option" where
  "memory_run_load parse i st =
     (case hm_get (mr_records st) i of
        None \<Rightarrow> Inr None
      | Some b \<Rightarrow> (case decode parse b of Inl e \<Rightarrow> Inl e | Inr r \<Rightarrow> Inr (Some r)))"

definition memory_run_save ::
  "(json \<Rightarrow> 'b) \<Rightarrow> string \<Rightarrow> run_record \<Rightarrow> 'b memory_runs \<Rightarrow> durable_error option \<times> 'b memory_runs" where
  "memory_run_save print i r st =
     (if rr_id r \<noteq> i then (Some (Conflict ''run identity''), st)
      else (None, st\<lparr>mr_records := hm_insert i (print (run_json r)) (mr_records st)\<rparr>))"

section \<open>The file store\<close>

text \<open>
  A run is a directory with \<open>run.json\<close>, \<open>run.pending\<close> and the lock file. The file system
  may refuse a step of a save (\<open>fault\<close>): creating or writing the pending file, where a part
  of the text may already be there, or the rename.
\<close>

record 'b run_dir =
  rd_json :: "'b option"
  rd_pending :: "'b option"
  rd_locked :: bool

definition run_dir_new :: "'b run_dir" where
  "run_dir_new = \<lparr>rd_json = None, rd_pending = None, rd_locked = False\<rparr>"

type_synonym 'b run_files = "(string, 'b run_dir) hashmap"

datatype 'b run_fault = CreateFails string | WriteFails string 'b | RenameFails string

definition dir_of :: "string \<Rightarrow> 'b run_files \<Rightarrow> 'b run_dir" where
  "dir_of i fs = (case hm_get fs i of None \<Rightarrow> run_dir_new | Some d \<Rightarrow> d)"

definition file_acquire :: "string option \<Rightarrow> string \<Rightarrow> 'b run_files \<Rightarrow> durable_error option \<times> 'b run_files" where
  "file_acquire io_error i fs =
     (case validate_id i of
        Some e \<Rightarrow> (Some e, fs)
      | None \<Rightarrow>
          (case io_error of
             Some e \<Rightarrow> (Some (Io e), fs)
           | None \<Rightarrow>
               (let d = dir_of i fs in
                if rd_locked d then (Some Busy, fs) else (None, hm_insert i (d\<lparr>rd_locked := True\<rparr>) fs))))"

definition file_release :: "string \<Rightarrow> 'b run_files \<Rightarrow> 'b run_files" where
  "file_release i fs = hm_insert i ((dir_of i fs)\<lparr>rd_locked := False\<rparr>) fs"

definition read_record ::
  "('b \<Rightarrow> string + json) \<Rightarrow> string \<Rightarrow> 'b option \<Rightarrow> durable_error + run_record option" where
  "read_record parse i content =
     (case content of
        None \<Rightarrow> Inr None
      | Some b \<Rightarrow>
          (case decode parse b of
             Inl e \<Rightarrow> Inl e
           | Inr r \<Rightarrow> if rr_id r \<noteq> i then Inl (Incompatible ''run identity'') else Inr (Some r)))"

definition file_run_load ::
  "('b \<Rightarrow> string + json) \<Rightarrow> string \<Rightarrow> 'b run_files \<Rightarrow> durable_error + run_record option" where
  "file_run_load parse i fs = read_record parse i (rd_json (dir_of i fs))"

definition file_inspect ::
  "('b \<Rightarrow> string + json) \<Rightarrow> string \<Rightarrow> 'b run_files \<Rightarrow> durable_error + run_record" where
  "file_inspect parse i fs =
     (case validate_id i of
        Some e \<Rightarrow> Inl e
      | None \<Rightarrow> (case file_run_load parse i fs of Inl e \<Rightarrow> Inl e | Inr None \<Rightarrow> Inl NotFound | Inr (Some r) \<Rightarrow> Inr r))"

definition file_run_save ::
  "'b run_fault option \<Rightarrow> (json \<Rightarrow> 'b) \<Rightarrow> string \<Rightarrow> run_record \<Rightarrow> 'b run_files \<Rightarrow> durable_error option \<times> 'b run_files" where
  "file_run_save fault print i r fs =
     (if rr_id r \<noteq> i then (Some (Conflict ''run identity''), fs)
      else
        let d = dir_of i fs; b = print (run_json r) in
        case fault of
          Some (CreateFails e) \<Rightarrow> (Some (Io e), fs)
        | Some (WriteFails e part) \<Rightarrow> (Some (Io e), hm_insert i (d\<lparr>rd_pending := Some part\<rparr>) fs)
        | Some (RenameFails e) \<Rightarrow> (Some (Io e), hm_insert i (d\<lparr>rd_pending := Some b\<rparr>) fs)
        | None \<Rightarrow> (None, hm_insert i (d\<lparr>rd_json := Some b, rd_pending := None\<rparr>) fs))"

section \<open>The contract\<close>

definition storable :: "string \<Rightarrow> run_record \<Rightarrow> bool" where
  "storable i r \<longleftrightarrow> rr_id r = i \<and> record_bounded r \<and> validate_run r = None"

locale run_store =
  fixes acquire :: "string \<Rightarrow> 'st \<Rightarrow> durable_error option \<times> 'st"
    and release :: "string \<Rightarrow> 'st \<Rightarrow> 'st"
    and load :: "string \<Rightarrow> 'st \<Rightarrow> durable_error + run_record option"
    and save :: "string \<Rightarrow> run_record \<Rightarrow> 'st \<Rightarrow> durable_error option \<times> 'st"
    and holds :: "string \<Rightarrow> 'st \<Rightarrow> bool"
  assumes acquire_ok: "acquire i st = (None, st') \<Longrightarrow> \<not> holds i st \<and> holds i st' \<and> load j st' = load j st"
    and acquire_fails: "acquire i st = (Some e, st') \<Longrightarrow> st' = st"
    and acquire_held: "holds i st \<Longrightarrow> fst (acquire i st) \<noteq> None"
    and acquire_other: "acquire i st = (None, st') \<Longrightarrow> j \<noteq> i \<Longrightarrow> holds j st' = holds j st"
    and release_frees: "\<not> holds i (release i st) \<and> load j (release i st) = load j st"
    and release_other: "j \<noteq> i \<Longrightarrow> holds j (release i st) = holds j st"
    and save_holds: "holds j (snd (save i r st)) = holds j st"
    and save_ok: "save i r st = (None, st') \<Longrightarrow> storable i r \<Longrightarrow> load i st' = Inr (Some r)"
    and save_fails: "save i r st = (Some e, st') \<Longrightarrow> load i st' = load i st"
    and save_other: "j \<noteq> i \<Longrightarrow> load j (snd (save i r st)) = load j st"
begin

text \<open>A run that is held cannot be taken by another process until it is released.\<close>

lemma exclusive:
  assumes "acquire i st = (None, st')" "holds i st''" "fst (acquire i st'') = None"
  shows False
  using acquire_held [OF assms(2)] assms(3) by simp

lemma save_then_crash_then_load:
  assumes "save i r st = (None, st')" "storable i r" "acquire i (release i st') = (None, st'')"
  shows "load i st'' = Inr (Some r)"
  using acquire_ok [OF assms(3), of i] release_frees [of i st' i] save_ok [OF assms(1,2)] by simp

end

context json_text begin

lemma decode_storable: "storable i r \<Longrightarrow> decode parse (print (run_json r)) = Inr r"
  by (simp add: storable_def decode_written)

end

lemma dir_of_insert [simp]: "dir_of j (hm_insert i d fs) = (if j = i then d else dir_of j fs)"
  by (simp add: dir_of_def)

sublocale json_text \<subseteq> in_memory: run_store memory_acquire memory_release "memory_run_load parse"
  "memory_run_save print" "\<lambda>i st. i \<in> set (mr_held st)"
proof (unfold_locales, goal_cases)
  case (8 i r st st')
  then show ?case by (auto simp: memory_run_save_def memory_run_load_def decode_storable split: if_splits)
qed (auto simp: memory_acquire_def memory_release_def memory_run_load_def memory_run_save_def
      split: option.splits if_splits)

text \<open>The file store with an arbitrary fault in each save.\<close>

sublocale json_text \<subseteq> on_disk: run_store "file_acquire io_error" file_release "file_run_load parse"
  "file_run_save fault print" "\<lambda>i fs. rd_locked (dir_of i fs)" for io_error fault
proof (unfold_locales, goal_cases)
  case (8 i r st st')
  then show ?case
    by (auto simp: file_run_save_def file_run_load_def read_record_def decode_storable storable_def Let_def
        split: if_splits option.splits run_fault.splits)
qed (auto simp: file_acquire_def file_release_def file_run_load_def file_run_save_def Let_def
      split: option.splits if_splits run_fault.splits)

context json_text begin

lemma files_are_a_store:
  "run_store (file_acquire io_error) file_release (file_run_load parse) (file_run_save fault print)
     (\<lambda>i fs. rd_locked (dir_of i fs))"
  by (rule on_disk.run_store_axioms)

end

interpretation memory_runs: run_store memory_acquire memory_release "memory_run_load Inr"
  "memory_run_save (\<lambda>v. v)" "\<lambda>i st. i \<in> set (mr_held st)"
  by (rule value_text.in_memory.run_store_axioms)

interpretation file_runs: run_store "file_acquire None" file_release "file_run_load Inr"
  "file_run_save None (\<lambda>v. v)" "\<lambda>i fs. rd_locked (dir_of i fs)"
  by (rule value_text.on_disk.run_store_axioms)

text \<open>
  C16: A run directory always reads as the last record that was saved successfully. A save
  that fails, at whichever step and whatever part of the text it left in the pending file,
  changes nothing a reader sees; one that succeeds is what the next process loads, after the
  first one released the run or died.
\<close>

theorem run_save_is_atomic:
  assumes "\<And>v. parse (print v) = Inr v" "storable i r"
  shows "case file_run_save fault print i r fs of
           (None, fs') \<Rightarrow> file_run_load parse i (file_release i fs') = Inr (Some r)
         | (Some e, fs') \<Rightarrow> file_run_load parse i (file_release i fs') = file_run_load parse i fs"
proof -
  have laws: "json_text print parse" using assms(1) by unfold_locales
  note store = json_text.files_are_a_store [OF laws, of None fault]
  obtain res fs' where s: "file_run_save fault print i r fs = (res, fs')" by fastforce
  have "file_run_load parse i (file_release i fs') = file_run_load parse i fs'"
    using run_store.release_frees [OF store] by blast
  then show ?thesis
    using s assms(2) run_store.save_ok [OF store] run_store.save_fails [OF store]
    by (cases res) auto
qed

theorem run_save_is_atomic_witness:
  "file_run_load Inr ''run'' (file_release ''run'' (snd (file_run_save None (\<lambda>v. v) ''run'' example_run [])))
     = Inr (Some example_run)"
proof -
  have id: "rr_id example_run = ''run''" by (simp add: example_run_def)
  have "storable ''run'' example_run" by (simp add: storable_def id example_run_ok)
  from run_save_is_atomic [where parse = Inr and print = "\<lambda>v. v" and fault = None and fs = "[]", OF _ this]
  show ?thesis by (simp add: file_run_save_def id Let_def)
qed

end
