(* ===== verification/Durable_Scope.thy ===== *)
theory Durable_Scope
  imports Durable_Store
begin

text \<open>
  Everything a durable run does to its record: the session with its update protocol
  (\<open>FrameScope::update\<close>: edit a copy, raise the revision, save, publish), the frame
  operations \<open>begin\<close>, \<open>commit\<close> and \<open>cancel\<close>, identities of nodes and frames, approvals
  (\<open>durable/scope.rs\<close>), recorded tasks (\<open>durable/tasks.rs\<close>), and the operations of the
  runtime that change a record without running the graph (\<open>durable/runtime.rs\<close>).

  The lease is the argument \<open>save\<close> with the state of the store in the session. The clock is
  an argument, read once per operation; observers are not modelled (they only display).
\<close>

section \<open>Sessions\<close>

type_synonym 'st lease_save = "run_record \<Rightarrow> 'st \<Rightarrow> durable_error option \<times> 'st"

record 'st session =
  se_record :: run_record
  se_store :: 'st
  se_poisoned :: bool
  se_in_flight :: "string list"

definition session_new :: "run_record \<Rightarrow> 'st \<Rightarrow> 'st session" where
  "session_new r st = \<lparr>se_record = r, se_store = st, se_poisoned = False, se_in_flight = []\<rparr>"

definition update ::
  "'st lease_save \<Rightarrow> (run_record \<Rightarrow> durable_error + 'a \<times> run_record) \<Rightarrow> 'st session
   \<Rightarrow> (durable_error + 'a) \<times> 'st session" where
  "update save edit se =
     (if se_poisoned se then (Inl (Conflict ''previous save failed; reopen run''), se)
      else case edit (se_record se) of
             Inl e \<Rightarrow> (Inl e, se)
           | Inr (x, r) \<Rightarrow>
               (if rr_revision r \<ge> 2 ^ 64 - 1 then (Inl (Conflict ''revision overflow''), se)
                else let r' = r\<lparr>rr_revision := rr_revision r + 1\<rparr> in
                     case save r' (se_store se) of
                       (Some e, st) \<Rightarrow> (Inl e, se\<lparr>se_poisoned := True, se_store := st\<rparr>)
                     | (None, st) \<Rightarrow> (Inr x, se\<lparr>se_record := r', se_store := st\<rparr>)))"

definition set_status :: "run_status \<Rightarrow> run_record \<Rightarrow> durable_error + unit \<times> run_record" where
  "set_status s r = Inr ((), r\<lparr>rr_status := s\<rparr>)"

section \<open>Identities\<close>

definition node_scope_id :: "string \<Rightarrow> string \<Rightarrow> nat \<Rightarrow> string" where
  "node_scope_id path node invocation = path @ '':'' @ json_seq [json_str node, show_nat invocation]"

definition child_path :: "string \<Rightarrow> string \<Rightarrow> string" where
  "child_path scope_id name = scope_id @ '':'' @ json_str name"

definition task_id :: "string \<Rightarrow> string \<Rightarrow> string" where
  "task_id scope_id slot = scope_id @ '':'' @ json_str slot"

definition idempotency_key :: "string \<Rightarrow> string \<Rightarrow> string" where
  "idempotency_key run tid = json_seq [json_str run, json_str tid]"

section \<open>Frames\<close>

text \<open>The edit of \<open>FrameScope::enter\<close> for a path that has no frame yet.\<close>

definition enter_frame :: "string \<Rightarrow> frame_record \<Rightarrow> run_record \<Rightarrow> durable_error + unit \<times> run_record" where
  "enter_frame path f r = Inr ((), r\<lparr>rr_frames := hm_insert path f (rr_frames r)\<rparr>)"

definition begin_frame :: "string \<Rightarrow> string \<Rightarrow> run_record \<Rightarrow> durable_error + nat \<times> run_record" where
  "begin_frame path node r =
     (if rr_status r \<in> {RejectedRun, ExpiredRun, CancelledRun} then Inl Stopped
      else case hm_get (rr_frames r) path of
             None \<Rightarrow> Inl NotFound
           | Some f \<Rightarrow>
               (if fr_next_node f \<noteq> Some node then Inl (Conflict ''cursor mismatch'')
                else if \<not> fr_active f then
                  (if fr_steps_used f \<ge> fr_max_steps f \<or> rr_steps_used r \<ge> rr_max_steps r
                   then Inl (Conflict ''step budget exhausted'')
                   else let f' = f\<lparr>fr_steps_used := fr_steps_used f + 1, fr_active := True\<rparr> in
                        Inr (fr_steps_used f',
                             r\<lparr>rr_steps_used := rr_steps_used r + 1,
                               rr_frames := hm_insert path f' (rr_frames r)\<rparr>))
                else Inr (fr_steps_used f, r)))"

definition scope_begin ::
  "'st lease_save \<Rightarrow> string \<Rightarrow> string \<Rightarrow> 'st session \<Rightarrow> (durable_error + nat) \<times> 'st session" where
  "scope_begin save path node se = update save (begin_frame path node) se"

definition mark_applied :: "string \<Rightarrow> run_record \<Rightarrow> run_record" where
  "mark_applied aid r =
     (case hm_get (rr_approvals r) aid of
        None \<Rightarrow> r
      | Some a \<Rightarrow> r\<lparr>rr_approvals := hm_insert aid (a\<lparr>ar_applied := True\<rparr>) (rr_approvals r)\<rparr>)"

definition commit_frame ::
  "string \<Rightarrow> json \<Rightarrow> string option \<Rightarrow> run_record \<Rightarrow> durable_error + unit \<times> run_record" where
  "commit_frame path snapshot next r =
     (case hm_get (rr_frames r) path of
        None \<Rightarrow> Inl NotFound
      | Some f \<Rightarrow>
          (let r' = r\<lparr>rr_frames := hm_insert path
                       (f\<lparr>fr_state := snapshot, fr_next_node := next, fr_active := False\<rparr>) (rr_frames r)\<rparr> in
           Inr ((), case fr_next_node f of
                      None \<Rightarrow> r'
                    | Some node \<Rightarrow> mark_applied (node_scope_id path node (fr_steps_used f)) r')))"

definition scope_commit ::
  "'st lease_save \<Rightarrow> ('s \<Rightarrow> string + json) \<Rightarrow> string \<Rightarrow> 's \<Rightarrow> string option \<Rightarrow> 'st session
   \<Rightarrow> (durable_error + unit) \<times> 'st session" where
  "scope_commit save enc path s next se =
     (case enc s of
        Inl e \<Rightarrow> (Inl (Codec e), se)
      | Inr snapshot \<Rightarrow> update save (commit_frame path snapshot next) se)"

definition scope_cancel ::
  "'st lease_save \<Rightarrow> bool \<Rightarrow> 'st session \<Rightarrow> durable_error \<times> 'st session" where
  "scope_cancel save root_cancelled se =
     (if \<not> root_cancelled then (BranchCancelled, se)
      else case update save (set_status CancelledRun) se of
             (Inl e, se') \<Rightarrow> (e, se')
           | (Inr _, se') \<Rightarrow> (Stopped, se'))"

section \<open>Approvals\<close>

definition approval_new ::
  "string \<Rightarrow> string \<Rightarrow> string \<Rightarrow> json \<Rightarrow> string \<Rightarrow> nat option \<Rightarrow> nat \<Rightarrow> approval_request" where
  "approval_new i path node content token timeout now =
     \<lparr>ar_id = i, ar_frame = path, ar_node = node, ar_content = content, ar_content_token = token,
      ar_deadline = map_option (\<lambda>t. min (2 ^ 64 - 1) (now + min t (2 ^ 64 - 1))) timeout,
      ar_receipt = None, ar_applied = False\<rparr>"

definition suspend_run :: "'st lease_save \<Rightarrow> 'st session \<Rightarrow> (durable_error + unit) \<times> 'st session" where
  "suspend_run save se =
     (case update save (set_status SuspendedRun) se of
        (Inl e, se') \<Rightarrow> (Inl e, se')
      | (Inr _, se') \<Rightarrow> (Inl Suspended, se'))"

definition reject_approval :: "string \<Rightarrow> run_record \<Rightarrow> durable_error + unit \<times> run_record" where
  "reject_approval i r = Inr ((), (mark_applied i r)\<lparr>rr_status := RejectedRun\<rparr>)"

text \<open>
  \<open>NodeScope::approve\<close>. A frame that is missing would stop the program at the index
  expression; a node scope exists only after \<open>begin\<close> found the frame, and the model has
  \<open>NotFound\<close> there.
\<close>

definition scope_approve ::
  "'st lease_save \<Rightarrow> nat \<Rightarrow> string \<Rightarrow> string \<Rightarrow> string \<Rightarrow> nat \<Rightarrow> nat option \<Rightarrow> 'st session
   \<Rightarrow> (durable_error + unit) \<times> 'st session" where
  "scope_approve save now token path node invocation timeout se =
     (let i = node_scope_id path node invocation; r = se_record se in
      case hm_get (rr_approvals r) i of
        Some a \<Rightarrow>
          (case ar_receipt a of
             Some rc \<Rightarrow>
               (if dr_decision rc = ApproveRun then (Inr (), se)
                else case update save (reject_approval i) se of
                       (Inl e, se') \<Rightarrow> (Inl e, se')
                     | (Inr _, se') \<Rightarrow> (Inl Stopped, se'))
           | None \<Rightarrow>
               (if (case ar_deadline a of None \<Rightarrow> False | Some t \<Rightarrow> now \<ge> t)
                then case update save (set_status ExpiredRun) se of
                       (Inl e, se') \<Rightarrow> (Inl e, se')
                     | (Inr _, se') \<Rightarrow> (Inl Stopped, se')
                else suspend_run save se))
      | None \<Rightarrow>
          (case hm_get (rr_frames r) path of
             None \<Rightarrow> (Inl NotFound, se)
           | Some f \<Rightarrow>
               (case update save (\<lambda>r. Inr ((), r\<lparr>rr_approvals :=
                        hm_insert i (approval_new i path node (fr_state f) token timeout now) (rr_approvals r)\<rparr>)) se of
                  (Inl e, se') \<Rightarrow> (Inl e, se')
                | (Inr _, se') \<Rightarrow> suspend_run save se')))"

section \<open>Recorded tasks\<close>

record task_invocation =
  ti_task :: string
  ti_key :: string
  ti_attempt :: nat

datatype 't task_start = TaskDone 't | TaskRun task_invocation

definition task_new :: "string \<Rightarrow> string \<Rightarrow> json \<Rightarrow> replay_policy \<Rightarrow> task_record" where
  "task_new i version input policy =
     \<lparr>tr_id = i, tr_version = version, tr_input = input, tr_policy = policy, tr_status = Planned,
      tr_attempts = 0, tr_result = None, tr_resolutions = []\<rparr>"

definition plan_task :: "string \<Rightarrow> string \<Rightarrow> json \<Rightarrow> replay_policy \<Rightarrow> run_record \<Rightarrow> durable_error + unit \<times> run_record" where
  "plan_task i version input policy r =
     Inr ((), r\<lparr>rr_tasks := hm_insert i (task_new i version input policy) (rr_tasks r)\<rparr>)"

definition start_attempt :: "string \<Rightarrow> run_record \<Rightarrow> durable_error + nat \<times> run_record" where
  "start_attempt i r =
     (case hm_get (rr_tasks r) i of
        None \<Rightarrow> Inl NotFound
      | Some t \<Rightarrow>
          (if tr_attempts t \<ge> 2 ^ 32 - 1 then Inl (Conflict ''task attempt overflow'')
           else Inr (tr_attempts t + 1,
             r\<lparr>rr_tasks := hm_insert i (t\<lparr>tr_status := Started, tr_attempts := tr_attempts t + 1\<rparr>) (rr_tasks r)\<rparr>)))"

definition complete_task :: "string \<Rightarrow> json \<Rightarrow> run_record \<Rightarrow> durable_error + unit \<times> run_record" where
  "complete_task i v r =
     (case hm_get (rr_tasks r) i of
        None \<Rightarrow> Inl NotFound
      | Some t \<Rightarrow> Inr ((), r\<lparr>rr_tasks := hm_insert i (t\<lparr>tr_result := Some v, tr_status := TaskCompleted\<rparr>) (rr_tasks r)\<rparr>))"

definition mark_unknown :: "string \<Rightarrow> run_record \<Rightarrow> durable_error + unit \<times> run_record" where
  "mark_unknown i r =
     (case hm_get (rr_tasks r) i of
        None \<Rightarrow> Inl NotFound
      | Some t \<Rightarrow>
          (if rr_status r \<in> {CancelledRun, RejectedRun, ExpiredRun} then Inl Stopped
           else Inr ((), r\<lparr>rr_tasks := hm_insert i (t\<lparr>tr_status := UnknownOutcome\<rparr>) (rr_tasks r),
                           rr_status := SuspendedRun\<rparr>)))"

definition task_unknown :: "'st lease_save \<Rightarrow> string \<Rightarrow> 'st session \<Rightarrow> durable_error \<times> 'st session" where
  "task_unknown save i se =
     (case update save (mark_unknown i) se of (Inl e, se') \<Rightarrow> (e, se') | (Inr _, se') \<Rightarrow> (Suspended, se'))"

definition task_attempt :: "'st lease_save \<Rightarrow> string \<Rightarrow> 'st session \<Rightarrow> (durable_error + 't task_start) \<times> 'st session" where
  "task_attempt save i se =
     (case update save (start_attempt i) se of
        (Inl e, se') \<Rightarrow> (Inl e, se')
      | (Inr n, se') \<Rightarrow> (Inr (TaskRun \<lparr>ti_task = i, ti_key = idempotency_key (rr_id (se_record se)) i,
                                   ti_attempt = n\<rparr>), se'))"

text \<open>
  \<open>TaskRuntime::execute\<close> up to the call of the task's function: the recorded result, or the
  invocation that is now recorded as started. \<open>dec\<close> reads a result of the caller's type.
\<close>

definition task_prepare ::
  "'st lease_save \<Rightarrow> (json \<Rightarrow> string + 't) \<Rightarrow> bool \<Rightarrow> string \<Rightarrow> string \<Rightarrow> json \<Rightarrow> replay_policy \<Rightarrow> 'st session
   \<Rightarrow> (durable_error + 't task_start) \<times> 'st session" where
  "task_prepare save dec root_cancelled i version input policy se =
     (if root_cancelled then (case scope_cancel save True se of (e, se') \<Rightarrow> (Inl e, se'))
      else if rr_status (se_record se) \<in> {CompletedRun, CancelledRun, RejectedRun, ExpiredRun} then (Inl Stopped, se)
      else case hm_get (rr_tasks (se_record se)) i of
             Some t \<Rightarrow>
               (if tr_version t \<noteq> version \<or> tr_input t \<noteq> input \<or> tr_policy t \<noteq> policy
                then (Inl (Incompatible (''task input/version/policy changed: '' @ i)), se)
                else if tr_status t = TaskCompleted then
                  (case tr_result t of
                     None \<Rightarrow> (Inl (Conflict ''completed task without result''), se)
                   | Some v \<Rightarrow> (case dec v of Inl e \<Rightarrow> (Inl (Codec e), se) | Inr x \<Rightarrow> (Inr (TaskDone x), se)))
                else if tr_status t \<in> {Started, UnknownOutcome} \<and> policy = ManualRecovery
                then (case task_unknown save i se of (e, se') \<Rightarrow> (Inl e, se'))
                else task_attempt save i se)
           | None \<Rightarrow>
               (case update save (plan_task i version input policy) se of
                  (Inl e, se') \<Rightarrow> (Inl e, se')
                | (Inr _, se') \<Rightarrow> task_attempt save i se'))"

text \<open>The rest of it, given what the task's function returned (a panic counts as an error).\<close>

definition task_conclude ::
  "'st lease_save \<Rightarrow> ('t \<Rightarrow> string + json) \<Rightarrow> replay_policy \<Rightarrow> string \<Rightarrow> terminal_error + 't \<Rightarrow> 'st session
   \<Rightarrow> (terminal_error + 't) \<times> 'st session" where
  "task_conclude save enc policy i result se =
     (case result of
        Inr x \<Rightarrow>
          (case enc x of
             Inl e \<Rightarrow> (Inl (Durable (Codec e)), se)
           | Inr v \<Rightarrow> (case update save (complete_task i v) se of
                         (Inl e, se') \<Rightarrow> (Inl (Durable e), se')
                       | (Inr _, se') \<Rightarrow> (Inr x, se')))
      | Inl e \<Rightarrow>
          (if policy = ManualRecovery then (case task_unknown save i se of (e', se') \<Rightarrow> (Inl (Durable e'), se'))
           else (Inl e, se)))"

text \<open>
  The whole call, in a world that includes the session (a task may run others). A task that is
  in flight is refused; the guard is dropped at every return.
\<close>

definition task_execute ::
  "'st lease_save \<Rightarrow> ('t \<Rightarrow> string + json) \<Rightarrow> (json \<Rightarrow> string + 't) \<Rightarrow> bool
   \<Rightarrow> (task_invocation \<Rightarrow> 'st session \<Rightarrow> (terminal_error + 't) \<times> 'st session)
   \<Rightarrow> string \<Rightarrow> string \<Rightarrow> string \<Rightarrow> json \<Rightarrow> replay_policy \<Rightarrow> 'st session
   \<Rightarrow> (terminal_error + 't) \<times> 'st session" where
  "task_execute save enc dec root_cancelled body scope_id slot version input policy se =
     (let i = task_id scope_id slot in
      if i \<in> set (se_in_flight se) then (Inl (Durable (Conflict ''duplicate concurrent task identity'')), se)
      else
        let finish = (\<lambda>(res, se). (res, se\<lparr>se_in_flight := removeAll i (se_in_flight se)\<rparr>)) in
        finish
          (case task_prepare save dec root_cancelled i version input policy
                  (se\<lparr>se_in_flight := i # se_in_flight se\<rparr>) of
             (Inl e, se') \<Rightarrow> (Inl (Durable e), se')
           | (Inr (TaskDone x), se') \<Rightarrow> (Inr x, se')
           | (Inr (TaskRun call), se') \<Rightarrow>
               (case body call se' of (result, se'') \<Rightarrow> task_conclude save enc policy i result se'')))"


section \<open>Operations on a run that is not executing\<close>

record 'st store_fns =
  sf_acquire :: "string \<Rightarrow> 'st \<Rightarrow> durable_error option \<times> 'st"
  sf_release :: "string \<Rightarrow> 'st \<Rightarrow> 'st"
  sf_load :: "string \<Rightarrow> 'st \<Rightarrow> durable_error + run_record option"
  sf_save :: "string \<Rightarrow> run_record \<Rightarrow> 'st \<Rightarrow> durable_error option \<times> 'st"

definition validate_record :: "run_version \<Rightarrow> string \<Rightarrow> run_record \<Rightarrow> durable_error option" where
  "validate_record version i r =
     (if rr_id r \<noteq> i \<or> rr_version r \<noteq> version
      then Some (Incompatible ''run identity or workflow/schema version'')
      else validate_run r)"

text \<open>
  Take the lease, load and validate, work in a session on the record, and drop the lease at
  every return.
\<close>

definition with_run ::
  "'st store_fns \<Rightarrow> run_version \<Rightarrow> string \<Rightarrow> ('st session \<Rightarrow> (durable_error + 'a) \<times> 'st session) \<Rightarrow> 'st
   \<Rightarrow> (durable_error + 'a) \<times> 'st" where
  "with_run sf version i work st =
     (case sf_acquire sf i st of
        (Some e, st') \<Rightarrow> (Inl e, st')
      | (None, st1) \<Rightarrow>
          (case (case sf_load sf i st1 of
                   Inl e \<Rightarrow> (Inl e, st1)
                 | Inr None \<Rightarrow> (Inl NotFound, st1)
                 | Inr (Some r) \<Rightarrow>
                     (case validate_record version i r of
                        Some e \<Rightarrow> (Inl e, st1)
                      | None \<Rightarrow> (case work (session_new r st1) of (res, se) \<Rightarrow> (res, se_store se)))) of
             (res, st2) \<Rightarrow> (res, sf_release sf i st2)))"

definition decide_work ::
  "'st lease_save \<Rightarrow> nat \<Rightarrow> string \<Rightarrow> string \<Rightarrow> string \<Rightarrow> nat \<Rightarrow> approval_decision \<Rightarrow> 'st session
   \<Rightarrow> (durable_error + decision_receipt) \<times> 'st session" where
  "decide_work save now aid token request_id expected d se =
     (let r = se_record se in
      case hm_get (rr_approvals r) aid of
        None \<Rightarrow> (Inl NotFound, se)
      | Some a \<Rightarrow>
     (if ar_content_token a \<noteq> token then (Inl (Conflict ''approval content changed''), se)
      else case ar_receipt a of
        Some rc \<Rightarrow>
          (if dr_request_id rc = request_id \<and> dr_decision rc = d then (Inr rc, se)
           else (Inl (Conflict ''approval already decided''), se))
      | None \<Rightarrow>
     (if rr_status r \<noteq> SuspendedRun \<or> rr_revision r \<noteq> expected
      then (Inl (Conflict ''run status or revision changed''), se)
      else if (case ar_deadline a of None \<Rightarrow> False | Some t \<Rightarrow> now \<ge> t)
      then (case update save (set_status ExpiredRun) se of
              (Inl e, se') \<Rightarrow> (Inl e, se')
            | (Inr _, se') \<Rightarrow> (Inl (Conflict ''approval expired''), se'))
      else if rr_revision r \<ge> 2 ^ 64 - 1 then (Inl (Conflict ''revision overflow''), se)
      else let rc = \<lparr>dr_request_id = request_id, dr_decision = d, dr_accepted_revision = rr_revision r + 1\<rparr> in
           update save (\<lambda>r. Inr (rc, r\<lparr>rr_approvals :=
             hm_insert aid (a\<lparr>ar_receipt := Some rc\<rparr>) (rr_approvals r)\<rparr>)) se)))"

definition submit_decision where
  "submit_decision sf version now i aid token request_id expected d st =
     (if request_id = [] then (Inl (Conflict ''empty request id''), st)
      else with_run sf version i (decide_work (sf_save sf i) now aid token request_id expected d) st)"

definition cancel_work :: "'st lease_save \<Rightarrow> nat \<Rightarrow> 'st session \<Rightarrow> (durable_error + unit) \<times> 'st session" where
  "cancel_work save expected se =
     (let r = se_record se in
      if rr_status r = CancelledRun then (Inr (), se)
      else if rr_revision r \<noteq> expected \<or> rr_status r \<notin> {Running, SuspendedRun}
      then (Inl (Conflict ''run status or revision changed''), se)
      else update save (set_status CancelledRun) se)"

definition cancel_run where
  "cancel_run sf version i expected st = with_run sf version i (cancel_work (sf_save sf i) expected) st"

definition resolve_edit :: "string \<Rightarrow> task_resolution \<Rightarrow> task_record \<Rightarrow> task_record" where
  "resolve_edit request_id res t =
     (case res of
        ResolvedResult v \<Rightarrow> t\<lparr>tr_result := Some v, tr_status := TaskCompleted,
                              tr_resolutions := hm_insert request_id res (tr_resolutions t)\<rparr>
      | Retry \<Rightarrow> t\<lparr>tr_result := None, tr_status := Planned,
                   tr_resolutions := hm_insert request_id res (tr_resolutions t)\<rparr>)"

definition resolve_work ::
  "'st lease_save \<Rightarrow> string \<Rightarrow> string \<Rightarrow> nat \<Rightarrow> task_resolution \<Rightarrow> 'st session
   \<Rightarrow> (durable_error + unit) \<times> 'st session" where
  "resolve_work save tid request_id expected res se =
     (let r = se_record se in
      case hm_get (rr_tasks r) tid of
        None \<Rightarrow> (Inl NotFound, se)
      | Some t \<Rightarrow>
     (case hm_get (tr_resolutions t) request_id of
        Some previous \<Rightarrow> (if previous = res then (Inr (), se) else (Inl (Conflict ''resolution changed''), se))
      | None \<Rightarrow>
     (if rr_revision r \<noteq> expected \<or> rr_status r \<notin> {Running, SuspendedRun}
         \<or> tr_status t \<notin> {UnknownOutcome, Started}
      then (Inl (Conflict ''task/run status or revision changed''), se)
      else update save (\<lambda>r. Inr ((), r\<lparr>rr_tasks :=
             hm_insert tid (resolve_edit request_id res t) (rr_tasks r)\<rparr>)) se)))"

definition resolve_task where
  "resolve_task sf version i tid request_id expected res st =
     (if request_id = [] then (Inl (Conflict ''empty request id''), st)
      else with_run sf version i (resolve_work (sf_save sf i) tid request_id expected res) st)"

section \<open>Identities do not collide\<close>

text \<open>
  The path of a frame is determined by the nodes it is nested in: for each level the node,
  the number of its invocation and the name the node gave to the frame.
\<close>

fun scope_path :: "(string \<times> nat \<times> string) list \<Rightarrow> string" where
  "scope_path [] = ''root''"
| "scope_path ((n, k, c) # outer) = child_path (node_scope_id (scope_path outer) n k) c"

definition segment :: "string \<times> nat \<times> string \<Rightarrow> string" where
  "segment nkc = (case nkc of (n, k, c) \<Rightarrow> '':'' @ json_seq [json_str n, show_nat k] @ '':'' @ json_str c)"

lemma scope_path_segments: "scope_path xs = ''root'' @ concat (map segment (rev xs))"
  by (induction xs rule: scope_path.induct) (simp_all add: child_path_def node_scope_id_def segment_def)

lemma json_pair_prefix_free:
  assumes "json_seq [json_str n, show_nat k] @ r = json_seq [json_str n', show_nat k'] @ r'"
  shows "n = n' \<and> k = k' \<and> r = r'"
proof -
  from assms have "json_str n @ CHR '','' # show_nat k @ CHR '']'' # r
      = json_str n' @ CHR '','' # show_nat k' @ CHR '']'' # r'" by (simp add: json_seq_def)
  from json_str_prefix_free [OF this] have "n = n'" "show_nat k @ CHR '']'' # r = show_nat k' @ CHR '']'' # r'"
    by auto
  with show_nat_prefix_free [OF this(2)] show ?thesis by (simp add: char_digit_def)
qed

lemma segment_prefix_free:
  assumes "segment a @ r = segment b @ r'"
  shows "a = b \<and> r = r'"
proof -
  obtain n k c n' k' c' where ab: "a = (n, k, c)" "b = (n', k', c')" by (metis prod_cases3)
  with assms have "json_seq [json_str n, show_nat k] @ (CHR '':'' # json_str c @ r)
      = json_seq [json_str n', show_nat k'] @ (CHR '':'' # json_str c' @ r')"
    by (simp add: segment_def)
  from json_pair_prefix_free [OF this] ab json_str_prefix_free [of c r c' r'] show ?thesis by auto
qed

lemma segments_inj: "concat (map segment xs) = concat (map segment ys) \<Longrightarrow> xs = ys"
proof (induction xs arbitrary: ys)
  case Nil
  then show ?case by (cases ys) (auto simp: segment_def)
next
  case (Cons x xs)
  show ?case
  proof (cases ys)
    case Nil
    with Cons show ?thesis by (auto simp: segment_def split: prod.splits)
  next
    case (Cons y ys')
    with Cons.prems segment_prefix_free [of x "concat (map segment xs)" y "concat (map segment ys')"] Cons.IH
    show ?thesis by auto
  qed
qed

lemma scope_path_inj [simp]: "scope_path xs = scope_path ys \<longleftrightarrow> xs = ys"
  using segments_inj [of "rev xs" "rev ys"] by (auto simp: scope_path_segments)

lemma node_scope_id_path: "scope_path ((n, k, c) # xs) = child_path (node_scope_id (scope_path xs) n k) c"
  by simp

text \<open>
  C22: Two nodes of a run have the same durable identity only if they are the same node in the
  same invocation, nested in the same way; likewise for the identities of frames and of the
  tasks a node names, whatever characters the names contain.
\<close>

theorem durable_identities_do_not_collide:
  "(scope_path xs = scope_path ys \<longleftrightarrow> xs = ys)
   \<and> (node_scope_id (scope_path xs) n k = node_scope_id (scope_path ys) n' k' \<longleftrightarrow> xs = ys \<and> n = n' \<and> k = k')
   \<and> (task_id (node_scope_id (scope_path xs) n k) slot = task_id (node_scope_id (scope_path ys) n' k') slot'
       \<longleftrightarrow> xs = ys \<and> n = n' \<and> k = k' \<and> slot = slot')"
proof (intro conjI)
  have same_child: "child_path a c = child_path b c \<longleftrightarrow> a = b" for a b c by (simp add: child_path_def)
  have "node_scope_id (scope_path xs) n k = node_scope_id (scope_path ys) n' k'
      \<longleftrightarrow> scope_path ((n, k, []) # xs) = scope_path ((n', k', []) # ys)"
    unfolding node_scope_id_path same_child ..
  then show "node_scope_id (scope_path xs) n k = node_scope_id (scope_path ys) n' k' \<longleftrightarrow> xs = ys \<and> n = n' \<and> k = k'"
    by (auto simp del: scope_path.simps)
  have "task_id (node_scope_id (scope_path xs) n k) slot = scope_path ((n, k, slot) # xs)" for xs n k slot
    by (simp add: task_id_def child_path_def)
  then show "task_id (node_scope_id (scope_path xs) n k) slot = task_id (node_scope_id (scope_path ys) n' k') slot'
     \<longleftrightarrow> xs = ys \<and> n = n' \<and> k = k' \<and> slot = slot'"
    by (auto simp del: scope_path.simps)
qed simp

section \<open>The update protocol\<close>

lemma update_cases:
  obtains (failed) e where "fst (update save edit se) = Inl e" "se_record (snd (update save edit se)) = se_record se"
      "snd (update save edit se) = se \<or> se_poisoned (snd (update save edit se))"
  | (changed) x r where "edit (se_record se) = Inr (x, r)" "fst (update save edit se) = Inr x"
      "se_record (snd (update save edit se)) = r\<lparr>rr_revision := rr_revision r + 1\<rparr>"
      "\<not> se_poisoned se" "rr_revision r < 2 ^ 64 - 1"
      "save (r\<lparr>rr_revision := rr_revision r + 1\<rparr>) (se_store se) = (None, se_store (snd (update save edit se)))"
proof (cases "se_poisoned se")
  case True
  then show ?thesis by (intro failed) (auto simp: update_def)
next
  case healthy: False
  show ?thesis
  proof (cases "edit (se_record se)")
    case (Inl e)
    with healthy show ?thesis by (intro failed) (auto simp: update_def)
  next
    case (Inr xr)
    obtain x r where xr: "xr = (x, r)" by (cases xr)
    obtain res st where s: "save (r\<lparr>rr_revision := rr_revision r + 1\<rparr>) (se_store se) = (res, st)" by fastforce
    show ?thesis
    proof (cases "2 ^ 64 - 1 \<le> rr_revision r")
      case True
      with healthy Inr xr show ?thesis by (intro failed) (auto simp: update_def)
    next
      case False
      show ?thesis
      proof (cases res)
        case None
        with False healthy Inr xr s show ?thesis by (intro changed) (auto simp: update_def Let_def)
      next
        case (Some e)
        with False healthy Inr xr s show ?thesis by (intro failed) (auto simp: update_def Let_def)
      qed
    qed
  qed
qed

lemma update_frame [simp]: "se_in_flight (snd (update save edit se)) = se_in_flight se"
  by (auto simp: update_def Let_def split: sum.splits prod.splits option.splits)

text \<open>
  A session is in step with its store when the record it works on is the one the store gives
  to the next process.
\<close>

definition in_step :: "(string \<Rightarrow> 'st \<Rightarrow> durable_error + run_record option) \<Rightarrow> string \<Rightarrow> 'st session \<Rightarrow> bool" where
  "in_step load i se \<longleftrightarrow> load i (se_store se) = Inr (Some (se_record se))"

context run_store begin

lemma update_in_step:
  assumes "in_step load i se"
    and "\<And>x r. edit (se_record se) = Inr (x, r) \<Longrightarrow> storable i (r\<lparr>rr_revision := rr_revision r + 1\<rparr>)"
  shows "in_step load i (snd (update (save i) edit se))"
proof (cases rule: update_cases [of "save i" edit se])
  case (failed e)
  have "load i (se_store (snd (update (save i) edit se))) = load i (se_store se)"
    using failed(1) save_fails by (auto simp: update_def Let_def split: sum.splits prod.splits option.splits if_splits)
  with failed assms(1) show ?thesis by (simp add: in_step_def)
next
  case (changed x r)
  from save_ok [OF changed(6) assms(2) [OF changed(1)]] changed(3) show ?thesis by (simp add: in_step_def)
qed

end

text \<open>
  C10: A change of the record is visible to the session exactly when it is durable. After an
  update on the file store the record of the session is the one the next process loads,
  whether the edit was refused, a step of the save failed, or all went well; only in the last
  case it has changed, and its revision is one higher. After a failed save the session refuses
  every further update.
\<close>

theorem updates_are_durable_or_invisible:
  assumes "\<And>v. parse (print v) = Inr v"
    and "in_step (file_run_load parse) i se"
    and "\<And>x r. edit (se_record se) = Inr (x, r) \<Longrightarrow> storable i (r\<lparr>rr_revision := rr_revision r + 1\<rparr>)"
    and u: "update (file_run_save fault print i) edit se = (res, se')"
  shows "in_step (file_run_load parse) i se'
    \<and> (case res of
         Inr x \<Rightarrow> \<exists>r. edit (se_record se) = Inr (x, r) \<and> se_record se' = r\<lparr>rr_revision := rr_revision r + 1\<rparr>
       | Inl e \<Rightarrow> se_record se' = se_record se
           \<and> (se' = se \<or> (\<forall>save edit. update save (edit :: run_record \<Rightarrow> durable_error + unit \<times> run_record) se'
                = (Inl (Conflict ''previous save failed; reopen run''), se'))))"
proof -
  have laws: "json_text print parse" using assms(1) by unfold_locales
  have "in_step (file_run_load parse) i (snd (update (file_run_save fault print i) edit se))"
    using assms(3) by (rule run_store.update_in_step [OF json_text.files_are_a_store [OF laws, of None fault] assms(2)])
  then have "in_step (file_run_load parse) i se'" using u by simp
  then show ?thesis
  proof (cases rule: update_cases [of "file_run_save fault print i" edit se])
    case (failed e)
    with u \<open>in_step (file_run_load parse) i se'\<close> show ?thesis by (auto simp: update_def [where se = se'])
  next
    case (changed x r)
    with u \<open>in_step (file_run_load parse) i se'\<close> show ?thesis by auto
  qed
qed

lemma example_run_storable: "storable ''run'' (example_run\<lparr>rr_status := SuspendedRun, rr_revision := 5\<rparr>)"
  by (simp add: storable_def example_run_def example_frame_def example_approval_def record_bounded_def
      validate_run_def run_format_version_def frame_bad_def approval_bad_def task_bad_def)

theorem updates_are_durable_or_invisible_witness:
  "let se = session_new example_run [(''run'', \<lparr>rd_json = Some (run_json example_run), rd_pending = None, rd_locked = True\<rparr>)] in
   in_step (file_run_load Inr) ''run''
     (snd (update (file_run_save (Some (RenameFails ''disk full'')) (\<lambda>v. v) ''run'') (set_status SuspendedRun) se))"
proof -
  let ?se = "session_new example_run [(''run'', \<lparr>rd_json = Some (run_json example_run), rd_pending = None, rd_locked = True\<rparr>)]"
  have id: "rr_id example_run = ''run''" "rr_revision example_run = 4" by (simp_all add: example_run_def)
  have step: "in_step (file_run_load Inr) ''run'' ?se"
    using example_run_ok by (simp add: in_step_def session_new_def file_run_load_def dir_of_def read_record_def
        decode_def decode_value_written id)
  have edit: "storable ''run'' (r\<lparr>rr_revision := rr_revision r + 1\<rparr>)"
    if "set_status SuspendedRun (se_record ?se) = Inr (x, r)" for x :: unit and r
    using that example_run_storable by (auto simp: set_status_def session_new_def id)
  obtain res se' where u: "update (file_run_save (Some (RenameFails ''disk full'')) (\<lambda>v. v) ''run'')
      (set_status SuspendedRun) ?se = (res, se')" by fastforce
  from updates_are_durable_or_invisible [where print = "\<lambda>v. v" and parse = Inr, OF refl step edit u]
  show ?thesis by (simp add: u)
qed


section \<open>Histories of a run\<close>

text \<open>
  What can happen to a durable run: the operations above, in any order and with any outcome of
  the saves, and the process that executes it may die at any point and another one reopen the
  stored record. The second component counts, for each task, how often its function was
  called. A body that is called and never concludes is a process that died, or a task still in
  flight.
\<close>

inductive session_step ::
  "'st lease_save \<Rightarrow> ('s \<Rightarrow> string + json) \<Rightarrow> ('t \<Rightarrow> string + json) \<Rightarrow> (json \<Rightarrow> string + 't)
   \<Rightarrow> 'st session \<times> (string \<Rightarrow> nat) \<Rightarrow> 'st session \<times> (string \<Rightarrow> nat) \<Rightarrow> bool" for save enc tenc tdec where
  enter_step: "update save (enter_frame path f) se = (res, se') \<Longrightarrow> session_step save enc tenc tdec (se, runs) (se', runs)"
| begin_step: "scope_begin save path node se = (res, se') \<Longrightarrow> session_step save enc tenc tdec (se, runs) (se', runs)"
| commit_step: "scope_commit save enc path s next se = (res, se') \<Longrightarrow> session_step save enc tenc tdec (se, runs) (se', runs)"
| cancel_step: "scope_cancel save root_cancelled se = (e, se') \<Longrightarrow> session_step save enc tenc tdec (se, runs) (se', runs)"
| approve_step: "scope_approve save now token path node k timeout se = (res, se') \<Longrightarrow> session_step save enc tenc tdec (se, runs) (se', runs)"
| status_step: "update save (set_status status) se = (res, se') \<Longrightarrow> session_step save enc tenc tdec (se, runs) (se', runs)"
| prepare_step: "task_prepare save tdec root_cancelled i version input policy se = (res, se') \<Longrightarrow>
     session_step save enc tenc tdec (se, runs)
       (se', case res of Inr (TaskRun call) \<Rightarrow> runs(i := runs i + 1) | _ \<Rightarrow> runs)"
| conclude_step: "task_conclude save tenc policy i result se = (res, se') \<Longrightarrow> session_step save enc tenc tdec (se, runs) (se', runs)"
| flight_step: "session_step save enc tenc tdec (se, runs) (se\<lparr>se_in_flight := ids\<rparr>, runs)"
| decide_step: "decide_work save now aid token request_id expected d se = (res, se') \<Longrightarrow>
     session_step save enc tenc tdec (se, runs) (se', runs)"
| withdraw_step: "cancel_work save expected se = (res, se') \<Longrightarrow> session_step save enc tenc tdec (se, runs) (se', runs)"
| resolve_step: "resolve_work save tid request_id expected resolution se = (res, se') \<Longrightarrow>
     session_step save enc tenc tdec (se, runs) (se', runs)"
| reopen_step: "session_step save enc tenc tdec (se, runs) (session_new (se_record se) st, runs)"

inductive history ::
  "'st lease_save \<Rightarrow> ('s \<Rightarrow> string + json) \<Rightarrow> ('t \<Rightarrow> string + json) \<Rightarrow> (json \<Rightarrow> string + 't)
   \<Rightarrow> 'st session \<times> (string \<Rightarrow> nat) \<Rightarrow> 'st session \<times> (string \<Rightarrow> nat) \<Rightarrow> bool" for save enc tenc tdec where
  start: "history save enc tenc tdec x x"
| step: "history save enc tenc tdec x y \<Longrightarrow> session_step save enc tenc tdec y z \<Longrightarrow> history save enc tenc tdec x z"

lemma update_record:
  assumes "update save edit se = (res, se')"
  obtains (same) "se_record se' = se_record se" "\<And>x. res \<noteq> Inr x"
  | (changed) x r where "edit (se_record se) = Inr (x, r)" "res = Inr x"
      "se_record se' = r\<lparr>rr_revision := rr_revision r + 1\<rparr>"
  using assms by (cases rule: update_cases [of save edit se]) auto

text \<open>The edits that leave the tasks alone, and those that leave receipts alone.\<close>

definition keeps_tasks :: "run_record \<Rightarrow> run_record \<Rightarrow> bool" where
  "keeps_tasks r r' \<longleftrightarrow> rr_tasks r' = rr_tasks r"

definition keeps_receipts :: "run_record \<Rightarrow> run_record \<Rightarrow> bool" where
  "keeps_receipts r r' \<longleftrightarrow>
     (\<forall>aid a rc. hm_get (rr_approvals r) aid = Some a \<longrightarrow> ar_receipt a = Some rc \<longrightarrow>
        (\<exists>a'. hm_get (rr_approvals r') aid = Some a' \<and> ar_receipt a' = Some rc
           \<and> ar_content a' = ar_content a \<and> ar_content_token a' = ar_content_token a))"

lemma keeps_refl [simp]: "keeps_tasks r r" "keeps_receipts r r"
  by (auto simp: keeps_tasks_def keeps_receipts_def)

lemma keeps_trans:
  "keeps_tasks r r' \<Longrightarrow> keeps_tasks r' r'' \<Longrightarrow> keeps_tasks r r''"
  "keeps_receipts r r' \<Longrightarrow> keeps_receipts r' r'' \<Longrightarrow> keeps_receipts r r''"
  by (simp add: keeps_tasks_def) (fastforce simp: keeps_receipts_def)

lemma update_keeps:
  assumes "update save edit se = (res, se')"
  shows "(\<And>x r. edit (se_record se) = Inr (x, r) \<Longrightarrow> keeps_tasks (se_record se) r) \<Longrightarrow> keeps_tasks (se_record se) (se_record se')"
    and "(\<And>x r. edit (se_record se) = Inr (x, r) \<Longrightarrow> keeps_receipts (se_record se) r) \<Longrightarrow> keeps_receipts (se_record se) (se_record se')"
  using assms by (cases rule: update_record; force simp: keeps_tasks_def keeps_receipts_def)+

lemma mark_applied_keeps: "keeps_tasks r (mark_applied i r)" "keeps_receipts r (mark_applied i r)"
  by (auto simp: mark_applied_def keeps_tasks_def keeps_receipts_def split: option.splits)

lemma commit_frame_keeps:
  "commit_frame path snapshot next r = Inr (x, r') \<Longrightarrow> keeps_tasks r r' \<and> keeps_receipts r r'"
proof -
  let ?set = "\<lambda>f. r\<lparr>rr_frames := hm_insert path (f\<lparr>fr_state := snapshot, fr_next_node := next, fr_active := False\<rparr>) (rr_frames r)\<rparr>"
  assume "commit_frame path snapshot next r = Inr (x, r')"
  then obtain f where "r' = ?set f \<or> (\<exists>i. r' = mark_applied i (?set f))"
    by (auto simp: commit_frame_def Let_def split: option.splits)
  moreover have "keeps_tasks r (?set f)" "keeps_receipts r (?set f)"
    by (simp_all add: keeps_tasks_def keeps_receipts_def)
  ultimately show ?thesis using mark_applied_keeps keeps_trans by blast
qed


definition keeps_both :: "run_record \<Rightarrow> run_record \<Rightarrow> bool" where
  "keeps_both r r' \<longleftrightarrow> keeps_tasks r r' \<and> keeps_receipts r r'"

lemma keeps_both_refl [simp]: "keeps_both r r"
  by (simp add: keeps_both_def)

lemma keeps_both_trans: "keeps_both r r' \<Longrightarrow> keeps_both r' r'' \<Longrightarrow> keeps_both r r''"
  unfolding keeps_both_def using keeps_trans by blast

lemma update_keeps_both:
  assumes "update save edit se = (res, se')"
    and "\<And>x r. edit (se_record se) = Inr (x, r) \<Longrightarrow> keeps_both (se_record se) r"
  shows "keeps_both (se_record se) (se_record se')"
  using update_keeps [OF assms(1)] assms(2) by (auto simp: keeps_both_def)

lemma set_status_keeps: "set_status s r = Inr (x, r') \<Longrightarrow> keeps_both r r'"
  by (auto simp: set_status_def keeps_both_def keeps_tasks_def keeps_receipts_def)

lemma status_update_keeps:
  "update save (set_status s) se = (res, se') \<Longrightarrow> keeps_both (se_record se) (se_record se')"
  by (erule update_keeps_both) (rule set_status_keeps)

lemma enter_frame_keeps:
  "update save (enter_frame path f) se = (res, se') \<Longrightarrow> keeps_both (se_record se) (se_record se')"
  by (erule update_keeps_both) (auto simp: enter_frame_def keeps_both_def keeps_tasks_def keeps_receipts_def)

lemma begin_frame_keeps: "begin_frame path node r = Inr (x, r') \<Longrightarrow> keeps_both r r'"
  by (auto simp: begin_frame_def keeps_both_def keeps_tasks_def keeps_receipts_def Let_def
      split: if_splits option.splits)

lemma suspend_run_keeps: "suspend_run save se = (res, se') \<Longrightarrow> keeps_both (se_record se) (se_record se')"
  by (auto simp: suspend_run_def split: prod.splits sum.splits intro!: update_keeps_both dest: set_status_keeps)

lemma scope_begin_keeps: "scope_begin save path node se = (res, se') \<Longrightarrow> keeps_both (se_record se) (se_record se')"
  unfolding scope_begin_def by (erule update_keeps_both) (rule begin_frame_keeps)

lemma scope_commit_keeps: "scope_commit save enc path s nxt se = (res, se') \<Longrightarrow> keeps_both (se_record se) (se_record se')"
  by (auto simp: scope_commit_def keeps_both_def [of "se_record se" r for r] split: sum.splits
      dest!: commit_frame_keeps elim!: update_keeps_both [unfolded keeps_both_def])

lemma scope_cancel_keeps: "scope_cancel save rc se = (e, se') \<Longrightarrow> keeps_both (se_record se) (se_record se')"
  by (auto simp: scope_cancel_def split: if_splits prod.splits sum.splits
      intro!: update_keeps_both dest: set_status_keeps)

lemma cancel_work_keeps: "cancel_work save expected se = (res, se') \<Longrightarrow> keeps_both (se_record se) (se_record se')"
  by (auto simp: cancel_work_def Let_def split: if_splits intro!: update_keeps_both dest: set_status_keeps)

lemma new_approval_keeps:
  "hm_get (rr_approvals r) i = None \<Longrightarrow> keeps_both r (r\<lparr>rr_approvals := hm_insert i a (rr_approvals r)\<rparr>)"
  by (auto simp: keeps_both_def keeps_tasks_def keeps_receipts_def)

lemma undecided_approval_keeps:
  "hm_get (rr_approvals r) i = Some a \<Longrightarrow> ar_receipt a = None \<Longrightarrow>
     keeps_both r (r\<lparr>rr_approvals := hm_insert i a' (rr_approvals r)\<rparr>)"
  by (auto simp: keeps_both_def keeps_tasks_def keeps_receipts_def)

lemma reject_keeps: "reject_approval i r = Inr (x, r') \<Longrightarrow> keeps_both r r'"
  using mark_applied_keeps [of r i]
  by (auto simp: reject_approval_def keeps_both_def keeps_tasks_def keeps_receipts_def)

lemma reject_update_keeps:
  "update save (reject_approval i) se = (res, se') \<Longrightarrow> keeps_both (se_record se) (se_record se')"
  by (erule update_keeps_both) (rule reject_keeps)

lemma scope_approve_keeps:
  assumes "scope_approve save now token path node k timeout se = (res, se')"
  shows "keeps_both (se_record se) (se_record se')"
proof -
  let ?i = "node_scope_id path node k"
  show ?thesis
  proof (cases "hm_get (rr_approvals (se_record se)) ?i")
    case (Some a)
    with assms show ?thesis
      by (auto simp: scope_approve_def Let_def split: option.splits if_splits prod.splits sum.splits
          dest!: suspend_run_keeps status_update_keeps reject_update_keeps)
  next
    case None
    show ?thesis
    proof (cases "hm_get (rr_frames (se_record se)) path")
      case no_frame: None
      with None assms show ?thesis by (simp add: scope_approve_def Let_def)
    next
      case (Some f)
      let ?edit = "\<lambda>r. Inr ((), r\<lparr>rr_approvals :=
          hm_insert ?i (approval_new ?i path node (fr_state f) token timeout now) (rr_approvals r)\<rparr>)"
      obtain res1 se1 where u: "update save ?edit se = (res1, se1)" by fastforce
      have first: "keeps_both (se_record se) (se_record se1)"
        by (rule update_keeps_both [OF u]) (auto simp: new_approval_keeps [OF None])
      show ?thesis
      proof (cases res1)
        case (Inl e)
        with first None Some u assms show ?thesis by (simp add: scope_approve_def Let_def)
      next
        case (Inr x)
        with None Some u assms have "suspend_run save se1 = (res, se')" by (simp add: scope_approve_def Let_def)
        from keeps_both_trans [OF first suspend_run_keeps [OF this]] show ?thesis .
      qed
    qed
  qed
qed

lemma decide_work_keeps:
  assumes "decide_work save now aid token request_id expected d se = (res, se')"
  shows "keeps_both (se_record se) (se_record se')"
proof (cases "hm_get (rr_approvals (se_record se)) aid")
  case None
  with assms show ?thesis by (simp add: decide_work_def Let_def)
next
  case (Some a)
  with assms show ?thesis
    by (auto simp: decide_work_def Let_def split: option.splits if_splits prod.splits sum.splits
        intro!: update_keeps_both undecided_approval_keeps dest: set_status_keeps)
qed

text \<open>The task operations touch the tasks and the status only.\<close>

lemma task_edit_keeps_receipts:
  "plan_task i version input policy r = Inr (u, r') \<Longrightarrow> keeps_receipts r r'"
  "start_attempt i r = Inr (n, r') \<Longrightarrow> keeps_receipts r r'"
  "complete_task i v r = Inr (u, r') \<Longrightarrow> keeps_receipts r r'"
  "mark_unknown i r = Inr (u, r') \<Longrightarrow> keeps_receipts r r'"
  by (auto simp: plan_task_def start_attempt_def complete_task_def mark_unknown_def keeps_receipts_def
      split: option.splits if_splits)

lemma task_unknown_keeps_receipts:
  "task_unknown save i se = (e, se') \<Longrightarrow> keeps_receipts (se_record se) (se_record se')"
  by (auto simp: task_unknown_def split: prod.splits sum.splits
      intro!: update_keeps(2) dest: task_edit_keeps_receipts)

lemma task_attempt_keeps_receipts:
  "task_attempt save i se = (res, se') \<Longrightarrow> keeps_receipts (se_record se) (se_record se')"
  by (auto simp: task_attempt_def split: prod.splits sum.splits
      dest!: update_keeps(2) [OF _ task_edit_keeps_receipts(2)])

lemma scope_cancel_keeps_receipts:
  "scope_cancel save rc se = (e, se') \<Longrightarrow> keeps_receipts (se_record se) (se_record se')"
  by (drule scope_cancel_keeps) (simp add: keeps_both_def)

lemma task_prepare_keeps_receipts:
  assumes "task_prepare save dec rc i version input policy se = (res, se')"
  shows "keeps_receipts (se_record se) (se_record se')"
proof (cases "hm_get (rr_tasks (se_record se)) i")
  case (Some t)
  with assms show ?thesis
    by (auto simp: task_prepare_def split: if_splits option.splits sum.splits prod.splits
        dest!: scope_cancel_keeps_receipts task_unknown_keeps_receipts task_attempt_keeps_receipts)
next
  case None
  obtain r1 se1 where u: "update save (plan_task i version input policy) se = (r1, se1)" by fastforce
  have "keeps_receipts (se_record se) (se_record se1)"
    by (rule update_keeps(2) [OF u]) (rule task_edit_keeps_receipts(1))
  with None u assms show ?thesis
    by (auto simp: task_prepare_def split: if_splits option.splits sum.splits prod.splits
        dest!: scope_cancel_keeps_receipts task_attempt_keeps_receipts intro: keeps_trans)
qed

lemma task_conclude_keeps_receipts:
  "task_conclude save enc policy i result se = (res, se') \<Longrightarrow> keeps_receipts (se_record se) (se_record se')"
  by (auto simp: task_conclude_def split: sum.splits prod.splits if_splits
      dest!: task_unknown_keeps_receipts update_keeps(2) [OF _ task_edit_keeps_receipts(3)])

lemma resolve_work_keeps_receipts:
  "resolve_work save tid request_id expected resolution se = (res, se') \<Longrightarrow> keeps_receipts (se_record se) (se_record se')"
  by (auto simp: resolve_work_def Let_def split: option.splits if_splits intro!: update_keeps(2))
     (auto simp: keeps_receipts_def)

lemma session_step_keeps_receipts:
  "session_step save enc tenc tdec (se, runs) (se', runs') \<Longrightarrow> keeps_receipts (se_record se) (se_record se')"
proof (induction "(se, runs)" "(se', runs')" rule: session_step.induct)
qed (auto simp: keeps_both_def session_new_def
      dest!: enter_frame_keeps scope_begin_keeps scope_commit_keeps scope_cancel_keeps scope_approve_keeps cancel_work_keeps
        decide_work_keeps task_prepare_keeps_receipts task_conclude_keeps_receipts resolve_work_keeps_receipts
        status_update_keeps)


section \<open>Decisions are final\<close>

lemma history_keeps_receipts:
  "history save enc tenc tdec x y \<Longrightarrow> keeps_receipts (se_record (fst x)) (se_record (fst y))"
proof (induction rule: history.induct)
  case (step x y z)
  have "keeps_receipts (se_record (fst y)) (se_record (fst z))"
    using step.hyps(2) session_step_keeps_receipts [of save enc tenc tdec "fst y" "snd y" "fst z" "snd z"] by simp
  with step.IH show ?case by (rule keeps_trans)
qed simp

text \<open>
  C20: An accepted decision is final. Whatever happens to a run after an approval has its
  receipt (other decisions, execution, suspension, cancellation, crashes and restarts, failing
  saves), the receipt, the approved content and its token stay as they are; and a later
  submission is answered with that receipt if it repeats the request and the decision, and
  with a conflict otherwise, without a change of the run.
\<close>

theorem accepted_decisions_are_final:
  assumes "history save enc tenc tdec (se, runs) (se', runs')"
    and "hm_get (rr_approvals (se_record se)) aid = Some a" "ar_receipt a = Some rc"
  shows "\<exists>a'. hm_get (rr_approvals (se_record se')) aid = Some a' \<and> ar_receipt a' = Some rc
           \<and> ar_content a' = ar_content a \<and> ar_content_token a' = ar_content_token a
           \<and> decide_work save now aid (ar_content_token a) request_id expected d se'
             = (if dr_request_id rc = request_id \<and> dr_decision rc = d then Inr rc
                else Inl (Conflict ''approval already decided''), se')"
proof -
  from history_keeps_receipts [OF assms(1)] assms(2,3) obtain a' where
    "hm_get (rr_approvals (se_record se')) aid = Some a'" "ar_receipt a' = Some rc"
    "ar_content a' = ar_content a" "ar_content_token a' = ar_content_token a"
    unfolding keeps_receipts_def by fastforce
  then show ?thesis by (simp add: decide_work_def)
qed

definition memory_session :: "unit session" where
  "memory_session = session_new example_run ()"

abbreviation always_saves :: "unit lease_save" where
  "always_saves \<equiv> \<lambda>r st. (None, st)"

theorem accepted_decisions_are_final_witness:
  "fst (decide_work always_saves 0 ''x'' ''t'' ''q'' 4 ApproveRun (snd (cancel_work always_saves 4 memory_session)))
     = Inl (Conflict ''approval already decided'')"
proof -
  let ?id = "Inr :: json \<Rightarrow> string + json"
  obtain res se' where c: "cancel_work always_saves 4 memory_session = (res, se')" by fastforce
  have "history always_saves ?id ?id ?id (memory_session, \<lambda>_. 0) (se', \<lambda>_. 0)"
    by (rule history.step [OF history.start]) (rule withdraw_step [OF c])
  moreover have "hm_get (rr_approvals (se_record memory_session)) ''x'' = Some example_approval"
    by (simp add: memory_session_def session_new_def example_run_def)
  ultimately show ?thesis
    using accepted_decisions_are_final [where save = always_saves and enc = ?id and tenc = ?id and tdec = ?id
        and a = example_approval and rc = "the (ar_receipt example_approval)" and now = 0 and request_id = "''q''"
        and expected = 4 and d = ApproveRun] c
    by (fastforce simp: example_approval_def)
qed

text \<open>
  C21: A durable barrier opens only by a recorded approval: \<open>approve\<close> returns success exactly
  when the approval of this node and invocation has a receipt with the decision to approve,
  and then it changes nothing. Without a receipt the run is suspended, rejected or expired,
  and never passes.
\<close>

theorem barrier_opens_only_by_recorded_approval:
  "fst (scope_approve save now token path node k timeout se) = Inr () \<longleftrightarrow>
     (\<exists>a rc. hm_get (rr_approvals (se_record se)) (node_scope_id path node k) = Some a
        \<and> ar_receipt a = Some rc \<and> dr_decision rc = ApproveRun)"
proof -
  have "fst (suspend_run save se') \<noteq> Inr ()" for se'
    by (auto simp: suspend_run_def split: prod.splits sum.splits)
  then show ?thesis
    by (auto simp: scope_approve_def Let_def split: option.splits prod.splits sum.splits)
qed

section \<open>How often a task runs\<close>

definition retries :: "task_record \<Rightarrow> nat" where
  "retries t = length (filter (\<lambda>(_, r). r = Retry) (tr_resolutions t))"

definition task_ok :: "(string \<Rightarrow> nat) \<Rightarrow> string \<Rightarrow> task_record option \<Rightarrow> bool" where
  "task_ok runs i task =
     (case task of
        None \<Rightarrow> runs i = 0
      | Some t \<Rightarrow> runs i = tr_attempts t
          \<and> (tr_policy t = ManualRecovery \<longrightarrow> tr_attempts t \<le> retries t + (if tr_status t = Planned then 0 else 1)))"

definition tasks_ok :: "run_record \<Rightarrow> (string \<Rightarrow> nat) \<Rightarrow> bool" where
  "tasks_ok r runs \<longleftrightarrow> (\<forall>i. task_ok runs i (hm_get (rr_tasks r) i))"

lemma task_ok_cong: "runs' i = runs i \<Longrightarrow> task_ok runs' i t = task_ok runs i t"
  by (simp add: task_ok_def split: option.split)

lemma tasks_ok_insert:
  assumes "tasks_ok r runs" "task_ok runs' i (Some t)" "\<And>j. j \<noteq> i \<Longrightarrow> runs' j = runs j"
  shows "tasks_ok (r\<lparr>rr_tasks := hm_insert i t (rr_tasks r)\<rparr>) runs'"
  unfolding tasks_ok_def
proof
  fix j
  show "task_ok runs' j (hm_get (rr_tasks (r\<lparr>rr_tasks := hm_insert i t (rr_tasks r)\<rparr>)) j)"
  proof (cases "j = i")
    case False
    with assms(1) task_ok_cong [of runs' j runs] assms(3) [OF False] show ?thesis by (simp add: tasks_ok_def)
  qed (use assms(2) in simp)
qed

lemma tasks_ok_frame:
  "keeps_tasks r r' \<Longrightarrow> tasks_ok r' runs = tasks_ok r runs"
  by (simp add: tasks_ok_def keeps_tasks_def)

lemma tasks_ok_revision [simp]: "tasks_ok (r\<lparr>rr_revision := n\<rparr>) runs = tasks_ok r runs"
  "tasks_ok (r\<lparr>rr_status := s\<rparr>) runs = tasks_ok r runs"
  by (simp_all add: tasks_ok_def)

lemma update_tasks_ok:
  assumes "update save edit se = (res, se')" "tasks_ok (se_record se) runs"
    and "\<And>x r. edit (se_record se) = Inr (x, r) \<Longrightarrow> tasks_ok r (runs' x)"
  shows "case res of Inl e \<Rightarrow> tasks_ok (se_record se') runs | Inr x \<Rightarrow> tasks_ok (se_record se') (runs' x)"
  using assms(1) by (cases rule: update_record) (use assms(2,3) in \<open>auto split: sum.splits\<close>)


lemma update_tasks_ok_same:
  assumes "update save edit se = (res, se')" "tasks_ok (se_record se) runs"
    and "\<And>x r. edit (se_record se) = Inr (x, r) \<Longrightarrow> tasks_ok r runs"
  shows "tasks_ok (se_record se') runs"
  using update_tasks_ok [OF assms(1,2), of "\<lambda>_. runs"] assms(3) by (simp split: sum.splits)

lemma plan_task_ok:
  "hm_get (rr_tasks r) i = None \<Longrightarrow> tasks_ok r runs \<Longrightarrow> plan_task i version input policy r = Inr (u, r') \<Longrightarrow> tasks_ok r' runs"
proof -
  assume fresh: "hm_get (rr_tasks r) i = None" and ok: "tasks_ok r runs"
    and p: "plan_task i version input policy r = Inr (u, r')"
  have "task_ok runs i None" using ok [unfolded tasks_ok_def, rule_format, of i] fresh by simp
  then have "task_ok runs i (Some (task_new i version input policy))"
    by (simp add: task_ok_def task_new_def)
  with ok p show "tasks_ok r' runs" by (auto simp: plan_task_def intro!: tasks_ok_insert)
qed

lemma complete_task_ok: "tasks_ok r runs \<Longrightarrow> complete_task i v r = Inr (u, r') \<Longrightarrow> tasks_ok r' runs"
proof -
  assume ok: "tasks_ok r runs" and c: "complete_task i v r = Inr (u, r')"
  then obtain t where t: "hm_get (rr_tasks r) i = Some t"
    and r': "r' = r\<lparr>rr_tasks := hm_insert i (t\<lparr>tr_result := Some v, tr_status := TaskCompleted\<rparr>) (rr_tasks r)\<rparr>"
    by (auto simp: complete_task_def split: option.splits)
  have "task_ok runs i (Some t)" using ok [unfolded tasks_ok_def, rule_format, of i] t by simp
  then have "task_ok runs i (Some (t\<lparr>tr_result := Some v, tr_status := TaskCompleted\<rparr>))"
    by (auto simp: task_ok_def retries_def split: if_splits)
  with ok show "tasks_ok r' runs" unfolding r' by (intro tasks_ok_insert) auto
qed

lemma mark_unknown_ok: "tasks_ok r runs \<Longrightarrow> mark_unknown i r = Inr (u, r') \<Longrightarrow> tasks_ok r' runs"
proof -
  assume ok: "tasks_ok r runs" and c: "mark_unknown i r = Inr (u, r')"
  then obtain t where t: "hm_get (rr_tasks r) i = Some t"
    and r': "r' = r\<lparr>rr_tasks := hm_insert i (t\<lparr>tr_status := UnknownOutcome\<rparr>) (rr_tasks r)\<rparr>\<lparr>rr_status := SuspendedRun\<rparr>"
    by (auto simp: mark_unknown_def split: option.splits if_splits)
  have "task_ok runs i (Some t)" using ok [unfolded tasks_ok_def, rule_format, of i] t by simp
  then have "task_ok runs i (Some (t\<lparr>tr_status := UnknownOutcome\<rparr>))"
    by (auto simp: task_ok_def retries_def split: if_splits)
  with ok show "tasks_ok r' runs" unfolding r' tasks_ok_revision by (intro tasks_ok_insert) auto
qed

lemma start_attempt_ok:
  assumes "tasks_ok r runs" "start_attempt i r = Inr (n, r')" "hm_get (rr_tasks r) i = Some t"
    and "tr_policy t = ManualRecovery \<Longrightarrow> tr_status t = Planned"
  shows "tasks_ok r' (runs(i := runs i + 1))"
proof -
  let ?t = "t\<lparr>tr_status := Started, tr_attempts := tr_attempts t + 1\<rparr>"
  from assms(2,3) have r': "r' = r\<lparr>rr_tasks := hm_insert i ?t (rr_tasks r)\<rparr>"
    by (auto simp: start_attempt_def split: if_splits)
  have "task_ok runs i (Some t)" using assms(1) [unfolded tasks_ok_def, rule_format, of i] assms(3) by simp
  with assms(4) have "task_ok (runs(i := runs i + 1)) i (Some ?t)" by (auto simp: task_ok_def retries_def)
  with assms(1) show ?thesis unfolding r' by (intro tasks_ok_insert) auto
qed

lemma resolve_edit_ok:
  assumes "task_ok runs i (Some t)" "hm_get (tr_resolutions t) request_id = None"
    and "tr_status t \<in> {UnknownOutcome, Started}"
  shows "task_ok runs i (Some (resolve_edit request_id res t))"
  using assms
  by (auto simp: task_ok_def resolve_edit_def retries_def hm_insert_fresh split: task_resolution.splits)

lemma task_unknown_ok: "task_unknown save i se = (e, se') \<Longrightarrow> tasks_ok (se_record se) runs \<Longrightarrow> tasks_ok (se_record se') runs"
  by (auto simp: task_unknown_def split: prod.splits sum.splits dest!: update_tasks_ok_same [where runs = runs]
      dest: mark_unknown_ok)

lemma task_attempt_ok:
  assumes "task_attempt save i se = (res, se')" "tasks_ok (se_record se) runs" "hm_get (rr_tasks (se_record se)) i = Some t"
    and "tr_policy t = ManualRecovery \<Longrightarrow> tr_status t = Planned"
  shows "tasks_ok (se_record se') (case res of Inr (TaskRun call) \<Rightarrow> runs(i := runs i + 1) | _ \<Rightarrow> runs)"
proof -
  obtain r1 se1 where u: "update save (start_attempt i) se = (r1, se1)" by fastforce
  from update_tasks_ok [OF u assms(2), of "\<lambda>_. runs(i := runs i + 1)"] start_attempt_ok [OF assms(2) _ assms(3,4)]
  have "case r1 of Inl e \<Rightarrow> tasks_ok (se_record se1) runs | Inr x \<Rightarrow> tasks_ok (se_record se1) (runs(i := runs i + 1))"
    by blast
  with u assms(1) show ?thesis by (auto simp: task_attempt_def split: sum.splits)
qed


lemma task_attempt_failed_ok:
  "task_attempt save i se = (Inl e, se') \<Longrightarrow> tasks_ok (se_record se) runs \<Longrightarrow> tasks_ok (se_record se') runs"
  by (auto simp: task_attempt_def split: prod.splits sum.splits elim: update_record)

lemma task_attempt_started_ok:
  "task_attempt save i se = (Inr x, se') \<Longrightarrow> tasks_ok (se_record se) runs \<Longrightarrow>
     hm_get (rr_tasks (se_record se)) i = Some t \<Longrightarrow> (tr_policy t = ManualRecovery \<Longrightarrow> tr_status t = Planned) \<Longrightarrow>
     tasks_ok (se_record se') (case x of TaskDone r \<Rightarrow> runs | TaskRun call \<Rightarrow> runs(i := runs i + 1))"
  using task_attempt_ok [of save i se "Inr x" se' runs t] by (simp only: sum.case)

lemma remaining_status:
  "s \<noteq> TaskCompleted \<Longrightarrow> s \<noteq> Started \<Longrightarrow> s \<noteq> UnknownOutcome \<Longrightarrow> s = Planned"
  by (cases s) auto

lemma scope_cancel_tasks_ok: "scope_cancel save rc se = (e, se') \<Longrightarrow> tasks_ok (se_record se') runs = tasks_ok (se_record se) runs"
  by (drule scope_cancel_keeps) (simp add: keeps_both_def tasks_ok_frame)

lemma task_prepare_ok:
  assumes "task_prepare save dec rc i version input policy se = (res, se')" "tasks_ok (se_record se) runs"
  shows "tasks_ok (se_record se') (case res of Inr (TaskRun call) \<Rightarrow> runs(i := runs i + 1) | _ \<Rightarrow> runs)"
proof (cases "hm_get (rr_tasks (se_record se)) i")
  case (Some t)
  with assms show ?thesis
    by (auto simp: task_prepare_def scope_cancel_tasks_ok split: if_splits option.splits sum.splits prod.splits
        intro: task_unknown_ok task_attempt_failed_ok task_attempt_started_ok remaining_status)
next
  case None
  obtain r1 se1 where u: "update save (plan_task i version input policy) se = (r1, se1)" by fastforce
  have ok1: "tasks_ok (se_record se1) runs"
    by (rule update_tasks_ok_same [OF u assms(2)]) (rule plan_task_ok [OF None assms(2)])
  show ?thesis
  proof (cases r1)
    case (Inl e)
    with None u ok1 assms show ?thesis
      by (auto simp: task_prepare_def scope_cancel_tasks_ok split: if_splits prod.splits)
  next
    case (Inr x)
    with u have planned: "hm_get (rr_tasks (se_record se1)) i = Some (task_new i version input policy)"
      by (cases rule: update_record [OF u]) (auto simp: plan_task_def)
    show ?thesis
    proof (cases "task_attempt save i se1 = (res, se')")
      case True
      with planned ok1 show ?thesis by (auto intro!: task_attempt_ok simp: task_new_def)
    next
      case False
      with None u Inr assms show ?thesis
        by (auto simp: task_prepare_def scope_cancel_tasks_ok split: if_splits prod.splits)
    qed
  qed
qed

lemma task_conclude_ok:
  "task_conclude save enc policy i result se = (res, se') \<Longrightarrow> tasks_ok (se_record se) runs \<Longrightarrow> tasks_ok (se_record se') runs"
  by (auto simp: task_conclude_def split: sum.splits prod.splits if_splits
      dest!: task_unknown_ok [where runs = runs] update_tasks_ok_same [where runs = runs] dest: complete_task_ok)

lemma resolve_work_ok:
  assumes "resolve_work save tid request_id expected resolution se = (res, se')" "tasks_ok (se_record se) runs"
  shows "tasks_ok (se_record se') runs"
proof (cases "hm_get (rr_tasks (se_record se)) tid")
  case None
  with assms show ?thesis by (simp add: resolve_work_def Let_def)
next
  case (Some t)
  have t: "task_ok runs tid (Some t)" using assms(2) [unfolded tasks_ok_def, rule_format, of tid] Some by simp
  have "tasks_ok ((se_record se)\<lparr>rr_tasks := hm_insert tid (resolve_edit request_id resolution t) (rr_tasks (se_record se))\<rparr>) runs"
    if "hm_get (tr_resolutions t) request_id = None" "tr_status t \<in> {UnknownOutcome, Started}"
    using tasks_ok_insert [OF assms(2) resolve_edit_ok [OF t that]] by simp
  with Some assms show ?thesis
    by (auto simp: resolve_work_def Let_def split: option.splits if_splits
        elim!: update_tasks_ok_same [where runs = runs])
qed

lemma session_step_tasks_ok:
  "session_step save enc tenc tdec (se, runs) (se', runs') \<Longrightarrow> tasks_ok (se_record se) runs \<Longrightarrow> tasks_ok (se_record se') runs'"
proof (induction "(se, runs)" "(se', runs')" rule: session_step.induct)
  case prepare_step
  then show ?case using task_prepare_ok by metis
qed (auto simp: keeps_both_def session_new_def tasks_ok_frame
      dest!: enter_frame_keeps scope_begin_keeps scope_commit_keeps scope_cancel_keeps scope_approve_keeps cancel_work_keeps
        decide_work_keeps status_update_keeps task_conclude_ok resolve_work_ok)

lemma history_tasks_ok:
  "history save enc tenc tdec x y \<Longrightarrow> tasks_ok (se_record (fst x)) (snd x) \<Longrightarrow> tasks_ok (se_record (fst y)) (snd y)"
proof (induction rule: history.induct)
  case (step x y z)
  then show ?case
    using session_step_tasks_ok [of save enc tenc tdec "fst y" "snd y" "fst z" "snd z"] by simp
qed

text \<open>
  C18: A task under manual recovery is called at most once per authorisation. In every history
  of a run that starts without tasks (with crashes between the call and the record of its
  result, restarts, failing saves, repeated and conflicting resolutions), the calls of such a
  task's function are at most one more than the resolutions that explicitly asked for another
  attempt; and for every task the recorded number of attempts is the number of calls.
\<close>

theorem manual_tasks_run_once_per_authorisation:
  assumes "history save enc tenc tdec (session_new r st, \<lambda>_. 0) (se, runs)" "rr_tasks r = []"
    and "hm_get (rr_tasks (se_record se)) i = Some t"
  shows "runs i = tr_attempts t \<and> (tr_policy t = ManualRecovery \<longrightarrow> runs i \<le> 1 + retries t)"
proof -
  have "tasks_ok r (\<lambda>_. 0)" using assms(2) by (simp add: tasks_ok_def task_ok_def)
  with history_tasks_ok [OF assms(1)] have "tasks_ok (se_record se) runs" by (simp add: session_new_def)
  then have "task_ok runs i (Some t)" using assms(3) unfolding tasks_ok_def by metis
  then show ?thesis by (auto simp: task_ok_def split: if_splits)
qed

theorem manual_tasks_run_once_per_authorisation_witness:
  "let out = task_prepare always_saves (Inr :: json \<Rightarrow> string + json) False ''t'' ''1'' JNull ManualRecovery
        (session_new (example_run\<lparr>rr_tasks := [], rr_status := Running\<rparr>) ()) in
   \<exists>t. hm_get (rr_tasks (se_record (snd out))) ''t'' = Some t \<and> tr_policy t = ManualRecovery \<and> 1 \<le> 1 + retries t"
proof -
  let ?id = "Inr :: json \<Rightarrow> string + json"
  let ?r = "example_run\<lparr>rr_tasks := [], rr_status := Running\<rparr>"
  let ?se = "session_new ?r ()"
  let ?out = "task_prepare always_saves ?id False ''t'' ''1'' JNull ManualRecovery ?se"
  let ?t = "(task_new ''t'' ''1'' JNull ManualRecovery)\<lparr>tr_status := Started, tr_attempts := 1\<rparr>"
  have out: "fst ?out = Inr (TaskRun \<lparr>ti_task = ''t'', ti_key = idempotency_key ''run'' ''t'', ti_attempt = 1\<rparr>)"
    and task: "hm_get (rr_tasks (se_record (snd ?out))) ''t'' = Some ?t"
    by (simp_all add: task_prepare_def session_new_def example_run_def update_def plan_task_def task_attempt_def
        start_attempt_def task_new_def)
  have "history always_saves ?id ?id ?id (?se, \<lambda>_. 0)
      (snd ?out, case fst ?out of Inr (TaskRun call) \<Rightarrow> (\<lambda>_. 0)(''t'' := 0 + 1) | _ \<Rightarrow> (\<lambda>_. 0))"
    by (rule history.step [OF history.start]) (rule prepare_step, simp)
  from manual_tasks_run_once_per_authorisation [OF this _ task] out
  have "1 \<le> 1 + retries ?t" "tr_policy ?t = ManualRecovery" by (simp_all add: task_new_def)
  with task show ?thesis unfolding Let_def by blast
qed

text \<open>
  C19: A recorded result is never computed again. When a task has completed, a later execution
  of the same task, in any history of the run that leaves it completed, returns the recorded
  result without a call of its function and without a change of the run; an execution with
  another input, version or policy is refused.
\<close>

theorem completed_tasks_are_replayed:
  assumes "hm_get (rr_tasks (se_record se)) (task_id scope_id slot) = Some t" "tr_status t = TaskCompleted"
    and "tr_result t = Some v" "dec v = Inr x" "task_id scope_id slot \<notin> set (se_in_flight se)"
    and "rr_status (se_record se) \<in> {Running, SuspendedRun}"
  shows "task_execute save enc dec False body scope_id slot version input policy se
      = (if tr_version t = version \<and> tr_input t = input \<and> tr_policy t = policy then Inr x
         else Inl (Durable (Incompatible (''task input/version/policy changed: '' @ task_id scope_id slot))), se)"
  using assms by (auto simp: task_execute_def task_prepare_def Let_def removeAll_id)

theorem completed_tasks_are_replayed_witness:
  "fst (task_execute always_saves (Inr :: json \<Rightarrow> string + json) Inr False (\<lambda>call se. (Inl (InvalidGraph []), se))
      ''root'' ''a'' ''1'' JNull ManualRecovery
      (session_new (example_run\<lparr>rr_tasks := [(task_id ''root'' ''a'', (task_new [] ''1'' JNull ManualRecovery)
        \<lparr>tr_status := TaskCompleted, tr_result := Some (JBool True)\<rparr>)]\<rparr>) ())) = Inr (JBool True)"
  by (subst completed_tasks_are_replayed [where v = "JBool True"])
     (auto simp: session_new_def task_new_def example_run_def)

end
