(* ===== verification/Durable_Run.thy ===== *)
theory Durable_Run
  imports Durable_Scope Resume
begin

text \<open>
  Running a graph durably: the execution loop with a frame (\<open>graph/run_loop.rs\<close>), entering
  a frame (\<open>FrameScope::enter\<close>, \<open>durable/scope.rs\<close>), and the runtime that starts, resumes
  and finishes a run (\<open>durable/runtime.rs\<close>).

  The session is part of the world the nodes see, as the task-local frame and node scopes of
  the program are. The loop has no measure of its own (a node could change the record it
  counts in), so it takes fuel; \<open>Durable_Replay\<close> shows how much is enough when the nodes
  leave the record alone.
\<close>

section \<open>The world of a durable run\<close>

record ('st, 'x) dworld =
  dw_session :: "'st session"
  dw_scope :: "(string \<times> string \<times> nat) option"
  dw_root_cancelled :: bool
  dw_rest :: 'x

text \<open>
  What a frame runs with: its path, the lease, the clock and the next token, the serialisers
  of the state (\<open>snapshot\<close> and \<open>restore\<close> included), and whether its cancellation token is a
  child of the run's (the branches of a parallel node).
\<close>

record ('st, 's) frame_ctx =
  fc_path :: string
  fc_save :: "'st lease_save"
  fc_now :: nat
  fc_token :: string
  fc_enc :: "'s \<Rightarrow> string + json"
  fc_dec :: "json \<Rightarrow> string + 's"
  fc_branch :: bool

definition set_session ::
  "'st session \<Rightarrow> ('s, 'm, 'k, ('st, 'x) dworld) run_state \<Rightarrow> ('s, 'm, 'k, ('st, 'x) dworld) run_state" where
  "set_session se rs = rs\<lparr>rs_world := (rs_world rs)\<lparr>dw_session := se\<rparr>\<rparr>"

definition root_cancelled :: "('st, 's) frame_ctx \<Rightarrow> ('s, 'm, 'k, ('st, 'x) dworld) run_state \<Rightarrow> bool" where
  "root_cancelled fc rs = (if fc_branch fc then dw_root_cancelled (rs_world rs) else eng_cancelled (rs_engine rs))"

section \<open>Entering a frame\<close>

definition frame_new :: "string \<Rightarrow> json \<Rightarrow> string \<Rightarrow> nat \<Rightarrow> frame_record" where
  "frame_new signature state start max_steps =
     \<lparr>fr_signature = signature, fr_state = state, fr_next_node = Some start, fr_steps_used = 0,
      fr_max_steps = max_steps, fr_active = False\<rparr>"

definition scope_enter ::
  "('st, 's) frame_ctx \<Rightarrow> ('s, 'm, 'k, 'w) graph \<Rightarrow> 's \<Rightarrow> nat \<Rightarrow> 'st session
   \<Rightarrow> (durable_error + frame_record \<times> 's) \<times> 'st session" where
  "scope_enter fc g s max_steps se =
     (let expected = durable_signature g in
      case (case hm_get (rr_frames (se_record se)) (fc_path fc) of
              Some f \<Rightarrow> (Inr f, se)
            | None \<Rightarrow>
                (case fc_enc fc s of
                   Inl e \<Rightarrow> (Inl (Codec e), se)
                 | Inr v \<Rightarrow>
                     (let f = frame_new expected v (g_start g) max_steps in
                      case update (fc_save fc) (enter_frame (fc_path fc) f) se of
                        (Inl e, se') \<Rightarrow> (Inl e, se')
                      | (Inr _, se') \<Rightarrow> (Inr f, se')))) of
        (Inl e, se') \<Rightarrow> (Inl e, se')
      | (Inr f, se') \<Rightarrow>
          (if fr_signature f \<noteq> expected \<or> fr_max_steps f \<noteq> max_steps
           then (Inl (Incompatible (''graph or budget changed at '' @ fc_path fc)), se')
           else if (case fr_next_node f of None \<Rightarrow> False | Some n \<Rightarrow> \<not> hm_contains (g_nodes g) n)
           then (Inl (Incompatible ''cursor node missing''), se')
           else case fc_dec fc (fr_state f) of
                  Inl e \<Rightarrow> (Inl (Codec e), se')
                | Inr s' \<Rightarrow> (Inr (f, s'), se')))"

section \<open>The loop\<close>

text \<open>A node runs with its scope set; a barrier asks for its approval instead of pausing.\<close>

definition durable_exec where
  "durable_exec fc par current node invocation rs =
     (case node of
        Barrier b \<Rightarrow>
          (case scope_approve (fc_save fc) (fc_now fc) (fc_token fc) (fc_path fc) current invocation (bn_timeout b)
                  (dw_session (rs_world rs)) of
             (Inl e, se) \<Rightarrow> (Some (Durable e), set_session se rs)
           | (Inr _, se) \<Rightarrow> (None, set_session se rs))
      | _ \<Rightarrow>
          (case exec_node par current node
                  (rs\<lparr>rs_world := (rs_world rs)\<lparr>dw_scope := Some (fc_path fc, current, invocation)\<rparr>\<rparr>) of
             (res, rs') \<Rightarrow> (res, rs'\<lparr>rs_world := (rs_world rs')\<lparr>dw_scope := dw_scope (rs_world rs)\<rparr>\<rparr>)))"

definition durable_step ::
  "('st, 's) frame_ctx \<Rightarrow> ('s, 'm, 'c, ('st, 'x) dworld) run_env
   \<Rightarrow> (('s, 'm, 'k, ('st, 'x) dworld) parallel_node \<Rightarrow> ('s, 'm, 'k, ('st, 'x) dworld) run_state
        \<Rightarrow> ('s, 'm, 'k, ('st, 'x) dworld) run_result)
   \<Rightarrow> ('s, 'm, 'k, ('st, 'x) dworld) graph \<Rightarrow> string \<Rightarrow> nat \<Rightarrow> ('s, 'm, 'k, ('st, 'x) dworld) run_state
   \<Rightarrow> ('s, 'm, 'k, ('st, 'x) dworld) step_outcome" where
  "durable_step fc env par g current max_steps rs =
     (let se = dw_session (rs_world rs) in
      if eng_cancelled (rs_engine rs)
      then (case scope_cancel (fc_save fc) (root_cancelled fc rs) se of
              (e, se') \<Rightarrow> Stop (Some (Durable e)) (set_session se' rs))
      else
     (case scope_begin (fc_save fc) (fc_path fc) current se of
        (Inl e, se') \<Rightarrow> Stop (Some (Durable e)) (set_session se' rs)
      | (Inr step, se') \<Rightarrow>
     (let rs0 = set_session se' rs in
      if step > max_steps then Stop (Some (StepsExceeded max_steps)) rs0
      else
     (case hm_get (g_nodes g) current of
        None \<Rightarrow> Stop (Some (NodeNotFound current)) rs0
      | Some node \<Rightarrow>
     (case durable_exec fc par current node step (log_event (NodeStart current step) rs0) of
        (Some e, rs1) \<Rightarrow> Stop (Some e) (log_event (NodeEnd current step False) rs1)
      | (None, rs1) \<Rightarrow>
     (case commit_and_take env (log_event (NodeEnd current step True) rs1) of
        ((action, signal), rs2) \<Rightarrow>
     (case route g no_sinks current node action signal rs2 of
        (Inl e, rs3) \<Rightarrow> Stop (Some e) rs3
      | (Inr next, rs3) \<Rightarrow>
     (case scope_commit (fc_save fc) (fc_enc fc) (fc_path fc) (eng_state (rs_engine rs3)) next
             (dw_session (rs_world rs3)) of
        (Inl e, se3) \<Rightarrow> Stop (Some (Durable e)) (set_session se3 rs3)
      | (Inr _, se3) \<Rightarrow>
          (case next of
             None \<Rightarrow> Stop None (set_session se3 rs3)
           | Some n \<Rightarrow> Continue n step (set_session se3 rs3))))))))))"

fun durable_loop where
  "durable_loop 0 fc env par g current max_steps rs = None"
| "durable_loop (Suc fuel) fc env par g current max_steps rs =
     (case durable_step fc env par g current max_steps rs of
        Stop r rs' \<Rightarrow> Some (r, rs')
      | Continue n k rs' \<Rightarrow> durable_loop fuel fc env par g n max_steps rs')"

definition run_durable_graph where
  "run_durable_graph fuel fc env par g max_steps rs =
     (case validate_durable g of
        Some e \<Rightarrow> Some (Some e, rs)
      | None \<Rightarrow>
          (case scope_enter fc g (eng_state (rs_engine rs)) max_steps (dw_session (rs_world rs)) of
             (Inl e, se) \<Rightarrow> Some (Some (Durable e), set_session se rs)
           | (Inr (f, s), se) \<Rightarrow>
               (let rs' = set_session se (rs\<lparr>rs_engine := (rs_engine rs)\<lparr>eng_state := s\<rparr>\<rparr>) in
                case fr_next_node f of
                  None \<Rightarrow> Some (None, rs')
                | Some n \<Rightarrow> durable_loop fuel fc env par g n max_steps rs')))"

section \<open>The runtime\<close>

datatype 's run_outcome = OutCompleted 's | OutSuspended run_record | OutStopped run_status

definition root_record :: "string \<Rightarrow> run_version \<Rightarrow> string \<Rightarrow> json \<Rightarrow> string \<Rightarrow> nat \<Rightarrow> run_record" where
  "root_record i version signature state start max_steps =
     \<lparr>rr_format = run_format_version, rr_id = i, rr_revision = 0, rr_version = version, rr_status = Running,
      rr_steps_used = 0, rr_max_steps = max_steps,
      rr_frames = [(''root'', frame_new signature state start max_steps)], rr_approvals = [], rr_tasks = []\<rparr>"

definition pending_approvals :: "run_record \<Rightarrow> approval_request list" where
  "pending_approvals r = filter (\<lambda>a. \<not> ar_applied a \<and> ar_receipt a = None) (map snd (rr_approvals r))"

definition approval_expired :: "nat \<Rightarrow> approval_request \<Rightarrow> bool" where
  "approval_expired now a = (case ar_deadline a of None \<Rightarrow> False | Some t \<Rightarrow> now \<ge> t)"

definition finish_status ::
  "'st lease_save \<Rightarrow> run_status \<Rightarrow> 's run_outcome \<Rightarrow> 'st session \<Rightarrow> (terminal_error + 's run_outcome) \<times> 'st session" where
  "finish_status save status outcome se =
     (case update save (set_status status) se of
        (Inl e, se') \<Rightarrow> (Inl (Durable e), se')
      | (Inr _, se') \<Rightarrow> (Inr outcome, se'))"

definition durable_finish where
  "durable_finish save result cancelled s se =
     (if cancelled then finish_status save CancelledRun (OutStopped CancelledRun) se
      else case result of
             None \<Rightarrow> finish_status save CompletedRun (OutCompleted s) se
           | Some (Durable Suspended) \<Rightarrow> (Inr (OutSuspended (se_record se)), se)
           | Some (Durable Stopped) \<Rightarrow> (Inr (OutStopped (rr_status (se_record se))), se)
           | Some e \<Rightarrow> (Inl e, se))"

text \<open>
  \<open>DurableRuntime::execute\<close>. \<open>cancelled\<close> is the state of the caller's token at the start; the
  caller may also set it while nodes run, which is the cancellation flag of the engine.
\<close>

definition durable_execute where
  "durable_execute fuel fc env par g s cancelled rest se =
     (let r = se_record se; pending = pending_approvals r in
      if list_ex (approval_expired (fc_now fc)) pending
      then Some (finish_status (fc_save fc) ExpiredRun (OutStopped ExpiredRun) se)
      else if \<not> cancelled \<and> (pending \<noteq> [] \<or> list_ex (\<lambda>(_, t). tr_status t = UnknownOutcome) (rr_tasks r))
      then Some (Inr (OutSuspended r), se)
      else
        case update (fc_save fc) (set_status Running) se of
          (Inl e, se1) \<Rightarrow> Some (Inl (Durable e), se1)
        | (Inr _, se1) \<Rightarrow>
            map_option (\<lambda>(result, rs). durable_finish (fc_save fc) result (eng_cancelled (rs_engine rs))
                (eng_state (rs_engine rs)) (dw_session (rs_world rs)))
              (run_durable_graph fuel fc env par g (rr_max_steps r)
                (loop_start s cancelled
                  \<lparr>dw_session = se1, dw_scope = None, dw_root_cancelled = cancelled, dw_rest = rest\<rparr>)))"

text \<open>\<open>resume\<close> once the record is loaded and validated.\<close>

definition durable_continue where
  "durable_continue fuel fc env par g cancelled rest se =
     (let r = se_record se in
      case hm_get (rr_frames r) ''root'' of
        None \<Rightarrow> Some (Inl (Durable NotFound), se)
      | Some root \<Rightarrow>
          (if fr_signature root \<noteq> durable_signature g then Some (Inl (Durable (Incompatible ''root graph'')), se)
           else case fc_dec fc (fr_state root) of
             Inl e \<Rightarrow> Some (Inl (Durable (Codec e)), se)
           | Inr s \<Rightarrow>
               (if rr_status r = CompletedRun then Some (Inr (OutCompleted s), se)
                else if rr_status r \<in> {RejectedRun, CancelledRun, ExpiredRun}
                then Some (Inr (OutStopped (rr_status r)), se)
                else durable_execute fuel fc env par g s cancelled rest se)))"

definition root_ctx ::
  "'st store_fns \<Rightarrow> string \<Rightarrow> nat \<Rightarrow> string \<Rightarrow> ('s \<Rightarrow> string + json) \<Rightarrow> (json \<Rightarrow> string + 's) \<Rightarrow> ('st, 's) frame_ctx" where
  "root_ctx sf i now token enc dec =
     \<lparr>fc_path = ''root'', fc_save = sf_save sf i, fc_now = now, fc_token = token, fc_enc = enc, fc_dec = dec,
      fc_branch = False\<rparr>"

text \<open>Every return drops the lease.\<close>

definition release_after where
  "release_after sf i out = map_option (\<lambda>(res, se). (res, sf_release sf i (se_store se))) out"

definition durable_start where
  "durable_start sf version fuel now token enc dec env par i g s max_steps cancelled rest st =
     (let fc = root_ctx sf i now token enc dec in
      case validate_durable g of
        Some e \<Rightarrow> Some (Inl e, st)
      | None \<Rightarrow>
     (if rv_workflow version = [] \<or> rv_state_schema version = []
      then Some (Inl (Durable (Incompatible ''empty workflow/schema version'')), st)
      else case sf_acquire sf i st of
        (Some e, st') \<Rightarrow> Some (Inl (Durable e), st')
      | (None, st1) \<Rightarrow>
     (case sf_load sf i st1 of
        Inl e \<Rightarrow> Some (Inl (Durable e), sf_release sf i st1)
      | Inr (Some _) \<Rightarrow> Some (Inl (Durable AlreadyExists), sf_release sf i st1)
      | Inr None \<Rightarrow>
     (case enc s of
        Inl e \<Rightarrow> Some (Inl (Durable (Codec e)), sf_release sf i st1)
      | Inr v \<Rightarrow>
          (let r = root_record i version (durable_signature g) v (g_start g) max_steps in
           case sf_save sf i r st1 of
             (Some e, st2) \<Rightarrow> Some (Inl (Durable e), sf_release sf i st2)
           | (None, st2) \<Rightarrow>
               release_after sf i (durable_execute fuel fc env par g s cancelled rest (session_new r st2)))))))"

definition durable_resume where
  "durable_resume sf version fuel now token enc dec env par i g cancelled rest st =
     (let fc = root_ctx sf i now token enc dec in
      case validate_durable g of
        Some e \<Rightarrow> Some (Inl e, st)
      | None \<Rightarrow>
     (case sf_acquire sf i st of
        (Some e, st') \<Rightarrow> Some (Inl (Durable e), st')
      | (None, st1) \<Rightarrow>
     (case sf_load sf i st1 of
        Inl e \<Rightarrow> Some (Inl (Durable e), sf_release sf i st1)
      | Inr None \<Rightarrow> Some (Inl (Durable NotFound), sf_release sf i st1)
      | Inr (Some r) \<Rightarrow>
          (case validate_record version i r of
             Some e \<Rightarrow> Some (Inl (Durable e), sf_release sf i st1)
           | None \<Rightarrow>
               release_after sf i (durable_continue fuel fc env par g cancelled rest (session_new r st1))))))"

end
