(* ===== verification/Durable_Replay.thy ===== *)
theory Durable_Replay
  imports Durable_Run
begin

text \<open>
  What durability is for: a run whose writes begin to fail at any point, as those of a process
  that dies do, and that is resumed from what was written ends as the plain run does. For
  graphs of task, condition and external nodes that act on the state only (their effects
  outside may differ from run to run); over any store that keeps the contract \<open>run_store\<close>, and
  for the file store with arbitrary faults in its saves.

  The plain run and the durable run are both compared with \<open>leads_to\<close>, the run reduced to
  cursor, step count and state.
\<close>

section \<open>Nodes that act on the state only\<close>

type_synonym ('s, 'm, 'k) effect = "'s \<Rightarrow> ('s, 'm, 'k) node_op list \<times> terminal_error option"

fun node_behaves :: "('s, 'm, 'k, ('st, 'x) dworld) node_kind \<Rightarrow> ('s, 'm, 'k) effect \<Rightarrow> bool" where
  "node_behaves (Task f) h \<longleftrightarrow>
     (\<forall>w s. snd (f w s False) = h s \<and> dw_session (fst (f w s False)) = dw_session w
        \<and> Leaf CancelToken \<notin> set (fst (h s)))"
| "node_behaves (External n) h \<longleftrightarrow>
     (\<forall>w s. snd (fn_execute n w s False) = h s \<and> dw_session (fst (fn_execute n w s False)) = dw_session w
        \<and> Leaf CancelToken \<notin> set (fst (h s)))"
| "node_behaves (ExternalLeaf f) h \<longleftrightarrow>
     (\<forall>w s. (map Leaf (fst (snd (f w s False))), snd (snd (f w s False))) = h s
        \<and> dw_session (fst (f w s False)) = dw_session w \<and> Leaf CancelToken \<notin> set (fst (h s)))"
| "node_behaves (Condition bs) h \<longleftrightarrow>
     (\<forall>s. h s = ((case find (\<lambda>(_, c). c s) bs of Some (target, _) \<Rightarrow> [Leaf (Goto target)] | None \<Rightarrow> []), None))"
| "node_behaves _ h \<longleftrightarrow> False"

definition replayable ::
  "('s, 'm, 'k, ('st, 'x) dworld) graph \<Rightarrow> (string \<Rightarrow> ('s, 'm, 'k) effect) \<Rightarrow> bool" where
  "replayable g h \<longleftrightarrow> list_all (\<lambda>(n, node). node_behaves node (h n)) (g_nodes g)"

lemma replayableD: "replayable g h \<Longrightarrow> hm_get (g_nodes g) c = Some node \<Longrightarrow> node_behaves node (h c)"
  by (auto simp: replayable_def list_all_iff dest: map_of_SomeD)

lemma exec_node_ops_Nil [simp]: "exec_node_ops [] e = e"
  by (simp add: exec_node_ops_def)

lemma exec_node_ops_Cons [simp]: "exec_node_ops (x # xs) e = exec_node_ops xs (exec_node_op x e)"
  by (simp add: exec_node_ops_def)

lemma exec_leaf_ops_map: "exec_leaf_ops ls e = exec_node_ops (map Leaf ls) e"
  by (simp add: exec_leaf_ops_def exec_node_ops_def foldl_map)

lemma exec_node_op_not_cancelled:
  "eng_cancelled (exec_node_op x e) \<longleftrightarrow> eng_cancelled e \<or> x = Leaf CancelToken"
proof (cases x)
  case (Leaf l)
  then show ?thesis by (cases l) (auto split: option.splits)
qed simp

lemma exec_node_ops_not_cancelled:
  "eng_cancelled (exec_node_ops xs e) \<longleftrightarrow> eng_cancelled e \<or> Leaf CancelToken \<in> set xs"
  by (induction xs arbitrary: e) (auto simp: exec_node_op_not_cancelled)

lemma exec_node_behaves:
  assumes "node_behaves node h" and "\<not> eng_cancelled (rs_engine rs)"
    and "h (eng_state (rs_engine rs)) = (ops, err)"
  obtains w where "exec_node par c node rs = (err, rs\<lparr>rs_world := w, rs_engine := exec_node_ops ops (rs_engine rs)\<rparr>)"
    and "dw_session w = dw_session (rs_world rs)" and "Leaf CancelToken \<notin> set ops"
proof (cases node)
  case (Task f)
  obtain w ops' err' where f: "f (rs_world rs) (eng_state (rs_engine rs)) False = (w, ops', err')" by (metis prod_cases3)
  have "snd (f (rs_world rs) (eng_state (rs_engine rs)) False) = h (eng_state (rs_engine rs))"
    "dw_session (fst (f (rs_world rs) (eng_state (rs_engine rs)) False)) = dw_session (rs_world rs)"
    "Leaf CancelToken \<notin> set (fst (h (eng_state (rs_engine rs))))"
    using assms(1) unfolding Task by auto
  with f assms(2,3) show ?thesis by (intro that [of w]) (auto simp: Task run_node_fn_def)
next
  case (External n)
  obtain w ops' err' where f: "fn_execute n (rs_world rs) (eng_state (rs_engine rs)) False = (w, ops', err')"
    by (metis prod_cases3)
  have "snd (fn_execute n (rs_world rs) (eng_state (rs_engine rs)) False) = h (eng_state (rs_engine rs))"
    "dw_session (fst (fn_execute n (rs_world rs) (eng_state (rs_engine rs)) False)) = dw_session (rs_world rs)"
    "Leaf CancelToken \<notin> set (fst (h (eng_state (rs_engine rs))))"
    using assms(1) unfolding External by auto
  with f assms(2,3) show ?thesis by (intro that [of w]) (auto simp: External run_node_fn_def)
next
  case (ExternalLeaf f)
  obtain w ops' err' where f: "f (rs_world rs) (eng_state (rs_engine rs)) False = (w, ops', err')" by (metis prod_cases3)
  have "(map Leaf (fst (snd (f (rs_world rs) (eng_state (rs_engine rs)) False))),
      snd (snd (f (rs_world rs) (eng_state (rs_engine rs)) False))) = h (eng_state (rs_engine rs))"
    "dw_session (fst (f (rs_world rs) (eng_state (rs_engine rs)) False)) = dw_session (rs_world rs)"
    "Leaf CancelToken \<notin> set (fst (h (eng_state (rs_engine rs))))"
    using assms(1) unfolding ExternalLeaf by auto
  with f assms(2,3) show ?thesis by (intro that [of w]) (auto simp: ExternalLeaf run_leaf_fn_def exec_leaf_ops_map)
next
  case (Condition bs)
  have "h (eng_state (rs_engine rs)) = ((case find (\<lambda>(_, c). c (eng_state (rs_engine rs))) bs of
      Some (target, _) \<Rightarrow> [Leaf (Goto target)] | None \<Rightarrow> []), None)"
    using assms(1) unfolding Condition by auto
  with assms(2,3) show ?thesis
    by (intro that [of "rs_world rs"]) (auto simp: Condition condition_execute_def split: option.splits)
qed (use assms(1) in simp_all)

section \<open>The run reduced to cursor, count and state\<close>

definition abs_step where
  "abs_step env g h mx c k s =
     (if k + 1 > mx \<or> \<not> hm_contains (g_nodes g) c then None
      else case h c s of
        (ops, Some e) \<Rightarrow> None
      | (ops, None) \<Rightarrow>
          (case take_control (commit (re_ops env) (exec_node_ops ops (engine_new s None False))) of
             ((action, Some signal), e) \<Rightarrow> None
           | ((action, None), e) \<Rightarrow>
               (case resolve_next_opt g action c (eng_state e) of
                  Inl err \<Rightarrow> None
                | Inr next \<Rightarrow> Some (next, eng_state e))))"

inductive leads_to for env g h mx where
  last: "abs_step env g h mx c k s = Some (None, t) \<Longrightarrow> leads_to env g h mx c k s t"
| more: "abs_step env g h mx c k s = Some (Some n, s') \<Longrightarrow> leads_to env g h mx n (Suc k) s' t \<Longrightarrow>
    leads_to env g h mx c k s t"

text \<open>The engine between two steps: clean, not cancelled, in state \<open>s\<close>.\<close>

definition between :: "'s \<Rightarrow> ('s, 'm, 'k) engine \<Rightarrow> bool" where
  "between s e \<longleftrightarrow> clean e \<and> \<not> eng_cancelled e \<and> eng_state e = s"

definition core_alike :: "('s, 'm, 'k) engine \<Rightarrow> ('s, 'm, 'k) engine \<Rightarrow> bool" where
  "core_alike e e' \<longleftrightarrow> eng_state e = eng_state e' \<and> eng_control e = eng_control e' \<and> eng_mutations e = eng_mutations e'"

lemma exec_node_op_core: "core_alike e e' \<Longrightarrow> core_alike (exec_node_op x e) (exec_node_op x e')"
proof (cases x)
  case (Leaf l)
  then show "core_alike e e' \<Longrightarrow> core_alike (exec_node_op x e) (exec_node_op x e')"
    by (cases l) (auto simp: core_alike_def split: option.splits)
qed (simp add: core_alike_def)

lemma exec_node_ops_core: "core_alike e e' \<Longrightarrow> core_alike (exec_node_ops xs e) (exec_node_ops xs e')"
  by (induction xs arbitrary: e e') (auto intro: exec_node_op_core)

lemma take_control_core:
  assumes "core_alike e e'"
  shows "fst (take_control (commit ops e)) = fst (take_control (commit ops e'))
    \<and> eng_state (snd (take_control (commit ops e))) = eng_state (snd (take_control (commit ops e')))"
  using assms by (simp add: core_alike_def take_control_def control_take_def)

lemma between_core: "between s e \<Longrightarrow> core_alike e (engine_new s None False)"
  by (simp add: between_def clean_def core_alike_def engine_new_def)

text \<open>What a node that behaves leaves, and what commit and control give after it.\<close>

abbreviation session_of :: "('s, 'm, 'k, ('st, 'x) dworld) run_state \<Rightarrow> 'st session" where
  "session_of rs \<equiv> dw_session (rs_world rs)"

lemma commit_and_take_between:
  assumes "core_alike (rs_engine rs) e" "\<not> eng_cancelled (rs_engine rs)"
    and "take_control (commit (re_ops env) e) = ((action, sig), e')"
  obtains rs' where "commit_and_take env rs = ((action, sig), rs')" "between (eng_state e') (rs_engine rs')"
    "rs_world rs' = rs_world rs"
proof -
  obtain a b x where x: "take_control (commit (re_ops env) (rs_engine rs)) = ((a, b), x)" by (metis prod.exhaust)
  have "(a, b) = (action, sig)" "eng_state x = eng_state e'"
    using take_control_core [OF assms(1), of "re_ops env"] assms(3) x by simp_all
  moreover have "clean x" "eng_cancelled x = eng_cancelled (rs_engine rs)"
    using take_control_simps(2,3,4) [of "commit (re_ops env) (rs_engine rs)"] x by (simp_all add: clean_def)
  ultimately show ?thesis
    using assms(2) x by (intro that [of "rs\<lparr>rs_engine := x\<rparr>"]) (auto simp: commit_and_take_def between_def)
qed

lemma node_turn:
  assumes "node_behaves node h" "between s (rs_engine rs)" "h s = (ops, err)"
  obtains rs1 where "exec_node par c node rs = (err, rs1)" "session_of rs1 = session_of rs"
    "\<not> eng_cancelled (rs_engine rs1)"
    "core_alike (rs_engine rs1) (exec_node_ops ops (engine_new s None False))"
proof -
  have s: "eng_state (rs_engine rs) = s" "\<not> eng_cancelled (rs_engine rs)" using assms(2) by (auto simp: between_def)
  obtain w where w: "exec_node par c node rs = (err, rs\<lparr>rs_world := w, rs_engine := exec_node_ops ops (rs_engine rs)\<rparr>)"
    "dw_session w = dw_session (rs_world rs)" "Leaf CancelToken \<notin> set ops"
    using exec_node_behaves [OF assms(1) s(2), of ops err par c] assms(3) s(1) by metis
  show ?thesis
    by (rule that [OF w(1)])
      (use w s assms(2) in \<open>auto simp: exec_node_ops_not_cancelled intro: exec_node_ops_core between_core\<close>)
qed

lemma route_no_sinks_Inr:
  assumes "route g no_sinks c node action sig rs = (Inr nx, rs')"
  shows "sig = None \<and> rs' = rs \<and> resolve_next_opt g action c (eng_state (rs_engine rs)) = Inr nx"
  using assms
  by (auto simp: route_def no_sinks_def wait_barrier_def split: option.splits execution_signal.splits)

lemma emit_checkpoint_no_sinks [simp]: "emit_checkpoint no_sinks nx k rs = (None, rs)"
  by (simp add: emit_checkpoint_def no_sinks_def)

section \<open>The plain run\<close>

lemma plain_step:
  assumes rep: "replayable g h" and bet: "between s (rs_engine rs)"
    and step: "loop_step env par g no_sinks c k mx rs = out"
  shows "case out of
      Stop None rs' \<Rightarrow> abs_step env g h mx c k s = Some (None, eng_state (rs_engine rs'))
    | Stop (Some e) rs' \<Rightarrow> True
    | Continue n k' rs' \<Rightarrow> k' = Suc k \<and> between (eng_state (rs_engine rs')) (rs_engine rs')
        \<and> abs_step env g h mx c k s = Some (Some n, eng_state (rs_engine rs'))"
proof (cases rule: loop_step_cases [of env par g no_sinks c k mx])
  case (ran node)
  obtain ops err where h: "h c s = (ops, err)" by fastforce
  have bet': "between s (rs_engine (log_event (NodeStart c (Suc k)) rs))" using bet by simp
  obtain rs1 where ex: "exec_node par c node (log_event (NodeStart c (Suc k)) rs) = (err, rs1)"
    "\<not> eng_cancelled (rs_engine rs1)" "core_alike (rs_engine rs1) (exec_node_ops ops (engine_new s None False))"
    by (rule node_turn [OF replayableD [OF rep ran(1)] bet' h])
  obtain action sig e' where tc:
    "take_control (commit (re_ops env) (exec_node_ops ops (engine_new s None False))) = ((action, sig), e')"
    by (metis prod.exhaust)
  obtain rs2 where ct: "commit_and_take env (log_event (NodeEnd c (Suc k) True) rs1) = ((action, sig), rs2)"
    and b2: "between (eng_state e') (rs_engine rs2)"
    using commit_and_take_between [of "log_event (NodeEnd c (Suc k) True) rs1"] ex(2,3) tc
    by (metis log_event_simps(1))
  obtain nxt rs3 where ro: "route g no_sinks c node action sig rs2 = (nxt, rs3)" by fastforce
  have s2: "eng_state (rs_engine rs2) = eng_state e'" using b2 by (simp add: between_def)
  have has: "hm_contains (g_nodes g) c" using ran(1) by (metis hm_get_None_iff option.distinct(1))
  note out = step [unfolded loop_step_ran [OF ran ex(1) ct ro]]
  show ?thesis
  proof (cases err)
    case None
    show ?thesis
    proof (cases nxt)
      case (Inr nx)
      with route_no_sinks_Inr ro s2
      have r: "sig = None" "rs3 = rs2" "resolve_next_opt g action c (eng_state e') = Inr nx" by (metis, metis, metis)
      have "abs_step env g h mx c k s = Some (nx, eng_state e')"
        using ran(2) has by (simp add: abs_step_def h None tc r)
      then show ?thesis using out b2 r s2 by (cases nx) (auto simp: None Inr)
    qed (use out in \<open>auto simp: None\<close>)
  qed (use out in auto)
qed (use step in auto)

lemma plain_run_leads:
  assumes "sk = no_sinks" "replayable g h" "between s (rs_engine rs)" "run_loop env par g sk c k mx rs = (None, rs')"
  shows "leads_to env g h mx c k s (eng_state (rs_engine rs'))"
  using assms
proof (induction env par g sk c k mx rs arbitrary: s rule: run_loop.induct)
  case (1 env par g sk c k mx rs)
  note step = plain_step [OF 1(3,4) refl, where env = env and par = par and c = c and k = k and mx = mx, folded 1(2)]
  show ?case
  proof (cases "loop_step env par g sk c k mx rs")
    case (Stop r rs1)
    with 1(5) step show ?thesis by (auto simp: run_loop_Stop [OF Stop] intro: leads_to.last)
  next
    case (Continue n k' rs1)
    with step have next_step: "k' = Suc k" "between (eng_state (rs_engine rs1)) (rs_engine rs1)"
      "abs_step env g h mx c k s = Some (Some n, eng_state (rs_engine rs1))" by auto
    from 1(1) [OF Continue 1(2,3) next_step(2)] 1(5) next_step show ?thesis
      by (auto simp: run_loop_Continue [OF Continue] intro: leads_to.more)
  qed
qed

section \<open>Stores that work\<close>

text \<open>
  Above the contract of a store: \<open>reliable\<close> are the states of the store from which on no save of
  a run under its own name fails, and a run that is free can be taken.
\<close>

locale reliable_store = run_store acquire release load save holds
  for acquire :: "string \<Rightarrow> 'st \<Rightarrow> durable_error option \<times> 'st" and release :: "string \<Rightarrow> 'st \<Rightarrow> 'st"
    and load :: "string \<Rightarrow> 'st \<Rightarrow> durable_error + run_record option"
    and save :: "string \<Rightarrow> run_record \<Rightarrow> 'st \<Rightarrow> durable_error option \<times> 'st" and holds :: "string \<Rightarrow> 'st \<Rightarrow> bool" +
  fixes reliable :: "'st \<Rightarrow> bool"
  assumes reliable_acquire: "reliable st \<Longrightarrow> \<not> holds i st \<Longrightarrow> validate_id i = None \<Longrightarrow>
      \<exists>st'. acquire i st = (None, st') \<and> reliable st'"
    and reliable_save: "reliable st \<Longrightarrow> rr_id r = i \<Longrightarrow> \<exists>st'. save i r st = (None, st') \<and> reliable st'"
begin

text \<open>An update is saved, or it is lost with the session, and then the store was not reliable.\<close>

lemma store_update:
  assumes "in_step load i se" "\<not> se_poisoned se" "edit (se_record se) = Inr (x, r)" "rr_revision r < 2 ^ 64 - 1"
    and r': "r\<lparr>rr_revision := rr_revision r + 1\<rparr> = r'" and stored: "storable i r'"
  obtains (saved) st where "update (save i) edit se = (Inr x, se\<lparr>se_record := r', se_store := st\<rparr>)"
      "load i st = Inr (Some r')" "reliable (se_store se) \<longrightarrow> reliable st"
  | (lost) e st where "update (save i) edit se = (Inl e, se\<lparr>se_poisoned := True, se_store := st\<rparr>)"
      "load i st = Inr (Some (se_record se))" "\<not> reliable (se_store se)"
proof -
  obtain res st where save: "save i r' (se_store se) = (res, st)" by fastforce
  have id: "rr_id r' = i" using stored by (simp add: storable_def)
  show ?thesis
  proof (cases res)
    case None
    with save assms have "update (save i) edit se = (Inr x, se\<lparr>se_record := r', se_store := st\<rparr>)"
      by (simp add: update_def Let_def r')
    moreover have "load i st = Inr (Some r')" using save_ok save stored unfolding None by blast
    moreover have "reliable (se_store se) \<longrightarrow> reliable st" using reliable_save [OF _ id] save by fastforce
    ultimately show ?thesis by (rule saved)
  next
    case (Some e)
    with save assms have "update (save i) edit se = (Inl e, se\<lparr>se_poisoned := True, se_store := st\<rparr>)"
      by (simp add: update_def Let_def r')
    moreover have "load i st = Inr (Some (se_record se))"
      using save_fails save assms(1) unfolding Some in_step_def by metis
    moreover have "\<not> reliable (se_store se)" using reliable_save [OF _ id] save Some by fastforce
    ultimately show ?thesis by (rule lost)
  qed
qed

end

section \<open>The durable run\<close>

text \<open>The records a step writes when it begins and when it commits.\<close>

definition begun :: "nat \<Rightarrow> frame_record \<Rightarrow> run_record \<Rightarrow> run_record" where
  "begun k f r = r\<lparr>rr_steps_used := Suc k, rr_revision := rr_revision r + 1,
     rr_frames := [(''root'', f\<lparr>fr_steps_used := Suc k, fr_active := True\<rparr>)]\<rparr>"

definition committed :: "nat \<Rightarrow> frame_record \<Rightarrow> json \<Rightarrow> string option \<Rightarrow> run_record \<Rightarrow> run_record" where
  "committed k f v next r = r\<lparr>rr_steps_used := Suc k, rr_revision := rr_revision r + 2,
     rr_frames := [(''root'', f\<lparr>fr_steps_used := Suc k, fr_active := False, fr_state := v, fr_next_node := next\<rparr>)]\<rparr>"

text \<open>A run record of one frame whose cursor is at the \<open>k\<close>-th step, begun or not.\<close>

definition cursor_at :: "nat \<Rightarrow> string \<Rightarrow> nat \<Rightarrow> frame_record \<Rightarrow> run_record \<Rightarrow> bool" where
  "cursor_at mx c k f r \<longleftrightarrow> rr_frames r = [(''root'', f)] \<and> rr_approvals r = [] \<and> rr_status r = Running
     \<and> rr_steps_used r = fr_steps_used f \<and> rr_max_steps r = mx \<and> fr_max_steps f = mx
     \<and> fr_next_node f = Some c \<and> fr_steps_used f = (if fr_active f then Suc k else k)"

lemma begin_frame_at:
  assumes "cursor_at mx c k f r" "k < mx"
  shows "begin_frame ''root'' c r = Inr (Suc k, (begun k f r)\<lparr>rr_revision := rr_revision r\<rparr>)"
  using assms by (cases r; cases f) (auto simp: begin_frame_def cursor_at_def begun_def)

lemma commit_frame_at:
  assumes "rr_approvals r = []" "fr_next_node f = Some c"
  shows "commit_frame ''root'' v next (begun k f r) = Inr ((), (committed k f v next r)\<lparr>rr_revision := rr_revision r + 1\<rparr>)"
  using assms by (cases r) (simp add: commit_frame_def begun_def committed_def mark_applied_def)

lemma durable_exec_behaves:
  assumes "node_behaves node h"
  shows "durable_exec fc par c node k rs =
    (case exec_node par c node (rs\<lparr>rs_world := (rs_world rs)\<lparr>dw_scope := Some (fc_path fc, c, k)\<rparr>\<rparr>) of
       (res, rs') \<Rightarrow> (res, rs'\<lparr>rs_world := (rs_world rs')\<lparr>dw_scope := dw_scope (rs_world rs)\<rparr>\<rparr>))"
  using assms by (cases node) (simp_all add: durable_exec_def)

context reliable_store begin

lemma durable_turn:
  assumes rep: "replayable g h" and bet: "between s (rs_engine rs)"
    and fc: "fc_path fc = ''root''" "fc_save fc = save i" "fc_enc fc s' = Inr v"
    and at: "cursor_at mx c k f (se_record (session_of rs))" and ok: "\<not> se_poisoned (session_of rs)" "in_step load i (session_of rs)"
    and rev: "rr_revision (se_record (session_of rs)) + 2 < 2 ^ 64"
    and stored: "storable i (begun k f (se_record (session_of rs)))" "storable i (committed k f v next (se_record (session_of rs)))"
    and abs: "abs_step env g h mx c k s = Some (next, s')"
  obtains (finished) rs' where "durable_step fc env par g c mx rs = (case next of None \<Rightarrow> Stop None rs' | Some n \<Rightarrow> Continue n (Suc k) rs')"
    "between s' (rs_engine rs')" "se_record (session_of rs') = committed k f v next (se_record (session_of rs))"
    "in_step load i (session_of rs')" "\<not> se_poisoned (session_of rs')"
    "reliable (se_store (session_of rs)) \<longrightarrow> reliable (se_store (session_of rs'))"
  | (lost) e rs' where "durable_step fc env par g c mx rs = Stop (Some (Durable e)) rs'"
    "se_record (session_of rs') \<in> {se_record (session_of rs), begun k f (se_record (session_of rs))}"
    "in_step load i (session_of rs')" "\<not> eng_cancelled (rs_engine rs')" "\<not> reliable (se_store (session_of rs))"
proof -
  let ?r = "se_record (session_of rs)"
  obtain node where node: "hm_get (g_nodes g) c = Some node" and k: "k < mx"
    using abs by (auto simp: abs_step_def hm_contains_iff split: if_splits)
  obtain ops action e' where h: "h c s = (ops, None)"
    and tc: "take_control (commit (re_ops env) (exec_node_ops ops (engine_new s None False))) = ((action, None), e')"
    and res: "resolve_next_opt g action c (eng_state e') = Inr next" "eng_state e' = s'"
    using abs unfolding abs_step_def by (auto split: if_splits prod.splits option.splits sum.splits)
  have uncancelled: "\<not> eng_cancelled (rs_engine rs)" using bet by (simp add: between_def)
  have r1: "((begun k f ?r)\<lparr>rr_revision := rr_revision ?r\<rparr>)\<lparr>rr_revision := rr_revision ((begun k f ?r)\<lparr>rr_revision := rr_revision ?r\<rparr>) + 1\<rparr> = begun k f ?r"
    by (simp add: begun_def)
  show ?thesis
  proof (rule store_update [where edit = "begin_frame ''root'' c", OF ok(2,1) begin_frame_at [OF at k] _ r1 stored(1)], goal_cases bound saved lost)
    case (lost e st)
    show ?thesis
      by (rule that(2) [of e "set_session ((session_of rs)\<lparr>se_poisoned := True, se_store := st\<rparr>) rs"])
        (use lost uncancelled fc in \<open>simp_all add: durable_step_def scope_begin_def set_session_def in_step_def\<close>)
  next
    case (saved st1)
    define se1 where "se1 = (session_of rs)\<lparr>se_record := begun k f ?r, se_store := st1\<rparr>"
    define rs0 where "rs0 = log_event (NodeStart c (Suc k)) (set_session se1 rs)"
    have begin_ok: "scope_begin (save i) ''root'' c (session_of rs) = (Inr (Suc k), se1)"
      using saved(1) by (simp add: scope_begin_def se1_def)
    have in1: "in_step load i se1" "\<not> se_poisoned se1" using saved(2) ok(1) by (simp_all add: in_step_def se1_def)
    have "between s (rs_engine (rs0\<lparr>rs_world := (rs_world rs0)\<lparr>dw_scope := Some (fc_path fc, c, Suc k)\<rparr>\<rparr>))"
      using bet by (simp add: rs0_def set_session_def)
    then obtain rs1 where ex: "exec_node par c node (rs0\<lparr>rs_world := (rs_world rs0)\<lparr>dw_scope := Some (fc_path fc, c, Suc k)\<rparr>\<rparr>) = (None, rs1)"
      "session_of rs1 = session_of (rs0\<lparr>rs_world := (rs_world rs0)\<lparr>dw_scope := Some (fc_path fc, c, Suc k)\<rparr>\<rparr>)"
      "\<not> eng_cancelled (rs_engine rs1)" "core_alike (rs_engine rs1) (exec_node_ops ops (engine_new s None False))"
      by (rule node_turn [OF replayableD [OF rep node] _ h])
    define rs1' where "rs1' = rs1\<lparr>rs_world := (rs_world rs1)\<lparr>dw_scope := dw_scope (rs_world rs0)\<rparr>\<rparr>"
    have ex': "durable_exec fc par c node (Suc k) rs0 = (None, rs1')"
      by (simp add: durable_exec_behaves [OF replayableD [OF rep node]] ex(1) rs1'_def)
    obtain rs2 where ct: "commit_and_take env (log_event (NodeEnd c (Suc k) True) rs1') = ((action, None), rs2)"
      and b2: "between s' (rs_engine rs2)" and w2: "rs_world rs2 = rs_world rs1'"
      using commit_and_take_between [of "log_event (NodeEnd c (Suc k) True) rs1'"] ex(3,4) tc res(2)
      by (metis log_event_simps(1,2) rs1'_def run_state.select_convs(1) run_state.surjective run_state.update_convs(2))
    have s2: "eng_state (rs_engine rs2) = s'" using b2 by (simp add: between_def)
    have ro: "route g no_sinks c node action None rs2 = (Inr next, rs2)" using res by (simp add: route_def s2)
    have se2: "session_of rs2 = se1" using ex(2) by (simp add: w2 rs1'_def rs0_def set_session_def)
    have step: "durable_step fc env par g c mx rs =
        (case scope_commit (save i) (fc_enc fc) ''root'' s' next se1 of
           (Inl e, se3) \<Rightarrow> Stop (Some (Durable e)) (set_session se3 rs2)
         | (Inr _, se3) \<Rightarrow> (case next of None \<Rightarrow> Stop None (set_session se3 rs2) | Some n \<Rightarrow> Continue n (Suc k) (set_session se3 rs2)))"
      using uncancelled k node
      by (simp add: durable_step_def begin_ok ex' [unfolded rs0_def] ct ro s2 se2 fc)
    have commit: "scope_commit (save i) (fc_enc fc) ''root'' s' next se1 = update (save i) (commit_frame ''root'' v next) se1"
      by (simp add: scope_commit_def fc)
    have edit: "commit_frame ''root'' v next (se_record se1) = Inr ((), (committed k f v next ?r)\<lparr>rr_revision := rr_revision ?r + 1\<rparr>)"
      using at by (simp add: se1_def commit_frame_at cursor_at_def)
    have r2: "((committed k f v next ?r)\<lparr>rr_revision := rr_revision ?r + 1\<rparr>)\<lparr>rr_revision :=
        rr_revision ((committed k f v next ?r)\<lparr>rr_revision := rr_revision ?r + 1\<rparr>) + 1\<rparr> = committed k f v next ?r"
      by (simp add: committed_def)
    show ?thesis
    proof (rule store_update [where edit = "commit_frame ''root'' v next", OF in1 edit _ r2 stored(2)], goal_cases bound saved lost)
      case (saved st2)
      note saved2 = saved
      show ?thesis
        by (rule that(1) [of "set_session (se1\<lparr>se_record := committed k f v next ?r, se_store := st2\<rparr>) rs2"])
          (use saved2 b2 in1 \<open>reliable (se_store (session_of rs)) \<longrightarrow> reliable st1\<close>
            in \<open>simp_all add: step commit set_session_def in_step_def\<close>, simp add: se1_def)
    next
      case (lost e st2)
      show ?thesis
      proof (rule that(2))
        show "durable_step fc env par g c mx rs = Stop (Some (Durable e)) (set_session (se1\<lparr>se_poisoned := True, se_store := st2\<rparr>) rs2)"
          by (simp add: step commit lost(1))
        show "\<not> reliable (se_store (session_of rs))"
          using lost(3) \<open>reliable (se_store (session_of rs)) \<longrightarrow> reliable st1\<close> by (auto simp: se1_def)
      qed (use lost(2) b2 in \<open>simp_all add: set_session_def in_step_def between_def se1_def\<close>)
    qed (use rev in simp)
  qed (use rev in simp)
qed

end

section \<open>Records from which the run ends in a given state\<close>

definition sound_frame where
  "sound_frame env g h mx dec t f \<longleftrightarrow>
     fr_signature f = durable_signature g \<and> fr_max_steps f = mx \<and> fr_steps_used f \<le> mx
     \<and> (\<exists>s. dec (fr_state f) = Inr s
          \<and> (case fr_next_node f of
               None \<Rightarrow> s = t \<and> \<not> fr_active f
             | Some c \<Rightarrow> \<exists>k. fr_steps_used f = (if fr_active f then Suc k else k) \<and> leads_to env g h mx c k s t))"

definition sound_run where
  "sound_run env g h mx dec t i version b r \<longleftrightarrow>
     rr_format r = run_format_version \<and> rr_id r = i \<and> rr_version r = version \<and> rr_max_steps r = mx
     \<and> rr_revision r \<le> b \<and> rr_approvals r = [] \<and> rr_tasks r = []
     \<and> (\<exists>f. rr_frames r = [(''root'', f)] \<and> rr_steps_used r = fr_steps_used f \<and> sound_frame env g h mx dec t f
          \<and> (rr_status r = Running \<or> rr_status r = CompletedRun \<and> fr_next_node f = None))"

lemma leads_to_bound: "leads_to env g h mx c k s t \<Longrightarrow> k < mx \<and> hm_contains (g_nodes g) c"
  by (erule leads_to.cases) (auto simp: abs_step_def split: if_splits)

lemma begun_sound:
  assumes "sound_run env g h mx dec t i version b r" "cursor_at mx c k f r" "dec (fr_state f) = Inr s"
    and "leads_to env g h mx c k s t" "rr_revision r < b"
  shows "sound_run env g h mx dec t i version b (begun k f r)"
  using assms leads_to_bound [OF assms(4)]
  by (auto simp: sound_run_def begun_def cursor_at_def sound_frame_def)

lemma committed_sound:
  assumes "sound_run env g h mx dec t i version b r" "cursor_at mx c k f r" "dec v = Inr s"
    and "case next of None \<Rightarrow> s = t | Some n \<Rightarrow> leads_to env g h mx n (Suc k) s t" "k < mx" "rr_revision r + 1 < b"
  shows "sound_run env g h mx dec t i version b (committed k f v next r)"
  using assms
  by (auto simp: sound_run_def committed_def cursor_at_def sound_frame_def split: option.splits)

lemma committed_cursor:
  assumes "cursor_at mx c k f r"
  shows "cursor_at mx n (Suc k) (f\<lparr>fr_steps_used := Suc k, fr_active := False, fr_state := v, fr_next_node := Some n\<rparr>)
    (committed k f v (Some n) r)"
  using assms by (simp add: cursor_at_def committed_def)



lemma sound_storable:
  assumes "sound_run env g h mx dec t i version b r" "rv_workflow version \<noteq> []" "rv_state_schema version \<noteq> []"
    and "b < 2 ^ 64" "mx < 2 ^ 64"
  shows "storable i r"
  using assms
  by (auto simp: storable_def sound_run_def record_bounded_def validate_run_def run_format_version_def frame_bad_def
      sound_frame_def split: option.splits)

lemma sound_weaken: "sound_run env g h mx dec t i version b r \<Longrightarrow> b \<le> b' \<Longrightarrow> sound_run env g h mx dec t i version b' r"
  by (auto simp: sound_run_def)

text \<open>What an execution leaves in the session and the store, and what it has to leave of a reliable store.\<close>

context reliable_store begin

lemma durable_loop_leads:
  assumes "leads_to env g h mx c k s t"
    and rep: "replayable g h" and fc: "fc_path fc = ''root''" "fc_save fc = save i"
    and codec: "\<And>s. \<exists>v. fc_enc fc s = Inr v \<and> dec v = Inr s"
    and version: "rv_workflow version \<noteq> []" "rv_state_schema version \<noteq> []" and b: "b + 2 < 2 ^ 64" "mx < 2 ^ 64"
    and "between s (rs_engine rs)" "\<not> se_poisoned (session_of rs)" "in_step load i (session_of rs)"
    and "cursor_at mx c k f (se_record (session_of rs))" "dec (fr_state f) = Inr s"
    and "sound_run env g h mx dec t i version b (se_record (session_of rs))"
    and "rr_revision (se_record (session_of rs)) + 2 * (mx - k) \<le> b" "mx - k \<le> fuel"
  shows "\<exists>res rs'. durable_loop fuel fc env par g c mx rs = Some (res, rs') \<and> \<not> eng_cancelled (rs_engine rs')
    \<and> in_step load i (session_of rs') \<and> sound_run env g h mx dec t i version b (se_record (session_of rs'))
    \<and> (res = None \<and> eng_state (rs_engine rs') = t \<and> \<not> se_poisoned (session_of rs')
         \<and> map_option fr_next_node (hm_get (rr_frames (se_record (session_of rs'))) ''root'') = Some None
         \<and> (reliable (se_store (session_of rs)) \<longrightarrow> reliable (se_store (session_of rs')))
       \<or> (\<exists>e. res = Some (Durable e)) \<and> \<not> reliable (se_store (session_of rs)))"
  using assms(1,10-)
proof (induction arbitrary: fuel f rs rule: leads_to.induct)
  case (last c k s t)
  have leads: "leads_to env g h mx c k s t" by (rule leads_to.last [OF last.hyps])
  then have k: "k < mx" by (simp add: leads_to_bound)
  obtain v where v: "fc_enc fc t = Inr v" "dec v = Inr t" using codec by blast
  let ?r = "se_record (session_of rs)"
  have s1: "sound_run env g h mx dec t i version b (begun k f ?r)"
    by (rule begun_sound [OF last.prems(6,4,5) leads]) (use last.prems(7) k in simp)
  have s2: "sound_run env g h mx dec t i version b (committed k f v None ?r)"
    by (rule committed_sound [OF last.prems(6,4) v(2)]) (use last.prems(7) k in auto)
  have st: "storable i (begun k f ?r)" "storable i (committed k f v None ?r)"
    using sound_storable [OF s1 version] sound_storable [OF s2 version] b by auto
  have rev: "rr_revision ?r + 2 < 2 ^ 64" using last.prems(7) k b by auto
  obtain fuel' where fuel: "fuel = Suc fuel'" using last.prems(8) k by (cases fuel) auto
  show ?case
  proof (rule durable_turn [where par = par, OF rep last.prems(1) fc v(1) last.prems(4,2,3) rev st last.hyps], goal_cases went lost)
    case (went rs')
    then show ?thesis
      using s2 by (intro exI [of _ None] exI [of _ rs']) (simp add: fuel between_def committed_def)
  next
    case (lost e rs')
    then have "sound_run env g h mx dec t i version b (se_record (session_of rs'))" using s1 last.prems(6) by auto
    with lost show ?thesis by (intro exI [of _ "Some (Durable e)"] exI [of _ rs']) (simp add: fuel)
  qed
next
  case (more c k s n s' t)
  have leads: "leads_to env g h mx c k s t" by (rule leads_to.more [OF more.hyps])
  then have k: "k < mx" by (simp add: leads_to_bound)
  obtain v where v: "fc_enc fc s' = Inr v" "dec v = Inr s'" using codec by blast
  let ?r = "se_record (session_of rs)"
  let ?r2 = "committed k f v (Some n) ?r"
  have s1: "sound_run env g h mx dec t i version b (begun k f ?r)"
    by (rule begun_sound [OF more.prems(6,4,5) leads]) (use more.prems(7) k in simp)
  have s2: "sound_run env g h mx dec t i version b ?r2"
    by (rule committed_sound [OF more.prems(6,4) v(2)]) (use more.prems(7) more.hyps(2) k in auto)
  have st: "storable i (begun k f ?r)" "storable i ?r2"
    using sound_storable [OF s1 version] sound_storable [OF s2 version] b by auto
  have rev: "rr_revision ?r + 2 < 2 ^ 64" using more.prems(7) k b by auto
  obtain fuel' where fuel: "fuel = Suc fuel'" using more.prems(8) k by (cases fuel) auto
  let ?f2 = "f\<lparr>fr_steps_used := Suc k, fr_active := False, fr_state := v, fr_next_node := Some n\<rparr>"
  show ?case
  proof (rule durable_turn [where par = par, OF rep more.prems(1) fc v(1) more.prems(4,2,3) rev st more.hyps(1)], goal_cases went lost)
    case (went rs1)
    have bound: "rr_revision (se_record (session_of rs1)) + 2 * (mx - Suc k) \<le> b"
      using more.prems(7) k by (simp add: went(3) committed_def)
    have at: "cursor_at mx n (Suc k) ?f2 (se_record (session_of rs1))"
      unfolding went(3) by (rule committed_cursor [OF more.prems(4)])
    have "sound_run env g h mx dec t i version b (se_record (session_of rs1))" "mx - Suc k \<le> fuel'"
      using s2 more.prems(8) fuel k by (simp_all add: went(3))
    from more.IH [OF went(2,5,4) at _ this(1) bound this(2)] v(2) went(1,6) show ?thesis
      by (simp add: fuel) blast
  next
    case (lost e rs')
    then have "sound_run env g h mx dec t i version b (se_record (session_of rs'))" using s1 more.prems(6) by auto
    with lost show ?thesis by (intro exI [of _ "Some (Durable e)"] exI [of _ rs']) (simp add: fuel)
  qed
qed

end


section \<open>Starting and resuming\<close>

lemma sound_completed:
  assumes "sound_run env g h mx dec t i version b r" "map_option fr_next_node (hm_get (rr_frames r) ''root'') = Some None"
    and "rr_revision r < b"
  shows "sound_run env g h mx dec t i version b (r\<lparr>rr_status := CompletedRun, rr_revision := rr_revision r + 1\<rparr>)"
  using assms by (auto simp: sound_run_def)

lemma finish_durable_error: "durable_finish save (Some (Durable e)) False s se = (out, se') \<Longrightarrow> se' = se \<and> (\<forall>t. out \<noteq> Inr (OutCompleted t))"
  by (cases e) (auto simp: durable_finish_def)

text \<open>A result that may be told: if it is completion, in the state \<open>t\<close>; and completion, if nothing can fail.\<close>

definition tells :: "bool \<Rightarrow> 's \<Rightarrow> terminal_error + 's run_outcome \<Rightarrow> bool" where
  "tells sure t out \<longleftrightarrow> (\<forall>t'. out = Inr (OutCompleted t') \<longrightarrow> t' = t) \<and> (sure \<longrightarrow> out = Inr (OutCompleted t))"

context reliable_store begin

lemma finish_sound:
  assumes "in_step load i se" "\<not> se_poisoned se" "sound_run env g h mx dec t i version b (se_record se)"
    and "map_option fr_next_node (hm_get (rr_frames (se_record se)) ''root'') = Some None" "rr_revision (se_record se) < b"
    and version: "rv_workflow version \<noteq> []" "rv_state_schema version \<noteq> []" and b: "b + 2 < 2 ^ 64" "mx < 2 ^ 64"
  shows "\<exists>out se'. durable_finish (save i) None False t se = (out, se') \<and> in_step load i se'
    \<and> sound_run env g h mx dec t i version b (se_record se') \<and> tells (reliable (se_store se)) t out"
proof -
  let ?r = "(se_record se)\<lparr>rr_status := CompletedRun, rr_revision := rr_revision (se_record se) + 1\<rparr>"
  have sound: "sound_run env g h mx dec t i version b ?r" by (rule sound_completed [OF assms(3,4,5)])
  have edit: "set_status CompletedRun (se_record se) = Inr ((), (se_record se)\<lparr>rr_status := CompletedRun\<rparr>)"
    by (simp add: set_status_def)
  have bump: "((se_record se)\<lparr>rr_status := CompletedRun\<rparr>)\<lparr>rr_revision := rr_revision ((se_record se)\<lparr>rr_status := CompletedRun\<rparr>) + 1\<rparr> = ?r"
    by simp
  have "storable i ?r" using sound_storable [OF sound version] b by simp
  show ?thesis
  proof (rule store_update [where edit = "set_status CompletedRun", OF assms(1,2) edit _ bump \<open>storable i ?r\<close>], goal_cases bound saved lost)
    case (saved st)
    with sound show ?thesis by (simp add: durable_finish_def finish_status_def in_step_def tells_def)
  next
    case (lost e st)
    with assms(3) show ?thesis by (simp add: durable_finish_def finish_status_def in_step_def tells_def)
  qed (use assms(5) b in simp)
qed

lemma run_graph_sound:
  fixes rs0 :: "('s, 'm, 'k, ('st, 'x) dworld) run_state"
  assumes rep: "replayable g h" and fc: "fc_path fc = ''root''" "fc_save fc = save i" "fc_dec fc = dec"
    and codec: "\<And>s. \<exists>v. fc_enc fc s = Inr v \<and> dec v = Inr s" and valid: "validate_durable g = None"
    and version: "rv_workflow version \<noteq> []" "rv_state_schema version \<noteq> []" and b: "b + 2 < 2 ^ 64" "mx < 2 ^ 64"
    and start: "clean (rs_engine rs0)" "\<not> eng_cancelled (rs_engine rs0)" "\<not> se_poisoned (session_of rs0)" "in_step load i (session_of rs0)"
    and r: "sound_run env g h mx dec t i version b (se_record (session_of rs0))" "rr_status (se_record (session_of rs0)) = Running"
    and rev: "rr_revision (se_record (session_of rs0)) + 2 * mx \<le> b" and fuel: "mx \<le> fuel"
  shows "\<exists>res rs'. run_durable_graph fuel fc env par g mx rs0 = Some (res, rs') \<and> \<not> eng_cancelled (rs_engine rs')
    \<and> in_step load i (session_of rs') \<and> sound_run env g h mx dec t i version b (se_record (session_of rs'))
    \<and> (res = None \<and> eng_state (rs_engine rs') = t \<and> \<not> se_poisoned (session_of rs')
         \<and> map_option fr_next_node (hm_get (rr_frames (se_record (session_of rs'))) ''root'') = Some None
         \<and> (reliable (se_store (session_of rs0)) \<longrightarrow> reliable (se_store (session_of rs')))
       \<or> (\<exists>e. res = Some (Durable e)) \<and> \<not> reliable (se_store (session_of rs0)))"
proof -
  define r0 where "r0 = se_record (session_of rs0)"
  obtain f where f: "rr_frames r0 = [(''root'', f)]" "rr_steps_used r0 = fr_steps_used f" "sound_frame env g h mx dec t f"
    "rr_max_steps r0 = mx" "rr_approvals r0 = []"
    using r(1) by (auto simp: sound_run_def r0_def)
  then obtain s0 where s0: "dec (fr_state f) = Inr s0" and
    cursor: "case fr_next_node f of None \<Rightarrow> s0 = t \<and> \<not> fr_active f
      | Some c \<Rightarrow> \<exists>k. fr_steps_used f = (if fr_active f then Suc k else k) \<and> leads_to env g h mx c k s0 t"
    by (auto simp: sound_frame_def)
  have fields: "fr_signature f = durable_signature g" "fr_max_steps f = mx"
    using f(3) by (auto simp: sound_frame_def)
  define rs1 where "rs1 = set_session (session_of rs0) (rs0\<lparr>rs_engine := (rs_engine rs0)\<lparr>eng_state := s0\<rparr>\<rparr>)"
  have enter: "scope_enter fc g (eng_state (rs_engine rs0)) mx (session_of rs0) = (Inr (f, s0), session_of rs0)"
    using f(1) s0 fields cursor
    by (auto simp: scope_enter_def fc r0_def split: option.splits dest: leads_to_bound)
  have bet: "between s0 (rs_engine rs1)" and se: "session_of rs1 = session_of rs0"
    using start by (simp_all add: rs1_def set_session_def between_def clean_def)
  have run: "run_durable_graph fuel fc env par g mx rs0 =
      (case fr_next_node f of None \<Rightarrow> Some (None, rs1) | Some c \<Rightarrow> durable_loop fuel fc env par g c mx rs1)"
    by (simp add: run_durable_graph_def valid enter rs1_def Let_def split: option.split)
  show ?thesis
  proof (cases "fr_next_node f")
    case None
    with cursor have "s0 = t" by simp
    with None bet start r(1) f(1) show ?thesis
      by (intro exI [of _ None] exI [of _ rs1]) (simp add: run se between_def r0_def)
  next
    case (Some c)
    with cursor obtain k where k: "fr_steps_used f = (if fr_active f then Suc k else k)" "leads_to env g h mx c k s0 t"
      by auto
    have at: "cursor_at mx c k f (se_record (session_of rs1))"
      using f k(1) fields Some r(2) unfolding se by (simp add: cursor_at_def r0_def)
    show ?thesis
      using durable_loop_leads [where par = par, OF k(2) rep fc(1,2) codec version b bet _ _ at s0, of fuel] start r(1) rev fuel
      by (simp add: run Some se)
  qed
qed

lemma execute_sound:
  fixes g :: "('s, 'm, 'k, ('st, 'x) dworld) graph"
  assumes rep: "replayable g h" and fc: "fc_path fc = ''root''" "fc_save fc = save i" "fc_dec fc = dec"
    and codec: "\<And>s. \<exists>v. fc_enc fc s = Inr v \<and> dec v = Inr s" and valid: "validate_durable g = None"
    and version: "rv_workflow version \<noteq> []" "rv_state_schema version \<noteq> []" and b: "b + 2 < 2 ^ 64" "mx < 2 ^ 64"
    and r: "sound_run env g h mx dec t i version b0 r" "load i st = Inr (Some r)"
    and rev: "rr_revision r + 2 * mx + 3 \<le> b" and fuel: "mx \<le> fuel"
  shows "\<exists>out se. durable_execute fuel fc env par g s False rest (session_new r st) = Some (out, se)
    \<and> in_step load i se \<and> sound_run env g h mx dec t i version b (se_record se) \<and> tells (reliable st) t out"
proof -
  define r1 where "r1 = r\<lparr>rr_status := Running, rr_revision := rr_revision r + 1\<rparr>"
  have plain: "pending_approvals r = []" "rr_tasks r = []" "rr_max_steps r = mx"
    using r(1) by (auto simp: sound_run_def pending_approvals_def)
  have sound: "sound_run env g h mx dec t i version b r"
    using r(1) rev by (auto simp: sound_run_def)
  have sound1: "sound_run env g h mx dec t i version (b - 1) r1"
    using r(1) rev by (auto simp: sound_run_def r1_def)
  have "storable i r1" using sound_storable [OF sound1 version] b by simp
  have edit: "set_status Running (se_record (session_new r st)) = Inr ((), r\<lparr>rr_status := Running\<rparr>)"
    by (simp add: set_status_def session_new_def)
  have bump: "(r\<lparr>rr_status := Running\<rparr>)\<lparr>rr_revision := rr_revision (r\<lparr>rr_status := Running\<rparr>) + 1\<rparr> = r1"
    by (simp add: r1_def)
  have started: "in_step load i (session_new r st)" "\<not> se_poisoned (session_new r st)"
    using r(2) by (simp_all add: in_step_def session_new_def)
  show ?thesis
  proof (rule store_update [where edit = "set_status Running", OF started edit _ bump \<open>storable i r1\<close>], goal_cases bound saved lost)
    case (lost e st1)
    with sound plain show ?thesis
      by (simp add: durable_execute_def Let_def session_new_def fc in_step_def tells_def)
  next
    case (saved st1)
    define rs0 where "rs0 = (loop_start s False \<lparr>dw_session = (session_new r st)\<lparr>se_record := r1, se_store := st1\<rparr>,
        dw_scope = None, dw_root_cancelled = False, dw_rest = rest\<rparr> :: ('s, 'm, 'k, ('st, 'x) dworld) run_state)"
    have rs0: "session_of rs0 = (session_new r st)\<lparr>se_record := r1, se_store := st1\<rparr>" "clean (rs_engine rs0)"
      "\<not> eng_cancelled (rs_engine rs0)"
      by (simp_all add: rs0_def loop_start_def clean_def engine_new_def)
    have keeps: "reliable st \<longrightarrow> reliable st1" using saved(3) by (simp add: session_new_def)
    have store1: "se_store (session_of rs0) = st1" by (simp add: rs0)
    have run: "durable_execute fuel fc env par g s False rest (session_new r st) =
        map_option (\<lambda>(result, rs). durable_finish (save i) result (eng_cancelled (rs_engine rs)) (eng_state (rs_engine rs)) (session_of rs))
          (run_durable_graph fuel fc env par g mx rs0)"
      using saved(1) plain by (simp add: durable_execute_def Let_def session_new_def fc rs0_def)
    have "\<exists>res rs'. run_durable_graph fuel fc env par g mx rs0 = Some (res, rs') \<and> \<not> eng_cancelled (rs_engine rs')
      \<and> in_step load i (session_of rs') \<and> sound_run env g h mx dec t i version (b - 1) (se_record (session_of rs'))
      \<and> (res = None \<and> eng_state (rs_engine rs') = t \<and> \<not> se_poisoned (session_of rs')
           \<and> map_option fr_next_node (hm_get (rr_frames (se_record (session_of rs'))) ''root'') = Some None
           \<and> (reliable (se_store (session_of rs0)) \<longrightarrow> reliable (se_store (session_of rs')))
         \<or> (\<exists>e. res = Some (Durable e)) \<and> \<not> reliable (se_store (session_of rs0)))"
      by (rule run_graph_sound [OF rep fc codec valid version _ b(2) rs0(2,3)])
        (use saved(2) sound1 rev b fuel in \<open>simp_all add: rs0 in_step_def session_new_def\<close>, simp_all add: r1_def)
    then obtain res rs' where ran: "run_durable_graph fuel fc env par g mx rs0 = Some (res, rs')" "\<not> eng_cancelled (rs_engine rs')"
      "in_step load i (session_of rs')" "sound_run env g h mx dec t i version (b - 1) (se_record (session_of rs'))"
      and outcome: "res = None \<and> eng_state (rs_engine rs') = t \<and> \<not> se_poisoned (session_of rs')
           \<and> map_option fr_next_node (hm_get (rr_frames (se_record (session_of rs'))) ''root'') = Some None
           \<and> (reliable st1 \<longrightarrow> reliable (se_store (session_of rs')))
         \<or> (\<exists>e. res = Some (Durable e)) \<and> \<not> reliable st1"
      unfolding store1 by (elim exE conjE)
    have sound': "sound_run env g h mx dec t i version b (se_record (session_of rs'))"
      using ran(4) by (rule sound_weaken) simp
    from outcome consider (ended) "res = None" "eng_state (rs_engine rs') = t" "\<not> se_poisoned (session_of rs')"
        "map_option fr_next_node (hm_get (rr_frames (se_record (session_of rs'))) ''root'') = Some None"
        "reliable st1 \<longrightarrow> reliable (se_store (session_of rs'))"
      | (failed) e where "res = Some (Durable e)" "\<not> reliable st1" by blast
    then show ?thesis
    proof cases
      case ended
      have "rr_revision (se_record (session_of rs')) < b" using ran(4) rev by (auto simp: sound_run_def)
      from finish_sound [OF ran(3) ended(3) sound' ended(4) this version b]
      obtain out se' where fin: "durable_finish (save i) None False t (session_of rs') = (out, se')" and "in_step load i se'"
        "sound_run env g h mx dec t i version b (se_record se')" "tells (reliable (se_store (session_of rs'))) t out"
        by (elim exE conjE)
      moreover have "tells (reliable st) t out"
        using \<open>tells (reliable (se_store (session_of rs'))) t out\<close> ended(5) keeps unfolding tells_def by blast
      moreover have "durable_execute fuel fc env par g s False rest (session_new r st) = Some (out, se')"
        unfolding run ran(1) ended(1) using fin ran(2) ended(2) by simp
      ultimately show ?thesis by blast
    next
      case (failed e)
      obtain out se' where fin: "durable_finish (save i) (Some (Durable e)) False (eng_state (rs_engine rs')) (session_of rs') = (out, se')"
        by fastforce
      from finish_durable_error [OF fin] have se': "se' = session_of rs'" and "\<forall>t. out \<noteq> Inr (OutCompleted t)" by auto
      moreover from this keeps failed(2) have "tells (reliable st) t out" unfolding tells_def by blast
      moreover have "durable_execute fuel fc env par g s False rest (session_new r st) = Some (out, se')"
        unfolding run ran(1) failed(1) using fin ran(2) by simp
      ultimately show ?thesis using ran(3) sound' by blast
    qed
  qed (use rev b in simp)
qed

end


lemma sound_validates:
  assumes "sound_run env g h mx dec t i version b r" "rv_workflow version \<noteq> []" "rv_state_schema version \<noteq> []"
  shows "validate_record version i r = None"
  using assms
  by (auto simp: sound_run_def validate_record_def validate_run_def frame_bad_def sound_frame_def split: option.splits)

text \<open>What a run may have left under its name between two processes: nothing, or a record that ends in \<open>t\<close>.\<close>

definition left_sound where
  "left_sound env g h mx dec t i version b stored \<longleftrightarrow>
     (case stored of Inl e \<Rightarrow> False | Inr None \<Rightarrow> True | Inr (Some r) \<Rightarrow> sound_run env g h mx dec t i version b r)"

lemma left_sound_weaken:
  "left_sound env g h mx dec t i version b stored \<Longrightarrow> b \<le> b' \<Longrightarrow> left_sound env g h mx dec t i version b' stored"
  by (auto simp: left_sound_def sound_weaken split: sum.splits option.splits)

context reliable_store begin

lemma continue_sound:
  fixes g :: "('s, 'm, 'k, ('st, 'x) dworld) graph"
  assumes rep: "replayable g h" and fc: "fc_path fc = ''root''" "fc_save fc = save i" "fc_dec fc = dec"
    and codec: "\<And>s. \<exists>v. fc_enc fc s = Inr v \<and> dec v = Inr s" and valid: "validate_durable g = None"
    and version: "rv_workflow version \<noteq> []" "rv_state_schema version \<noteq> []" and b: "b + 2 < 2 ^ 64" "mx < 2 ^ 64"
    and r: "sound_run env g h mx dec t i version b0 r" "load i st = Inr (Some r)"
    and rev: "b0 + 2 * mx + 3 \<le> b" and fuel: "mx \<le> fuel"
  shows "\<exists>out se. durable_continue fuel fc env par g False rest (session_new r st) = Some (out, se)
    \<and> in_step load i se \<and> sound_run env g h mx dec t i version b (se_record se) \<and> tells (reliable st) t out"
proof -
  obtain f where f: "hm_get (rr_frames r) ''root'' = Some f" "sound_frame env g h mx dec t f"
    "rr_status r = Running \<or> rr_status r = CompletedRun \<and> fr_next_node f = None" "rr_revision r \<le> b0"
    using r(1) by (auto simp: sound_run_def)
  obtain s where s: "dec (fr_state f) = Inr s" "case fr_next_node f of None \<Rightarrow> s = t | Some c \<Rightarrow> True"
      "fr_signature f = durable_signature g"
    using f(2) by (auto simp: sound_frame_def split: option.splits)
  have resumed: "durable_continue fuel fc env par g False rest (session_new r st) =
      (if rr_status r = CompletedRun then Some (Inr (OutCompleted s), session_new r st)
       else durable_execute fuel fc env par g s False rest (session_new r st))"
    using f(1,3) s by (auto simp: durable_continue_def session_new_def fc)
  show ?thesis
  proof (cases "rr_status r = CompletedRun")
    case True
    with f(3) s(2) have "s = t" by auto
    moreover have "sound_run env g h mx dec t i version b r" using r(1) rev by (auto intro: sound_weaken)
    ultimately show ?thesis unfolding resumed using True r(2) by (simp add: in_step_def session_new_def tells_def)
  next
    case False
    have "rr_revision r + 2 * mx + 3 \<le> b" using f(4) rev by simp
    from execute_sound [where par = par and s = s and rest = rest, OF rep fc codec valid version b r this fuel] False
    show ?thesis by (simp add: resumed)
  qed
qed

lemma resume_sound:
  fixes g :: "('s, 'm, 'k, ('st, 'x) dworld) graph"
  assumes rep: "replayable g h" and codec: "\<And>s. \<exists>v. enc s = Inr v \<and> dec v = Inr s" and valid: "validate_durable g = None"
    and version: "rv_workflow version \<noteq> []" "rv_state_schema version \<noteq> []" and b: "b + 2 < 2 ^ 64" "mx < 2 ^ 64"
    and sf: "sf_acquire sf = acquire" "sf_release sf = release" "sf_load sf = load" "sf_save sf = save"
    and free: "\<not> holds i st" and stored: "left_sound env g h mx dec t i version b0 (load i st)"
    and rev: "b0 + 2 * mx + 3 \<le> b" and fuel: "mx \<le> fuel"
  shows "\<exists>out st'. durable_resume sf version fuel now token enc dec env par i g False rest st = Some (out, st')
    \<and> \<not> holds i st' \<and> left_sound env g h mx dec t i version b (load i st') \<and> (load i st = Inr None \<longleftrightarrow> load i st' = Inr None)
    \<and> tells (reliable st \<and> validate_id i = None \<and> load i st \<noteq> Inr None) t out"
proof -
  let ?fc = "root_ctx sf i now token enc dec"
  obtain res st1 where acq: "acquire i st = (res, st1)" by fastforce
  show ?thesis
  proof (cases res)
    case (Some e)
    with acq acquire_fails have "st1 = st" by metis
    moreover have "\<not> (reliable st \<and> validate_id i = None)" using reliable_acquire [OF _ free] acq Some by fastforce
    ultimately show ?thesis
      using acq free left_sound_weaken [OF stored, of b] rev Some valid
      by (simp add: durable_resume_def sf Let_def tells_def)
  next
    case None
    have same: "load i st1 = load i st" using acquire_ok acq None by metis
    have frees: "\<not> holds i (release i st')" "load i (release i st') = load i st'" for st'
      using release_frees by blast+
    consider (nothing) "load i st = Inr None" | (some) r where "load i st = Inr (Some r)" "sound_run env g h mx dec t i version b0 r"
      using stored by (auto simp: left_sound_def split: sum.splits option.splits)
    then show ?thesis
    proof cases
      case nothing
      then show ?thesis
        using acq None same valid frees by (simp add: durable_resume_def sf Let_def tells_def left_sound_def)
    next
      case (some r)
      have fc: "fc_path ?fc = ''root''" "fc_save ?fc = save i" "fc_dec ?fc = dec" "\<And>s. \<exists>v. fc_enc ?fc s = Inr v \<and> dec v = Inr s"
        using codec by (simp_all add: root_ctx_def sf)
      have "load i st1 = Inr (Some r)" using same some(1) by simp
      from continue_sound [where par = par and rest = rest, OF rep fc valid version b some(2) this rev fuel]
      obtain out se where run: "durable_continue fuel ?fc env par g False rest (session_new r st1) = Some (out, se)"
        "in_step load i se" "sound_run env g h mx dec t i version b (se_record se)" "tells (reliable st1) t out"
        by (elim exE conjE)
      have "reliable st \<longrightarrow> validate_id i = None \<longrightarrow> reliable st1" using reliable_acquire [OF _ free] acq by fastforce
      with run(4) have "tells (reliable st \<and> validate_id i = None \<and> load i st \<noteq> Inr None) t out" unfolding tells_def by blast
      moreover have "durable_resume sf version fuel now token enc dec env par i g False rest st = Some (out, release i (se_store se))"
        using acq None same some run(1) valid sound_validates [OF some(2) version]
        by (simp add: durable_resume_def sf Let_def release_after_def)
      ultimately show ?thesis using run(2,3) frees some(1) by (simp add: left_sound_def in_step_def)
    qed
  qed
qed

lemma start_sound:
  fixes g :: "('s, 'm, 'k, ('st, 'x) dworld) graph"
  assumes rep: "replayable g h" and codec: "\<And>s. \<exists>v. enc s = Inr v \<and> dec v = Inr s" and valid: "validate_durable g = None"
    and version: "rv_workflow version \<noteq> []" "rv_state_schema version \<noteq> []" and b: "b + 2 < 2 ^ 64" "mx < 2 ^ 64"
    and sf: "sf_acquire sf = acquire" "sf_release sf = release" "sf_load sf = load" "sf_save sf = save"
    and free: "\<not> holds i st" and fresh: "load i st = Inr None"
    and leads: "leads_to env g h mx (g_start g) 0 s t"
    and rev: "2 * mx + 3 \<le> b" and fuel: "mx \<le> fuel"
  shows "\<exists>out st'. durable_start sf version fuel now token enc dec env par i g s mx False rest st = Some (out, st')
    \<and> \<not> holds i st' \<and> left_sound env g h mx dec t i version b (load i st') \<and> tells (reliable st \<and> validate_id i = None) t out"
proof -
  let ?fc = "root_ctx sf i now token enc dec"
  obtain v where v: "enc s = Inr v" "dec v = Inr s" using codec by blast
  define r where "r = root_record i version (durable_signature g) v (g_start g) mx"
  have sound: "sound_run env g h mx dec t i version 0 r"
    using v(2) leads by (auto simp: sound_run_def r_def root_record_def sound_frame_def frame_new_def)
  have "storable i r" using sound_storable [OF sound version] b by simp
  then have id: "rr_id r = i" by (simp add: storable_def)
  obtain res st1 where acq: "acquire i st = (res, st1)" by fastforce
  have frees: "\<not> holds i (release i st')" "load i (release i st') = load i st'" for st'
    using release_frees by blast+
  show ?thesis
  proof (cases res)
    case (Some e)
    with acq acquire_fails have "st1 = st" by metis
    moreover have "\<not> (reliable st \<and> validate_id i = None)" using reliable_acquire [OF _ free] acq Some by fastforce
    ultimately show ?thesis
      using acq free fresh Some valid version by (simp add: durable_start_def sf Let_def tells_def left_sound_def)
  next
    case None
    have same: "load i st1 = Inr None" using acquire_ok acq None fresh by metis
    have keeps: "reliable st \<longrightarrow> validate_id i = None \<longrightarrow> reliable st1" using reliable_acquire [OF _ free] acq by fastforce
    obtain res2 st2 where saved: "save i r st1 = (res2, st2)" by fastforce
    have keeps2: "reliable st1 \<longrightarrow> res2 = None \<and> reliable st2" using reliable_save [OF _ id] saved by fastforce
    show ?thesis
    proof (cases res2)
      case (Some e)
      with saved save_fails same have "load i st2 = Inr None" by metis
      with acq None same Some saved v(1) valid version frees keeps keeps2 show ?thesis
        by (simp add: durable_start_def sf Let_def r_def [symmetric] left_sound_def tells_def)
    next
      case none: None
      have fc: "fc_path ?fc = ''root''" "fc_save ?fc = save i" "fc_dec ?fc = dec" "\<And>s. \<exists>v. fc_enc ?fc s = Inr v \<and> dec v = Inr s"
        using codec by (simp_all add: root_ctx_def sf)
      have "load i st2 = Inr (Some r)" using save_ok saved none \<open>storable i r\<close> by metis
      moreover have "rr_revision r + 2 * mx + 3 \<le> b" using rev by (simp add: r_def root_record_def)
      ultimately obtain out se where run: "durable_execute fuel ?fc env par g s False rest (session_new r st2) = Some (out, se)"
        "in_step load i se" "sound_run env g h mx dec t i version b (se_record se)" "tells (reliable st2) t out"
        using execute_sound [where par = par and s = s and rest = rest, OF rep fc valid version b sound _ _ fuel] by blast
      have "tells (reliable st \<and> validate_id i = None) t out" using run(4) keeps keeps2 unfolding tells_def by blast
      moreover have "durable_start sf version fuel now token enc dec env par i g s mx False rest st = Some (out, release i (se_store se))"
        using acq None same saved none v(1) valid version run(1)
        by (simp add: durable_start_def sf Let_def r_def [symmetric] release_after_def)
      ultimately show ?thesis using run(2,3) frees by (simp add: left_sound_def in_step_def)
    qed
  qed
qed

end


section \<open>The stores of the program\<close>

text \<open>
  The file store with a script of what the file system does: each save takes the next entry, a fault
  or none; after the last entry nothing fails. A process that dies is one whose saves all fail
  from some point on: what it leaves in the directory of its run is the same, a part of a pending file
  included, and its lock is free.
\<close>

definition faulty_files ::
  "(json \<Rightarrow> 'b) \<Rightarrow> ('b \<Rightarrow> string + json) \<Rightarrow> ('b run_files \<times> 'b run_fault option list) store_fns" where
  "faulty_files print parse =
     \<lparr>sf_acquire = (\<lambda>i (fs, faults). case file_acquire None i fs of (e, fs') \<Rightarrow> (e, (fs', faults))),
      sf_release = (\<lambda>i (fs, faults). (file_release i fs, faults)),
      sf_load = (\<lambda>i (fs, _). file_run_load parse i fs),
      sf_save = (\<lambda>i r (fs, faults).
        case file_run_save (case faults of [] \<Rightarrow> None | fault # _ \<Rightarrow> fault) print i r fs of
          (e, fs') \<Rightarrow> (e, (fs', tl faults)))\<rparr>"

definition no_faults :: "'b run_files \<times> 'b run_fault option list \<Rightarrow> bool" where
  "no_faults st \<longleftrightarrow> list_all (\<lambda>f. f = None) (snd st)"

sublocale json_text \<subseteq> faulty: reliable_store "sf_acquire (faulty_files print parse)" "sf_release (faulty_files print parse)"
  "sf_load (faulty_files print parse)" "sf_save (faulty_files print parse)" "\<lambda>i st. rd_locked (dir_of i (fst st))" no_faults
proof (unfold_locales, goal_cases)
  case (8 i r st st')
  then show ?case
    by (cases st) (auto simp: faulty_files_def split: prod.splits dest: on_disk.save_ok)
next
  case (9 i r st e st')
  then show ?case
    by (cases st) (auto simp: faulty_files_def split: prod.splits dest: on_disk.save_fails)
next
  case (10 j i r st)
  then show ?case
    by (cases st) (simp add: faulty_files_def on_disk.save_other split_beta)
next
  case (11 st i)
  then show ?case
    by (cases st) (simp add: faulty_files_def no_faults_def file_acquire_def Let_def)
next
  case (12 st r i)
  then show ?case
    by (cases st) (auto simp: faulty_files_def no_faults_def file_run_save_def Let_def split: list.splits)
qed (auto simp: faulty_files_def file_acquire_def file_release_def file_run_load_def file_run_save_def Let_def
      split: option.splits if_splits run_fault.splits prod.splits list.splits)

context json_text begin

lemma faulty_files_are_a_store:
  "reliable_store (sf_acquire (faulty_files print parse)) (sf_release (faulty_files print parse))
     (sf_load (faulty_files print parse)) (sf_save (faulty_files print parse)) (\<lambda>i st. rd_locked (dir_of i (fst st))) no_faults"
  by (rule faulty.reliable_store_axioms)

end

text \<open>The store in memory never fails.\<close>

sublocale json_text \<subseteq> memory: reliable_store memory_acquire memory_release "memory_run_load parse"
  "memory_run_save print" "\<lambda>i st. i \<in> set (mr_held st)" "\<lambda>_. True"
  by unfold_locales (auto simp: memory_acquire_def memory_run_save_def)

interpretation faulty_runs: reliable_store "sf_acquire (faulty_files (\<lambda>v. v) Inr)" "sf_release (faulty_files (\<lambda>v. v) Inr)"
  "sf_load (faulty_files (\<lambda>v. v) Inr)" "sf_save (faulty_files (\<lambda>v. v) Inr)" "\<lambda>i st. rd_locked (dir_of i (fst st))" no_faults
  by (rule value_text.faulty.reliable_store_axioms)

text \<open>
  Attempts to resume a run, one process after the other: each with its time, its token, its outside
  world and the faults it meets. An attempt that did not return would have no result.
\<close>

fun resume_attempts where
  "resume_attempts print parse version fuel enc dec env par i g fs [] = Some fs"
| "resume_attempts print parse version fuel enc dec env par i g fs ((now, token, rest, faults) # attempts) =
     (case durable_resume (faulty_files print parse) version fuel now token enc dec env par i g False rest (fs, faults) of
        None \<Rightarrow> None
      | Some (_, (fs', _)) \<Rightarrow> resume_attempts print parse version fuel enc dec env par i g fs' attempts)"

lemma faulty_files_simps [simp]:
  "sf_load (faulty_files print parse) i (fs, faults) = file_run_load parse i fs"
  by (simp add: faulty_files_def)

lemma attempts_sound:
  fixes g :: "('s, 'm, 'k, ('b run_files \<times> 'b run_fault option list, 'x) dworld) graph"
  assumes rep: "replayable g h" and codec: "\<And>s. \<exists>v. enc s = Inr v \<and> dec v = Inr s" and valid: "validate_durable g = None"
    and laws: "json_text print parse"
    and version: "rv_workflow version \<noteq> []" "rv_state_schema version \<noteq> []" and b: "b + 2 < 2 ^ 64" "mx < 2 ^ 64"
    and fuel: "mx \<le> fuel"
    and free: "\<not> rd_locked (dir_of i fs)" and stored: "left_sound env g h mx dec t i version b0 (file_run_load parse i fs)"
    and bound: "b0 + length attempts * (2 * mx + 3) \<le> b"
  shows "\<exists>fs'. resume_attempts print parse version fuel enc dec env par i g fs attempts = Some fs' \<and> \<not> rd_locked (dir_of i fs')
    \<and> left_sound env g h mx dec t i version b (file_run_load parse i fs')
    \<and> (file_run_load parse i fs = Inr None \<longleftrightarrow> file_run_load parse i fs' = Inr None)"
  using free stored bound
proof (induction attempts arbitrary: fs b0)
  case Nil
  then show ?case by (auto intro: left_sound_weaken)
next
  case (Cons a attempts)
  obtain now token rest faults where a: "a = (now, token, rest, faults)" by (metis prod_cases4)
  have b': "b0 + (2 * mx + 3) + 2 < 2 ^ 64" "b0 + 2 * mx + 3 \<le> b0 + (2 * mx + 3)" using Cons.prems(3) b by simp_all
  have stored': "left_sound env g h mx dec t i version b0 (sf_load (faulty_files print parse) i (fs, faults))"
    using Cons.prems(2) by simp
  have free': "\<not> rd_locked (dir_of i (fst (fs, faults)))" using Cons.prems(1) by simp
  obtain out st' where run: "durable_resume (faulty_files print parse) version fuel now token enc dec env par i g False rest (fs, faults) = Some (out, st')"
    "\<not> rd_locked (dir_of i (fst st'))" "left_sound env g h mx dec t i version (b0 + (2 * mx + 3)) (sf_load (faulty_files print parse) i st')"
    "sf_load (faulty_files print parse) i (fs, faults) = Inr None \<longleftrightarrow> sf_load (faulty_files print parse) i st' = Inr None"
    using reliable_store.resume_sound [OF json_text.faulty_files_are_a_store [OF laws] rep codec valid version b'(1) b(2) refl refl refl refl
        free' stored' b'(2) fuel, where par = par and rest = rest and now = now and token = token] by (elim exE conjE)
  obtain fs1 faults1 where st': "st' = (fs1, faults1)" by fastforce
  have "b0 + (2 * mx + 3) + length attempts * (2 * mx + 3) \<le> b" using Cons.prems(3) by simp
  from Cons.IH [OF _ _ this, of fs1] run st' show ?case by (simp add: a)
qed


text \<open>The counter graph once more, over the world of a durable run.\<close>

definition add_one :: "(nat, nat, unit, (json run_files \<times> json run_fault option list, nat) dworld) node_kind" where
  "add_one = ExternalLeaf (\<lambda>w s c. (w\<lparr>dw_rest := dw_rest w + 7\<rparr>, [Record 1], None))"

definition durable_counter :: "(nat, nat, unit, (json run_files \<times> json run_fault option list, nat) dworld) graph" where
  "durable_counter =
     \<lparr>g_name = ''counter'', g_nodes = [(''a'', add_one), (''b'', add_one)],
      g_edges = [\<lparr>e_from = ''a'', e_to = ''b'', e_condition = None, e_analysis = None, e_fallback = False\<rparr>],
      g_start = ''a'', g_end = ''b'', g_canonical_hash = 5\<rparr>"

definition durable_env :: "(nat, nat, nat, (json run_files \<times> json run_fault option list, nat) dworld) run_env" where
  "durable_env = \<lparr>re_ops = counter_ops, re_schedule = (\<lambda>w n. [0..<n])\<rparr>"

lemmas counter_step_defs = loop_step_def durable_counter_def durable_env_def usize_max_def run_leaf_fn_def loop_start_def
  exec_leaf_ops_def commit_and_take_def take_control_def control_take_def control_new_def route_def
  resolve_next_opt_def resolve_next_inline_def resolve_next_def edges_from_def edge_fires_def is_normal_def
  is_conditional_def log_event_def ok_or_def add_one_def counter_ops_def commit_def take_commit_batch_def
  apply_batch_to_state_def apply_batch_def engine_new_def

lemma durable_counter_steps:
  shows "\<exists>rs1. loop_step durable_env par durable_counter no_sinks ''a'' 0 10 (loop_start 0 False w) = Continue ''b'' 1 rs1
      \<and> rs_engine rs1 = engine_new 1 None False"
    and "rs_engine rs1 = engine_new 1 None False \<Longrightarrow>
      \<exists>rs2. loop_step durable_env par durable_counter no_sinks ''b'' 1 10 rs1 = Stop None rs2 \<and> eng_state (rs_engine rs2) = 2"
proof -
  have one: "usize_checked_add 0 (Suc 0) = Some (Suc 0)" "usize_checked_add (Suc 0) (Suc 0) = Some 2"
    by (simp_all add: usize_max_def)
  show "\<exists>rs1. loop_step durable_env par durable_counter no_sinks ''a'' 0 10 (loop_start 0 False w) = Continue ''b'' 1 rs1
      \<and> rs_engine rs1 = engine_new 1 None False"
    by (simp add: counter_step_defs one)
  show "\<exists>rs2. loop_step durable_env par durable_counter no_sinks ''b'' 1 10 rs1 = Stop None rs2 \<and> eng_state (rs_engine rs2) = 2"
    if "rs_engine rs1 = engine_new 1 None False"
    using that by (simp add: counter_step_defs one)
qed

lemma durable_counter_run:
  obtains rs where "run_inline durable_env durable_counter no_sinks 10 (loop_start 0 False w) = (None, rs)"
    "eng_state (rs_engine rs) = 2"
proof -
  obtain rs1 where one: "loop_step durable_env (parallel_execute durable_env) durable_counter no_sinks ''a'' 0 10
      (loop_start 0 False w) = Continue ''b'' 1 rs1" "rs_engine rs1 = engine_new 1 None False"
    using durable_counter_steps(1) by blast
  obtain rs2 where two: "loop_step durable_env (parallel_execute durable_env) durable_counter no_sinks ''b'' 1 10 rs1
      = Stop None rs2" "eng_state (rs_engine rs2) = 2"
    using durable_counter_steps(2) [OF one(2)] by blast
  have "validate_approval_handlers False durable_counter = None" "g_start durable_counter = ''a''"
    by (simp_all add: validate_approval_handlers_def durable_counter_def add_one_def)
  then show ?thesis
    using two(2) run_loop_Continue [OF one(1)] run_loop_Stop [OF two(1)] by (intro that [of rs2])
      (simp_all add: run_inline_def run_inline_from_def run_graph_loop_def no_sinks_def [THEN arg_cong [where f = sk_barrier]])
qed


end
