(* ===== verification/Utf8.thy ===== *)
theory Utf8
  imports Text
begin

text \<open>
  UTF-8 as the standard library reads it: which bytes form one character, \<open>from_utf8_lossy\<close>,
  which puts a replacement character in the place of every maximal invalid part, and the
  Unicode whitespace of \<open>trim\<close>. Strings are byte lists; a Rust string is one that is valid.
\<close>

abbreviation byte :: "char \<Rightarrow> nat" where
  "byte c \<equiv> of_char c"

section \<open>Characters\<close>

definition continuation :: "string \<Rightarrow> bool" where
  "continuation s = (case s of [] \<Rightarrow> False | c # _ \<Rightarrow> 128 \<le> byte c \<and> byte c < 192)"

definition second_byte :: "nat \<Rightarrow> string \<Rightarrow> bool" where
  "second_byte b s = (case s of [] \<Rightarrow> False | c # _ \<Rightarrow>
     (if b = 224 then 160 \<le> byte c \<and> byte c \<le> 191
      else if b = 237 then 128 \<le> byte c \<and> byte c \<le> 159
      else if b = 240 then 144 \<le> byte c \<and> byte c \<le> 191
      else if b = 244 then 128 \<le> byte c \<and> byte c \<le> 143
      else 128 \<le> byte c \<and> byte c \<le> 191))"

text \<open>
  The unit that starts with a byte: how many more bytes it takes and whether it is a
  character. An invalid unit ends before the first byte that cannot continue it.
\<close>

definition utf8_unit :: "char \<Rightarrow> string \<Rightarrow> nat \<times> bool" where
  "utf8_unit c s =
     (let b = byte c in
      if b < 128 then (0, True)
      else if 194 \<le> b \<and> b \<le> 223 then (if continuation s then (1, True) else (0, False))
      else if 224 \<le> b \<and> b \<le> 239 then
        (if \<not> second_byte b s then (0, False)
         else if \<not> continuation (drop 1 s) then (1, False) else (2, True))
      else if 240 \<le> b \<and> b \<le> 244 then
        (if \<not> second_byte b s then (0, False)
         else if \<not> continuation (drop 1 s) then (1, False)
         else if \<not> continuation (drop 2 s) then (2, False) else (3, True))
      else (0, False))"

fun valid_utf8 :: "string \<Rightarrow> bool" where
  "valid_utf8 [] = True"
| "valid_utf8 (c # s) = (case utf8_unit c s of (n, good) \<Rightarrow> good \<and> valid_utf8 (drop n s))"

definition replacement :: string where
  "replacement = [char_of (239 :: nat), char_of (191 :: nat), char_of (189 :: nat)]"

fun from_utf8_lossy :: "string \<Rightarrow> string" where
  "from_utf8_lossy [] = []"
| "from_utf8_lossy (c # s) =
     (case utf8_unit c s of (n, good) \<Rightarrow> (if good then c # take n s else replacement) @ from_utf8_lossy (drop n s))"

lemma continuation_append: "continuation (drop k s) \<Longrightarrow> continuation (drop k (s @ t)) \<and> k < length s"
  by (cases "k < length s") (auto simp: continuation_def split: list.splits)

lemma second_byte_append: "second_byte b s \<Longrightarrow> second_byte b (s @ t)"
  by (cases s) (simp_all add: second_byte_def)

lemma utf8_unit_good:
  assumes "utf8_unit c s = (n, True)"
  shows "utf8_unit c (s @ t) = (n, True) \<and> n \<le> length s"
  using assms second_byte_append [of _ s t] continuation_append [of 0 s t] continuation_append [of 1 s t]
    continuation_append [of 2 s t]
  by (auto simp: utf8_unit_def Let_def Suc_le_eq simp del: drop_append split: if_splits)

lemma valid_utf8_append: "valid_utf8 a \<Longrightarrow> valid_utf8 (a @ b) \<longleftrightarrow> valid_utf8 b"
proof (induction a rule: valid_utf8.induct)
  case (2 c s)
  obtain n good where u: "utf8_unit c s = (n, good)" by fastforce
  with 2 have good: "utf8_unit c s = (n, True)" "valid_utf8 (drop n s)" by auto
  from 2 u utf8_unit_good [OF good(1), of b] good show ?case by simp
qed simp

lemma from_utf8_lossy_append: "valid_utf8 a \<Longrightarrow> from_utf8_lossy (a @ b) = a @ from_utf8_lossy b"
proof (induction a rule: valid_utf8.induct)
  case (2 c s)
  obtain n good where u: "utf8_unit c s = (n, good)" by fastforce
  with 2 have good: "utf8_unit c s = (n, True)" "valid_utf8 (drop n s)" by auto
  from 2 u utf8_unit_good [OF good(1), of b] good show ?case by (simp add: append_assoc [symmetric] del: append_assoc)
qed simp

lemma from_utf8_lossy_valid [simp]: "valid_utf8 s \<Longrightarrow> from_utf8_lossy s = s"
  using from_utf8_lossy_append [of s "[]"] by simp

lemma valid_utf8_ascii: "list_all (\<lambda>c. byte c < 128) s \<Longrightarrow> valid_utf8 s"
  by (induction s rule: valid_utf8.induct) (simp_all add: utf8_unit_def)

section \<open>Whitespace\<close>

text \<open>The bytes of the characters \<open>char::is_whitespace\<close> holds of, one character at the front of a text.\<close>

definition whitespace_length :: "nat list \<Rightarrow> nat" where
  "whitespace_length bs =
     (case bs of
        [] \<Rightarrow> 0
      | a # r \<Rightarrow>
          if a \<in> {9, 10, 11, 12, 13, 32} then 1
          else case r of
            [] \<Rightarrow> 0
          | b # r' \<Rightarrow>
              if a = 194 \<and> b \<in> {133, 160} then 2
              else case r' of
                [] \<Rightarrow> 0
              | c # _ \<Rightarrow>
                  if (a = 225 \<and> b = 154 \<and> c = 128)
                    \<or> (a = 226 \<and> b = 128 \<and> (128 \<le> c \<and> c \<le> 138 \<or> c \<in> {168, 169, 175}))
                    \<or> (a = 226 \<and> b = 129 \<and> c = 159) \<or> (a = 227 \<and> b = 128 \<and> c = 128)
                  then 3 else 0)"

fun trim_front :: "string \<Rightarrow> string" where
  "trim_front [] = []"
| "trim_front (c # s) =
     (case whitespace_length (map of_char (c # s)) of 0 \<Rightarrow> c # s | Suc n \<Rightarrow> trim_front (drop n s))"

text \<open>From the end: the same characters, their bytes in reverse.\<close>

definition whitespace_length_rev :: "nat list \<Rightarrow> nat" where
  "whitespace_length_rev bs =
     (if whitespace_length (take 1 bs) = 1 then 1
      else if whitespace_length (rev (take 2 bs)) = 2 then 2
      else if whitespace_length (rev (take 3 bs)) = 3 then 3 else 0)"

fun trim_front_rev :: "string \<Rightarrow> string" where
  "trim_front_rev [] = []"
| "trim_front_rev (c # s) =
     (case whitespace_length_rev (map of_char (c # s)) of 0 \<Rightarrow> c # s | Suc n \<Rightarrow> trim_front_rev (drop n s))"

definition trim_text :: "string \<Rightarrow> string" where
  "trim_text s = rev (trim_front_rev (rev (trim_front s)))"

end
