(* ===== verification/Llm_Core.thy ===== *)
theory Llm_Core
  imports Text
begin

text \<open>
  The data the other crates share (\<open>lellm-core\<close>): content blocks and messages with their
  validation (\<open>message.rs\<close>), errors (\<open>error.rs\<close>), requests and responses (\<open>request.rs\<close>,
  \<open>response.rs\<close>), tools (\<open>tool.rs\<close>, \<open>tool_context.rs\<close>) and layered prompts (\<open>prompt.rs\<close>).

  A 32-bit count is a \<open>32 word\<close>; a float is its bit pattern.
\<close>

section \<open>Content blocks\<close>

datatype cache_control = Breakpoint

record text_block =
  tb_text :: string
  tb_cache :: "cache_control option"

record thinking_block =
  th_thinking :: string
  th_redacted :: "string option"

record image_source =
  im_data :: string
  im_media_type :: string

record tool_call =
  tc_id :: string
  tc_name :: string
  tc_arguments :: json

datatype content_block =
    TextBlock text_block
  | ThinkingBlock thinking_block
  | ImageBlock image_source
  | ToolCallBlock tool_call

definition block_text :: "string \<Rightarrow> content_block" where
  "block_text s = TextBlock \<lparr>tb_text = s, tb_cache = None\<rparr>"

definition text_with_cache :: "string \<Rightarrow> cache_control \<Rightarrow> content_block" where
  "text_with_cache s c = TextBlock \<lparr>tb_text = s, tb_cache = Some c\<rparr>"

fun as_text :: "content_block \<Rightarrow> string option" where
  "as_text (TextBlock b) = Some (tb_text b)"
| "as_text _ = None"

fun join_with :: "string \<Rightarrow> string list \<Rightarrow> string" where
  "join_with sep [] = []"
| "join_with sep [x] = x"
| "join_with sep (x # y # xs) = x @ sep @ join_with sep (y # xs)"

definition block_texts :: "content_block list \<Rightarrow> string list" where
  "block_texts bs = List.map_filter as_text bs"

definition flatten_text :: "content_block list \<Rightarrow> string" where
  "flatten_text bs = join_with [CHR 0x0A, CHR 0x0A] (block_texts bs)"

definition text_blocks :: "string \<Rightarrow> content_block list" where
  "text_blocks s = [block_text s]"

section \<open>Errors\<close>

datatype restore_failure_reason =
    MissingExecutionContext | NotLatest | GraphMismatch | UnsupportedFormatReason | StepsExceededReason
  | NodeNotFoundReason | OtherReason

fun show_restore_reason :: "restore_failure_reason \<Rightarrow> string" where
  "show_restore_reason MissingExecutionContext = ''missing execution context''"
| "show_restore_reason NotLatest = ''not the latest checkpoint''"
| "show_restore_reason GraphMismatch = ''graph hash mismatch''"
| "show_restore_reason UnsupportedFormatReason = ''unsupported checkpoint format''"
| "show_restore_reason StepsExceededReason = ''step budget exhausted''"
| "show_restore_reason NodeNotFoundReason = ''next node not found''"
| "show_restore_reason OtherReason = ''other''"

datatype llm_error =
    InvalidRequest string
  | UnsupportedFeature string
  | DuplicateSystemPrompt
  | NetworkError string
  | TimeoutError string
  | ProviderError (pe_provider: string) (pe_status: "nat option") (pe_code: "string option") (pe_message: string)
  | ParseFailed string
  | UnexpectedEof
  | RestoreRefused restore_failure_reason string

fun show_llm_error :: "llm_error \<Rightarrow> string" where
  "show_llm_error (InvalidRequest m) = ''invalid request: '' @ m"
| "show_llm_error (UnsupportedFeature f) = ''unsupported feature: '' @ f"
| "show_llm_error DuplicateSystemPrompt =
     ''duplicate system prompt: both config and conversation contain system message''"
| "show_llm_error (NetworkError d) = ''network error: '' @ d"
| "show_llm_error (TimeoutError d) = ''request timeout: '' @ d"
| "show_llm_error (ProviderError p st c m) = ''provider error ['' @ p @ '']: '' @ m"
| "show_llm_error (ParseFailed d) = ''response parse error: '' @ d"
| "show_llm_error UnexpectedEof = ''unexpected EOF: stream ended without ResponseComplete''"
| "show_llm_error (RestoreRefused r m) = ''restore failed: '' @ show_restore_reason r @ '': '' @ m"

datatype tool_error_kind =
    ToolNotFound | ToolUnavailable | ToolTimeout | ToolNetwork | PermissionDenied | InvalidInput | RateLimited
  | LoopDetected | InternalError | ExternalError string

definition is_retryable :: "tool_error_kind \<Rightarrow> bool" where
  "is_retryable k \<longleftrightarrow> k \<in> {ToolTimeout, ToolNetwork, RateLimited, ToolUnavailable}"

fun show_tool_error_kind :: "tool_error_kind \<Rightarrow> string" where
  "show_tool_error_kind ToolNotFound = ''NotFound''"
| "show_tool_error_kind ToolUnavailable = ''ToolUnavailable''"
| "show_tool_error_kind ToolTimeout = ''Timeout''"
| "show_tool_error_kind ToolNetwork = ''Network''"
| "show_tool_error_kind PermissionDenied = ''PermissionDenied''"
| "show_tool_error_kind InvalidInput = ''InvalidInput''"
| "show_tool_error_kind RateLimited = ''RateLimited''"
| "show_tool_error_kind LoopDetected = ''LoopDetected''"
| "show_tool_error_kind InternalError = ''Internal''"
| "show_tool_error_kind (ExternalError source) = ''External('' @ source @ '')''"

record tool_error =
  te_kind :: tool_error_kind
  te_message :: string

definition show_tool_error :: "tool_error \<Rightarrow> string" where
  "show_tool_error e = ''['' @ show_tool_error_kind (te_kind e) @ ''] '' @ te_message e"

type_synonym tool_result = "tool_error + json"

section \<open>Messages\<close>

datatype message =
    SystemMessage "content_block list"
  | UserMessage "content_block list"
  | AssistantMessage "content_block list"
  | ToolResultMessage string bool "content_block list"

fun message_content :: "message \<Rightarrow> content_block list" where
  "message_content (SystemMessage c) = c"
| "message_content (UserMessage c) = c"
| "message_content (AssistantMessage c) = c"
| "message_content (ToolResultMessage _ _ c) = c"

fun message_tool_call_id :: "message \<Rightarrow> string" where
  "message_tool_call_id (ToolResultMessage i _ _) = i"
| "message_tool_call_id _ = []"

fun is_tool_error :: "message \<Rightarrow> bool" where
  "is_tool_error (ToolResultMessage _ e _) \<longleftrightarrow> e"
| "is_tool_error _ \<longleftrightarrow> False"

text \<open>\<open>Message::tool_result\<close>; \<open>print\<close> is \<open>serde_json::to_string\<close>.\<close>

definition tool_result_message :: "(json \<Rightarrow> string) \<Rightarrow> tool_call \<Rightarrow> tool_result \<Rightarrow> message" where
  "tool_result_message print call r =
     (case r of
        Inr v \<Rightarrow> ToolResultMessage (tc_id call) False (text_blocks (print v))
      | Inl e \<Rightarrow> ToolResultMessage (tc_id call) True (text_blocks (''tool error: '' @ show_tool_error e)))"

fun tool_result_block_error :: "content_block \<Rightarrow> string option" where
  "tool_result_block_error (ToolCallBlock _) = Some ''ToolResult must not contain ToolCall blocks''"
| "tool_result_block_error (ThinkingBlock _) = Some ''ToolResult must not contain Thinking blocks''"
| "tool_result_block_error _ = None"

fun assistant_block_error :: "content_block \<Rightarrow> string option" where
  "assistant_block_error (ToolCallBlock tc) =
     (if tc_id tc = [] then Some ''Assistant ToolCall.id must not be empty'' else None)"
| "assistant_block_error _ = None"

fun user_block_error :: "content_block \<Rightarrow> string option" where
  "user_block_error (ThinkingBlock _) = Some ''User must not contain Thinking blocks''"
| "user_block_error _ = None"

fun message_validate :: "message \<Rightarrow> string option" where
  "message_validate (ToolResultMessage i _ c) =
     (if i = [] then Some ''ToolResult.tool_call_id must not be empty'' else first_error tool_result_block_error c)"
| "message_validate (AssistantMessage c) = first_error assistant_block_error c"
| "message_validate (UserMessage c) = first_error user_block_error c"
| "message_validate (SystemMessage _) = None"

fun block_tool_call :: "content_block \<Rightarrow> tool_call option" where
  "block_tool_call (ToolCallBlock tc) = Some tc"
| "block_tool_call _ = None"

fun extract_tool_calls :: "message \<Rightarrow> tool_call list" where
  "extract_tool_calls (AssistantMessage c) = List.map_filter block_tool_call c"
| "extract_tool_calls _ = []"

section \<open>Tools\<close>

datatype parallel_safety = Safe | CategoryExclusive | Exclusive

type_synonym tool_category = string

record tool_definition =
  td_name :: string
  td_description :: string
  td_parameters :: json
  td_cache :: "cache_control option"

definition with_cache :: "cache_control \<Rightarrow> tool_definition \<Rightarrow> tool_definition" where
  "with_cache c d = d\<lparr>td_cache := Some c\<rparr>"

record tool_execution_context =
  tx_task_id :: string
  tx_idempotency_key :: string
  tx_attempt :: nat
  tx_cancelled :: bool

section \<open>Requests and responses\<close>

datatype tool_choice = ChooseTool string | ChooseAny

datatype reasoning_config = Disabled | Low | Medium | High

record chat_request =
  cr_model :: string
  cr_messages :: "message list"
  cr_tools :: "tool_definition list option"
  cr_temperature :: "64 word option"
  cr_max_tokens :: "32 word option"
  cr_top_p :: "64 word option"
  cr_seed :: "64 word option"
  cr_tool_choice :: "tool_choice option"
  cr_stop_sequences :: "string list option"
  cr_prefill :: "string option"
  cr_reasoning :: "reasoning_config option"
  cr_max_reasoning_tokens :: "32 word option"
  cr_extra :: "(string \<times> json) list option"

definition request_default :: chat_request where
  "request_default = \<lparr>cr_model = [], cr_messages = [], cr_tools = None, cr_temperature = None, cr_max_tokens = None,
     cr_top_p = None, cr_seed = None, cr_tool_choice = None, cr_stop_sequences = None, cr_prefill = None,
     cr_reasoning = None, cr_max_reasoning_tokens = None, cr_extra = None\<rparr>"

definition user_prompt :: "string \<Rightarrow> chat_request" where
  "user_prompt prompt = request_default\<lparr>cr_messages := [UserMessage (text_blocks prompt)]\<rparr>"

definition with_system_prompt :: "string \<Rightarrow> chat_request \<Rightarrow> chat_request" where
  "with_system_prompt prompt r = r\<lparr>cr_messages := SystemMessage (text_blocks prompt) # cr_messages r\<rparr>"

record token_usage =
  tu_prompt :: "32 word"
  tu_completion :: "32 word"
  tu_total :: "32 word"

record chat_response =
  rp_content :: "content_block list"
  rp_usage :: token_usage
  rp_raw :: json

definition response_tool_calls :: "chat_response \<Rightarrow> tool_call list" where
  "response_tool_calls r = List.map_filter block_tool_call (rp_content r)"

definition has_tool_calls :: "chat_response \<Rightarrow> bool" where
  "has_tool_calls r \<longleftrightarrow> response_tool_calls r \<noteq> []"

section \<open>Layered prompts\<close>

record prompt_layer =
  pl_text :: string
  pl_stable :: bool

type_synonym prompt = "prompt_layer list"

definition add_stable :: "string \<Rightarrow> prompt \<Rightarrow> prompt" where
  "add_stable t p = p @ [\<lparr>pl_text = t, pl_stable = True\<rparr>]"

definition add_dynamic :: "string \<Rightarrow> prompt \<Rightarrow> prompt" where
  "add_dynamic t p = p @ [\<lparr>pl_text = t, pl_stable = False\<rparr>]"

definition last_stable :: "prompt \<Rightarrow> nat option" where
  "last_stable p = map_option fst (find (\<lambda>(_, l). pl_stable l) (rev (List.enumerate 0 p)))"

definition prompt_build :: "prompt \<Rightarrow> message" where
  "prompt_build p = SystemMessage (map (\<lambda>(i, l).
     if Some i = last_stable p then text_with_cache (pl_text l) Breakpoint else block_text (pl_text l))
     (List.enumerate 0 p))"

definition prompt_is_empty :: "prompt \<Rightarrow> bool" where
  "prompt_is_empty p \<longleftrightarrow> list_all (\<lambda>l. pl_text l = []) p"

section \<open>Facts\<close>

lemma block_texts_simps [simp]:
  "block_texts [] = []"
  "block_texts (b # bs) = (case as_text b of None \<Rightarrow> block_texts bs | Some t \<Rightarrow> t # block_texts bs)"
  by (auto simp: block_texts_def map_filter_simps split: option.splits)

lemma block_texts_append [simp]: "block_texts (as @ bs) = block_texts as @ block_texts bs"
  by (induction as) (auto split: option.splits)

text \<open>The calls of a valid assistant message can be answered: each has an identifier.\<close>

lemma valid_calls_have_ids:
  "message_validate (AssistantMessage c) = None \<Longrightarrow> call \<in> set (extract_tool_calls (AssistantMessage c)) \<Longrightarrow> tc_id call \<noteq> []"
  by (induction c) (auto simp: map_filter_simps split: option.splits content_block.splits if_splits elim: block_tool_call.elims)

lemma tool_result_valid:
  "tc_id call \<noteq> [] \<Longrightarrow> message_validate (tool_result_message print call r) = None"
  by (auto simp: tool_result_message_def text_blocks_def block_text_def split: sum.splits)

text \<open>
  A built prompt has its breakpoint on the last stable layer and no other: with the layers
  \<open>xs @ l # ys\<close>, \<open>l\<close> stable and none of \<open>ys\<close>.
\<close>

lemma find_append: "find P (xs @ ys) = (case find P xs of None \<Rightarrow> find P ys | Some x \<Rightarrow> Some x)"
  by (induction xs) auto

lemma find_stable_None: "list_all (\<lambda>l. \<not> pl_stable l) p \<Longrightarrow> find (\<lambda>(_, l). pl_stable l) (rev (List.enumerate n p)) = None"
  by (auto simp: find_None_iff list_all_iff in_set_enumerate_eq)

lemma last_stable_split:
  assumes "pl_stable l" "list_all (\<lambda>l. \<not> pl_stable l) ys"
  shows "last_stable (xs @ l # ys) = Some (length xs)"
proof -
  have "find (\<lambda>(_, l). pl_stable l) (rev (List.enumerate 0 (xs @ l # ys))) = Some (length xs, l)"
    using assms find_stable_None [OF assms(2), of "Suc (length xs)"]
    by (simp add: enumerate_append_eq find_append)
  then show ?thesis by (simp add: last_stable_def)
qed

end
