(* ===== verification/Sse_Parser.thy ===== *)
theory Sse_Parser
  imports Utf8
begin

text \<open>
  Server-sent events (\<open>providers/stream/sse_parser.rs\<close>, \<open>sse_frame.rs\<close>): the parser that
  turns the byte chunks of a response into frames. It keeps the unfinished line and the fields
  of the unfinished frame between chunks.

  The lemmas show that how the bytes are cut into chunks does not matter, as long as no
  character is cut; where one is, it is lost.
\<close>

record sse_frame =
  sf_event :: "string option"
  sf_data :: string

record sse_parser =
  ps_buffer :: string
  ps_event :: "string option"
  ps_data :: "string option"

definition sse_new :: sse_parser where
  "sse_new = \<lparr>ps_buffer = [], ps_event = None, ps_data = None\<rparr>"

text \<open>The complete lines of a text and what follows the last newline.\<close>

fun split_lines :: "string \<Rightarrow> string list \<times> string" where
  "split_lines [] = ([], [])"
| "split_lines (c # cs) =
     (case split_lines cs of (ls, rest) \<Rightarrow>
        if c = CHR 0x0A then ([] # ls, rest)
        else case ls of [] \<Rightarrow> ([], c # rest) | l # ls' \<Rightarrow> ((c # l) # ls', rest))"

definition parse_sse_line :: "string \<Rightarrow> (string \<times> string) option" where
  "parse_sse_line line =
     (case split_at CHR '':'' line of
        None \<Rightarrow> None
      | Some (k, v) \<Rightarrow> Some (trim_text k, dropWhile (\<lambda>c. c = CHR '' '') v))"

definition sse_line :: "string \<Rightarrow> sse_parser \<Rightarrow> sse_frame list \<times> sse_parser" where
  "sse_line line p =
     (let trimmed = trim_text line in
      if trimmed = [] then
        (case ps_data p of
           None \<Rightarrow> ([], p)
         | Some d \<Rightarrow> ([\<lparr>sf_event = ps_event p, sf_data = d\<rparr>], p\<lparr>ps_event := None, ps_data := None\<rparr>))
      else case parse_sse_line trimmed of
        None \<Rightarrow> ([], p)
      | Some (key, value) \<Rightarrow>
          if key = ''event'' then ([], p\<lparr>ps_event := Some value\<rparr>)
          else if key = ''data'' then
            (if value = [] then ([], p)
             else ([], p\<lparr>ps_data := Some ((case ps_data p of None \<Rightarrow> [] | Some d \<Rightarrow> d) @ value)\<rparr>))
          else ([], p))"

fun parse_frames :: "string list \<Rightarrow> sse_parser \<Rightarrow> sse_frame list \<times> sse_parser" where
  "parse_frames [] p = ([], p)"
| "parse_frames (l # ls) p =
     (case sse_line l p of (fs, p') \<Rightarrow> case parse_frames ls p' of (fs', p'') \<Rightarrow> (fs @ fs', p''))"

definition feed :: "string \<Rightarrow> sse_parser \<Rightarrow> sse_frame list \<times> sse_parser" where
  "feed chunk p =
     (case split_lines (ps_buffer p @ from_utf8_lossy chunk) of
        (ls, rest) \<Rightarrow> parse_frames ls (p\<lparr>ps_buffer := rest\<rparr>))"

text \<open>The chunks of a stream, one after the other.\<close>

fun feed_all :: "string list \<Rightarrow> sse_parser \<Rightarrow> sse_frame list \<times> sse_parser" where
  "feed_all [] p = ([], p)"
| "feed_all (c # cs) p = (case feed c p of (fs, p') \<Rightarrow> case feed_all cs p' of (fs', p'') \<Rightarrow> (fs @ fs', p''))"

section \<open>Chunks\<close>

lemma split_lines_append:
  "split_lines (s @ t) =
     (case split_lines s of (ls, rest) \<Rightarrow> case split_lines (rest @ t) of (ls', rest') \<Rightarrow> (ls @ ls', rest'))"
proof (induction s)
  case (Cons c s)
  obtain ls rest where s: "split_lines s = (ls, rest)" by fastforce
  obtain ls' rest' where t: "split_lines (rest @ t) = (ls', rest')" by fastforce
  show ?case
  proof (cases "c = CHR 0x0A \<or> ls \<noteq> []")
    case True
    with Cons s t show ?thesis by (cases ls) auto
  next
    case False
    with Cons s t show ?thesis by auto
  qed
qed (simp split: prod.splits)

lemma sse_line_frame [simp]:
  "ps_buffer (snd (sse_line l p)) = ps_buffer p"
  "sse_line l (p\<lparr>ps_buffer := b\<rparr>) = (fst (sse_line l p), (snd (sse_line l p))\<lparr>ps_buffer := b\<rparr>)"
  by (auto simp: sse_line_def Let_def split: option.splits)

lemma parse_frames_buffer:
  "parse_frames ls (p\<lparr>ps_buffer := b\<rparr>) = (fst (parse_frames ls p), (snd (parse_frames ls p))\<lparr>ps_buffer := b\<rparr>)"
  by (induction ls arbitrary: p) (auto simp: split_beta)

lemma parse_frames_keeps_buffer [simp]: "ps_buffer (snd (parse_frames ls p)) = ps_buffer p"
  by (induction ls arbitrary: p) (auto simp: split_beta)

lemma parse_frames_append:
  "parse_frames (ls @ ls') p =
     (case parse_frames ls p of (fs, p') \<Rightarrow> case parse_frames ls' p' of (fs', p'') \<Rightarrow> (fs @ fs', p''))"
  by (induction ls arbitrary: p) (auto simp: split_beta)

lemma feed_append:
  assumes "valid_utf8 a"
  shows "feed (a @ b) p = (case feed a p of (fs, p') \<Rightarrow> case feed b p' of (fs', p'') \<Rightarrow> (fs @ fs', p''))"
proof -
  obtain ls rest where l: "split_lines (ps_buffer p @ a) = (ls, rest)" by fastforce
  obtain ls' rest' where l': "split_lines (rest @ from_utf8_lossy b) = (ls', rest')" by fastforce
  have "feed (a @ b) p = parse_frames (ls @ ls') (p\<lparr>ps_buffer := rest'\<rparr>)"
    using split_lines_append [of "ps_buffer p @ a" "from_utf8_lossy b"] l l' assms
    by (simp add: feed_def from_utf8_lossy_append)
  moreover have "feed a p = (fst (parse_frames ls p), (snd (parse_frames ls p))\<lparr>ps_buffer := rest\<rparr>)"
    using l assms by (simp add: feed_def parse_frames_buffer)
  ultimately show ?thesis
    using l' by (simp add: parse_frames_append parse_frames_buffer split_beta feed_def)
qed

lemma split_lines_rest: "CHR 0x0A \<notin> set (snd (split_lines s))"
  by (induction s) (auto split: prod.splits list.splits)

lemma split_lines_line: "CHR 0x0A \<notin> set s \<Longrightarrow> split_lines s = ([], s)"
  by (induction s) auto

lemma feed_buffer: "CHR 0x0A \<notin> set (ps_buffer (snd (feed c p)))"
  using split_lines_rest [of "ps_buffer p @ from_utf8_lossy c"] by (simp add: feed_def split_beta)

lemma feed_Nil: "CHR 0x0A \<notin> set (ps_buffer p) \<Longrightarrow> feed [] p = ([], p)"
  by (simp add: feed_def split_lines_line)

lemma feed_all_concat:
  "list_all valid_utf8 cs \<Longrightarrow> CHR 0x0A \<notin> set (ps_buffer p) \<Longrightarrow> feed_all cs p = feed (concat cs) p"
proof (induction cs arbitrary: p)
  case (Cons c cs)
  then have "feed_all cs (snd (feed c p)) = feed (concat cs) (snd (feed c p))"
    using feed_buffer by simp
  with Cons.prems show ?case by (simp add: feed_append split_beta)
qed (simp add: feed_Nil)

text \<open>
  C33: The parser does not see chunk boundaries: a response cut into chunks in any two ways,
  each at character boundaries, gives the same frames and leaves the parser in the same state.
\<close>

theorem chunk_boundaries_do_not_matter:
  assumes "list_all valid_utf8 cs" "list_all valid_utf8 ds" "concat cs = concat ds"
  shows "feed_all cs sse_new = feed_all ds sse_new"
  using assms by (simp add: feed_all_concat sse_new_def)

theorem chunk_boundaries_do_not_matter_witness:
  "feed_all [''data: a'', [CHR 0x0A, CHR 0x0A], ''data''] sse_new = feed_all [''da'', ''ta: a'' @ [CHR 0x0A], CHR 0x0A # ''data''] sse_new"
  by (rule chunk_boundaries_do_not_matter) code_simp+

definition accent_1 :: char where "accent_1 = char_of (195 :: nat)"
definition accent_2 :: char where "accent_2 = char_of (169 :: nat)"

text \<open>
  Where a chunk ends inside a character the character is lost: every part of it becomes
  a replacement character of its own. The two bytes of an e with acute accent, in one chunk
  and in two.
\<close>

theorem cut_character_is_lost:
  "fst (feed_all [''data: '' @ [accent_1, accent_2, CHR 0x0A, CHR 0x0A]] sse_new)
     = [\<lparr>sf_event = None, sf_data = [accent_1, accent_2]\<rparr>]
   \<and> fst (feed_all [''data: '' @ [accent_1], [accent_2, CHR 0x0A, CHR 0x0A]] sse_new)
     = [\<lparr>sf_event = None, sf_data = replacement @ replacement\<rparr>]"
  by code_simp

end
