(* ===== verification/Tool_Calls.thy ===== *)
theory Tool_Calls
  imports Utf8 Llm_Core
begin

text \<open>
  Assembling a streamed response: tool calls from their increments
  (\<open>providers/stream/tool_call_accumulator.rs\<close>), with the layers of repairs their argument
  texts go through, and the token usage (\<open>providers/stream/usage_accumulator.rs\<close>).

  \<open>serde_json::from_str\<close> is the argument \<open>parse\<close>.
\<close>

section \<open>Tool calls\<close>

record tool_call_delta =
  dl_index :: nat
  dl_id :: "string option"
  dl_name :: "string option"
  dl_arguments :: "string option"

record pending_call =
  pd_id :: "string option"
  pd_name :: "string option"
  pd_arguments :: string

type_synonym call_accumulator = "(nat, pending_call) hashmap"

definition pending_new :: pending_call where
  "pending_new = \<lparr>pd_id = None, pd_name = None, pd_arguments = []\<rparr>"

definition merge_delta :: "tool_call_delta \<Rightarrow> pending_call \<Rightarrow> pending_call" where
  "merge_delta d p =
     \<lparr>pd_id = (case dl_id d of None \<Rightarrow> pd_id p | Some i \<Rightarrow> Some i),
      pd_name = (case dl_name d of None \<Rightarrow> pd_name p | Some n \<Rightarrow> Some n),
      pd_arguments = pd_arguments p @ (case dl_arguments d of None \<Rightarrow> [] | Some a \<Rightarrow> a)\<rparr>"

definition push_call :: "tool_call_delta \<Rightarrow> call_accumulator \<Rightarrow> call_accumulator" where
  "push_call d acc =
     hm_insert (dl_index d)
       (merge_delta d (case hm_get acc (dl_index d) of None \<Rightarrow> pending_new | Some p \<Rightarrow> p)) acc"

section \<open>Repairing argument texts\<close>

text \<open>\<open>str::replace\<close>: from the left, without overlaps.\<close>

function replace_all :: "string \<Rightarrow> string \<Rightarrow> string \<Rightarrow> string" where
  "replace_all p r s =
     (if p = [] \<or> s = [] then s
      else if prefix p s then r @ replace_all p r (drop (length p) s)
      else hd s # replace_all p r (tl s))"
  by pat_completeness auto
termination
  by (relation "measure (\<lambda>(p, r, s). length s)") auto

declare replace_all.simps [simp del]

definition fence :: string where "fence = replicate 3 (CHR 0x60)"
definition newline :: string where "newline = [CHR 0x0A]"
definition tab :: string where "tab = [CHR 0x09]"

definition strip_codeblocks :: "string \<Rightarrow> string" where
  "strip_codeblocks t =
     trim_text (replace_all fence [] (replace_all (fence @ newline) []
       (replace_all (fence @ ''json'') [] (replace_all (fence @ ''json'' @ newline) [] t))))"

text \<open>Single quotes become double quotes, except inside a string that is in double quotes already.\<close>

fun normalize_quotes :: "bool \<Rightarrow> bool \<Rightarrow> bool \<Rightarrow> string \<Rightarrow> string" where
  "normalize_quotes in_double in_single escaped [] = []"
| "normalize_quotes in_double in_single escaped (c # cs) =
     (let escaped' = (c = CHR 0x5C \<and> \<not> escaped) in
      if c = CHR 0x22 \<and> \<not> escaped \<and> \<not> in_single
      then c # normalize_quotes (\<not> in_double) in_single escaped' cs
      else if c = CHR 0x27 \<and> \<not> escaped \<and> \<not> in_double
      then CHR 0x22 # normalize_quotes in_double (\<not> in_single) escaped' cs
      else c # normalize_quotes in_double in_single escaped' cs)"

definition normalize_single_quote_json :: "string \<Rightarrow> string" where
  "normalize_single_quote_json s = normalize_quotes False False False s"

definition fix_common_errors :: "string \<Rightarrow> string" where
  "fix_common_errors t =
     normalize_single_quote_json
       (replace_all '',]'' '']'' (replace_all ('','' @ tab @ '']'') '']'' (replace_all '', ]'' '']''
         (replace_all '',}'' ''}'' (replace_all ('','' @ tab @ ''}'') ''}'' (replace_all '', }'' ''}'' t))))))"

text \<open>The text up to the brace that closes the first one, braces in strings left aside.\<close>

fun scan_braces :: "bool \<Rightarrow> bool \<Rightarrow> int \<Rightarrow> string \<Rightarrow> string option" where
  "scan_braces in_string escaped depth [] = None"
| "scan_braces in_string escaped depth (c # cs) =
     (if in_string then
        (if escaped then map_option (Cons c) (scan_braces True False depth cs)
         else if c = CHR 0x5C then map_option (Cons c) (scan_braces True True depth cs)
         else if c = CHR 0x22 then map_option (Cons c) (scan_braces False False depth cs)
         else map_option (Cons c) (scan_braces True False depth cs))
      else if c = CHR 0x22 then map_option (Cons c) (scan_braces True escaped depth cs)
      else if c = CHR ''{'' then map_option (Cons c) (scan_braces False escaped (depth + 1) cs)
      else if c = CHR ''}'' then
        (if depth - 1 = 0 then Some [c] else map_option (Cons c) (scan_braces False escaped (depth - 1) cs))
      else map_option (Cons c) (scan_braces False escaped depth cs))"

definition extract_braces :: "string \<Rightarrow> string option" where
  "extract_braces s = (if CHR ''{'' \<in> set s then scan_braces False False 0 (dropWhile (\<lambda>c. c \<noteq> CHR ''{'') s) else None)"

definition robust_parse :: "(string \<Rightarrow> json option) \<Rightarrow> string \<Rightarrow> json" where
  "robust_parse parse t =
     (let trimmed = trim_text t in
      if trimmed = [] then JObject []
      else case parse trimmed of Some v \<Rightarrow> v | None \<Rightarrow>
     (let stripped = strip_codeblocks trimmed in
      case parse stripped of Some v \<Rightarrow> v | None \<Rightarrow>
     (case Option.bind (extract_braces stripped) parse of Some v \<Rightarrow> v | None \<Rightarrow>
     (let fixed = fix_common_errors stripped in
      case Option.bind (extract_braces fixed) parse of Some v \<Rightarrow> v | None \<Rightarrow>
     (case parse fixed of Some v \<Rightarrow> v | None \<Rightarrow> JString trimmed)))))"

definition finish_call :: "(string \<Rightarrow> json option) \<Rightarrow> pending_call \<Rightarrow> tool_call" where
  "finish_call parse p =
     \<lparr>tc_id = (case pd_id p of None \<Rightarrow> ''unknown'' | Some i \<Rightarrow> i),
      tc_name = (case pd_name p of None \<Rightarrow> ''unknown'' | Some n \<Rightarrow> n),
      tc_arguments = (if pd_arguments p = [] then JObject [] else robust_parse parse (pd_arguments p))\<rparr>"

definition finalize_calls :: "(string \<Rightarrow> json option) \<Rightarrow> call_accumulator \<Rightarrow> tool_call list" where
  "finalize_calls parse acc = map (finish_call parse \<circ> snd) (sort_key fst acc)"

section \<open>Usage\<close>

datatype usage_delta = InputTokens "32 word" | OutputTokens "32 word" | FullUsage token_usage

record usage_accumulator =
  ua_prompt :: "32 word option"
  ua_completion :: "32 word option"

definition usage_new :: usage_accumulator where
  "usage_new = \<lparr>ua_prompt = None, ua_completion = None\<rparr>"

fun push_usage :: "usage_delta \<Rightarrow> usage_accumulator \<Rightarrow> usage_accumulator" where
  "push_usage (InputTokens n) a =
     a\<lparr>ua_prompt := Some (max n (case ua_prompt a of None \<Rightarrow> 0 | Some m \<Rightarrow> m))\<rparr>"
| "push_usage (OutputTokens n) a =
     a\<lparr>ua_completion := Some (max n (case ua_completion a of None \<Rightarrow> 0 | Some m \<Rightarrow> m))\<rparr>"
| "push_usage (FullUsage u) a = a\<lparr>ua_prompt := Some (tu_prompt u), ua_completion := Some (tu_completion u)\<rparr>"

text \<open>The addition wraps (a build with overflow checks would panic there).\<close>

definition finalize_usage :: "usage_accumulator \<Rightarrow> token_usage option" where
  "finalize_usage a =
     (case (ua_prompt a, ua_completion a) of
        (Some p, Some c) \<Rightarrow> Some \<lparr>tu_prompt = p, tu_completion = c, tu_total = p + c\<rparr>
      | (Some p, None) \<Rightarrow> Some \<lparr>tu_prompt = p, tu_completion = 0, tu_total = p\<rparr>
      | (None, Some c) \<Rightarrow> Some \<lparr>tu_prompt = 0, tu_completion = c, tu_total = c\<rparr>
      | (None, None) \<Rightarrow> None)"

section \<open>What is assembled\<close>

definition of_index :: "nat \<Rightarrow> tool_call_delta list \<Rightarrow> tool_call_delta list" where
  "of_index i ds = filter (\<lambda>d. dl_index d = i) ds"

text \<open>The last value a field was given, and the pieces of the arguments in order.\<close>

definition latest :: "'a \<Rightarrow> ('d \<Rightarrow> 'a option) \<Rightarrow> 'd list \<Rightarrow> 'a" where
  "latest x f ds = (case List.map_filter f ds of [] \<Rightarrow> x | ys \<Rightarrow> last ys)"

definition pieces :: "tool_call_delta list \<Rightarrow> string" where
  "pieces ds = concat (List.map_filter dl_arguments ds)"

lemma sort_key_hm:
  assumes "hm_ok m"
  shows "sort_key fst m = map (\<lambda>k. (k, the (hm_get m k))) (sorted_list_of_set (fst ` set m))"
proof -
  have "sort_key fst m = map (\<lambda>p. (fst p, the (hm_get m (fst p)))) (sort_key fst m)"
    using assms by (intro map_idI [symmetric]) (auto simp: hm_ok_def)
  also have "\<dots> = map (\<lambda>k. (k, the (hm_get m k))) (map fst (sort_key fst m))" by simp
  also have "map fst (sort_key fst m) = sorted_list_of_set (fst ` set m)"
  proof (rule sorted_distinct_set_unique)
    have "mset (map fst (sort_key fst m)) = mset (map fst m)" by simp
    then show "distinct (map fst (sort_key fst m))"
      using assms unfolding hm_ok_def by (metis mset_eq_imp_distinct_iff)
  qed simp_all
  finally show ?thesis .
qed

lemma push_calls_get:
  "hm_get (fold push_call ds acc) i =
     (if of_index i ds = [] then hm_get acc i
      else Some (fold merge_delta (of_index i ds) (case hm_get acc i of None \<Rightarrow> pending_new | Some p \<Rightarrow> p)))"
proof (induction ds arbitrary: acc)
  case (Cons d ds)
  show ?case
    unfolding fold_Cons comp_apply Cons.IH by (auto simp: push_call_def of_index_def)
qed (simp add: of_index_def)

lemma push_calls_ok: "hm_ok acc \<Longrightarrow> hm_ok (fold push_call ds acc)"
  by (induction ds arbitrary: acc) (auto simp: push_call_def)

lemma push_calls_keys: "fst ` set (fold push_call ds acc) = fst ` set acc \<union> dl_index ` set ds"
  by (induction ds arbitrary: acc) (auto simp: push_call_def)

lemma fold_merge_fields:
  "pd_id (fold merge_delta ds p) = (case List.map_filter dl_id ds of [] \<Rightarrow> pd_id p | xs \<Rightarrow> Some (last xs))"
  "pd_name (fold merge_delta ds p) = (case List.map_filter dl_name ds of [] \<Rightarrow> pd_name p | xs \<Rightarrow> Some (last xs))"
  "pd_arguments (fold merge_delta ds p) = pd_arguments p @ pieces ds"
  by (induction ds arbitrary: p)
    (auto simp: merge_delta_def pieces_def map_filter_simps split: option.splits list.splits)

text \<open>
  C34: A streamed tool call is determined by the increments of its own index: the calls come
  in the order of their indices, each with the last identifier and the last name its
  increments gave and with its argument pieces joined in order of arrival, however the
  increments of different calls were interleaved.
\<close>

theorem tool_calls_are_assembled_by_index:
  "finalize_calls parse (fold push_call ds []) =
     map (\<lambda>i. \<lparr>tc_id = latest ''unknown'' dl_id (of_index i ds), tc_name = latest ''unknown'' dl_name (of_index i ds),
                tc_arguments = (if pieces (of_index i ds) = [] then JObject [] else robust_parse parse (pieces (of_index i ds)))\<rparr>)
       (sorted_list_of_set (dl_index ` set ds))"
proof -
  have "finish_call parse (the (hm_get (fold push_call ds []) i)) =
      \<lparr>tc_id = latest ''unknown'' dl_id (of_index i ds), tc_name = latest ''unknown'' dl_name (of_index i ds),
       tc_arguments = (if pieces (of_index i ds) = [] then JObject [] else robust_parse parse (pieces (of_index i ds)))\<rparr>"
    if "i \<in> dl_index ` set ds" for i
  proof -
    have "of_index i ds \<noteq> []" using that by (auto simp: of_index_def filter_empty_conv)
    then have "the (hm_get (fold push_call ds []) i) = fold merge_delta (of_index i ds) pending_new"
      by (simp add: push_calls_get)
    then show ?thesis
      by (simp add: finish_call_def fold_merge_fields latest_def pending_new_def split: list.splits)
  qed
  then show ?thesis
    by (simp add: finalize_calls_def sort_key_hm push_calls_ok push_calls_keys)
qed

text \<open>A brace scan only reads as far as what it returns.\<close>

lemma scan_braces_prefix: "scan_braces q e d s = Some r \<Longrightarrow> prefix r s"
  by (induction q e d s arbitrary: r rule: scan_braces.induct) (auto split: if_splits)

lemma scan_braces_append: "scan_braces q e d s = Some r \<Longrightarrow> scan_braces q e d (r @ t) = Some r"
  by (induction q e d s arbitrary: r rule: scan_braces.induct) (auto split: if_splits)

end
