(* ===== verification/Provider_Stream.thy ===== *)
theory Provider_Stream
  imports Sse_Parser Tool_Calls
begin

text \<open>
  The streaming pipeline of a provider (\<open>providers/stream/stream_processor.rs\<close>,
  \<open>providers/stream/mod.rs\<close>): bytes to frames, frames to chunks by the codec, chunks to
  events; and the channel the events go through (\<open>ChannelSink\<close> in \<open>providers/base.rs\<close>).

  A sink is an interface, the locale \<open>event_sink\<close>; what the pipeline promises is proved in it
  and holds for the channel by interpretation.
\<close>

section \<open>Chunks and events\<close>

datatype stream_chunk =
    TextDelta string
  | ThinkingDelta string "string option"
  | CallDelta tool_call_delta
  | UsageChunk token_usage
  | InputTokensChunk "32 word"
  | OutputTokensChunk "32 word"
  | DoneChunk

datatype stream_event =
    StartEvent string
  | TokenEvent string
  | ThinkingEvent string "string option"
  | ErrorEvent llm_error
  | CompleteEvent "tool_call list" "token_usage option"

fun is_critical :: "stream_event \<Rightarrow> bool" where
  "is_critical (StartEvent _) \<longleftrightarrow> True"
| "is_critical (ErrorEvent _) \<longleftrightarrow> True"
| "is_critical (CompleteEvent _ _) \<longleftrightarrow> True"
| "is_critical _ \<longleftrightarrow> False"

record frame_result =
  fr_text :: "string option"
  fr_thinking :: "string option"
  fr_redacted :: "string option"
  fr_calls :: "tool_call_delta list"
  fr_usage :: "usage_delta option"
  fr_done :: bool

definition frame_result_new :: frame_result where
  "frame_result_new =
     \<lparr>fr_text = None, fr_thinking = None, fr_redacted = None, fr_calls = [], fr_usage = None, fr_done = False\<rparr>"

fun add_chunk :: "stream_chunk \<Rightarrow> frame_result \<Rightarrow> frame_result" where
  "add_chunk (TextDelta t) r = r\<lparr>fr_text := Some t\<rparr>"
| "add_chunk (ThinkingDelta t x) r = r\<lparr>fr_thinking := Some t, fr_redacted := x\<rparr>"
| "add_chunk (CallDelta d) r = r\<lparr>fr_calls := fr_calls r @ [d]\<rparr>"
| "add_chunk (UsageChunk u) r = r\<lparr>fr_usage := Some (FullUsage u)\<rparr>"
| "add_chunk (InputTokensChunk n) r = r\<lparr>fr_usage := Some (InputTokens n)\<rparr>"
| "add_chunk (OutputTokensChunk n) r = r\<lparr>fr_usage := Some (OutputTokens n)\<rparr>"
| "add_chunk DoneChunk r = r\<lparr>fr_done := True\<rparr>"

type_synonym decode_sse = "sse_frame \<Rightarrow> llm_error + stream_chunk list"

definition handle_frame :: "decode_sse \<Rightarrow> sse_frame \<Rightarrow> llm_error + frame_result" where
  "handle_frame decode frame =
     (case decode frame of Inl e \<Rightarrow> Inl e | Inr chunks \<Rightarrow> Inr (fold add_chunk chunks frame_result_new))"

section \<open>The pipeline\<close>

text \<open>
  A sink: \<open>emit\<close> tells whether the consumer is still there, \<open>closed\<close> asks. Both may find the
  world of the sink changed.
\<close>

record 'k sink_fns =
  sk_emit :: "stream_event \<Rightarrow> 'k \<Rightarrow> bool \<times> 'k"
  sk_closed :: "'k \<Rightarrow> bool \<times> 'k"

record stream_state =
  ss_calls :: call_accumulator
  ss_usage :: usage_accumulator
  ss_done :: bool

definition stream_new :: stream_state where
  "stream_new = \<lparr>ss_calls = [], ss_usage = usage_new, ss_done = False\<rparr>"

text \<open>An optional event: nothing to send counts as sent.\<close>

definition emit_opt :: "'k sink_fns \<Rightarrow> stream_event option \<Rightarrow> 'k \<Rightarrow> bool \<times> 'k" where
  "emit_opt sink ev k = (case ev of None \<Rightarrow> (True, k) | Some e \<Rightarrow> sk_emit sink e k)"

definition absorb :: "frame_result \<Rightarrow> stream_state \<Rightarrow> stream_state" where
  "absorb fr st =
     \<lparr>ss_calls = fold push_call (fr_calls fr) (ss_calls st),
      ss_usage = (case fr_usage fr of None \<Rightarrow> ss_usage st | Some d \<Rightarrow> push_usage d (ss_usage st)),
      ss_done = (ss_done st \<or> fr_done fr)\<rparr>"

text \<open>The events of a frame.\<close>

definition token_of :: "frame_result \<Rightarrow> stream_event option" where
  "token_of fr = map_option TokenEvent (fr_text fr)"

definition thinking_of :: "frame_result \<Rightarrow> stream_event option" where
  "thinking_of fr = map_option (\<lambda>t. ThinkingEvent t (fr_redacted fr)) (fr_thinking fr)"

text \<open>\<open>Inl\<close> is an early return of the pipeline.\<close>

definition process_frame :: "'k sink_fns \<Rightarrow> decode_sse \<Rightarrow> sse_frame \<Rightarrow> stream_state \<Rightarrow> 'k \<Rightarrow> 'k + stream_state \<times> 'k" where
  "process_frame sink decode frame st k =
     (case handle_frame decode frame of
        Inl e \<Rightarrow> Inl (snd (sk_emit sink (ErrorEvent e) k))
      | Inr fr \<Rightarrow>
          (case emit_opt sink (token_of fr) k of
             (False, k1) \<Rightarrow> Inl k1
           | (True, k1) \<Rightarrow>
               (case emit_opt sink (thinking_of fr) k1 of
                  (False, k2) \<Rightarrow> Inl k2
                | (True, k2) \<Rightarrow> Inr (absorb fr st, k2))))"

fun process_frames :: "'k sink_fns \<Rightarrow> decode_sse \<Rightarrow> sse_frame list \<Rightarrow> stream_state \<Rightarrow> 'k \<Rightarrow> 'k + stream_state \<times> 'k" where
  "process_frames sink decode [] st k = Inr (st, k)"
| "process_frames sink decode (f # fs) st k =
     (case process_frame sink decode f st k of
        Inl k' \<Rightarrow> Inl k'
      | Inr (st', k') \<Rightarrow> process_frames sink decode fs st' k')"

fun process_chunks ::
  "'k sink_fns \<Rightarrow> decode_sse \<Rightarrow> (llm_error + string) list \<Rightarrow> sse_parser \<Rightarrow> stream_state \<Rightarrow> 'k
   \<Rightarrow> 'k + stream_state \<times> 'k" where
  "process_chunks sink decode [] p st k = Inr (st, k)"
| "process_chunks sink decode (c # cs) p st k =
     (case sk_closed sink k of
        (True, k1) \<Rightarrow> Inl k1
      | (False, k1) \<Rightarrow>
          (case c of
             Inl e \<Rightarrow> Inl (snd (sk_emit sink (ErrorEvent e) k1))
           | Inr bytes \<Rightarrow>
               (case feed bytes p of
                  (frames, p') \<Rightarrow>
                    (case process_frames sink decode frames st k1 of
                       Inl k2 \<Rightarrow> Inl k2
                     | Inr (st', k2) \<Rightarrow>
                         if ss_done st' then Inr (st', k2) else process_chunks sink decode cs p' st' k2))))"

definition process_stream ::
  "(string \<Rightarrow> json option) \<Rightarrow> 'k sink_fns \<Rightarrow> decode_sse \<Rightarrow> string \<Rightarrow> (llm_error + string) list \<Rightarrow> 'k \<Rightarrow> 'k" where
  "process_stream parse sink decode model chunks k =
     (case sk_emit sink (StartEvent model) k of
        (False, k1) \<Rightarrow> k1
      | (True, k1) \<Rightarrow>
          (case process_chunks sink decode chunks sse_new stream_new k1 of
             Inl k2 \<Rightarrow> k2
           | Inr (st, k2) \<Rightarrow>
               (case sk_closed sink k2 of
                  (True, k3) \<Rightarrow> k3
                | (False, k3) \<Rightarrow>
                    snd (sk_emit sink (CompleteEvent (finalize_calls parse (ss_calls st)) (finalize_usage (ss_usage st))) k3))))"

section \<open>The channel\<close>

datatype provider_event =
    PStart string
  | PToken string
  | PThinking string "string option"
  | PComplete "tool_call list" "token_usage option"

fun map_stream_event :: "stream_event \<Rightarrow> llm_error + provider_event" where
  "map_stream_event (StartEvent m) = Inr (PStart m)"
| "map_stream_event (TokenEvent t) = Inr (PToken t)"
| "map_stream_event (ThinkingEvent t r) = Inr (PThinking t r)"
| "map_stream_event (ErrorEvent e) = Inl e"
| "map_stream_event (CompleteEvent cs u) = Inr (PComplete cs u)"

text \<open>
  The channel as the sender finds it, one reading for each call: with room, full, or closed
  by the receiver (once closed it stays closed); with no reading left it has room. A blocking
  send waits while the channel is full.
\<close>

datatype channel_status = Room | Full | Closed

record channel =
  ch_sent :: "(llm_error + provider_event) list"
  ch_dropped :: "64 word"
  ch_readings :: "channel_status list"

definition channel_new :: "channel_status list \<Rightarrow> channel" where
  "channel_new rs = \<lparr>ch_sent = [], ch_dropped = 0, ch_readings = rs\<rparr>"

fun next_reading :: "channel \<Rightarrow> channel_status \<times> channel" where
  "next_reading ch =
     (case ch_readings ch of
        [] \<Rightarrow> (Room, ch)
      | Closed # rs \<Rightarrow> (Closed, ch)
      | r # rs \<Rightarrow> (r, ch\<lparr>ch_readings := rs\<rparr>))"

definition channel_emit :: "stream_event \<Rightarrow> channel \<Rightarrow> bool \<times> channel" where
  "channel_emit ev ch =
     (case next_reading ch of (status, ch') \<Rightarrow>
        if status = Closed then (False, ch')
        else if status = Full \<and> \<not> is_critical ev then (True, ch'\<lparr>ch_dropped := ch_dropped ch' + 1\<rparr>)
        else (True, ch'\<lparr>ch_sent := ch_sent ch' @ [map_stream_event ev]\<rparr>))"

definition channel_closed :: "channel \<Rightarrow> bool \<times> channel" where
  "channel_closed ch = (case next_reading ch of (status, ch') \<Rightarrow> (status = Closed, ch'))"

definition channel_sink :: "channel sink_fns" where
  "channel_sink = \<lparr>sk_emit = channel_emit, sk_closed = channel_closed\<rparr>"

section \<open>What the stream means\<close>

text \<open>
  The events of a stream without a sink: what a consumer that is always there and always has
  room would see. \<open>None\<close> is a stream that ended in an error.
\<close>

fun opt_list :: "'a option \<Rightarrow> 'a list" where
  "opt_list None = []"
| "opt_list (Some x) = [x]"

definition frame_events :: "frame_result \<Rightarrow> stream_event list" where
  "frame_events fr = opt_list (token_of fr) @ opt_list (thinking_of fr)"

fun frames_trace :: "decode_sse \<Rightarrow> sse_frame list \<Rightarrow> stream_state \<Rightarrow> stream_event list \<times> stream_state option" where
  "frames_trace decode [] st = ([], Some st)"
| "frames_trace decode (f # fs) st =
     (case handle_frame decode f of
        Inl e \<Rightarrow> ([ErrorEvent e], None)
      | Inr fr \<Rightarrow> (case frames_trace decode fs (absorb fr st) of (es, r) \<Rightarrow> (frame_events fr @ es, r)))"

fun chunks_trace ::
  "decode_sse \<Rightarrow> (llm_error + string) list \<Rightarrow> sse_parser \<Rightarrow> stream_state \<Rightarrow> stream_event list \<times> stream_state option" where
  "chunks_trace decode [] p st = ([], Some st)"
| "chunks_trace decode (Inl e # cs) p st = ([ErrorEvent e], None)"
| "chunks_trace decode (Inr bytes # cs) p st =
     (case feed bytes p of
        (frames, p') \<Rightarrow>
          (case frames_trace decode frames st of
             (es, None) \<Rightarrow> (es, None)
           | (es, Some st') \<Rightarrow>
               if ss_done st' then (es, Some st')
               else (case chunks_trace decode cs p' st' of (es', r) \<Rightarrow> (es @ es', r))))"

definition stream_trace ::
  "(string \<Rightarrow> json option) \<Rightarrow> decode_sse \<Rightarrow> string \<Rightarrow> (llm_error + string) list \<Rightarrow> stream_event list" where
  "stream_trace parse decode model chunks =
     StartEvent model #
     (case chunks_trace decode chunks sse_new stream_new of
        (es, None) \<Rightarrow> es
      | (es, Some st) \<Rightarrow> es @ [CompleteEvent (finalize_calls parse (ss_calls st)) (finalize_usage (ss_usage st))])"

text \<open>A delivery of events: some that are not critical may be missing.\<close>

inductive delivers :: "stream_event list \<Rightarrow> stream_event list \<Rightarrow> bool" where
  nothing: "delivers [] []"
| sent: "delivers es xs \<Longrightarrow> delivers (e # es) (e # xs)"
| dropped: "\<not> is_critical e \<Longrightarrow> delivers es xs \<Longrightarrow> delivers (e # es) xs"

lemma delivers_append: "delivers es xs \<Longrightarrow> delivers es' xs' \<Longrightarrow> delivers (es @ es') (xs @ xs')"
  by (induction rule: delivers.induct) (auto intro: delivers.intros)

lemma delivers_refl: "delivers es es"
  by (induction es) (auto intro: delivers.intros)

lemma delivers_critical: "delivers es xs \<Longrightarrow> filter is_critical xs = filter is_critical es"
  by (induction rule: delivers.induct) auto

section \<open>The contract of a sink\<close>

text \<open>
  \<open>received\<close> is what the consumer gets, as images of events; \<open>present\<close> a sink whose consumer
  stays.
\<close>

locale event_sink =
  fixes sink :: "'k sink_fns"
    and received :: "'k \<Rightarrow> 'r list"
    and image :: "stream_event \<Rightarrow> 'r"
    and present :: "'k \<Rightarrow> bool"
  assumes emit_accepted: "sk_emit sink ev k = (True, k') \<Longrightarrow>
      received k' = received k @ [image ev] \<or> \<not> is_critical ev \<and> received k' = received k"
    and emit_refused: "sk_emit sink ev k = (False, k') \<Longrightarrow> received k' = received k"
    and closed_keeps: "received (snd (sk_closed sink k)) = received k"
    and present_emit: "present k \<Longrightarrow> fst (sk_emit sink ev k) \<and> present (snd (sk_emit sink ev k))"
    and present_closed: "present k \<Longrightarrow> \<not> fst (sk_closed sink k) \<and> present (snd (sk_closed sink k))"
begin

text \<open>From \<open>k\<close> to \<open>k'\<close> the consumer got a delivery of \<open>es\<close>, or of a first part of \<open>es\<close>.\<close>

definition gets :: "'k \<Rightarrow> stream_event list \<Rightarrow> 'k \<Rightarrow> bool" where
  "gets k es k' \<longleftrightarrow> (\<exists>xs. delivers es xs \<and> received k' = received k @ map image xs) \<and> (present k \<longrightarrow> present k')"

definition gets_part :: "'k \<Rightarrow> stream_event list \<Rightarrow> 'k \<Rightarrow> bool" where
  "gets_part k es k' \<longleftrightarrow> (\<exists>es'. prefix es' es \<and> gets k es' k' \<and> (present k \<longrightarrow> es' = es))"

lemma gets_refl: "gets k [] k"
  by (auto simp: gets_def intro: delivers.nothing)

lemma gets_trans: "gets k es k' \<Longrightarrow> gets k' es' k'' \<Longrightarrow> gets k (es @ es') k''"
  unfolding gets_def by (force intro: delivers_append)

lemma gets_is_part: "gets k es k' \<Longrightarrow> gets_part k es k'"
  unfolding gets_part_def by blast

lemma gets_part_after: "gets k es k' \<Longrightarrow> gets_part k' es' k'' \<Longrightarrow> gets_part k (es @ es') k''"
  unfolding gets_part_def by (metis gets_def gets_trans same_prefix_prefix)

lemma gets_part_longer: "gets_part k es k' \<Longrightarrow> \<not> present k \<Longrightarrow> gets_part k (es @ es') k'"
  unfolding gets_part_def by (metis prefix_append)

lemma emit_gets:
  assumes "sk_emit sink ev k = (True, k')"
  shows "gets k [ev] k'"
proof -
  have stays: "present k \<longrightarrow> present k'" using present_emit [of k ev] assms by simp
  from emit_accepted [OF assms] show ?thesis
  proof
    assume "received k' = received k @ [image ev]"
    then show ?thesis using stays unfolding gets_def by (intro conjI exI [of _ "[ev]"]) (auto intro: delivers_refl)
  next
    assume "\<not> is_critical ev \<and> received k' = received k"
    then show ?thesis
      using stays unfolding gets_def by (intro conjI exI [of _ "[]"]) (auto intro: delivers.intros)
  qed
qed

lemma emit_part: "gets_part k [ev] (snd (sk_emit sink ev k))"
proof (cases "sk_emit sink ev k")
  case (Pair ok k')
  show ?thesis
  proof (cases ok)
    case True
    with Pair show ?thesis by (auto intro: gets_is_part emit_gets)
  next
    case False
    with Pair have "received k' = received k" "\<not> present k" using emit_refused present_emit [of k ev] by auto
    then show ?thesis
      using Pair by (auto simp: gets_part_def gets_def intro!: exI [of _ "[]"] delivers.nothing)
  qed
qed

lemma refused_part: "sk_emit sink ev k = (False, k') \<Longrightarrow> gets_part k (ev # es) k'"
  using emit_refused [of ev k k'] present_emit [of k ev]
  by (auto simp: gets_part_def gets_def intro!: exI [of _ "[]"] delivers.nothing)

lemma closed_gets: "sk_closed sink k = (b, k') \<Longrightarrow> gets k [] k' \<and> (present k \<longrightarrow> \<not> b)"
  using closed_keeps [of k] present_closed [of k] by (auto simp: gets_def intro: delivers.nothing)

lemma closed_part: "sk_closed sink k = (True, k') \<Longrightarrow> gets_part k es k'"
  using closed_gets [of k True k'] by (auto simp: gets_part_def intro!: exI [of _ "[]"])

lemma emit_opt_cases:
  obtains (accepted) k' where "emit_opt sink ev k = (True, k')" "gets k (opt_list ev) k'"
  | (refused) e k' where "ev = Some e" "emit_opt sink ev k = (False, k')" "\<And>es. gets_part k (e # es) k'"
proof (cases ev)
  case None
  then show ?thesis by (intro accepted [of k]) (simp_all add: emit_opt_def gets_refl)
next
  case (Some e)
  obtain good k' where e: "sk_emit sink e k = (good, k')" by fastforce
  show ?thesis
  proof (cases good)
    case True
    with Some e show ?thesis by (intro accepted [of k']) (simp_all add: emit_opt_def emit_gets)
  next
    case False
    with Some e show ?thesis by (intro refused [of e k']) (simp_all add: emit_opt_def refused_part)
  qed
qed

lemma process_frame_gets:
  "case process_frame sink decode f st k of
     Inl k' \<Rightarrow> (\<forall>es. gets_part k (fst (frames_trace decode [f] st) @ es) k') \<or>
       gets_part k (fst (frames_trace decode [f] st)) k' \<and> snd (frames_trace decode [f] st) = None
   | Inr (st', k') \<Rightarrow> gets k (fst (frames_trace decode [f] st)) k' \<and> snd (frames_trace decode [f] st) = Some st'"
proof (cases "handle_frame decode f")
  case (Inl e)
  then show ?thesis using emit_part by (simp add: process_frame_def)
next
  case (Inr fr)
  show ?thesis
  proof (cases rule: emit_opt_cases [of "token_of fr" k])
    case (accepted k1)
    note one = accepted
    show ?thesis
    proof (cases rule: emit_opt_cases [of "thinking_of fr" k1])
      case (accepted k2)
      with one Inr show ?thesis by (auto simp: process_frame_def frame_events_def intro: gets_trans)
    next
      case (refused e k2)
      then have "gets_part k (frame_events fr @ es) k2" for es
        using gets_part_after [OF one(2) refused(3) [of es]] by (simp add: frame_events_def)
      with one refused(2) Inr show ?thesis by (simp add: process_frame_def)
    qed
  next
    case (refused e k1)
    then have "gets_part k (frame_events fr @ es) k1" for es
      using refused(3) [of "opt_list (thinking_of fr) @ es"] by (simp add: frame_events_def)
    with refused(2) Inr show ?thesis by (simp add: process_frame_def)
  qed
qed

lemma process_frames_gets:
  "case process_frames sink decode fs st k of
     Inl k' \<Rightarrow> (\<forall>es. gets_part k (fst (frames_trace decode fs st) @ es) k') \<or>
       gets_part k (fst (frames_trace decode fs st)) k' \<and> snd (frames_trace decode fs st) = None
   | Inr (st', k') \<Rightarrow> gets k (fst (frames_trace decode fs st)) k' \<and> snd (frames_trace decode fs st) = Some st'"
proof (induction fs arbitrary: st k)
  case (Cons f fs)
  note one = process_frame_gets [where decode = decode and f = f and st = st and k = k]
  have trace: "frames_trace decode (f # fs) st =
      (case snd (frames_trace decode [f] st) of
         None \<Rightarrow> frames_trace decode [f] st
       | Some st' \<Rightarrow> (fst (frames_trace decode [f] st) @ fst (frames_trace decode fs st'), snd (frames_trace decode fs st')))"
    by (simp split: sum.splits prod.splits)
  show ?case
  proof (cases "process_frame sink decode f st k")
    case (Inl k')
    with one show ?thesis by (auto simp del: frames_trace.simps simp: trace split: option.splits)
  next
    case (Inr stk)
    obtain st' k' where stk: "stk = (st', k')" by fastforce
    with one Inr have g: "gets k (fst (frames_trace decode [f] st)) k'" "snd (frames_trace decode [f] st) = Some st'"
      by (auto simp del: frames_trace.simps)
    show ?thesis
      using Cons.IH [where st = st' and k = k'] Inr stk g
      by (auto simp del: frames_trace.simps simp: trace split: sum.splits intro: gets_trans gets_part_after)
  qed
qed (simp add: gets_refl)

lemma process_chunks_gets:
  "case process_chunks sink decode cs p st k of
     Inl k' \<Rightarrow> (\<forall>es. gets_part k (fst (chunks_trace decode cs p st) @ es) k') \<or>
       gets_part k (fst (chunks_trace decode cs p st)) k' \<and> snd (chunks_trace decode cs p st) = None
   | Inr (st', k') \<Rightarrow> gets k (fst (chunks_trace decode cs p st)) k' \<and> snd (chunks_trace decode cs p st) = Some st'"
proof (induction cs arbitrary: p st k)
  case (Cons c cs)
  obtain gone k1 where closed: "sk_closed sink k = (gone, k1)" by fastforce
  note k1 = closed_gets [OF closed]
  show ?case
  proof (cases gone)
    case True
    with closed closed_part [of k k1] show ?thesis by simp
  next
    case False
    show ?thesis
    proof (cases c)
      case (Inl e)
      have "gets_part k [ErrorEvent e] (snd (sk_emit sink (ErrorEvent e) k1))"
        using gets_part_after [OF k1 [THEN conjunct1] emit_part] by simp
      with closed False Inl show ?thesis by simp
    next
      case (Inr bytes)
      obtain frames p' where feed: "feed bytes p = (frames, p')" by fastforce
      obtain es r where tr: "frames_trace decode frames st = (es, r)" by fastforce
      note fs = process_frames_gets [where decode = decode and fs = frames and st = st and k = k1, unfolded tr]
      show ?thesis
      proof (cases "process_frames sink decode frames st k1")
        case (Inl k2)
        have "(\<forall>es'. gets_part k (es @ es') k2) \<or> gets_part k es k2 \<and> r = None"
          using fs gets_part_after [OF k1 [THEN conjunct1]] by (auto simp: Inl)
        with Inl closed False Inr feed tr show ?thesis
          by (auto split: option.splits prod.splits)
      next
        case stk: (Inr stk)
        obtain st' k2 where stk': "stk = (st', k2)" by fastforce
        have g: "gets k es k2" "r = Some st'"
          using fs gets_trans [OF k1 [THEN conjunct1]] by (auto simp: stk stk')
        show ?thesis
        proof (cases "ss_done st'")
          case True
          with g stk stk' closed False Inr feed tr show ?thesis by simp
        next
          case more: False
          show ?thesis
            using Cons.IH [where p = p' and st = st' and k = k2] g more stk stk' closed False Inr feed tr
            by (auto split: sum.splits prod.splits intro: gets_trans gets_part_after)
        qed
      qed
    qed
  qed
qed (simp add: gets_refl)

lemma process_stream_gets:
  "gets_part k (stream_trace parse decode model chunks) (process_stream parse sink decode model chunks k)"
proof -
  obtain good k1 where start: "sk_emit sink (StartEvent model) k = (good, k1)" by fastforce
  show ?thesis
  proof (cases good)
    case False
    with start refused_part [of "StartEvent model" k k1] show ?thesis
      by (simp add: process_stream_def stream_trace_def)
  next
    case True
    with start have s: "gets k [StartEvent model] k1" by (simp add: emit_gets)
    obtain es r where tr: "chunks_trace decode chunks sse_new stream_new = (es, r)" by fastforce
    note cs = process_chunks_gets [where decode = decode and cs = chunks and p = sse_new and st = stream_new
        and k = k1, unfolded tr]
    show ?thesis
    proof (cases "process_chunks sink decode chunks sse_new stream_new k1")
      case (Inl k2)
      have "(\<forall>es'. gets_part k (StartEvent model # es @ es') k2) \<or> gets_part k (StartEvent model # es) k2 \<and> r = None"
        using cs gets_part_after [OF s] by (auto simp: Inl)
      then show ?thesis
        using start True Inl tr
        by (auto simp: process_stream_def stream_trace_def split: option.splits dest: spec [of _ "[]"])
    next
      case (Inr stk)
      obtain st k2 where stk: "stk = (st, k2)" by fastforce
      let ?fin = "CompleteEvent (finalize_calls parse (ss_calls st)) (finalize_usage (ss_usage st))"
      have g: "gets k (StartEvent model # es) k2" "r = Some st"
        using cs gets_trans [OF s] by (auto simp: Inr stk)
      obtain gone k3 where closed: "sk_closed sink k2 = (gone, k3)" by fastforce
      have "gets_part k2 [?fin] (if gone then k3 else snd (sk_emit sink ?fin k3))"
        using closed_part [of k2 k3] gets_part_after [OF closed_gets [OF closed, THEN conjunct1] emit_part] closed
        by simp
      from gets_part_after [OF g(1) this] show ?thesis
        using start True Inr stk g(2) closed tr by (cases gone) (simp_all add: process_stream_def stream_trace_def)
    qed
  qed
qed

end

section \<open>The channel keeps the contract\<close>

definition receiver_stays :: "channel \<Rightarrow> bool" where
  "receiver_stays ch \<longleftrightarrow> Closed \<notin> set (ch_readings ch)"

interpretation provider_channel: event_sink channel_sink ch_sent map_stream_event receiver_stays
proof
  fix ev k k'
  show "sk_emit channel_sink ev k = (True, k') \<Longrightarrow>
      ch_sent k' = ch_sent k @ [map_stream_event ev] \<or> \<not> is_critical ev \<and> ch_sent k' = ch_sent k"
    by (auto simp: channel_sink_def channel_emit_def split: list.splits channel_status.splits if_splits)
  show "sk_emit channel_sink ev k = (False, k') \<Longrightarrow> ch_sent k' = ch_sent k"
    by (auto simp: channel_sink_def channel_emit_def split: list.splits channel_status.splits if_splits)
  show "ch_sent (snd (sk_closed channel_sink k)) = ch_sent k"
    by (auto simp: channel_sink_def channel_closed_def split: list.splits channel_status.splits)
  show "receiver_stays k \<Longrightarrow> fst (sk_emit channel_sink ev k) \<and> receiver_stays (snd (sk_emit channel_sink ev k))"
    by (auto simp: channel_sink_def channel_emit_def receiver_stays_def split: list.splits channel_status.splits if_splits)
  show "receiver_stays k \<Longrightarrow> \<not> fst (sk_closed channel_sink k) \<and> receiver_stays (snd (sk_closed channel_sink k))"
    by (auto simp: channel_sink_def channel_closed_def receiver_stays_def split: list.splits channel_status.splits)
qed

lemma channel_gets:
  "\<exists>es xs. prefix es (stream_trace parse decode model chunks) \<and> delivers es xs
     \<and> ch_sent (process_stream parse channel_sink decode model chunks (channel_new readings)) = map map_stream_event xs
     \<and> (Closed \<in> set readings \<or> es = stream_trace parse decode model chunks)"
  using provider_channel.process_stream_gets [of "channel_new readings" parse decode model chunks]
  by (auto simp: provider_channel.gets_part_def provider_channel.gets_def channel_new_def receiver_stays_def)

text \<open>
  C31: What a consumer of a stream gets is the stream, cut short only by its own leaving and
  thinned only by increments the full channel had no room for: start, error and completion
  are never dropped. A consumer that stays gets all of them.
\<close>

theorem consumer_gets_the_stream:
  "\<exists>es xs. prefix es (stream_trace parse decode model chunks) \<and> delivers es xs
     \<and> ch_sent (process_stream parse channel_sink decode model chunks (channel_new readings)) = map map_stream_event xs
     \<and> (Closed \<in> set readings \<or> es = stream_trace parse decode model chunks)"
  by (rule channel_gets)

lemma set_opt_list [simp]: "set (opt_list x) = set_option x"
  by (cases x) simp_all

lemma frame_events_not_critical: "list_all (\<lambda>e. \<not> is_critical e) (frame_events fr)"
  by (auto simp: frame_events_def token_of_def thinking_of_def list_all_iff)

lemma frames_trace_shape:
  "case frames_trace decode fs st of
     (es, Some st') \<Rightarrow> list_all (\<lambda>e. \<not> is_critical e) es
   | (es, None) \<Rightarrow> \<exists>ds e. es = ds @ [ErrorEvent e] \<and> list_all (\<lambda>e. \<not> is_critical e) ds"
proof (induction fs arbitrary: st)
  case (Cons f fs)
  show ?case
  proof (cases "handle_frame decode f")
    case (Inr fr)
    obtain es r where tr: "frames_trace decode fs (absorb fr st) = (es, r)" by fastforce
    show ?thesis
    proof (cases r)
      case None
      with Cons.IH [of "absorb fr st"] tr obtain ds e where "es = ds @ [ErrorEvent e]" "list_all (\<lambda>e. \<not> is_critical e) ds"
        by auto
      with Inr tr None frame_events_not_critical show ?thesis
        by (auto intro!: exI [of _ "frame_events fr @ ds"])
    next
      case (Some st')
      with Cons.IH [of "absorb fr st"] tr Inr frame_events_not_critical show ?thesis by auto
    qed
  qed simp
qed simp

lemma chunks_trace_shape:
  "case chunks_trace decode cs p st of
     (es, Some st') \<Rightarrow> list_all (\<lambda>e. \<not> is_critical e) es
   | (es, None) \<Rightarrow> \<exists>ds e. es = ds @ [ErrorEvent e] \<and> list_all (\<lambda>e. \<not> is_critical e) ds"
proof (induction decode cs p st rule: chunks_trace.induct)
  case (3 decode bytes cs p st)
  obtain frames p' where feed: "feed bytes p = (frames, p')" by fastforce
  obtain es r where tr: "frames_trace decode frames st = (es, r)" by fastforce
  have shape: "case r of Some st' \<Rightarrow> list_all (\<lambda>e. \<not> is_critical e) es
      | None \<Rightarrow> \<exists>ds e. es = ds @ [ErrorEvent e] \<and> list_all (\<lambda>e. \<not> is_critical e) ds"
    using frames_trace_shape [of decode frames st] tr by (simp split: option.splits)
  show ?case
  proof (cases r)
    case None
    with feed tr shape show ?thesis by simp
  next
    case (Some st')
    show ?thesis
    proof (cases "ss_done st'")
      case True
      with Some feed tr shape show ?thesis by simp
    next
      case False
      obtain es' r' where tr': "chunks_trace decode cs p' st' = (es', r')" by fastforce
      have "case r' of Some _ \<Rightarrow> list_all (\<lambda>e. \<not> is_critical e) es'
          | None \<Rightarrow> \<exists>ds e. es' = ds @ [ErrorEvent e] \<and> list_all (\<lambda>e. \<not> is_critical e) ds"
        using 3 feed tr Some False tr' by (fastforce split: option.splits)
      then consider (failed) ds e where "r' = None" "es' = ds @ [ErrorEvent e]" "list_all (\<lambda>e. \<not> is_critical e) ds"
        | (ended) st'' where "r' = Some st''" "list_all (\<lambda>e. \<not> is_critical e) es'"
        by (cases r') auto
      then show ?thesis
      proof cases
        case failed
        with shape Some False feed tr tr' show ?thesis by (auto intro!: exI [of _ "es @ ds"])
      next
        case ended
        with shape Some False feed tr tr' show ?thesis by simp
      qed
    qed
  qed
qed auto

fun is_ending :: "stream_event \<Rightarrow> bool" where
  "is_ending (ErrorEvent _) \<longleftrightarrow> True"
| "is_ending (CompleteEvent _ _) \<longleftrightarrow> True"
| "is_ending _ \<longleftrightarrow> False"

lemma stream_trace_shape:
  "\<exists>ds e. stream_trace parse decode model chunks = StartEvent model # ds @ [e]
     \<and> list_all (\<lambda>e. \<not> is_critical e) ds \<and> is_ending e"
  using chunks_trace_shape [of decode chunks sse_new stream_new]
  by (fastforce simp: stream_trace_def split: prod.splits option.splits)

lemma delivers_split: "delivers (es @ es') xs \<Longrightarrow> \<exists>ys ys'. xs = ys @ ys' \<and> delivers es ys \<and> delivers es' ys'"
proof (induction es arbitrary: xs)
  case (Cons e es)
  from Cons.prems have "delivers (e # (es @ es')) xs" by simp
  then show ?case
  proof cases
    case (sent xs')
    with Cons.IH show ?thesis by (metis append_Cons delivers.sent)
  next
    case dropped
    with Cons.IH show ?thesis by (metis delivers.dropped)
  qed
qed (auto intro: delivers.nothing)

lemma delivers_set: "delivers es xs \<Longrightarrow> set xs \<subseteq> set es"
  by (induction rule: delivers.induct) auto

lemma delivers_critical_one: "delivers [e] xs \<Longrightarrow> is_critical e \<Longrightarrow> xs = [e]"
  by (erule delivers.cases) (auto elim: delivers.cases)

text \<open>What arrives: an increment, or the end, an error or the complete response.\<close>

fun is_increment :: "llm_error + provider_event \<Rightarrow> bool" where
  "is_increment (Inr (PToken _)) \<longleftrightarrow> True"
| "is_increment (Inr (PThinking _ _)) \<longleftrightarrow> True"
| "is_increment _ \<longleftrightarrow> False"

fun ends_stream :: "llm_error + provider_event \<Rightarrow> bool" where
  "ends_stream (Inl _) \<longleftrightarrow> True"
| "ends_stream (Inr (PComplete _ _)) \<longleftrightarrow> True"
| "ends_stream _ \<longleftrightarrow> False"

lemma not_critical_increment: "\<not> is_critical e \<Longrightarrow> is_increment (map_stream_event e)"
  by (cases e) simp_all

lemma delivered_increments:
  assumes "delivers ds xs" "list_all (\<lambda>e. \<not> is_critical e) ds"
  shows "list_all is_increment (map map_stream_event xs)"
  using delivers_set [OF assms(1)] assms(2) not_critical_increment by (auto simp: list_all_iff)

text \<open>
  C32: What the channel of a stream carries starts with the model and ends once: after the start come
  increments only, and then one error or one completion, with nothing after it. Only a
  consumer that leaves can be without the end, or without the start as well.
\<close>

theorem streams_end_once:
  "let got = ch_sent (process_stream parse channel_sink decode model chunks (channel_new readings)) in
     (\<exists>ds e. got = Inr (PStart model) # ds @ [e] \<and> list_all is_increment ds \<and> ends_stream e)
     \<or> Closed \<in> set readings
        \<and> (got = [] \<or> (\<exists>ds. got = Inr (PStart model) # ds \<and> list_all is_increment ds))"
proof -
  define got where "got = ch_sent (process_stream parse channel_sink decode model chunks (channel_new readings))"
  obtain es xs where es: "prefix es (stream_trace parse decode model chunks)" "delivers es xs"
      "got = map map_stream_event xs" "Closed \<in> set readings \<or> es = stream_trace parse decode model chunks"
    using channel_gets unfolding got_def by blast
  obtain ds e where tr: "stream_trace parse decode model chunks = StartEvent model # ds @ [e]"
      "list_all (\<lambda>e. \<not> is_critical e) ds" "is_ending e"
    using stream_trace_shape by blast
  have crit: "is_critical e" and ends: "ends_stream (map_stream_event e)" using tr(3) by (cases e; simp)+
  have started: "\<exists>zs. ys = StartEvent model # zs \<and> delivers es' zs" if "delivers (StartEvent model # es') ys" for es' ys
    using that by cases auto
  consider (whole) "es = StartEvent model # ds @ [e]" | (none) "es = []"
    | (part) es' where "es = StartEvent model # es'" "prefix es' ds"
    using es(1) unfolding tr(1) by (auto simp: prefix_Cons prefix_snoc)
  then have "(\<exists>ds e. got = Inr (PStart model) # ds @ [e] \<and> list_all is_increment ds \<and> ends_stream e)
     \<or> Closed \<in> set readings \<and> (got = [] \<or> (\<exists>ds. got = Inr (PStart model) # ds \<and> list_all is_increment ds))"
  proof cases
    case whole
    with es(2) started obtain zs where zs: "xs = StartEvent model # zs" "delivers (ds @ [e]) zs" by blast
    from delivers_split [OF zs(2)] obtain ys ys' where ys: "zs = ys @ ys'" "delivers ds ys" "delivers [e] ys'" by blast
    then have "got = Inr (PStart model) # map map_stream_event ys @ [map_stream_event e]"
      using delivers_critical_one [OF ys(3) crit] es(3) zs(1) by simp
    with delivered_increments [OF ys(2) tr(2)] ends show ?thesis by blast
  next
    case none
    with es(2) have "xs = []" by (auto elim: delivers.cases)
    moreover have "es \<noteq> stream_trace parse decode model chunks" using none tr(1) by simp
    ultimately show ?thesis using es(3,4) by simp
  next
    case part
    with es(2) started obtain zs where zs: "xs = StartEvent model # zs" "delivers es' zs" by blast
    have "list_all (\<lambda>e. \<not> is_critical e) es'" using part(2) tr(2) by (auto simp: list_all_iff prefix_def)
    from delivered_increments [OF zs(2) this] zs(1) es(3) have "\<exists>ds. got = Inr (PStart model) # ds \<and> list_all is_increment ds" by simp
    moreover have "es \<noteq> stream_trace parse decode model chunks"
      using part tr(1) prefix_length_le [OF part(2)] by auto
    ultimately show ?thesis using es(4) by blast
  qed
  then show ?thesis by (simp only: got_def Let_def)
qed

end
