(* ===== verification/Codec_Core.thy ===== *)
theory Codec_Core
  imports Provider_Stream "HOL-Library.Sublist"
begin

text \<open>
  What the provider codecs share (\<open>providers/codec.rs\<close>): the encoded request, the capability
  matrix and the check of a request against it, the three traits as a record of functions, and
  the accessors of JSON values the codecs are written with.

  \<open>serde_json\<close> is two arguments, the printer \<open>print\<close> and the parser \<open>parse\<close> whose failure is
  the text of its error. A JSON object is its list of members; the code never depends on their order.
\<close>

section \<open>Reading JSON values\<close>

definition member_of :: "json option \<Rightarrow> string \<Rightarrow> json option" where
  "member_of v k = Option.bind v (\<lambda>v. json_get v k)"

definition str_of :: "json option \<Rightarrow> string option" where
  "str_of v = Option.bind v json_as_str"

definition array_of :: "json option \<Rightarrow> json list option" where
  "array_of v = Option.bind v json_as_array"

definition text_or :: "string \<Rightarrow> string option \<Rightarrow> string" where
  "text_or d s = (case s of None \<Rightarrow> d | Some t \<Rightarrow> t)"

definition nonempty :: "string option \<Rightarrow> string option" where
  "nonempty s = (case s of Some (c # cs) \<Rightarrow> Some (c # cs) | _ \<Rightarrow> None)"

text \<open>A count: an unsigned integer, \<open>0\<close> when there is none, cut to 32 bits by the cast.\<close>

definition count_of :: "json option \<Rightarrow> 32 word" where
  "count_of v = (case Option.bind v json_as_u64 of None \<Rightarrow> 0 | Some n \<Rightarrow> of_nat n)"

definition index_of :: "json option \<Rightarrow> nat" where
  "index_of v = (case Option.bind v json_as_u64 of None \<Rightarrow> 0 | Some n \<Rightarrow> n)"

lemmas json_read = member_of_def str_of_def array_of_def text_or_def nonempty_def

unbundle bit_operations_syntax

section \<open>Writing JSON values\<close>

type_synonym members = "(string, json) hashmap"

definition word_json :: "'w::len word \<Rightarrow> json" where
  "word_json w = JInt (uint w)"

text \<open>\<open>Value::from(f64)\<close>: an infinite or undefined float has no JSON number and becomes null.\<close>

definition float_json :: "64 word \<Rightarrow> json" where
  "float_json w = (if w AND 0x7FF0000000000000 = 0x7FF0000000000000 then JNull else JFloat w)"

definition put_opt :: "string \<Rightarrow> ('a \<Rightarrow> json) \<Rightarrow> 'a option \<Rightarrow> members \<Rightarrow> members" where
  "put_opt k f x m = (case x of None \<Rightarrow> m | Some y \<Rightarrow> hm_insert k (f y) m)"

text \<open>The members of \<open>extra\<close> come last and may replace what is there.\<close>

definition put_all :: "members \<Rightarrow> members \<Rightarrow> members" where
  "put_all kvs m = foldl (\<lambda>m (k, v). hm_insert k v m) m kvs"

definition put_extra :: "members option \<Rightarrow> members \<Rightarrow> members" where
  "put_extra extra m = (case extra of None \<Rightarrow> m | Some kvs \<Rightarrow> put_all kvs m)"

definition strings_json :: "string list \<Rightarrow> json" where
  "strings_json ss = JArray (map JString ss)"

text \<open>\<open>collect::<Result<Vec<_>, _>>\<close>: the first error, or all results.\<close>

fun traverse :: "('a \<Rightarrow> 'e + 'b) \<Rightarrow> 'a list \<Rightarrow> 'e + 'b list" where
  "traverse f [] = Inr []"
| "traverse f (x # xs) =
     (case f x of Inl e \<Rightarrow> Inl e
      | Inr y \<Rightarrow> (case traverse f xs of Inl e \<Rightarrow> Inl e | Inr ys \<Rightarrow> Inr (y # ys)))"

section \<open>Requests and capabilities\<close>

text \<open>Text that is read: empty text makes no block.\<close>

definition read_text :: "string \<Rightarrow> content_block list" where
  "read_text t = (if t = [] then [] else [block_text t])"

definition call_delta :: "nat \<Rightarrow> string option \<Rightarrow> string option \<Rightarrow> string option \<Rightarrow> stream_chunk" where
  "call_delta i ident name args = CallDelta \<lparr>dl_index = i, dl_id = ident, dl_name = name, dl_arguments = args\<rparr>"


record codec_request =
  cq_path :: string
  cq_headers :: "(string, string) hashmap"
  cq_body :: string

record capabilities =
  cap_image_input :: bool
  cap_reasoning :: bool
  cap_tool_call :: bool
  cap_prefill :: bool
  cap_stream_thinking :: bool

definition no_capabilities :: capabilities where
  "no_capabilities = \<lparr>cap_image_input = False, cap_reasoning = False, cap_tool_call = False, cap_prefill = False,
     cap_stream_thinking = False\<rparr>"

definition with_reasoning :: "capabilities \<Rightarrow> capabilities" where
  "with_reasoning c = c\<lparr>cap_reasoning := True, cap_stream_thinking := True\<rparr>"

fun is_image :: "content_block \<Rightarrow> bool" where
  "is_image (ImageBlock _) \<longleftrightarrow> True"
| "is_image _ \<longleftrightarrow> False"

definition validate_capabilities :: "chat_request \<Rightarrow> capabilities \<Rightarrow> llm_error option" where
  "validate_capabilities req caps =
     (if \<not> cap_image_input caps \<and> list_ex (\<lambda>m. list_ex is_image (message_content m)) (cr_messages req)
      then Some (UnsupportedFeature ''image input'')
      else if \<not> cap_reasoning caps \<and> cr_reasoning req \<notin> {None, Some Disabled}
      then Some (UnsupportedFeature ''reasoning'')
      else if cr_tools req \<noteq> None \<and> \<not> cap_tool_call caps
      then Some (UnsupportedFeature ''tool call'')
      else None)"

datatype auth_style = Bearer | CustomHeader string | NoAuth

text \<open>The traits a codec implements.\<close>

record codec =
  cd_encode :: "chat_request \<Rightarrow> bool \<Rightarrow> llm_error + codec_request"
  cd_decode :: "string \<Rightarrow> llm_error + chat_response"
  cd_decode_sse :: "sse_frame \<Rightarrow> llm_error + stream_chunk list"
  cd_capabilities :: "string \<Rightarrow> capabilities"
  cd_provider_id :: string
  cd_default_base_url :: string
  cd_auth_style :: auth_style

section \<open>Model names\<close>

text \<open>
  \<open>str::to_lowercase\<close> as far as a search for ASCII text can tell: the ASCII letters, the
  Kelvin sign, whose lower case is \<open>k\<close>, and the dotted capital I, whose lower case begins with
  \<open>i\<close>. What other characters become holds no ASCII byte.
\<close>

definition kelvin_sign :: string where "kelvin_sign = [CHR 0xE2, CHR 0x84, CHR 0xAA]"
definition dotted_I :: string where "dotted_I = [CHR 0xC4, CHR 0xB0]"

definition lower_char :: "char \<Rightarrow> char" where
  "lower_char c = (let n = of_char c :: nat in if 65 \<le> n \<and> n \<le> 90 then char_of (n + 32) else c)"

fun lower_text :: "string \<Rightarrow> string" where
  "lower_text [] = []"
| "lower_text (c # s) =
     (if prefix kelvin_sign (c # s) then CHR ''k'' # lower_text (drop 2 s)
      else if prefix dotted_I (c # s) then CHR ''i'' # CHR 0xCC # CHR 0x87 # lower_text (drop 1 s)
      else lower_char c # lower_text s)"

definition contains_text :: "string \<Rightarrow> string \<Rightarrow> bool" where
  "contains_text p s \<longleftrightarrow> list_ex (prefix p) (suffixes s)"

section \<open>Facts\<close>

lemma traverse_Inr: "traverse f xs = Inr ys \<longleftrightarrow> list_all2 (\<lambda>x y. f x = Inr y) xs ys"
proof (induction xs arbitrary: ys)
  case (Cons x xs)
  then show ?case
    by (cases ys; cases "f x"; cases "traverse f xs") (auto simp: Cons.IH [symmetric])
qed auto

lemma hm_get_put_opt [simp]:
  "hm_get (put_opt k f x m) k' = (if k' = k \<and> x \<noteq> None then map_option f x else hm_get m k')"
  by (auto simp: put_opt_def split: option.splits)

lemma hm_ok_put_opt [simp]: "hm_ok m \<Longrightarrow> hm_ok (put_opt k f x m)"
  by (auto simp: put_opt_def split: option.splits)

text \<open>What the last member of \<open>extra\<close> with a name says is what the request says.\<close>

lemma put_all_get: "hm_get (put_all kvs m) k = (case hm_get (rev kvs) k of None \<Rightarrow> hm_get m k | Some v \<Rightarrow> Some v)"
  unfolding put_all_def
proof (induction kvs rule: rev_induct)
  case (snoc kv kvs)
  then show ?case by (cases kv) auto
qed simp

lemma put_extra_get:
  "hm_get (put_extra extra m) k =
     (case Option.bind extra (\<lambda>kvs. hm_get (rev kvs) k) of None \<Rightarrow> hm_get m k | Some v \<Rightarrow> Some v)"
  by (auto simp: put_extra_def put_all_get split: option.splits)

lemma contains_text_iff: "contains_text p s \<longleftrightarrow> sublist p s"
  by (auto simp: contains_text_def list_ex_iff sublist_altdef')

section \<open>Streams end with their Done chunk\<close>

lemma fold_add_chunk_done [simp]: "fr_done (fold add_chunk cs r) \<longleftrightarrow> fr_done r \<or> DoneChunk \<in> set cs"
proof (induction cs arbitrary: r)
  case (Cons c cs)
  then show ?case by (cases c) auto
qed simp

lemma frame_result_new_done [simp]: "\<not> fr_done frame_result_new"
  by (simp add: frame_result_new_def)

lemma absorb_done [simp]: "ss_done (absorb fr st) \<longleftrightarrow> ss_done st \<or> fr_done fr"
  by (simp add: absorb_def)

lemma frames_trace_done:
  "frames_trace decode fs st = (es, Some st') \<Longrightarrow>
   ss_done st \<or> (\<exists>f \<in> set fs. \<exists>chunks. decode f = Inr chunks \<and> DoneChunk \<in> set chunks) \<Longrightarrow> ss_done st'"
proof (induction fs arbitrary: st es)
  case (Cons f fs)
  then obtain chunks es' where "decode f = Inr chunks"
    and "frames_trace decode fs (absorb (fold add_chunk chunks frame_result_new) st) = (es', Some st')"
    by (auto simp: handle_frame_def split: sum.splits prod.splits)
  with Cons.IH [of "absorb (fold add_chunk chunks frame_result_new) st" es'] Cons.prems(2) show ?case
    by auto
qed auto

lemma chunks_trace_after:
  "(\<And>st. chunks_trace decode cs (snd (feed_all bs p)) st = chunks_trace decode cs' (snd (feed_all bs p)) st)
   \<Longrightarrow> chunks_trace decode (map Inr bs @ cs) p st = chunks_trace decode (map Inr bs @ cs') p st"
proof (induction bs arbitrary: p st)
  case (Cons b bs)
  obtain fs p' where f: "feed b p = (fs, p')" by fastforce
  obtain fs' p'' where g: "feed_all bs p' = (fs', p'')" by fastforce
  have "\<And>st. chunks_trace decode (map Inr bs @ cs) p' st = chunks_trace decode (map Inr bs @ cs') p' st"
    by (rule Cons.IH) (use Cons.prems in \<open>simp add: f g\<close>)
  then show ?case by (simp add: f split: prod.splits option.splits)
qed simp

lemma stream_trace_stops:
  assumes "frame \<in> set (fst (feed bytes (snd (feed_all before sse_new))))"
    and "decode frame = Inr chunks" and "DoneChunk \<in> set chunks"
  shows "stream_trace parse decode model (map Inr before @ Inr bytes # after)
       = stream_trace parse decode model (map Inr before @ Inr bytes # after')"
proof -
  let ?fed = "feed bytes (snd (feed_all before sse_new))"
  have ends: "ss_done st'" if "frames_trace decode (fst ?fed) st = (es, Some st')" for st es st'
    using frames_trace_done [OF that] assms by blast
  have "chunks_trace decode (Inr bytes # after) (snd (feed_all before sse_new)) st
      = chunks_trace decode (Inr bytes # after') (snd (feed_all before sse_new)) st" for st
    using ends by (cases ?fed) (auto split: prod.splits option.splits)
  then have "chunks_trace decode (map Inr before @ Inr bytes # after) sse_new stream_new
      = chunks_trace decode (map Inr before @ Inr bytes # after') sse_new stream_new"
    by (rule chunks_trace_after)
  then show ?thesis by (simp only: stream_trace_def)
qed

end
