(* ===== verification/Anthropic_Codec.thy ===== *)
theory Anthropic_Codec
  imports Codec_Core
begin

text \<open>
  The codec of the Anthropic protocol (\<open>providers/anthropic.rs\<close>): a request as the body of
  \<open>/v1/messages\<close>, a response body and a frame of the event stream as the values they carry.
  Content that was written for a request is read back from a response as it was.
\<close>

section \<open>Requests\<close>

definition ephemeral :: json where
  "ephemeral = JObject [(''type'', JString ''ephemeral'')]"

definition cache_member :: "cache_control option \<Rightarrow> members" where
  "cache_member c = (if c = Some Breakpoint then [(''cache_control'', ephemeral)] else [])"

fun anthropic_block :: "content_block \<Rightarrow> llm_error + json" where
  "anthropic_block (TextBlock b) =
     Inr (JObject ([(''type'', JString ''text''), (''text'', JString (tb_text b))] @ cache_member (tb_cache b)))"
| "anthropic_block (ThinkingBlock b) =
     Inr (JObject ([(''type'', JString ''thinking''), (''thinking'', JString (th_thinking b))]
       @ (case th_redacted b of None \<Rightarrow> [] | Some r \<Rightarrow> [(''redacted_thinking'', JString r)])))"
| "anthropic_block (ToolCallBlock c) =
     Inr (JObject [(''type'', JString ''tool_use''), (''id'', JString (tc_id c)), (''name'', JString (tc_name c)),
       (''input'', tc_arguments c)])"
| "anthropic_block (ImageBlock _) = Inl (UnsupportedFeature ''Image in content blocks (Anthropic adapter)'')"

definition serialize_anthropic_content_blocks :: "content_block list \<Rightarrow> llm_error + json" where
  "serialize_anthropic_content_blocks bs = map_sum id JArray (traverse anthropic_block bs)"

definition role_message :: "string \<Rightarrow> json \<Rightarrow> json" where
  "role_message role content = JObject [(''role'', JString role), (''content'', content)]"

definition tool_result_block :: "string \<Rightarrow> bool \<Rightarrow> json \<Rightarrow> json" where
  "tool_result_block call failed content =
     JObject [(''type'', JString ''tool_result''), (''tool_use_id'', JString call), (''is_error'', JBool failed),
       (''content'', content)]"

text \<open>The walk over the messages: the blocks of the system field, and the list of messages.\<close>

fun anthropic_messages ::
  "message list \<Rightarrow> content_block list \<times> json list \<Rightarrow> llm_error + content_block list \<times> json list" where
  "anthropic_messages [] (sys, out) = Inr (sys, out)"
| "anthropic_messages (SystemMessage c # ms) (sys, out) = anthropic_messages ms (c, out)"
| "anthropic_messages (UserMessage c # ms) (sys, out) =
     (case serialize_anthropic_content_blocks c of
        Inl e \<Rightarrow> Inl e | Inr v \<Rightarrow> anthropic_messages ms (sys, out @ [role_message ''user'' v]))"
| "anthropic_messages (AssistantMessage c # ms) (sys, out) =
     (case serialize_anthropic_content_blocks c of
        Inl e \<Rightarrow> Inl e | Inr v \<Rightarrow> anthropic_messages ms (sys, out @ [role_message ''assistant'' v]))"
| "anthropic_messages (ToolResultMessage call failed c # ms) (sys, out) =
     (case serialize_anthropic_content_blocks c of
        Inl e \<Rightarrow> Inl e
      | Inr v \<Rightarrow> anthropic_messages ms
          (sys, out @ [role_message ''user'' (JArray [tool_result_block call failed v])]))"

fun has_cache_mark :: "content_block \<Rightarrow> bool" where
  "has_cache_mark (TextBlock b) \<longleftrightarrow> tb_cache b \<noteq> None"
| "has_cache_mark _ \<longleftrightarrow> False"

definition anthropic_system :: "content_block list \<Rightarrow> llm_error + json option" where
  "anthropic_system sys =
     (if sys = [] then Inr None
      else if list_ex has_cache_mark sys then map_sum id Some (serialize_anthropic_content_blocks sys)
      else Inr (Some (JString (concat (block_texts sys)))))"

fun thinking_budget :: "reasoning_config \<Rightarrow> nat" where
  "thinking_budget Disabled = 0"
| "thinking_budget Low = 2048"
| "thinking_budget Medium = 8192"
| "thinking_budget High = 32768"

definition anthropic_thinking :: "chat_request \<Rightarrow> json option" where
  "anthropic_thinking req =
     (case cr_reasoning req of
        None \<Rightarrow> None
      | Some Disabled \<Rightarrow> None
      | Some level \<Rightarrow> Some (JObject [(''type'', JString ''enabled''),
          (''budget_tokens'', case cr_max_reasoning_tokens req of
             None \<Rightarrow> JInt (int (thinking_budget level)) | Some n \<Rightarrow> word_json n)]))"

fun serialize_anthropic_tool_choice :: "tool_choice \<Rightarrow> json" where
  "serialize_anthropic_tool_choice (ChooseTool n) = JObject [(''type'', JString ''tool''), (''name'', JString n)]"
| "serialize_anthropic_tool_choice ChooseAny = JString ''any''"

definition anthropic_tool :: "tool_definition \<Rightarrow> json" where
  "anthropic_tool t =
     JObject ([(''name'', JString (td_name t)), (''description'', JString (td_description t)),
       (''input_schema'', td_parameters t)] @ cache_member (td_cache t))"

definition anthropic_body :: "chat_request \<Rightarrow> bool \<Rightarrow> json option \<Rightarrow> json list \<Rightarrow> 32 word \<Rightarrow> members" where
  "anthropic_body req stream sys msgs max_tokens =
     (let b = put_opt ''system'' id sys [(''model'', JString (cr_model req))];
          b = hm_insert ''messages'' (JArray msgs) b;
          b = hm_insert ''max_tokens'' (word_json max_tokens) b;
          b = put_opt ''thinking'' id (anthropic_thinking req) b;
          b = (if stream then hm_insert ''stream'' (JBool True) b else b);
          b = put_opt ''temperature'' float_json (cr_temperature req) b;
          b = put_opt ''top_p'' float_json (cr_top_p req) b;
          b = put_opt ''tool_choice'' serialize_anthropic_tool_choice (cr_tool_choice req) b;
          b = put_opt ''stop_sequences'' strings_json (cr_stop_sequences req) b;
          b = put_opt ''tools'' (\<lambda>ts. JArray (map anthropic_tool ts)) (cr_tools req) b
      in put_extra (cr_extra req) b)"

definition anthropic_encode :: "(json \<Rightarrow> string) \<Rightarrow> chat_request \<Rightarrow> bool \<Rightarrow> llm_error + codec_request" where
  "anthropic_encode print req stream =
     (case anthropic_messages (cr_messages req) ([], []) of
        Inl e \<Rightarrow> Inl e
      | Inr (sys, msgs) \<Rightarrow>
          (case anthropic_system sys of
             Inl e \<Rightarrow> Inl e
           | Inr system \<Rightarrow>
               (case cr_max_tokens req of
                  None \<Rightarrow> Inl (InvalidRequest ''Anthropic requires max_tokens'')
                | Some n \<Rightarrow> Inr
                    \<lparr>cq_path = ''/v1/messages'',
                     cq_headers = [(''anthropic-version'', ''2023-06-01'')],
                     cq_body = print (JObject (anthropic_body req stream system msgs n))\<rparr>)))"

section \<open>Responses\<close>

text \<open>Empty thinking is dropped, as empty text is.\<close>

definition read_thinking :: "string \<Rightarrow> string option \<Rightarrow> content_block list" where
  "read_thinking t r = (if t \<noteq> [] \<or> r \<noteq> None then [ThinkingBlock \<lparr>th_thinking = t, th_redacted = r\<rparr>] else [])"

definition read_anthropic_block :: "json \<Rightarrow> content_block list" where
  "read_anthropic_block v =
     (let type = text_or [] (str_of (json_get v ''type'')) in
      if type = ''text'' then read_text (text_or [] (str_of (json_get v ''text'')))
      else if type = ''tool_use'' then
        [ToolCallBlock \<lparr>tc_id = text_or [] (str_of (json_get v ''id'')),
           tc_name = text_or [] (str_of (json_get v ''name'')),
           tc_arguments = (case json_get v ''input'' of None \<Rightarrow> JObject [] | Some a \<Rightarrow> a)\<rparr>]
      else if type = ''thinking'' then
        read_thinking (text_or [] (str_of (json_get v ''thinking''))) (str_of (json_get v ''redacted_thinking''))
      else [])"

definition anthropic_usage :: "json \<Rightarrow> token_usage" where
  "anthropic_usage raw =
     (let u = json_get raw ''usage''; p = count_of (member_of u ''input_tokens''); c = count_of (member_of u ''output_tokens'')
      in \<lparr>tu_prompt = p, tu_completion = c, tu_total = p + c\<rparr>)"

definition anthropic_decode :: "(string \<Rightarrow> string + json) \<Rightarrow> string \<Rightarrow> llm_error + chat_response" where
  "anthropic_decode parse body =
     (case parse body of
        Inl e \<Rightarrow> Inl (ParseFailed (''Invalid JSON: '' @ e))
      | Inr raw \<Rightarrow>
          (case array_of (json_get raw ''content'') of
             None \<Rightarrow> Inl (ParseFailed ''Missing content array'')
           | Some bs \<Rightarrow> Inr \<lparr>rp_content = concat (map read_anthropic_block bs), rp_usage = anthropic_usage raw,
               rp_raw = raw\<rparr>))"

section \<open>Streams\<close>

definition anthropic_start_chunks :: "json \<Rightarrow> stream_chunk list" where
  "anthropic_start_chunks v =
     (let n = count_of (member_of (json_get v ''usage'') ''input_tokens'')
      in if n > 0 then [InputTokensChunk n] else [])"

definition anthropic_block_start_chunks :: "json \<Rightarrow> stream_chunk list" where
  "anthropic_block_start_chunks v =
     (let b = json_get v ''content_block'' in
      if text_or [] (str_of (member_of b ''type'')) = ''tool_use''
      then [call_delta (index_of (json_get v ''index'')) (str_of (member_of b ''id'')) (str_of (member_of b ''name'')) None]
      else [])"

definition anthropic_delta_chunks :: "json \<Rightarrow> stream_chunk list" where
  "anthropic_delta_chunks v =
     (let d = json_get v ''delta''; type = text_or [] (str_of (member_of d ''type'')) in
      if type = ''text_delta'' then
        (case nonempty (str_of (member_of d ''text'')) of None \<Rightarrow> [] | Some t \<Rightarrow> [TextDelta t])
      else if type = ''input_json_delta'' then
        (case str_of (member_of d ''partial_json'') of
           None \<Rightarrow> []
         | Some a \<Rightarrow> [call_delta (index_of (json_get v ''index'')) None None (Some a)])
      else if type = ''thinking_delta'' then
        (case (str_of (member_of d ''thinking''), str_of (member_of d ''redacted_thinking'')) of
           (Some t, r) \<Rightarrow> [ThinkingDelta t r]
         | (None, Some r) \<Rightarrow> [ThinkingDelta [] (Some r)]
         | (None, None) \<Rightarrow> [])
      else [])"

definition anthropic_message_delta_chunks :: "json \<Rightarrow> stream_chunk list" where
  "anthropic_message_delta_chunks v =
     (let n = count_of (member_of (json_get v ''usage'') ''output_tokens'')
      in (if n > 0 then [OutputTokensChunk n] else []) @ [DoneChunk])"

definition anthropic_chunks :: "json \<Rightarrow> stream_chunk list" where
  "anthropic_chunks v =
     (let type = text_or [] (str_of (json_get v ''type'')) in
      if type = ''message_start'' then anthropic_start_chunks v
      else if type = ''content_block_start'' then anthropic_block_start_chunks v
      else if type = ''content_block_delta'' then anthropic_delta_chunks v
      else if type = ''message_delta'' then anthropic_message_delta_chunks v
      else [])"

definition anthropic_decode_sse :: "(string \<Rightarrow> string + json) \<Rightarrow> decode_sse" where
  "anthropic_decode_sse parse frame =
     (if sf_data frame = [] then Inr []
      else case parse (sf_data frame) of
        Inl e \<Rightarrow> Inl (ParseFailed (''Invalid SSE JSON: '' @ e))
      | Inr v \<Rightarrow> Inr (anthropic_chunks v))"

section \<open>The codec\<close>

definition anthropic_capabilities :: "string \<Rightarrow> capabilities" where
  "anthropic_capabilities model =
     (let lower = lower_text model;
          caps = (if contains_text ''sonnet'' lower \<or> contains_text ''opus'' lower
                    \<or> (contains_text ''claude-4'' lower \<and> contains_text ''sonnet'' lower)
                  then with_reasoning no_capabilities else no_capabilities)
      in if contains_text ''claude-3'' lower \<or> contains_text ''claude-4'' lower
         then caps\<lparr>cap_tool_call := True\<rparr> else caps)"

definition anthropic_codec :: "(json \<Rightarrow> string) \<Rightarrow> (string \<Rightarrow> string + json) \<Rightarrow> codec" where
  "anthropic_codec print parse =
     \<lparr>cd_encode = anthropic_encode print,
      cd_decode = anthropic_decode parse,
      cd_decode_sse = anthropic_decode_sse parse,
      cd_capabilities = anthropic_capabilities,
      cd_provider_id = ''anthropic'',
      cd_default_base_url = ''https://api.anthropic.com'',
      cd_auth_style = CustomHeader ''x-api-key''\<rparr>"

section \<open>Facts\<close>

text \<open>
  What a reader must find of a block that was written: the block itself, a text without its cache
  mark. Only a text of no characters and a thinking block with neither thinking nor redacted
  thinking say nothing; images are never written.
\<close>

fun says_nothing :: "content_block \<Rightarrow> bool" where
  "says_nothing (TextBlock b) \<longleftrightarrow> tb_text b = []"
| "says_nothing (ThinkingBlock b) \<longleftrightarrow> th_thinking b = [] \<and> th_redacted b = None"
| "says_nothing (ToolCallBlock _) \<longleftrightarrow> False"
| "says_nothing (ImageBlock _) \<longleftrightarrow> True"

fun read_back :: "content_block \<Rightarrow> content_block" where
  "read_back (TextBlock b) = TextBlock (b\<lparr>tb_cache := None\<rparr>)"
| "read_back b = b"

definition content_back :: "content_block list \<Rightarrow> content_block list" where
  "content_back bs = map read_back (filter (\<lambda>b. \<not> says_nothing b) bs)"

lemma read_anthropic_block_written: "anthropic_block b = Inr v \<Longrightarrow> read_anthropic_block v = content_back [b]"
proof (cases b)
  case (ThinkingBlock t)
  then show "anthropic_block b = Inr v \<Longrightarrow> read_anthropic_block v = content_back [b]"
    by (cases "th_redacted t") (auto simp: read_anthropic_block_def str_of_def text_or_def read_thinking_def content_back_def)
qed (auto simp: read_anthropic_block_def str_of_def text_or_def read_text_def block_text_def content_back_def)

lemma read_anthropic_blocks_written:
  "traverse anthropic_block bs = Inr vs \<Longrightarrow> concat (map read_anthropic_block vs) = content_back bs"
proof (induction bs arbitrary: vs)
  case (Cons b bs)
  then show ?case
    by (auto simp: read_anthropic_block_written split: sum.splits) (simp add: content_back_def)
qed (simp add: content_back_def)

lemma calls_of_content_back: "List.map_filter block_tool_call (content_back bs) = List.map_filter block_tool_call bs"
proof (induction bs)
  case (Cons b bs)
  then show ?case by (cases b) (auto simp: map_filter_def content_back_def)
qed (simp add: content_back_def)

lemma traverse_Inl_image:
  "(\<exists>e. traverse anthropic_block bs = Inl e) \<longleftrightarrow> list_ex is_image bs"
proof (induction bs)
  case (Cons b bs)
  then show ?case by (cases b) (auto split: sum.splits)
qed simp

text \<open>
  C35: The content of a message that is written for a request, when the provider gives it back in
  a response, is read as it was: the blocks in order, without cache marks and without the texts of
  no characters and the thinking blocks that hold nothing, and every tool call with its identifier,
  name and arguments.
\<close>

theorem anthropic_content_roundtrip:
  assumes "serialize_anthropic_content_blocks bs = Inr v"
    and "parse body = Inr (JObject kvs)" and "hm_get kvs ''content'' = Some v"
  shows "\<exists>r. anthropic_decode parse body = Inr r \<and> rp_content r = content_back bs
    \<and> response_tool_calls r = extract_tool_calls (AssistantMessage bs)"
proof -
  obtain vs where vs: "traverse anthropic_block bs = Inr vs" "v = JArray vs"
    using assms(1) by (auto simp: serialize_anthropic_content_blocks_def map_sum_def split: sum.splits)
  show ?thesis
    using assms(2,3) read_anthropic_blocks_written [OF vs(1)]
    by (simp add: anthropic_decode_def array_of_def vs(2) response_tool_calls_def calls_of_content_back)
qed

definition call_members :: members where
  "call_members = [(''content'', JArray [JObject [(''type'', JString ''tool_use''),
     (''id'', JString ''1''), (''name'', JString ''f''), (''input'', JNull)]])]"

theorem anthropic_content_roundtrip_witness:
  "\<exists>r. anthropic_decode (\<lambda>_. Inr (JObject call_members)) ''body'' = Inr r
     \<and> rp_content r = [ToolCallBlock \<lparr>tc_id = ''1'', tc_name = ''f'', tc_arguments = JNull\<rparr>]"
proof -
  let ?bs = "[ToolCallBlock \<lparr>tc_id = ''1'', tc_name = ''f'', tc_arguments = JNull\<rparr>]"
  have "serialize_anthropic_content_blocks ?bs = Inr (the (hm_get call_members ''content''))"
    by (simp add: serialize_anthropic_content_blocks_def call_members_def)
  then have "\<exists>r. anthropic_decode (\<lambda>_. Inr (JObject call_members)) ''body'' = Inr r \<and> rp_content r = content_back ?bs
      \<and> response_tool_calls r = extract_tool_calls (AssistantMessage ?bs)"
    by (rule anthropic_content_roundtrip [OF _ refl]) (simp add: call_members_def)
  then show ?thesis by (auto simp: content_back_def)
qed

text \<open>
  The name of a model decides whether it takes tools; the names of newer models do not begin
  with the version.
\<close>

lemma newer_models_are_refused_tools:
  "cr_tools req \<noteq> None \<Longrightarrow> cr_model req = ''claude-sonnet-4-5'' \<Longrightarrow>
   validate_capabilities req (anthropic_capabilities (cr_model req)) \<noteq> None"
proof -
  assume tools: "cr_tools req \<noteq> None" and model: "cr_model req = ''claude-sonnet-4-5''"
  have l: "lower_text ''claude-sonnet-4-5'' = ''claude-sonnet-4-5''"
    by (simp add: lower_char_def kelvin_sign_def dotted_I_def)
  have n: "\<not> contains_text ''claude-3'' ''claude-sonnet-4-5''" "\<not> contains_text ''claude-4'' ''claude-sonnet-4-5''"
    by code_simp+
  have "\<not> cap_tool_call (anthropic_capabilities ''claude-sonnet-4-5'')"
    unfolding anthropic_capabilities_def l Let_def by (simp only: n if_False simp_thms) (simp add: no_capabilities_def with_reasoning_def)
  then show ?thesis using tools model by (simp add: validate_capabilities_def)
qed

end
