(* ===== verification/Openai_Codec.thy ===== *)
theory Openai_Codec
  imports Codec_Core
begin

text \<open>
  The codec of the OpenAI protocol and its dialects (\<open>providers/openai_compat.rs\<close>): a request
  as the body of \<open>/v1/chat/completions\<close>, a response body and a frame of the stream as the
  values they carry. No tool call of an assistant message is lost on the way out and back; of
  a stream nothing is read after the chunk of bytes that holds the finish reason.
\<close>

section \<open>Messages\<close>

definition openai_call :: "(json \<Rightarrow> string) \<Rightarrow> tool_call \<Rightarrow> json" where
  "openai_call print c =
     JObject [(''id'', JString (tc_id c)), (''type'', JString ''function''),
       (''function'', JObject [(''name'', JString (tc_name c)), (''arguments'', JString (print (tc_arguments c)))])]"

definition serialize_openai_content_blocks :: "content_block list \<Rightarrow> llm_error + json" where
  "serialize_openai_content_blocks bs =
     (if list_ex is_image bs then Inl (UnsupportedFeature ''Image in user messages (OpenAI adapter)'')
      else Inr (JString (flatten_text bs)))"

definition openai_assistant :: "(json \<Rightarrow> string) \<Rightarrow> content_block list \<Rightarrow> json" where
  "openai_assistant print c =
     (let text = concat (block_texts c); calls = List.map_filter block_tool_call c
      in JObject ([(''role'', JString ''assistant'')]
        @ (if text = [] then [] else [(''content'', JString text)])
        @ (if calls = [] then [] else [(''tool_calls'', JArray (map (openai_call print) calls))])))"

fun serialize_openai_message :: "(json \<Rightarrow> string) \<Rightarrow> message \<Rightarrow> llm_error + json" where
  "serialize_openai_message print (SystemMessage c) =
     Inr (JObject [(''role'', JString ''system''), (''content'', JString (flatten_text c))])"
| "serialize_openai_message print (UserMessage c) =
     (case serialize_openai_content_blocks c of
        Inl e \<Rightarrow> Inl e | Inr v \<Rightarrow> Inr (JObject [(''role'', JString ''user''), (''content'', v)]))"
| "serialize_openai_message print (AssistantMessage c) = Inr (openai_assistant print c)"
| "serialize_openai_message print (ToolResultMessage call failed c) =
     Inr (JObject [(''role'', JString ''tool''), (''tool_call_id'', JString call),
       (''content'', JString (join_with [CHR 0x0A] (block_texts c)))])"

section \<open>Requests\<close>

definition serialize_openai_tool :: "tool_definition \<Rightarrow> json" where
  "serialize_openai_tool t =
     JObject [(''type'', JString ''function''),
       (''function'', JObject [(''name'', JString (td_name t)), (''description'', JString (td_description t)),
          (''parameters'', td_parameters t)])]"

fun serialize_openai_tool_choice :: "tool_choice \<Rightarrow> json" where
  "serialize_openai_tool_choice (ChooseTool n) =
     JObject [(''type'', JString ''function''), (''function'', JObject [(''name'', JString n)])]"
| "serialize_openai_tool_choice ChooseAny = JString ''required''"

text \<open>The effort of a level; the callers never ask for \<open>Disabled\<close>, where the code panics.\<close>

fun openai_reasoning_effort :: "reasoning_config \<Rightarrow> string option" where
  "openai_reasoning_effort Low = Some ''low''"
| "openai_reasoning_effort Medium = Some ''medium''"
| "openai_reasoning_effort High = Some ''high''"
| "openai_reasoning_effort Disabled = None"

definition effort_fields :: "reasoning_config \<Rightarrow> members" where
  "effort_fields level =
     (case openai_reasoning_effort level of None \<Rightarrow> [] | Some e \<Rightarrow> [(''reasoning_effort'', JString e)])"

definition serialize_reasoning_fields :: "string \<Rightarrow> reasoning_config \<Rightarrow> members" where
  "serialize_reasoning_fields provider level =
     (if provider = ''deepseek'' then
        (if level = Disabled then [(''enable_thinking'', JBool False)] else effort_fields level)
      else if provider = ''mimo'' then
        (if level = Disabled then [] else [(''thinking'', JObject [(''type'', JString ''enabled'')])])
      else if provider = ''llama'' then
        (if level = Disabled then [(''reasoning'', JString ''off'')] else [])
      else if level = Disabled then [] else effort_fields level)"

definition serialize_max_reasoning_tokens :: "string \<Rightarrow> 32 word \<Rightarrow> members" where
  "serialize_max_reasoning_tokens provider n =
     (if provider = ''deepseek'' then [(''max_thinking_tokens'', word_json n)] else [])"

definition openai_body :: "string \<Rightarrow> chat_request \<Rightarrow> bool \<Rightarrow> json list \<Rightarrow> members" where
  "openai_body provider req stream msgs =
     (let b = [(''model'', JString (cr_model req)), (''messages'', JArray msgs)];
          b = (if stream
               then hm_insert ''stream_options'' (JObject [(''include_usage'', JBool True)]) (hm_insert ''stream'' (JBool True) b)
               else b);
          b = put_opt ''temperature'' float_json (cr_temperature req) b;
          b = put_opt ''max_tokens'' word_json (cr_max_tokens req) b;
          b = put_opt ''top_p'' float_json (cr_top_p req) b;
          b = put_opt ''seed'' word_json (cr_seed req) b;
          b = put_opt ''tool_choice'' serialize_openai_tool_choice (cr_tool_choice req) b;
          b = put_opt ''stop'' strings_json (cr_stop_sequences req) b;
          b = put_extra (map_option (serialize_reasoning_fields provider) (cr_reasoning req)) b;
          b = put_extra (map_option (serialize_max_reasoning_tokens provider) (cr_max_reasoning_tokens req)) b;
          b = put_opt ''tools'' (\<lambda>ts. JArray (map serialize_openai_tool ts)) (cr_tools req) b
      in put_extra (cr_extra req) b)"

definition openai_encode :: "(json \<Rightarrow> string) \<Rightarrow> string \<Rightarrow> chat_request \<Rightarrow> bool \<Rightarrow> llm_error + codec_request" where
  "openai_encode print provider req stream =
     (case traverse (serialize_openai_message print) (cr_messages req) of
        Inl e \<Rightarrow> Inl e
      | Inr msgs \<Rightarrow> Inr
          \<lparr>cq_path = ''/v1/chat/completions'',
           cq_headers = [(''content-type'', ''application/json'')],
           cq_body = print (JObject (openai_body provider req stream msgs))\<rparr>)"

section \<open>Responses\<close>

text \<open>Arguments that do not parse are kept as the text they are.\<close>

definition read_openai_call :: "(string \<Rightarrow> string + json) \<Rightarrow> json \<Rightarrow> tool_call" where
  "read_openai_call parse v =
     (let f = json_get v ''function''; args = text_or ''{}'' (str_of (member_of f ''arguments''))
      in \<lparr>tc_id = text_or [] (str_of (json_get v ''id'')),
          tc_name = text_or [] (str_of (member_of f ''name'')),
          tc_arguments = (case parse args of Inl _ \<Rightarrow> JString args | Inr a \<Rightarrow> a)\<rparr>)"

definition openai_content :: "(string \<Rightarrow> string + json) \<Rightarrow> json \<Rightarrow> content_block list" where
  "openai_content parse message =
     (case nonempty (str_of (json_get message ''content'')) of None \<Rightarrow> [] | Some t \<Rightarrow> [block_text t])
     @ (case nonempty (str_of (json_get message ''reasoning_content'')) of
          None \<Rightarrow> [] | Some t \<Rightarrow> [ThinkingBlock \<lparr>th_thinking = t, th_redacted = None\<rparr>])
     @ (case array_of (json_get message ''tool_calls'') of
          None \<Rightarrow> [] | Some cs \<Rightarrow> map (\<lambda>c. ToolCallBlock (read_openai_call parse c)) cs)"

definition openai_usage :: "json option \<Rightarrow> token_usage" where
  "openai_usage u =
     \<lparr>tu_prompt = count_of (member_of u ''prompt_tokens''), tu_completion = count_of (member_of u ''completion_tokens''),
      tu_total = count_of (member_of u ''total_tokens'')\<rparr>"

definition openai_decode :: "(string \<Rightarrow> string + json) \<Rightarrow> string \<Rightarrow> llm_error + chat_response" where
  "openai_decode parse body =
     (case parse body of
        Inl e \<Rightarrow> Inl (ParseFailed (''Invalid JSON: '' @ e))
      | Inr raw \<Rightarrow>
          (case array_of (json_get raw ''choices'') of
             None \<Rightarrow> Inl (ParseFailed ''Missing choices array'')
           | Some [] \<Rightarrow> Inl (ParseFailed ''Empty choices array'')
           | Some (first # _) \<Rightarrow>
               (case json_get first ''message'' of
                  None \<Rightarrow> Inl (ParseFailed ''Missing message in choice'')
                | Some message \<Rightarrow> Inr
                    \<lparr>rp_content = openai_content parse message, rp_usage = openai_usage (json_get raw ''usage''),
                     rp_raw = raw\<rparr>)))"

section \<open>Streams\<close>

definition openai_call_chunk :: "json \<Rightarrow> stream_chunk" where
  "openai_call_chunk v =
     (let f = json_get v ''function''
      in call_delta (index_of (json_get v ''index'')) (str_of (json_get v ''id'')) (str_of (member_of f ''name''))
           (str_of (member_of f ''arguments'')))"

definition openai_delta_chunks :: "json \<Rightarrow> stream_chunk list" where
  "openai_delta_chunks d =
     (case nonempty (str_of (json_get d ''content'')) of None \<Rightarrow> [] | Some t \<Rightarrow> [TextDelta t])
     @ (case nonempty (str_of (json_get d ''reasoning_content'')) of None \<Rightarrow> [] | Some t \<Rightarrow> [ThinkingDelta t None])
     @ (case array_of (json_get d ''tool_calls'') of None \<Rightarrow> [] | Some cs \<Rightarrow> map openai_call_chunk cs)"

definition openai_choice_chunks :: "json \<Rightarrow> stream_chunk list" where
  "openai_choice_chunks choice =
     (case json_get choice ''delta'' of None \<Rightarrow> [] | Some d \<Rightarrow> openai_delta_chunks d)
     @ (if str_of (json_get choice ''finish_reason'') = None then [] else [DoneChunk])"

definition openai_chunks :: "json \<Rightarrow> stream_chunk list" where
  "openai_chunks v =
     (case array_of (json_get v ''choices'') of None \<Rightarrow> [] | Some cs \<Rightarrow> concat (map openai_choice_chunks cs))
     @ (case json_get v ''usage'' of None \<Rightarrow> [] | Some u \<Rightarrow> [UsageChunk (openai_usage (Some u))])"

definition openai_decode_sse :: "(string \<Rightarrow> string + json) \<Rightarrow> decode_sse" where
  "openai_decode_sse parse frame =
     (if sf_data frame = [] then Inr []
      else if sf_data frame = ''[DONE]'' then Inr [DoneChunk]
      else case parse (sf_data frame) of
        Inl e \<Rightarrow> Inl (ParseFailed (''Invalid SSE JSON: '' @ e))
      | Inr v \<Rightarrow> Inr (openai_chunks v))"

section \<open>The codec\<close>

text \<open>The dialects.\<close>

definition openai_base_urls :: "(string \<times> string) list" where
  "openai_base_urls =
     [(''openai'', ''https://api.openai.com/v1''), (''deepseek'', ''https://api.deepseek.com/v1''),
      (''nvidia'', ''https://integrate.api.nvidia.com/v1''), (''vllm'', ''http://localhost:8000/v1''),
      (''llama'', ''http://localhost:8080/v1''), (''sglang'', ''http://localhost:30000/v1''),
      (''ollama'', ''http://localhost:11434/v1''), (''mimo'', ''https://api.xiaomimimo.com/v1''),
      (''zhipu'', ''https://open.bigmodel.cn/api/paas/v4''),
      (''dashscope'', ''https://dashscope.aliyuncs.com/compatible-mode/v1'')]"

definition openai_default_base_url :: "string \<Rightarrow> string" where
  "openai_default_base_url provider = text_or ''http://localhost'' (map_of openai_base_urls provider)"

definition openai_reasons :: "string \<Rightarrow> string \<Rightarrow> bool" where
  "openai_reasons provider lower \<longleftrightarrow>
     contains_text ''o1-'' lower \<or> contains_text ''o3-'' lower \<or> contains_text ''-r1'' lower \<or> lower = ''o1'' \<or> lower = ''o3''
   \<or> provider = ''deepseek'' \<and> contains_text ''r1'' lower
   \<or> provider = ''mimo'' \<and> (contains_text ''mimo-v2'' lower \<or> contains_text ''mimo-v3'' lower)
   \<or> provider = ''zhipu'' \<and> (contains_text ''glm-5'' lower \<or> contains_text ''glm-4.6'' lower)
   \<or> provider = ''dashscope'' \<and> (contains_text ''qwen-max'' lower \<or> contains_text ''qwen-plus'' lower \<or> contains_text ''qwq'' lower)"

definition openai_capabilities :: "string \<Rightarrow> string \<Rightarrow> capabilities" where
  "openai_capabilities provider model =
     (if openai_reasons provider (lower_text model) then with_reasoning no_capabilities else no_capabilities)
       \<lparr>cap_tool_call := True\<rparr>"

definition openai_codec :: "(json \<Rightarrow> string) \<Rightarrow> (string \<Rightarrow> string + json) \<Rightarrow> string \<Rightarrow> codec" where
  "openai_codec print parse provider =
     \<lparr>cd_encode = openai_encode print provider,
      cd_decode = openai_decode parse,
      cd_decode_sse = openai_decode_sse parse,
      cd_capabilities = openai_capabilities provider,
      cd_provider_id = provider,
      cd_default_base_url = openai_default_base_url provider,
      cd_auth_style = Bearer\<rparr>"

section \<open>Facts\<close>

lemma read_openai_call_written:
  "parse (print (tc_arguments c)) = Inr (tc_arguments c) \<Longrightarrow> read_openai_call parse (openai_call print c) = c"
  by (simp add: read_openai_call_def openai_call_def json_read)

lemma nonempty_text: "nonempty (Some t) = (if t = [] then None else Some t)"
  by (cases t) (simp_all add: nonempty_def)

lemma openai_content_written:
  assumes "list_all (\<lambda>c. parse (print (tc_arguments c)) = Inr (tc_arguments c)) (extract_tool_calls (AssistantMessage bs))"
  shows "openai_content parse (openai_assistant print bs) =
    read_text (concat (block_texts bs)) @ map ToolCallBlock (extract_tool_calls (AssistantMessage bs))"
proof -
  have *: "map (\<lambda>c. ToolCallBlock (read_openai_call parse (openai_call print c))) (extract_tool_calls (AssistantMessage bs))
      = map ToolCallBlock (extract_tool_calls (AssistantMessage bs))"
    using assms by (auto simp: list_all_iff read_openai_call_written)
  obtain t where t: "concat (block_texts bs) = t" by simp
  have n: "nonempty None = None" by (simp add: nonempty_def)
  show ?thesis
    using * by (simp add: openai_content_def openai_assistant_def Let_def str_of_def array_of_def nonempty_text n
        read_text_def o_def t del: concat_eq_Nil_conv)
qed

lemma calls_of_text [simp]: "List.map_filter block_tool_call (read_text t @ bs) = List.map_filter block_tool_call bs"
  by (simp add: read_text_def block_text_def map_filter_simps)

lemma texts_of_text [simp]: "concat (block_texts (read_text t)) = t"
  by (simp add: read_text_def block_text_def)

lemma calls_of_map [simp]: "List.map_filter block_tool_call (map ToolCallBlock cs) = cs"
  by (induction cs) (simp_all add: map_filter_simps)

lemma texts_of_calls [simp]: "block_texts (map ToolCallBlock cs) = []"
  by (induction cs) simp_all

text \<open>
  C32: An assistant message written for a request, when the provider gives it back in a response,
  has all its tool calls with identifier, name and arguments, in order, and the same text; only
  its thinking is gone. The arguments travel as text, so this asks of \<open>serde_json\<close> that it
  parses what it printed for them.
\<close>

theorem openai_calls_roundtrip:
  assumes "list_all (\<lambda>c. parse (print (tc_arguments c)) = Inr (tc_arguments c)) (extract_tool_calls (AssistantMessage bs))"
    and "parse body = Inr (JObject kvs)" and "hm_get kvs ''choices'' = Some (JArray (JObject choice # others))"
    and "hm_get choice ''message'' = Some (openai_assistant print bs)"
  shows "\<exists>r. openai_decode parse body = Inr r \<and> response_tool_calls r = extract_tool_calls (AssistantMessage bs)
    \<and> concat (block_texts (rp_content r)) = concat (block_texts bs)"
proof -
  have c: "openai_content parse (openai_assistant print bs)
      = read_text (concat (block_texts bs)) @ map ToolCallBlock (extract_tool_calls (AssistantMessage bs))"
    by (rule openai_content_written [OF assms(1)])
  show ?thesis
    using assms(2-) by (simp add: openai_decode_def array_of_def c response_tool_calls_def del: concat_eq_Nil_conv)
qed

text \<open>What ends a stream: a finish reason, in any choice of a frame.\<close>

lemma finish_reason_is_done:
  "choice \<in> set cs \<Longrightarrow> array_of (json_get v ''choices'') = Some cs \<Longrightarrow> str_of (json_get choice ''finish_reason'') \<noteq> None
   \<Longrightarrow> DoneChunk \<in> set (openai_chunks v)"
  by (force simp: openai_chunks_def openai_choice_chunks_def)

text \<open>
  The chunk of bytes that brings the finish reason is the last that is read: the stream's
  events are the same whatever the provider sends after it. The request of the codec asks for
  the token usage, which the protocol sends after the finish reason.
\<close>

theorem nothing_is_read_after_the_finish_reason:
  assumes "frame \<in> set (fst (feed bytes (snd (feed_all before sse_new))))"
    and "sf_data frame \<noteq> []" and "parse (sf_data frame) = Inr v"
    and "array_of (json_get v ''choices'') = Some cs" and "choice \<in> set cs"
    and "str_of (json_get choice ''finish_reason'') \<noteq> None"
  shows "stream_trace args_parse (openai_decode_sse parse) model (map Inr before @ Inr bytes # after)
       = stream_trace args_parse (openai_decode_sse parse) model (map Inr before @ Inr bytes # after')"
proof -
  have "\<exists>chunks. openai_decode_sse parse frame = Inr chunks \<and> DoneChunk \<in> set chunks"
    using assms(2,3) finish_reason_is_done [OF assms(5,4,6)] by (simp add: openai_decode_sse_def)
  then show ?thesis
    using stream_trace_stops [OF assms(1)] by metis
qed

text \<open>
  Asked for the usage, the protocol sends \<open>usage: null\<close> in every frame but the last; the codec
  reads a null as a usage of zero.
\<close>

lemma null_usage_counts_as_zero:
  "json_get v ''usage'' = Some JNull \<Longrightarrow> UsageChunk \<lparr>tu_prompt = 0, tu_completion = 0, tu_total = 0\<rparr> \<in> set (openai_chunks v)"
  by (simp add: openai_chunks_def openai_usage_def count_of_def member_of_def)

definition finish_frame :: json where
  "finish_frame = JObject [(''choices'', JArray [JObject [(''finish_reason'', JString ''stop'')]])]"

theorem nothing_is_read_after_the_finish_reason_witness:
  "stream_trace (\<lambda>_. None) (openai_decode_sse (\<lambda>_. Inr finish_frame)) ''m'' [Inr (''data: {}'' @ [CHR 0x0A, CHR 0x0A]), Inr ''data: usage'']
 = stream_trace (\<lambda>_. None) (openai_decode_sse (\<lambda>_. Inr finish_frame)) ''m'' [Inr (''data: {}'' @ [CHR 0x0A, CHR 0x0A])]"
proof -
  have f: "\<lparr>sf_event = None, sf_data = ''{}''\<rparr> \<in> set (fst (feed (''data: {}'' @ [CHR 0x0A, CHR 0x0A]) (snd (feed_all [] sse_new))))"
    by code_simp
  show ?thesis
    using nothing_is_read_after_the_finish_reason [OF f, where parse = "\<lambda>_. Inr finish_frame" and v = finish_frame
        and cs = "[JObject [(''finish_reason'', JString ''stop'')]]" and choice = "JObject [(''finish_reason'', JString ''stop'')]"
        and after = "[Inr ''data: usage'']" and after' = "[]" and args_parse = "\<lambda>_. None" and model = "''m''"]
    by (simp add: finish_frame_def array_of_def str_of_def)
qed

text \<open>
  A message with a call whose arguments are an empty object.
\<close>

definition example_blocks :: "content_block list" where
  "example_blocks = [block_text ''hi'', ToolCallBlock \<lparr>tc_id = ''1'', tc_name = ''f'', tc_arguments = JObject []\<rparr>]"

definition example_response :: json where
  "example_response = JObject [(''choices'', JArray [JObject [(''message'', openai_assistant (\<lambda>_. ''{}'') example_blocks)]])]"

theorem openai_calls_roundtrip_witness:
  "\<exists>r. openai_decode (\<lambda>s. if s = ''{}'' then Inr (JObject []) else Inr example_response) ''body'' = Inr r
     \<and> response_tool_calls r = [\<lparr>tc_id = ''1'', tc_name = ''f'', tc_arguments = JObject []\<rparr>]"
proof -
  have c: "List.map_filter block_tool_call example_blocks = [\<lparr>tc_id = ''1'', tc_name = ''f'', tc_arguments = JObject []\<rparr>]"
    by (simp add: example_blocks_def block_text_def map_filter_simps)
  show ?thesis
    using openai_calls_roundtrip [where bs = example_blocks and print = "\<lambda>_. ''{}''" and body = "''body''"
        and parse = "\<lambda>s. if s = ''{}'' then Inr (JObject []) else Inr example_response"
        and kvs = "[(''choices'', JArray [JObject [(''message'', openai_assistant (\<lambda>_. ''{}'') example_blocks)]])]"
        and choice = "[(''message'', openai_assistant (\<lambda>_. ''{}'') example_blocks)]" and others = "[]"]
    by (auto simp add: c example_response_def)
qed

end
