(* ===== verification/Google_Codec.thy ===== *)
theory Google_Codec
  imports Codec_Core
begin

text \<open>
  The codec of the Gemini protocol (\<open>providers/google.rs\<close>). The protocol has no identifiers for
  tool calls: the codec uses the name of the function, and the position of the call in its frame
  as the index under which a streamed call is assembled.
\<close>

section \<open>Requests\<close>

fun google_part :: "content_block \<Rightarrow> llm_error + json list" where
  "google_part (TextBlock b) = Inr [JObject [(''text'', JString (tb_text b))]]"
| "google_part (ThinkingBlock _) = Inr []"
| "google_part (ToolCallBlock c) =
     Inr [JObject [(''functionCall'', JObject [(''name'', JString (tc_name c)), (''args'', tc_arguments c)])]]"
| "google_part (ImageBlock _) = Inl (UnsupportedFeature ''Image in content blocks (Google adapter)'')"

definition serialize_google_parts :: "content_block list \<Rightarrow> llm_error + json list" where
  "serialize_google_parts bs = map_sum id concat (traverse google_part bs)"

definition google_content :: "string \<Rightarrow> json list \<Rightarrow> json" where
  "google_content role parts = JObject [(''role'', JString role), (''parts'', JArray parts)]"

definition google_function_response :: "string \<Rightarrow> content_block list \<Rightarrow> json" where
  "google_function_response call c =
     google_content ''function''
       [JObject [(''functionResponse'', JObject [(''name'', JString call),
          (''response'', JObject [(''name'', JString call), (''content'', JString (flatten_text c))])])]]"

fun google_contents :: "message list \<Rightarrow> json option \<times> json list \<Rightarrow> llm_error + json option \<times> json list" where
  "google_contents [] (sys, out) = Inr (sys, out)"
| "google_contents (SystemMessage c # ms) (sys, out) =
     (let text = concat (block_texts c)
      in google_contents ms
           (if text = [] then sys else Some (google_content ''user'' [JObject [(''text'', JString text)]]), out))"
| "google_contents (UserMessage c # ms) (sys, out) =
     (case serialize_google_parts c of
        Inl e \<Rightarrow> Inl e
      | Inr parts \<Rightarrow> google_contents ms (sys, if parts = [] then out else out @ [google_content ''user'' parts]))"
| "google_contents (AssistantMessage c # ms) (sys, out) =
     (case serialize_google_parts c of
        Inl e \<Rightarrow> Inl e
      | Inr parts \<Rightarrow> google_contents ms (sys, if parts = [] then out else out @ [google_content ''model'' parts]))"
| "google_contents (ToolResultMessage call failed c # ms) (sys, out) =
     google_contents ms (sys, out @ [google_function_response call c])"

definition google_generation_config :: "chat_request \<Rightarrow> members" where
  "google_generation_config req =
     (let g = put_opt ''temperature'' float_json (cr_temperature req) [];
          g = put_opt ''maxOutputTokens'' word_json (cr_max_tokens req) g;
          g = put_opt ''topP'' float_json (cr_top_p req) g;
          g = put_opt ''seed'' word_json (cr_seed req) g
      in put_opt ''stopSequences'' strings_json (cr_stop_sequences req) g)"

definition serialize_google_tool :: "tool_definition \<Rightarrow> json" where
  "serialize_google_tool t =
     JObject ([(''name'', JString (td_name t))]
       @ (if td_description t = [] then [] else [(''description'', JString (td_description t))])
       @ [(''parameters'', td_parameters t)])"

fun serialize_google_tool_choice :: "tool_choice \<Rightarrow> json" where
  "serialize_google_tool_choice (ChooseTool n) =
     JObject [(''mode'', JString ''ANY''), (''allowedFunctionNames'', JArray [JString n])]"
| "serialize_google_tool_choice ChooseAny = JObject [(''mode'', JString ''ANY'')]"

definition google_body :: "chat_request \<Rightarrow> json option \<Rightarrow> json list \<Rightarrow> members" where
  "google_body req sys contents =
     (let b = put_opt ''systemInstruction'' id sys [];
          b = hm_insert ''contents'' (JArray contents) b;
          g = google_generation_config req;
          b = (if g = [] then b else hm_insert ''generationConfig'' (JObject g) b);
          b = put_opt ''tools''
                (\<lambda>ts. JArray [JObject [(''functionDeclarations'', JArray (map serialize_google_tool ts))]]) (cr_tools req) b;
          b = put_opt ''toolConfig''
                (\<lambda>c. JObject [(''functionCallingConfig'', serialize_google_tool_choice c)]) (cr_tool_choice req) b
      in put_extra (cr_extra req) b)"

definition google_path :: "string \<Rightarrow> bool \<Rightarrow> string" where
  "google_path model stream =
     ''/v1beta/models/'' @ model @ '':generateContent'' @ (if stream then ''?alt=sse'' else [])"

definition google_encode :: "(json \<Rightarrow> string) \<Rightarrow> chat_request \<Rightarrow> bool \<Rightarrow> llm_error + codec_request" where
  "google_encode print req stream =
     (case google_contents (cr_messages req) (None, []) of
        Inl e \<Rightarrow> Inl e
      | Inr (sys, contents) \<Rightarrow> Inr
          \<lparr>cq_path = google_path (cr_model req) stream,
           cq_headers = [(''content-type'', ''application/json'')],
           cq_body = print (JObject (google_body req sys contents))\<rparr>)"

section \<open>Responses\<close>

definition google_error :: "string \<Rightarrow> llm_error" where
  "google_error m = ProviderError ''google'' (Some 400) None m"

definition read_google_part :: "json \<Rightarrow> content_block list" where
  "read_google_part v =
     read_text (text_or [] (str_of (json_get v ''text'')))
     @ (case json_get v ''functionCall'' of
          None \<Rightarrow> []
        | Some f \<Rightarrow>
            (let name = text_or [] (str_of (json_get f ''name''))
             in [ToolCallBlock \<lparr>tc_id = name, tc_name = name,
                   tc_arguments = (case json_get f ''args'' of None \<Rightarrow> JObject [] | Some a \<Rightarrow> a)\<rparr>]))"

definition google_usage :: "json option \<Rightarrow> token_usage" where
  "google_usage u =
     \<lparr>tu_prompt = count_of (member_of u ''promptTokenCount''), tu_completion = count_of (member_of u ''candidatesTokenCount''),
      tu_total = count_of (member_of u ''totalTokenCount'')\<rparr>"

definition google_decode :: "(string \<Rightarrow> string + json) \<Rightarrow> string \<Rightarrow> llm_error + chat_response" where
  "google_decode parse body =
     (case parse body of
        Inl e \<Rightarrow> Inl (ParseFailed (''Invalid JSON: '' @ e))
      | Inr raw \<Rightarrow>
          (case str_of (member_of (json_get raw ''promptFeedback'') ''blockReason'') of
             Some reason \<Rightarrow> Inl (google_error (''Prompt blocked: '' @ reason))
           | None \<Rightarrow>
               (case array_of (json_get raw ''candidates'') of
                  None \<Rightarrow> Inl (ParseFailed ''Missing candidates array'')
                | Some [] \<Rightarrow> Inl (google_error ''No candidates in response (possibly safety filtered)'')
                | Some (candidate # _) \<Rightarrow>
                    (case array_of (member_of (json_get candidate ''content'') ''parts'') of
                       None \<Rightarrow> Inl (ParseFailed ''Missing parts in candidate'')
                     | Some parts \<Rightarrow> Inr
                         \<lparr>rp_content = concat (map read_google_part parts), rp_usage = google_usage (json_get raw ''usageMetadata''),
                          rp_raw = raw\<rparr>))))"

section \<open>Streams\<close>

text \<open>The parts of a frame; \<open>i\<close> counts the calls among them. \<open>print\<close> gives the text of the arguments.\<close>

fun google_part_chunks :: "(json \<Rightarrow> string) \<Rightarrow> nat \<Rightarrow> json list \<Rightarrow> stream_chunk list" where
  "google_part_chunks print i [] = []"
| "google_part_chunks print i (v # vs) =
     (case nonempty (str_of (json_get v ''text'')) of None \<Rightarrow> [] | Some t \<Rightarrow> [TextDelta t])
     @ (case json_get v ''functionCall'' of
          None \<Rightarrow> google_part_chunks print i vs
        | Some f \<Rightarrow>
            (let name = str_of (json_get f ''name'')
             in call_delta i name name (map_option print (json_get f ''args'')) # google_part_chunks print (i + 1) vs))"

definition google_candidate_chunks :: "(json \<Rightarrow> string) \<Rightarrow> json \<Rightarrow> stream_chunk list" where
  "google_candidate_chunks print candidate =
     (case array_of (member_of (json_get candidate ''content'') ''parts'') of
        None \<Rightarrow> []
      | Some parts \<Rightarrow> google_part_chunks print 0 parts
          @ (if json_get candidate ''finishReason'' = None then [] else [DoneChunk]))"

text \<open>The usage of a frame is looked at only when its first candidate gives nothing.\<close>

definition google_chunks :: "(json \<Rightarrow> string) \<Rightarrow> json \<Rightarrow> stream_chunk list" where
  "google_chunks print v =
     (let found = (case array_of (json_get v ''candidates'') of
                     Some (candidate # _) \<Rightarrow> google_candidate_chunks print candidate | _ \<Rightarrow> [])
      in if found \<noteq> [] then found
         else case json_get v ''usageMetadata'' of None \<Rightarrow> [] | Some u \<Rightarrow> [UsageChunk (google_usage (Some u))])"

definition google_decode_sse :: "(json \<Rightarrow> string) \<Rightarrow> (string \<Rightarrow> string + json) \<Rightarrow> decode_sse" where
  "google_decode_sse print parse frame =
     (if sf_data frame = [] then Inr []
      else case parse (sf_data frame) of
        Inl e \<Rightarrow> Inl (ParseFailed (''Invalid SSE JSON: '' @ e))
      | Inr v \<Rightarrow> Inr (google_chunks print v))"

section \<open>The codec\<close>

definition google_capabilities :: "string \<Rightarrow> capabilities" where
  "google_capabilities model = no_capabilities\<lparr>cap_tool_call := contains_text ''gemini'' (lower_text model)\<rparr>"

definition google_codec :: "(json \<Rightarrow> string) \<Rightarrow> (string \<Rightarrow> string + json) \<Rightarrow> codec" where
  "google_codec print parse =
     \<lparr>cd_encode = google_encode print,
      cd_decode = google_decode parse,
      cd_decode_sse = google_decode_sse print parse,
      cd_capabilities = google_capabilities,
      cd_provider_id = ''google'',
      cd_default_base_url = ''https://generativelanguage.googleapis.com'',
      cd_auth_style = Bearer\<rparr>"

section \<open>Facts\<close>

text \<open>A frame that carries function calls only, one part for each.\<close>

definition call_part :: "string \<times> json \<Rightarrow> json" where
  "call_part c = JObject [(''functionCall'', JObject [(''name'', JString (fst c)), (''args'', snd c)])]"

lemma google_part_chunks_call [simp]:
  "google_part_chunks print i (call_part c # vs) =
     call_delta i (Some (fst c)) (Some (fst c)) (Some (print (snd c))) # google_part_chunks print (Suc i) vs"
  by (simp add: call_part_def json_read Let_def)

declare google_part_chunks.simps(2) [simp del]

definition calls_frame :: "(string \<times> json) list \<Rightarrow> json" where
  "calls_frame cs = JObject [(''candidates'', JArray [JObject [(''content'', JObject [(''parts'', JArray (map call_part cs))])]])]"

lemma calls_frame_chunks: "cs \<noteq> [] \<Longrightarrow> google_chunks print (calls_frame cs) = google_part_chunks print 0 (map call_part cs)"
  by (cases cs) (auto simp: google_chunks_def calls_frame_def google_candidate_chunks_def member_of_def array_of_def Let_def
)

fun chunk_call :: "stream_chunk \<Rightarrow> tool_call_delta option" where
  "chunk_call (CallDelta d) = Some d"
| "chunk_call _ = None"

definition assembled :: "(string \<Rightarrow> json option) \<Rightarrow> stream_chunk list \<Rightarrow> tool_call list" where
  "assembled args_parse cs = finalize_calls args_parse (fold push_call (List.map_filter chunk_call cs) [])"

lemma tc_name_finish [simp]: "tc_name (finish_call p c) = (case pd_name c of None \<Rightarrow> ''unknown'' | Some n \<Rightarrow> n)"
  by (simp add: finish_call_def)

text \<open>
  Two function calls that arrive in one frame come out as two calls; the same two calls in
  two frames come out as one, under the second name, with the texts of both arguments run together.
\<close>

theorem google_calls_of_two_frames_merge:
  "map tc_name (assembled args_parse (google_chunks print (calls_frame [(n1, a1), (n2, a2)]))) = [n1, n2]
   \<and> assembled args_parse (google_chunks print (calls_frame [(n1, a1)]) @ google_chunks print (calls_frame [(n2, a2)]))
      = [finish_call args_parse \<lparr>pd_id = Some n2, pd_name = Some n2, pd_arguments = print a1 @ print a2\<rparr>]"
  by (simp add: calls_frame_chunks assembled_def call_delta_def map_filter_simps push_call_def
      merge_delta_def pending_new_def finalize_calls_def tc_name_finish)

text \<open>The usage that comes with the end of a stream, in the frame of its finish reason, is not read.\<close>

lemma part_chunks_no_usage: "UsageChunk u \<notin> set (google_part_chunks print i vs)"
  by (induction vs arbitrary: i) (auto simp: google_part_chunks.simps(2) call_delta_def Let_def split: option.splits)

lemma usage_of_finish_frame_is_not_read:
  assumes "array_of (json_get v ''candidates'') = Some (candidate # others)"
    and "array_of (member_of (json_get candidate ''content'') ''parts'') = Some parts" and "json_get candidate ''finishReason'' \<noteq> None"
  shows "UsageChunk u \<notin> set (google_chunks print v)"
  using assms by (auto simp: google_chunks_def google_candidate_chunks_def part_chunks_no_usage Let_def)

end
