(* ===== verification/Codec_Provider.thy ===== *)
theory Codec_Provider
  imports Openai_Codec Anthropic_Codec Google_Codec
begin

text \<open>
  The provider over a codec (\<open>providers/base.rs\<close>): configuration and builder, the check of a
  request, the HTTP request that is sent, the calls with a whole response and with a stream; and
  the router (\<open>router.rs\<close>) that finds the provider of a route.

  HTTP is an argument: what a request leads to. So are the parsers of URLs and header fields, the
  joining of URLs, and the text of a duration. A duration is its nanoseconds.
\<close>

section \<open>Configuration\<close>

datatype auth_config = BearerAuth string | HeaderAuth string string | NoAuthConfig

record provider_config =
  pc_base_url :: string
  pc_auth :: auth_config
  pc_connect_timeout :: nat
  pc_timeout :: nat
  pc_idle_timeout :: nat

datatype provider_env_error = MissingEnv string | EmptyEnv string

datatype provider_build_error =
    EnvError provider_env_error
  | UrlError string
  | InvalidHeader string string
  | ValidationError string

definition seconds :: "nat \<Rightarrow> nat" where "seconds n = n * 10 ^ 9"

text \<open>\<open>Duration::saturating_mul\<close>: a duration is at most 2^64 - 1 seconds and 999999999 nanoseconds.\<close>

definition saturating_mul :: "nat \<Rightarrow> nat \<Rightarrow> nat" where
  "saturating_mul d n = min (d * n) (seconds (2 ^ 64) - 1)"

type_synonym url_parse = "string \<Rightarrow> string + string"

definition config_with :: "url_parse \<Rightarrow> string \<Rightarrow> auth_config \<Rightarrow> provider_build_error + provider_config" where
  "config_with url_parse base auth =
     (case url_parse base of
        Inl e \<Rightarrow> Inl (UrlError e)
      | Inr u \<Rightarrow> Inr \<lparr>pc_base_url = u, pc_auth = auth, pc_connect_timeout = seconds 10, pc_timeout = seconds 120,
          pc_idle_timeout = seconds 30\<rparr>)"

definition upper_char :: "char \<Rightarrow> char" where
  "upper_char c = (let n = of_char c :: nat in if 97 \<le> n \<and> n \<le> 122 then char_of (n - 32) else c)"

definition api_key_env :: "codec \<Rightarrow> string" where
  "api_key_env cd = map upper_char (cd_provider_id cd) @ ''_API_KEY''"

text \<open>\<open>env\<close> is \<open>std::env::var\<close>.\<close>

definition read_key :: "(string \<Rightarrow> string option) \<Rightarrow> string \<Rightarrow> provider_build_error + string" where
  "read_key env name =
     (case env name of
        None \<Rightarrow> Inl (EnvError (MissingEnv name))
      | Some key \<Rightarrow> if key = [] then Inl (EnvError (EmptyEnv name)) else Inr key)"

definition config_load ::
  "url_parse \<Rightarrow> (string \<Rightarrow> string option) \<Rightarrow> codec \<Rightarrow> provider_build_error + provider_config" where
  "config_load url_parse env cd =
     (let base = text_or (cd_default_base_url cd) (env (map upper_char (cd_provider_id cd) @ ''_BASE_URL''))
      in case read_key env (api_key_env cd) of
           Inl e \<Rightarrow> Inl e
         | Inr key \<Rightarrow>
             (case cd_auth_style cd of
                Bearer \<Rightarrow> config_with url_parse base (BearerAuth key)
              | CustomHeader h \<Rightarrow> config_with url_parse base (HeaderAuth h key)
              | NoAuth \<Rightarrow> config_with url_parse base NoAuthConfig))"

section \<open>Builder\<close>

datatype provider_profile = OpenRouter | Anthropic | Groq | DeepSeek | SGLang | Ollama | MiMo | Zhipu | DashScope

fun profile_base_url :: "provider_profile \<Rightarrow> string" where
  "profile_base_url OpenRouter = ''https://openrouter.ai/api/v1''"
| "profile_base_url Anthropic = ''https://api.anthropic.com/v1''"
| "profile_base_url Groq = ''https://api.groq.com/openai/v1''"
| "profile_base_url DeepSeek = ''https://api.deepseek.com/v1''"
| "profile_base_url SGLang = ''http://localhost:30000/v1''"
| "profile_base_url Ollama = ''http://localhost:11434/v1''"
| "profile_base_url MiMo = ''https://api.xiaomimimo.com/v1''"
| "profile_base_url Zhipu = ''https://open.bigmodel.cn/api/paas/v4''"
| "profile_base_url DashScope = ''https://dashscope.aliyuncs.com/compatible-mode/v1''"

fun profile_env_prefix :: "provider_profile \<Rightarrow> string" where
  "profile_env_prefix OpenRouter = ''OPENROUTER''"
| "profile_env_prefix Anthropic = ''ANTHROPIC''"
| "profile_env_prefix Groq = ''GROQ''"
| "profile_env_prefix DeepSeek = ''DEEPSEEK''"
| "profile_env_prefix SGLang = ''SGLANG''"
| "profile_env_prefix Ollama = ''OLLAMA''"
| "profile_env_prefix MiMo = ''MIMO''"
| "profile_env_prefix Zhipu = ''ZAI''"
| "profile_env_prefix DashScope = ''DASHSCOPE''"

type_synonym headers = "(string, string) hashmap"

record provider_builder =
  pb_codec :: codec
  pb_base_url :: string
  pb_auth :: "auth_config option"
  pb_connect_timeout :: nat
  pb_timeout :: nat
  pb_idle_timeout :: nat
  pb_extra_headers :: headers
  pb_error :: "provider_build_error option"

definition builder_new :: "codec \<Rightarrow> provider_builder" where
  "builder_new cd = \<lparr>pb_codec = cd, pb_base_url = [], pb_auth = None, pb_connect_timeout = seconds 10,
     pb_timeout = seconds 120, pb_idle_timeout = seconds 30, pb_extra_headers = [], pb_error = None\<rparr>"

definition with_profile :: "provider_profile \<Rightarrow> provider_builder \<Rightarrow> provider_builder" where
  "with_profile p b = (if pb_base_url b = [] then b\<lparr>pb_base_url := profile_base_url p\<rparr> else b)"

definition with_base_url :: "string \<Rightarrow> provider_builder \<Rightarrow> provider_builder" where
  "with_base_url u b = b\<lparr>pb_base_url := u\<rparr>"

definition with_api_key :: "string \<Rightarrow> provider_builder \<Rightarrow> provider_builder" where
  "with_api_key k b = b\<lparr>pb_auth := Some (BearerAuth k)\<rparr>"

definition with_auth_header :: "string \<Rightarrow> string \<Rightarrow> provider_builder \<Rightarrow> provider_builder" where
  "with_auth_header h v b = b\<lparr>pb_auth := Some (HeaderAuth h v)\<rparr>"

text \<open>The parsers of the header library: the normal form of a field's name or value.\<close>

record header_parse =
  hp_name :: "string \<Rightarrow> string option"
  hp_value :: "string \<Rightarrow> string option"

text \<open>The first error stays and nothing is added after it.\<close>

definition with_header :: "header_parse \<Rightarrow> string \<Rightarrow> string \<Rightarrow> provider_builder \<Rightarrow> provider_builder" where
  "with_header hp key val b =
     (if pb_error b \<noteq> None then b
      else case hp_name hp key of
        None \<Rightarrow> b\<lparr>pb_error := Some (InvalidHeader ''name'' key)\<rparr>
      | Some n \<Rightarrow>
          (case hp_value hp val of
             None \<Rightarrow> b\<lparr>pb_error := Some (InvalidHeader ''value'' val)\<rparr>
           | Some v \<Rightarrow> b\<lparr>pb_extra_headers := hm_insert n v (pb_extra_headers b)\<rparr>))"

definition with_extra_headers :: "header_parse \<Rightarrow> (string \<times> string) list \<Rightarrow> provider_builder \<Rightarrow> provider_builder" where
  "with_extra_headers hp hs b = foldl (\<lambda>b (k, v). with_header hp k v b) b hs"

record codec_provider =
  cp_codec :: codec
  cp_config :: provider_config
  cp_read_timeout :: nat
  cp_extra_headers :: headers

definition build_provider :: "url_parse \<Rightarrow> provider_builder \<Rightarrow> provider_build_error + codec_provider" where
  "build_provider url_parse b =
     (case pb_error b of
        Some e \<Rightarrow> Inl e
      | None \<Rightarrow>
          (case url_parse (pb_base_url b) of
             Inl e \<Rightarrow> Inl (UrlError e)
           | Inr u \<Rightarrow> Inr
               \<lparr>cp_codec = pb_codec b,
                cp_config = \<lparr>pc_base_url = u, pc_auth = (case pb_auth b of None \<Rightarrow> NoAuthConfig | Some a \<Rightarrow> a),
                  pc_connect_timeout = pb_connect_timeout b, pc_timeout = pb_timeout b, pc_idle_timeout = pb_idle_timeout b\<rparr>,
                cp_read_timeout = max (saturating_mul (pb_idle_timeout b) 3) (seconds 120),
                cp_extra_headers = pb_extra_headers b\<rparr>))"

definition openrouter :: "url_parse \<Rightarrow> (string \<Rightarrow> string option) \<Rightarrow> codec \<Rightarrow> provider_build_error + codec_provider" where
  "openrouter url_parse env cd =
     (let base = text_or (profile_base_url OpenRouter) (env (profile_env_prefix OpenRouter @ ''_BASE_URL''))
      in case read_key env (profile_env_prefix OpenRouter @ ''_API_KEY'') of
           Inl e \<Rightarrow> Inl e
         | Inr key \<Rightarrow> build_provider url_parse (with_api_key key (with_base_url base (builder_new cd))))"

section \<open>Requests\<close>

definition validate_request :: "codec \<Rightarrow> chat_request \<Rightarrow> llm_error option" where
  "validate_request cd req =
     (case first_error message_validate (cr_messages req) of
        Some e \<Rightarrow> Some (ParseFailed e)
      | None \<Rightarrow> validate_capabilities req (cd_capabilities cd (cr_model req)))"

record http_request =
  hr_url :: string
  hr_headers :: "(string \<times> string) list"
  hr_body :: string

fun auth_headers :: "auth_config \<Rightarrow> (string \<times> string) list" where
  "auth_headers (BearerAuth key) = [(''authorization'', ''Bearer '' @ key)]"
| "auth_headers (HeaderAuth h v) = [(h, v)]"
| "auth_headers NoAuthConfig = []"

text \<open>The codecs declare no default headers; later headers replace earlier ones of the same name.\<close>

definition merged_headers :: "codec_provider \<Rightarrow> codec_request \<Rightarrow> headers" where
  "merged_headers p req = foldl (\<lambda>m (k, v). hm_insert k v m) (cp_extra_headers p) (cq_headers req)"

definition build_request ::
  "(string \<Rightarrow> string \<Rightarrow> string + string) \<Rightarrow> codec_provider \<Rightarrow> codec_request \<Rightarrow> llm_error + http_request" where
  "build_request join p req =
     (case join (pc_base_url (cp_config p)) (cq_path req) of
        Inl e \<Rightarrow> Inl (NetworkError (''Invalid URL: '' @ e))
      | Inr u \<Rightarrow> Inr
          \<lparr>hr_url = u, hr_headers = auth_headers (pc_auth (cp_config p)) @ merged_headers p req, hr_body = cq_body req\<rparr>)"

section \<open>A whole response\<close>

text \<open>What a request leads to within the time of a call.\<close>

datatype http_outcome =
    SendFails string
  | TimesOut
  | BodyFails string
  | Responds nat string

definition handle_error :: "codec \<Rightarrow> nat \<Rightarrow> string \<Rightarrow> llm_error" where
  "handle_error cd status body =
     ProviderError (cd_provider_id cd) (Some status) None
       (if status = 429 then ''rate limited''
        else if 400 \<le> status \<and> status \<le> 599 then from_utf8_lossy body
        else ''Unexpected status: '' @ show_nat status)"

text \<open>The world of a provider: how to join URLs, what a duration is written as, what requests lead to.\<close>

record net =
  nt_join :: "string \<Rightarrow> string \<Rightarrow> string + string"
  nt_show :: "nat \<Rightarrow> string"
  nt_send :: "http_request \<Rightarrow> http_outcome"

text \<open>The request that a call sends, if it gets that far.\<close>

definition prepare :: "net \<Rightarrow> codec_provider \<Rightarrow> chat_request \<Rightarrow> bool \<Rightarrow> llm_error + http_request" where
  "prepare nt p req stream =
     (case validate_request (cp_codec p) req of
        Some e \<Rightarrow> Inl e
      | None \<Rightarrow>
          (case cd_encode (cp_codec p) req stream of
             Inl e \<Rightarrow> Inl e
           | Inr http_req \<Rightarrow> build_request (nt_join nt) p http_req))"

definition provider_call :: "net \<Rightarrow> codec_provider \<Rightarrow> chat_request \<Rightarrow> llm_error + chat_response" where
  "provider_call nt p req =
     (case prepare nt p req False of
        Inl e \<Rightarrow> Inl e
      | Inr http \<Rightarrow>
          (case nt_send nt http of
             SendFails e \<Rightarrow> Inl (NetworkError e)
           | TimesOut \<Rightarrow> Inl (TimeoutError (''request timed out after '' @ nt_show nt (pc_timeout (cp_config p))))
           | BodyFails e \<Rightarrow> Inl (NetworkError e)
           | Responds status body \<Rightarrow>
               if 200 \<le> status \<and> status \<le> 299 then cd_decode (cp_codec p) body
               else Inl (handle_error (cp_codec p) status body)))"

section \<open>A stream\<close>

text \<open>
  What a request for a stream leads to: an error, or a status with a body, which reads as a whole
  (or fails to) and which comes in items, each some bytes, an error, or nothing for the time of
  the timeout that applies.
\<close>

datatype body_item = Bytes string | BodyError string | NothingInTime

datatype stream_outcome =
    StreamSendFails string
  | StreamAnswers nat "string + string" "body_item list"

fun later_item :: "net \<Rightarrow> codec_provider \<Rightarrow> body_item \<Rightarrow> llm_error + string" where
  "later_item nt p (Bytes b) = Inr b"
| "later_item nt p (BodyError e) = Inl (NetworkError e)"
| "later_item nt p NothingInTime =
     Inl (TimeoutError (''stream idle timed out after '' @ nt_show nt (pc_idle_timeout (cp_config p))))"

text \<open>The bytes and errors the pipeline works on, once the first item is there.\<close>

fun open_body :: "net \<Rightarrow> codec_provider \<Rightarrow> body_item list \<Rightarrow> llm_error + (llm_error + string) list" where
  "open_body nt p [] = Inl UnexpectedEof"
| "open_body nt p (NothingInTime # _) =
     Inl (TimeoutError (''first token timed out after '' @ nt_show nt (pc_timeout (cp_config p))))"
| "open_body nt p (BodyError e # _) = Inl (NetworkError e)"
| "open_body nt p (Bytes b # items) = Inr (Inr b # map (later_item nt p) items)"

text \<open>
  \<open>opens\<close> is what the request for the stream leads to, \<open>readings\<close> what the sender finds of the
  channel to the consumer; the result is the channel when the pipeline has ended.
\<close>

definition provider_stream ::
  "(string \<Rightarrow> json option) \<Rightarrow> net \<Rightarrow> (http_request \<Rightarrow> stream_outcome) \<Rightarrow> channel_status list \<Rightarrow> codec_provider
   \<Rightarrow> chat_request \<Rightarrow> llm_error + channel" where
  "provider_stream args_parse nt opens readings p req =
     (case prepare nt p req True of
        Inl e \<Rightarrow> Inl e
      | Inr http \<Rightarrow>
          (case opens http of
             StreamSendFails e \<Rightarrow> Inl (NetworkError e)
           | StreamAnswers status whole items \<Rightarrow>
               if status \<ge> 400 then
                 Inl (case whole of Inl e \<Rightarrow> NetworkError e | Inr body \<Rightarrow> handle_error (cp_codec p) status body)
               else
                 (case open_body nt p items of
                    Inl e \<Rightarrow> Inl e
                  | Inr chunks \<Rightarrow> Inr
                      (process_stream args_parse channel_sink (cd_decode_sse (cp_codec p)) (cr_model req) chunks
                         (channel_new readings)))))"

section \<open>Routing\<close>

datatype task_level = Flash | Standard | Pro

record route_entry =
  re_provider_id :: string
  re_model :: string

record 'p resolved_model =
  rm_provider :: 'p
  rm_model :: string
  rm_context_window :: "nat option"

type_synonym router = "(task_level, route_entry) hashmap"
type_synonym 'p registry = "(string, 'p) hashmap"

definition add_route :: "task_level \<Rightarrow> route_entry \<Rightarrow> router \<Rightarrow> router" where
  "add_route l e r = hm_insert l e r"

definition resolve_level :: "router \<Rightarrow> task_level \<Rightarrow> route_entry option" where
  "resolve_level r l = hm_get r l"

definition register :: "string \<Rightarrow> 'p \<Rightarrow> 'p registry \<Rightarrow> 'p registry" where
  "register i p r = hm_insert i p r"

definition resolve_route :: "'p registry \<Rightarrow> route_entry \<Rightarrow> llm_error + 'p resolved_model" where
  "resolve_route r e =
     (case hm_get r (re_provider_id e) of
        None \<Rightarrow> Inl (ProviderError (re_provider_id e) None None (''provider not registered: '' @ re_provider_id e))
      | Some p \<Rightarrow> Inr \<lparr>rm_provider = p, rm_model = re_model e, rm_context_window = None\<rparr>)"

section \<open>What the pipeline asks of a codec\<close>

text \<open>
  The contract of \<open>decode_sse\<close>: a frame without data is nothing, and data that cannot be parsed
  is an error and never passed over. \<open>signal\<close> tells the data that is not JSON on purpose.
\<close>

locale frame_decoder =
  fixes decode :: decode_sse
    and parse :: "string \<Rightarrow> string + json"
    and signal :: "string \<Rightarrow> bool"
  assumes no_data: "sf_data f = [] \<Longrightarrow> decode f = Inr []"
    and corrupt: "sf_data f \<noteq> [] \<Longrightarrow> \<not> signal (sf_data f) \<Longrightarrow> parse (sf_data f) = Inl e
      \<Longrightarrow> decode f = Inl (ParseFailed (''Invalid SSE JSON: '' @ e))"
begin

lemma frames_with_corrupt:
  "f \<in> set fs \<Longrightarrow> decode f = Inl e \<Longrightarrow> \<exists>es e'. frames_trace decode fs st = (es @ [ErrorEvent e'], None)"
proof (induction fs arbitrary: st)
  case (Cons g fs)
  show ?case
  proof (cases "handle_frame decode g")
    case (Inr fr)
    then have "f \<in> set fs" using Cons.prems by (auto simp: handle_frame_def split: sum.splits)
    then obtain es e' where "frames_trace decode fs (absorb fr st) = (es @ [ErrorEvent e'], None)"
      using Cons.IH Cons.prems(2) by blast
    then show ?thesis using Inr by auto
  qed auto
qed simp

definition goes_on :: "sse_frame \<Rightarrow> bool" where
  "goes_on f \<longleftrightarrow> (case decode f of Inl _ \<Rightarrow> True | Inr cs \<Rightarrow> DoneChunk \<notin> set cs)"

lemma frames_without_done:
  "list_all goes_on fs \<Longrightarrow> \<not> ss_done st \<Longrightarrow> frames_trace decode fs st = (es, Some st') \<Longrightarrow> \<not> ss_done st'"
proof (induction fs arbitrary: st es)
  case (Cons f fs)
  then obtain fr es' where fr: "handle_frame decode f = Inr fr" "frames_trace decode fs (absorb fr st) = (es', Some st')"
    by (auto split: sum.splits prod.splits)
  moreover have "\<not> fr_done fr"
    using fr(1) Cons.prems(1) by (auto simp: handle_frame_def goes_on_def split: sum.splits)
  ultimately show ?case using Cons.IH [of "absorb fr st" es'] Cons.prems by simp
qed simp

lemma frames_trace_error: "frames_trace decode fs st = (es, None) \<Longrightarrow> \<exists>es' e. es = es' @ [ErrorEvent e]"
  by (induction fs arbitrary: st es) (fastforce split: sum.splits prod.splits)+

lemma chunks_with_corrupt:
  "f \<in> set (fst (feed bytes (snd (feed_all before p)))) \<Longrightarrow> decode f = Inl e \<Longrightarrow> list_all goes_on (fst (feed_all before p))
   \<Longrightarrow> \<not> ss_done st
   \<Longrightarrow> \<exists>es e'. chunks_trace decode (map Inr before @ Inr bytes # after) p st = (es @ [ErrorEvent e'], None)"
proof (induction before arbitrary: p st)
  case Nil
  then show ?case
    using frames_with_corrupt [of f "fst (feed bytes p)" e st] by (auto split: prod.splits)
next
  case (Cons b before)
  obtain fs p' where b: "feed b p = (fs, p')" by fastforce
  obtain gs p'' where g: "feed_all before p' = (gs, p'')" by fastforce
  show ?case
  proof (cases "snd (frames_trace decode fs st)")
    case None
    then show ?thesis
      using frames_trace_error [of fs st "fst (frames_trace decode fs st)"] b by (auto split: prod.splits)
  next
    case (Some st')
    then have nd: "\<not> ss_done st'"
      using frames_without_done [of fs st "fst (frames_trace decode fs st)" st'] Cons.prems b g by (cases "frames_trace decode fs st") auto
    obtain es e' where "chunks_trace decode (map Inr before @ Inr bytes # after) p' st' = (es @ [ErrorEvent e'], None)"
      using Cons.IH [of p' st'] Cons.prems nd b g by auto
    then show ?thesis
      using Some nd b by (cases "frames_trace decode fs st") auto
  qed
qed

lemma corrupt_frame_ends_stream:
  assumes "f \<in> set (fst (feed bytes (snd (feed_all before sse_new))))"
    and "sf_data f \<noteq> []" "\<not> signal (sf_data f)" "parse (sf_data f) = Inl e"
    and "list_all goes_on (fst (feed_all before sse_new))"
  shows "\<exists>es e. stream_trace args_parse decode model (map Inr before @ Inr bytes # after) = es @ [ErrorEvent e]"
proof -
  have "\<exists>es e'. chunks_trace decode (map Inr before @ Inr bytes # after) sse_new stream_new = (es @ [ErrorEvent e'], None)"
    using assms corrupt [OF assms(2-4)] by (intro chunks_with_corrupt) (auto simp: stream_new_def)
  then show ?thesis by (fastforce simp: stream_trace_def)
qed

end

interpretation openai: frame_decoder "openai_decode_sse parse" parse "\<lambda>d. d = ''[DONE]''" for parse
  by unfold_locales (auto simp: openai_decode_sse_def)

interpretation anthropic: frame_decoder "anthropic_decode_sse parse" parse "\<lambda>_. False" for parse
  by unfold_locales (auto simp: anthropic_decode_sse_def)

interpretation google: frame_decoder "google_decode_sse print parse" parse "\<lambda>_. False" for "print" parse
  by unfold_locales (auto simp: google_decode_sse_def)

section \<open>Properties\<close>

definition provider_codecs :: "(json \<Rightarrow> string) \<Rightarrow> (string \<Rightarrow> string + json) \<Rightarrow> string \<Rightarrow> codec list" where
  "provider_codecs print parse provider = [openai_codec print parse provider, anthropic_codec print parse, google_codec print parse]"

text \<open>A frame that does not tell the pipeline that the stream is over.\<close>

definition frame_goes_on :: "codec \<Rightarrow> sse_frame \<Rightarrow> bool" where
  "frame_goes_on cd f = (case cd_decode_sse cd f of Inl _ \<Rightarrow> True | Inr cs \<Rightarrow> DoneChunk \<notin> set cs)"

text \<open>
  With every codec, a frame whose data is not JSON ends the stream with an error: unless the
  stream was over before, nothing of what was assembled is reported as a response.
\<close>

theorem corrupt_frames_end_the_stream:
  assumes "cd \<in> set (provider_codecs print parse provider)"
    and "f \<in> set (fst (feed bytes (snd (feed_all before sse_new))))"
    and "sf_data f \<notin> {[], ''[DONE]''}" and "parse (sf_data f) = Inl e"
    and "list_all (frame_goes_on cd) (fst (feed_all before sse_new))"
  shows "\<exists>es e. stream_trace args_parse (cd_decode_sse cd) model (map Inr before @ Inr bytes # after) = es @ [ErrorEvent e]"
proof -
  consider "cd = openai_codec print parse provider" | "cd = anthropic_codec print parse" | "cd = google_codec print parse"
    using assms(1) by (auto simp: provider_codecs_def)
  then show ?thesis
  proof cases
    case 1
    then show ?thesis
      using openai.corrupt_frame_ends_stream [OF assms(2)] assms(3-)
      by (auto simp: openai_codec_def frame_goes_on_def [abs_def] openai.goes_on_def [abs_def])
  next
    case 2
    then show ?thesis
      using anthropic.corrupt_frame_ends_stream [OF assms(2)] assms(3-)
      by (auto simp: anthropic_codec_def frame_goes_on_def [abs_def] anthropic.goes_on_def [abs_def])
  next
    case 3
    then show ?thesis
      using google.corrupt_frame_ends_stream [OF assms(2)] assms(3-)
      by (auto simp: google_codec_def frame_goes_on_def [abs_def] google.goes_on_def [abs_def])
  qed
qed

definition broken_body :: string where
  "broken_body = ''data: x'' @ [CHR 0x0A, CHR 0x0A]"

theorem corrupt_frames_end_the_stream_witness:
  "\<exists>es e. stream_trace (\<lambda>_. None) (openai_decode_sse (\<lambda>_. Inl ''expected value'')) ''m'' [Inr broken_body, Inr []] = es @ [ErrorEvent e]"
proof -
  have "\<lparr>sf_event = None, sf_data = ''x''\<rparr> \<in> set (fst (feed broken_body (snd (feed_all [] sse_new))))"
    by code_simp
  then show ?thesis
    using corrupt_frames_end_the_stream [where cd = "openai_codec (\<lambda>_. []) (\<lambda>_. Inl ''expected value'') ''openai''"
        and print = "\<lambda>_. []" and parse = "\<lambda>_. Inl ''expected value''" and provider = "''openai''" and before = "[]"
        and bytes = broken_body and after = "[Inr []]" and args_parse = "\<lambda>_. None" and model = "''m''"
        and f = "\<lparr>sf_event = None, sf_data = ''x''\<rparr>" and e = "''expected value''"]
    by (simp add: provider_codecs_def openai_codec_def)
qed

text \<open>
  C36: No codec takes images, and a request with one is refused before anything is sent, by the
  call and by the stream: no image is dropped silently on the way to a provider.
\<close>

theorem images_never_reach_a_provider:
  assumes "cp_codec p \<in> set (provider_codecs print parse provider)"
    and "list_ex (\<lambda>m. list_ex is_image (message_content m)) (cr_messages req)"
  shows "\<exists>e. provider_call nt p req = Inl e \<and> provider_stream args_parse nt opens readings p req = Inl e
    \<and> (\<forall>m \<in> set (cr_messages req). message_validate m = None) = (e = UnsupportedFeature ''image input'')"
proof -
  have caps: "\<not> cap_image_input (cd_capabilities (cp_codec p) (cr_model req))"
    using assms(1)
    by (auto simp: provider_codecs_def openai_codec_def anthropic_codec_def google_codec_def openai_capabilities_def
        anthropic_capabilities_def google_capabilities_def no_capabilities_def with_reasoning_def Let_def
        split: if_splits)
  show ?thesis
  proof (cases "first_error message_validate (cr_messages req)")
    case None
    then have "validate_request (cp_codec p) req = Some (UnsupportedFeature ''image input'')"
      unfolding validate_request_def None using caps assms(2) by (simp add: validate_capabilities_def)
    then show ?thesis
      using None by (simp add: provider_call_def provider_stream_def prepare_def)
  next
    case (Some e)
    then have "validate_request (cp_codec p) req = Some (ParseFailed e)"
      by (simp add: validate_request_def)
    then show ?thesis
      using first_error_SomeD [OF Some] by (auto simp: provider_call_def provider_stream_def prepare_def)
  qed
qed

definition example_provider :: codec_provider where
  "example_provider =
     \<lparr>cp_codec = openai_codec (\<lambda>_. ''{}'') (\<lambda>_. Inr JNull) ''openai'',
      cp_config = \<lparr>pc_base_url = ''http://localhost'', pc_auth = NoAuthConfig, pc_connect_timeout = 1, pc_timeout = 1, pc_idle_timeout = 1\<rparr>,
      cp_read_timeout = 1, cp_extra_headers = []\<rparr>"

definition example_net :: net where
  "example_net = \<lparr>nt_join = (\<lambda>b p. Inr (b @ p)), nt_show = show_nat, nt_send = (\<lambda>_. TimesOut)\<rparr>"

theorem images_never_reach_a_provider_witness:
  "\<exists>e. provider_call example_net example_provider
        (request_default\<lparr>cr_messages := [UserMessage [ImageBlock \<lparr>im_data = [], im_media_type = ''image/png''\<rparr>]]\<rparr>) = Inl e
     \<and> e = UnsupportedFeature ''image input''"
proof -
  let ?req = "request_default\<lparr>cr_messages := [UserMessage [ImageBlock \<lparr>im_data = [], im_media_type = ''image/png''\<rparr>]]\<rparr>"
  have "cp_codec example_provider \<in> set (provider_codecs (\<lambda>_. ''{}'') (\<lambda>_. Inr JNull) ''openai'')"
    and "list_ex (\<lambda>m. list_ex is_image (message_content m)) (cr_messages ?req)"
    and "\<forall>m \<in> set (cr_messages ?req). message_validate m = None"
    by (simp_all add: example_provider_def provider_codecs_def request_default_def)
  then show ?thesis
    using images_never_reach_a_provider [where p = example_provider and req = ?req and nt = example_net
        and print = "\<lambda>_. ''{}''" and parse = "\<lambda>_. Inr JNull" and provider = "''openai''"] by blast
qed

end
