(* ===== verification/Agent_Context.thy ===== *)
theory Agent_Context
  imports Llm_Core Utf8 "HOL-Library.Word"
begin

text \<open>
  The context window of the agent (\<open>lellm-agent/src/runtime/context\<close>): the token estimate
  (\<open>estimation.rs\<close>), the budget (\<open>budget.rs\<close>) and the sliding-window compactor
  (\<open>compactor.rs\<close>, \<open>local_compactor.rs\<close>).

  The two products of \<open>f32\<close> values are computed as IEEE 754 does, on scaled natural numbers:
  \<open>round24\<close> rounds to 24 significant bits, half to even. A float field is its bit pattern.
  \<open>alnum\<close> stands for the Unicode tables of \<open>char::is_alphabetic\<close> and \<open>char::is_numeric\<close>,
  \<open>print\<close> for the JSON printer.
\<close>

section \<open>Characters of a string\<close>

fun utf8_chars :: "string \<Rightarrow> string list" where
  "utf8_chars [] = []"
| "utf8_chars (c # s) = (let n = fst (utf8_unit c s) in (c # take n s) # utf8_chars (drop n s))"

definition chars_count :: "string \<Rightarrow> nat" where
  "chars_count s = length (utf8_chars s)"

definition chars_take :: "nat \<Rightarrow> string \<Rightarrow> string" where
  "chars_take n s = concat (take n (utf8_chars s))"

lemma concat_utf8_chars [simp]: "concat (utf8_chars s) = s"
  by (induction s rule: utf8_chars.induct) (simp_all add: Let_def)

lemma chars_take_prefix: "\<exists>rest. s = chars_take n s @ rest"
  by (metis append_take_drop_id chars_take_def concat_append concat_utf8_chars)

lemma chars_take_all [simp]: "chars_count s \<le> n \<Longrightarrow> chars_take n s = s"
  by (simp add: chars_take_def chars_count_def)

section \<open>Single-precision products\<close>

fun bit_length :: "nat \<Rightarrow> nat" where
  "bit_length n = (if n = 0 then 0 else Suc (bit_length (n div 2)))"

declare bit_length.simps [simp del]

definition round24 :: "nat \<Rightarrow> nat" where
  "round24 m =
     (if bit_length m \<le> 24 then m
      else
        let k = bit_length m - 24; q = m div 2 ^ k; r = m mod 2 ^ k; half = 2 ^ (k - 1)
        in (if half < r \<or> half = r \<and> odd q then Suc q else q) * 2 ^ k)"

text \<open>\<open>(raw as f32 * 1.1).ceil() as usize\<close>: the literal is \<open>9227469 / 2\<^sup>2\<^sup>3\<close>.\<close>

definition with_margin :: "nat \<Rightarrow> nat" where
  "with_margin raw = min usize_max ((round24 (round24 raw * 9227469) + (2 ^ 23 - 1)) div 2 ^ 23)"

text \<open>\<open>(n as f32 * f) as usize\<close> for the float \<open>f\<close> of a bit pattern.\<close>

definition scaled_to_usize :: "nat \<Rightarrow> 32 word \<Rightarrow> nat" where
  "scaled_to_usize n f =
     (let b = unat f; e = b div 2 ^ 23 mod 256; frac = b mod 2 ^ 23 in
      if e = 255 then (if frac = 0 \<and> b < 2 ^ 31 \<and> n \<noteq> 0 then usize_max else 0)
      else if 2 ^ 31 \<le> b then 0
      else
        let m = (if e = 0 then frac else 2 ^ 23 + frac); x = (if e = 0 then 1 else e);
            p = round24 (round24 n * m)
        in min usize_max (if 150 \<le> x then p * 2 ^ (x - 150) else p div 2 ^ (150 - x)))"

section \<open>Estimation\<close>

definition is_ascii :: "string \<Rightarrow> bool" where
  "is_ascii ch = list_all (\<lambda>c. byte c < 128) ch"

definition raw_tokens :: "(string \<Rightarrow> bool) \<Rightarrow> string \<Rightarrow> nat" where
  "raw_tokens alnum s =
     (let cs = utf8_chars s;
          ascii = length (filter is_ascii cs);
          cjk = 5 * length (filter (\<lambda>ch. \<not> is_ascii ch \<and> alnum ch) cs);
          rest = length (filter (\<lambda>ch. \<not> is_ascii ch \<and> \<not> alnum ch) cs)
      in ascii div 4 + cjk div 2 + rest)"

definition estimate_text :: "(string \<Rightarrow> bool) \<Rightarrow> string \<Rightarrow> nat" where
  "estimate_text alnum s = with_margin (raw_tokens alnum s)"

definition estimate_reasoning_block :: "(string \<Rightarrow> bool) \<Rightarrow> thinking_block \<Rightarrow> nat" where
  "estimate_reasoning_block alnum th = estimate_text alnum (th_thinking th)
     + (case th_redacted th of None \<Rightarrow> 0 | Some r \<Rightarrow> estimate_text alnum r)"

fun estimate_block :: "(string \<Rightarrow> bool) \<Rightarrow> (json \<Rightarrow> string) \<Rightarrow> content_block \<Rightarrow> nat" where
  "estimate_block alnum print (TextBlock t) = estimate_text alnum (tb_text t)"
| "estimate_block alnum print (ThinkingBlock th) = estimate_reasoning_block alnum th"
| "estimate_block alnum print (ImageBlock _) = 1000"
| "estimate_block alnum print (ToolCallBlock tc) =
     6 + estimate_text alnum (tc_id tc) + estimate_text alnum (tc_name tc)
       + estimate_text alnum (print (tc_arguments tc))"

fun estimate_message :: "(string \<Rightarrow> bool) \<Rightarrow> (json \<Rightarrow> string) \<Rightarrow> message \<Rightarrow> nat" where
  "estimate_message alnum print (ToolResultMessage i _ c) =
     4 + estimate_text alnum i + sum_list (map (estimate_block alnum print) c)"
| "estimate_message alnum print m = 4 + sum_list (map (estimate_block alnum print) (message_content m))"

definition estimate_tokens :: "(string \<Rightarrow> bool) \<Rightarrow> (json \<Rightarrow> string) \<Rightarrow> message list \<Rightarrow> nat" where
  "estimate_tokens alnum print ms = sum_list (map (estimate_message alnum print) ms)"

section \<open>Budget\<close>

record context_budget =
  cb_max_tokens :: nat
  cb_warning_ratio :: "32 word"
  cb_keep_recent_turns :: nat
  cb_max_tool_result_chars :: nat

text \<open>\<open>0x3F4CCCCD\<close> is \<open>0.8\<close>.\<close>

definition context_budget_default :: context_budget where
  "context_budget_default = \<lparr>cb_max_tokens = 128000, cb_warning_ratio = 0x3F4CCCCD,
     cb_keep_recent_turns = 5, cb_max_tool_result_chars = 4096\<rparr>"

definition should_compact :: "context_budget \<Rightarrow> nat \<Rightarrow> bool" where
  "should_compact b current \<longleftrightarrow> current > scaled_to_usize (cb_max_tokens b) (cb_warning_ratio b)"

definition truncate_tool_result :: "context_budget \<Rightarrow> string \<Rightarrow> string" where
  "truncate_tool_result b t =
     (if chars_count t \<le> cb_max_tool_result_chars b then t
      else chars_take (cb_max_tool_result_chars b) t @ CHR 0x0A # ''[truncated, original ''
             @ show_nat (chars_count t) @ '' chars]'')"

fun truncate_block :: "context_budget \<Rightarrow> content_block \<Rightarrow> content_block" where
  "truncate_block b (TextBlock t) =
     (let truncated = truncate_tool_result b (tb_text t) in
      if truncated \<noteq> tb_text t then TextBlock \<lparr>tb_text = truncated, tb_cache = None\<rparr> else TextBlock t)"
| "truncate_block b blk = blk"

definition truncate_tool_result_blocks :: "context_budget \<Rightarrow> content_block list \<Rightarrow> content_block list" where
  "truncate_tool_result_blocks b = map (truncate_block b)"

section \<open>Turns\<close>

fun is_system :: "message \<Rightarrow> bool" where
  "is_system (SystemMessage _) \<longleftrightarrow> True"
| "is_system _ \<longleftrightarrow> False"

fun is_tool_result :: "message \<Rightarrow> bool" where
  "is_tool_result (ToolResultMessage _ _ _) \<longleftrightarrow> True"
| "is_tool_result _ \<longleftrightarrow> False"

text \<open>The loop of \<open>extract_turns\<close>: the turns so far and the current turn.\<close>

definition close_turn :: "message list list \<Rightarrow> message list \<Rightarrow> message list list" where
  "close_turn turns current = (if current = [] then turns else turns @ [current])"

fun turn_step :: "message \<Rightarrow> message list list \<times> message list \<Rightarrow> message list list \<times> message list" where
  "turn_step (AssistantMessage c) (turns, current) = (close_turn turns current, [AssistantMessage c])"
| "turn_step (ToolResultMessage i e c) (turns, current) = (turns, current @ [ToolResultMessage i e c])"
| "turn_step (UserMessage c) (turns, current) =
     (if current = [] then (turns, [UserMessage c]) else (turns @ [current], [UserMessage c]))"
| "turn_step (SystemMessage c) (turns, current) = (turns, current)"

definition extract_turns :: "message list \<Rightarrow> message list list" where
  "extract_turns ms = (case fold turn_step ms ([], []) of (turns, current) \<Rightarrow> close_turn turns current)"

section \<open>Summary\<close>

definition ellipsis :: string where
  "ellipsis = [CHR 0xE2, CHR 0x80, CHR 0xA6]"

definition truncate_chars :: "string \<Rightarrow> nat \<Rightarrow> string" where
  "truncate_chars s limit =
     (let count = chars_count s in
      if count \<le> limit then s
      else chars_take limit s @ ellipsis @ '' ('' @ show_nat count @ '' chars)'')"

fun summary_lines :: "(json \<Rightarrow> string) \<Rightarrow> message \<Rightarrow> string list" where
  "summary_lines print (AssistantMessage c) =
     (let texts = block_texts c in
      (if texts \<noteq> [] then [''  Assistant: '' @ truncate_chars (join_with '' '' texts) 200] else [])
      @ map (\<lambda>tc. ''  Tool('' @ tc_name tc @ ''): '' @ truncate_chars (print (tc_arguments tc)) 100)
          (extract_tool_calls (AssistantMessage c)))"
| "summary_lines print (ToolResultMessage _ is_error c) =
     [''  '' @ (if is_error then ''ERROR'' else ''OK'') @ '' Result: ''
        @ truncate_chars (join_with '' '' (block_texts c)) 100]"
| "summary_lines print (UserMessage c) = [''  User: '' @ truncate_chars (join_with '' '' (block_texts c)) 200]"
| "summary_lines print (SystemMessage _) = []"

definition summarize_turns :: "(json \<Rightarrow> string) \<Rightarrow> message list list \<Rightarrow> string" where
  "summarize_turns print turns =
     (let lines = concat (map (summary_lines print) (concat turns)) in
      if lines = [] then []
      else ''[Compressed '' @ show_nat (length turns) @ '' turns]'' @ CHR 0x0A # join_with [CHR 0x0A] lines)"

section \<open>Compaction\<close>

record compaction_result =
  cp_messages :: "message list"
  cp_before_tokens :: nat
  cp_after_tokens :: nat
  cp_removed :: nat

definition local_compact ::
  "(string \<Rightarrow> bool) \<Rightarrow> (json \<Rightarrow> string) \<Rightarrow> message list \<Rightarrow> context_budget \<Rightarrow> compaction_result" where
  "local_compact alnum print ms b =
     (let before = estimate_tokens alnum print ms;
          systems = filter is_system ms;
          turns = extract_turns (filter (\<lambda>m. \<not> is_system m) ms);
          keep = cb_keep_recent_turns b
      in if length turns \<le> keep then
           \<lparr>cp_messages = ms, cp_before_tokens = before, cp_after_tokens = before, cp_removed = 0\<rparr>
         else
           let recent = drop (length turns - keep) turns;
               summary = summarize_turns print (take (length turns - keep) turns);
               kept = systems
                 @ (if summary \<noteq> [] then [SystemMessage (text_blocks (''[Previous conversation summary]'' @ CHR 0x0A # summary))]
                    else [])
                 @ concat recent
           in \<lparr>cp_messages = kept, cp_before_tokens = before, cp_after_tokens = estimate_tokens alnum print kept,
               cp_removed = length ms - length kept\<rparr>)"

section \<open>The estimate\<close>

lemma bit_length_bounds: "m \<noteq> 0 \<Longrightarrow> 2 ^ (bit_length m - 1) \<le> m \<and> m < 2 ^ bit_length m"
proof (induction m rule: bit_length.induct)
  case (1 n)
  show ?case
  proof (cases "n div 2 = 0")
    case True
    with 1(2) have "n = 1" by simp
    then show ?thesis by (simp add: bit_length.simps)
  next
    case False
    let ?h = "n div 2"
    have ih: "2 ^ (bit_length ?h - 1) \<le> ?h" "?h < 2 ^ bit_length ?h" using 1 False by auto
    have len: "bit_length n = Suc (bit_length ?h)" using 1(2) by (simp add: bit_length.simps [of n])
    have pos: "0 < bit_length ?h" using False by (subst bit_length.simps) simp
    then have "2 ^ bit_length ?h = 2 * (2 :: nat) ^ (bit_length ?h - 1)"
      by (metis Suc_pred' power_Suc)
    with ih len show ?thesis by simp linarith
  qed
qed

lemma round24_error:
  defines "e m \<equiv> (2 :: nat) ^ (bit_length m - 25)"
  shows "m \<le> round24 m + e m \<and> round24 m \<le> m + e m \<or> round24 m = m"
proof (cases "bit_length m \<le> 24")
  case False
  let ?k = "bit_length m - 24"
  let ?q = "m div 2 ^ ?k" and ?r = "m mod 2 ^ ?k" and ?h = "2 ^ (?k - 1) :: nat"
  have k: "2 ^ ?k = 2 * ?h" using False by (cases ?k) auto
  have h: "e m = ?h" by (simp add: e_def)
  have m: "m = ?q * 2 ^ ?k + ?r" by (rule div_mult_mod_eq [symmetric])
  have r: "?r < 2 ^ ?k" by simp
  show ?thesis
  proof (cases "?h < ?r \<or> ?h = ?r \<and> odd ?q")
    case True
    then have "round24 m = ?q * 2 ^ ?k + 2 ^ ?k" using False by (simp add: round24_def Let_def)
    with True m r k h show ?thesis by linarith
  next
    case up: False
    then have "round24 m = ?q * 2 ^ ?k" using False by (auto simp: round24_def Let_def)
    with up m r k h show ?thesis by linarith
  qed
qed (simp add: round24_def)

lemma round24_lower: "m * (2 ^ 24 - 1) \<le> round24 m * 2 ^ 24"
proof (cases "bit_length m \<le> 24")
  case False
  then have "m \<noteq> 0" by (intro notI) (simp add: bit_length.simps)
  have "2 ^ 24 * 2 ^ (bit_length m - 25) = (2 :: nat) ^ (bit_length m - 1)"
    using False by (subst power_add [symmetric]) simp
  with bit_length_bounds [OF \<open>m \<noteq> 0\<close>] have "2 ^ 24 * 2 ^ (bit_length m - 25) \<le> m" by simp
  with round24_error [of m] show ?thesis by simp linarith
qed (simp add: round24_def)

text \<open>The safety margin covers both roundings: the estimate is never below the raw count.\<close>

lemma with_margin_lower: "min raw usize_max \<le> with_margin raw"
proof -
  have "raw * (2 ^ 24 - 1) * 9227469 * (2 ^ 24 - 1) \<le> round24 raw * 9227469 * (2 ^ 24 - 1) * 2 ^ 24"
    using round24_lower [of raw] by simp
  also have "\<dots> \<le> round24 (round24 raw * 9227469) * 2 ^ 24 * 2 ^ 24"
    using round24_lower [of "round24 raw * 9227469"] by simp
  finally have "raw * 2 ^ 23 \<le> round24 (round24 raw * 9227469)" by simp
  then have "raw * 2 ^ 23 div 2 ^ 23 \<le> (round24 (round24 raw * 9227469) + (2 ^ 23 - 1)) div 2 ^ 23"
    by (intro div_le_mono) simp
  then show ?thesis by (simp add: with_margin_def min_def)
qed

section \<open>Truncation\<close>

lemma truncate_tool_result_keeps_short [simp]:
  "chars_count t \<le> cb_max_tool_result_chars b \<Longrightarrow> truncate_tool_result b t = t"
  by (simp add: truncate_tool_result_def)

lemma truncate_block_other [simp]: "as_text blk = None \<Longrightarrow> truncate_block b blk = blk"
  by (cases blk) simp_all

section \<open>Turns\<close>

lemma concat_close_turn [simp]: "concat (close_turn turns current) = concat turns @ current"
  by (simp add: close_turn_def)

definition turns_ok :: "message list list \<times> message list \<Rightarrow> bool" where
  "turns_ok tc = (case tc of (turns, current) \<Rightarrow>
     (turns \<noteq> [] \<longrightarrow> current \<noteq> [])
     \<and> list_all (\<lambda>t. t \<noteq> [] \<and> \<not> is_tool_result (hd t)) (drop 1 (turns @ [current])))"

lemma turn_step_ok: "turns_ok tc \<Longrightarrow> turns_ok (turn_step m tc)"
proof -
  assume ok: "turns_ok tc"
  obtain turns current where tc: "tc = (turns, current)" by fastforce
  show "turns_ok (turn_step m tc)"
    using ok unfolding tc
    by (cases m; cases turns; cases current) (auto simp: turns_ok_def close_turn_def)
qed

lemma turn_step_concat:
  "\<not> is_system m \<Longrightarrow> turn_step m (turns, current) = (turns', current') \<Longrightarrow>
     concat turns' @ current' = concat turns @ current @ [m]"
  by (cases m) (auto split: if_splits)

lemma fold_turns_concat:
  "list_all (\<lambda>m. \<not> is_system m) ms \<Longrightarrow> fold turn_step ms (turns, current) = (turns', current') \<Longrightarrow>
     concat turns' @ current' = concat turns @ current @ ms"
proof (induction ms arbitrary: turns current)
  case (Cons m ms)
  obtain t c where s: "turn_step m (turns, current) = (t, c)" by fastforce
  have "concat t @ c = concat turns @ current @ [m]" using turn_step_concat [OF _ s] Cons by simp
  with Cons s show ?case by fastforce
qed simp

text \<open>A conversation is its turns in order, and no turn after the first starts with a tool result.\<close>

lemma extract_turns_concat: "list_all (\<lambda>m. \<not> is_system m) ms \<Longrightarrow> concat (extract_turns ms) = ms"
  using fold_turns_concat [of ms "[]" "[]"] by (auto simp: extract_turns_def split: prod.splits)

lemma extract_turns_heads:
  "list_all (\<lambda>t. t \<noteq> [] \<and> \<not> is_tool_result (hd t)) (drop 1 (extract_turns ms))"
proof -
  have "turns_ok (fold turn_step ms tc)" if "turns_ok tc" for tc
    using that by (induction ms arbitrary: tc) (simp_all add: turn_step_ok del: split_paired_All)
  from this [of "([], [])"] show ?thesis
    by (cases "fold turn_step ms ([], [])") (auto simp: turns_ok_def extract_turns_def close_turn_def)
qed

section \<open>The tool protocol\<close>

text \<open>
  Every tool call of an assistant message is answered by one tool result that follows it,
  before any other message; \<open>ids\<close> are the calls still to be answered.
\<close>

fun protocol :: "string list \<Rightarrow> message list \<Rightarrow> bool" where
  "protocol ids [] \<longleftrightarrow> ids = []"
| "protocol ids (ToolResultMessage i _ _ # ms) \<longleftrightarrow> i \<in> set ids \<and> protocol (remove1 i ids) ms"
| "protocol ids (AssistantMessage c # ms) \<longleftrightarrow>
     ids = [] \<and> protocol (map tc_id (extract_tool_calls (AssistantMessage c))) ms"
| "protocol ids (UserMessage _ # ms) \<longleftrightarrow> ids = [] \<and> protocol [] ms"
| "protocol ids (SystemMessage _ # ms) \<longleftrightarrow> ids = [] \<and> protocol [] ms"

lemma protocol_conversation: "protocol ids ms \<Longrightarrow> protocol ids (filter (\<lambda>m. \<not> is_system m) ms)"
  by (induction ids ms rule: protocol.induct) auto

lemma protocol_systems: "list_all is_system ss \<Longrightarrow> protocol [] (ss @ ms) \<longleftrightarrow> protocol [] ms"
proof (induction ss)
  case (Cons m ss)
  then show ?case by (cases m) auto
qed simp

lemma protocol_suffix:
  "protocol ids (xs @ ys) \<Longrightarrow> ys \<noteq> [] \<Longrightarrow> \<not> is_tool_result (hd ys) \<Longrightarrow> protocol [] ys"
proof (induction ids xs rule: protocol.induct)
  case (1 ids)
  then show ?case by (cases ys; cases "hd ys") auto
qed auto

text \<open>What a compaction keeps of the conversation: whole turns from its end.\<close>

definition kept_turns :: "context_budget \<Rightarrow> message list \<Rightarrow> message list list" where
  "kept_turns b ms = (let turns = extract_turns (filter (\<lambda>m. \<not> is_system m) ms)
     in drop (length turns - cb_keep_recent_turns b) turns)"

lemma kept_turns_suffix:
  "\<exists>old. filter (\<lambda>m. \<not> is_system m) ms = old @ concat (kept_turns b ms)"
proof -
  let ?conv = "filter (\<lambda>m. \<not> is_system m) ms"
  have "concat (extract_turns ?conv) = ?conv" by (rule extract_turns_concat) (simp add: list_all_iff)
  then show ?thesis
    by (metis (no_types) append_take_drop_id concat_append kept_turns_def)
qed

lemma kept_turns_head:
  assumes "cb_keep_recent_turns b < length (extract_turns (filter (\<lambda>m. \<not> is_system m) ms))"
    "concat (kept_turns b ms) \<noteq> []"
  shows "\<not> is_tool_result (hd (concat (kept_turns b ms)))"
proof -
  let ?turns = "extract_turns (filter (\<lambda>m. \<not> is_system m) ms)"
  let ?d = "length ?turns - cb_keep_recent_turns b"
  have "?d = Suc (?d - 1)" using assms(1) by simp
  then have "drop ?d ?turns = drop (?d - 1) (drop 1 ?turns)" by (metis drop_drop plus_1_eq_Suc add.commute)
  then have k: "kept_turns b ms = drop (?d - 1) (drop 1 ?turns)" by (simp only: kept_turns_def Let_def)
  with assms(2) obtain t ts where t: "kept_turns b ms = t # ts" by (metis concat.simps(1) list.exhaust)
  then have "t \<in> set (drop 1 ?turns)" by (metis k in_set_dropD list.set_intros(1))
  then have "t \<noteq> [] \<and> \<not> is_tool_result (hd t)" using extract_turns_heads by (auto simp: list_all_iff)
  with t show ?thesis by simp
qed

lemma local_compact_messages:
  assumes "cb_keep_recent_turns b < length (extract_turns (filter (\<lambda>m. \<not> is_system m) ms))"
  obtains s where "cp_messages (local_compact alnum print ms b) = filter is_system ms @ s @ concat (kept_turns b ms)"
    "length s \<le> 1" "list_all is_system s"
  using assms by (auto simp: local_compact_def kept_turns_def Let_def not_le split: if_splits)

section \<open>Properties\<close>

lemma protocol_compacted: "protocol [] ms \<Longrightarrow> protocol [] (cp_messages (local_compact alnum print ms b))"
proof (cases "cb_keep_recent_turns b < length (extract_turns (filter (\<lambda>m. \<not> is_system m) ms))")
  case True
  assume ok: "protocol [] ms"
  obtain s where s: "cp_messages (local_compact alnum print ms b) = filter is_system ms @ s @ concat (kept_turns b ms)"
      "list_all is_system s"
    using local_compact_messages [OF True] by metis
  have "protocol [] (concat (kept_turns b ms))"
    using kept_turns_suffix [of ms b] kept_turns_head [OF True] protocol_conversation [OF ok]
    by (cases "concat (kept_turns b ms) = []") (auto dest: protocol_suffix simp del: concat_eq_Nil_conv)
  with s show ?thesis by (simp add: protocol_systems list_all_iff)
qed (simp add: local_compact_def Let_def)

text \<open>
  C37: Compaction never separates a tool call from its results. A history in which every
  call of an assistant message is answered by the tool results right after it is still one
  after \<open>LocalCompactor::compact\<close>; all its system messages are kept in order, and
  of the rest exactly the last \<open>keep_recent_turns\<close> turns, unchanged, with at most one new
  system message (the summary) before them; with no more turns than that nothing changes.
\<close>

theorem compaction_keeps_tool_rounds:
  assumes "protocol [] ms"
  shows "protocol [] (cp_messages (local_compact alnum print ms b))
    \<and> (if length (extract_turns (filter (\<lambda>m. \<not> is_system m) ms)) \<le> cb_keep_recent_turns b
       then cp_messages (local_compact alnum print ms b) = ms
       else \<exists>old s. filter (\<lambda>m. \<not> is_system m) ms = old @ concat (kept_turns b ms)
              \<and> length (kept_turns b ms) = cb_keep_recent_turns b
              \<and> length s \<le> 1 \<and> list_all is_system s
              \<and> cp_messages (local_compact alnum print ms b) = filter is_system ms @ s @ concat (kept_turns b ms))"
proof (cases "length (extract_turns (filter (\<lambda>m. \<not> is_system m) ms)) \<le> cb_keep_recent_turns b")
  case False
  then have less: "cb_keep_recent_turns b < length (extract_turns (filter (\<lambda>m. \<not> is_system m) ms))" by simp
  then have "length (kept_turns b ms) = cb_keep_recent_turns b" by (simp add: kept_turns_def Let_def)
  with False show ?thesis
    using protocol_compacted [OF assms] kept_turns_suffix [of ms b] local_compact_messages [OF less] by metis
qed (use assms in \<open>simp add: local_compact_def Let_def\<close>)

definition sample_history :: "message list" where
  "sample_history =
     [SystemMessage [], UserMessage (text_blocks ''a''),
      AssistantMessage [ToolCallBlock \<lparr>tc_id = ''i'', tc_name = ''t'', tc_arguments = JNull\<rparr>],
      ToolResultMessage ''i'' False [], UserMessage [], AssistantMessage []]"

lemma compaction_keeps_tool_rounds_witness:
  "protocol [] (cp_messages (local_compact (\<lambda>_. False) (\<lambda>_. ''null'') sample_history
     (context_budget_default\<lparr>cb_keep_recent_turns := 2\<rparr>)))"
  using compaction_keeps_tool_rounds [of sample_history "\<lambda>_. False" "\<lambda>_. ''null''" "context_budget_default\<lparr>cb_keep_recent_turns := 2\<rparr>"]
  by (simp add: sample_history_def List.map_filter_def)

text \<open>The estimate of a text is at least its raw count.\<close>

lemma estimate_covers_raw: "min (raw_tokens alnum s) usize_max \<le> estimate_text alnum s"
  by (simp only: estimate_text_def with_margin_lower)

end
