(* ===== verification/Agent_State.thy ===== *)
theory Agent_State
  imports State_Core Agent_Context
begin

text \<open>
  The state of the agent (\<open>lellm-agent/src/runtime/typed_state.rs\<close>): its fields, the mutations
  that change it, the checkpoint projection, and the strategy that merges the states of parallel
  branches (\<open>typed_state_merge.rs\<close>), an instance of the locale \<open>merge_strategy\<close>.

  Counters are \<open>usize\<close>; the model adds natural numbers, and only the merge, which checks, has a bound.
\<close>

datatype stop_reason =
    CompleteReason
  | MaxIterationsReached
  | CancelledReason
  | OutputBudgetExceeded
  | ReasoningBudgetExceeded

record agent_state =
  as_messages :: "message list"
  as_iterations :: nat
  as_tool_calls :: nat
  as_output_tokens :: nat
  as_reasoning_tokens :: nat
  as_compact_count :: nat
  as_stop :: "stop_reason option"
  as_response :: "chat_response option"

definition from_messages :: "message list \<Rightarrow> agent_state" where
  "from_messages ms = \<lparr>as_messages = ms, as_iterations = 0, as_tool_calls = 0, as_output_tokens = 0,
     as_reasoning_tokens = 0, as_compact_count = 0, as_stop = None, as_response = None\<rparr>"

definition estimated_context_tokens :: "(string \<Rightarrow> bool) \<Rightarrow> (json \<Rightarrow> string) \<Rightarrow> agent_state \<Rightarrow> nat" where
  "estimated_context_tokens alnum print s = estimate_tokens alnum print (as_messages s)"

definition reached_max :: "nat \<Rightarrow> agent_state \<Rightarrow> bool" where
  "reached_max n s \<longleftrightarrow> as_iterations s \<ge> n"

definition exceeded_with_extra :: "nat \<Rightarrow> 32 word option \<Rightarrow> nat \<Rightarrow> bool" where
  "exceeded_with_extra used limit extra \<longleftrightarrow>
     (case limit of None \<Rightarrow> False | Some l \<Rightarrow> used + extra \<ge> unat l)"

definition exceeded_output :: "32 word option \<Rightarrow> agent_state \<Rightarrow> bool" where
  "exceeded_output limit s = exceeded_with_extra (as_output_tokens s) limit 0"

definition exceeded_reasoning :: "32 word option \<Rightarrow> agent_state \<Rightarrow> bool" where
  "exceeded_reasoning limit s = exceeded_with_extra (as_reasoning_tokens s) limit 0"

definition is_terminal :: "agent_state \<Rightarrow> bool" where
  "is_terminal s \<longleftrightarrow> as_stop s \<noteq> None"

section \<open>Mutations\<close>

datatype agent_mutation =
    AppendMessage message
  | AppendMessages "message list"
  | IncrementIteration
  | AddToolCalls nat
  | AddOutputTokens nat
  | AddReasoningTokens nat
  | IncrementCompactCount
  | ReplaceMessages "message list"
  | SetStopReason stop_reason
  | SetLastResponse chat_response

fun agent_apply :: "agent_mutation \<Rightarrow> agent_state \<Rightarrow> agent_state" where
  "agent_apply (AppendMessage m) s = s\<lparr>as_messages := as_messages s @ [m]\<rparr>"
| "agent_apply (AppendMessages ms) s = s\<lparr>as_messages := as_messages s @ ms\<rparr>"
| "agent_apply IncrementIteration s = s\<lparr>as_iterations := as_iterations s + 1\<rparr>"
| "agent_apply (AddToolCalls n) s = s\<lparr>as_tool_calls := as_tool_calls s + n\<rparr>"
| "agent_apply (AddOutputTokens n) s = s\<lparr>as_output_tokens := as_output_tokens s + n\<rparr>"
| "agent_apply (AddReasoningTokens n) s = s\<lparr>as_reasoning_tokens := as_reasoning_tokens s + n\<rparr>"
| "agent_apply IncrementCompactCount s = s\<lparr>as_compact_count := as_compact_count s + 1\<rparr>"
| "agent_apply (ReplaceMessages ms) s = s\<lparr>as_messages := ms\<rparr>"
| "agent_apply (SetStopReason r) s = s\<lparr>as_stop := Some r\<rparr>"
| "agent_apply (SetLastResponse r) s = s\<lparr>as_response := Some r\<rparr>"

section \<open>Checkpoint projection\<close>

record agent_checkpoint =
  ac_messages :: "message list"
  ac_iterations :: nat
  ac_tool_calls :: nat
  ac_output_tokens :: nat
  ac_reasoning_tokens :: nat
  ac_compact_count :: nat
  ac_stop :: "stop_reason option"
  ac_response :: "chat_response option"

definition agent_snapshot :: "agent_state \<Rightarrow> agent_checkpoint" where
  "agent_snapshot s = \<lparr>ac_messages = as_messages s, ac_iterations = as_iterations s,
     ac_tool_calls = as_tool_calls s, ac_output_tokens = as_output_tokens s,
     ac_reasoning_tokens = as_reasoning_tokens s, ac_compact_count = as_compact_count s,
     ac_stop = as_stop s, ac_response = as_response s\<rparr>"

definition agent_restore :: "agent_checkpoint \<Rightarrow> agent_state" where
  "agent_restore c = \<lparr>as_messages = ac_messages c, as_iterations = ac_iterations c,
     as_tool_calls = ac_tool_calls c, as_output_tokens = ac_output_tokens c,
     as_reasoning_tokens = ac_reasoning_tokens c, as_compact_count = ac_compact_count c,
     as_stop = ac_stop c, as_response = ac_response c\<rparr>"

definition agent_ops :: "(agent_state, agent_mutation, agent_checkpoint) workflow_ops" where
  "agent_ops = \<lparr>op_apply = agent_apply, op_snapshot = agent_snapshot, op_restore = agent_restore\<rparr>"

lemma agent_restore_snapshot [simp]: "agent_restore (agent_snapshot s) = s"
  by (simp add: agent_restore_def agent_snapshot_def)

section \<open>Merging parallel branches\<close>

datatype counter_combine = CounterSum | CounterMax

definition is_append :: "message list \<Rightarrow> message list \<Rightarrow> bool" where
  "is_append base bm \<longleftrightarrow> length base \<le> length bm \<and> take (length base) bm = base"

definition agent_conflict :: "string \<Rightarrow> merge_error" where
  "agent_conflict t = OtherMergeError (MergeConflict t)"

definition merge_messages :: "message list \<Rightarrow> agent_state list \<Rightarrow> merge_error + message list" where
  "merge_messages base branches =
     (let bms = map as_messages branches;
          replaced = filter (\<lambda>bm. \<not> is_append base bm) bms;
          appended = filter (\<lambda>bm. is_append base bm \<and> length base < length bm) bms
      in if replaced = [] then Inr (base @ concat (map (drop (length base)) bms))
         else if length replaced = 1 \<and> appended = [] then Inr (last replaced)
         else Inl (agent_conflict ''parallel merge conflict: messages replaced by multiple branches or mixed with appends''))"

fun add_deltas :: "nat \<Rightarrow> nat \<Rightarrow> nat list \<Rightarrow> nat option" where
  "add_deltas base acc [] = Some acc"
| "add_deltas base acc (v # vs) =
     (case usize_checked_add acc (v - base) of None \<Rightarrow> None | Some s \<Rightarrow> add_deltas base s vs)"

definition merge_counter ::
  "nat \<Rightarrow> agent_state list \<Rightarrow> (agent_state \<Rightarrow> nat) \<Rightarrow> counter_combine \<Rightarrow> string \<Rightarrow> merge_error + nat" where
  "merge_counter base branches get combine field =
     (let values = map get branches in
      case filter (\<lambda>v. v \<noteq> base) values of
        [] \<Rightarrow> Inr base
      | [v] \<Rightarrow> Inr v
      | _ \<Rightarrow>
          (if list_ex (\<lambda>v. v < base) values
           then Inl (agent_conflict (''parallel merge conflict: counter '' @ quoted field @ '' reset by multiple branches''))
           else case combine of
             CounterSum \<Rightarrow>
               (case add_deltas base base values of
                  Some s \<Rightarrow> Inr s
                | None \<Rightarrow> Inl (agent_conflict (''counter '' @ quoted field @ '' overflow during parallel merge'')))
           | CounterMax \<Rightarrow> Inr (fold max values 0)))"

definition merge_terminal_pair ::
  "agent_state \<Rightarrow> agent_state list \<Rightarrow> merge_error + stop_reason option \<times> chat_response option" where
  "merge_terminal_pair base branches =
     (case filter (\<lambda>b. as_stop b \<noteq> as_stop base \<or> as_response b \<noteq> as_response base) branches of
        [] \<Rightarrow> Inr (as_stop base, as_response base)
      | [b] \<Rightarrow> Inr (as_stop b, as_response b)
      | _ \<Rightarrow> Inl (agent_conflict ''parallel merge conflict: stop_reason/last_response written by multiple branches''))"

definition agent_merge :: "agent_state \<Rightarrow> agent_state list \<Rightarrow> merge_error + agent_state" where
  "agent_merge base branches =
     (if branches = [] then Inr base else
      case merge_messages (as_messages base) branches of Inl e \<Rightarrow> Inl e | Inr ms \<Rightarrow>
      case merge_counter (as_iterations base) branches as_iterations CounterMax ''iterations'' of Inl e \<Rightarrow> Inl e | Inr it \<Rightarrow>
      case merge_counter (as_tool_calls base) branches as_tool_calls CounterSum ''total_tool_calls'' of Inl e \<Rightarrow> Inl e | Inr tc \<Rightarrow>
      case merge_counter (as_output_tokens base) branches as_output_tokens CounterSum ''output_tokens'' of Inl e \<Rightarrow> Inl e | Inr ot \<Rightarrow>
      case merge_counter (as_reasoning_tokens base) branches as_reasoning_tokens CounterSum ''reasoning_tokens'' of Inl e \<Rightarrow> Inl e | Inr rt \<Rightarrow>
      case merge_counter (as_compact_count base) branches as_compact_count CounterSum ''compact_count'' of Inl e \<Rightarrow> Inl e | Inr cc \<Rightarrow>
      case merge_terminal_pair base branches of Inl e \<Rightarrow> Inl e | Inr (stop, resp) \<Rightarrow>
      Inr \<lparr>as_messages = ms, as_iterations = it, as_tool_calls = tc, as_output_tokens = ot,
           as_reasoning_tokens = rt, as_compact_count = cc, as_stop = stop, as_response = resp\<rparr>)"

subsection \<open>The laws of a merge strategy\<close>

lemma agent_merge_single: "agent_merge base [b] = Inr b"
proof -
  have ms: "merge_messages (as_messages base) [b] = Inr (as_messages b)"
    by (auto simp: merge_messages_def is_append_def Let_def) (metis append_take_drop_id)
  have count: "merge_counter (get base) [b] get combine field = Inr (get b)" for get :: "agent_state \<Rightarrow> nat" and combine field
    by (simp add: merge_counter_def)
  have terminal: "merge_terminal_pair base [b] = Inr (as_stop b, as_response b)"
    by (simp add: merge_terminal_pair_def)
  show ?thesis by (simp add: agent_merge_def ms count terminal)
qed

lemma agent_merge_unchanged:
  assumes "set bs \<subseteq> {base}"
  shows "agent_merge base bs = Inr base"
proof -
  have bs: "bs = replicate (length bs) base" using assms by (metis replicate_length_same subset_singletonD empty_iff insert_iff subsetD)
  have ms: "merge_messages (as_messages base) bs = Inr (as_messages base)"
    by (subst bs) (simp add: merge_messages_def is_append_def Let_def filter_replicate)
  have count: "merge_counter (get base) bs get combine field = Inr (get base)" for get :: "agent_state \<Rightarrow> nat" and combine field
    by (subst bs) (simp add: merge_counter_def Let_def filter_replicate)
  have terminal: "merge_terminal_pair base bs = Inr (as_stop base, as_response base)"
    by (subst bs) (simp add: merge_terminal_pair_def filter_replicate)
  show ?thesis by (simp add: agent_merge_def ms count terminal)
qed

interpretation agent_branches: merge_strategy agent_merge "(=)" "\<lambda>_. True"
  by unfold_locales (auto simp: agent_merge_single agent_merge_unchanged)

subsection \<open>Merging what independent branches add\<close>

text \<open>The mutations that only add to the history and to the counters that are summed.\<close>

fun additive :: "agent_mutation \<Rightarrow> bool" where
  "additive (AppendMessage _) \<longleftrightarrow> True"
| "additive (AppendMessages _) \<longleftrightarrow> True"
| "additive (AddToolCalls _) \<longleftrightarrow> True"
| "additive (AddOutputTokens _) \<longleftrightarrow> True"
| "additive (AddReasoningTokens _) \<longleftrightarrow> True"
| "additive IncrementCompactCount \<longleftrightarrow> True"
| "additive _ \<longleftrightarrow> False"

text \<open>What a sequence of mutations adds: the messages, and the four sums.\<close>

fun added_messages :: "agent_mutation \<Rightarrow> message list" where
  "added_messages (AppendMessage m) = [m]"
| "added_messages (AppendMessages ms) = ms"
| "added_messages _ = []"

fun added_count :: "(agent_state \<Rightarrow> nat) \<Rightarrow> agent_mutation \<Rightarrow> nat" where
  "added_count get m = get (agent_apply m (from_messages []))"

definition grown :: "agent_mutation list \<Rightarrow> agent_state \<Rightarrow> agent_state" where
  "grown ms s = s\<lparr>as_messages := as_messages s @ concat (map added_messages ms),
     as_tool_calls := as_tool_calls s + sum_list (map (added_count as_tool_calls) ms),
     as_output_tokens := as_output_tokens s + sum_list (map (added_count as_output_tokens) ms),
     as_reasoning_tokens := as_reasoning_tokens s + sum_list (map (added_count as_reasoning_tokens) ms),
     as_compact_count := as_compact_count s + sum_list (map (added_count as_compact_count) ms)\<rparr>"

lemma apply_additive: "list_all additive ms \<Longrightarrow> apply_batch agent_ops ms s = grown ms s"
proof (induction ms arbitrary: s)
  case Nil
  show ?case by (simp add: apply_batch_def grown_def)
next
  case (Cons m ms)
  have "apply_batch agent_ops (m # ms) s = apply_batch agent_ops ms (agent_apply m s)"
    by (simp add: apply_batch_def agent_ops_def)
  also have "\<dots> = grown ms (agent_apply m s)" using Cons by simp
  also have "\<dots> = grown (m # ms) s"
    using Cons.prems by (cases m) (simp_all add: grown_def from_messages_def)
  finally show ?case .
qed

lemma add_deltas_sum:
  "acc + sum_list ds \<le> usize_max \<Longrightarrow> add_deltas base acc (map ((+) base) ds) = Some (acc + sum_list ds)"
  by (induction ds arbitrary: acc) (simp_all add: usize_checked_add_def)

lemma sum_list_filter_pos: "sum_list (filter (\<lambda>d. d \<noteq> 0) ds) = sum_list (ds :: nat list)"
  by (induction ds) simp_all

lemma merge_counter_sum:
  assumes "map get branches = map ((+) base) ds" "base + sum_list ds \<le> usize_max"
  shows "merge_counter base branches get CounterSum field = Inr (base + sum_list ds)"
proof -
  have f: "filter (\<lambda>v. v \<noteq> base) (map ((+) base) ds) = map ((+) base) (filter (\<lambda>d. d \<noteq> 0) ds)"
    by (induction ds) simp_all
  have low: "\<not> list_ex (\<lambda>v. v < base) (map ((+) base) ds)" by (simp add: list_ex_iff)
  show ?thesis
  proof (cases "filter (\<lambda>d. d \<noteq> 0) ds" rule: remdups_adj.cases)
    case 1
    with f sum_list_filter_pos [of ds] show ?thesis by (simp add: merge_counter_def assms(1))
  next
    case (2 d)
    with f sum_list_filter_pos [of ds] show ?thesis by (simp add: merge_counter_def assms(1))
  next
    case (3 d d' rest)
    with f low add_deltas_sum [OF assms(2)] show ?thesis
      by (simp add: merge_counter_def assms(1) Let_def)
  qed
qed

lemma merge_counter_same:
  assumes "map get branches = map (\<lambda>_. base) xs"
  shows "merge_counter base branches get combine field = Inr base"
  by (simp add: merge_counter_def assms filter_empty_conv)

lemma merge_messages_append:
  assumes "map as_messages branches = map ((@) base) exts"
  shows "merge_messages base branches = Inr (base @ concat exts)"
  using assms by (simp add: merge_messages_def Let_def is_append_def filter_empty_conv comp_def)

lemma merge_terminal_same:
  assumes "\<forall>b \<in> set branches. as_stop b = as_stop base \<and> as_response b = as_response base"
  shows "merge_terminal_pair base branches = Inr (as_stop base, as_response base)"
proof -
  have "filter (\<lambda>b. as_stop b \<noteq> as_stop base \<or> as_response b \<noteq> as_response base) branches = []"
    using assms by (auto simp: filter_empty_conv)
  then show ?thesis by (simp add: merge_terminal_pair_def)
qed

lemma sum_list_concat_map: "sum_list (map f (concat mss)) = sum_list (map (\<lambda>ms. sum_list (map f ms)) mss)"
  for f :: "'a \<Rightarrow> nat"
  by (induction mss) simp_all

lemma concat_concat_map: "concat (concat (map f xs)) = concat (map (\<lambda>x. concat (f x)) xs)"
  by (induction xs) simp_all

lemma agent_merge_grown:
  assumes small: "as_tool_calls (grown (concat mss) base) \<le> usize_max" "as_output_tokens (grown (concat mss) base) \<le> usize_max"
      "as_reasoning_tokens (grown (concat mss) base) \<le> usize_max" "as_compact_count (grown (concat mss) base) \<le> usize_max"
  shows "agent_merge base (map (\<lambda>ms. grown ms base) mss) = Inr (grown (concat mss) base)"
proof -
  let ?bs = "map (\<lambda>ms. grown ms base) mss"
  have ms: "merge_messages (as_messages base) ?bs = Inr (as_messages (grown (concat mss) base))"
    by (subst merge_messages_append [where exts = "map (\<lambda>ms. concat (map added_messages ms)) mss"])
      (simp_all add: grown_def map_concat concat_concat_map)
  have counts: "merge_counter (as_tool_calls base) ?bs as_tool_calls CounterSum f = Inr (as_tool_calls (grown (concat mss) base))"
    "merge_counter (as_output_tokens base) ?bs as_output_tokens CounterSum f = Inr (as_output_tokens (grown (concat mss) base))"
    "merge_counter (as_reasoning_tokens base) ?bs as_reasoning_tokens CounterSum f = Inr (as_reasoning_tokens (grown (concat mss) base))"
    "merge_counter (as_compact_count base) ?bs as_compact_count CounterSum f = Inr (as_compact_count (grown (concat mss) base))" for f
    using small
    by (subst merge_counter_sum [where ds = "map (\<lambda>ms. sum_list (map (added_count _) ms)) mss"];
        simp add: grown_def sum_list_concat_map)+
  have it: "merge_counter (as_iterations base) ?bs as_iterations CounterMax f = Inr (as_iterations base)" for f
    by (rule merge_counter_same [where xs = mss]) (simp add: grown_def)
  have terminal: "merge_terminal_pair base ?bs = Inr (as_stop base, as_response base)"
    by (rule merge_terminal_same) (simp add: grown_def)
  have rest: "\<lparr>as_messages = as_messages (grown (concat mss) base), as_iterations = as_iterations base,
      as_tool_calls = as_tool_calls (grown (concat mss) base), as_output_tokens = as_output_tokens (grown (concat mss) base),
      as_reasoning_tokens = as_reasoning_tokens (grown (concat mss) base),
      as_compact_count = as_compact_count (grown (concat mss) base), as_stop = as_stop base, as_response = as_response base\<rparr>
    = grown (concat mss) base" by (simp add: grown_def)
  show ?thesis
  proof (cases "mss = []")
    case True
    then show ?thesis by (simp add: agent_merge_def grown_def)
  next
    case False
    then show ?thesis by (simp add: agent_merge_def ms counts it terminal rest)
  qed
qed

text \<open>
  C40: Merging parallel branches that only add is running them one after another. When every
  branch appended messages and added to the counts of tool calls, of output and reasoning tokens
  and of compactions, and no such count passes the largest \<open>usize\<close>, the merged state is the one
  that all the mutations, applied to the base in the order of the branches, give. A branch that
  counts an iteration does more than add: of the iterations the merge takes the largest, not the sum.
\<close>

theorem adding_branches_merge_like_a_sequence:
  assumes "\<forall>ms \<in> set mss. list_all additive ms"
    and "\<forall>get \<in> {as_tool_calls, as_output_tokens, as_reasoning_tokens, as_compact_count}.
      get (apply_batch agent_ops (concat mss) base) \<le> usize_max"
  shows "agent_merge base (map (\<lambda>ms. apply_batch agent_ops ms base) mss)
    = Inr (apply_batch agent_ops (concat mss) base)"
proof -
  have all: "apply_batch agent_ops (concat mss) base = grown (concat mss) base"
    using assms(1) by (intro apply_additive) (auto simp: list_all_iff)
  have each: "map (\<lambda>ms. apply_batch agent_ops ms base) mss = map (\<lambda>ms. grown ms base) mss"
    using assms(1) by (auto intro: apply_additive)
  show ?thesis
    unfolding each all using assms(2) by (intro agent_merge_grown) (simp_all add: all)
qed

lemma adding_branches_merge_like_a_sequence_witness:
  "agent_merge (from_messages []) (map (\<lambda>ms. apply_batch agent_ops ms (from_messages []))
      [[AppendMessage (UserMessage []), AddToolCalls 2], [AddToolCalls 1, AppendMessage (SystemMessage [])]])
   = Inr ((from_messages [UserMessage [], SystemMessage []])\<lparr>as_tool_calls := 3\<rparr>)"
  by (subst adding_branches_merge_like_a_sequence)
    (simp_all add: apply_batch_def agent_ops_def from_messages_def usize_max_def)

end
