(* ===== verification/Agent_Retry.thy ===== *)
theory Agent_Retry
  imports Codec_Provider
begin

text \<open>
  Recovery in the agent: the retry policy of tools (\<open>runtime/retry.rs\<close>), the fallback
  strategy (\<open>runtime/fallback.rs\<close>) and the invoker, which opens the stream of a model with
  both (\<open>runtime/invoker.rs\<close>).

  A tool and a provider act on the world \<open>'w\<close>; \<open>sleep\<close> is what passing time does to it.
  A tool may panic; a panic leaves every loop at once. A duration counts nanoseconds, and
  \<open>2_u32.pow\<close> wraps, as it does without overflow checks.
\<close>

section \<open>Retrying a tool\<close>

datatype tool_run = Returned tool_result | Panicked string

datatype backoff = FixedDelay nat | Exponential nat nat

fun delay :: "backoff \<Rightarrow> nat \<Rightarrow> nat" where
  "delay (FixedDelay d) attempt = d"
| "delay (Exponential base limit) attempt = min (saturating_mul base (unat ((2 :: 32 word) ^ attempt))) limit"

record retry_policy =
  rt_max_attempts :: nat
  rt_backoff :: backoff

definition retry_policy_default :: retry_policy where
  "retry_policy_default = \<lparr>rt_max_attempts = 3, rt_backoff = Exponential (500 * 10 ^ 6) (seconds 30)\<rparr>"

fun retry_loop ::
  "(nat \<Rightarrow> 'w \<Rightarrow> 'w) \<Rightarrow> backoff \<Rightarrow> ('w \<Rightarrow> 'w \<times> tool_run) \<Rightarrow> nat \<Rightarrow> nat \<Rightarrow> 'w \<Rightarrow> tool_error \<Rightarrow> 'w \<times> tool_run" where
  "retry_loop sleep b f 0 attempt w e = (w, Returned (Inl e))"
| "retry_loop sleep b f (Suc left) attempt w e =
     (if is_retryable (te_kind e)
      then (case f (sleep (delay b attempt) w) of
              (w', Returned (Inl e')) \<Rightarrow> retry_loop sleep b f left (Suc attempt) w' e'
            | out \<Rightarrow> out)
      else (w, Returned (Inl e)))"

definition retry_execute ::
  "(nat \<Rightarrow> 'w \<Rightarrow> 'w) \<Rightarrow> retry_policy \<Rightarrow> ('w \<Rightarrow> 'w \<times> tool_run) \<Rightarrow> 'w \<Rightarrow> 'w \<times> tool_run" where
  "retry_execute sleep p f w =
     (case f w of
        (w', Returned (Inl e)) \<Rightarrow> retry_loop sleep (rt_backoff p) f (rt_max_attempts p - 1) 1 w' e
      | out \<Rightarrow> out)"

section \<open>Fallback\<close>

record fallback_context =
  fc_error :: llm_error
  fc_attempt :: nat
  fc_iterations :: nat
  fc_conversation :: "message list"

datatype fallback_action = RetryCall | AbortCall

fun is_retriable :: "llm_error \<Rightarrow> bool" where
  "is_retriable (TimeoutError _) \<longleftrightarrow> True"
| "is_retriable (NetworkError _) \<longleftrightarrow> True"
| "is_retriable (ProviderError _ (Some s) _ _) \<longleftrightarrow> s \<ge> 500 \<or> s = 429"
| "is_retriable _ \<longleftrightarrow> False"

definition default_fallback :: "nat \<Rightarrow> fallback_context \<Rightarrow> 'w \<Rightarrow> 'w \<times> fallback_action" where
  "default_fallback max_retries c w =
     (w, if is_retriable (fc_error c) \<and> fc_attempt c < max_retries then RetryCall else AbortCall)"

section \<open>Opening a stream\<close>

datatype stream_phase = NotStarted | HeadersReceived | FirstChunkSent | Finished

definition can_retry :: "stream_phase \<Rightarrow> bool" where
  "can_retry s \<longleftrightarrow> s = NotStarted \<or> s = HeadersReceived"

type_synonym provider_items = "(llm_error + provider_event) list"

text \<open>The stream a consumer reads, with what it has been sent.\<close>

record retry_stream =
  ra_items :: provider_items
  ra_has_sent :: bool
  ra_attempt :: nat

definition retry_stream_new :: "provider_items \<Rightarrow> nat \<Rightarrow> retry_stream" where
  "retry_stream_new items attempt = \<lparr>ra_items = items, ra_has_sent = False, ra_attempt = attempt\<rparr>"

definition stream_phase_of :: "retry_stream \<Rightarrow> stream_phase" where
  "stream_phase_of r = (if ra_has_sent r then FirstChunkSent else HeadersReceived)"

fun sends_data :: "llm_error + provider_event \<Rightarrow> bool" where
  "sends_data (Inr (PToken _)) \<longleftrightarrow> True"
| "sends_data (Inr (PThinking _ _)) \<longleftrightarrow> True"
| "sends_data _ \<longleftrightarrow> False"

definition poll_next :: "retry_stream \<Rightarrow> (llm_error + provider_event) option \<times> retry_stream" where
  "poll_next r =
     (case ra_items r of
        [] \<Rightarrow> (None, r)
      | x # xs \<Rightarrow> (Some x, r\<lparr>ra_items := xs, ra_has_sent := ra_has_sent r \<or> sends_data x\<rparr>))"

text \<open>
  The invoker: the provider's two calls, the fallback strategy, the retry limit and the
  backoff. \<open>llm_attempts\<close> is the loop both calls run.
\<close>

record 'w llm_invoker =
  iv_model :: string
  iv_stream :: "chat_request \<Rightarrow> 'w \<Rightarrow> 'w \<times> (llm_error + provider_items)"
  iv_call :: "chat_request \<Rightarrow> 'w \<Rightarrow> 'w \<times> (llm_error + chat_response)"
  iv_fallback :: "fallback_context \<Rightarrow> 'w \<Rightarrow> 'w \<times> fallback_action"
  iv_max_retries :: nat
  iv_backoff :: backoff
  iv_sleep :: "nat \<Rightarrow> 'w \<Rightarrow> 'w"

definition invoker_from_config ::
  "string \<Rightarrow> (chat_request \<Rightarrow> 'w \<Rightarrow> 'w \<times> (llm_error + provider_items)) \<Rightarrow> (chat_request \<Rightarrow> 'w \<Rightarrow> 'w \<times> (llm_error + chat_response))
   \<Rightarrow> retry_policy \<Rightarrow> (fallback_context \<Rightarrow> 'w \<Rightarrow> 'w \<times> fallback_action) \<Rightarrow> (nat \<Rightarrow> 'w \<Rightarrow> 'w) \<Rightarrow> 'w llm_invoker" where
  "invoker_from_config model stream call p fallback sleep =
     \<lparr>iv_model = model, iv_stream = stream, iv_call = call, iv_fallback = fallback,
      iv_max_retries = rt_max_attempts p, iv_backoff = rt_backoff p, iv_sleep = sleep\<rparr>"

function invoke_stream_loop ::
  "'w llm_invoker \<Rightarrow> chat_request \<Rightarrow> message list \<Rightarrow> nat \<Rightarrow> nat \<Rightarrow> stream_phase \<Rightarrow> 'w \<Rightarrow> 'w \<times> (llm_error + retry_stream)" where
  "invoke_stream_loop iv req ms iteration attempt phase w =
     (case iv_stream iv req w of
        (w1, Inr items) \<Rightarrow> (w1, Inr (retry_stream_new items attempt))
      | (w1, Inl err) \<Rightarrow>
          (if \<not> can_retry phase then (w1, Inl err)
           else
             case iv_fallback iv \<lparr>fc_error = err, fc_attempt = attempt, fc_iterations = iteration, fc_conversation = ms\<rparr> w1 of
               (w2, AbortCall) \<Rightarrow> (w2, Inl err)
             | (w2, RetryCall) \<Rightarrow>
                 (if attempt \<ge> iv_max_retries iv then (w2, Inl err)
                  else invoke_stream_loop iv req ms iteration (Suc attempt) HeadersReceived
                         (iv_sleep iv (delay (iv_backoff iv) attempt) w2))))"
  by pat_completeness auto
termination by (relation "measure (\<lambda>(iv, req, ms, it, attempt, phase, w). iv_max_retries iv - attempt)") simp_all

declare invoke_stream_loop.simps [simp del]

definition invoke_stream ::
  "'w llm_invoker \<Rightarrow> chat_request \<Rightarrow> message list \<Rightarrow> nat \<Rightarrow> 'w \<Rightarrow> 'w \<times> (llm_error + retry_stream)" where
  "invoke_stream iv req ms iteration w = invoke_stream_loop iv req ms iteration 1 NotStarted w"

function invoke_loop ::
  "'w llm_invoker \<Rightarrow> chat_request \<Rightarrow> message list \<Rightarrow> nat \<Rightarrow> nat \<Rightarrow> 'w \<Rightarrow> 'w \<times> (llm_error + chat_response)" where
  "invoke_loop iv req ms iteration attempt w =
     (case iv_call iv req w of
        (w1, Inr r) \<Rightarrow> (w1, Inr r)
      | (w1, Inl err) \<Rightarrow>
          (case iv_fallback iv \<lparr>fc_error = err, fc_attempt = attempt, fc_iterations = iteration, fc_conversation = ms\<rparr> w1 of
             (w2, AbortCall) \<Rightarrow> (w2, Inl err)
           | (w2, RetryCall) \<Rightarrow>
               (if attempt \<ge> iv_max_retries iv then (w2, Inl err)
                else invoke_loop iv req ms iteration (Suc attempt) (iv_sleep iv (delay (iv_backoff iv) attempt) w2))))"
  by pat_completeness auto
termination by (relation "measure (\<lambda>(iv, req, ms, it, attempt, w). iv_max_retries iv - attempt)") simp_all

declare invoke_loop.simps [simp del]

definition invoke :: "'w llm_invoker \<Rightarrow> chat_request \<Rightarrow> message list \<Rightarrow> nat \<Rightarrow> 'w \<Rightarrow> 'w \<times> (llm_error + chat_response)" where
  "invoke iv req ms iteration w = invoke_loop iv req ms iteration 1 w"

section \<open>What a retry loop does\<close>

text \<open>
  The world before the \<open>k\<close>-th further attempt, when all attempts before it were made, and
  what counts as a reason to go on.
\<close>

fun before_attempt :: "(nat \<Rightarrow> 'w \<Rightarrow> 'w) \<Rightarrow> backoff \<Rightarrow> ('w \<Rightarrow> 'w \<times> tool_run) \<Rightarrow> 'w \<Rightarrow> nat \<Rightarrow> 'w" where
  "before_attempt sleep b f w 0 = w"
| "before_attempt sleep b f w (Suc k) = sleep (delay b (Suc k)) (fst (f (before_attempt sleep b f w k)))"

fun retryable_run :: "tool_run \<Rightarrow> bool" where
  "retryable_run (Returned (Inl e)) \<longleftrightarrow> is_retryable (te_kind e)"
| "retryable_run _ \<longleftrightarrow> False"

lemma retryable_run_iff: "retryable_run out \<longleftrightarrow> (\<exists>e. out = Returned (Inl e) \<and> is_retryable (te_kind e))"
  by (cases out rule: retryable_run.cases) simp_all

lemma retry_loop_Suc:
  "is_retryable (te_kind e) \<Longrightarrow>
     retry_loop sleep b f (Suc left) attempt w e =
       (case snd (f (sleep (delay b attempt) w)) of
          Returned (Inl e') \<Rightarrow> retry_loop sleep b f left (Suc attempt) (fst (f (sleep (delay b attempt) w))) e'
        | _ \<Rightarrow> f (sleep (delay b attempt) w))"
  by (auto split: prod.splits tool_run.splits sum.splits)

text \<open>The loop after attempt \<open>n\<close> stops at attempt \<open>k\<close>.\<close>

definition settles_at where
  "settles_at sleep b f w0 n limit k \<longleftrightarrow>
     n \<le> k \<and> k \<le> limit
     \<and> (\<forall>j < k. retryable_run (snd (f (before_attempt sleep b f w0 j))))
     \<and> (retryable_run (snd (f (before_attempt sleep b f w0 k))) \<longrightarrow> k = limit)"

lemma retry_loop_attempts:
  assumes "f (before_attempt sleep b f w0 n) = (w, Returned (Inl e))"
    and "\<forall>j < n. retryable_run (snd (f (before_attempt sleep b f w0 j)))"
  shows "\<exists>k. settles_at sleep b f w0 n (n + left) k
    \<and> retry_loop sleep b f left (Suc n) w e = f (before_attempt sleep b f w0 k)"
  using assms
proof (induction left arbitrary: n w e)
  case 0
  then show ?case by (intro exI [of _ n]) (simp add: settles_at_def)
next
  case (Suc left)
  let ?at = "\<lambda>k. f (before_attempt sleep b f w0 k)"
  show ?case
  proof (cases "is_retryable (te_kind e)")
    case False
    with Suc.prems show ?thesis by (intro exI [of _ n]) (simp add: settles_at_def)
  next
    case True
    have nxt: "?at (Suc n) = f (sleep (delay b (Suc n)) w)"
      using Suc.prems(1) by simp
    have ok: "\<forall>j < Suc n. retryable_run (snd (?at j))"
      using Suc.prems True by (auto simp: less_Suc_eq)
    note step = retry_loop_Suc [OF True, of sleep b f left "Suc n" w, folded nxt]
    show ?thesis
    proof (cases "\<exists>e'. snd (?at (Suc n)) = Returned (Inl e')")
      case True
      then obtain e' where e': "snd (?at (Suc n)) = Returned (Inl e')" ..
      then have out: "?at (Suc n) = (fst (?at (Suc n)), Returned (Inl e'))" by (metis prod.collapse)
      from Suc.IH [OF out ok] obtain k where k: "settles_at sleep b f w0 (Suc n) (Suc n + left) k"
          "retry_loop sleep b f left (Suc (Suc n)) (fst (?at (Suc n))) e' = ?at k" by iprover
      from step e' k(2) have "retry_loop sleep b f (Suc left) (Suc n) w e = ?at k"
        by (simp del: before_attempt.simps retry_loop.simps)
      with k(1) show ?thesis by (intro exI [of _ k]) (simp add: settles_at_def del: before_attempt.simps)
    next
      case False
      then have "retry_loop sleep b f (Suc left) (Suc n) w e = ?at (Suc n)"
        unfolding step by (auto split: tool_run.split sum.split)
      moreover have "\<not> retryable_run (snd (?at (Suc n)))" using False by (auto simp: retryable_run_iff)
      ultimately show ?thesis using ok
        by (intro exI [of _ "Suc n"]) (simp add: settles_at_def del: before_attempt.simps)
    qed
  qed
qed

text \<open>
  C39: A tool call with a retry policy is the \<open>k\<close>-th attempt, for one \<open>k\<close> below the larger of
  1 and \<open>max_attempts\<close>: its result and its world. Every attempt before it failed with a
  retryable error, and if this one did as well, the attempts are used up. So a success, a
  panic or an error that is not retryable is never followed by another attempt.
\<close>

theorem retry_stops_at_the_first_settled_attempt:
  "\<exists>k < max 1 (rt_max_attempts p).
     retry_execute sleep p f w = f (before_attempt sleep (rt_backoff p) f w k)
     \<and> list_all (\<lambda>j. retryable_run (snd (f (before_attempt sleep (rt_backoff p) f w j)))) [0..<k]
     \<and> (if retryable_run (snd (retry_execute sleep p f w)) then Suc k = max 1 (rt_max_attempts p) else True)"
proof (cases "\<exists>e. snd (f w) = Returned (Inl e)")
  case True
  then obtain e where "snd (f w) = Returned (Inl e)" ..
  then have out: "f w = (fst (f w), Returned (Inl e))" by (metis prod.collapse)
  from retry_loop_attempts [of f sleep "rt_backoff p" w 0 "fst (f w)" e "rt_max_attempts p - 1"] out
  obtain k where k: "settles_at sleep (rt_backoff p) f w 0 (rt_max_attempts p - 1) k"
    "retry_loop sleep (rt_backoff p) f (rt_max_attempts p - 1) 1 (fst (f w)) e = f (before_attempt sleep (rt_backoff p) f w k)"
    by auto
  have "retry_execute sleep p f w = f (before_attempt sleep (rt_backoff p) f w k)"
    unfolding retry_execute_def by (subst out) (simp add: k(2) del: One_nat_def)
  with k(1) show ?thesis by (intro exI [of _ k]) (auto simp: settles_at_def list_all_iff)
next
  case False
  then have "retry_execute sleep p f w = f w" "\<not> retryable_run (snd (f w))"
    by (auto simp: retry_execute_def retryable_run_iff split: prod.split tool_run.split sum.split)
  then show ?thesis by (intro exI [of _ 0]) simp
qed

section \<open>What an invocation does\<close>

text \<open>
  The check of the stream phase never fires, since no token is sent inside the loop: opening
  a stream makes the attempts that a plain call would make with the same answers.
\<close>

definition answers_alike :: "'w llm_invoker \<Rightarrow> chat_request \<Rightarrow> (provider_items \<Rightarrow> chat_response) \<Rightarrow> bool" where
  "answers_alike iv req g \<longleftrightarrow>
     iv_call iv req = (\<lambda>w. case iv_stream iv req w of (w1, Inl e) \<Rightarrow> (w1, Inl e) | (w1, Inr items) \<Rightarrow> (w1, Inr (g items)))"

lemma invoke_stream_loop_is_invoke:
  "can_retry phase \<Longrightarrow> answers_alike iv req g \<Longrightarrow>
   invoke_loop iv req ms it attempt w =
    (case invoke_stream_loop iv req ms it attempt phase w of
       (w1, Inl e) \<Rightarrow> (w1, Inl e)
     | (w1, Inr r) \<Rightarrow> (w1, Inr (g (ra_items r))))"
proof (induction iv req ms it attempt phase w rule: invoke_stream_loop.induct)
  case (1 iv req ms it attempt phase w)
  have hr: "can_retry HeadersReceived" by (simp add: can_retry_def)
  show ?case
    using 1 hr
    unfolding invoke_loop.simps [of iv req ms it attempt w] invoke_stream_loop.simps [of iv req ms it attempt phase w]
    by (auto simp: answers_alike_def retry_stream_new_def split: prod.split sum.split fallback_action.split)
qed

text \<open>The number of the attempt that opened the stream is within the limit.\<close>

lemma invoke_stream_loop_attempt:
  "invoke_stream_loop iv req ms it attempt phase w = (w', Inr r) \<Longrightarrow>
     attempt \<le> ra_attempt r \<and> ra_attempt r \<le> max attempt (iv_max_retries iv) \<and> \<not> ra_has_sent r"
proof (induction iv req ms it attempt phase w rule: invoke_stream_loop.induct)
  case (1 iv req ms it attempt phase w)
  from 1 show ?case
    unfolding invoke_stream_loop.simps [of iv req ms it attempt phase w]
    by (fastforce simp: retry_stream_new_def split: prod.splits sum.splits if_splits fallback_action.splits)
qed

text \<open>With the default strategy an error that is not transient is returned at once.\<close>

lemma invoke_stream_not_retriable:
  assumes "iv_stream iv req w = (w1, Inl err)" "iv_fallback iv = default_fallback n" "\<not> is_retriable err"
  shows "invoke_stream iv req ms it w = (w1, Inl err)"
  using assms by (simp add: invoke_stream_def invoke_stream_loop.simps default_fallback_def)

text \<open>A consumer has been sent data exactly when the part of the stream it read has data in it.\<close>

fun poll_times :: "nat \<Rightarrow> retry_stream \<Rightarrow> retry_stream" where
  "poll_times 0 r = r"
| "poll_times (Suc n) r = poll_times n (snd (poll_next r))"

lemma poll_times_sent:
  "ra_has_sent (poll_times n r) \<longleftrightarrow> ra_has_sent r \<or> list_ex sends_data (take n (ra_items r))"
  by (induction n arbitrary: r) (auto simp: poll_next_def take_Suc split: list.splits)

end
