(* ===== verification/Agent_Tools.thy ===== *)
theory Agent_Tools
  imports Agent_Retry Agent_Context
begin

text \<open>
  Tools at run time: the executable tool (\<open>lellm-core/src/tool.rs\<close>), snapshots and catalogs
  (\<open>runtime/tools/mod.rs\<close>), and the executor of single calls and of batches
  (\<open>runtime/tools/executor.rs\<close>).

  A batch is spawned as tasks: one for each call of a safe tool, one for the calls of each
  category, one for the exclusive calls. The model runs them as the executor's schedule says,
  one call at a time, and then runs what is left, so every task comes to its end.
\<close>

section \<open>Executable tools\<close>

datatype tool_replay_policy = ToolManualRecovery | ToolReplaySafe | ToolIdempotentWithKey

type_synonym 'w tool_fn = "json \<Rightarrow> 'w \<Rightarrow> 'w \<times> tool_run"

record 'w executable_tool =
  et_definition :: tool_definition
  et_safety :: parallel_safety
  et_category :: "tool_category option"
  et_executor :: "'w tool_fn"
  et_context_executor :: "(json \<Rightarrow> tool_execution_context \<Rightarrow> 'w \<Rightarrow> 'w \<times> tool_run) option"
  et_replay_policy :: tool_replay_policy
  et_replay_version :: string

definition tool_from_fn ::
  "tool_definition \<Rightarrow> parallel_safety \<Rightarrow> tool_category option \<Rightarrow> 'w tool_fn \<Rightarrow> 'w executable_tool" where
  "tool_from_fn d safety category f =
     \<lparr>et_definition = d, et_safety = safety, et_category = category, et_executor = f,
      et_context_executor = None, et_replay_policy = ToolManualRecovery, et_replay_version = ''unversioned''\<rparr>"

definition tool_safe :: "tool_definition \<Rightarrow> 'w tool_fn \<Rightarrow> 'w executable_tool" where
  "tool_safe d f = tool_from_fn d Safe None f"

definition tool_category_exclusive :: "tool_definition \<Rightarrow> tool_category \<Rightarrow> 'w tool_fn \<Rightarrow> 'w executable_tool" where
  "tool_category_exclusive d c f = tool_from_fn d CategoryExclusive (Some c) f"

definition tool_exclusive :: "tool_definition \<Rightarrow> 'w tool_fn \<Rightarrow> 'w executable_tool" where
  "tool_exclusive d f = tool_from_fn d Exclusive None f"

definition with_replay_policy :: "tool_replay_policy \<Rightarrow> string \<Rightarrow> 'w executable_tool \<Rightarrow> 'w executable_tool" where
  "with_replay_policy policy version t = t\<lparr>et_replay_policy := policy, et_replay_version := version\<rparr>"

definition with_context_executor ::
  "(json \<Rightarrow> tool_execution_context \<Rightarrow> 'w \<Rightarrow> 'w \<times> tool_run) \<Rightarrow> 'w executable_tool \<Rightarrow> 'w executable_tool" where
  "with_context_executor f t = t\<lparr>et_context_executor := Some f\<rparr>"

definition supports_execution_context :: "'w executable_tool \<Rightarrow> bool" where
  "supports_execution_context t \<longleftrightarrow> et_context_executor t \<noteq> None"

definition tool_execute :: "'w executable_tool \<Rightarrow> 'w tool_fn" where
  "tool_execute t args w = et_executor t args w"

definition execute_with_context ::
  "'w executable_tool \<Rightarrow> json \<Rightarrow> tool_execution_context \<Rightarrow> 'w \<Rightarrow> 'w \<times> tool_run" where
  "execute_with_context t args c w =
     (case et_context_executor t of Some f \<Rightarrow> f args c w | None \<Rightarrow> tool_execute t args w)"

section \<open>Snapshots and catalogs\<close>

datatype conflict_policy = ShadowPolicy | ErrorPolicy

datatype catalog_diagnostic = CatalogConflict (cd_tool: string) (cd_winner: string) (cd_loser: string) conflict_policy

text \<open>An \<open>IndexMap\<close> keeps the place of a key that is inserted again.\<close>

record 'w tool_snapshot =
  sn_tools :: "(string, 'w executable_tool) hashmap"
  sn_diagnostics :: "catalog_diagnostic list"

definition snapshot_new :: "(string, 'w executable_tool) hashmap \<Rightarrow> 'w tool_snapshot" where
  "snapshot_new tools = \<lparr>sn_tools = tools, sn_diagnostics = []\<rparr>"

definition snapshot_get :: "'w tool_snapshot \<Rightarrow> string \<Rightarrow> 'w executable_tool option" where
  "snapshot_get s n = hm_get (sn_tools s) n"

definition snapshot_definitions :: "'w tool_snapshot \<Rightarrow> tool_definition list" where
  "snapshot_definitions s = map (\<lambda>(_, t). et_definition t) (sn_tools s)"

definition has_tools :: "'w tool_snapshot \<Rightarrow> bool" where
  "has_tools s \<longleftrightarrow> sn_tools s \<noteq> []"

definition with_diagnostics :: "catalog_diagnostic list \<Rightarrow> 'w tool_snapshot \<Rightarrow> 'w tool_snapshot" where
  "with_diagnostics ds s = s\<lparr>sn_diagnostics := ds\<rparr>"

type_synonym 'w catalog = "'w \<Rightarrow> 'w \<times> 'w tool_snapshot"

definition from_tools :: "'w executable_tool list \<Rightarrow> 'w tool_snapshot" where
  "from_tools ts = snapshot_new (fold (\<lambda>t. hm_insert (td_name (et_definition t)) t) ts [])"

definition static_catalog :: "'w tool_snapshot \<Rightarrow> 'w catalog" where
  "static_catalog s w = (w, s)"

record 'w composite_builder =
  cbd_sources :: "(string \<times> 'w catalog) list"
  cbd_policy :: conflict_policy

definition composite_new :: "'w composite_builder" where
  "composite_new = \<lparr>cbd_sources = [], cbd_policy = ShadowPolicy\<rparr>"

definition composite_policy :: "conflict_policy \<Rightarrow> 'w composite_builder \<Rightarrow> 'w composite_builder" where
  "composite_policy p b = b\<lparr>cbd_policy := p\<rparr>"

definition composite_add :: "string \<Rightarrow> 'w catalog \<Rightarrow> 'w composite_builder \<Rightarrow> 'w composite_builder" where
  "composite_add n c b = b\<lparr>cbd_sources := cbd_sources b @ [(n, c)]\<rparr>"

type_synonym 'w merged_tools = "(string, 'w executable_tool \<times> string) hashmap \<times> catalog_diagnostic list"

definition merge_tool ::
  "conflict_policy \<Rightarrow> string \<Rightarrow> string \<times> 'w executable_tool \<Rightarrow> 'w merged_tools \<Rightarrow> 'w merged_tools" where
  "merge_tool policy source nt acc =
     (case nt of (n, t) \<Rightarrow> case acc of (merged, ds) \<Rightarrow>
        (hm_insert n (t, source) merged,
         ds @ (case hm_get merged n of None \<Rightarrow> [] | Some (_, old) \<Rightarrow> [CatalogConflict n source old policy])))"

fun merge_sources ::
  "conflict_policy \<Rightarrow> (string \<times> 'w catalog) list \<Rightarrow> 'w \<Rightarrow> 'w merged_tools \<Rightarrow> 'w \<times> 'w merged_tools" where
  "merge_sources policy [] w acc = (w, acc)"
| "merge_sources policy ((source, catalog) # rest) w acc =
     (case catalog w of (w', snap) \<Rightarrow>
        merge_sources policy rest w' (fold (merge_tool policy source) (sn_tools snap) acc))"

definition composite_snapshot :: "'w composite_builder \<Rightarrow> 'w catalog" where
  "composite_snapshot b w =
     (case merge_sources (cbd_policy b) (rev (cbd_sources b)) w ([], []) of
        (w', merged, ds) \<Rightarrow> (w', with_diagnostics ds (snapshot_new (map (\<lambda>(n, t, _). (n, t)) merged))))"

section \<open>The executor\<close>

text \<open>Time, the schedule of \<open>n\<close> spawned tasks, and the JSON printer.\<close>

record 'w tool_env =
  te_sleep :: "nat \<Rightarrow> 'w \<Rightarrow> 'w"
  te_clock :: "'w \<Rightarrow> nat"
  te_schedule :: "'w \<Rightarrow> nat \<Rightarrow> nat list"
  te_print :: "json \<Rightarrow> string"

record 'w tool_executor =
  ex_catalog :: "'w catalog"
  ex_retry :: retry_policy

definition executor_new :: "'w catalog \<Rightarrow> 'w tool_executor" where
  "executor_new c = \<lparr>ex_catalog = c, ex_retry = retry_policy_default\<rparr>"

definition executor_with_retry :: "'w catalog \<Rightarrow> retry_policy \<Rightarrow> 'w tool_executor" where
  "executor_with_retry c p = \<lparr>ex_catalog = c, ex_retry = p\<rparr>"

definition dispatch_call ::
  "'w tool_env \<Rightarrow> retry_policy \<Rightarrow> 'w tool_snapshot \<Rightarrow> tool_call \<Rightarrow> 'w \<Rightarrow> 'w \<times> tool_run" where
  "dispatch_call env p snap call w =
     (case snapshot_get snap (tc_name call) of
        Some t \<Rightarrow> retry_execute (te_sleep env) p (tool_execute t (tc_arguments call)) w
      | None \<Rightarrow> (w, Returned (Inl \<lparr>te_kind = ToolNotFound, te_message = ''unknown tool: '' @ tc_name call\<rparr>)))"

definition execute_one :: "'w tool_env \<Rightarrow> 'w tool_executor \<Rightarrow> tool_call \<Rightarrow> 'w \<Rightarrow> 'w \<times> tool_run" where
  "execute_one env ex call w =
     (case ex_catalog ex w of (w', snap) \<Rightarrow> dispatch_call env (ex_retry ex) snap call w')"

subsection \<open>Groups\<close>

type_synonym indexed_call = "nat \<times> tool_call"

record call_groups =
  cg_safe :: "indexed_call list"
  cg_category :: "(tool_category, indexed_call list) hashmap"
  cg_exclusive :: "indexed_call list"

definition add_exclusive :: "indexed_call \<Rightarrow> call_groups \<Rightarrow> call_groups" where
  "add_exclusive c g = g\<lparr>cg_exclusive := cg_exclusive g @ [c]\<rparr>"

definition add_category :: "tool_category \<Rightarrow> indexed_call \<Rightarrow> call_groups \<Rightarrow> call_groups" where
  "add_category cat c g = g\<lparr>cg_category :=
     hm_insert cat ((case hm_get (cg_category g) cat of None \<Rightarrow> [] | Some cs \<Rightarrow> cs) @ [c]) (cg_category g)\<rparr>"

definition group_call :: "'w tool_snapshot \<Rightarrow> indexed_call \<Rightarrow> call_groups \<Rightarrow> call_groups" where
  "group_call snap c g =
     (case snapshot_get snap (tc_name (snd c)) of
        None \<Rightarrow> add_exclusive c g
      | Some t \<Rightarrow>
          (case et_safety t of
             Safe \<Rightarrow> g\<lparr>cg_safe := cg_safe g @ [c]\<rparr>
           | CategoryExclusive \<Rightarrow>
               (case et_category t of Some cat \<Rightarrow> add_category cat c g | None \<Rightarrow> add_exclusive c g)
           | Exclusive \<Rightarrow> add_exclusive c g))"

definition group_calls :: "'w tool_snapshot \<Rightarrow> tool_call list \<Rightarrow> call_groups" where
  "group_calls snap calls =
     fold (group_call snap) (List.enumerate 0 calls) \<lparr>cg_safe = [], cg_category = [], cg_exclusive = []\<rparr>"

subsection \<open>Spawned tasks\<close>

text \<open>A task: its calls, those still to run, the finished ones, and the text of its panic.\<close>

record call_task =
  ct_serial :: bool
  ct_calls :: "indexed_call list"
  ct_left :: "indexed_call list"
  ct_finished :: "(indexed_call \<times> tool_result \<times> nat) list"
  ct_panic :: "string option"

definition task_start :: "bool \<Rightarrow> indexed_call list \<Rightarrow> call_task" where
  "task_start serial cs = \<lparr>ct_serial = serial, ct_calls = cs, ct_left = cs, ct_finished = [], ct_panic = None\<rparr>"

definition spawned_tasks :: "call_groups \<Rightarrow> call_task list" where
  "spawned_tasks g = map (\<lambda>c. task_start False [c]) (cg_safe g)
     @ map (\<lambda>(_, cs). task_start True cs) (cg_category g)
     @ (if cg_exclusive g = [] then [] else [task_start True (cg_exclusive g)])"

definition task_step ::
  "'w tool_env \<Rightarrow> retry_policy \<Rightarrow> 'w tool_snapshot \<Rightarrow> call_task \<Rightarrow> 'w \<Rightarrow> call_task \<times> 'w" where
  "task_step env p snap t w =
     (case (ct_panic t, ct_left t) of
        (None, c # rest) \<Rightarrow>
          (case dispatch_call env p snap (snd c) w of
             (w', Returned r) \<Rightarrow>
               (t\<lparr>ct_left := rest, ct_finished := ct_finished t @ [(c, r, te_clock env w' - te_clock env w)]\<rparr>, w')
           | (w', Panicked e) \<Rightarrow> (t\<lparr>ct_panic := Some e\<rparr>, w'))
      | _ \<Rightarrow> (t, w))"

fun run_tasks ::
  "'w tool_env \<Rightarrow> retry_policy \<Rightarrow> 'w tool_snapshot \<Rightarrow> nat list \<Rightarrow> call_task list \<Rightarrow> 'w \<Rightarrow> call_task list \<times> 'w" where
  "run_tasks env p snap [] ts w = (ts, w)"
| "run_tasks env p snap (i # is) ts w =
     (if i < length ts
      then (case task_step env p snap (ts ! i) w of (t, w') \<Rightarrow> run_tasks env p snap is (ts[i := t]) w')
      else run_tasks env p snap is ts w)"

definition full_schedule :: "nat list \<Rightarrow> call_task list \<Rightarrow> nat list" where
  "full_schedule sched ts = sched @ concat (map (\<lambda>i. replicate (length (ct_left (ts ! i))) i) [0..<length ts])"

definition panic_result :: "string \<Rightarrow> tool_result" where
  "panic_result t = Inl \<lparr>te_kind = InternalError, te_message = t\<rparr>"

text \<open>What a finished task hands back: an index, the message and the duration.\<close>

definition task_entries :: "(json \<Rightarrow> string) \<Rightarrow> call_task \<Rightarrow> (nat \<times> message \<times> nat) list" where
  "task_entries print t =
     (case ct_panic t of
        None \<Rightarrow> map (\<lambda>((i, call), r, d). (i, tool_result_message print call r, d)) (ct_finished t)
      | Some e \<Rightarrow>
          (if ct_serial t
           then map (\<lambda>(i, call). (i, tool_result_message print call
                  (panic_result (''tool group task panicked: '' @ e)), 0)) (ct_calls t)
           else map (\<lambda>(i, call). (i, tool_result_message print call
                  (panic_result (''tool '' @ quoted (tc_name call) @ '' task panicked: '' @ e)), 0)) (ct_calls t)))"

record batch_result =
  br_results :: "message list"
  br_durations :: "nat list"
  br_panicked :: bool

definition collect_batch :: "(json \<Rightarrow> string) \<Rightarrow> nat \<Rightarrow> call_task list \<Rightarrow> batch_result" where
  "collect_batch print n ts =
     (let entries = concat (map (task_entries print) ts) in
      \<lparr>br_results = List.map_filter id (fold (\<lambda>(i, m, _) rs. rs[i := Some m]) entries (replicate n None)),
       br_durations = fold (\<lambda>(i, _, d) ds. ds[i := d]) entries (replicate n 0),
       br_panicked = list_ex (\<lambda>t. ct_serial t \<and> ct_panic t \<noteq> None) ts\<rparr>)"

definition run_batch ::
  "'w tool_env \<Rightarrow> retry_policy \<Rightarrow> 'w tool_snapshot \<Rightarrow> tool_call list \<Rightarrow> 'w \<Rightarrow> batch_result \<times> 'w" where
  "run_batch env p snap calls w =
     (if calls = [] then (\<lparr>br_results = [], br_durations = [], br_panicked = False\<rparr>, w)
      else
        let ts = spawned_tasks (group_calls snap calls) in
        case run_tasks env p snap (full_schedule (te_schedule env w (length ts)) ts) ts w of
          (ts', w') \<Rightarrow> (collect_batch (te_print env) (length calls) ts', w'))"

definition execute_batch ::
  "'w tool_env \<Rightarrow> 'w tool_executor \<Rightarrow> tool_call list \<Rightarrow> 'w \<Rightarrow> batch_result \<times> 'w" where
  "execute_batch env ex calls w =
     (case ex_catalog ex w of (w', snap) \<Rightarrow> run_batch env (ex_retry ex) snap calls w')"

section \<open>Grouping loses no call\<close>

lemma set_concat_update:
  "set (concat (map snd (AList.update k ((case map_of m k of None \<Rightarrow> [] | Some v \<Rightarrow> v) @ [x]) m)))
   = insert x (set (concat (map snd m)))"
  by (induction m) (auto split: option.splits)

definition grouped :: "call_groups \<Rightarrow> indexed_call set" where
  "grouped g = set (cg_safe g) \<union> set (concat (map snd (cg_category g))) \<union> set (cg_exclusive g)"

lemma grouped_add [simp]:
  "grouped (add_exclusive c g) = insert c (grouped g)"
  "grouped (add_category cat c g) = insert c (grouped g)"
  by (auto simp: grouped_def add_exclusive_def add_category_def set_concat_update simp del: set_concat)

lemma grouped_group_call [simp]: "grouped (group_call snap c g) = insert c (grouped g)"
  by (auto simp: group_call_def grouped_def [of "_\<lparr>cg_safe := _\<rparr>"] split: option.split parallel_safety.split)
    (auto simp: grouped_def)

lemma grouped_group_calls: "grouped (group_calls snap calls) = set (List.enumerate 0 calls)"
proof -
  have "grouped (fold (group_call snap) cs g) = set cs \<union> grouped g" for cs g
    by (induction cs arbitrary: g) auto
  then show ?thesis by (simp add: group_calls_def) (simp add: grouped_def)
qed

text \<open>The calls of one category run in the order of the batch, as the exclusive ones do.\<close>

definition category_of :: "'w tool_snapshot \<Rightarrow> indexed_call \<Rightarrow> tool_category option" where
  "category_of snap c =
     (case snapshot_get snap (tc_name (snd c)) of
        None \<Rightarrow> None
      | Some t \<Rightarrow> (if et_safety t = CategoryExclusive then et_category t else None))"

lemma category_group_in_order:
  "(case hm_get (cg_category (group_calls snap calls)) cat of None \<Rightarrow> [] | Some cs \<Rightarrow> cs)
     = filter (\<lambda>c. category_of snap c = Some cat) (List.enumerate 0 calls)"
proof -
  let ?of = "\<lambda>g. case hm_get (cg_category g) cat of None \<Rightarrow> [] | Some cs \<Rightarrow> cs"
  have step: "?of (group_call snap c g) = ?of g @ (if category_of snap c = Some cat then [c] else [])" for c g
    by (auto simp: group_call_def category_of_def add_exclusive_def add_category_def
        split: option.splits parallel_safety.splits)
  have "?of (fold (group_call snap) cs g) = ?of g @ filter (\<lambda>c. category_of snap c = Some cat) cs" for cs g
    by (induction cs arbitrary: g) (simp_all add: step)
  from this [of "List.enumerate 0 calls" "\<lparr>cg_safe = [], cg_category = [], cg_exclusive = []\<rparr>"]
  show ?thesis by (simp add: group_calls_def)
qed

section \<open>Tasks come to their end\<close>

definition task_ended :: "call_task \<Rightarrow> bool" where
  "task_ended t \<longleftrightarrow> ct_panic t \<noteq> None \<or> ct_left t = []"

definition answered_in :: "'w tool_env \<Rightarrow> retry_policy \<Rightarrow> 'w tool_snapshot \<Rightarrow> tool_call \<Rightarrow> tool_result \<Rightarrow> bool" where
  "answered_in env p snap call r \<longleftrightarrow> (\<exists>w. snd (dispatch_call env p snap call w) = Returned r)"

definition task_ok :: "'w tool_env \<Rightarrow> retry_policy \<Rightarrow> 'w tool_snapshot \<Rightarrow> call_task \<Rightarrow> bool" where
  "task_ok env p snap t \<longleftrightarrow> map fst (ct_finished t) @ ct_left t = ct_calls t
     \<and> (\<forall>(c, r, d) \<in> set (ct_finished t). answered_in env p snap (snd c) r)"

lemma task_start_ok [simp]: "task_ok env p snap (task_start serial cs)"
  by (simp add: task_ok_def task_start_def)

lemma task_step_spec:
  assumes "task_ok env p snap t" "task_step env p snap t w = (t', w')"
  shows "task_ok env p snap t' \<and> ct_calls t' = ct_calls t \<and> ct_serial t' = ct_serial t
    \<and> (ct_panic t' \<noteq> None \<or> ct_panic t = None \<and> length (ct_left t') = length (ct_left t) - 1)"
  using assms
  by (auto simp: task_step_def task_ok_def answered_in_def split: option.splits list.splits prod.splits tool_run.splits)
    (metis snd_conv)+

definition same_tasks :: "call_task list \<Rightarrow> call_task list \<Rightarrow> bool" where
  "same_tasks ts ts' \<longleftrightarrow> map (\<lambda>t. (ct_calls t, ct_serial t)) ts = map (\<lambda>t. (ct_calls t, ct_serial t)) ts'"

lemma run_tasks_spec:
  assumes "\<forall>t \<in> set ts. task_ok env p snap t" "run_tasks env p snap is ts w = (ts', w')"
  shows "(\<forall>t \<in> set ts'. task_ok env p snap t) \<and> same_tasks ts' ts
    \<and> (\<forall>i < length ts. ct_panic (ts' ! i) \<noteq> None
         \<or> ct_panic (ts ! i) = None \<and> length (ct_left (ts' ! i)) = length (ct_left (ts ! i)) - count_list is i)"
  using assms
proof (induction "is" arbitrary: ts w)
  case Nil
  then show ?case by (auto simp: same_tasks_def)
next
  case (Cons j js)
  show ?case
  proof (cases "j < length ts")
    case False
    with Cons show ?thesis by auto
  next
    case True
    obtain t w1 where t: "task_step env p snap (ts ! j) w = (t, w1)" by fastforce
    from task_step_spec [OF _ t] Cons.prems(1) True
    have st: "task_ok env p snap t" "ct_calls t = ct_calls (ts ! j)" "ct_serial t = ct_serial (ts ! j)"
      "ct_panic t \<noteq> None \<or> ct_panic (ts ! j) = None \<and> length (ct_left t) = length (ct_left (ts ! j)) - 1" by auto
    have "\<forall>t \<in> set (ts[j := t]). task_ok env p snap t"
      using Cons.prems(1) st(1) set_update_subset_insert by fastforce
    from Cons.IH [OF this] Cons.prems(2) True t
    have ih: "\<forall>t \<in> set ts'. task_ok env p snap t" "same_tasks ts' (ts[j := t])"
      "\<forall>i < length ts. ct_panic (ts' ! i) \<noteq> None
         \<or> ct_panic (ts[j := t] ! i) = None \<and> length (ct_left (ts' ! i)) = length (ct_left (ts[j := t] ! i)) - count_list js i"
      by auto
    have "map (\<lambda>t. (ct_calls t, ct_serial t)) (ts[j := t]) = map (\<lambda>t. (ct_calls t, ct_serial t)) ts"
      using st(2,3) True by (simp add: map_update list_update_same_conv)
    with ih(2) have "same_tasks ts' ts" by (simp add: same_tasks_def)
    moreover have "ct_panic (ts' ! i) \<noteq> None
         \<or> ct_panic (ts ! i) = None \<and> length (ct_left (ts' ! i)) = length (ct_left (ts ! i)) - count_list (j # js) i"
      if "i < length ts" for i
      using ih(3) [rule_format, OF that] st(4) that by (cases "i = j") auto
    ultimately show ?thesis using ih(1) by blast
  qed
qed

lemma count_list_concat: "count_list (concat xss) x = sum_list (map (\<lambda>xs. count_list xs x) xss)"
  by (induction xss) simp_all

lemma count_list_replicate: "count_list (replicate n y) x = (if x = y then n else 0)"
  by (induction n) auto

lemma count_full_schedule:
  assumes "i < length ts"
  shows "length (ct_left (ts ! i)) \<le> count_list (full_schedule sched ts) i"
proof -
  let ?left = "\<lambda>j. if i = j then length (ct_left (ts ! j)) else 0"
  have "length (ct_left (ts ! i)) \<in> set (map ?left [0..<length ts])" using assms by force
  from member_le_sum_list [OF this] have "length (ct_left (ts ! i)) \<le> sum_list (map ?left [0..<length ts])" by simp
  moreover have "count_list (full_schedule sched ts) i = count_list sched i + sum_list (map ?left [0..<length ts])"
    by (simp add: full_schedule_def count_list_concat comp_def count_list_replicate)
  ultimately show ?thesis by linarith
qed

lemma full_schedule_ends:
  assumes "\<forall>t \<in> set ts. task_ok env p snap t" "run_tasks env p snap (full_schedule sched ts) ts w = (ts', w')"
  shows "(\<forall>t \<in> set ts'. task_ok env p snap t \<and> task_ended t) \<and> same_tasks ts' ts"
proof -
  note spec = run_tasks_spec [OF assms]
  then have len: "length ts' = length ts" by (simp add: same_tasks_def) (metis length_map)
  have "task_ended (ts' ! i)" if "i < length ts" for i
    using spec count_full_schedule [OF that, of sched] that by (auto simp: task_ended_def)
  with spec len show ?thesis by (auto simp: in_set_conv_nth)
qed

section \<open>Every call is answered\<close>

text \<open>An answer to a call: what a dispatch of it returned, or the report of a panic.\<close>

definition is_answer :: "'w tool_env \<Rightarrow> retry_policy \<Rightarrow> 'w tool_snapshot \<Rightarrow> tool_call \<Rightarrow> message \<Rightarrow> bool" where
  "is_answer env p snap call m \<longleftrightarrow>
     (\<exists>r. m = tool_result_message (te_print env) call r \<and> (answered_in env p snap call r \<or> (\<exists>t. r = panic_result t)))"

lemma task_entries_spec:
  assumes "task_ok env p snap t" "task_ended t"
  shows "fst ` set (task_entries (te_print env) t) = fst ` set (ct_calls t)"
    and "(i, m, d) \<in> set (task_entries (te_print env) t) \<Longrightarrow> \<exists>call. (i, call) \<in> set (ct_calls t) \<and> is_answer env p snap call m"
proof -
  show "fst ` set (task_entries (te_print env) t) = fst ` set (ct_calls t)"
  proof (cases "ct_panic t")
    case None
    with assms have "map fst (ct_finished t) = ct_calls t" by (simp add: task_ok_def task_ended_def)
    then have "fst ` set (ct_calls t) = (\<lambda>x. fst (fst x)) ` set (ct_finished t)" by (metis image_image set_map)
    with None show ?thesis by (force simp: task_entries_def)
  qed (force simp: task_entries_def)
  assume m: "(i, m, d) \<in> set (task_entries (te_print env) t)"
  show "\<exists>call. (i, call) \<in> set (ct_calls t) \<and> is_answer env p snap call m"
  proof (cases "ct_panic t")
    case None
    with m obtain call r where f: "((i, call), r, d) \<in> set (ct_finished t)" "m = tool_result_message (te_print env) call r"
      by (auto simp: task_entries_def)
    from f(1) assms(1) have "answered_in env p snap call r" by (fastforce simp: task_ok_def)
    moreover from f(1) assms(1) have "(i, call) \<in> set (ct_calls t)"
      by (metis (no_types, lifting) Un_iff fst_conv image_eqI set_append set_map task_ok_def)
    ultimately show ?thesis using f(2) by (auto simp: is_answer_def)
  next
    case (Some e)
    with m show ?thesis by (auto simp: task_entries_def is_answer_def split: if_splits)
  qed
qed

lemma fold_update_entries:
  assumes "\<forall>(i, m, d) \<in> set es. i < length rs \<and> P i m" "\<forall>i < length rs. rs ! i = None \<or> (\<exists>m. rs ! i = Some m \<and> P i m)"
  shows "length (fold (\<lambda>(i, m, _) rs. rs[i := Some m]) es rs) = length rs
    \<and> (\<forall>i < length rs. (i \<in> fst ` set es \<or> rs ! i \<noteq> None \<longrightarrow> fold (\<lambda>(i, m, _) rs. rs[i := Some m]) es rs ! i \<noteq> None)
         \<and> (\<forall>m. fold (\<lambda>(i, m, _) rs. rs[i := Some m]) es rs ! i = Some m \<longrightarrow> P i m))"
  using assms
proof (induction es arbitrary: rs)
  case (Cons e es)
  obtain i m d where e: "e = (i, m, d)" by (metis prod_cases3)
  have "\<forall>j < length (rs[i := Some m]). rs[i := Some m] ! j = None \<or> (\<exists>m'. rs[i := Some m] ! j = Some m' \<and> P j m')"
    using Cons.prems e by (auto simp: nth_list_update)
  with Cons.IH [of "rs[i := Some m]"] Cons.prems(1) e show ?case
    by (auto simp: nth_list_update)
qed auto

lemma map_filter_all_Some:
  "list_all (\<lambda>x. x \<noteq> None) xs \<Longrightarrow> List.map_filter id xs = map the xs"
  by (induction xs) (auto simp: map_filter_simps)

lemma collect_batch_answers:
  assumes ok: "\<forall>t \<in> set ts. task_ok env p snap t \<and> task_ended t"
    and calls: "set (concat (map ct_calls ts)) = set (List.enumerate 0 calls)"
  shows "list_all2 (is_answer env p snap) calls (br_results (collect_batch (te_print env) (length calls) ts))
    \<and> length (br_durations (collect_batch (te_print env) (length calls) ts)) = length calls"
proof -
  let ?es = "concat (map (task_entries (te_print env)) ts)"
  let ?rs = "fold (\<lambda>(i, m, _) rs. rs[i := Some m]) ?es (replicate (length calls) None)"
  have entry: "i < length calls \<and> is_answer env p snap (calls ! i) m" if e: "(i, m, d) \<in> set ?es" for i m d
  proof -
    from e obtain t where t: "t \<in> set ts" "(i, m, d) \<in> set (task_entries (te_print env) t)" by auto
    with task_entries_spec(2) ok obtain call where "(i, call) \<in> set (ct_calls t)" "is_answer env p snap call m" by blast
    with t(1) calls show ?thesis by (force simp: in_set_enumerate_eq)
  qed
  have "fst ` set ?es = (\<Union>t \<in> set ts. fst ` set (task_entries (te_print env) t))" by (simp add: image_UN)
  also have "\<dots> = (\<Union>t \<in> set ts. fst ` set (ct_calls t))"
    using ok task_entries_spec(1) by (intro SUP_cong refl) blast
  also have "\<dots> = fst ` set (concat (map ct_calls ts))" by (simp add: image_UN)
  also have "\<dots> = {0..<length calls}" 
    unfolding calls by (metis add_0 atLeastLessThan_upt map_fst_enumerate set_map)
  finally have all: "fst ` set ?es = {0..<length calls}" .
  have "\<forall>(i, m, d) \<in> set ?es. i < length (replicate (length calls) (None :: message option)) \<and> is_answer env p snap (calls ! i) m"
    using entry by (auto simp del: set_concat)
  from fold_update_entries [OF this]
  have rs: "length ?rs = length calls" "\<forall>i < length calls. (i \<in> fst ` set ?es \<longrightarrow> ?rs ! i \<noteq> None)
      \<and> (\<forall>m. ?rs ! i = Some m \<longrightarrow> is_answer env p snap (calls ! i) m)" by auto
  with all have "list_all (\<lambda>x. x \<noteq> None) ?rs" by (auto simp: list_all_length)
  with rs all have "list_all2 (is_answer env p snap) calls (List.map_filter id ?rs)"
    by (auto simp: map_filter_all_Some list_all2_conv_all_nth list_all_length)
  moreover have "length (fold (\<lambda>(i, _, d) ds. ds[i := d]) es ds) = length ds" for es :: "(nat \<times> message \<times> nat) list" and ds :: "nat list"
    by (induction es arbitrary: ds) auto
  ultimately show ?thesis by (simp add: collect_batch_def Let_def)
qed

lemma spawned_tasks_calls: "set (concat (map ct_calls (spawned_tasks g))) = grouped g"
  by (auto simp: spawned_tasks_def grouped_def task_start_def)

lemma spawned_tasks_ok: "t \<in> set (spawned_tasks g) \<Longrightarrow> task_ok env p snap t"
  by (auto simp: spawned_tasks_def split: if_splits)

lemma run_batch_answers:
  "list_all2 (is_answer env p snap) calls (br_results (fst (run_batch env p snap calls w)))
    \<and> length (br_durations (fst (run_batch env p snap calls w))) = length calls"
proof (cases "calls = []")
  case False
  let ?ts = "spawned_tasks (group_calls snap calls)"
  let ?sched = "te_schedule env w (length ?ts)"
  obtain ts' w' where run: "run_tasks env p snap (full_schedule ?sched ?ts) ?ts w = (ts', w')" by fastforce
  from full_schedule_ends [OF _ run] spawned_tasks_ok
  have ok: "\<forall>t \<in> set ts'. task_ok env p snap t \<and> task_ended t" and same: "same_tasks ts' ?ts" by blast+
  from same have "map ct_calls ts' = map ct_calls ?ts"
    unfolding same_tasks_def by (metis (no_types, lifting) fst_conv list.map_comp comp_def map_eq_conv)
  then have "set (concat (map ct_calls ts')) = set (List.enumerate 0 calls)"
    by (simp only: spawned_tasks_calls grouped_group_calls)
  from collect_batch_answers [OF ok this] run False show ?thesis
    by (simp add: run_batch_def Let_def)
qed (simp add: run_batch_def)

text \<open>
  C38: A batch of tool calls is answered completely and in order. Whatever the tools do, fail and
  panic included, and however the spawned tasks are scheduled, the batch has one result and one
  duration for every call, and the result at each position is a tool result for the call at
  that position: what a dispatch of this call returned, or the report that it panicked.
\<close>

theorem batch_answers_every_call:
  "\<exists>snap. list_all2 (is_answer env (ex_retry ex) snap) calls (br_results (fst (execute_batch env ex calls w)))
     \<and> length (br_durations (fst (execute_batch env ex calls w))) = length calls"
  using run_batch_answers [of env "ex_retry ex" "snd (ex_catalog ex w)" calls "fst (ex_catalog ex w)"]
  by (auto simp: execute_batch_def split_beta)

lemma is_answer_protocol: "list_all2 (is_answer env p snap) calls rs \<Longrightarrow> protocol (map tc_id calls) (rs @ rest) = protocol [] rest"
proof (induction calls rs rule: list_all2_induct)
  case (Cons call calls m rs)
  then obtain r where "m = tool_result_message (te_print env) call r" by (auto simp: is_answer_def)
  with Cons show ?case by (auto simp: tool_result_message_def split: sum.split)
qed simp

section \<open>Catalogs\<close>

text \<open>The snapshots that a composite catalog takes, in the order in which it asks its sources.\<close>

fun taken :: "(string \<times> 'w catalog) list \<Rightarrow> 'w \<Rightarrow> (string \<times> 'w tool_snapshot) list" where
  "taken [] w = []"
| "taken ((source, catalog) # rest) w = (source, snd (catalog w)) # taken rest (fst (catalog w))"

lemma merge_tool_get:
  "hm_get (fst (merge_tool policy source (n, t) acc)) n' = (if n' = n then Some (t, source) else hm_get (fst acc) n')"
  by (simp add: merge_tool_def split_beta)

lemma merge_tools_get:
  assumes "hm_ok tools"
  shows "hm_get (fst (fold (merge_tool policy source) tools acc)) n
     = (case hm_get tools n of Some t \<Rightarrow> Some (t, source) | None \<Rightarrow> hm_get (fst acc) n)"
  using assms
proof (induction tools arbitrary: acc)
  case (Cons nt tools)
  obtain n' t where nt: "nt = (n', t)" by fastforce
  with Cons.IH [of "merge_tool policy source nt acc"] Cons.prems show ?case
    by (auto simp: merge_tool_get split: option.splits)
qed simp

definition provides :: "string \<Rightarrow> string \<times> 'w tool_snapshot \<Rightarrow> bool" where
  "provides n src \<longleftrightarrow> snapshot_get (snd src) n \<noteq> None"

lemma merge_sources_get:
  assumes "list_all (\<lambda>src. hm_ok (sn_tools (snd src))) (taken sources w)"
  shows "map_option fst (hm_get (fst (snd (merge_sources policy sources w acc))) n)
     = (case find (provides n) (rev (taken sources w)) of
          Some src \<Rightarrow> snapshot_get (snd src) n
        | None \<Rightarrow> map_option fst (hm_get (fst acc) n))"
  using assms
proof (induction policy sources w acc rule: merge_sources.induct)
  case (2 policy source catalog rest w acc)
  obtain w' snap where c: "catalog w = (w', snap)" by fastforce
  with 2 show ?case
    by (auto simp: find_append merge_tools_get provides_def snapshot_get_def split: option.splits)
qed simp

text \<open>
  Earlier sources of a composite catalog shadow later ones: a name is looked up in the first
  source, in the order in which they were added, whose snapshot has it.
\<close>

theorem first_source_wins:
  assumes "list_all (\<lambda>src. hm_ok (sn_tools (snd src))) (taken (rev (cbd_sources b)) w)"
  shows "snapshot_get (snd (composite_snapshot b w)) n
    = (case find (provides n) (rev (taken (rev (cbd_sources b)) w)) of
         Some src \<Rightarrow> snapshot_get (snd src) n
       | None \<Rightarrow> None)"
proof -
  have get: "hm_get (map (\<lambda>(n, t, _). (n, t)) m) n = map_option fst (hm_get m n)"
    for m :: "(string, 'a executable_tool \<times> string) hashmap"
    by (induction m) auto
  show ?thesis
    using merge_sources_get [OF assms, of "cbd_policy b" "([], [])" n]
    by (simp add: composite_snapshot_def split_beta snapshot_get_def with_diagnostics_def snapshot_new_def get
        split: option.splits)
qed

definition sample_tool :: "string \<Rightarrow> unit executable_tool" where
  "sample_tool n = tool_safe \<lparr>td_name = n, td_description = [], td_parameters = JNull, td_cache = None\<rparr>
     (\<lambda>_ w. (w, Returned (Inr JNull)))"

lemma first_source_wins_witness:
  "snapshot_get (snd (composite_snapshot
      (composite_add ''b'' (static_catalog (from_tools [tool_exclusive (et_definition (sample_tool ''x'')) (\<lambda>_ w. (w, Panicked []))]))
        (composite_add ''a'' (static_catalog (from_tools [sample_tool ''x''])) composite_new)) ())) ''x''
    = Some (sample_tool ''x'')"
  by (subst first_source_wins)
    (simp_all add: composite_add_def composite_new_def static_catalog_def from_tools_def snapshot_new_def
      sample_tool_def tool_safe_def tool_exclusive_def tool_from_fn_def provides_def snapshot_get_def)

end
