(* ===== verification/Agent_Nodes.thy ===== *)
theory Agent_Nodes
  imports Agent_State Agent_Tools Composite
begin

text \<open>
  The nodes of an agent and the graph they form (\<open>runtime/react/*.rs\<close>), with the
  configuration and the requests built from it (\<open>config.rs\<close>, \<open>request_opts.rs\<close>) and the
  translation of provider events (\<open>stream_translation.rs\<close>). A node is a leaf of the graph engine: it returns what it records.
\<close>

section \<open>Chunks and events\<close>

datatype tool_phase = QueuedPhase | StartedPhase | FinishedPhase

datatype agent_chunk =
    ChunkText string
  | ChunkThinking string "string option"
  | ChunkRound nat string
  | ChunkTool tool_phase string string
  | ChunkOutput (co_id: string) (co_name: string) (co_content: string) (co_is_error: bool) (co_duration: nat)

datatype agent_stream_event =
    StreamText string
  | StreamThinking string "string option"
  | StreamToolResult string string string bool
  | StreamUsage token_usage
  | StreamComplete

fun to_chunk :: "agent_stream_event \<Rightarrow> agent_chunk option" where
  "to_chunk (StreamText t) = Some (ChunkText t)"
| "to_chunk (StreamThinking t r) = Some (ChunkThinking t r)"
| "to_chunk _ = None"

fun transform :: "provider_event \<Rightarrow> agent_stream_event list" where
  "transform (PToken t) = [StreamText t]"
| "transform (PThinking t r) = [StreamThinking t r]"
| "transform (PComplete calls usage) = (case usage of Some u \<Rightarrow> [StreamUsage u] | None \<Rightarrow> []) @ [StreamComplete]"
| "transform (PStart _) = []"

datatype translation =
    EmitChunk agent_chunk
  | EmitWithText agent_chunk string
  | EmitWithThinking agent_chunk string "string option"
  | UsageResult token_usage
  | FinishedResult
  | IgnoreEvent

fun translate_events :: "agent_stream_event list \<Rightarrow> translation" where
  "translate_events [] = IgnoreEvent"
| "translate_events (StreamText t # _) = EmitWithText (ChunkText t) t"
| "translate_events (StreamThinking t r # _) = EmitWithThinking (ChunkThinking t r) t r"
| "translate_events (StreamUsage u # _) = UsageResult u"
| "translate_events (StreamComplete # _) = FinishedResult"
| "translate_events (StreamToolResult _ _ _ _ # rest) = translate_events rest"

definition translate_provider_event :: "provider_event \<Rightarrow> translation" where
  "translate_provider_event e = translate_events (transform e)"

section \<open>Configuration and requests\<close>

record request_options =
  ro_temperature :: "64 word option"
  ro_top_p :: "64 word option"
  ro_seed :: "64 word option"
  ro_tool_choice :: "tool_choice option"
  ro_stop_sequences :: "string list option"
  ro_prefill :: "string option"
  ro_reasoning :: "reasoning_config option"
  ro_max_reasoning_tokens :: "32 word option"
  ro_extra :: "(string \<times> json) list option"

definition over :: "'a option \<Rightarrow> 'a option \<Rightarrow> 'a option" where
  "over a b = (case a of None \<Rightarrow> b | Some x \<Rightarrow> Some x)"

definition request_options_default :: request_options where
  "request_options_default = \<lparr>ro_temperature = None, ro_top_p = None, ro_seed = None, ro_tool_choice = None,
     ro_stop_sequences = None, ro_prefill = None, ro_reasoning = None, ro_max_reasoning_tokens = None, ro_extra = None\<rparr>"

definition apply_options :: "request_options \<Rightarrow> chat_request \<Rightarrow> chat_request" where
  "apply_options o' r = r\<lparr>cr_temperature := over (ro_temperature o') (cr_temperature r),
     cr_top_p := over (ro_top_p o') (cr_top_p r),
     cr_seed := over (ro_seed o') (cr_seed r),
     cr_tool_choice := over (ro_tool_choice o') (cr_tool_choice r),
     cr_stop_sequences := over (ro_stop_sequences o') (cr_stop_sequences r),
     cr_prefill := over (ro_prefill o') (cr_prefill r),
     cr_reasoning := over (ro_reasoning o') (cr_reasoning r),
     cr_max_reasoning_tokens := over (ro_max_reasoning_tokens o') (cr_max_reasoning_tokens r),
     cr_extra := over (ro_extra o') (cr_extra r)\<rparr>"

datatype tool_cache_policy = CacheAuto | CachePreserve | CacheDisabled

record tool_use_config =
  uc_system :: "prompt option"
  uc_max_iterations :: nat
  uc_max_output_tokens :: "32 word"
  uc_max_total_output_tokens :: "32 word option"
  uc_max_total_reasoning_tokens :: "32 word option"
  uc_context_budget :: context_budget
  uc_request_options :: request_options
  uc_stream_thinking :: bool
  uc_tool_cache_policy :: tool_cache_policy
  uc_retry_policy :: retry_policy
  uc_require_approval :: bool

definition tool_use_config_default :: tool_use_config where
  "tool_use_config_default = \<lparr>uc_system = None, uc_max_iterations = 10, uc_max_output_tokens = 4000,
     uc_max_total_output_tokens = None, uc_max_total_reasoning_tokens = None,
     uc_context_budget = context_budget_default, uc_request_options = request_options_default,
     uc_stream_thinking = False, uc_tool_cache_policy = CacheAuto, uc_retry_policy = retry_policy_default,
     uc_require_approval = False\<rparr>"

definition has_system_message :: "message list \<Rightarrow> bool" where
  "has_system_message ms = list_ex is_system ms"

definition build_request_messages :: "tool_use_config \<Rightarrow> message list \<Rightarrow> llm_error + message list" where
  "build_request_messages c ms =
     (case uc_system c of
        Some p \<Rightarrow> (if has_system_message ms then Inl DuplicateSystemPrompt else Inr (prompt_build p # ms))
      | None \<Rightarrow> Inr ms)"

definition cached_definitions :: "tool_cache_policy \<Rightarrow> tool_definition list \<Rightarrow> tool_definition list" where
  "cached_definitions policy ds =
     (case policy of
        CacheAuto \<Rightarrow> map (\<lambda>(i, d). if td_cache d = None \<and> i = length ds - 1 then d\<lparr>td_cache := Some Breakpoint\<rparr> else d)
                       (List.enumerate 0 ds)
      | CachePreserve \<Rightarrow> ds
      | CacheDisabled \<Rightarrow> map (\<lambda>d. d\<lparr>td_cache := None\<rparr>) ds)"

definition build_request_inner ::
  "string \<Rightarrow> message list \<Rightarrow> 32 word \<Rightarrow> request_options \<Rightarrow> tool_definition list \<Rightarrow> tool_cache_policy \<Rightarrow> chat_request" where
  "build_request_inner model ms max_output opts ds policy =
     apply_options opts (request_default\<lparr>cr_model := model, cr_messages := ms,
       cr_tools := (if ds = [] then None else Some (cached_definitions policy ds)),
       cr_max_tokens := Some max_output\<rparr>)"

definition build_request_with_round ::
  "string \<Rightarrow> message list \<Rightarrow> 32 word \<Rightarrow> request_options \<Rightarrow> nat \<Rightarrow> tool_definition list \<Rightarrow> tool_cache_policy \<Rightarrow> chat_request" where
  "build_request_with_round model ms max_output opts iteration ds policy =
     (let r = build_request_inner model ms max_output opts ds policy in
      if iteration > 0 \<and> ro_tool_choice opts \<noteq> None then r\<lparr>cr_tool_choice := None\<rparr> else r)"

definition usage_zero :: token_usage where
  "usage_zero = \<lparr>tu_prompt = 0, tu_completion = 0, tu_total = 0\<rparr>"

definition empty_response :: chat_response where
  "empty_response = \<lparr>rp_content = text_blocks [], rp_usage = usage_zero, rp_raw = JNull\<rparr>"

section \<open>The model node\<close>

type_synonym agent_leaf_op = "(agent_mutation, agent_chunk) leaf_op"

text \<open>The Unicode classes and the JSON printer, shared by all nodes.\<close>

record text_env =
  tx_alnum :: "string \<Rightarrow> bool"
  tx_print :: "json \<Rightarrow> string"

fun split_block :: "text_env \<Rightarrow> content_block \<Rightarrow> nat \<times> nat \<Rightarrow> nat \<times> nat" where
  "split_block te (TextBlock t) (out, reasoning) = (out + estimate_text (tx_alnum te) (tb_text t), reasoning)"
| "split_block te (ThinkingBlock th) (out, reasoning) = (out, reasoning + estimate_reasoning_block (tx_alnum te) th)"
| "split_block te _ acc = acc"

definition split_output_tokens :: "text_env \<Rightarrow> content_block list \<Rightarrow> nat \<times> nat" where
  "split_output_tokens te bs = fold (split_block te) bs (0, 0)"

text \<open>What the node has collected of a stream: tool-call blocks, text, thinking, the number of calls,
  usage, and the chunks emitted.\<close>

record llm_acc =
  la_blocks :: "content_block list"
  la_text :: string
  la_thinking :: string
  la_calls :: nat
  la_usage :: "token_usage option"
  la_chunks :: "agent_chunk list"

definition llm_acc_new :: llm_acc where
  "llm_acc_new = \<lparr>la_blocks = [], la_text = [], la_thinking = [], la_calls = 0, la_usage = None, la_chunks = []\<rparr>"

definition is_call_block :: "content_block \<Rightarrow> bool" where
  "is_call_block b \<longleftrightarrow> block_tool_call b \<noteq> None"

fun absorb_event :: "provider_event \<Rightarrow> llm_acc \<Rightarrow> llm_acc" where
  "absorb_event (PComplete calls usage) a =
     (let bs = la_blocks a @ map ToolCallBlock calls in
      a\<lparr>la_blocks := bs, la_calls := length (filter is_call_block bs), la_usage := usage\<rparr>)"
| "absorb_event e a =
     (case translate_provider_event e of
        EmitWithText c d \<Rightarrow> a\<lparr>la_chunks := la_chunks a @ [c], la_text := la_text a @ d\<rparr>
      | EmitWithThinking c d _ \<Rightarrow> a\<lparr>la_chunks := la_chunks a @ [c], la_thinking := la_thinking a @ d\<rparr>
      | EmitChunk c \<Rightarrow> a\<lparr>la_chunks := la_chunks a @ [c]\<rparr>
      | _ \<Rightarrow> a)"

fun read_stream :: "provider_items \<Rightarrow> llm_acc \<Rightarrow> llm_acc \<times> llm_error option" where
  "read_stream [] a = (a, None)"
| "read_stream (Inr e # rest) a = read_stream rest (absorb_event e a)"
| "read_stream (Inl e # _) a = (a, Some e)"

definition acc_response :: "llm_acc \<Rightarrow> chat_response" where
  "acc_response a =
     \<lparr>rp_content = la_blocks a
        @ (if la_thinking a \<noteq> [] then [ThinkingBlock \<lparr>th_thinking = la_thinking a, th_redacted = None\<rparr>] else [])
        @ (if la_text a \<noteq> [] then [text_with_cache (la_text a) Breakpoint] else []),
      rp_usage = (case la_usage a of None \<Rightarrow> usage_zero | Some u \<Rightarrow> u), rp_raw = JNull\<rparr>"

record 'w llm_node =
  ln_name :: string
  ln_invoker :: "'w llm_invoker"
  ln_executor :: "'w tool_executor"
  ln_config :: tool_use_config

definition node_failed :: "string \<Rightarrow> llm_error \<Rightarrow> terminal_error" where
  "node_failed name e = NodeExecutionFailed name (SourceText (show_llm_error e))"

definition response_ops :: "text_env \<Rightarrow> llm_acc \<Rightarrow> agent_leaf_op list" where
  "response_ops te a =
     (let r = acc_response a; (out, reasoning) = split_output_tokens te (rp_content r) in
      [Record (AddOutputTokens out), Record (AddReasoningTokens reasoning),
       Record (AppendMessage (AssistantMessage (rp_content r)))]
      @ (if has_tool_calls r then [Record (AddToolCalls (la_calls a))] else [])
      @ [Record (SetLastResponse r)])"

definition llm_request :: "'w llm_node \<Rightarrow> agent_state \<Rightarrow> 'w tool_snapshot \<Rightarrow> chat_request" where
  "llm_request n s snap =
     build_request_with_round (iv_model (ln_invoker n)) (as_messages s) (uc_max_output_tokens (ln_config n))
       (uc_request_options (ln_config n)) (as_iterations s + 1) (snapshot_definitions snap)
       (uc_tool_cache_policy (ln_config n))"

definition llm_execute :: "text_env \<Rightarrow> 'w llm_node \<Rightarrow> (agent_state, agent_mutation, agent_chunk, 'w) leaf_fn" where
  "llm_execute te n w s cancelled =
     (case ex_catalog (ln_executor n) w of (w1, snap) \<Rightarrow>
      let begun = [Record IncrementIteration, Emit (ChunkRound (as_iterations s + 1) (iv_model (ln_invoker n)))] in
      case invoke_stream (ln_invoker n) (llm_request n s snap) (as_messages s) (as_iterations s) w1 of
        (w2, Inl e) \<Rightarrow> (w2, begun, Some (node_failed (ln_name n) e))
      | (w2, Inr stream) \<Rightarrow>
          (case read_stream (ra_items stream) llm_acc_new of
             (a, Some e) \<Rightarrow> (w2, begun @ map Emit (la_chunks a), Some (node_failed (ln_name n) e))
           | (a, None) \<Rightarrow> (w2, begun @ map Emit (la_chunks a) @ response_ops te a, None)))"

section \<open>The tool node\<close>

fun apply_budget_truncate :: "context_budget \<Rightarrow> message \<Rightarrow> message" where
  "apply_budget_truncate b (ToolResultMessage i False c) =
     (let truncated = truncate_tool_result_blocks b c in
      if truncated \<noteq> c then ToolResultMessage i False truncated else ToolResultMessage i False c)"
| "apply_budget_truncate b m = m"

fun set_block_cache :: "content_block \<Rightarrow> content_block" where
  "set_block_cache (TextBlock tb) = TextBlock \<lparr>tb_text = tb_text tb, tb_cache = Some Breakpoint\<rparr>"
| "set_block_cache b = b"

fun set_tool_result_cache :: "message \<Rightarrow> message" where
  "set_tool_result_cache (ToolResultMessage i e c) = ToolResultMessage i e (map set_block_cache c)"
| "set_tool_result_cache m = m"

definition apply_post_process :: "context_budget \<Rightarrow> message \<Rightarrow> message" where
  "apply_post_process b m = set_tool_result_cache (apply_budget_truncate b m)"

fun tool_output_chunk :: "message \<Rightarrow> string \<Rightarrow> string \<Rightarrow> nat \<Rightarrow> agent_chunk option" where
  "tool_output_chunk (ToolResultMessage _ is_error c) call_id name duration =
     Some (ChunkOutput call_id name (concat (block_texts c)) is_error duration)"
| "tool_output_chunk _ _ _ _ = None"

text \<open>
  \<open>tn_tasks\<close> is the durable task runtime of the current run, when there is one, as the way it
  executes a batch.
\<close>

type_synonym 'w durable_batch = "tool_call list \<Rightarrow> bool \<Rightarrow> 'w \<Rightarrow> (terminal_error + batch_result) \<times> 'w"

record 'w tool_node =
  tn_name :: string
  tn_executor :: "'w tool_executor"
  tn_config :: tool_use_config
  tn_env :: "'w tool_env"
  tn_tasks :: "'w \<Rightarrow> 'w durable_batch option"

definition requested_calls :: "agent_state \<Rightarrow> tool_call list" where
  "requested_calls s = (case as_response s of None \<Rightarrow> [] | Some r \<Rightarrow> response_tool_calls r)"

definition started_ops :: "tool_call \<Rightarrow> agent_leaf_op list" where
  "started_ops call = [Emit (ChunkTool QueuedPhase (tc_id call) (tc_name call)),
     Emit (ChunkTool StartedPhase (tc_id call) (tc_name call))]"

definition finished_ops :: "tool_call \<Rightarrow> message \<Rightarrow> nat \<Rightarrow> agent_leaf_op list" where
  "finished_ops call processed duration =
     Emit (ChunkTool FinishedPhase (tc_id call) (tc_name call))
     # (case tool_output_chunk processed (tc_id call) (tc_name call) duration of None \<Rightarrow> [] | Some c \<Rightarrow> [Emit c])"

definition tool_batch :: "'w tool_node \<Rightarrow> tool_call list \<Rightarrow> bool \<Rightarrow> 'w \<Rightarrow> (terminal_error + batch_result) \<times> 'w" where
  "tool_batch n calls cancelled w =
     (case tn_tasks n w of
        Some run \<Rightarrow> run calls cancelled w
      | None \<Rightarrow> (case execute_batch (tn_env n) (tn_executor n) calls w of (b, w') \<Rightarrow> (Inr b, w')))"

text \<open>The single pass over calls, results and durations, which ends with the shortest of the three.\<close>

definition processed_results :: "context_budget \<Rightarrow> tool_call list \<Rightarrow> batch_result \<Rightarrow> (tool_call \<times> message \<times> nat) list" where
  "processed_results b calls batch =
     map (\<lambda>((call, m), d). (call, apply_post_process b m, d)) (zip (zip calls (br_results batch)) (br_durations batch))"

definition tool_execute_node :: "'w tool_node \<Rightarrow> (agent_state, agent_mutation, agent_chunk, 'w) leaf_fn" where
  "tool_execute_node n w s cancelled =
     (let calls = requested_calls s in
      if calls = [] then (w, [], None)
      else
        let begun = concat (map started_ops calls) in
        case tool_batch n calls cancelled w of
          (Inl e, w') \<Rightarrow> (w', begun, Some e)
        | (Inr batch, w') \<Rightarrow>
            let processed = processed_results (uc_context_budget (tn_config n)) calls batch in
            (w', begun @ concat (map (\<lambda>(call, m, d). finished_ops call m d) processed)
                 @ [Record (AppendMessages (map (\<lambda>(_, m, _). m) processed))], None))"

section \<open>Guards\<close>

record stop_config =
  sc_max_iterations :: nat
  sc_max_reasoning_tokens :: "32 word option"
  sc_max_total_output_tokens :: "32 word option"
  sc_max_total_reasoning_tokens :: "32 word option"

definition stop_config_of :: "tool_use_config \<Rightarrow> stop_config" where
  "stop_config_of c = \<lparr>sc_max_iterations = uc_max_iterations c,
     sc_max_reasoning_tokens = ro_max_reasoning_tokens (uc_request_options c),
     sc_max_total_output_tokens = uc_max_total_output_tokens c,
     sc_max_total_reasoning_tokens = uc_max_total_reasoning_tokens c\<rparr>"

definition round_reasoning_tokens :: "text_env \<Rightarrow> content_block list \<Rightarrow> nat" where
  "round_reasoning_tokens te bs =
     sum_list (map (\<lambda>b. case b of ThinkingBlock th \<Rightarrow> estimate_reasoning_block (tx_alnum te) th | _ \<Rightarrow> 0) bs)"

definition budget_stop :: "text_env \<Rightarrow> stop_config \<Rightarrow> agent_state \<Rightarrow> chat_response \<Rightarrow> stop_reason option" where
  "budget_stop te sc s r =
     (if (case sc_max_reasoning_tokens sc of None \<Rightarrow> False
          | Some limit \<Rightarrow> round_reasoning_tokens te (rp_content r) > unat limit) then Some ReasoningBudgetExceeded
      else if (case sc_max_total_output_tokens sc of None \<Rightarrow> False
          | Some limit \<Rightarrow> as_output_tokens s \<ge> unat limit) then Some OutputBudgetExceeded
      else if (case sc_max_total_reasoning_tokens sc of None \<Rightarrow> False
          | Some limit \<Rightarrow> as_reasoning_tokens s \<ge> unat limit) then Some ReasoningBudgetExceeded
      else None)"

definition post_llm_ops :: "text_env \<Rightarrow> stop_config \<Rightarrow> agent_state \<Rightarrow> agent_leaf_op list" where
  "post_llm_ops te sc s =
     (let r = (case as_response s of None \<Rightarrow> empty_response | Some r \<Rightarrow> r) in
      if as_stop s \<noteq> None then [End]
      else if as_iterations s \<ge> sc_max_iterations sc then [Record (SetStopReason MaxIterationsReached), End]
      else case budget_stop te sc s r of
        Some reason \<Rightarrow> [Record (SetStopReason reason), End]
      | None \<Rightarrow>
          (if has_tool_calls r then [Goto ''tool''] else [Record (SetStopReason CompleteReason), End]))"

definition post_llm_execute :: "text_env \<Rightarrow> stop_config \<Rightarrow> (agent_state, agent_mutation, agent_chunk, 'w) leaf_fn" where
  "post_llm_execute te sc w s cancelled = (w, post_llm_ops te sc s, None)"

definition compactor_execute ::
  "text_env \<Rightarrow> (message list \<Rightarrow> context_budget \<Rightarrow> compaction_result) \<Rightarrow> context_budget
   \<Rightarrow> (agent_state, agent_mutation, agent_chunk, 'w) leaf_fn" where
  "compactor_execute te compact b w s cancelled =
     (w,
      if \<not> should_compact b (estimated_context_tokens (tx_alnum te) (tx_print te) s) then []
      else
        let r = compact (as_messages s) b in
        if cp_removed r > 0 then [Record (ReplaceMessages (cp_messages r)), Record IncrementCompactCount] else [],
      None)"

definition budget_execute :: "text_env \<Rightarrow> context_budget \<Rightarrow> (agent_state, agent_mutation, agent_chunk, 'w) leaf_fn" where
  "budget_execute te b w s cancelled =
     (w, [Goto (if should_compact b (estimated_context_tokens (tx_alnum te) (tx_print te) s) then ''compactor'' else ''llm'')],
      None)"

section \<open>The graph\<close>

record 'w agent_parts =
  ap_text :: text_env
  ap_llm :: "'w llm_node"
  ap_tool :: "'w tool_node"
  ap_compact :: "message list \<Rightarrow> context_budget \<Rightarrow> compaction_result"
  ap_compact_budget :: context_budget

type_synonym 'w agent_graph = "(agent_state, agent_mutation, agent_chunk, 'w) graph"

definition react_builder ::
  "'w agent_parts \<Rightarrow> 64 word \<Rightarrow> (agent_state, agent_mutation, agent_chunk, 'w) graph_builder" where
  "react_builder ap hash =
     (let c = ln_config (ap_llm ap);
          b1 = builder_end ''end'' (builder_start ''budget_check'' (builder_new (''react_'' @ ln_name (ap_llm ap))));
          b2 = builder_node ''llm'' (ExternalLeaf (llm_execute (ap_text ap) (ap_llm ap))) b1;
          tool = ExternalLeaf (tool_execute_node (ap_tool ap));
          b3 = (if uc_require_approval c
                then builder_edge ''tool_execute'' ''budget_check'' (builder_edge ''tool'' ''tool_execute''
                       (builder_node ''tool_execute'' tool
                         (builder_node ''tool'' (Barrier (barrier_new ''tool_approval'')) b2)))
                else builder_edge ''tool'' ''budget_check'' (builder_node ''tool'' tool b2));
          b4 = builder_node ''post_llm_check'' (ExternalLeaf (post_llm_execute (ap_text ap) (stop_config_of c))) b3;
          b5 = builder_node ''budget_check'' (ExternalLeaf (budget_execute (ap_text ap) (uc_context_budget c))) b4;
          b6 = builder_node ''compactor''
                 (ExternalLeaf (compactor_execute (ap_text ap) (ap_compact ap) (ap_compact_budget ap))) b5;
          b7 = builder_node ''end'' (Task (\<lambda>w s cancelled. (w, [], None))) b6;
          b8 = builder_edge_fallback ''budget_check'' ''compactor'' (builder_edge ''budget_check'' ''llm'' b7);
          b9 = builder_edge ''llm'' ''post_llm_check'' (builder_edge ''compactor'' ''llm'' b8);
          b10 = builder_edge_fallback ''post_llm_check'' ''end'' (builder_edge ''post_llm_check'' ''tool'' b9)
      in builder_canonical_hash hash b10)"

definition build_react_graph :: "'w agent_parts \<Rightarrow> 64 word \<Rightarrow> build_error list + 'w agent_graph" where
  "build_react_graph ap hash = build (react_builder ap hash)"

end
