(* ===== verification/Agent_Run.thy ===== *)
theory Agent_Run
  imports Agent_Nodes Resume
begin

text \<open>
  What a run of the agent's graph does: how many rounds it takes, when it can run out of steps,
  with what it ends, and which conversations reach the model. The graph is the one that
  \<open>Agent_Nodes\<close> builds; the runs are those of the execution loop of the engine.
\<close>

section \<open>Facts about the graph\<close>

definition react_graph :: "'w agent_parts \<Rightarrow> 64 word \<Rightarrow> 'w agent_graph" where
  "react_graph ap hash = projr (build_react_graph ap hash)"

lemmas react_builder_defs = react_builder_def builder_node_def builder_end_def builder_start_def builder_new_def
  builder_edge_def builder_edge_fallback_def builder_canonical_hash_def

lemma build_InrD': "build b = Inr g \<Longrightarrow> g_nodes g = gb_nodes b \<and> g_edges g = gb_edges b \<and> gb_end b = Some (g_end g)
   \<and> gb_start b = Some (g_start g)
   \<and> g_canonical_hash g = (case gb_hash b of None \<Rightarrow> compute_structural_hash (gb_nodes b) (gb_edges b) | Some h \<Rightarrow> h)"
  by (auto simp: build_def Let_def split: option.splits if_splits)

text \<open>The builder accepts the graph: the \<open>expect\<close> of the source never fires.\<close>

lemma build_react_graph_ok: "build (react_builder ap hash) = Inr (react_graph ap hash)"
proof -
  have "hm_ok (gb_nodes (react_builder ap hash))" "builder_wf (react_builder ap hash)"
    by (simp_all add: react_builder_defs Let_def builder_wf_def)
  from build_spec [OF this(1)] this(2) obtain g where "build (react_builder ap hash) = Inr g"
    by (auto split: sum.splits)
  then show ?thesis by (simp add: react_graph_def build_react_graph_def)
qed

lemma react_graph_ends [simp]:
  "g_end (react_graph ap hash) = ''end''" "g_start (react_graph ap hash) = ''budget_check''"
  using build_InrD' [OF build_react_graph_ok, of ap hash]
  by (cases "uc_require_approval (ln_config (ap_llm ap))"; simp add: react_builder_defs Let_def)+


lemma react_graph_node:
  "hm_get (g_nodes (react_graph ap hash)) n =
     (if n = ''end'' then Some (Task (\<lambda>w s cancelled. (w, [], None)))
      else if n = ''compactor'' then Some (ExternalLeaf (compactor_execute (ap_text ap) (ap_compact ap) (ap_compact_budget ap)))
      else if n = ''budget_check'' then Some (ExternalLeaf (budget_execute (ap_text ap) (uc_context_budget (ln_config (ap_llm ap)))))
      else if n = ''post_llm_check'' then Some (ExternalLeaf (post_llm_execute (ap_text ap) (stop_config_of (ln_config (ap_llm ap)))))
      else if n = ''llm'' then Some (ExternalLeaf (llm_execute (ap_text ap) (ap_llm ap)))
      else if uc_require_approval (ln_config (ap_llm ap)) then
        (if n = ''tool_execute'' then Some (ExternalLeaf (tool_execute_node (ap_tool ap)))
         else if n = ''tool'' then Some (Barrier (barrier_new ''tool_approval'')) else None)
      else if n = ''tool'' then Some (ExternalLeaf (tool_execute_node (ap_tool ap))) else None)"
  using build_InrD' [OF build_react_graph_ok, of ap hash]
  by (cases "uc_require_approval (ln_config (ap_llm ap))") (simp_all add: react_builder_defs Let_def)

text \<open>Where a node that sets no control goes.\<close>

lemma react_graph_next:
  "resolve_next_inline (react_graph ap hash) ''compactor'' s = Inr ''llm''"
  "resolve_next_inline (react_graph ap hash) ''llm'' s = Inr ''post_llm_check''"
  "\<not> uc_require_approval (ln_config (ap_llm ap)) \<Longrightarrow>
     resolve_next_inline (react_graph ap hash) ''tool'' s = Inr ''budget_check''"
  "uc_require_approval (ln_config (ap_llm ap)) \<Longrightarrow>
     resolve_next_inline (react_graph ap hash) ''tool'' s = Inr ''tool_execute''
     \<and> resolve_next_inline (react_graph ap hash) ''tool_execute'' s = Inr ''budget_check''"
proof -
  define e where "e x y b = \<lparr>e_from = x, e_to = y, e_condition = None :: (agent_state \<Rightarrow> bool) option, e_analysis = None, e_fallback = b\<rparr>"
    for x y b
  have edges: "g_edges (react_graph ap hash) =
    (if uc_require_approval (ln_config (ap_llm ap))
     then [e ''tool'' ''tool_execute'' False, e ''tool_execute'' ''budget_check'' False]
     else [e ''tool'' ''budget_check'' False])
    @ [e ''budget_check'' ''llm'' False, e ''budget_check'' ''compactor'' True, e ''compactor'' ''llm'' False,
       e ''llm'' ''post_llm_check'' False, e ''post_llm_check'' ''tool'' False, e ''post_llm_check'' ''end'' True]"
    using build_InrD' [OF build_react_graph_ok, of ap hash]
    by (cases "uc_require_approval (ln_config (ap_llm ap))") (simp_all add: react_builder_defs Let_def e_def)
  have e_simps: "e_from (e f t b) = f" "e_to (e f t b) = t" "edge_fires s (e f t b) = False" "is_normal (e f t b) \<longleftrightarrow> \<not> b" for f t b s
    by (simp_all add: e_def edge_fires_def is_normal_def)
  note resolve = resolve_next_inline_def resolve_next_def edges_from_def edges ok_or_def
  show "resolve_next_inline (react_graph ap hash) ''compactor'' s = Inr ''llm''"
    "resolve_next_inline (react_graph ap hash) ''llm'' s = Inr ''post_llm_check''"
    by (simp_all add: resolve e_simps)
  show "\<not> uc_require_approval (ln_config (ap_llm ap)) \<Longrightarrow>
     resolve_next_inline (react_graph ap hash) ''tool'' s = Inr ''budget_check''"
    by (simp add: resolve e_simps)
  show "uc_require_approval (ln_config (ap_llm ap)) \<Longrightarrow>
     resolve_next_inline (react_graph ap hash) ''tool'' s = Inr ''tool_execute''
     \<and> resolve_next_inline (react_graph ap hash) ''tool_execute'' s = Inr ''budget_check''"
    by (simp add: resolve e_simps)
qed

text \<open>Without approval no node needs a handler.\<close>

lemma react_graph_approval:
  "\<not> uc_require_approval (ln_config (ap_llm ap)) \<Longrightarrow> validate_approval_handlers h (react_graph ap hash) = None"
  using build_InrD' [OF build_react_graph_ok, of ap hash]
  by (simp add: react_builder_defs Let_def validate_approval_handlers_def)

section \<open>One step of a leaf\<close>

fun interrupts :: "('m, 'k) leaf_op \<Rightarrow> bool" where
  "interrupts (Pause _ _) \<longleftrightarrow> True"
| "interrupts CancelToken \<longleftrightarrow> True"
| "interrupts _ \<longleftrightarrow> False"

fun next_of :: "('m, 'k) leaf_op list \<Rightarrow> next_action option \<Rightarrow> next_action option" where
  "next_of [] a = a"
| "next_of (Goto t # ls) a = next_of ls (Some (GotoNode t))"
| "next_of (End # ls) a = next_of ls (Some EndRun)"
| "next_of (_ # ls) a = next_of ls a"

lemma recorded_append [simp]: "recorded (xs @ ys) = recorded xs @ recorded ys"
  by (induction xs rule: recorded.induct) simp_all

lemma next_of_append [simp]: "next_of (xs @ ys) a = next_of ys (next_of xs a)"
  by (induction xs a rule: next_of.induct) simp_all

lemma emits_only [simp]: "recorded (map Emit cs) = []" "next_of (map Emit cs) a = a" "list_ex interrupts (map Emit cs) = False"
  by (induction cs) simp_all

lemma exec_leaf_ops_control:
  "\<not> list_ex interrupts ls \<Longrightarrow> ctl_next (eng_control (exec_leaf_ops ls e)) = next_of ls (ctl_next (eng_control e))
     \<and> ctl_signal (eng_control (exec_leaf_ops ls e)) = ctl_signal (eng_control e)
     \<and> eng_cancelled (exec_leaf_ops ls e) = eng_cancelled e"
proof (induction ls arbitrary: e)
  case Nil
  show ?case by (simp add: exec_leaf_ops_def)
next
  case (Cons l ls)
  then show ?case
    by (cases l) (auto simp: exec_leaf_ops_Cons control_goto_def control_end_def split: option.splits)
qed

lemma commit_keeps_cancelled: "eng_cancelled (rs_engine (snd (commit_and_take env rs))) = eng_cancelled (rs_engine rs)"
  by (simp add: commit_and_take_def take_control_def commit_def take_commit_batch_def apply_batch_to_state_def Let_def split: prod.splits)

text \<open>
  A step at a leaf that neither pauses nor cancels: it does not start when the budget is used up; it fails
  as the node does, and the state stays; or it commits what the node recorded and goes where
  the node says, unless the checkpoint cannot be saved.
\<close>

definition leaf_commit where
  "leaf_commit env ops rs = apply_batch (re_ops env) (recorded ops) (eng_state (rs_engine rs))"

lemma leaf_step:
  assumes node: "hm_get (g_nodes g) c = Some (ExternalLeaf f)"
    and "clean (rs_engine rs)"
    and f: "f (rs_world rs) (eng_state (rs_engine rs)) (eng_cancelled (rs_engine rs)) = (w, ops, err)"
    and "\<not> list_ex interrupts ops" and "mx \<le> usize_max"
  obtains (exhausted) "loop_step env par g sk c k mx rs = Stop (Some (StepsExceeded mx)) rs" "mx \<le> k"
  | (failed) e rs' where "loop_step env par g sk c k mx rs = Stop (Some e) rs'" "err = Some e" "k < mx"
      "eng_state (rs_engine rs') = eng_state (rs_engine rs)" "log_extends rs rs' [(c, Suc k)]"
  | (unsaved) t rs' where "loop_step env par g sk c k mx rs = Stop (Some (CheckpointSaveFailed t)) rs'" "err = None" "k < mx"
      "sk_checkpoint sk \<noteq> None"
      "eng_state (rs_engine rs') = leaf_commit env ops rs" "log_extends rs rs' [(c, Suc k)]"
  | (unrouted) e rs' where "loop_step env par g sk c k mx rs = Stop (Some e) rs'" "err = None" "k < mx"
      "resolve_next_opt g (case next_of ops None of None \<Rightarrow> Next | Some a \<Rightarrow> a) c (leaf_commit env ops rs) = Inl e"
  | (ended) rs' where "loop_step env par g sk c k mx rs = Stop None rs'" "err = None" "k < mx"
      "resolve_next_opt g (case next_of ops None of None \<Rightarrow> Next | Some a \<Rightarrow> a) c (leaf_commit env ops rs) = Inr None"
      "eng_state (rs_engine rs') = leaf_commit env ops rs" "log_extends rs rs' [(c, Suc k)]"
  | (continued) n rs' where "loop_step env par g sk c k mx rs = Continue n (Suc k) rs'" "err = None" "k < mx"
      "resolve_next_opt g (case next_of ops None of None \<Rightarrow> Next | Some a \<Rightarrow> a) c (leaf_commit env ops rs) = Inr (Some n)"
      "eng_state (rs_engine rs') = leaf_commit env ops rs" "log_extends rs rs' [(c, Suc k)]" "clean (rs_engine rs')"
      "eng_cancelled (rs_engine rs') = eng_cancelled (rs_engine rs)"
proof (cases "k < mx")
  case False
  then have "loop_step env par g sk c k mx rs = Stop (Some (StepsExceeded mx)) rs"
    using assms(5) by (auto simp: loop_step_def split: option.splits)
  with False show ?thesis by (intro exhausted) simp_all
next
  case True
  then have lim: "Suc k \<le> mx" "Suc k \<le> usize_max" using assms(5) by simp_all
  define rs1 where "rs1 = (log_event (NodeStart c (Suc k)) rs)\<lparr>rs_world := w, rs_engine := exec_leaf_ops ops (rs_engine rs)\<rparr>"
  have ex: "exec_node par c (ExternalLeaf f) (log_event (NodeStart c (Suc k)) rs) = (err, rs1)"
    using f by (simp add: run_leaf_fn_def rs1_def)
  obtain action signal rs2 where ct: "commit_and_take env (log_event (NodeEnd c (Suc k) True) rs1) = ((action, signal), rs2)"
    by (metis prod.exhaust)
  have ctl: "ctl_next (eng_control (exec_leaf_ops ops (rs_engine rs))) = next_of ops None"
      "ctl_signal (eng_control (exec_leaf_ops ops (rs_engine rs))) = None"
      "eng_cancelled (exec_leaf_ops ops (rs_engine rs)) = eng_cancelled (rs_engine rs)"
    using exec_leaf_ops_control [OF assms(4), of "rs_engine rs"] assms(2) by (simp_all add: clean_def control_new_def)
  have act: "action = (case next_of ops None of None \<Rightarrow> Next | Some a \<Rightarrow> a)" "signal = None"
    using ct ctl by (auto simp: commit_and_take_def take_control_def control_take_def rs1_def split: prod.splits)
  have rs2: "eng_state (rs_engine rs2) = leaf_commit env ops rs" "clean (rs_engine rs2)" "rs_log rs2 = rs_log rs1 @ [NodeEnd c (Suc k) True]"
      "eng_cancelled (rs_engine rs2) = eng_cancelled (rs_engine rs)"
    using ctl(3) ct commit_keeps_cancelled [of env "log_event (NodeEnd c (Suc k) True) rs1"] commit_and_take_simps [of env "log_event (NodeEnd c (Suc k) True) rs1"] assms(2)
    by (simp_all add: leaf_commit_def clean_def rs1_def exec_leaf_ops_mutations exec_leaf_ops_state)
  then have log2: "log_extends rs rs2 [(c, Suc k)]" by (simp add: log_extends_def rs1_def)
  have ro: "route g sk c (ExternalLeaf f) action signal rs2
      = (resolve_next_opt g action c (leaf_commit env ops rs), rs2)"
    by (simp add: route_def act rs2)
  note step = loop_step_ran [OF node lim ex ct ro]
  have saved: "eng_state (rs_engine rs4) = leaf_commit env ops rs" "clean (rs_engine rs4)" "log_extends rs rs4 [(c, Suc k)]"
      "eng_cancelled (rs_engine rs4) = eng_cancelled (rs_engine rs)"
    if "emit_checkpoint sk nx (Suc k) rs2 = (r, rs4)" for nx r rs4
    using that emit_checkpoint_simps [of sk nx "Suc k" rs2] rs2 log2 by (simp_all add: log_extends_def)
  show ?thesis
  proof (cases err)
    case (Some e)
    have "log_extends rs (log_event (NodeEnd c (Suc k) False) rs1) [(c, Suc k)]" by (simp add: log_extends_def rs1_def)
    moreover have "eng_state (rs_engine rs1) = eng_state (rs_engine rs)" by (simp add: rs1_def exec_leaf_ops_state)
    ultimately show ?thesis using step Some True by (intro failed) simp_all
  next
    case None
    show ?thesis
    proof (cases "resolve_next_opt g action c (leaf_commit env ops rs)")
      case (Inl e)
      with step None True act show ?thesis by (intro unrouted) simp_all
    next
      case (Inr nx)
      obtain r rs4 where em: "emit_checkpoint sk nx (Suc k) rs2 = (r, rs4)" by fastforce
      note s4 = saved [OF em]
      show ?thesis
      proof (cases r)
        case (Some e)
        then obtain t where "e = CheckpointSaveFailed t" "sk_checkpoint sk \<noteq> None"
          using em by (auto simp: emit_checkpoint_def split: option.splits prod.splits)
        with step None True Inr em Some s4 show ?thesis by (intro unsaved) simp_all
      next
        case None': None
        show ?thesis
        proof (cases nx)
          case None
          with step \<open>err = None\<close> True Inr em None' s4 act show ?thesis by (intro ended) simp_all
        next
          case (Some n)
          with step \<open>err = None\<close> True Inr em None' s4 act show ?thesis by (intro continued [of n rs4]) simp_all
        qed
      qed
    qed
  qed
qed

text \<open>An invariant of the loop's configurations holds where the loop stops.\<close>

lemma run_loop_invariant:
  assumes "P c k rs"
    and step: "\<And>c k rs n k' rs'. P c k rs \<Longrightarrow> loop_step env par g sk c k mx rs = Continue n k' rs' \<Longrightarrow> P n k' rs'"
    and stop: "\<And>c k rs r rs'. P c k rs \<Longrightarrow> loop_step env par g sk c k mx rs = Stop r rs' \<Longrightarrow> Q r rs'"
  shows "case run_loop env par g sk c k mx rs of (r, rs') \<Rightarrow> Q r rs'"
  using assms(1)
proof (induction "mx - k" arbitrary: c k rs rule: less_induct)
  case less
  show ?case
  proof (cases "loop_step env par g sk c k mx rs")
    case (Stop r rs')
    with stop [OF less.prems Stop] show ?thesis by (simp add: run_loop_Stop)
  next
    case (Continue n k' rs')
    from loop_step_Continue [OF Continue] have "mx - k' < mx - k" by linarith
    from less.hyps [OF this step [OF less.prems Continue]] show ?thesis
      by (simp add: run_loop_Continue [OF Continue])
  qed
qed

section \<open>The rounds of an agent\<close>

text \<open>
  The abstract machine: a node and the state. It has no engine, no world and no log; what the
  model answers and what the tools return is any response and any results for its calls.
\<close>

definition needs_compaction :: "'w agent_parts \<Rightarrow> context_budget \<Rightarrow> agent_state \<Rightarrow> bool" where
  "needs_compaction ap b s \<longleftrightarrow>
     should_compact b (estimated_context_tokens (tx_alnum (ap_text ap)) (tx_print (ap_text ap)) s)"

abbreviation agent_config :: "'w agent_parts \<Rightarrow> tool_use_config" where
  "agent_config ap \<equiv> ln_config (ap_llm ap)"

definition results_for :: "tool_call list \<Rightarrow> message list \<Rightarrow> bool" where
  "results_for calls ms \<longleftrightarrow> list_all2 (\<lambda>call m. \<exists>e c. m = ToolResultMessage (tc_id call) e c) calls ms"

definition answered_state :: "chat_response \<Rightarrow> nat \<Rightarrow> nat \<Rightarrow> nat \<Rightarrow> agent_state \<Rightarrow> agent_state" where
  "answered_state r out reasoning n s =
     s\<lparr>as_messages := as_messages s @ [AssistantMessage (rp_content r)], as_iterations := Suc (as_iterations s),
       as_tool_calls := as_tool_calls s + n, as_output_tokens := as_output_tokens s + out,
       as_reasoning_tokens := as_reasoning_tokens s + reasoning, as_response := Some r\<rparr>"

inductive react_step :: "'w agent_parts \<Rightarrow> string \<times> agent_state \<Rightarrow> string \<times> agent_state \<Rightarrow> bool" for ap where
  fits: "\<not> needs_compaction ap (uc_context_budget (agent_config ap)) s \<Longrightarrow>
    react_step ap (''budget_check'', s) (''llm'', s)"
| full: "needs_compaction ap (uc_context_budget (agent_config ap)) s \<Longrightarrow>
    react_step ap (''budget_check'', s) (''compactor'', s)"
| kept: "react_step ap (''compactor'', s) (''llm'', s)"
| compacted: "needs_compaction ap (ap_compact_budget ap) s \<Longrightarrow>
    react_step ap (''compactor'', s)
      (''llm'', s\<lparr>as_messages := cp_messages (ap_compact ap (as_messages s) (ap_compact_budget ap)),
                  as_compact_count := Suc (as_compact_count s)\<rparr>)"
| answered: "react_step ap (''llm'', s) (''post_llm_check'', answered_state r out reasoning n s)"
| called: "as_stop s = None \<Longrightarrow> as_iterations s < uc_max_iterations (agent_config ap) \<Longrightarrow>
    as_response s = Some r \<Longrightarrow> has_tool_calls r \<Longrightarrow> react_step ap (''post_llm_check'', s) (''tool'', s)"
| executed: "results_for (requested_calls s) ms \<Longrightarrow>
    react_step ap (''tool'', s) (''budget_check'', s\<lparr>as_messages := as_messages s @ ms\<rparr>)"

inductive_cases react_step_cases: "react_step ap (c, s) (c', s')"

subsection \<open>What the nodes record\<close>

lemma budget_execute_ops:
  "budget_execute (ap_text ap) b w s cancelled =
     (w, [Goto (if needs_compaction ap b s then ''compactor'' else ''llm'')], None)"
  by (simp add: budget_execute_def needs_compaction_def)

lemma compactor_execute_ops:
  assumes "compactor_execute (ap_text ap) compact b w s cancelled = (w', ops, err)"
  shows "err = None \<and> \<not> list_ex interrupts ops \<and> next_of ops None = None
    \<and> (recorded ops = []
       \<or> needs_compaction ap b s \<and> recorded ops = [ReplaceMessages (cp_messages (compact (as_messages s) b)), IncrementCompactCount])"
  using assms by (auto simp: compactor_execute_def needs_compaction_def Let_def split: if_splits)

lemma response_ops_facts:
  "\<not> list_ex interrupts (response_ops te a)" "next_of (response_ops te a) x = x"
  "\<exists>out reasoning n. recorded (response_ops te a) =
     [AddOutputTokens out, AddReasoningTokens reasoning, AppendMessage (AssistantMessage (rp_content (acc_response a)))]
     @ (if has_tool_calls (acc_response a) then [AddToolCalls n] else []) @ [SetLastResponse (acc_response a)]"
  by (auto simp: response_ops_def Let_def split_beta)

lemma llm_execute_ops:
  assumes "llm_execute te n w s cancelled = (w', ops, err)"
  shows "\<not> list_ex interrupts ops \<and> next_of ops None = None
    \<and> ((\<exists>e. err = Some (node_failed (ln_name n) e))
       \<or> err = None \<and> (\<exists>a. recorded ops = IncrementIteration # recorded (response_ops te a)))"
proof -
  obtain w1 snap where c: "ex_catalog (ln_executor n) w = (w1, snap)" by fastforce
  obtain w2 opened where i: "invoke_stream (ln_invoker n) (llm_request n s snap) (as_messages s) (as_iterations s) w1 = (w2, opened)"
    by fastforce
  show ?thesis
  proof (cases opened)
    case (Inl e)
    with assms c i show ?thesis by (auto simp: llm_execute_def Let_def)
  next
    case (Inr stream)
    obtain a e where r: "read_stream (ra_items stream) llm_acc_new = (a, e)" by fastforce
    with assms c i Inr response_ops_facts(1,2) [of te a] show ?thesis
      by (cases e) (auto simp: llm_execute_def Let_def)
  qed
qed

lemma answered_batch:
  "\<exists>r out reasoning k. apply_batch agent_ops (IncrementIteration # recorded (response_ops te a)) s = answered_state r out reasoning k s"
proof -
  obtain out reasoning n where rec: "recorded (response_ops te a) =
     [AddOutputTokens out, AddReasoningTokens reasoning, AppendMessage (AssistantMessage (rp_content (acc_response a)))]
     @ (if has_tool_calls (acc_response a) then [AddToolCalls n] else []) @ [SetLastResponse (acc_response a)]"
    using response_ops_facts(3) by blast
  have "apply_batch agent_ops (IncrementIteration # recorded (response_ops te a)) s
      = answered_state (acc_response a) out reasoning (if has_tool_calls (acc_response a) then n else 0) s"
    by (simp add: rec apply_batch_def agent_ops_def answered_state_def)
  then show ?thesis by blast
qed

lemma post_process_id:
  "m = ToolResultMessage i e c \<Longrightarrow> \<exists>c'. apply_post_process b m = ToolResultMessage i e c'"
  by (cases e) (simp_all add: apply_post_process_def Let_def)

lemma tool_result_message_shape: "\<exists>e c. tool_result_message print call r = ToolResultMessage (tc_id call) e c"
  by (cases r) (auto simp: tool_result_message_def)

lemma is_answer_message: "is_answer env p snap call m \<Longrightarrow> \<exists>e c. m = ToolResultMessage (tc_id call) e c"
  using tool_result_message_shape by (auto simp: is_answer_def)

lemma processed_results_for:
  assumes "list_all2 (is_answer env p snap) calls (br_results batch)" "length (br_durations batch) = length calls"
  shows "results_for calls (map (\<lambda>(_, m, _). m) (processed_results b calls batch))"
proof -
  have len: "length (br_results batch) = length calls" using assms(1) by (simp add: list_all2_lengthD)
  have "\<exists>e c. apply_post_process b (br_results batch ! i) = ToolResultMessage (tc_id (calls ! i)) e c" if "i < length calls" for i
    using list_all2_nthD [OF assms(1) that] is_answer_message post_process_id by blast
  with assms(2) len show ?thesis
    by (simp add: results_for_def processed_results_def list_all2_conv_all_nth split_beta)
qed

lemma emitted_ops_facts:
  "list_ex interrupts (concat (map started_ops calls)) = False" "next_of (concat (map started_ops calls)) a = a"
  "recorded (concat (map started_ops calls)) = []"
  "list_ex interrupts (concat (map (\<lambda>(call, m, d). finished_ops call m d) ps)) = False"
  "next_of (concat (map (\<lambda>(call, m, d). finished_ops call m d) ps)) a = a"
  "recorded (concat (map (\<lambda>(call, m, d). finished_ops call m d) ps)) = []"
  by (induction calls, simp_all add: started_ops_def) (induction ps; auto simp: finished_ops_def split: option.splits)+

lemma tool_execute_ops:
  assumes "tool_execute_node n w s cancelled = (w', ops, err)" "tn_tasks n w = None"
  shows "err = None \<and> \<not> list_ex interrupts ops \<and> next_of ops None = None
    \<and> (\<exists>ms. results_for (requested_calls s) ms \<and> apply_batch agent_ops (recorded ops) s = s\<lparr>as_messages := as_messages s @ ms\<rparr>)"
proof (cases "requested_calls s = []")
  case True
  with assms(1) show ?thesis
    by (auto simp: tool_execute_node_def results_for_def apply_batch_def intro!: exI [of _ "[]"])
next
  case False
  obtain b w1 where b: "execute_batch (tn_env n) (tn_executor n) (requested_calls s) w = (b, w1)" by fastforce
  let ?ps = "processed_results (uc_context_budget (tn_config n)) (requested_calls s) b"
  from batch_answers_every_call [of "tn_env n" "tn_executor n" "requested_calls s" w] b
  have "results_for (requested_calls s) (map (\<lambda>(_, m, _). m) ?ps)"
    using processed_results_for by fastforce
  moreover have "ops = concat (map started_ops (requested_calls s))
      @ concat (map (\<lambda>(call, m, d). finished_ops call m d) ?ps) @ [Record (AppendMessages (map (\<lambda>(_, m, _). m) ?ps))]"
    "err = None"
    using assms False b by (auto simp: tool_execute_node_def tool_batch_def Let_def)
  ultimately show ?thesis
    by (simp add: emitted_ops_facts apply_batch_def agent_ops_def) blast
qed

lemma post_llm_ops_spec:
  "post_llm_ops te sc s = [End] \<and> as_stop s \<noteq> None
   \<or> (\<exists>reason. post_llm_ops te sc s = [Record (SetStopReason reason), End]
        \<and> (reason = CompleteReason \<longrightarrow> requested_calls s = []))
   \<or> (\<exists>r. post_llm_ops te sc s = [Goto ''tool''] \<and> as_stop s = None \<and> as_iterations s < sc_max_iterations sc
        \<and> as_response s = Some r \<and> has_tool_calls r)"
proof -
  have "\<not> has_tool_calls empty_response"
    by (simp add: has_tool_calls_def response_tool_calls_def empty_response_def text_blocks_def block_text_def map_filter_simps)
  then show ?thesis
    by (cases "as_response s"; cases "as_stop s";
        cases "budget_stop te sc s (case as_response s of None \<Rightarrow> empty_response | Some r \<Rightarrow> r)")
      (auto simp: post_llm_ops_def Let_def requested_calls_def has_tool_calls_def budget_stop_def split: if_splits)
qed

subsection \<open>The loop refines the abstract machine\<close>

definition visited :: "string \<Rightarrow> ('s, 'm, 'k, 'w) run_state \<Rightarrow> nat" where
  "visited n rs = count_list (map fst (starts (rs_log rs))) n"

lemma visited_extends: "log_extends rs rs' [(c, k)] \<Longrightarrow> visited n rs' = visited n rs + (if c = n then 1 else 0)"
  by (auto simp: log_extends_def visited_def)

text \<open>An agent whose runs are neither durable nor approved by hand.\<close>

definition plain_agent :: "'w agent_parts \<Rightarrow> bool" where
  "plain_agent ap \<longleftrightarrow> \<not> uc_require_approval (agent_config ap) \<and> tn_tasks (ap_tool ap) = (\<lambda>_. None)"

definition stopped_from :: "agent_state \<Rightarrow> agent_state \<Rightarrow> bool" where
  "stopped_from s s' \<longleftrightarrow> is_terminal s' \<and> s' = s\<lparr>as_stop := as_stop s'\<rparr>
     \<and> (as_stop s = None \<and> as_stop s' = Some CompleteReason \<longrightarrow> requested_calls s = [])"

text \<open>What a stop may be: out of steps before the node, a failed model call, an unsaved boundary, or the verdict of the guard.\<close>

definition model_error :: "'w agent_parts \<Rightarrow> terminal_error \<Rightarrow> bool" where
  "model_error ap e \<longleftrightarrow> (\<exists>x. e = node_failed (ln_name (ap_llm ap)) x)
     \<and> (\<exists>w s cancelled. snd (snd (llm_execute (ap_text ap) (ap_llm ap) w s cancelled)) = Some e)"

definition proper_stop where
  "proper_stop ap sk mx c k rs r rs' \<longleftrightarrow>
     (case r of
        Some e \<Rightarrow>
          e = StepsExceeded mx \<and> mx \<le> k \<and> rs' = rs
          \<or> k < mx \<and> log_extends rs rs' [(c, Suc k)]
             \<and> (c = ''llm'' \<and> model_error ap e \<and> eng_state (rs_engine rs') = eng_state (rs_engine rs)
               \<or> sk_checkpoint sk \<noteq> None \<and> (\<exists>t. e = CheckpointSaveFailed t))
      | None \<Rightarrow> k < mx \<and> log_extends rs rs' [(c, Suc k)] \<and> c = ''post_llm_check''
          \<and> stopped_from (eng_state (rs_engine rs)) (eng_state (rs_engine rs')))"

definition refined where
  "refined ap sk mx c k rs out \<longleftrightarrow>
     (case out of
        Stop r rs' \<Rightarrow> proper_stop ap sk mx c k rs r rs'
      | Continue n k' rs' \<Rightarrow> k < mx \<and> k' = Suc k \<and> clean (rs_engine rs') \<and> log_extends rs rs' [(c, Suc k)]
          \<and> eng_cancelled (rs_engine rs') = eng_cancelled (rs_engine rs)
          \<and> react_step ap (c, eng_state (rs_engine rs)) (n, eng_state (rs_engine rs')))"

definition agent_node :: "string \<Rightarrow> bool" where
  "agent_node c \<longleftrightarrow> c \<in> {''budget_check'', ''compactor'', ''llm'', ''post_llm_check'', ''tool''}"

lemma plain_leaf_step:
  assumes node: "hm_get (g_nodes (react_graph ap hash)) c = Some (ExternalLeaf f)" and "clean (rs_engine rs)" and "mx \<le> usize_max"
    and f: "f (rs_world rs) (eng_state (rs_engine rs)) (eng_cancelled (rs_engine rs)) = (w, ops, err)"
    and ops: "\<not> list_ex interrupts ops"
    and failed: "\<And>e. err = Some e \<Longrightarrow> c = ''llm'' \<and> model_error ap e"
    and succeeded: "err = None \<Longrightarrow>
      (case resolve_next_opt (react_graph ap hash) (case next_of ops None of None \<Rightarrow> Next | Some a \<Rightarrow> a) c (leaf_commit env ops rs) of
         Inl e \<Rightarrow> False
       | Inr None \<Rightarrow> c = ''post_llm_check'' \<and> stopped_from (eng_state (rs_engine rs)) (leaf_commit env ops rs)
       | Inr (Some n) \<Rightarrow> react_step ap (c, eng_state (rs_engine rs)) (n, leaf_commit env ops rs))"
  shows "refined ap sk mx c k rs (loop_step env par (react_graph ap hash) sk c k mx rs)"
proof (cases rule: leaf_step [OF node assms(2) f ops assms(3), of env par sk k,
      case_names exhausted failed unsaved unrouted ended continued])
  case exhausted
  then show ?thesis by (simp add: refined_def proper_stop_def)
next
  case (failed e rs')
  with assms(6) show ?thesis by (simp add: refined_def proper_stop_def)
next
  case (unsaved t rs')
  then show ?thesis by (simp add: refined_def proper_stop_def)
next
  case (unrouted e rs')
  with succeeded show ?thesis by simp
next
  case (ended rs')
  with succeeded show ?thesis by (simp add: refined_def proper_stop_def)
next
  case (continued n rs')
  with succeeded show ?thesis by (simp add: refined_def)
qed

lemma plain_agent_step:
  assumes plain: "plain_agent ap" and ops: "re_ops env = agent_ops" and mx: "mx \<le> usize_max"
    and c: "agent_node c" and clean: "clean (rs_engine rs)"
  shows "refined ap sk mx c k rs (loop_step env par (react_graph ap hash) sk c k mx rs)"
proof -
  let ?s = "eng_state (rs_engine rs)" and ?w = "rs_world rs" and ?x = "eng_cancelled (rs_engine rs)"
  let ?g = "react_graph ap hash"
  have com: "leaf_commit env l rs = apply_batch agent_ops (recorded l) ?s" for l
    by (simp add: leaf_commit_def ops)
  have nil: "apply_batch agent_ops [] s = s" for s by (simp add: apply_batch_def)
  note step = plain_leaf_step [OF _ clean mx, where env = env and par = par and sk = sk and k = k]
  from c consider "c = ''budget_check''" | "c = ''compactor''" | "c = ''llm''" | "c = ''post_llm_check''" | "c = ''tool''"
    by (auto simp: agent_node_def)
  then show ?thesis
  proof cases
    case 1
    show ?thesis unfolding 1
      by (rule step [where w = ?w and err = None and
            f = "budget_execute (ap_text ap) (uc_context_budget (agent_config ap))" and
            ops = "[Goto (if needs_compaction ap (uc_context_budget (agent_config ap)) ?s then ''compactor'' else ''llm'')]"])
        (auto simp: react_graph_node budget_execute_ops resolve_next_opt_def com nil intro: react_step.intros)
  next
    case 2
    obtain w' l err where f: "compactor_execute (ap_text ap) (ap_compact ap) (ap_compact_budget ap) ?w ?s ?x = (w', l, err)"
      by (metis prod_cases3)
    note facts = compactor_execute_ops [OF f]
    show ?thesis unfolding 2
    proof (rule step [where f = "compactor_execute (ap_text ap) (ap_compact ap) (ap_compact_budget ap)", OF _ f])
      show "case resolve_next_opt ?g (case next_of l None of None \<Rightarrow> Next | Some a \<Rightarrow> a) ''compactor'' (leaf_commit env l rs) of
          Inl e \<Rightarrow> False
        | Inr None \<Rightarrow> ''compactor'' = ''post_llm_check'' \<and> stopped_from ?s (leaf_commit env l rs)
        | Inr (Some n) \<Rightarrow> react_step ap (''compactor'', ?s) (n, leaf_commit env l rs)"
        using facts by (auto simp: resolve_next_opt_def react_graph_next com nil apply_batch_def agent_ops_def intro: react_step.intros)
    qed (use facts in \<open>auto simp: react_graph_node\<close>)
  next
    case 3
    obtain w' l err where f: "llm_execute (ap_text ap) (ap_llm ap) ?w ?s ?x = (w', l, err)" by (metis prod_cases3)
    note facts = llm_execute_ops [OF f]
    show ?thesis unfolding 3
    proof (rule step [where f = "llm_execute (ap_text ap) (ap_llm ap)", OF _ f])
      assume "err = None"
      with facts obtain a where "recorded l = IncrementIteration # recorded (response_ops (ap_text ap) a)" by auto
      with answered_batch [of "ap_text ap" a ?s] com obtain r out reasoning n where "leaf_commit env l rs = answered_state r out reasoning n ?s"
        by metis
      with facts show "case resolve_next_opt ?g (case next_of l None of None \<Rightarrow> Next | Some a \<Rightarrow> a) ''llm'' (leaf_commit env l rs) of
          Inl e \<Rightarrow> False
        | Inr None \<Rightarrow> ''llm'' = ''post_llm_check'' \<and> stopped_from ?s (leaf_commit env l rs)
        | Inr (Some n) \<Rightarrow> react_step ap (''llm'', ?s) (n, leaf_commit env l rs)"
        by (auto simp: resolve_next_opt_def react_graph_next intro: react_step.intros)
    next
      fix e
      assume "err = Some e"
      with facts f show "''llm'' = ''llm'' \<and> model_error ap e" unfolding model_error_def by (metis option.distinct(1) option.inject snd_conv)
    qed (use facts in \<open>auto simp: react_graph_node\<close>)
  next
    case 4
    let ?l = "post_llm_ops (ap_text ap) (stop_config_of (agent_config ap)) ?s"
    let ?to = "\<lambda>l. resolve_next_opt ?g (case next_of l None of None \<Rightarrow> Next | Some a \<Rightarrow> a) ''post_llm_check'' (leaf_commit env l rs)"
    note facts = com nil apply_batch_def agent_ops_def resolve_next_opt_def is_terminal_def stop_config_of_def stopped_from_def
    consider "?l = [End]" "as_stop ?s \<noteq> None" | reason where "?l = [Record (SetStopReason reason), End]" "reason = CompleteReason \<longrightarrow> requested_calls ?s = []"
      | r where "?l = [Goto ''tool'']" "as_stop ?s = None" "as_iterations ?s < uc_max_iterations (agent_config ap)"
          "as_response ?s = Some r" "has_tool_calls r"
      using post_llm_ops_spec [of "ap_text ap" "stop_config_of (agent_config ap)" ?s] by (auto simp: stop_config_of_def)
    then have "\<not> list_ex interrupts ?l \<and> (case ?to ?l of
          Inl e \<Rightarrow> False
        | Inr None \<Rightarrow> stopped_from ?s (leaf_commit env ?l rs)
        | Inr (Some n) \<Rightarrow> react_step ap (''post_llm_check'', ?s) (n, leaf_commit env ?l rs))"
    proof cases
      case 1
      then show ?thesis by (auto simp: facts)
    next
      case 2
      then show ?thesis by (auto simp: facts)
    next
      case 3
      then show ?thesis by (simp add: facts react_step.called)
    qed
    then show ?thesis unfolding 4
      by (intro step [where w = ?w and ops = ?l and err = None and
            f = "post_llm_execute (ap_text ap) (stop_config_of (agent_config ap))"])
        (simp_all add: react_graph_node post_llm_execute_def cong: option.case_cong split: sum.splits)
  next
    case 5
    obtain w' l err where f: "tool_execute_node (ap_tool ap) ?w ?s ?x = (w', l, err)" by (metis prod_cases3)
    from plain have plain': "\<not> uc_require_approval (agent_config ap)" "tn_tasks (ap_tool ap) ?w = None" by (simp_all add: plain_agent_def)
    note facts = tool_execute_ops [OF f plain'(2)]
    show ?thesis unfolding 5
    proof (rule step [where f = "tool_execute_node (ap_tool ap)", OF _ f])
      show "case resolve_next_opt ?g (case next_of l None of None \<Rightarrow> Next | Some a \<Rightarrow> a) ''tool'' (leaf_commit env l rs) of
          Inl e \<Rightarrow> False
        | Inr None \<Rightarrow> ''tool'' = ''post_llm_check'' \<and> stopped_from ?s (leaf_commit env l rs)
        | Inr (Some n) \<Rightarrow> react_step ap (''tool'', ?s) (n, leaf_commit env l rs)"
        using facts plain'(1) by (auto simp: resolve_next_opt_def react_graph_next com intro: react_step.intros)
    qed (use facts plain'(1) in \<open>auto simp: react_graph_node\<close>)
  qed
qed

subsection \<open>Rounds\<close>

text \<open>
  Where a run stands: how often the model and the compactor were visited, and the step counter,
  as functions of the iterations. A round is four steps, five with the compactor.
\<close>

definition round_bound :: "'w agent_parts \<Rightarrow> nat" where
  "round_bound ap = max 1 (uc_max_iterations (agent_config ap))"

definition round_inv where
  "round_inv ap c k rs \<longleftrightarrow> agent_node c \<and> clean (rs_engine rs)
     \<and> (let i = as_iterations (eng_state (rs_engine rs)); v = visited ''compactor'' rs; n = round_bound ap in
        visited ''llm'' rs = i
        \<and> (if c = ''post_llm_check'' then 1 \<le> i \<and> i \<le> n \<and> v \<le> i \<and> k + 2 = 4 * i + v
           else if c = ''tool'' then 1 \<le> i \<and> i < n \<and> v \<le> i \<and> k + 1 = 4 * i + v
           else if c = ''budget_check'' then i < n \<and> v \<le> i \<and> k = 4 * i + v
           else if c = ''compactor'' then i < n \<and> v \<le> i \<and> k = 4 * i + 1 + v
           else i < n \<and> v \<le> Suc i \<and> k = 4 * i + 1 + v))"

definition run_verdict ::
  "'w agent_parts \<Rightarrow> (agent_state, 'w) sinks \<Rightarrow> nat \<Rightarrow> terminal_error option
   \<Rightarrow> (agent_state, agent_mutation, agent_chunk, 'w) run_state \<Rightarrow> bool" where
  "run_verdict ap sk mx r rs \<longleftrightarrow> visited ''llm'' rs \<le> round_bound ap \<and> visited ''compactor'' rs \<le> round_bound ap
     \<and> (case r of
          None \<Rightarrow> is_terminal (eng_state (rs_engine rs)) \<and> visited ''llm'' rs = as_iterations (eng_state (rs_engine rs))
            \<and> 1 \<le> as_iterations (eng_state (rs_engine rs))
        | Some e \<Rightarrow> e = StepsExceeded mx \<and> mx + 2 \<le> 4 * round_bound ap + visited ''compactor'' rs
            \<or> model_error ap e \<or> sk_checkpoint sk \<noteq> None \<and> (\<exists>t. e = CheckpointSaveFailed t))"

lemma round_inv_step:
  assumes "round_inv ap c k rs" "refined ap sk mx c k rs (Continue n k' rs')"
  shows "round_inv ap n k' rs'"
proof -
  from assms(2) have step: "react_step ap (c, eng_state (rs_engine rs)) (n, eng_state (rs_engine rs'))"
    and k': "k' = Suc k" and clean: "clean (rs_engine rs')" and log: "log_extends rs rs' [(c, Suc k)]"
    by (simp_all add: refined_def)
  let ?i = "as_iterations (eng_state (rs_engine rs))" and ?v = "visited ''compactor'' rs" and ?n = "round_bound ap"
  note inv = assms(1) [unfolded round_inv_def Let_def]
  note facts = round_inv_def Let_def visited_extends [OF log] k' clean agent_node_def answered_state_def
  have limit: "uc_max_iterations (agent_config ap) \<le> ?n" by (simp add: round_bound_def)
  from step show ?thesis
  proof cases
    case fits
    with inv show ?thesis by (simp add: facts)
  next
    case full
    with inv show ?thesis by (simp add: facts)
  next
    case kept
    with inv show ?thesis by (simp add: facts)
  next
    case compacted
    with inv show ?thesis by (simp add: facts)
  next
    case answered
    with inv show ?thesis by (simp add: facts)
  next
    case called
    with inv limit show ?thesis by (simp add: facts)
  next
    case executed
    with inv show ?thesis by (simp add: facts)
  qed
qed

lemma round_inv_stop:
  assumes "round_inv ap c k rs" "refined ap sk mx c k rs (Stop r rs')"
  shows "run_verdict ap sk mx r rs'"
proof (cases r)
  case None
  with assms(2) have "c = ''post_llm_check''" and log: "log_extends rs rs' [(''post_llm_check'', Suc k)]"
    and "is_terminal (eng_state (rs_engine rs'))"
    and "\<exists>x. eng_state (rs_engine rs') = (eng_state (rs_engine rs))\<lparr>as_stop := x\<rparr>"
    by (auto simp: refined_def proper_stop_def stopped_from_def)
  with assms(1) None show ?thesis
    by (auto simp: run_verdict_def round_inv_def Let_def visited_extends [OF log])
next
  case (Some e)
  with assms(2) consider (steps) "e = StepsExceeded mx" "mx \<le> k" "rs' = rs"
    | (visited) "log_extends rs rs' [(c, Suc k)]"
        "model_error ap e \<or> sk_checkpoint sk \<noteq> None \<and> (\<exists>t. e = CheckpointSaveFailed t)"
    by (auto simp: refined_def proper_stop_def)
  then show ?thesis
  proof cases
    case steps
    with assms(1) Some show ?thesis
      by (auto simp: run_verdict_def round_inv_def Let_def agent_node_def split: if_splits)
  next
    case visited
    with assms(1) Some show ?thesis
      by (auto simp: run_verdict_def round_inv_def Let_def visited_extends [OF visited(1)] split: if_splits)
  qed
qed

lemma agent_run_verdict:
  assumes "plain_agent ap" "re_ops env = agent_ops" "mx \<le> usize_max" "as_iterations s = 0"
  shows "case run_loop env par (react_graph ap hash) sk ''budget_check'' 0 mx (loop_start s cancelled w) of
    (r, rs) \<Rightarrow> run_verdict ap sk mx r rs"
proof (rule run_loop_invariant [where P = "round_inv ap"])
  show "round_inv ap ''budget_check'' 0 (loop_start s cancelled w)"
    using assms(4) by (simp add: round_inv_def agent_node_def clean_def loop_start_def engine_new_def visited_def round_bound_def)
next
  fix c k rs n k' rs'
  assume inv: "round_inv ap c k rs" and step: "loop_step env par (react_graph ap hash) sk c k mx rs = Continue n k' rs'"
  from inv have "agent_node c" "clean (rs_engine rs)" by (simp_all add: round_inv_def)
  from plain_agent_step [where par = par and hash = hash and sk = sk and k = k, OF assms(1-3) this] step have "refined ap sk mx c k rs (Continue n k' rs')" by simp
  with inv show "round_inv ap n k' rs'" by (rule round_inv_step)
next
  fix c k rs r rs'
  assume inv: "round_inv ap c k rs" and step: "loop_step env par (react_graph ap hash) sk c k mx rs = Stop r rs'"
  from inv have "agent_node c" "clean (rs_engine rs)" by (simp_all add: round_inv_def)
  from plain_agent_step [where par = par and hash = hash and sk = sk and k = k, OF assms(1-3) this] step have "refined ap sk mx c k rs (Stop r rs')" by simp
  with inv show "run_verdict ap sk mx r rs'" by (rule round_inv_stop)
qed

lemma plain_agent_runs:
  assumes "plain_agent ap"
  shows "run_inline_from env (react_graph ap hash) sk c k mx rs = run_loop env (parallel_execute env) (react_graph ap hash) sk c k mx rs"
    and "run_inline env (react_graph ap hash) sk mx rs
      = run_loop env (parallel_execute env) (react_graph ap hash) sk ''budget_check'' 0 mx rs"
  using assms by (simp_all add: plain_agent_def run_inline_def run_inline_from_def run_graph_loop_def react_graph_approval)

lemma agent_run_verdict':
  assumes "plain_agent ap" "re_ops env = agent_ops" "mx \<le> usize_max" "as_iterations s = 0"
  shows "case run_inline env (react_graph ap hash) sk mx (loop_start s cancelled w) of (r, rs) \<Rightarrow> run_verdict ap sk mx r rs"
  using agent_run_verdict [OF assms] by (simp add: plain_agent_runs [OF assms(1)])

text \<open>
  C11: A run of an agent ends after at most as many model calls as it may make iterations (one,
  where none is allowed). It ends with a stop reason, after as many iterations as calls; or
  with the error of a failed model call or of an unsaved boundary; or it runs out of steps,
  which takes a budget of fewer than four steps per iteration and one per compaction.
\<close>

theorem agent_run_is_bounded:
  assumes "plain_agent ap" "re_ops env = agent_ops" "mx \<le> usize_max" "as_iterations s = 0"
  shows "case run_inline env (react_graph ap hash) sk mx (loop_start s cancelled w) of (r, rs) \<Rightarrow> run_verdict ap sk mx r rs"
  by (rule agent_run_verdict' [OF assms])

text \<open>
  C13: A run of an agent whose model answers every request, with a step budget of at least five
  per iteration less one, ends with a stop reason: it fails for no other reason and never runs
  out of steps, however often it compacts.
\<close>

theorem answering_model_finishes:
  assumes "plain_agent ap" "re_ops env = agent_ops" "mx \<le> usize_max" "as_iterations s = 0"
    and "5 * round_bound ap \<le> mx + 1"
    and "\<And>w s cancelled. snd (snd (llm_execute (ap_text ap) (ap_llm ap) w s cancelled)) = None"
  shows "\<exists>rs. run_inline env (react_graph ap hash) no_sinks mx (loop_start s cancelled w) = (None, rs)
     \<and> is_terminal (eng_state (rs_engine rs))"
proof -
  obtain r rs where run: "run_inline env (react_graph ap hash) no_sinks mx (loop_start s cancelled w) = (r, rs)" by fastforce
  have verdict: "run_verdict ap no_sinks mx r rs"
    using agent_run_verdict' [OF assms(1-4), where hash = hash and sk = no_sinks and cancelled = cancelled and w = w] run by simp
  have "r = None"
  proof (cases r)
    case (Some e)
    with verdict assms(5,6) show ?thesis by (auto simp: run_verdict_def model_error_def no_sinks_def)
  qed
  with verdict run show ?thesis by (auto simp: run_verdict_def)
qed

text \<open>An agent whose model asks for an unknown tool once, whatever it is sent, and may do so in two rounds.\<close>

definition sample_agent :: "'w agent_parts" where
  "sample_agent =
     (let c = tool_use_config_default\<lparr>uc_max_iterations := 2\<rparr>;
          call = \<lparr>tc_id = ''i'', tc_name = ''t'', tc_arguments = JNull\<rparr>;
          ex = executor_new (static_catalog (from_tools [])) in
      \<lparr>ap_text = \<lparr>tx_alnum = (\<lambda>_. False), tx_print = (\<lambda>_. ''null'')\<rparr>,
       ap_llm = \<lparr>ln_name = ''a'',
         ln_invoker = invoker_from_config ''m'' (\<lambda>_ w. (w, Inr [Inr (PComplete [call] None)]))
           (\<lambda>_ w. (w, Inr empty_response)) retry_policy_default (default_fallback 3) (\<lambda>_ w. w),
         ln_executor = ex, ln_config = c\<rparr>,
       ap_tool = \<lparr>tn_name = ''a'', tn_executor = ex, tn_config = c,
         tn_env = \<lparr>te_sleep = (\<lambda>_ w. w), te_clock = (\<lambda>_. 0), te_schedule = (\<lambda>w n. [0..<n]), te_print = (\<lambda>_. ''null'')\<rparr>,
         tn_tasks = (\<lambda>_. None)\<rparr>,
       ap_compact = local_compact (\<lambda>_. False) (\<lambda>_. ''null''), ap_compact_budget = context_budget_default\<rparr>)"

definition sample_env :: "(agent_state, agent_mutation, agent_checkpoint, 'w) run_env" where
  "sample_env = \<lparr>re_ops = agent_ops, re_schedule = (\<lambda>w n. [0..<n])\<rparr>"

lemma sample_agent_plain: "plain_agent sample_agent" "re_ops sample_env = agent_ops" "n < 10 \<Longrightarrow> n \<le> usize_max"
  by (simp_all add: plain_agent_def sample_agent_def sample_env_def tool_use_config_default_def Let_def usize_max_def)

lemma agent_run_is_bounded_witness:
  "case run_inline sample_env (react_graph sample_agent 0) no_sinks 9 (loop_start (from_messages [UserMessage []]) False ())
   of (r, rs) \<Rightarrow> run_verdict sample_agent no_sinks 9 r rs"
  by (rule agent_run_is_bounded) (simp_all add: sample_agent_plain from_messages_def)

lemma invoke_stream_opened:
  "iv_stream iv req w = (w', Inr items) \<Longrightarrow> invoke_stream iv req ms i w = (w', Inr (retry_stream_new items 1))"
  by (simp add: invoke_stream_def invoke_stream_loop.simps)

lemma sample_model_answers: "snd (snd (llm_execute (ap_text sample_agent) (ap_llm sample_agent) w s cancelled)) = None"
proof -
  let ?n = "ap_llm sample_agent"
  obtain snap where snap: "ex_catalog (ln_executor ?n) w = (w, snap)"
    by (simp add: sample_agent_def Let_def executor_new_def static_catalog_def)
  have "\<exists>call. iv_stream (ln_invoker ?n) (llm_request ?n s snap) w = (w, Inr [Inr (PComplete [call] None)])"
    by (simp add: sample_agent_def Let_def invoker_from_config_def)
  then show ?thesis
    by (auto simp: llm_execute_def snap Let_def invoke_stream_opened retry_stream_new_def)
qed

lemma sample_compact: "ap_compact sample_agent = local_compact (\<lambda>_. False) (\<lambda>_. ''null'')"
  by (simp add: sample_agent_def Let_def)

lemma sample_bound: "round_bound sample_agent = 2"
  by (simp add: round_bound_def sample_agent_def Let_def)

lemma answering_model_finishes_witness:
  "\<exists>rs. run_inline sample_env (react_graph sample_agent 0) no_sinks 9 (loop_start (from_messages [UserMessage []]) False ())
     = (None, rs) \<and> is_terminal (eng_state (rs_engine rs))"
  by (rule answering_model_finishes)
    (simp_all add: sample_agent_plain sample_model_answers sample_bound, simp add: from_messages_def)

subsection \<open>What the model is sent\<close>

lemma protocol_append: "protocol ids xs \<Longrightarrow> protocol ids (xs @ ys) = protocol [] ys"
  by (induction ids xs rule: protocol.induct) auto

lemma protocol_results_for: "results_for calls ms \<Longrightarrow> protocol (map tc_id calls) (ms @ rest) = protocol [] rest"
  unfolding results_for_def by (induction calls ms rule: list_all2_induct) auto

text \<open>
  Before the model is called, and wherever its context is checked or compacted, every tool call
  of the conversation is answered; after a response only the last message may call tools.
\<close>

definition talk_inv :: "string \<Rightarrow> agent_state \<Rightarrow> bool" where
  "talk_inv c s \<longleftrightarrow>
     (if c \<in> {''budget_check'', ''compactor'', ''llm''} then protocol [] (as_messages s)
      else \<exists>hist r. as_messages s = hist @ [AssistantMessage (rp_content r)] \<and> as_response s = Some r \<and> protocol [] hist)"

lemma talk_inv_step:
  assumes "react_step ap (c, s) (n, s')" "talk_inv c s" "ap_compact ap = local_compact alnum print"
  shows "talk_inv n s'"
  using assms(1)
proof cases
  case executed
  with assms(2) obtain hist r where r: "as_messages s = hist @ [AssistantMessage (rp_content r)]" "as_response s = Some r" "protocol [] hist"
    by (auto simp: talk_inv_def)
  with executed protocol_results_for [of "requested_calls s" _ "[]"] show ?thesis
    by (auto simp: talk_inv_def protocol_append requested_calls_def response_tool_calls_def)
qed (use assms in \<open>auto simp: talk_inv_def protocol_compacted answered_state_def\<close>)

lemma plain_agent_reaches:
  assumes plain: "plain_agent ap" and ops: "re_ops env = agent_ops" and mx: "mx \<le> usize_max"
    and compact: "ap_compact ap = local_compact alnum print"
    and "boundary env par (react_graph ap hash) sk mx (c0, k0, rs0) (c, k, rs)"
    and "agent_node c0" "clean (rs_engine rs0)" "talk_inv c0 (eng_state (rs_engine rs0))"
  shows "agent_node c \<and> clean (rs_engine rs) \<and> talk_inv c (eng_state (rs_engine rs))"
proof -
  have step: "agent_node n \<and> clean (rs_engine rs2) \<and> talk_inv n (eng_state (rs_engine rs2))"
    if "loop_step env par (react_graph ap hash) sk c1 k1 mx rs1 = Continue n k2 rs2"
      "agent_node c1 \<and> clean (rs_engine rs1) \<and> talk_inv c1 (eng_state (rs_engine rs1))" for c1 k1 rs1 n k2 rs2
  proof -
    from plain_agent_step [OF plain ops mx, where c = c1 and rs = rs1 and k = k1 and par = par and hash = hash and sk = sk] that
    have "refined ap sk mx c1 k1 rs1 (Continue n k2 rs2)" by simp
    then have r: "react_step ap (c1, eng_state (rs_engine rs1)) (n, eng_state (rs_engine rs2))" and "clean (rs_engine rs2)"
      by (simp_all add: refined_def)
    moreover from r have "agent_node n" by cases (simp_all add: agent_node_def)
    ultimately show ?thesis using talk_inv_step [OF r _ compact] that(2) by simp
  qed
  from assms(5) show ?thesis
    by (induction "(c0, k0, rs0)" "(c, k, rs)" arbitrary: c k rs rule: boundary.induct) (use step assms(6-8) in blast)+
qed

text \<open>How a run ends: with an answer at the end of a conversation whose earlier calls are all answered.\<close>

definition answered_talk :: "agent_state \<Rightarrow> bool" where
  "answered_talk s \<longleftrightarrow> (\<exists>hist r. as_messages s = hist @ [AssistantMessage (rp_content r)] \<and> as_response s = Some r
     \<and> protocol [] hist \<and> (as_stop s = Some CompleteReason \<longrightarrow> protocol [] (as_messages s)))"

lemma react_step_stop: "react_step ap (c, s) (n, s') \<Longrightarrow> as_stop s' = as_stop s"
  by (erule react_step_cases) (simp_all add: answered_state_def)

lemma stopped_answer:
  assumes "talk_inv ''post_llm_check'' s" "as_stop s = None" "stopped_from s s'"
  shows "answered_talk s'"
proof -
  from assms(1) obtain hist r where r: "as_messages s = hist @ [AssistantMessage (rp_content r)]" "as_response s = Some r" "protocol [] hist"
    by (auto simp: talk_inv_def)
  from assms(3) obtain x where "s' = s\<lparr>as_stop := x\<rparr>" unfolding stopped_from_def by blast
  then have "as_messages s' = as_messages s" "as_response s' = as_response s" by simp_all
  then show ?thesis
    using r assms(2,3)
    by (auto simp: answered_talk_def stopped_from_def requested_calls_def response_tool_calls_def protocol_append)
qed

lemma plain_agent_answers:
  assumes plain: "plain_agent ap" and ops: "re_ops env = agent_ops" and mx: "mx \<le> usize_max"
    and compact: "ap_compact ap = local_compact alnum print"
    and "agent_node c" "clean (rs_engine rs)" "talk_inv c (eng_state (rs_engine rs))" "as_stop (eng_state (rs_engine rs)) = None"
  shows "case run_loop env par (react_graph ap hash) sk c k mx rs of
    (r, rs') \<Rightarrow> r = None \<longrightarrow> answered_talk (eng_state (rs_engine rs'))"
proof (rule run_loop_invariant [where
      P = "\<lambda>c k rs. agent_node c \<and> clean (rs_engine rs) \<and> talk_inv c (eng_state (rs_engine rs)) \<and> as_stop (eng_state (rs_engine rs)) = None"
      and Q = "\<lambda>r rs'. r = None \<longrightarrow> answered_talk (eng_state (rs_engine rs'))"])
  fix c k rs n k' rs'
  assume inv: "agent_node c \<and> clean (rs_engine rs) \<and> talk_inv c (eng_state (rs_engine rs)) \<and> as_stop (eng_state (rs_engine rs)) = None"
    and step: "loop_step env par (react_graph ap hash) sk c k mx rs = Continue n k' rs'"
  from inv have "agent_node c" "clean (rs_engine rs)" by simp_all
  from plain_agent_step [where par = par and hash = hash and sk = sk and k = k, OF plain ops mx this] step
  have r: "react_step ap (c, eng_state (rs_engine rs)) (n, eng_state (rs_engine rs'))" and "clean (rs_engine rs')"
    by (simp_all add: refined_def)
  moreover from r have "agent_node n" by cases (simp_all add: agent_node_def)
  ultimately show "agent_node n \<and> clean (rs_engine rs') \<and> talk_inv n (eng_state (rs_engine rs')) \<and> as_stop (eng_state (rs_engine rs')) = None"
    using talk_inv_step [OF r _ compact] react_step_stop [OF r] inv by simp
next
  fix c k rs r rs'
  assume inv: "agent_node c \<and> clean (rs_engine rs) \<and> talk_inv c (eng_state (rs_engine rs)) \<and> as_stop (eng_state (rs_engine rs)) = None"
    and step: "loop_step env par (react_graph ap hash) sk c k mx rs = Stop r rs'"
  from inv have "agent_node c" "clean (rs_engine rs)" by simp_all
  from plain_agent_step [where par = par and hash = hash and sk = sk and k = k, OF plain ops mx this] step
  have "proper_stop ap sk mx c k rs r rs'" by (simp add: refined_def)
  with inv show "r = None \<longrightarrow> answered_talk (eng_state (rs_engine rs'))"
    by (auto simp: proper_stop_def intro: stopped_answer)
qed (use assms in simp)

text \<open>
  C12: An agent with the built-in compactor, started on a conversation whose tool calls are all
  answered, sends the model only such conversations: at every boundary of a run after which the
  model is called, in the request it builds each tool call of an assistant message is followed
  by its result before any other message, whatever was compacted, called or failed before.
\<close>

theorem model_sees_answered_calls:
  assumes "plain_agent ap" "re_ops env = agent_ops" "mx \<le> usize_max" "ap_compact ap = local_compact alnum print"
    and "protocol [] (as_messages s)"
    and "boundary env par (react_graph ap hash) sk mx (''budget_check'', 0, loop_start s cancelled w) (''llm'', k, rs)"
  shows "protocol [] (cr_messages (llm_request (ap_llm ap) (eng_state (rs_engine rs)) snap))"
proof -
  have "talk_inv ''llm'' (eng_state (rs_engine rs))"
    using plain_agent_reaches [OF assms(1-4,6)] assms(5)
    by (simp add: agent_node_def clean_def loop_start_def engine_new_def talk_inv_def)
  then show ?thesis
    by (simp add: talk_inv_def llm_request_def build_request_with_round_def build_request_inner_def apply_options_def Let_def)
qed

lemma sample_limit: "scaled_to_usize 128000 0x3F4CCCCD = 102400"
proof -
  have "bit_length 128000 = 17" "bit_length 1717986944000 = 41" by (simp_all add: bit_length.simps)
  then have "round24 128000 = 128000" "round24 1717986944000 = 1717986918400"
    by (simp_all add: round24_def)
  then show ?thesis by (simp add: scaled_to_usize_def usize_max_def)
qed

lemma sample_fits: "\<not> needs_compaction sample_agent (uc_context_budget (agent_config sample_agent)) (from_messages [UserMessage []])"
  by (simp add: needs_compaction_def should_compact_def sample_agent_def tool_use_config_default_def from_messages_def Let_def
    estimated_context_tokens_def estimate_tokens_def context_budget_default_def sample_limit)

lemma sample_first_step:
  "\<exists>rs. loop_step sample_env par (react_graph sample_agent 0) no_sinks ''budget_check'' 0 9
     (loop_start (from_messages [UserMessage []]) False ()) = Continue ''llm'' 1 rs"
proof -
  have one: "usize_checked_add 0 (Suc 0) = Some (Suc 0)" by (simp add: usize_max_def)
  show ?thesis
    by (simp add: loop_step_def one react_graph_node run_leaf_fn_def loop_start_def budget_execute_ops engine_new_def sample_fits
      exec_leaf_ops_def commit_and_take_def take_control_def control_take_def control_new_def control_goto_def route_def
      resolve_next_opt_def emit_checkpoint_def no_sinks_def)
qed

lemma model_sees_answered_calls_witness:
  "\<exists>rs. boundary sample_env (parallel_execute sample_env) (react_graph sample_agent 0) no_sinks 9
       (''budget_check'', 0, loop_start (from_messages [UserMessage []]) False ()) (''llm'', 1, rs)
     \<and> protocol [] (cr_messages (llm_request (ap_llm (sample_agent :: unit agent_parts)) (eng_state (rs_engine rs)) (from_tools [])))"
proof -
  obtain rs where "loop_step sample_env (parallel_execute sample_env) (react_graph sample_agent 0) no_sinks ''budget_check'' 0 9
     (loop_start (from_messages [UserMessage []]) False ()) = Continue ''llm'' 1 rs"
    using sample_first_step by blast
  then have "boundary sample_env (parallel_execute sample_env) (react_graph sample_agent 0) no_sinks 9
       (''budget_check'', 0, loop_start (from_messages [UserMessage []]) False ()) (''llm'', 1, rs)"
    by (rule boundary.first)
  with model_sees_answered_calls [OF sample_agent_plain(1,2) _ sample_compact _ this] show ?thesis
    by (auto simp: sample_agent_plain(3) from_messages_def)
qed

end
