(* ===== verification/Agent_Loop.thy ===== *)
theory Agent_Loop
  imports Agent_Run Durable_Run
begin

text \<open>
  The entry points of an agent: \<open>ToolUseLoop\<close> (\<open>runtime/runtime.rs\<close>) with its streamed form
  and the bridge from chunks to events (\<open>event_bridge.rs\<close>, \<open>event.rs\<close>), the runs with
  checkpoints and their restore (\<open>checkpoint.rs\<close>), the durable runs (\<open>durable.rs\<close>), and the
  texts of the graph's errors that they report (\<open>error/mod.rs\<close> of \<open>lellm-graph\<close>).
\<close>

section \<open>The texts of errors\<close>

text \<open>
  What the derived \<open>Debug\<close> and the errors of the state print is an argument, the record
  \<open>error_text\<close>.
\<close>

record error_text =
  et_debug :: "terminal_error \<Rightarrow> string"
  et_state :: "merge_error \<Rightarrow> string"
  et_failures :: "(string \<times> terminal_error) list \<Rightarrow> string"
  et_duration :: "nat \<Rightarrow> string"

fun show_durable_error :: "durable_error \<Rightarrow> string" where
  "show_durable_error Busy = ''run is busy''"
| "show_durable_error NotFound = ''run not found''"
| "show_durable_error AlreadyExists = ''run already exists''"
| "show_durable_error UnsupportedFormat = ''unsupported run format''"
| "show_durable_error (Incompatible t) = ''incompatible workflow: '' @ t"
| "show_durable_error (Conflict t) = ''conflicting request: '' @ t"
| "show_durable_error (Unsupported t) = ''unsupported operation: '' @ t"
| "show_durable_error Suspended = ''run is suspended''"
| "show_durable_error Stopped = ''run is stopped''"
| "show_durable_error BranchCancelled = ''parallel branch cancelled''"
| "show_durable_error (Io t) = ''storage: '' @ t"
| "show_durable_error (Codec t) = ''invalid run record: '' @ t"

definition show_bool :: "bool \<Rightarrow> string" where
  "show_bool b = (if b then ''true'' else ''false'')"

text \<open>The arrow of the source, in UTF-8.\<close>

definition arrow_text :: string where
  "arrow_text = [CHR 0xE2, CHR 0x86, CHR 0x92]"

definition show_attempts :: "(string \<times> string option \<times> bool) list \<Rightarrow> string" where
  "show_attempts cs =
     (if cs = [] then []
      else ''. evaluated: ['' @ join_with '', '' (map (\<lambda>(e, _, m). e @ ''='' @ show_bool m) cs) @ '']'')"

fun show_terminal :: "error_text \<Rightarrow> terminal_error \<Rightarrow> string"
and show_source :: "error_text \<Rightarrow> failure_source \<Rightarrow> string" where
  "show_terminal x (Durable e) = show_durable_error e"
| "show_terminal x (ParallelFailures es) = ''parallel branches failed: '' @ et_failures x es"
| "show_terminal x (InvalidGraph m) = ''invalid graph: '' @ m"
| "show_terminal x (NodeNotFound n) = ''node not found: '' @ n"
| "show_terminal x (MissingEdge f t) =
     ''goto '' @ quoted t @ '' from '' @ quoted f @ '' failed: no edge '' @ f @ arrow_text @ t @ '' exists''"
| "show_terminal x (NodeExecutionFailed n src) = ''node '' @ quoted n @ '' execution failed: '' @ show_source x src"
| "show_terminal x (StepsExceeded l) = ''step limit '' @ show_nat l @ '' exceeded (potential infinite loop)''"
| "show_terminal x (LoopLimitExceeded l) = ''loop limit exceeded: '' @ show_nat l"
| "show_terminal x (BarrierTimeout n t) = ''barrier '' @ quoted n @ '' timed out after '' @ et_duration x t"
| "show_terminal x (BarrierCancelled n) =
     ''barrier '' @ quoted n @ '' cancelled: consumer dropped the signal channel''"
| "show_terminal x (BarrierHandlerMissing n) =
     ''barrier '' @ quoted n @ '' requires a handler; use NoopBarrierSink for explicit automatic approval''"
| "show_terminal x (Unrouted n cs) = ''node '' @ quoted n @ '' has no matching outgoing edge'' @ show_attempts cs"
| "show_terminal x (StateError e) = ''state error: '' @ et_state x e"
| "show_terminal x (StateText t) = ''state error: '' @ t"
| "show_terminal x (CheckpointSaveFailed e) = ''checkpoint save failed: '' @ e"
| "show_terminal x (RestoreUnsupported n k) =
     ''persistence/restore does not support '' @ k @ '' node '' @ quoted n @ '' (phase 1: serial + loops only)''"
| "show_terminal x (RestoreNotLatest c l) =
     ''checkpoint '' @ c @ '' is not the latest of this trace (latest: '' @ l
       @ ''); restore requires the latest checkpoint or a new trace''"
| "show_terminal x (RestoreUnsupportedFormat a e) =
     ''unsupported checkpoint format_version: '' @ show_nat a @ '' (expected '' @ show_nat e @ '')''"
| "show_terminal x (RestoreGraphMismatch e a) =
     ''graph hash mismatch: expected '' @ hex_digits 16 (unat e) @ '', got '' @ hex_digits 16 (unat a)"
| "show_terminal x (TraceNotFresh t l) = ''trace '' @ t @ '' already has checkpoint '' @ l @ '' (use restore entry)''"
| "show_terminal x (CheckpointLoadFailed e) = ''checkpoint load failed: '' @ e"
| "show_terminal x (RestoreFailed r) = ''restore precondition failed: '' @ r"
| "show_source x (SourceError e) = ''[terminal] '' @ show_terminal x e"
| "show_source x (SourceText t) = t"

definition show_graph_error :: "error_text \<Rightarrow> terminal_error \<Rightarrow> string" where
  "show_graph_error x e = ''[terminal] '' @ show_terminal x e"

text \<open>What \<open>build\<close> reports: the error, and the list of them with a line each.\<close>

fun show_build_error :: "error_text \<Rightarrow> build_error \<Rightarrow> string" where
  "show_build_error x (DuplicateNode n) = ''duplicate node id: '' @ quoted n"
| "show_build_error x (MissingNode f t) =
     ''edge references non-existent node: '' @ quoted t @ '' (in '' @ f @ arrow_text @ t @ '')''"
| "show_build_error x MissingEntryPoint = ''entry point not set''"
| "show_build_error x MissingExitPoint = ''exit point not set''"
| "show_build_error x (InvalidEdgeDefinition f t e) = ''invalid edge '' @ f @ arrow_text @ t @ '': '' @ show_graph_error x e"
| "show_build_error x (InvalidFallback n r) = ''invalid fallback for node '' @ quoted n @ '': '' @ r"

definition show_build_errors :: "error_text \<Rightarrow> build_error list \<Rightarrow> string" where
  "show_build_errors x es =
     (if es = [] then ''no errors''
      else show_nat (length es) @ '' error(s):'' @ [CHR 0x0A]
        @ concat (map (\<lambda>e. ''  - '' @ show_build_error x e @ [CHR 0x0A]) es))"

section \<open>Results\<close>

record tool_use_result =
  tu_stop :: stop_reason
  tu_response :: chat_response
  tu_messages :: "message list"
  tu_iterations :: nat
  tu_tool_calls :: nat

definition is_success :: "tool_use_result \<Rightarrow> bool" where
  "is_success r \<longleftrightarrow> tu_stop r = CompleteReason"

definition final_stop :: "agent_state \<Rightarrow> stop_reason" where
  "final_stop s = (case as_stop s of None \<Rightarrow> CompleteReason | Some r \<Rightarrow> r)"

text \<open>What \<open>invoke\<close> and \<open>invoke_stream\<close> return of a final state.\<close>

definition loop_result :: "agent_state \<Rightarrow> tool_use_result" where
  "loop_result s =
     \<lparr>tu_stop = final_stop s, tu_response = (case as_response s of None \<Rightarrow> empty_response | Some r \<Rightarrow> r),
      tu_messages = as_messages s, tu_iterations = as_iterations s, tu_tool_calls = as_tool_calls s\<rparr>"

fun assistant_content :: "message \<Rightarrow> content_block list option" where
  "assistant_content (AssistantMessage c) = Some c"
| "assistant_content _ = None"

definition reconstruct_response :: "message list \<Rightarrow> chat_response" where
  "reconstruct_response ms =
     (case List.map_filter assistant_content (rev ms) of
        c # _ \<Rightarrow> \<lparr>rp_content = text_blocks (flatten_text c), rp_usage = usage_zero, rp_raw = JNull\<rparr>
      | [] \<Rightarrow> empty_response)"

definition build_result :: "agent_state \<Rightarrow> tool_use_result" where
  "build_result s =
     \<lparr>tu_stop = final_stop s,
      tu_response = (case as_response s of None \<Rightarrow> reconstruct_response (as_messages s) | Some r \<Rightarrow> r),
      tu_messages = as_messages s, tu_iterations = as_iterations s, tu_tool_calls = as_tool_calls s\<rparr>"

section \<open>Events\<close>

datatype agent_event =
    ProviderEvent provider_event
  | RoundStarted nat string
  | ToolStart string string
  | ToolEnd string "tool_error + json" nat
  | RetryEvent string nat nat string
  | ContextCompacted nat nat nat
  | LoopEnd tool_use_result
  | LoopError llm_error nat

text \<open>\<open>parse\<close> is \<open>serde_json::from_str\<close>.\<close>

fun chunk_event :: "(string \<Rightarrow> json option) \<Rightarrow> agent_chunk \<Rightarrow> agent_event option" where
  "chunk_event parse (ChunkRound i m) = Some (RoundStarted i m)"
| "chunk_event parse (ChunkText t) = Some (ProviderEvent (PToken t))"
| "chunk_event parse (ChunkThinking t r) = Some (ProviderEvent (PThinking t r))"
| "chunk_event parse (ChunkTool StartedPhase i n) = Some (ToolStart i n)"
| "chunk_event parse (ChunkTool QueuedPhase i n) = None"
| "chunk_event parse (ChunkTool FinishedPhase i n) = None"
| "chunk_event parse (ChunkOutput i n c is_error d) =
     Some (ToolEnd i
       (if is_error then Inl \<lparr>te_kind = InternalError, te_message = c\<rparr>
        else Inr (case parse c of Some v \<Rightarrow> v | None \<Rightarrow> JString c)) d)"

text \<open>
  \<open>try_send\<close> on a channel of 32: \<open>room i\<close> tells whether the \<open>i\<close>-th event offered found a
  place (and the consumer was there).
\<close>

definition sent_events :: "(nat \<Rightarrow> bool) \<Rightarrow> agent_event list \<Rightarrow> agent_event list" where
  "sent_events room es = map snd (filter (\<lambda>(i, _). room i) (List.enumerate 0 es))"

section \<open>The loop\<close>

record 'w tool_use_loop =
  tl_graph :: "'w agent_graph"
  tl_config :: tool_use_config

text \<open>The product and the sum wrap, as in a release build; a debug build panics.\<close>

definition max_steps_for :: "tool_use_config \<Rightarrow> nat" where
  "max_steps_for c = (uc_max_iterations c * 4 + 1) mod 2 ^ 64"

definition agent_env :: "('w \<Rightarrow> nat \<Rightarrow> nat list) \<Rightarrow> (agent_state, agent_mutation, agent_checkpoint, 'w) run_env" where
  "agent_env schedule = \<lparr>re_ops = agent_ops, re_schedule = schedule\<rparr>"

definition runtime_error :: "error_text \<Rightarrow> terminal_error \<Rightarrow> llm_error" where
  "runtime_error x e = ProviderError ''react_graph'' None None (show_graph_error x e)"

definition agent_invoke ::
  "error_text \<Rightarrow> ('w \<Rightarrow> nat \<Rightarrow> nat list) \<Rightarrow> 'w tool_use_loop \<Rightarrow> message list \<Rightarrow> 'w \<Rightarrow> (llm_error + tool_use_result) \<times> 'w" where
  "agent_invoke x schedule t ms w =
     (case build_request_messages (tl_config t) ms of
        Inl e \<Rightarrow> (Inl e, w)
      | Inr initial \<Rightarrow>
          (case run_inline (agent_env schedule) (tl_graph t) no_sinks (max_steps_for (tl_config t))
                  (loop_start (from_messages initial) False w) of
             (Some e, rs) \<Rightarrow> (Inl (runtime_error x e), rs_world rs)
           | (None, rs) \<Rightarrow> (Inr (loop_result (eng_state (rs_engine rs))), rs_world rs)))"

definition streamed_start :: "agent_state \<Rightarrow> 'w \<Rightarrow> (agent_state, agent_mutation, agent_chunk, 'w) run_state" where
  "streamed_start s w =
     \<lparr>rs_engine = engine_new s (Some []) False, rs_world = w, rs_occurrences = (\<lambda>_. 0), rs_log = []\<rparr>"

definition streamed_chunks :: "(agent_state, agent_mutation, agent_chunk, 'w) run_state \<Rightarrow> agent_chunk list" where
  "streamed_chunks rs = (case eng_stream (rs_engine rs) of None \<Rightarrow> [] | Some cs \<Rightarrow> cs)"

text \<open>The events in the channel, in order, and the world afterwards; the last is sent with \<open>send\<close>, which waits.\<close>

definition agent_invoke_stream ::
  "error_text \<Rightarrow> (string \<Rightarrow> json option) \<Rightarrow> ('w \<Rightarrow> nat \<Rightarrow> nat list) \<Rightarrow> (nat \<Rightarrow> bool) \<Rightarrow> 'w tool_use_loop \<Rightarrow> message list
   \<Rightarrow> 'w \<Rightarrow> agent_event list \<times> 'w" where
  "agent_invoke_stream x parse schedule room t ms w =
     (case build_request_messages (tl_config t) ms of
        Inl e \<Rightarrow> ([LoopError e 0], w)
      | Inr initial \<Rightarrow>
          (case run_inline (agent_env schedule) (tl_graph t) no_sinks (max_steps_for (tl_config t))
                  (streamed_start (from_messages initial) w) of
             (r, rs) \<Rightarrow>
               (sent_events room (List.map_filter (chunk_event parse) (streamed_chunks rs))
                @ [case r of
                     None \<Rightarrow> LoopEnd (loop_result (eng_state (rs_engine rs)))
                   | Some e \<Rightarrow> LoopError (runtime_error x e) (as_iterations (eng_state (rs_engine rs)))],
                rs_world rs)))"

section \<open>Runs with checkpoints\<close>

definition validate_last_response :: "agent_checkpoint checkpoint \<Rightarrow> llm_error option" where
  "validate_last_response cp =
     (case cp_next cp of
        Some n \<Rightarrow>
          (if n \<in> {''post_llm_check'', ''tool''} \<and> ac_response (cp_state cp) = None
           then Some (RestoreRefused MissingExecutionContext
             (''node '' @ quoted n @ '' requires last_response but checkpoint has none (old checkpoint?)''))
           else None)
      | None \<Rightarrow> None)"

fun map_restore_error :: "error_text \<Rightarrow> terminal_error \<Rightarrow> llm_error" where
  "map_restore_error x (RestoreUnsupportedFormat a e) = RestoreRefused UnsupportedFormatReason
     (''unsupported checkpoint format_version: '' @ show_nat a @ '' (expected '' @ show_nat e @ '')'')"
| "map_restore_error x (RestoreGraphMismatch e a) = RestoreRefused restore_failure_reason.GraphMismatch
     (''graph hash mismatch: expected '' @ hex_digits 16 (unat e) @ '', got '' @ hex_digits 16 (unat a))"
| "map_restore_error x (RestoreNotLatest c l) = RestoreRefused NotLatest
     (''checkpoint '' @ c @ '' is not the latest ('' @ l @ '')'')"
| "map_restore_error x (NodeNotFound n) = RestoreRefused NodeNotFoundReason (''next node not found: '' @ n)"
| "map_restore_error x (StepsExceeded l) = RestoreRefused StepsExceededReason
     (''step budget exhausted (limit '' @ show_nat l @ '')'')"
| "map_restore_error x (CheckpointLoadFailed e) =
     ProviderError ''react_graph'' None None (''checkpoint load failed: '' @ e)"
| "map_restore_error x e = RestoreRefused OtherReason (et_debug x e)"

fun map_fresh_trace_error :: "error_text \<Rightarrow> terminal_error \<Rightarrow> llm_error" where
  "map_fresh_trace_error x (TraceNotFresh t l) =
     InvalidRequest (''trace '' @ t @ '' already has checkpoint '' @ l @ ''; use invoke_with_restore'')"
| "map_fresh_trace_error x e = runtime_error x e"

text \<open>The sinks of both runs: the checkpoint sink, no barrier handler.\<close>

definition agent_sinks ::
  "('w \<Rightarrow> (checkpoint_id \<times> nat) \<times> 'w) \<Rightarrow> ('w, agent_checkpoint) checkpoint_config \<Rightarrow> trace_id \<Rightarrow> (agent_state, 'w) sinks" where
  "agent_sinks clock cfg trace = \<lparr>sk_checkpoint = Some (save_sink clock agent_ops cfg trace), sk_barrier = None\<rparr>"

definition invoke_with_checkpoint where
  "invoke_with_checkpoint x schedule clock t ms trace cfg w =
     (case assert_fresh_trace cfg trace w of
        Some e \<Rightarrow> (Inl (map_fresh_trace_error x e), w)
      | None \<Rightarrow>
     (case build_request_messages (tl_config t) ms of
        Inl e \<Rightarrow> (Inl e, w)
      | Inr initial \<Rightarrow>
          (case run_inline (agent_env schedule) (tl_graph t) (agent_sinks clock cfg trace) (max_steps_for (tl_config t))
                  (loop_start (from_messages initial) False w) of
             (Some e, rs) \<Rightarrow> (Inl (runtime_error x e), rs_world rs)
           | (None, rs) \<Rightarrow> (Inr (build_result (eng_state (rs_engine rs))), rs_world rs))))"

definition invoke_with_restore where
  "invoke_with_restore x schedule clock t cp trace cfg w =
     (let mx = max_steps_for (tl_config t) in
      case validate_persistable (tl_graph t) of
        Some e \<Rightarrow> (Inl (map_restore_error x e), w)
      | None \<Rightarrow>
     (case validate_restore_checkpoint (tl_graph t) cp mx of
        Some e \<Rightarrow> (Inl (map_restore_error x e), w)
      | None \<Rightarrow>
     (case check_restore_latest cfg trace cp w of
        Some e \<Rightarrow> (Inl (map_restore_error x e), w)
      | None \<Rightarrow>
     (case validate_last_response cp of
        Some e \<Rightarrow> (Inl e, w)
      | None \<Rightarrow>
          (let s = restore_state agent_ops cp in
           case cp_next cp of
             None \<Rightarrow> (Inr (build_result s), w)
           | Some n \<Rightarrow>
               (case run_inline_from (agent_env schedule) (tl_graph t) (agent_sinks clock cfg trace) n (cp_steps cp) mx
                       (loop_start s False w) of
                  (Some e, rs) \<Rightarrow> (Inl (runtime_error x e), rs_world rs)
                | (None, rs) \<Rightarrow> (Inr (build_result (eng_state (rs_engine rs))), rs_world rs)))))))"

section \<open>Durable runs\<close>

fun map_outcome :: "agent_state run_outcome \<Rightarrow> tool_use_result run_outcome" where
  "map_outcome (OutCompleted s) = OutCompleted (build_result s)"
| "map_outcome (OutSuspended r) = OutSuspended r"
| "map_outcome (OutStopped status) = OutStopped status"

definition durable_budget :: "tool_use_config \<Rightarrow> nat" where
  "durable_budget c = min usize_max (min usize_max (uc_max_iterations c * 6) + 1)"

definition map_durable :: "error_text \<Rightarrow> (terminal_error + agent_state run_outcome) \<Rightarrow> llm_error + tool_use_result run_outcome" where
  "map_durable x r = (case r of Inl e \<Rightarrow> Inl (runtime_error x e) | Inr out \<Rightarrow> Inr (map_outcome out))"

text \<open>\<open>None\<close>: the fuel of the durable loop is used up.\<close>

definition invoke_durable where
  "invoke_durable x sf version fuel now token enc dec schedule t run_id ms cancelled rest st =
     (case build_request_messages (tl_config t) ms of
        Inl e \<Rightarrow> Some (Inl e, st)
      | Inr initial \<Rightarrow>
          map_option (\<lambda>(r, st'). (map_durable x r, st'))
            (durable_start sf version fuel now token enc dec (agent_env schedule)
              (parallel_execute (agent_env schedule)) run_id (tl_graph t) (from_messages initial)
              (durable_budget (tl_config t)) cancelled rest st))"

definition resume_durable where
  "resume_durable x sf version fuel now token enc dec schedule t run_id cancelled rest st =
     map_option (\<lambda>(r, st'). (map_durable x r, st'))
       (durable_resume sf version fuel now token enc dec (agent_env schedule)
         (parallel_execute (agent_env schedule)) run_id (tl_graph t) cancelled rest st)"

section \<open>What an invocation returns\<close>

definition agent_loop :: "'w agent_parts \<Rightarrow> 64 word \<Rightarrow> 'w tool_use_loop" where
  "agent_loop ap hash = \<lparr>tl_graph = react_graph ap hash, tl_config = agent_config ap\<rparr>"

lemma max_steps_for_bound: "max_steps_for c \<le> usize_max"
proof -
  have "max_steps_for c < 2 ^ 64" by (simp only: max_steps_for_def) simp
  then show ?thesis by (simp add: usize_max_def)
qed

lemma protocol_initial:
  "build_request_messages c ms = Inr initial \<Longrightarrow> protocol [] ms \<Longrightarrow> protocol [] initial"
  by (auto simp: build_request_messages_def prompt_build_def split: option.splits if_splits)

text \<open>
  C15: An invocation of an agent started on a conversation whose tool calls are answered either
  reports why it failed (two system prompts, the error of a model call, or too few steps), or
  returns the model's last response as the last message of the conversation, after one to as
  many rounds as it may make. All earlier tool calls are answered, and all of them when the
  result is a success.
\<close>

theorem invocation_returns_the_answer:
  assumes "plain_agent ap" "ap_compact ap = local_compact alnum print" "protocol [] ms"
  shows "case fst (agent_invoke x schedule (agent_loop ap hash) ms w) of
    Inl e \<Rightarrow> e = DuplicateSystemPrompt \<and> uc_system (agent_config ap) \<noteq> None \<and> has_system_message ms
      \<or> (\<exists>t. e = runtime_error x t \<and> (t = StepsExceeded (max_steps_for (agent_config ap)) \<or> model_error ap t))
  | Inr r \<Rightarrow> 1 \<le> tu_iterations r \<and> tu_iterations r \<le> round_bound ap
      \<and> (\<exists>hist. tu_messages r = hist @ [AssistantMessage (rp_content (tu_response r))] \<and> protocol [] hist)
      \<and> (is_success r \<longrightarrow> protocol [] (tu_messages r))"
proof (cases "build_request_messages (agent_config ap) ms")
  case (Inl e)
  then show ?thesis
    by (auto simp: agent_invoke_def agent_loop_def build_request_messages_def split: option.splits if_splits)
next
  case (Inr initial)
  let ?mx = "max_steps_for (agent_config ap)" and ?start = "loop_start (from_messages initial) False w"
  let ?env = "agent_env schedule"
  have ops: "re_ops ?env = agent_ops" by (simp add: agent_env_def)
  have mx: "?mx \<le> usize_max" by (rule max_steps_for_bound)
  obtain r rs where run: "run_loop ?env (parallel_execute ?env) (react_graph ap hash) no_sinks ''budget_check'' 0 ?mx ?start = (r, rs)"
    by fastforce
  have out: "fst (agent_invoke x schedule (agent_loop ap hash) ms w)
      = (case r of None \<Rightarrow> Inr (loop_result (eng_state (rs_engine rs))) | Some e \<Rightarrow> Inl (runtime_error x e))"
    using run by (simp add: agent_invoke_def agent_loop_def Inr plain_agent_runs [OF assms(1)] split: option.splits)
  have verdict: "run_verdict ap no_sinks ?mx r rs"
    using agent_run_verdict [OF assms(1) ops mx, where s = "from_messages initial"
        and par = "parallel_execute ?env" and hash = hash and sk = no_sinks and cancelled = False and w = w] run
    by (simp add: from_messages_def)
  have talk: "talk_inv ''budget_check'' (from_messages initial)"
    using protocol_initial [OF Inr assms(3)] by (simp add: talk_inv_def from_messages_def)
  have answer: "r = None \<longrightarrow> answered_talk (eng_state (rs_engine rs))"
    using plain_agent_answers [OF assms(1) ops mx assms(2), where c = "''budget_check''" and rs = ?start
        and par = "parallel_execute ?env" and hash = hash and sk = no_sinks and k = 0] run talk
    by (simp add: agent_node_def clean_def loop_start_def engine_new_def from_messages_def)
  show ?thesis
  proof (cases r)
    case (Some e)
    with verdict show ?thesis by (auto simp: out run_verdict_def no_sinks_def)
  next
    case None
    with verdict answer show ?thesis
      by (auto simp: out run_verdict_def loop_result_def answered_talk_def is_success_def final_stop_def is_terminal_def)
  qed
qed

definition plain_text :: error_text where
  "plain_text = \<lparr>et_debug = (\<lambda>_. ''Error''), et_state = (\<lambda>_. ''state''), et_failures = (\<lambda>_. ''[]''), et_duration = show_nat\<rparr>"

lemma invocation_returns_the_answer_witness:
  "case fst (agent_invoke plain_text (\<lambda>w n. [0..<n]) (agent_loop (sample_agent :: unit agent_parts) 0) [UserMessage []] ()) of
    Inl e \<Rightarrow> e = DuplicateSystemPrompt \<and> uc_system (agent_config (sample_agent :: unit agent_parts)) \<noteq> None
        \<and> has_system_message [UserMessage []]
      \<or> (\<exists>t. e = runtime_error plain_text t
            \<and> (t = StepsExceeded (max_steps_for (agent_config (sample_agent :: unit agent_parts)))
               \<or> model_error (sample_agent :: unit agent_parts) t))
  | Inr r \<Rightarrow> 1 \<le> tu_iterations r \<and> tu_iterations r \<le> round_bound (sample_agent :: unit agent_parts)
      \<and> (\<exists>hist. tu_messages r = hist @ [AssistantMessage (rp_content (tu_response r))] \<and> protocol [] hist)
      \<and> (is_success r \<longrightarrow> protocol [] (tu_messages r))"
  by (rule invocation_returns_the_answer [OF sample_agent_plain(1) sample_compact]) simp

section \<open>Restored runs\<close>

lemma plain_persistable: "plain_agent ap \<Longrightarrow> validate_persistable (react_graph ap hash) = None"
  using build_InrD' [OF build_react_graph_ok, of ap hash]
  by (simp add: plain_agent_def react_builder_defs Let_def validate_persistable_def)

lemma react_graph_hash: "g_canonical_hash (react_graph ap hash) = hash"
  using build_InrD' [OF build_react_graph_ok, of ap hash]
  by (cases "uc_require_approval (agent_config ap)") (simp_all add: Let_def react_builder_defs)

lemma react_graph_nodes_ok: "hm_ok (g_nodes (react_graph ap hash))"
  using build_InrD' [OF build_react_graph_ok, of ap hash]
  by (cases "uc_require_approval (agent_config ap)") (simp_all add: Let_def react_builder_defs)

lemma plain_has_node: "agent_node c \<Longrightarrow> has_node (react_graph ap hash) c"
  by (auto simp: agent_node_def has_node_def react_graph_node)

text \<open>The nodes that need the response of the model are reached only with one.\<close>

definition response_ready :: "string \<Rightarrow> agent_state \<Rightarrow> bool" where
  "response_ready c s \<longleftrightarrow> (c \<in> {''post_llm_check'', ''tool''} \<longrightarrow> as_response s \<noteq> None)"

lemma response_ready_step: "react_step ap (c, s) (n, s') \<Longrightarrow> response_ready c s \<Longrightarrow> response_ready n s'"
  by (erule react_step_cases) (auto simp: response_ready_def answered_state_def)

lemma plain_agent_boundary:
  assumes plain: "plain_agent ap" and ops: "re_ops env = agent_ops" and mx: "mx \<le> usize_max"
    and "boundary env par (react_graph ap hash) sk mx (''budget_check'', 0, loop_start s cancelled w) (c, k, rs)"
  shows "agent_node c \<and> clean (rs_engine rs) \<and> response_ready c (eng_state (rs_engine rs))
    \<and> eng_cancelled (rs_engine rs) = cancelled"
proof -
  have step: "agent_node n \<and> clean (rs_engine rs2) \<and> response_ready n (eng_state (rs_engine rs2))
      \<and> eng_cancelled (rs_engine rs2) = cancelled"
    if "loop_step env par (react_graph ap hash) sk c1 k1 mx rs1 = Continue n k2 rs2"
      "agent_node c1 \<and> clean (rs_engine rs1) \<and> response_ready c1 (eng_state (rs_engine rs1))
        \<and> eng_cancelled (rs_engine rs1) = cancelled" for c1 k1 rs1 n k2 rs2
  proof -
    from plain_agent_step [OF plain ops mx, where c = c1 and rs = rs1 and k = k1 and par = par and hash = hash and sk = sk] that
    have ref: "refined ap sk mx c1 k1 rs1 (Continue n k2 rs2)" by simp
    then have r: "react_step ap (c1, eng_state (rs_engine rs1)) (n, eng_state (rs_engine rs2))" by (simp add: refined_def)
    then have "agent_node n" by cases (simp_all add: agent_node_def)
    with ref response_ready_step [OF r] that(2) show ?thesis by (simp add: refined_def)
  qed
  have start: "agent_node ''budget_check''" "clean (rs_engine (loop_start s cancelled w))" "response_ready ''budget_check'' q"
      "eng_cancelled (rs_engine (loop_start s cancelled w)) = cancelled" for q
    by (simp_all add: agent_node_def clean_def loop_start_def engine_new_def response_ready_def)
  from assms(4) show ?thesis
    by (induction "(''budget_check'', 0 :: nat, loop_start s cancelled w :: (agent_state, agent_mutation, agent_chunk, 'a) run_state)" "(c, k, rs)"
        arbitrary: c k rs rule: boundary.induct) (use step start in blast)+
qed


section \<open>The streamed run\<close>

fun ends_loop :: "agent_event \<Rightarrow> bool" where
  "ends_loop (LoopEnd _) \<longleftrightarrow> True"
| "ends_loop (LoopError _ _) \<longleftrightarrow> True"
| "ends_loop _ \<longleftrightarrow> False"

fun reports :: "llm_error + tool_use_result \<Rightarrow> agent_event \<Rightarrow> bool" where
  "reports (Inr r) ev \<longleftrightarrow> ev = LoopEnd r"
| "reports (Inl e) (LoopError e' _) \<longleftrightarrow> e' = e"
| "reports (Inl e) _ \<longleftrightarrow> False"

lemma sent_events_no_end: "list_all (\<lambda>e. \<not> ends_loop e) (sent_events room (List.map_filter (chunk_event parse) cs))"
proof -
  have "\<not> ends_loop e" if "chunk_event parse c = Some e" for c e
    using that by (cases "(parse, c)" rule: chunk_event.cases) auto
  then have all: "\<forall>e \<in> set (List.map_filter (chunk_event parse) cs). \<not> ends_loop e"
    by (auto simp: List.map_filter_def)
  have "set (sent_events room es) \<subseteq> set es" for es
    by (auto simp: sent_events_def in_set_enumerate_eq)
  with all show ?thesis by (fastforce simp: list_all_iff)
qed

text \<open>
  C39: However slow the consumer is, the stream of an invocation ends with exactly one final
  event, and this event reports what the plain call returns: the same result or the same
  error, after the same changes to the world.
\<close>

theorem stream_reports_what_the_call_returns:
  assumes "plain_agent ap"
  shows "case agent_invoke_stream x parse schedule room (agent_loop ap hash) ms w of
    (events, w') \<Rightarrow> events \<noteq> [] \<and> list_all (\<lambda>e. \<not> ends_loop e) (butlast events)
      \<and> reports (fst (agent_invoke x schedule (agent_loop ap hash) ms w)) (last events)
      \<and> w' = snd (agent_invoke x schedule (agent_loop ap hash) ms w)"
proof (cases "build_request_messages (agent_config ap) ms")
  case (Inl e)
  then show ?thesis by (simp add: agent_invoke_stream_def agent_invoke_def agent_loop_def)
next
  case (Inr initial)
  let ?env = "agent_env schedule" and ?g = "react_graph ap hash" and ?mx = "max_steps_for (agent_config ap)"
  have "alike [] (streamed_start (from_messages initial) w) (loop_start (from_messages initial) False w)"
    by (simp add: alike_def' engine_alike_def streamed_start_def loop_start_def)
  from run_loop_alike [OF plain_persistable [OF assms] this]
  have alike: "result_alike [] (run_loop ?env (parallel_execute ?env) ?g no_sinks ''budget_check'' 0 ?mx (streamed_start (from_messages initial) w))
      (run_loop ?env (parallel_execute ?env) ?g no_sinks ''budget_check'' 0 ?mx (loop_start (from_messages initial) False w))" .
  obtain r rs where run: "run_loop ?env (parallel_execute ?env) ?g no_sinks ''budget_check'' 0 ?mx (streamed_start (from_messages initial) w) = (r, rs)"
    by fastforce
  obtain rs' where run': "run_loop ?env (parallel_execute ?env) ?g no_sinks ''budget_check'' 0 ?mx (loop_start (from_messages initial) False w) = (r, rs')"
      and same: "alike [] rs rs'"
    by (rule result_alikeE [OF alike run])
  from same have "eng_state (rs_engine rs') = eng_state (rs_engine rs)" "rs_world rs' = rs_world rs"
    by (auto simp: alike_def' engine_alike_def)
  with run' run show ?thesis
    by (simp add: agent_invoke_stream_def agent_invoke_def agent_loop_def Inr plain_agent_runs [OF assms] sent_events_no_end
        split: option.split)
qed

section \<open>Agents that require approval\<close>

lemma approval_handler_missing:
  assumes "uc_require_approval (agent_config ap)"
  shows "validate_approval_handlers False (react_graph ap hash) = Some (BarrierHandlerMissing ''tool'')"
    and "validate_persistable (react_graph ap hash) = Some (RestoreUnsupported ''tool'' ''Barrier'')"
  using build_InrD' [OF build_react_graph_ok, of ap hash] assms
  by (simp_all add: react_builder_defs Let_def validate_approval_handlers_def validate_persistable_def)

text \<open>
  An agent that requires approval runs through its durable entry points only. The call, the
  stream and the run with checkpoints fail because the barrier has no handler, and a restore
  because barriers cannot be restored, all before any node has run: the world is unchanged.
\<close>

theorem approval_needs_a_durable_run:
  assumes "uc_require_approval (agent_config ap)" "build_request_messages (agent_config ap) ms = Inr initial"
    and "assert_fresh_trace cfg trace w = None"
  shows "agent_invoke x schedule (agent_loop ap hash) ms w = (Inl (runtime_error x (BarrierHandlerMissing ''tool'')), w)
     \<and> agent_invoke_stream x parse schedule room (agent_loop ap hash) ms w
       = ([LoopError (runtime_error x (BarrierHandlerMissing ''tool'')) 0], w)
     \<and> invoke_with_checkpoint x schedule clock (agent_loop ap hash) ms trace cfg w
       = (Inl (runtime_error x (BarrierHandlerMissing ''tool'')), w)
     \<and> invoke_with_restore x schedule clock (agent_loop ap hash) cp trace cfg w
       = (Inl (RestoreRefused OtherReason (et_debug x (RestoreUnsupported ''tool'' ''Barrier''))), w)"
  using assms(2,3)
  by (simp add: agent_invoke_def agent_invoke_stream_def invoke_with_checkpoint_def invoke_with_restore_def agent_loop_def
      run_inline_def run_inline_from_def run_graph_loop_def approval_handler_missing [OF assms(1)] no_sinks_def agent_sinks_def
      loop_start_def streamed_start_def streamed_chunks_def sent_events_def from_messages_def Let_def map_filter_simps)

subsection \<open>The hypotheses hold for a concrete agent\<close>

instance cache_control :: countable
  by countable_datatype

instance image_source_ext :: (countable) countable
  by (rule countable_classI [of "\<lambda>r. to_nat (im_data r, im_media_type r, image_source.more r)"]) simp

instance text_block_ext :: (countable) countable
  by (rule countable_classI [of "\<lambda>r. to_nat (tb_text r, tb_cache r, text_block.more r)"]) simp

instance thinking_block_ext :: (countable) countable
  by (rule countable_classI [of "\<lambda>r. to_nat (th_thinking r, th_redacted r, thinking_block.more r)"]) simp

instance tool_call_ext :: (countable) countable
  by (rule countable_classI [of "\<lambda>r. to_nat (tc_id r, tc_name r, tc_arguments r, tool_call.more r)"]) simp

instance token_usage_ext :: (countable) countable
  by (rule countable_classI [of "\<lambda>r. to_nat (tu_prompt r, tu_completion r, tu_total r, token_usage.more r)"]) simp

instance content_block :: countable
  by countable_datatype

instance message :: countable
  by countable_datatype

instance stop_reason :: countable
  by countable_datatype

instance chat_response_ext :: (countable) countable
  by (rule countable_classI [of "\<lambda>r. to_nat (rp_content r, rp_usage r, rp_raw r, chat_response.more r)"]) simp

instance agent_checkpoint_ext :: (countable) countable
  by (rule countable_classI [of "\<lambda>r. to_nat ((ac_messages r, ac_iterations r, ac_tool_calls r, ac_output_tokens r),
    (ac_reasoning_tokens r, ac_compact_count r, ac_stop r, ac_response r), agent_checkpoint.more r)"]) simp

text \<open>A serialiser that writes a state as its number.\<close>

definition numbered_serde :: "('c :: countable) serde_fns" where
  "numbered_serde =
     \<lparr>sd_text = sd_text state_serde, sd_parse = sd_parse state_serde,
      sd_state = (\<lambda>c. Inr (JInt (int (to_nat c)))),
      sd_of_state = (\<lambda>v. case v of JInt i \<Rightarrow> Inr (from_nat (nat i)) | _ \<Rightarrow> Inl ''invalid type''),
      sd_id = sd_id state_serde, sd_of_id = sd_of_id state_serde\<rparr>"

lemma numbered_serde_laws:
  "sd_parse numbered_serde (sd_text numbered_serde v) = Inr (json_norm v)"
  "sd_state numbered_serde c = Inr v \<Longrightarrow> sd_of_state numbered_serde (json_norm v) = Inr c"
  "sd_of_id numbered_serde (json_norm (sd_id numbered_serde i)) = Inr i"
  using state_serde.parse_text state_serde.id_back by (auto simp: numbered_serde_def)

lemma run_tasks_world:
  "(\<And>call w. fst (dispatch_call env p snap call w) = w) \<Longrightarrow> snd (run_tasks env p snap is ts w) = w"
proof (induction env p snap "is" ts w rule: run_tasks.induct)
  case (2 env p snap i "is" ts w)
  have "snd (task_step env p snap t w) = w" for t
    using 2(3) by (auto simp: task_step_def split: option.splits list.splits prod.splits tool_run.splits) (metis fst_conv)+
  with 2 show ?case by (auto split: prod.splits) (metis snd_conv)
qed simp

interpretation numbered_serde: checkpoint_serde numbered_serde "\<lambda>_. True"
  by unfold_locales (auto simp: numbered_serde_laws)

lemma sample_tool_world: "fst (tool_execute_node (ap_tool sample_agent) w s cancelled) = w"
proof -
  let ?n = "ap_tool sample_agent :: 'a tool_node"
  have tasks: "tn_tasks ?n w = None" by (simp add: sample_agent_def Let_def)
  have snap: "ex_catalog (tn_executor ?n) w = (w, from_tools [])"
    by (simp add: sample_agent_def Let_def executor_new_def static_catalog_def)
  have "fst (dispatch_call env p (from_tools []) call v) = v" for env :: "'a tool_env" and p call v
    by (simp add: dispatch_call_def snapshot_get_def from_tools_def snapshot_new_def)
  then have "snd (execute_batch (tn_env ?n) (tn_executor ?n) calls w) = w" for calls
    by (simp add: execute_batch_def snap run_batch_def Let_def run_tasks_world split: prod.split)
      (metis run_tasks_world snd_conv)
  then show ?thesis
    by (simp add: tool_execute_node_def tool_batch_def tasks Let_def split: prod.splits sum.splits) (metis snd_conv)
qed

lemma sample_llm_world: "fst (llm_execute (ap_text sample_agent) (ap_llm sample_agent) w s cancelled) = w"
proof -
  let ?n = "ap_llm sample_agent"
  obtain snap where snap: "ex_catalog (ln_executor ?n) w = (w, snap)"
    by (simp add: sample_agent_def Let_def executor_new_def static_catalog_def)
  have "\<exists>call. iv_stream (ln_invoker ?n) (llm_request ?n s snap) w = (w, Inr [Inr (PComplete [call] None)])"
    by (simp add: sample_agent_def Let_def invoker_from_config_def)
  then show ?thesis
    by (auto simp: llm_execute_def snap Let_def invoke_stream_opened retry_stream_new_def)
qed

lemma sample_store_blind: "store_blind issued (react_graph (sample_agent :: (memory_store \<times> nat) agent_parts) hash)"
proof -
  have "node_store_blind issued node" if "hm_get (g_nodes (react_graph (sample_agent :: (memory_store \<times> nat) agent_parts) hash)) c = Some node" for c node
    using that sample_agent_plain(1)
    by (auto simp: react_graph_node plain_agent_def sample_tool_world sample_llm_world compactor_execute_def budget_execute_def
        post_llm_execute_def split: if_splits)
  then show ?thesis
    by (auto simp: store_blind_def list_all_iff hm_get_Some_iff [OF react_graph_nodes_ok, symmetric])
qed

lemma sample_checkpointed_step:
  fixes hash :: "64 word"
  defines "cfg \<equiv> config_with_retention (KeepLatest 1) (config_for_store (lift_store memory_ops) numbered_serde hash)"
  shows "\<exists>rs. loop_step (agent_env schedule) par (react_graph sample_agent hash)
     (agent_sinks counting_clock cfg ''t'') ''budget_check'' 0 9
     (loop_start (from_messages [UserMessage []]) False (memory_new, 0)) = Continue ''llm'' 1 rs"
proof -
  have one: "usize_checked_add 0 (Suc 0) = Some (Suc 0)" by (simp add: usize_max_def)
  show ?thesis
    by (simp add: loop_step_def one react_graph_node run_leaf_fn_def loop_start_def budget_execute_ops engine_new_def sample_fits
      exec_leaf_ops_def commit_and_take_def take_control_def control_take_def control_new_def control_goto_def route_def
      resolve_next_opt_def emit_checkpoint_def agent_sinks_def cfg_def config_with_retention_def config_for_store_def
      save_sink_def on_checkpoint_def counting_clock_def codec_serialize_def checkpoint_to_value_def numbered_serde_def
      lift_store_def memory_ops_def memory_save_def checkpoint_new_def log_event_def)
qed

definition sample_checkpoints :: "(memory_store \<times> nat, agent_checkpoint) checkpoint_config" where
  "sample_checkpoints = config_with_retention (KeepLatest 1) (config_for_store (lift_store memory_ops) numbered_serde 5)"


lemma stream_reports_what_the_call_returns_witness:
  "case agent_invoke_stream plain_text (\<lambda>_. None) (\<lambda>w n. [0..<n]) (\<lambda>i. i < 3) (agent_loop sample_agent 0) [UserMessage []] () of
    (events, w') \<Rightarrow> events \<noteq> [] \<and> list_all (\<lambda>e. \<not> ends_loop e) (butlast events)
      \<and> reports (fst (agent_invoke plain_text (\<lambda>w n. [0..<n]) (agent_loop sample_agent 0) [UserMessage []] ())) (last events)
      \<and> w' = snd (agent_invoke plain_text (\<lambda>w n. [0..<n]) (agent_loop sample_agent 0) [UserMessage []] ())"
  by (rule stream_reports_what_the_call_returns [OF sample_agent_plain(1)])

definition approval_agent :: "'w agent_parts" where
  "approval_agent = sample_agent\<lparr>ap_llm := (ap_llm sample_agent)\<lparr>ln_config := tool_use_config_default\<lparr>uc_require_approval := True\<rparr>\<rparr>\<rparr>"

lemma approval_needs_a_durable_run_witness:
  "invoke_with_checkpoint plain_text (\<lambda>w n. [0..<n]) counting_clock (agent_loop approval_agent 5) [UserMessage []] ''t''
       sample_checkpoints (memory_new, 0)
     = (Inl (runtime_error plain_text (BarrierHandlerMissing ''tool'')), (memory_new, 0))"
proof -
  let ?agent = "approval_agent :: (memory_store \<times> nat) agent_parts"
  have a: "uc_require_approval (agent_config ?agent)" by (simp add: approval_agent_def)
  have b: "build_request_messages (agent_config ?agent) [UserMessage []] = Inr [UserMessage []]"
    by (simp add: build_request_messages_def approval_agent_def sample_agent_def tool_use_config_default_def Let_def)
  have c: "assert_fresh_trace sample_checkpoints ''t'' (memory_new, 0 :: nat) = None"
    by (simp add: assert_fresh_trace_def sample_checkpoints_def config_with_retention_def config_for_store_def lift_store_def
        memory_ops_def memory_load_latest_def memory_new_def)
  from approval_needs_a_durable_run [OF a b c] show ?thesis by blast
qed

end
