(* ===== verification/Agent_Builder.thy ===== *)
theory Agent_Builder
  imports Agent_Loop
begin

text \<open>
  The builder of agents (\<open>runtime/builder.rs\<close>): its setters, the identity of an agent
  (\<open>canonical_hash\<close>), and how its parts are put together.
\<close>

section \<open>The builder\<close>

text \<open>A resolved model: the provider with its identifier, and the name of the model.\<close>

record 'w resolved_model =
  rm_provider_id :: string
  rm_model :: string
  rm_stream :: "chat_request \<Rightarrow> 'w \<Rightarrow> 'w \<times> (llm_error + provider_items)"
  rm_call :: "chat_request \<Rightarrow> 'w \<Rightarrow> 'w \<times> (llm_error + chat_response)"

record 'w agent_builder =
  ab_model :: "'w resolved_model"
  ab_tools :: "'w executable_tool list"
  ab_catalogs :: "(string \<times> 'w catalog) list"
  ab_config :: tool_use_config
  ab_fallback :: "fallback_context \<Rightarrow> 'w \<Rightarrow> 'w \<times> fallback_action"

text \<open>\<open>DefaultFallback::default\<close> retries three times.\<close>

definition agent_builder_new :: "'w resolved_model \<Rightarrow> 'w agent_builder" where
  "agent_builder_new m = \<lparr>ab_model = m, ab_tools = [], ab_catalogs = [], ab_config = tool_use_config_default,
     ab_fallback = default_fallback 3\<rparr>"

definition add_tool :: "'w executable_tool \<Rightarrow> 'w agent_builder \<Rightarrow> 'w agent_builder" where
  "add_tool t b = b\<lparr>ab_tools := ab_tools b @ [t]\<rparr>"

definition add_tools :: "'w executable_tool list \<Rightarrow> 'w agent_builder \<Rightarrow> 'w agent_builder" where
  "add_tools ts b = b\<lparr>ab_tools := ab_tools b @ ts\<rparr>"

definition add_catalog :: "string \<Rightarrow> 'w catalog \<Rightarrow> 'w agent_builder \<Rightarrow> 'w agent_builder" where
  "add_catalog n c b = b\<lparr>ab_catalogs := ab_catalogs b @ [(n, c)]\<rparr>"

definition with_config :: "(tool_use_config \<Rightarrow> tool_use_config) \<Rightarrow> 'w agent_builder \<Rightarrow> 'w agent_builder" where
  "with_config f b = b\<lparr>ab_config := f (ab_config b)\<rparr>"

definition with_options :: "(request_options \<Rightarrow> request_options) \<Rightarrow> 'w agent_builder \<Rightarrow> 'w agent_builder" where
  "with_options f = with_config (\<lambda>c. c\<lparr>uc_request_options := f (uc_request_options c)\<rparr>)"

definition set_max_iterations :: "nat \<Rightarrow> 'w agent_builder \<Rightarrow> 'w agent_builder" where
  "set_max_iterations n = with_config (uc_max_iterations_update (\<lambda>_. n))"

definition set_max_output_tokens :: "32 word \<Rightarrow> 'w agent_builder \<Rightarrow> 'w agent_builder" where
  "set_max_output_tokens n = with_config (uc_max_output_tokens_update (\<lambda>_. n))"

definition set_max_total_output_tokens :: "32 word \<Rightarrow> 'w agent_builder \<Rightarrow> 'w agent_builder" where
  "set_max_total_output_tokens n = with_config (uc_max_total_output_tokens_update (\<lambda>_. Some n))"

definition set_system :: "prompt \<Rightarrow> 'w agent_builder \<Rightarrow> 'w agent_builder" where
  "set_system p = with_config (uc_system_update (\<lambda>_. Some p))"

text \<open>\<open>From<String> for Prompt\<close>: one dynamic layer.\<close>

definition set_system_prompt :: "string \<Rightarrow> 'w agent_builder \<Rightarrow> 'w agent_builder" where
  "set_system_prompt t = with_config (uc_system_update (\<lambda>_. Some (add_dynamic t [])))"

definition set_tool_cache_policy :: "tool_cache_policy \<Rightarrow> 'w agent_builder \<Rightarrow> 'w agent_builder" where
  "set_tool_cache_policy p = with_config (uc_tool_cache_policy_update (\<lambda>_. p))"

definition set_request_options :: "request_options \<Rightarrow> 'w agent_builder \<Rightarrow> 'w agent_builder" where
  "set_request_options opts = with_options (\<lambda>_. opts)"

definition set_temperature :: "64 word \<Rightarrow> 'w agent_builder \<Rightarrow> 'w agent_builder" where
  "set_temperature t = with_options (ro_temperature_update (\<lambda>_. Some t))"

definition set_top_p :: "64 word \<Rightarrow> 'w agent_builder \<Rightarrow> 'w agent_builder" where
  "set_top_p t = with_options (ro_top_p_update (\<lambda>_. Some t))"

definition set_seed :: "64 word \<Rightarrow> 'w agent_builder \<Rightarrow> 'w agent_builder" where
  "set_seed s = with_options (ro_seed_update (\<lambda>_. Some s))"

definition set_tool_choice :: "tool_choice \<Rightarrow> 'w agent_builder \<Rightarrow> 'w agent_builder" where
  "set_tool_choice c = with_options (ro_tool_choice_update (\<lambda>_. Some c))"

definition set_stop_sequences :: "string list \<Rightarrow> 'w agent_builder \<Rightarrow> 'w agent_builder" where
  "set_stop_sequences s = with_options (ro_stop_sequences_update (\<lambda>_. Some s))"

definition set_prefill :: "string \<Rightarrow> 'w agent_builder \<Rightarrow> 'w agent_builder" where
  "set_prefill t = with_options (ro_prefill_update (\<lambda>_. Some t))"

definition set_reasoning :: "reasoning_config \<Rightarrow> 'w agent_builder \<Rightarrow> 'w agent_builder" where
  "set_reasoning r = with_options (ro_reasoning_update (\<lambda>_. Some r))"

definition set_stream_thinking :: "bool \<Rightarrow> 'w agent_builder \<Rightarrow> 'w agent_builder" where
  "set_stream_thinking e = with_config (uc_stream_thinking_update (\<lambda>_. e))"

definition set_reasoning_budget :: "32 word \<Rightarrow> 'w agent_builder \<Rightarrow> 'w agent_builder" where
  "set_reasoning_budget n = with_options (ro_max_reasoning_tokens_update (\<lambda>_. Some n))"

definition set_max_total_reasoning_tokens :: "32 word \<Rightarrow> 'w agent_builder \<Rightarrow> 'w agent_builder" where
  "set_max_total_reasoning_tokens n = with_config (uc_max_total_reasoning_tokens_update (\<lambda>_. Some n))"

definition set_fallback ::
  "(fallback_context \<Rightarrow> 'w \<Rightarrow> 'w \<times> fallback_action) \<Rightarrow> 'w agent_builder \<Rightarrow> 'w agent_builder" where
  "set_fallback f b = b\<lparr>ab_fallback := f\<rparr>"

definition set_retry_policy :: "retry_policy \<Rightarrow> 'w agent_builder \<Rightarrow> 'w agent_builder" where
  "set_retry_policy p = with_config (uc_retry_policy_update (\<lambda>_. p))"

definition set_require_approval :: "bool \<Rightarrow> 'w agent_builder \<Rightarrow> 'w agent_builder" where
  "set_require_approval r = with_config (uc_require_approval_update (\<lambda>_. r))"

definition set_context_budget :: "context_budget \<Rightarrow> 'w agent_builder \<Rightarrow> 'w agent_builder" where
  "set_context_budget c = with_config (uc_context_budget_update (\<lambda>_. c))"

section \<open>The identity of an agent\<close>

text \<open>
  What is fed to the hasher, in order. \<open>DefaultHasher\<close> and the text that \<open>Debug\<close> prints of a
  prompt are arguments.
\<close>

datatype hash_input = HashStr string | HashUsize nat | HashU32 "32 word" | HashOptU32 "32 word option"

definition hash_inputs :: "(prompt \<Rightarrow> string) \<Rightarrow> 'w agent_builder \<Rightarrow> hash_input list" where
  "hash_inputs debug b =
     (let c = ab_config b in
      [HashStr (rm_provider_id (ab_model b)), HashStr (rm_model (ab_model b))]
      @ map (\<lambda>t. HashStr (td_name (et_definition t))) (ab_tools b)
      @ (case uc_system c of None \<Rightarrow> [] | Some p \<Rightarrow> [HashStr (debug p)])
      @ [HashUsize (uc_max_iterations c), HashU32 (uc_max_output_tokens c), HashOptU32 (uc_max_total_output_tokens c),
         HashOptU32 (uc_max_total_reasoning_tokens c)]
      @ (if uc_require_approval c then [HashStr ''require_tool_approval''] else []))"

definition agent_canonical_hash :: "(hash_input list \<Rightarrow> 64 word) \<Rightarrow> (prompt \<Rightarrow> string) \<Rightarrow> 'w agent_builder \<Rightarrow> 64 word" where
  "agent_canonical_hash hash debug b = hash (hash_inputs debug b)"

section \<open>Putting the parts together\<close>

definition tool_sources :: "'w agent_builder \<Rightarrow> (string \<times> 'w catalog) list" where
  "tool_sources b =
     (if ab_tools b = [] then [] else [(''builtin'', static_catalog (from_tools (ab_tools b)))]) @ ab_catalogs b"

definition root_catalog :: "'w agent_builder \<Rightarrow> 'w catalog" where
  "root_catalog b =
     (case tool_sources b of
        [] \<Rightarrow> static_catalog (snapshot_new [])
      | [(n, c)] \<Rightarrow> c
      | sources \<Rightarrow> composite_snapshot \<lparr>cbd_sources = sources, cbd_policy = ShadowPolicy\<rparr>)"

definition agent_executor :: "'w agent_builder \<Rightarrow> 'w tool_executor" where
  "agent_executor b = executor_with_retry (root_catalog b) (uc_retry_policy (ab_config b))"

text \<open>What surrounds the agent: texts, time, the schedule of tasks, and the durable task runtime of a run.\<close>

record 'w surroundings =
  su_text :: text_env
  su_tools :: "'w tool_env"
  su_sleep :: "nat \<Rightarrow> 'w \<Rightarrow> 'w"
  su_tasks :: "'w \<Rightarrow> 'w durable_batch option"

definition agent_parts_of :: "'w surroundings \<Rightarrow> 'w agent_builder \<Rightarrow> 'w agent_parts" where
  "agent_parts_of su b =
     (let c = ab_config b; m = ab_model b; ex = agent_executor b in
      \<lparr>ap_text = su_text su,
       ap_llm = \<lparr>ln_name = ''llm'',
         ln_invoker = invoker_from_config (rm_model m) (rm_stream m) (rm_call m) (uc_retry_policy c) (ab_fallback b) (su_sleep su),
         ln_executor = ex, ln_config = c\<rparr>,
       ap_tool = \<lparr>tn_name = ''tool'', tn_executor = ex, tn_config = c, tn_env = su_tools su, tn_tasks = su_tasks su\<rparr>,
       ap_compact = local_compact (tx_alnum (su_text su)) (tx_print (su_text su)),
       ap_compact_budget = uc_context_budget c\<rparr>)"

definition build_agent ::
  "(hash_input list \<Rightarrow> 64 word) \<Rightarrow> (prompt \<Rightarrow> string) \<Rightarrow> 'w surroundings \<Rightarrow> 'w agent_builder
   \<Rightarrow> build_error list + 'w agent_graph" where
  "build_agent hash debug su b = build_react_graph (agent_parts_of su b) (agent_canonical_hash hash debug b)"

text \<open>\<open>compile\<close>; the graph always builds.\<close>

definition compile_agent ::
  "(hash_input list \<Rightarrow> 64 word) \<Rightarrow> (prompt \<Rightarrow> string) \<Rightarrow> 'w surroundings \<Rightarrow> 'w agent_builder \<Rightarrow> 'w tool_use_loop" where
  "compile_agent hash debug su b =
     \<lparr>tl_graph = projr (build_agent hash debug su b), tl_config = ab_config b\<rparr>"

section \<open>Facts\<close>

text \<open>The compiled agent is the loop over the modelled graph, with the local compactor.\<close>

lemma compile_agent_loop:
  "compile_agent hash debug su b = agent_loop (agent_parts_of su b) (agent_canonical_hash hash debug b)"
  "ap_compact (agent_parts_of su b) = local_compact (tx_alnum (su_text su)) (tx_print (su_text su))"
  "plain_agent (agent_parts_of su b) \<longleftrightarrow> \<not> uc_require_approval (ab_config b) \<and> su_tasks su = (\<lambda>_. None)"
  by (simp_all add: compile_agent_def build_agent_def agent_loop_def react_graph_def agent_parts_of_def plain_agent_def Let_def)

lemma from_tools_get:
  "snapshot_get (from_tools ts) n = find (\<lambda>t. td_name (et_definition t) = n) (rev ts)"
proof -
  have "hm_get (fold (\<lambda>t. hm_insert (td_name (et_definition t)) t) ts m) n
      = (case find (\<lambda>t. td_name (et_definition t) = n) (rev ts) of Some t \<Rightarrow> Some t | None \<Rightarrow> hm_get m n)" for m
    by (induction ts arbitrary: m) (auto simp: find_append split: option.splits)
  then show ?thesis by (simp add: snapshot_get_def from_tools_def snapshot_new_def split: option.split)
qed

lemma from_tools_Nil [simp]: "snapshot_get (from_tools []) n = None"
  by (simp add: from_tools_get)

lemma from_tools_ok: "hm_ok (sn_tools (from_tools ts))"
proof -
  have "hm_ok m \<Longrightarrow> hm_ok (fold (\<lambda>t. hm_insert (td_name (et_definition t)) t) ts m)" for m
    by (induction ts arbitrary: m) simp_all
  then show ?thesis by (simp add: from_tools_def snapshot_new_def)
qed

fun taken_world :: "(string \<times> 'w catalog) list \<Rightarrow> 'w \<Rightarrow> 'w" where
  "taken_world [] w = w"
| "taken_world ((source, catalog) # rest) w = taken_world rest (fst (catalog w))"

lemma taken_append: "taken (xs @ ys) w = taken xs w @ taken ys (taken_world xs w)"
  by (induction xs w rule: taken.induct) simp_all

text \<open>
  A name of a tool given to the builder is the last such tool, whatever the catalogs offer;
  any other name is looked up in the catalogs, in the order in which they were given.
\<close>

theorem builtin_tools_shadow_catalogs:
  assumes "list_all (\<lambda>src. hm_ok (sn_tools (snd src))) (taken (rev (ab_catalogs b)) w)"
  shows "snapshot_get (snd (ex_catalog (agent_executor b) w)) n
    = (case find (\<lambda>t. td_name (et_definition t) = n) (rev (ab_tools b)) of
         Some t \<Rightarrow> Some t
       | None \<Rightarrow>
           (case find (provides n) (rev (taken (rev (ab_catalogs b)) w)) of
              Some src \<Rightarrow> snapshot_get (snd src) n
            | None \<Rightarrow> None))"
proof -
  let ?catalogs = "case find (provides n) (rev (taken (rev (ab_catalogs b)) w)) of
      Some src \<Rightarrow> snapshot_get (snd src) n | None \<Rightarrow> None"
  let ?own = "snapshot_get (from_tools (ab_tools b)) n"
  have single: "snapshot_get (snd (c w)) n = ?catalogs" if "ab_catalogs b = [(s, c)]" for s c
    using that by (auto simp: provides_def)
  have many: "snapshot_get (snd (composite_snapshot \<lparr>cbd_sources = tool_sources b, cbd_policy = ShadowPolicy\<rparr> w)) n
      = (if ab_tools b = [] then ?catalogs else case ?own of Some t \<Rightarrow> Some t | None \<Rightarrow> ?catalogs)"
  proof -
    have ok: "list_all (\<lambda>src. hm_ok (sn_tools (snd src))) (taken (rev (tool_sources b)) w)"
      using assms by (simp add: tool_sources_def taken_append static_catalog_def from_tools_ok)
    show ?thesis
      by (subst first_source_wins)
        (use ok in \<open>auto simp: tool_sources_def taken_append static_catalog_def provides_def split: option.splits\<close>)
  qed
  have "snapshot_get (snd (root_catalog b w)) n = (case ?own of Some t \<Rightarrow> Some t | None \<Rightarrow> ?catalogs)"
  proof (cases "tool_sources b")
    case Nil
    then show ?thesis
      by (auto simp: root_catalog_def tool_sources_def static_catalog_def snapshot_get_def snapshot_new_def from_tools_def split: if_splits)
  next
    case (Cons x xs)
    show ?thesis
    proof (cases xs)
      case Nil
      with Cons have root: "root_catalog b = snd x" by (cases x) (simp add: root_catalog_def)
      show ?thesis
      proof (cases "ab_tools b = []")
        case True
        with Cons Nil have "ab_catalogs b = [(fst x, snd x)]" by (simp add: tool_sources_def)
        from single [OF this] True show ?thesis by (simp add: root snapshot_get_def from_tools_def snapshot_new_def)
      next
        case False
        with Cons Nil have "snd x = static_catalog (from_tools (ab_tools b))" "ab_catalogs b = []" by (auto simp: tool_sources_def)
        then show ?thesis by (simp add: root static_catalog_def split: option.split)
      qed
    next
      case (Cons y ys)
      with \<open>tool_sources b = x # xs\<close> have "root_catalog b w = composite_snapshot \<lparr>cbd_sources = tool_sources b, cbd_policy = ShadowPolicy\<rparr> w"
        by (cases x) (simp add: root_catalog_def)
      with many show ?thesis by (cases "ab_tools b = []") simp_all
    qed
  qed
  then show ?thesis by (simp add: agent_executor_def executor_with_retry_def from_tools_get)
qed

definition sample_model :: "'w resolved_model" where
  "sample_model = \<lparr>rm_provider_id = ''p'', rm_model = ''m'', rm_stream = (\<lambda>_ w. (w, Inr [])), rm_call = (\<lambda>_ w. (w, Inr empty_response))\<rparr>"

lemma builtin_tools_shadow_catalogs_witness:
  "snapshot_get (snd (ex_catalog (agent_executor
      (add_catalog ''mcp'' (static_catalog (from_tools [tool_exclusive (et_definition (sample_tool ''x'')) (\<lambda>_ w. (w, Panicked ''no''))]))
        (add_tool (sample_tool ''x'') (agent_builder_new sample_model)))) ())) ''x''
    = Some (sample_tool ''x'')"
  by (subst builtin_tools_shadow_catalogs)
    (simp_all add: add_catalog_def add_tool_def agent_builder_new_def static_catalog_def from_tools_ok sample_tool_def tool_safe_def
      tool_from_fn_def)

end
