(* ===== verification/Agent_Durable_Tools.thy ===== *)
theory Agent_Durable_Tools
  imports Agent_Loop
begin

text \<open>
  Tool calls of a durable run (\<open>runtime/tools/durable.rs\<close>): every call of a batch is a recorded
  task of the node's scope, so that a run which dies between the tools and the commit of the
  node does not call a finished tool again.

  The groups of a batch are polled together and not spawned. A group is inside a call from the
  moment its task is recorded as started until its result is recorded; the schedule says whose
  turn it is, and what is left is run in order, so every group comes to its end.
\<close>

section \<open>One call\<close>

fun task_policy :: "tool_replay_policy \<Rightarrow> replay_policy" where
  "task_policy ToolManualRecovery = ManualRecovery"
| "task_policy ToolReplaySafe = ReplaySafe"
| "task_policy ToolIdempotentWithKey = IdempotentWithKey"

definition call_slot :: "nat \<Rightarrow> tool_call \<Rightarrow> string" where
  "call_slot i call = json_seq [show_nat i, json_str (tc_id call)]"

text \<open>\<open>json!\<close> makes an object whose keys are in order.\<close>

definition call_input :: "tool_call \<Rightarrow> json" where
  "call_input call = JObject [(''arguments'', tc_arguments call), (''name'', JString (tc_name call))]"

text \<open>
  What a batch runs with: the lease, the serialisers of messages, the scope of the node, the
  executor with its snapshot, and whether the node's token is cancelled.
\<close>

record ('st, 'w) batch_ctx =
  bc_save :: "'st lease_save"
  bc_enc :: "message \<Rightarrow> string + json"
  bc_dec :: "json \<Rightarrow> string + message"
  bc_env :: "'w tool_env"
  bc_retry :: retry_policy
  bc_cancelled :: bool
  bc_scope :: string
  bc_tools :: "'w tool_snapshot"

definition unsupported_call :: "'w tool_snapshot \<Rightarrow> tool_call \<Rightarrow> terminal_error option" where
  "unsupported_call snap call =
     (case snapshot_get snap (tc_name call) of
        None \<Rightarrow> Some (Durable (Unsupported (''unknown tool '' @ tc_name call)))
      | Some t \<Rightarrow>
          (if et_replay_policy t = ToolIdempotentWithKey \<and> \<not> supports_execution_context t
           then Some (Durable (Unsupported (tc_name call @ '' declares idempotency without a context executor'')))
           else None))"

text \<open>A call with the attempt counter of its invocation, a \<open>u32\<close>.\<close>

definition invoke_tool ::
  "'w executable_tool \<Rightarrow> json \<Rightarrow> task_invocation \<Rightarrow> bool \<Rightarrow> 'w \<times> nat \<Rightarrow> ('w \<times> nat) \<times> tool_run" where
  "invoke_tool t args iv cancelled wn =
     (case execute_with_context t args
             \<lparr>tx_task_id = ti_task iv, tx_idempotency_key = ti_key iv, tx_attempt = snd wn, tx_cancelled = cancelled\<rparr>
             (fst wn) of
        (w', r) \<Rightarrow> ((w', (snd wn + 1) mod 2 ^ 32), r))"

definition run_tool ::
  "('st, 'w) batch_ctx \<Rightarrow> 'w executable_tool \<Rightarrow> tool_call \<Rightarrow> task_invocation \<Rightarrow> 'w \<Rightarrow> 'w \<times> (terminal_error + message)" where
  "run_tool bc t call iv w =
     (let manual = task_policy (et_replay_policy t) = ManualRecovery;
          once = invoke_tool t (tc_arguments call) iv (bc_cancelled bc) in
      case (if manual then once (w, ti_attempt iv)
            else retry_execute (\<lambda>d (w, n). (te_sleep (bc_env bc) d w, n)) (bc_retry bc) once (w, ti_attempt iv)) of
        ((w', _), Panicked _) \<Rightarrow>
          (w', Inl (Durable (Conflict ''task panicked; external outcome may be unknown'')))
      | ((w', _), Returned (Inl e)) \<Rightarrow>
          (w', if manual then Inl (NodeExecutionFailed (tc_name call) (SourceText (show_tool_error e)))
               else Inr (tool_result_message (te_print (bc_env bc)) call (Inl e)))
      | ((w', _), Returned (Inr v)) \<Rightarrow> (w', Inr (tool_result_message (te_print (bc_env bc)) call (Inr v))))"

text \<open>
  \<open>durable_one\<close> up to the call of the tool, and from there on. Between the two the task is in
  flight.
\<close>

definition call_task_id :: "('st, 'w) batch_ctx \<Rightarrow> indexed_call \<Rightarrow> string" where
  "call_task_id bc c = task_id (bc_scope bc) (call_slot (fst c) (snd c))"

definition landed :: "string \<Rightarrow> 'st session \<Rightarrow> 'st session" where
  "landed i se = se\<lparr>se_in_flight := removeAll i (se_in_flight se)\<rparr>"

definition begin_call ::
  "('st, ('st, 'x) dworld) batch_ctx \<Rightarrow> indexed_call \<Rightarrow> ('st, 'x) dworld
   \<Rightarrow> (terminal_error + message task_start) \<times> ('st, 'x) dworld" where
  "begin_call bc c w =
     (case unsupported_call (bc_tools bc) (snd c) of
        Some e \<Rightarrow> (Inl e, w)
      | None \<Rightarrow>
          (let t = the (snapshot_get (bc_tools bc) (tc_name (snd c))); i = call_task_id bc c; se = dw_session w in
           if i \<in> set (se_in_flight se) then (Inl (Durable (Conflict ''duplicate concurrent task identity'')), w)
           else case task_prepare (bc_save bc) (bc_dec bc) (dw_root_cancelled w) i (et_replay_version t)
                       (call_input (snd c)) (task_policy (et_replay_policy t)) (se\<lparr>se_in_flight := i # se_in_flight se\<rparr>) of
                  (Inl e, se') \<Rightarrow> (Inl (Durable e), w\<lparr>dw_session := landed i se'\<rparr>)
                | (Inr (TaskDone m), se') \<Rightarrow> (Inr (TaskDone m), w\<lparr>dw_session := landed i se'\<rparr>)
                | (Inr (TaskRun iv), se') \<Rightarrow> (Inr (TaskRun iv), w\<lparr>dw_session := se'\<rparr>)))"

definition finish_call ::
  "('st, ('st, 'x) dworld) batch_ctx \<Rightarrow> indexed_call \<Rightarrow> task_invocation \<Rightarrow> ('st, 'x) dworld
   \<Rightarrow> (terminal_error + message) \<times> ('st, 'x) dworld" where
  "finish_call bc c iv w =
     (let t = the (snapshot_get (bc_tools bc) (tc_name (snd c))); i = call_task_id bc c in
      case run_tool bc t (snd c) iv w of
        (w', result) \<Rightarrow>
          (case task_conclude (bc_save bc) (bc_enc bc) (task_policy (et_replay_policy t)) i result (dw_session w') of
             (res, se) \<Rightarrow> (res, w'\<lparr>dw_session := landed i se\<rparr>)))"

section \<open>Groups\<close>

text \<open>
  A group: the calls it has not finished, the start and the invocation of the call it is
  inside, what it finished, and the error that ended it.
\<close>

record durable_group =
  dg_left :: "indexed_call list"
  dg_inside :: "(nat \<times> task_invocation) option"
  dg_finished :: "(indexed_call \<times> message \<times> nat) list"
  dg_error :: "terminal_error option"

definition group_start :: "indexed_call list \<Rightarrow> durable_group" where
  "group_start cs = \<lparr>dg_left = cs, dg_inside = None, dg_finished = [], dg_error = None\<rparr>"

definition group_result ::
  "('w \<Rightarrow> nat) \<Rightarrow> nat \<Rightarrow> (terminal_error + message) \<times> 'w \<Rightarrow> durable_group \<Rightarrow> durable_group \<times> 'w" where
  "group_result clock start out g =
     (case out of
        (Inl e, w) \<Rightarrow> (g\<lparr>dg_inside := None, dg_error := Some e\<rparr>, w)
      | (Inr m, w) \<Rightarrow>
          (g\<lparr>dg_left := tl (dg_left g), dg_inside := None,
             dg_finished := dg_finished g @ [(hd (dg_left g), m, clock w - start)]\<rparr>, w))"

definition group_turn ::
  "('st, ('st, 'x) dworld) batch_ctx \<Rightarrow> durable_group \<Rightarrow> ('st, 'x) dworld \<Rightarrow> durable_group \<times> ('st, 'x) dworld" where
  "group_turn bc g w =
     (case (dg_error g, dg_left g) of
        (None, c # rest) \<Rightarrow>
          (case dg_inside g of
             None \<Rightarrow>
               (case begin_call bc c w of
                  (Inl e, w') \<Rightarrow> group_result (te_clock (bc_env bc)) (te_clock (bc_env bc) w) (Inl e, w') g
                | (Inr (TaskDone m), w') \<Rightarrow> group_result (te_clock (bc_env bc)) (te_clock (bc_env bc) w) (Inr m, w') g
                | (Inr (TaskRun iv), w') \<Rightarrow> (g\<lparr>dg_inside := Some (te_clock (bc_env bc) w, iv)\<rparr>, w'))
           | Some (start, iv) \<Rightarrow> group_result (te_clock (bc_env bc)) start (finish_call bc c iv w) g)
      | _ \<Rightarrow> (g, w))"

fun run_groups ::
  "('st, ('st, 'x) dworld) batch_ctx \<Rightarrow> nat list \<Rightarrow> durable_group list \<Rightarrow> ('st, 'x) dworld
   \<Rightarrow> durable_group list \<times> ('st, 'x) dworld" where
  "run_groups bc [] gs w = (gs, w)"
| "run_groups bc (i # is) gs w =
     (if i < length gs
      then (case group_turn bc (gs ! i) w of (g, w') \<Rightarrow> run_groups bc is (gs[i := g]) w')
      else run_groups bc is gs w)"

definition turns :: "nat list \<Rightarrow> durable_group list \<Rightarrow> nat list" where
  "turns sched gs = sched @ concat (map (\<lambda>i. replicate (2 * length (dg_left (gs ! i))) i) [0..<length gs])"

definition joined_groups :: "call_groups \<Rightarrow> durable_group list" where
  "joined_groups g = map (\<lambda>c. group_start [c]) (cg_safe g) @ map (\<lambda>(_, cs). group_start cs) (cg_category g)"

definition groups_error :: "durable_group list \<Rightarrow> terminal_error option" where
  "groups_error gs = (case List.map_filter dg_error gs of [] \<Rightarrow> None | e # _ \<Rightarrow> Some e)"

definition durable_batch_result :: "durable_group list \<Rightarrow> batch_result" where
  "durable_batch_result gs =
     (let completed = sort_key (\<lambda>((i, _), _). i) (concat (map dg_finished gs)) in
      \<lparr>br_results = map (\<lambda>(_, m, _). m) completed, br_durations = map (\<lambda>(_, _, d). d) completed, br_panicked = False\<rparr>)"

definition run_durable_batch ::
  "('st, ('st, 'x) dworld) batch_ctx \<Rightarrow> tool_call list \<Rightarrow> ('st, 'x) dworld
   \<Rightarrow> (terminal_error + batch_result) \<times> ('st, 'x) dworld" where
  "run_durable_batch bc calls w =
     (let cg = group_calls (bc_tools bc) calls; gs = joined_groups cg; last = [group_start (cg_exclusive cg)] in
      case run_groups bc (turns (te_schedule (bc_env bc) w (length gs)) gs) gs w of
        (gs', w1) \<Rightarrow>
          (case groups_error gs' of
             Some e \<Rightarrow> (Inl e, w1)
           | None \<Rightarrow>
               (case run_groups bc (turns [] last) last w1 of
                  (last', w2) \<Rightarrow>
                    (case groups_error last' of
                       Some e \<Rightarrow> (Inl e, w2)
                     | None \<Rightarrow> (Inr (durable_batch_result (gs' @ last')), w2)))))"

definition execute_durable_batch ::
  "'st lease_save \<Rightarrow> (message \<Rightarrow> string + json) \<Rightarrow> (json \<Rightarrow> string + message) \<Rightarrow> ('st, 'x) dworld tool_env
   \<Rightarrow> ('st, 'x) dworld tool_executor \<Rightarrow> string \<Rightarrow> ('st, 'x) dworld durable_batch" where
  "execute_durable_batch save enc dec env ex scope_id calls cancelled w =
     (case ex_catalog ex w of
        (w', snap) \<Rightarrow>
          run_durable_batch
            \<lparr>bc_save = save, bc_enc = enc, bc_dec = dec, bc_env = env, bc_retry = ex_retry ex,
             bc_cancelled = cancelled, bc_scope = scope_id, bc_tools = snap\<rparr> calls w')"

text \<open>The task runtime that a tool node finds: that of the node scope of the world, if there is one.\<close>

definition durable_tasks ::
  "'st lease_save \<Rightarrow> (message \<Rightarrow> string + json) \<Rightarrow> (json \<Rightarrow> string + message) \<Rightarrow> ('st, 'x) dworld tool_env
   \<Rightarrow> ('st, 'x) dworld tool_executor \<Rightarrow> ('st, 'x) dworld \<Rightarrow> ('st, 'x) dworld durable_batch option" where
  "durable_tasks save enc dec env ex w =
     map_option (\<lambda>(path, node, k). execute_durable_batch save enc dec env ex (node_scope_id path node k)) (dw_scope w)"

section \<open>What a record says of a call\<close>

definition call_planned :: "('st, 'w) batch_ctx \<Rightarrow> run_record \<Rightarrow> indexed_call \<Rightarrow> bool" where
  "call_planned bc r c \<longleftrightarrow>
     (case (snapshot_get (bc_tools bc) (tc_name (snd c)), hm_get (rr_tasks r) (call_task_id bc c)) of
        (Some t, Some k) \<Rightarrow> unsupported_call (bc_tools bc) (snd c) = None \<and> tr_version k = et_replay_version t
          \<and> tr_input k = call_input (snd c) \<and> tr_policy k = task_policy (et_replay_policy t)
      | _ \<Rightarrow> False)"

definition call_recorded :: "('st, 'w) batch_ctx \<Rightarrow> run_record \<Rightarrow> indexed_call \<Rightarrow> message \<Rightarrow> bool" where
  "call_recorded bc r c m \<longleftrightarrow> call_planned bc r c \<and>
     (case hm_get (rr_tasks r) (call_task_id bc c) of
        Some k \<Rightarrow> tr_status k = TaskCompleted \<and> (case tr_result k of Some v \<Rightarrow> bc_dec bc v = Inr m | None \<Rightarrow> False)
      | None \<Rightarrow> False)"

abbreviation record_of :: "('st, 'x) dworld \<Rightarrow> run_record" where
  "record_of w \<equiv> se_record (dw_session w)"

lemma recorded_cong:
  assumes "hm_get (rr_tasks r') (call_task_id bc c) = hm_get (rr_tasks r) (call_task_id bc c)"
  shows "call_planned bc r' c = call_planned bc r c" "call_recorded bc r' c m = call_recorded bc r c m"
  using assms by (simp_all add: call_planned_def call_recorded_def)

lemma recorded_planned: "call_recorded bc r c m \<Longrightarrow> call_planned bc r c"
  by (simp add: call_recorded_def)

lemma landed_unflown: "i \<notin> set (se_in_flight se) \<Longrightarrow> landed i (se\<lparr>se_in_flight := i # se_in_flight se\<rparr>) = se"
  by (simp add: landed_def)

lemma record_landed [simp]: "se_record (landed i se) = se_record se"
  by (simp add: landed_def)

lemma begin_recorded:
  assumes "call_recorded bc (record_of w) c m" "\<not> dw_root_cancelled w" "call_task_id bc c \<notin> set (se_in_flight (dw_session w))"
    and "rr_status (record_of w) \<notin> {CompletedRun, CancelledRun, RejectedRun, ExpiredRun}"
  shows "begin_call bc c w = (Inr (TaskDone m), w)"
  using assms
  by (auto simp: begin_call_def call_recorded_def call_planned_def task_prepare_def landed_unflown Let_def split: option.splits)

section \<open>The steps of a task\<close>

lemma update_task_get:
  assumes "update save edit se = (res, se')"
    and "\<And>x r. edit (se_record se) = Inr (x, r) \<Longrightarrow> j \<noteq> i \<Longrightarrow> hm_get (rr_tasks r) j = hm_get (rr_tasks (se_record se)) j"
  shows "j \<noteq> i \<longrightarrow> hm_get (rr_tasks (se_record se')) j = hm_get (rr_tasks (se_record se)) j"
  using assms(1) by (cases rule: update_record) (use assms(2) in auto)

lemma task_attempt_get:
  assumes "task_attempt save i se = (res, se')"
  shows "j \<noteq> i \<longrightarrow> hm_get (rr_tasks (se_record se')) j = hm_get (rr_tasks (se_record se)) j"
    and "res \<noteq> Inr (TaskDone m)"
    and "res = Inr (TaskRun iv) \<Longrightarrow> \<exists>k. hm_get (rr_tasks (se_record se)) i = Some k
      \<and> hm_get (rr_tasks (se_record se')) i = Some (k\<lparr>tr_status := Started, tr_attempts := tr_attempts k + 1\<rparr>)"
proof -
  obtain res1 se1 where u: "update save (start_attempt i) se = (res1, se1)" by fastforce
  with assms have se': "se' = se1" by (auto simp: task_attempt_def split: sum.splits)
  show "j \<noteq> i \<longrightarrow> hm_get (rr_tasks (se_record se')) j = hm_get (rr_tasks (se_record se)) j"
    unfolding se' by (rule update_task_get [OF u]) (auto simp: start_attempt_def split: option.splits if_splits)
  show "res \<noteq> Inr (TaskDone m)" using assms u by (auto simp: task_attempt_def split: sum.splits)
  assume "res = Inr (TaskRun iv)"
  with assms u obtain n where n: "res1 = Inr n" by (auto simp: task_attempt_def split: sum.splits)
  from u show "\<exists>k. hm_get (rr_tasks (se_record se)) i = Some k
      \<and> hm_get (rr_tasks (se_record se')) i = Some (k\<lparr>tr_status := Started, tr_attempts := tr_attempts k + 1\<rparr>)"
    by (cases rule: update_record) (use n se' in \<open>auto simp: start_attempt_def split: option.splits if_splits\<close>)
qed

lemma set_status_get:
  "update save (set_status st) se = (res, se') \<Longrightarrow> rr_tasks (se_record se') = rr_tasks (se_record se)"
  by (erule update_record) (auto simp: set_status_def)

lemma scope_cancel_get: "scope_cancel save rc se = (e, se') \<Longrightarrow> rr_tasks (se_record se') = rr_tasks (se_record se)"
  by (auto simp: scope_cancel_def split: if_splits prod.splits sum.splits dest: set_status_get)

lemma task_unknown_get:
  assumes "task_unknown save i se = (e, se')"
  shows "j \<noteq> i \<longrightarrow> hm_get (rr_tasks (se_record se')) j = hm_get (rr_tasks (se_record se)) j"
proof -
  obtain res1 se1 where u: "update save (mark_unknown i) se = (res1, se1)" by fastforce
  with assms have "se' = se1" by (auto simp: task_unknown_def split: sum.splits)
  then show ?thesis
    by (simp only:) (rule update_task_get [OF u], auto simp: mark_unknown_def split: option.splits if_splits)
qed

lemma plan_task_get:
  assumes "update save (plan_task i version input policy) se = (res, se')"
  shows "j \<noteq> i \<longrightarrow> hm_get (rr_tasks (se_record se')) j = hm_get (rr_tasks (se_record se)) j"
    and "res = Inr u \<Longrightarrow> hm_get (rr_tasks (se_record se')) i = Some (task_new i version input policy)"
  using assms by (auto elim!: update_record simp: plan_task_def)

lemma task_prepare_get:
  fixes dec :: "json \<Rightarrow> string + 't"
  assumes p: "task_prepare save dec rc i version input policy se = (res, se')"
  shows "j \<noteq> i \<longrightarrow> hm_get (rr_tasks (se_record se')) j = hm_get (rr_tasks (se_record se)) j"
    and "res = Inr (TaskDone m) \<Longrightarrow> se' = se \<and> (\<exists>k v. hm_get (rr_tasks (se_record se)) i = Some k
      \<and> tr_version k = version \<and> tr_input k = input \<and> tr_policy k = policy \<and> tr_status k = TaskCompleted
      \<and> tr_result k = Some v \<and> dec v = Inr m)"
    and "res = Inr (TaskRun iv) \<Longrightarrow> \<exists>k. hm_get (rr_tasks (se_record se')) i = Some k
      \<and> tr_version k = version \<and> tr_input k = input \<and> tr_policy k = policy"
proof -
  show "j \<noteq> i \<longrightarrow> hm_get (rr_tasks (se_record se')) j = hm_get (rr_tasks (se_record se)) j"
  proof (cases "hm_get (rr_tasks (se_record se)) i")
    case (Some k)
    with p show ?thesis
      by (auto simp: task_prepare_def split: if_splits option.splits sum.splits prod.splits
          dest: scope_cancel_get task_unknown_get task_attempt_get(1))
  next
    case None
    obtain r1 se1 where u: "update save (plan_task i version input policy) se = (r1, se1)" by fastforce
    from plan_task_get(1) [OF this] None u p show ?thesis
      by (auto simp: task_prepare_def split: if_splits sum.splits prod.splits dest: scope_cancel_get task_attempt_get(1))
  qed
  show "se' = se \<and> (\<exists>k v. hm_get (rr_tasks (se_record se)) i = Some k
      \<and> tr_version k = version \<and> tr_input k = input \<and> tr_policy k = policy \<and> tr_status k = TaskCompleted
      \<and> tr_result k = Some v \<and> dec v = Inr m)" if "res = Inr (TaskDone m)"
    using p that
    by (auto simp: task_prepare_def split: if_splits option.splits sum.splits prod.splits dest: task_attempt_get(2))
  show "\<exists>k. hm_get (rr_tasks (se_record se')) i = Some k
      \<and> tr_version k = version \<and> tr_input k = input \<and> tr_policy k = policy" if run: "res = Inr (TaskRun iv)"
  proof (cases "hm_get (rr_tasks (se_record se)) i")
    case (Some k)
    with p run have "task_attempt save i se = (Inr (TaskRun iv) :: durable_error + 't task_start, se')"
        "tr_version k = version" "tr_input k = input" "tr_policy k = policy"
      by (auto simp: task_prepare_def split: if_splits option.splits sum.splits prod.splits)
    from task_attempt_get(3) [OF this(1) refl] this(2-) Some show ?thesis by auto
  next
    case None
    obtain r1 se1 where u: "update save (plan_task i version input policy) se = (r1, se1)" by fastforce
    with None p run have "r1 = Inr ()" and a: "task_attempt save i se1 = (Inr (TaskRun iv) :: durable_error + 't task_start, se')"
      by (auto simp: task_prepare_def split: if_splits sum.splits prod.splits)
    from plan_task_get(2) [OF u this(1)] task_attempt_get(3) [OF a refl] show ?thesis by (auto simp: task_new_def)
  qed
qed

lemma task_conclude_get:
  assumes c: "task_conclude save enc policy i result se = (res, se')"
  shows "j \<noteq> i \<longrightarrow> hm_get (rr_tasks (se_record se')) j = hm_get (rr_tasks (se_record se)) j"
    and "res = Inr m \<Longrightarrow> \<exists>k v. hm_get (rr_tasks (se_record se)) i = Some k \<and> enc m = Inr v
      \<and> hm_get (rr_tasks (se_record se')) i = Some (k\<lparr>tr_result := Some v, tr_status := TaskCompleted\<rparr>)"
proof -
  show "j \<noteq> i \<longrightarrow> hm_get (rr_tasks (se_record se')) j = hm_get (rr_tasks (se_record se)) j"
  proof (cases result)
    case (Inl e)
    with c show ?thesis by (auto simp: task_conclude_def split: if_splits prod.splits dest: task_unknown_get)
  next
    case (Inr x)
    show ?thesis
    proof (cases "enc x")
      case (Inl e)
      with Inr c show ?thesis by (simp add: task_conclude_def)
    next
      case v: (Inr v)
      obtain r1 se1 where u: "update save (complete_task i v) se = (r1, se1)" by fastforce
      have "j \<noteq> i \<longrightarrow> hm_get (rr_tasks (se_record se1)) j = hm_get (rr_tasks (se_record se)) j"
        by (rule update_task_get [OF u]) (auto simp: complete_task_def split: option.splits)
      with v Inr u c show ?thesis by (auto simp: task_conclude_def split: sum.splits)
    qed
  qed
  assume m: "res = Inr m"
  with c obtain v where v: "result = Inr m" "enc m = Inr v" "update save (complete_task i v) se = (Inr (), se')"
    by (auto simp: task_conclude_def split: sum.splits if_splits prod.splits)
  from v(3) show "\<exists>k v. hm_get (rr_tasks (se_record se)) i = Some k \<and> enc m = Inr v
      \<and> hm_get (rr_tasks (se_record se')) i = Some (k\<lparr>tr_result := Some v, tr_status := TaskCompleted\<rparr>)"
    by (cases rule: update_record) (use v(2) in \<open>auto simp: complete_task_def split: option.splits\<close>)
qed

section \<open>The steps of a call\<close>

text \<open>What the tools, which do not see the session, leave alone.\<close>

definition leaves_session :: "(('st, 'x) dworld \<Rightarrow> ('st, 'x) dworld) \<Rightarrow> bool" where
  "leaves_session f \<longleftrightarrow> (\<forall>w. dw_session (f w) = dw_session w)"

definition tools_leave_session :: "('st, ('st, 'x) dworld) batch_ctx \<Rightarrow> bool" where
  "tools_leave_session bc \<longleftrightarrow> (\<forall>d. leaves_session (te_sleep (bc_env bc) d)) \<and>
     (\<forall>n t args c. snapshot_get (bc_tools bc) n = Some t \<longrightarrow> leaves_session (\<lambda>w. fst (execute_with_context t args c w)))"

lemma retry_loop_keeps:
  assumes "\<And>d w. P (sleep d w) = P w" "\<And>w. P (fst (f w)) = P w"
  shows "P (fst (retry_loop sleep b f left attempt w e)) = P w"
proof (induction left arbitrary: attempt w e)
  case (Suc left)
  obtain w' r where f: "f (sleep (delay b attempt) w) = (w', r)" by fastforce
  with assms have "P w' = P w" by (metis fst_conv)
  with f Suc show ?case by (simp split: tool_run.split sum.split)
qed simp

lemma retry_execute_keeps:
  assumes "\<And>d w. P (sleep d w) = P w" "\<And>w. P (fst (f w)) = P w"
  shows "P (fst (retry_execute sleep p f w)) = P w"
proof -
  obtain w' r where f: "f w = (w', r)" by fastforce
  with assms(2) have "P w' = P w" by (metis fst_conv)
  with f show ?thesis
    by (simp add: retry_execute_def retry_loop_keeps [of P sleep f, OF assms] split: tool_run.split sum.split)
qed

lemma run_tool_keeps:
  assumes "tools_leave_session bc" "snapshot_get (bc_tools bc) n = Some t" "run_tool bc t call iv w = (w', res)"
  shows "dw_session w' = dw_session w"
proof -
  let ?P = "\<lambda>wn. dw_session (fst wn)"
  let ?once = "invoke_tool t (tc_arguments call) iv (bc_cancelled bc)"
  have once: "?P (fst (?once wn)) = ?P wn" for wn
    using assms(1,2) by (simp add: invoke_tool_def split_beta tools_leave_session_def leaves_session_def)
  have sleep: "?P (case wn of (w, n) \<Rightarrow> (te_sleep (bc_env bc) d w, n)) = ?P wn" for d wn
    using assms(1) by (simp add: split_beta tools_leave_session_def leaves_session_def)
  note retry = retry_execute_keeps [of ?P, OF sleep once]
  define out where "out = (if task_policy (et_replay_policy t) = ManualRecovery then ?once (w, ti_attempt iv)
      else retry_execute (\<lambda>d (w, n). (te_sleep (bc_env bc) d w, n)) (bc_retry bc) ?once (w, ti_attempt iv))"
  have "?P (fst out) = dw_session w"
    using once [of "(w, ti_attempt iv)"] retry [where p = "bc_retry bc" and w = "(w, ti_attempt iv)"] by (simp add: out_def)
  with assms(3) show ?thesis
    by (auto simp: run_tool_def Let_def out_def [symmetric] split: prod.splits tool_run.splits sum.splits)
qed

text \<open>A step of a call touches the task of this call only, and what it reports is what the record then says.\<close>

lemma begin_call_get:
  assumes b: "begin_call bc c w = (res, w')"
  shows "j \<noteq> call_task_id bc c \<longrightarrow> hm_get (rr_tasks (record_of w')) j = hm_get (rr_tasks (record_of w)) j"
    and "res = Inr (TaskDone m) \<Longrightarrow> call_recorded bc (record_of w') c m"
    and "res = Inr (TaskRun iv) \<Longrightarrow> call_planned bc (record_of w') c"
proof -
  let ?i = "call_task_id bc c" and ?se = "dw_session w"
  let ?t = "the (snapshot_get (bc_tools bc) (tc_name (snd c)))"
  obtain res1 se1 where p: "task_prepare (bc_save bc) (bc_dec bc) (dw_root_cancelled w) ?i (et_replay_version ?t)
      (call_input (snd c)) (task_policy (et_replay_policy ?t)) (?se\<lparr>se_in_flight := ?i # se_in_flight ?se\<rparr>) = (res1, se1)"
    by fastforce
  note get = task_prepare_get [OF p]
  from get(1) b p show "j \<noteq> ?i \<longrightarrow> hm_get (rr_tasks (record_of w')) j = hm_get (rr_tasks (record_of w)) j"
    by (auto simp: begin_call_def Let_def split: option.splits if_splits sum.splits task_start.splits)
  have known: "\<exists>t. snapshot_get (bc_tools bc) (tc_name (snd c)) = Some t" if "unsupported_call (bc_tools bc) (snd c) = None"
    using that by (auto simp: unsupported_call_def split: option.splits)
  show "call_recorded bc (record_of w') c m" if "res = Inr (TaskDone m)"
  proof -
    from that b p have "unsupported_call (bc_tools bc) (snd c) = None" "res1 = Inr (TaskDone m)"
        "record_of w' = se_record se1"
      by (auto simp: begin_call_def Let_def split: option.splits if_splits sum.splits task_start.splits)
    with get(2) known show ?thesis by (auto simp: call_recorded_def call_planned_def)
  qed
  show "call_planned bc (record_of w') c" if "res = Inr (TaskRun iv)"
  proof -
    from that b p have "unsupported_call (bc_tools bc) (snd c) = None" "res1 = Inr (TaskRun iv)"
        "record_of w' = se_record se1"
      by (auto simp: begin_call_def Let_def split: option.splits if_splits sum.splits task_start.splits)
    with get(3) known show ?thesis by (auto simp: call_planned_def)
  qed
qed

lemma finish_call_get:
  assumes f: "finish_call bc c iv w = (res, w')" and tools: "tools_leave_session bc"
    and planned: "call_planned bc (record_of w) c" and codec: "\<And>m v. bc_enc bc m = Inr v \<Longrightarrow> bc_dec bc v = Inr m"
  shows "j \<noteq> call_task_id bc c \<longrightarrow> hm_get (rr_tasks (record_of w')) j = hm_get (rr_tasks (record_of w)) j"
    and "res = Inr m \<Longrightarrow> call_recorded bc (record_of w') c m"
proof -
  let ?i = "call_task_id bc c"
  from planned obtain t where t: "snapshot_get (bc_tools bc) (tc_name (snd c)) = Some t"
    by (auto simp: call_planned_def split: option.splits)
  obtain w1 result where r: "run_tool bc t (snd c) iv w = (w1, result)" by fastforce
  obtain se1 where c: "task_conclude (bc_save bc) (bc_enc bc) (task_policy (et_replay_policy t)) ?i result (dw_session w1) = (res, se1)"
    and w': "w' = w1\<lparr>dw_session := landed ?i se1\<rparr>"
    using f t r by (auto simp: finish_call_def Let_def split: prod.splits)
  have same: "dw_session w1 = dw_session w" by (rule run_tool_keeps [OF tools t r])
  note get = task_conclude_get [OF c, unfolded same]
  from get(1) show "j \<noteq> ?i \<longrightarrow> hm_get (rr_tasks (record_of w')) j = hm_get (rr_tasks (record_of w)) j"
    by (simp add: w')
  assume "res = Inr m"
  from get(2) [OF this] planned t codec show "call_recorded bc (record_of w') c m"
    by (auto simp: w' call_recorded_def call_planned_def)
qed

section \<open>The turns of a group\<close>

definition dg_calls :: "durable_group \<Rightarrow> indexed_call list" where
  "dg_calls g = map fst (dg_finished g) @ dg_left g"

definition work_left :: "durable_group \<Rightarrow> nat" where
  "work_left g = 2 * length (dg_left g) - (if dg_inside g = None then 0 else 1)"

definition group_sound :: "('st, 'w) batch_ctx \<Rightarrow> run_record \<Rightarrow> durable_group \<Rightarrow> bool" where
  "group_sound bc r g \<longleftrightarrow> (\<forall>(c, m, d) \<in> set (dg_finished g). call_recorded bc r c m)
     \<and> (dg_inside g \<noteq> None \<longrightarrow> dg_left g \<noteq> [] \<and> call_planned bc r (hd (dg_left g)))"

lemma group_start_simps [simp]:
  "dg_calls (group_start cs) = cs" "group_sound bc r (group_start cs)" "work_left (group_start cs) = 2 * length cs"
  "dg_error (group_start cs) = None" "dg_left (group_start cs) = cs" "dg_inside (group_start cs) = None"
  "dg_finished (group_start cs) = []"
  by (simp_all add: group_start_def dg_calls_def group_sound_def work_left_def)

lemma group_sound_cong:
  assumes "group_sound bc r g"
    and "\<And>c. c \<in> set (dg_calls g) \<Longrightarrow> hm_get (rr_tasks r') (call_task_id bc c) = hm_get (rr_tasks r) (call_task_id bc c)"
  shows "group_sound bc r' g"
proof -
  have "call_recorded bc r' c m" if "(c, m, d) \<in> set (dg_finished g)" for c m d
  proof -
    from that have "c \<in> set (dg_calls g)" by (force simp: dg_calls_def)
    with assms that show ?thesis by (auto simp: recorded_cong(2) [of r' bc c r] group_sound_def)
  qed
  moreover have "call_planned bc r' (hd (dg_left g))" if "dg_inside g \<noteq> None"
    using assms that by (simp add: recorded_cong(1) [of r' bc _ r] group_sound_def dg_calls_def)
  ultimately show ?thesis using assms(1) by (auto simp: group_sound_def)
qed

text \<open>What a turn promises of its group and of the record.\<close>

definition good_turn ::
  "('st, 'w) batch_ctx \<Rightarrow> durable_group \<Rightarrow> run_record \<Rightarrow> durable_group \<Rightarrow> run_record \<Rightarrow> bool" where
  "good_turn bc g r g' r' \<longleftrightarrow> dg_calls g' = dg_calls g \<and> group_sound bc r' g'
     \<and> (\<forall>j. j \<notin> call_task_id bc ` set (dg_calls g) \<longrightarrow> hm_get (rr_tasks r') j = hm_get (rr_tasks r) j)
     \<and> (dg_error g' \<noteq> None \<or> dg_error g = None \<and> work_left g' \<le> work_left g - 1)"

lemma finished_id:
  assumes "(c', m, d) \<in> set (dg_finished g)" "dg_left g = c # rest" "distinct (map (call_task_id bc) (dg_calls g))"
  shows "call_task_id bc c' \<noteq> call_task_id bc c"
proof -
  from assms(1) have "call_task_id bc c' \<in> (\<lambda>x. call_task_id bc (fst x)) ` set (dg_finished g)" by force
  moreover from assms(2,3) have "call_task_id bc c \<notin> (\<lambda>x. call_task_id bc (fst x)) ` set (dg_finished g)" by (simp add: dg_calls_def)
  ultimately show ?thesis by metis
qed

lemma group_result_good:
  assumes sound: "group_sound bc r g" and left: "dg_left g = c # rest" and running: "dg_error g = None"
    and ids: "distinct (map (call_task_id bc) (dg_calls g))"
    and others: "\<And>j. j \<noteq> call_task_id bc c \<longrightarrow> hm_get (rr_tasks (record_of w)) j = hm_get (rr_tasks r) j"
    and mine: "\<And>m. res = Inr m \<Longrightarrow> call_recorded bc (record_of w) c m"
    and out: "group_result clock start (res, w) g = (g', w')"
  shows "good_turn bc g r g' (record_of w')"
proof -
  have old: "call_recorded bc (record_of w) c' m" if "(c', m, d) \<in> set (dg_finished g)" for c' m d
  proof -
    from finished_id [OF that left ids] have "call_task_id bc c' \<noteq> call_task_id bc c" .
    with others sound that show ?thesis by (auto simp: recorded_cong(2) [of "record_of w" bc c' r] group_sound_def)
  qed
  show ?thesis
  proof (cases res)
    case (Inl e)
    with out old others left show ?thesis
      by (auto simp: group_result_def good_turn_def group_sound_def dg_calls_def)
  next
    case (Inr m)
    with out have g': "w' = w" "dg_left g' = rest" "dg_inside g' = None" "dg_error g' = None"
        "\<exists>d. dg_finished g' = dg_finished g @ [(c, m, d)]"
      using left running by (auto simp: group_result_def)
    moreover have "work_left g' \<le> work_left g - 1" using g' left by (simp add: work_left_def)
    ultimately show ?thesis
      using old mine [OF Inr] others left running by (auto simp: good_turn_def group_sound_def dg_calls_def)
  qed
qed

lemma group_turn_good:
  assumes tools: "tools_leave_session bc" and codec: "\<And>m v. bc_enc bc m = Inr v \<Longrightarrow> bc_dec bc v = Inr m"
    and sound: "group_sound bc (record_of w) g" and ids: "distinct (map (call_task_id bc) (dg_calls g))"
    and turn: "group_turn bc g w = (g', w')"
  shows "good_turn bc g (record_of w) g' (record_of w')"
proof (cases "dg_error g = None \<and> dg_left g \<noteq> []")
  case False
  with turn sound show ?thesis
    by (auto simp: group_turn_def good_turn_def work_left_def split: list.splits option.splits)
next
  case True
  then obtain c rest where running: "dg_error g = None" and left: "dg_left g = c # rest" by (cases "dg_left g") auto
  show ?thesis
  proof (cases "dg_inside g")
    case (Some si)
    obtain start iv where si: "si = (start, iv)" by fastforce
    with sound Some left have planned: "call_planned bc (record_of w) c" by (simp add: group_sound_def)
    obtain res w1 where f: "finish_call bc c iv w = (res, w1)" by fastforce
    note get = finish_call_get [OF f tools planned codec]
    from turn running left Some si f have "group_result (te_clock (bc_env bc)) start (res, w1) g = (g', w')"
      by (simp add: group_turn_def)
    from group_result_good [OF sound left running ids get(1) get(2) this] show ?thesis by blast
  next
    case None
    obtain res w1 where b: "begin_call bc c w = (res, w1)" by fastforce
    note get = begin_call_get [OF b]
    show ?thesis
    proof (cases "\<exists>iv. res = Inr (TaskRun iv)")
      case True
      then obtain iv where iv: "res = Inr (TaskRun iv)" ..
      with turn running left None b have g': "w' = w1" "g' = g\<lparr>dg_inside := Some (te_clock (bc_env bc) w, iv)\<rparr>"
        by (simp_all add: group_turn_def)
      have "call_recorded bc (record_of w1) c' m" if "(c', m, d) \<in> set (dg_finished g)" for c' m d
      proof -
        from finished_id [OF that left ids] have "call_task_id bc c' \<noteq> call_task_id bc c" .
        with get(1) sound that show ?thesis by (auto simp: recorded_cong(2) [of "record_of w1" bc c' "record_of w"] group_sound_def)
      qed
      with g' get(1) get(3) [OF iv] left running None show ?thesis
        by (auto simp: good_turn_def group_sound_def dg_calls_def work_left_def)
    next
      case False
      then obtain out where out: "(case res of Inl e \<Rightarrow> out = Inl e | Inr (TaskDone m) \<Rightarrow> out = Inr m | _ \<Rightarrow> True)"
          "group_result (te_clock (bc_env bc)) (te_clock (bc_env bc) w) (out, w1) g = (g', w')"
        using turn running left None b
        by (auto simp: group_turn_def split: sum.splits task_start.splits intro: that)
      have "call_recorded bc (record_of w1) c m" if "out = Inr m" for m
        using get(2) out(1) that False by (auto split: sum.splits task_start.splits)
      from group_result_good [OF sound left running ids get(1) this out(2)] show ?thesis by blast
    qed
  qed
qed

lemma distinct_concat_nth:
  assumes "distinct (concat xss)" "i < k" "k < length xss"
  shows "set (xss ! i) \<inter> set (xss ! k) = {}"
  using assms
proof (induction xss arbitrary: i k)
  case (Cons xs xss)
  then obtain k' where k: "k = Suc k'" "k' < length xss" by (cases k) auto
  then have "xss ! k' \<in> set xss" by simp
  then have "set (xss ! k') \<subseteq> \<Union> (set ` set xss)" by blast
  with Cons k show ?case by (cases i) auto
qed simp

lemma distinct_concat_part: "distinct (concat xss) \<Longrightarrow> xs \<in> set xss \<Longrightarrow> distinct xs"
  by (induction xss) auto

definition all_ids :: "('st, 'w) batch_ctx \<Rightarrow> durable_group list \<Rightarrow> string list" where
  "all_ids bc gs = concat (map (\<lambda>g. map (call_task_id bc) (dg_calls g)) gs)"

lemma groups_after_turn:
  assumes sound: "\<forall>g \<in> set gs. group_sound bc r g" and ids: "distinct (all_ids bc gs)" and k: "k < length gs"
    and good: "good_turn bc (gs ! k) r g r'"
  shows "map dg_calls (gs[k := g]) = map dg_calls gs" "all_ids bc (gs[k := g]) = all_ids bc gs"
    "\<forall>g \<in> set (gs[k := g]). group_sound bc r' g"
    "\<forall>j. j \<notin> set (all_ids bc gs) \<longrightarrow> hm_get (rr_tasks r') j = hm_get (rr_tasks r) j"
proof -
  let ?gs = "gs[k := g]" and ?ids = "\<lambda>g. map (call_task_id bc) (dg_calls g)"
  have mem: "gs ! k \<in> set gs" using k by simp
  show same: "map dg_calls ?gs = map dg_calls gs"
    using good k by (simp add: good_turn_def map_update list_update_same_conv)
  have ids_of: "all_ids bc gs = concat (map (map (call_task_id bc)) (map dg_calls gs))" for gs
    by (simp add: all_ids_def comp_def)
  show "all_ids bc ?gs = all_ids bc gs" by (simp only: ids_of same)
  have "group_sound bc r' (?gs ! i)" if i: "i < length gs" for i
  proof (cases "i = k")
    case True
    with good i show ?thesis by (simp add: good_turn_def)
  next
    case False
    have "set (map ?ids gs ! i) \<inter> set (map ?ids gs ! k) = {}"
      using distinct_concat_nth [of "map ?ids gs" i k] distinct_concat_nth [of "map ?ids gs" k i] ids i k False
      unfolding all_ids_def by (cases "i < k") auto
    then have "call_task_id bc ` set (dg_calls (gs ! i)) \<inter> call_task_id bc ` set (dg_calls (gs ! k)) = {}"
      using i k by simp
    then have "hm_get (rr_tasks r') (call_task_id bc c) = hm_get (rr_tasks r) (call_task_id bc c)"
      if "c \<in> set (dg_calls (gs ! i))" for c
      using that good unfolding good_turn_def by blast
    with sound i False show ?thesis
      using group_sound_cong [of bc r "gs ! i" r'] by simp
  qed
  then show "\<forall>g \<in> set ?gs. group_sound bc r' g" by (metis in_set_conv_nth length_list_update)
  have "call_task_id bc ` set (dg_calls (gs ! k)) \<subseteq> set (all_ids bc gs)"
    using mem by (auto simp: all_ids_def)
  with good show "\<forall>j. j \<notin> set (all_ids bc gs) \<longrightarrow> hm_get (rr_tasks r') j = hm_get (rr_tasks r) j"
    unfolding good_turn_def by blast
qed

lemma run_groups_good:
  assumes tools: "tools_leave_session bc" and codec: "\<And>m v. bc_enc bc m = Inr v \<Longrightarrow> bc_dec bc v = Inr m"
    and "\<forall>g \<in> set gs. group_sound bc (record_of w) g" "distinct (all_ids bc gs)"
    and "run_groups bc is gs w = (gs', w')"
  shows "map dg_calls gs' = map dg_calls gs \<and> (\<forall>g \<in> set gs'. group_sound bc (record_of w') g)
    \<and> (\<forall>j. j \<notin> set (all_ids bc gs) \<longrightarrow> hm_get (rr_tasks (record_of w')) j = hm_get (rr_tasks (record_of w)) j)
    \<and> (\<forall>i < length gs. dg_error (gs' ! i) \<noteq> None
         \<or> dg_error (gs ! i) = None \<and> work_left (gs' ! i) \<le> work_left (gs ! i) - count_list is i)"
  using assms(3-)
proof (induction "is" arbitrary: gs w)
  case Nil
  then have "gs' = gs" "w' = w" by simp_all
  with Nil.prems(1) show ?case by (simp add: not_None_eq [symmetric] del: not_None_eq)
next
  case (Cons k ks)
  show ?case
  proof (cases "k < length gs")
    case False
    with Cons.prems(3) have "run_groups bc ks gs w = (gs', w')" by simp
    note ih = Cons.IH [OF Cons.prems(1,2) this]
    have count: "count_list (k # ks) i = count_list ks i" if "i < length gs" for i using that False by auto
    from ih have "\<forall>i < length gs. dg_error (gs' ! i) \<noteq> None
         \<or> dg_error (gs ! i) = None \<and> work_left (gs' ! i) \<le> work_left (gs ! i) - count_list ks i" by blast
    then have "\<forall>i < length gs. dg_error (gs' ! i) \<noteq> None
         \<or> dg_error (gs ! i) = None \<and> work_left (gs' ! i) \<le> work_left (gs ! i) - count_list (k # ks) i"
      using count by metis
    with ih show ?thesis by blast
  next
    case True
    obtain g w1 where turn: "group_turn bc (gs ! k) w = (g, w1)" by fastforce
    let ?gs = "gs[k := g]"
    have mem: "gs ! k \<in> set gs" using True by simp
    have "distinct (map (call_task_id bc) (dg_calls (gs ! k)))"
      by (rule distinct_concat_part [OF Cons.prems(2) [unfolded all_ids_def]]) (use mem in simp)
    from group_turn_good [OF tools codec _ this turn] Cons.prems(1) mem
    have good: "good_turn bc (gs ! k) (record_of w) g (record_of w1)" by blast
    note after = groups_after_turn [OF Cons.prems(1,2) True good]
    from turn True Cons.prems(3) have rest: "run_groups bc ks ?gs w1 = (gs', w')" by simp
    have ids: "distinct (all_ids bc ?gs)" unfolding after(2) by (rule Cons.prems(2))
    have ih: "map dg_calls gs' = map dg_calls gs" "\<forall>g \<in> set gs'. group_sound bc (record_of w') g"
      "\<forall>j. j \<notin> set (all_ids bc gs) \<longrightarrow> hm_get (rr_tasks (record_of w')) j = hm_get (rr_tasks (record_of w1)) j"
      "\<forall>i < length gs. dg_error (gs' ! i) \<noteq> None
         \<or> dg_error (?gs ! i) = None \<and> work_left (gs' ! i) \<le> work_left (?gs ! i) - count_list ks i"
      using Cons.IH [OF after(3) ids rest] unfolding after(1,2) length_list_update by blast+
    have "dg_error (gs' ! i) \<noteq> None
         \<or> dg_error (gs ! i) = None \<and> work_left (gs' ! i) \<le> work_left (gs ! i) - count_list (k # ks) i" if "i < length gs" for i
    proof (cases "i = k")
      case True
      have "dg_error g \<noteq> None \<or> dg_error (gs ! k) = None \<and> work_left g \<le> work_left (gs ! k) - 1"
        using good unfolding good_turn_def by blast
      moreover have "dg_error (gs' ! k) \<noteq> None \<or> dg_error g = None \<and> work_left (gs' ! k) \<le> work_left g - count_list ks k"
        using ih(4) [rule_format, OF that] that unfolding True by simp
      moreover have "count_list (k # ks) k = Suc (count_list ks k)" by simp
      ultimately show ?thesis unfolding True by linarith
    next
      case False
      then have "?gs ! i = gs ! i" "count_list (k # ks) i = count_list ks i" by simp_all
      with ih(4) [rule_format, OF that] show ?thesis by metis
    qed
    moreover have "\<forall>j. j \<notin> set (all_ids bc gs) \<longrightarrow> hm_get (rr_tasks (record_of w')) j = hm_get (rr_tasks (record_of w)) j"
      using ih(3) after(4) by metis
    ultimately show ?thesis using ih(1,2) by blast
  qed
qed

section \<open>Every call has its place\<close>

lemma mset_concat_update:
  "mset (concat (map snd (AList.update k ((case map_of m k of None \<Rightarrow> [] | Some v \<Rightarrow> v) @ [x]) m)))
   = add_mset x (mset (concat (map snd m)))"
  by (induction m) (auto split: option.splits)

definition grouped_calls :: "call_groups \<Rightarrow> indexed_call multiset" where
  "grouped_calls g = mset (cg_safe g) + mset (concat (map snd (cg_category g))) + mset (cg_exclusive g)"

lemma grouped_calls_add [simp]:
  "grouped_calls (add_exclusive c g) = add_mset c (grouped_calls g)"
  "grouped_calls (add_category cat c g) = add_mset c (grouped_calls g)"
  by (simp_all add: grouped_calls_def add_exclusive_def add_category_def mset_concat_update del: mset_concat)

lemma grouped_calls_group_call: "grouped_calls (group_call snap c g) = add_mset c (grouped_calls g)"
  by (auto simp: group_call_def grouped_calls_def [of "_\<lparr>cg_safe := _\<rparr>"] split: option.split parallel_safety.split)
    (auto simp: grouped_calls_def)

lemma grouped_calls_all: "grouped_calls (group_calls snap calls) = mset (List.enumerate 0 calls)"
proof -
  have "grouped_calls (fold (group_call snap) cs g) = mset cs + grouped_calls g" for cs g
    by (induction cs arbitrary: g) (simp_all add: grouped_calls_group_call)
  then show ?thesis by (simp add: group_calls_def) (simp add: grouped_calls_def)
qed

abbreviation batch_groups :: "('st, 'w) batch_ctx \<Rightarrow> tool_call list \<Rightarrow> durable_group list" where
  "batch_groups bc calls \<equiv> joined_groups (group_calls (bc_tools bc) calls)
     @ [group_start (cg_exclusive (group_calls (bc_tools bc) calls))]"

lemma joined_groups_calls:
  "concat (map dg_calls (joined_groups g)) = cg_safe g @ concat (map snd (cg_category g))"
proof -
  have "concat (map (dg_calls \<circ> (\<lambda>c. group_start [c])) cs) = cs" for cs by (induction cs) simp_all
  moreover have "concat (map (dg_calls \<circ> (\<lambda>(_, cs). group_start cs)) m) = concat (map snd m)"
    for m :: "(tool_category \<times> indexed_call list) list" by (induction m) auto
  ultimately show ?thesis by (simp add: joined_groups_def)
qed

lemma batch_groups_calls: "mset (concat (map dg_calls (batch_groups bc calls))) = mset (List.enumerate 0 calls)"
  using grouped_calls_all [of "bc_tools bc" calls]
  by (simp add: joined_groups_calls grouped_calls_def ac_simps del: mset_concat)

lemma call_slot_inj: "call_slot i call = call_slot j call' \<Longrightarrow> i = j"
  using show_nat_prefix_free [of i "CHR '',''" "json_str (tc_id call) @ '']''" j "json_str (tc_id call') @ '']''"]
  by (auto simp: call_slot_def json_seq_def char_digit_def)

lemma call_task_id_inj: "call_task_id bc c = call_task_id bc c' \<Longrightarrow> fst c = fst c'"
  by (auto simp: call_task_id_def task_id_def json_str_inj dest: call_slot_inj)

lemma batch_ids_distinct: "distinct (all_ids bc (batch_groups bc calls))"
proof -
  let ?es = "List.enumerate 0 calls"
  have "distinct (map fst ?es)" by simp
  then have "distinct (map (call_task_id bc) ?es)"
    by (metis (mono_tags, lifting) call_task_id_inj distinct_map inj_on_def)
  moreover have "mset (all_ids bc (batch_groups bc calls)) = mset (map (call_task_id bc) ?es)"
    by (metis (no_types, lifting) all_ids_def batch_groups_calls comp_apply list.map_comp map_concat map_eq_conv mset_map)
  ultimately show ?thesis by (metis mset_eq_imp_distinct_iff)
qed

lemma sorted_entries:
  fixes es :: "(indexed_call \<times> message \<times> nat) list"
  assumes "mset (map fst es) = mset (List.enumerate 0 calls)"
  shows "map fst (sort_key (\<lambda>((i, _), _). i) es) = List.enumerate 0 calls"
proof -
  let ?es = "List.enumerate 0 calls" and ?xs = "map fst (sort_key (\<lambda>((i, _), _). i) es)"
  have inj: "inj_on fst (set ?es)" using distinct_map [of fst ?es] by simp
  have key: "(\<lambda>((i, _), _). i) = (\<lambda>e :: indexed_call \<times> message \<times> nat. fst (fst e))" by (auto simp: fun_eq_iff)
  have "sorted (map fst ?xs)" using sorted_sort_key [of "\<lambda>e. fst (fst e)" es] by (simp add: key comp_def)
  moreover have "mset ?es = mset ?xs" using assms by simp
  ultimately have "sort_key fst ?es = ?xs" using sort_key_inj_key_eq [of ?es ?xs fst] inj by simp
  moreover have "sort_key fst ?es = ?es" using sort_key_inj_key_eq [of ?es ?es fst] inj by simp
  ultimately show ?thesis by simp
qed

section \<open>Batches come to their end\<close>

lemma count_turns:
  assumes "i < length gs"
  shows "2 * length (dg_left (gs ! i)) \<le> count_list (turns sched gs) i"
proof -
  let ?left = "\<lambda>j. if i = j then 2 * length (dg_left (gs ! j)) else 0"
  have "2 * length (dg_left (gs ! i)) \<in> set (map ?left [0..<length gs])" using assms by force
  from member_le_sum_list [OF this] have "2 * length (dg_left (gs ! i)) \<le> sum_list (map ?left [0..<length gs])" by simp
  then show ?thesis
    by (simp add: turns_def count_list_concat comp_def count_list_replicate)
qed

lemma groups_error_None: "groups_error gs = None \<longleftrightarrow> (\<forall>g \<in> set gs. dg_error g = None)"
  by (induction gs) (auto simp: groups_error_def map_filter_simps split: list.splits option.splits)

lemma run_groups_ends:
  assumes tools: "tools_leave_session bc" and codec: "\<And>m v. bc_enc bc m = Inr v \<Longrightarrow> bc_dec bc v = Inr m"
    and fresh: "\<forall>g \<in> set gs. \<exists>cs. g = group_start cs" and ids: "distinct (all_ids bc gs)"
    and run: "run_groups bc (turns sched gs) gs w = (gs', w')" and ok: "groups_error gs' = None"
  shows "map (map fst \<circ> dg_finished) gs' = map dg_calls gs" "\<forall>g \<in> set gs'. group_sound bc (record_of w') g"
    "\<forall>j. j \<notin> set (all_ids bc gs) \<longrightarrow> hm_get (rr_tasks (record_of w')) j = hm_get (rr_tasks (record_of w)) j"
proof -
  from fresh have "\<forall>g \<in> set gs. group_sound bc (record_of w) g" by auto
  note good = run_groups_good [OF tools codec this ids run]
  from good show "\<forall>g \<in> set gs'. group_sound bc (record_of w') g"
    "\<forall>j. j \<notin> set (all_ids bc gs) \<longrightarrow> hm_get (rr_tasks (record_of w')) j = hm_get (rr_tasks (record_of w)) j" by blast+
  from good have same: "map dg_calls gs' = map dg_calls gs" by blast
  then have len: "length gs' = length gs" by (metis length_map)
  have "map fst (dg_finished g) = dg_calls g" if "g \<in> set gs'" for g
  proof -
    from that obtain i where i: "i < length gs" "g = gs' ! i" by (auto simp: in_set_conv_nth len)
    from fresh i(1) obtain cs where "gs ! i = group_start cs" by force
    then have "work_left (gs ! i) \<le> count_list (turns sched gs) i" using count_turns [OF i(1), of sched] by simp
    moreover have "dg_error g = None" using ok that by (simp add: groups_error_None)
    ultimately have "work_left g = 0" using good i by fastforce
    moreover have "dg_inside g \<noteq> None \<longrightarrow> dg_left g \<noteq> []" using good that by (auto simp: group_sound_def)
    ultimately have "dg_left g = []" by (cases "dg_left g") (auto simp: work_left_def split: if_splits)
    then show ?thesis by (simp add: dg_calls_def)
  qed
  then show "map (map fst \<circ> dg_finished) gs' = map dg_calls gs" by (simp flip: same)
qed

section \<open>A batch answers every call\<close>

lemma durable_batch_results:
  assumes "mset (concat (map (map fst \<circ> dg_finished) gs)) = mset (List.enumerate 0 calls)"
    and "\<forall>g \<in> set gs. group_sound bc r g"
  shows "list_all2 (call_recorded bc r) (List.enumerate 0 calls) (br_results (durable_batch_result gs))
    \<and> length (br_durations (durable_batch_result gs)) = length calls"
proof -
  let ?es = "concat (map dg_finished gs)"
  let ?s = "sort_key (\<lambda>((i, _), _). i) ?es"
  have "mset (map fst ?es) = mset (List.enumerate 0 calls)"
    using assms(1) by (simp add: map_concat comp_def)
  from sorted_entries [OF this] have calls: "map fst ?s = List.enumerate 0 calls" .
  have "\<forall>e \<in> set ?s. call_recorded bc r (fst e) (fst (snd e))"
    using assms(2) by (fastforce simp: group_sound_def)
  then have "list_all2 (call_recorded bc r) (map fst ?s) (map (\<lambda>(_, m, _). m) ?s)"
    by (simp only: list.rel_map list_all2_same split_beta)
  moreover have "length ?s = length calls" using arg_cong [OF calls, of length] by simp
  ultimately show ?thesis by (simp add: durable_batch_result_def Let_def calls)
qed

lemma run_durable_batch_answers:
  assumes tools: "tools_leave_session bc" and codec: "\<And>m v. bc_enc bc m = Inr v \<Longrightarrow> bc_dec bc v = Inr m"
    and run: "run_durable_batch bc calls w = (Inr b, w')"
  shows "list_all2 (call_recorded bc (record_of w')) (List.enumerate 0 calls) (br_results b)
    \<and> length (br_durations b) = length calls"
proof -
  let ?cg = "group_calls (bc_tools bc) calls"
  let ?gs = "joined_groups ?cg" and ?last = "[group_start (cg_exclusive ?cg)]"
  let ?sched = "te_schedule (bc_env bc) w (length ?gs)"
  obtain gs' w1 where r1: "run_groups bc (turns ?sched ?gs) ?gs w = (gs', w1)" by fastforce
  obtain last' w2 where r2: "run_groups bc (turns [] ?last) ?last w1 = (last', w2)" by fastforce
  from run r1 r2 have ok: "groups_error gs' = None" "groups_error last' = None"
    and b: "b = durable_batch_result (gs' @ last')" and w': "w' = w2"
    by (auto simp: run_durable_batch_def Let_def split: option.splits)
  have ids: "distinct (all_ids bc (?gs @ ?last))" by (rule batch_ids_distinct)
  then have ids1: "distinct (all_ids bc ?gs)" and ids2: "distinct (all_ids bc ?last)"
    and apart: "set (all_ids bc ?gs) \<inter> set (all_ids bc ?last) = {}" by (auto simp: all_ids_def)
  have fresh: "\<forall>g \<in> set ?gs. \<exists>cs. g = group_start cs" "\<forall>g \<in> set ?last. \<exists>cs. g = group_start cs"
    by (auto simp: joined_groups_def)
  note end1 = run_groups_ends [OF tools codec fresh(1) ids1 r1 ok(1)]
  note end2 = run_groups_ends [OF tools codec fresh(2) ids2 r2 ok(2)]
  have calls: "map (map fst \<circ> dg_finished) (gs' @ last') = map dg_calls (?gs @ ?last)"
    by (simp only: map_append end1(1) end2(1))
  have "group_sound bc (record_of w2) g" if g: "g \<in> set gs'" for g
  proof (rule group_sound_cong)
    show "group_sound bc (record_of w1) g" using end1(2) g by blast
    fix c assume c: "c \<in> set (dg_calls g)"
    have "map dg_calls gs' = map dg_calls ?gs"
      using run_groups_good [OF tools codec _ ids1 r1] fresh(1) by fastforce
    then have "dg_calls g \<in> set (map dg_calls ?gs)" using g by (metis image_eqI set_map)
    with c have "call_task_id bc c \<in> set (all_ids bc ?gs)" by (fastforce simp: all_ids_def)
    with apart end2(3) show "hm_get (rr_tasks (record_of w2)) (call_task_id bc c) = hm_get (rr_tasks (record_of w1)) (call_task_id bc c)"
      by blast
  qed
  with end2(2) have "\<forall>g \<in> set (gs' @ last'). group_sound bc (record_of w2) g" by auto
  from durable_batch_results [OF _ this, of calls] show ?thesis
    unfolding b w' calls using batch_groups_calls [of bc calls] by blast
qed

definition batch_ctx_of ::
  "'st lease_save \<Rightarrow> (message \<Rightarrow> string + json) \<Rightarrow> (json \<Rightarrow> string + message) \<Rightarrow> ('st, 'x) dworld tool_env
   \<Rightarrow> ('st, 'x) dworld tool_executor \<Rightarrow> string \<Rightarrow> bool \<Rightarrow> ('st, 'x) dworld tool_snapshot
   \<Rightarrow> ('st, ('st, 'x) dworld) batch_ctx" where
  "batch_ctx_of save enc dec env ex scope_id cancelled snap =
     \<lparr>bc_save = save, bc_enc = enc, bc_dec = dec, bc_env = env, bc_retry = ex_retry ex,
      bc_cancelled = cancelled, bc_scope = scope_id, bc_tools = snap\<rparr>"

section \<open>Replay\<close>

text \<open>A group whose calls are all recorded moves on by one call at each turn and changes nothing else.\<close>

definition replayed :: "(indexed_call \<Rightarrow> message) \<Rightarrow> nat \<Rightarrow> durable_group \<Rightarrow> durable_group" where
  "replayed f k g = g\<lparr>dg_left := drop k (dg_left g),
     dg_finished := dg_finished g @ map (\<lambda>c. (c, f c, 0)) (take k (dg_left g))\<rparr>"

definition replaying :: "('st, ('st, 'x) dworld) batch_ctx \<Rightarrow> ('st, 'x) dworld \<Rightarrow> (indexed_call \<Rightarrow> message) \<Rightarrow> durable_group \<Rightarrow> bool" where
  "replaying bc w f g \<longleftrightarrow> dg_error g = None \<and> dg_inside g = None
     \<and> (\<forall>c \<in> set (dg_left g). begin_call bc c w = (Inr (TaskDone (f c)), w))"

lemma replayed_add: "replayed f j (replayed f k g) = replayed f (k + j) g"
  by (simp add: replayed_def take_add) (simp add: add.commute)

lemma replayed_replaying: "replaying bc w f g \<Longrightarrow> replaying bc w f (replayed f k g)"
  by (auto simp: replaying_def replayed_def dest: in_set_dropD)

lemma group_turn_replay:
  assumes "replaying bc w f g"
  shows "group_turn bc g w = (replayed f 1 g, w)"
  using assms
  by (cases "dg_left g") (simp_all add: replaying_def group_turn_def group_result_def replayed_def)

lemma run_groups_replay:
  assumes "\<forall>g \<in> set gs. replaying bc w f g"
  shows "run_groups bc is gs w = (map (\<lambda>i. replayed f (count_list is i) (gs ! i)) [0..<length gs], w)"
  using assms
proof (induction "is" arbitrary: gs)
  case Nil
  have "replayed f 0 g = g" for g by (simp add: replayed_def)
  then show ?case by (simp add: map_nth)
next
  case (Cons k ks)
  show ?case
  proof (cases "k < length gs")
    case False
    then have "count_list (k # ks) i = count_list ks i" if "i < length gs" for i using that by auto
    with False Cons.IH [OF Cons.prems] show ?thesis by simp
  next
    case True
    let ?gs = "gs[k := replayed f 1 (gs ! k)]"
    have here: "replaying bc w f (gs ! k)" using Cons.prems True by simp
    have "\<forall>g \<in> set ?gs. replaying bc w f g"
      using Cons.prems replayed_replaying [OF here] by (auto dest: set_update_subset_insert [THEN subsetD])
    from Cons.IH [OF this] have "run_groups bc (k # ks) gs w
        = (map (\<lambda>i. replayed f (count_list ks i) (?gs ! i)) [0..<length gs], w)"
      using True by (simp add: group_turn_replay [OF here])
    moreover have "replayed f (count_list ks i) (?gs ! i) = replayed f (count_list (k # ks) i) (gs ! i)" if "i < length gs" for i
      using that by (cases "i = k") (simp_all add: replayed_add)
    ultimately show ?thesis by simp
  qed
qed

lemma run_groups_replayed:
  assumes "\<forall>g \<in> set gs. replaying bc w f g \<and> (\<exists>cs. g = group_start cs)"
  shows "\<exists>gs'. run_groups bc (turns sched gs) gs w = (gs', w) \<and> groups_error gs' = None
    \<and> map dg_finished gs' = map (\<lambda>g. map (\<lambda>c. (c, f c, 0)) (dg_calls g)) gs"
proof -
  let ?gs' = "map (\<lambda>i. replayed f (count_list (turns sched gs) i) (gs ! i)) [0..<length gs]"
  have run: "run_groups bc (turns sched gs) gs w = (?gs', w)" using assms by (intro run_groups_replay) blast
  have whole: "dg_error (replayed f (count_list (turns sched gs) i) (gs ! i)) = None
      \<and> dg_finished (replayed f (count_list (turns sched gs) i) (gs ! i)) = map (\<lambda>c. (c, f c, 0)) (dg_calls (gs ! i))"
    if i: "i < length gs" for i
  proof -
    from assms i obtain cs where cs: "gs ! i = group_start cs" using nth_mem by blast
    with count_turns [OF i, of sched] have "length cs \<le> count_list (turns sched gs) i" by simp
    with cs show ?thesis by (simp add: replayed_def)
  qed
  from whole have "groups_error ?gs' = None" by (auto simp: groups_error_None)
  moreover from whole have "map dg_finished ?gs' = map (\<lambda>g. map (\<lambda>c. (c, f c, 0)) (dg_calls g)) gs"
    by (intro nth_equalityI) simp_all
  ultimately show ?thesis using run by blast
qed

lemma replayed_results:
  assumes "mset (concat (map dg_calls gs)) = mset (List.enumerate 0 calls)"
    and "map dg_finished gs' = map (\<lambda>g. map (\<lambda>c. (c, f c, 0)) (dg_calls g)) gs"
  shows "durable_batch_result gs' = \<lparr>br_results = map f (List.enumerate 0 calls), br_durations = replicate (length calls) 0,
    br_panicked = False\<rparr>"
proof -
  let ?s = "sort_key (\<lambda>((i, _), _). i) (concat (map dg_finished gs'))"
  have es: "concat (map dg_finished gs') = map (\<lambda>c. (c, f c, 0)) (concat (map dg_calls gs))"
    by (simp add: assms(2) map_concat comp_def)
  then have "mset (map fst (concat (map dg_finished gs'))) = mset (List.enumerate 0 calls)"
    using assms(1) by (simp add: comp_def)
  from sorted_entries [OF this] have calls: "map fst ?s = List.enumerate 0 calls" .
  have "e = (fst e, f (fst e), 0)" if "e \<in> set ?s" for e using that unfolding set_sort es by auto
  then have "map (\<lambda>e. (fst e, f (fst e), 0)) ?s = ?s" by (intro map_idI) (rule sym)
  then have "?s = map (\<lambda>c. (c, f c, 0)) (map fst ?s)" unfolding list.map_comp comp_def by (rule sym)
  then have "?s = map (\<lambda>c. (c, f c, 0)) (List.enumerate 0 calls)" unfolding calls .
  then show ?thesis by (simp add: durable_batch_result_def Let_def comp_def map_replicate_const)
qed

lemma run_durable_batch_replay:
  assumes "\<And>c. c \<in> set (List.enumerate 0 calls) \<Longrightarrow> begin_call bc c w = (Inr (TaskDone (f c)), w)"
  shows "run_durable_batch bc calls w = (Inr \<lparr>br_results = map f (List.enumerate 0 calls),
    br_durations = replicate (length calls) 0, br_panicked = False\<rparr>, w)"
proof -
  let ?cg = "group_calls (bc_tools bc) calls"
  let ?gs = "joined_groups ?cg" and ?last = "[group_start (cg_exclusive ?cg)]"
  have all: "set (concat (map dg_calls (?gs @ ?last))) = set (List.enumerate 0 calls)"
    using batch_groups_calls [of bc calls] by (metis set_mset_mset)
  have "replaying bc w f g \<and> (\<exists>cs. g = group_start cs)" if "g \<in> set (?gs @ ?last)" for g
  proof -
    from that obtain cs where cs: "g = group_start cs" by (auto simp: joined_groups_def)
    with that have "cs \<in> set (map dg_calls (?gs @ ?last))" by (metis group_start_simps(1) image_eqI set_map)
    then have "set cs \<subseteq> set (concat (map dg_calls (?gs @ ?last)))" unfolding set_concat by blast
    then have "set cs \<subseteq> set (List.enumerate 0 calls)" unfolding all .
    with cs assms show ?thesis by (auto simp: replaying_def)
  qed
  then have "\<forall>g \<in> set ?gs. replaying bc w f g \<and> (\<exists>cs. g = group_start cs)"
    "\<forall>g \<in> set ?last. replaying bc w f g \<and> (\<exists>cs. g = group_start cs)" by auto
  note first = run_groups_replayed [OF this(1), of "te_schedule (bc_env bc) w (length ?gs)"]
    and second = run_groups_replayed [OF this(2), of "[]"]
  obtain gs' where gs': "run_groups bc (turns (te_schedule (bc_env bc) w (length ?gs)) ?gs) ?gs w = (gs', w)"
      "groups_error gs' = None" "map dg_finished gs' = map (\<lambda>g. map (\<lambda>c. (c, f c, 0)) (dg_calls g)) ?gs"
    using first by blast
  obtain last' where last': "run_groups bc (turns [] ?last) ?last w = (last', w)"
      "groups_error last' = None" "map dg_finished last' = map (\<lambda>g. map (\<lambda>c. (c, f c, 0)) (dg_calls g)) ?last"
    using second by blast
  have "map dg_finished (gs' @ last') = map (\<lambda>g. map (\<lambda>c. (c, f c, 0)) (dg_calls g)) (?gs @ ?last)"
    by (simp only: map_append gs'(3) last'(3))
  from replayed_results [OF batch_groups_calls this] gs'(1,2) last'(1,2) show ?thesis
    by (simp add: run_durable_batch_def Let_def)
qed

text \<open>
  C6: A durable batch that succeeds has one result and one duration for every call, in order.
  Every call was of a known tool that the durable run supports, and its result is what the
  record of the run says of its task, which is completed. This holds however the groups of the
  batch are interleaved, and whether a task was executed or had been completed before.
\<close>

theorem durable_batch_answers_every_call:
  assumes "\<And>m v. enc m = Inr v \<Longrightarrow> dec v = Inr m" and "ex_catalog ex w = (w0, snap)"
    and "tools_leave_session (batch_ctx_of save enc dec env ex scope_id cancelled snap)"
    and "execute_durable_batch save enc dec env ex scope_id calls cancelled w = (Inr b, w')"
  shows "list_all2 (call_recorded (batch_ctx_of save enc dec env ex scope_id cancelled snap) (record_of w'))
      (List.enumerate 0 calls) (br_results b)
    \<and> length (br_durations b) = length calls"
  using run_durable_batch_answers [OF assms(3)] assms(1,2,4)
  by (simp add: batch_ctx_of_def execute_durable_batch_def)

text \<open>
  C5: When the process dies after a durable batch has succeeded and before the node is
  committed, the batch is executed again by the run that is resumed. Its record has the tasks
  of the first run, so the results are the same, no tool is called, and nothing is saved:
  the world stays as it is.
\<close>

theorem durable_batch_is_replayed:
  assumes codec: "\<And>m v. enc m = Inr v \<Longrightarrow> dec v = Inr m" and catalog: "ex_catalog ex = static_catalog snap"
    and tools: "tools_leave_session (batch_ctx_of save enc dec env ex scope_id cancelled snap)"
    and run: "execute_durable_batch save enc dec env ex scope_id calls cancelled w = (Inr b, w')"
    and tasks: "rr_tasks (record_of w2) = rr_tasks (record_of w')"
    and resumed: "rr_status (record_of w2) \<notin> {CompletedRun, CancelledRun, RejectedRun, ExpiredRun}"
      "\<not> dw_root_cancelled w2" "se_in_flight (dw_session w2) = []"
  shows "execute_durable_batch save2 enc dec env2 ex scope_id calls cancelled2 w2
    = (Inr \<lparr>br_results = br_results b, br_durations = replicate (length calls) 0, br_panicked = False\<rparr>, w2)"
proof -
  let ?bc = "batch_ctx_of save enc dec env ex scope_id cancelled snap"
  let ?bc2 = "batch_ctx_of save2 enc dec env2 ex scope_id cancelled2 snap"
  let ?f = "\<lambda>c :: indexed_call. br_results b ! fst c"
  have "run_durable_batch ?bc calls w = (Inr b, w')"
    using run catalog by (simp add: execute_durable_batch_def static_catalog_def batch_ctx_of_def)
  from run_durable_batch_answers [OF tools _ this] codec
  have recs: "list_all2 (call_recorded ?bc (record_of w')) (List.enumerate 0 calls) (br_results b)"
    by (simp add: batch_ctx_of_def)
  then have len: "length (br_results b) = length calls" by (auto dest: list_all2_lengthD)
  have "begin_call ?bc2 c w2 = (Inr (TaskDone (?f c)), w2)" if "c \<in> set (List.enumerate 0 calls)" for c
  proof (rule begin_recorded)
    from that obtain i where i: "i < length calls" "c = List.enumerate 0 calls ! i" "fst c = i"
      by (auto simp: in_set_conv_nth nth_enumerate_eq)
    with recs have "call_recorded ?bc (record_of w') c (?f c)" by (auto simp: list_all2_conv_all_nth)
    then show "call_recorded ?bc2 (record_of w2) c (?f c)"
      using tasks by (auto simp: call_recorded_def call_planned_def batch_ctx_of_def call_task_id_def split: option.splits)
  qed (use resumed in simp_all)
  from run_durable_batch_replay [of calls ?bc2 w2 ?f, OF this]
  have "run_durable_batch ?bc2 calls w2 = (Inr \<lparr>br_results = map ?f (List.enumerate 0 calls),
      br_durations = replicate (length calls) 0, br_panicked = False\<rparr>, w2)" .
  moreover have "map ?f (List.enumerate 0 calls) = br_results b"
    by (rule nth_equalityI) (simp_all add: len nth_enumerate_eq)
  ultimately show ?thesis
    using catalog by (simp add: execute_durable_batch_def static_catalog_def batch_ctx_of_def)
qed

text \<open>
  Seen from the session, one call is an execution of its task (\<open>TaskRuntime::execute\<close>) whose
  function is the tool.
\<close>

lemma one_call_is_a_task:
  assumes known: "snapshot_get (bc_tools bc) (tc_name (snd c)) = Some t" "unsupported_call (bc_tools bc) (snd c) = None"
    and tools: "tools_leave_session bc"
    and body: "\<And>iv w'. dw_rest w' = dw_rest w \<Longrightarrow> snd (run_tool bc t (snd c) iv w') = result"
    and begun: "begin_call bc c w = (Inr (TaskRun iv), w1)" and finish: "finish_call bc c iv w1 = (res, w2)"
  shows "task_execute (bc_save bc) (bc_enc bc) (bc_dec bc) (dw_root_cancelled w) (\<lambda>iv se. (result, se)) (bc_scope bc)
      (call_slot (fst c) (snd c)) (et_replay_version t) (call_input (snd c)) (task_policy (et_replay_policy t)) (dw_session w)
    = (res, dw_session w2)"
proof -
  from begun have b: "dw_rest w1 = dw_rest w" "call_task_id bc c \<notin> set (se_in_flight (dw_session w))"
    "task_prepare (bc_save bc) (bc_dec bc) (dw_root_cancelled w) (call_task_id bc c) (et_replay_version t)
       (call_input (snd c)) (task_policy (et_replay_policy t))
       (dw_session w\<lparr>se_in_flight := call_task_id bc c # se_in_flight (dw_session w)\<rparr>) = (Inr (TaskRun iv), dw_session w1)"
    using known by (auto simp: begin_call_def Let_def split: if_splits sum.splits task_start.splits prod.splits)
  obtain w' where r: "run_tool bc t (snd c) iv w1 = (w', result)" using body [OF b(1), of iv] by (metis prod.collapse)
  with finish known run_tool_keeps [OF tools known(1) r] b(2,3) show ?thesis
    by (auto simp: finish_call_def task_execute_def call_task_id_def landed_def Let_def split: prod.splits)
qed

subsection \<open>A batch that is replayed\<close>

type_synonym counted = "(run_record list, nat) dworld"

definition counting_tool :: "counted executable_tool" where
  "counting_tool = tool_safe \<lparr>td_name = ''x'', td_description = [], td_parameters = JNull, td_cache = None\<rparr>
     (\<lambda>_ w. (w\<lparr>dw_rest := dw_rest w + 1\<rparr>, Returned (Inr JNull)))"

definition counting_env :: "counted tool_env" where
  "counting_env = \<lparr>te_sleep = (\<lambda>_ w. w), te_clock = dw_rest, te_schedule = (\<lambda>_ n. [0..<n]), te_print = (\<lambda>_. ''null'')\<rparr>"

definition counting_executor :: "counted tool_executor" where
  "counting_executor = executor_new (static_catalog (from_tools [counting_tool]))"

definition counting_world :: counted where
  "counting_world = \<lparr>dw_session = session_new (example_run\<lparr>rr_tasks := []\<rparr>) [], dw_scope = None,
     dw_root_cancelled = False, dw_rest = 0\<rparr>"

definition keep_records :: "run_record list lease_save" where
  "keep_records r st = (None, r # st)"

definition counting_call :: tool_call where
  "counting_call = \<lparr>tc_id = ''1'', tc_name = ''x'', tc_arguments = JNull\<rparr>"

abbreviation counting_batch :: "counted durable_batch" where
  "counting_batch \<equiv> execute_durable_batch keep_records (sd_state numbered_serde) (sd_of_state numbered_serde)
     counting_env counting_executor ''s''"

lemma counting_codec: "sd_state numbered_serde m = Inr v \<Longrightarrow> sd_of_state numbered_serde v = Inr m"
  by (auto simp: numbered_serde_def)

lemma counting_get: "snapshot_get (from_tools [counting_tool]) n = (if n = ''x'' then Some counting_tool else None)"
  by (simp add: snapshot_get_def from_tools_def snapshot_new_def counting_tool_def tool_safe_def tool_from_fn_def)

lemma counting_tool_simps [simp]:
  "execute_with_context counting_tool args c w = (w\<lparr>dw_rest := dw_rest w + 1\<rparr>, Returned (Inr JNull))"
  "et_replay_policy counting_tool = ToolManualRecovery" "et_safety counting_tool = Safe"
  by (simp_all add: execute_with_context_def counting_tool_def tool_safe_def tool_from_fn_def tool_execute_def)

abbreviation counting_ctx :: "(run_record list, counted) batch_ctx" where
  "counting_ctx \<equiv> batch_ctx_of keep_records (sd_state numbered_serde) (sd_of_state numbered_serde)
     counting_env counting_executor ''s'' False (from_tools [counting_tool])"

lemma counting_leaves: "tools_leave_session counting_ctx"
  by (auto simp: tools_leave_session_def leaves_session_def batch_ctx_of_def counting_env_def counting_get split: if_splits)

lemma counting_begin:
  "\<exists>iv se k. begin_call counting_ctx (0, counting_call) counting_world = (Inr (TaskRun iv), counting_world\<lparr>dw_session := se\<rparr>)
     \<and> hm_get (rr_tasks (se_record se)) (call_task_id counting_ctx (0, counting_call)) = Some k
     \<and> \<not> se_poisoned se \<and> rr_revision (se_record se) = 6 \<and> rr_status (se_record se) = SuspendedRun"
  by (simp add: begin_call_def batch_ctx_of_def counting_get counting_call_def unsupported_call_def
      task_prepare_def counting_world_def session_new_def example_run_def update_def plan_task_def task_attempt_def
      start_attempt_def keep_records_def task_new_def Let_def)

lemma counting_finish:
  assumes "hm_get (rr_tasks (record_of w)) (call_task_id counting_ctx (0, counting_call)) = Some k"
    and "\<not> se_poisoned (dw_session w)" "rr_revision (record_of w) = 6" "rr_status (record_of w) = SuspendedRun"
  shows "\<exists>m w'. finish_call counting_ctx (0, counting_call) iv w = (Inr m, w') \<and> dw_rest w' = dw_rest w + 1
     \<and> rr_status (record_of w') = SuspendedRun"
  using assms
  by (simp add: finish_call_def batch_ctx_of_def counting_get counting_call_def run_tool_def invoke_tool_def
      task_conclude_def update_def complete_task_def keep_records_def numbered_serde_def landed_def Let_def)

lemma counting_batch_succeeds:
  "\<exists>b w. counting_batch [counting_call] False counting_world = (Inr b, w) \<and> dw_rest w = 1
     \<and> rr_status (record_of w) = SuspendedRun"
proof -
  obtain iv se k where b: "begin_call counting_ctx (0, counting_call) counting_world
      = (Inr (TaskRun iv), counting_world\<lparr>dw_session := se\<rparr>)"
    "hm_get (rr_tasks (se_record se)) (call_task_id counting_ctx (0, counting_call)) = Some k"
    "\<not> se_poisoned se" "rr_revision (se_record se) = 6" "rr_status (se_record se) = SuspendedRun"
    using counting_begin by blast
  obtain m w' where f: "finish_call counting_ctx (0, counting_call) iv (counting_world\<lparr>dw_session := se\<rparr>) = (Inr m, w')"
    "dw_rest w' = 1" "rr_status (record_of w') = SuspendedRun"
    using counting_finish [of "counting_world\<lparr>dw_session := se\<rparr>" k iv] b(2-) by (auto simp: counting_world_def)
  have groups: "group_calls (from_tools [counting_tool]) [counting_call]
      = \<lparr>cg_safe = [(0, counting_call)], cg_category = [], cg_exclusive = []\<rparr>"
    by (simp add: group_calls_def group_call_def counting_get counting_call_def)
  have turns: "run_groups counting_ctx [0, 0, 0] [group_start [(0, counting_call)]] counting_world
      = ([\<lparr>dg_left = [], dg_inside = None, dg_finished = [((0, counting_call), m, dw_rest w' - dw_rest counting_world)],
          dg_error = None\<rparr>], w')"
    using b(1) f(1)
    by (simp add: group_turn_def group_start_def group_result_def batch_ctx_of_def counting_env_def)
  have "counting_batch [counting_call] False counting_world = run_durable_batch counting_ctx [counting_call] counting_world"
    by (simp add: execute_durable_batch_def batch_ctx_of_def counting_executor_def executor_new_def static_catalog_def)
  moreover have "\<exists>b. run_durable_batch counting_ctx [counting_call] counting_world = (Inr b, w')"
    using turns groups
    by (simp add: run_durable_batch_def Let_def batch_ctx_of_def joined_groups_def turns_def counting_env_def numeral_2_eq_2
        groups_error_def map_filter_simps)
  ultimately show ?thesis using f by auto
qed

lemma durable_batch_answers_every_call_witness:
  "\<exists>b w. counting_batch [counting_call] False counting_world = (Inr b, w)
     \<and> list_all2 (call_recorded counting_ctx (record_of w)) (List.enumerate 0 [counting_call]) (br_results b)"
proof -
  obtain b w where run: "counting_batch [counting_call] False counting_world = (Inr b, w)"
    using counting_batch_succeeds by blast
  have "ex_catalog counting_executor counting_world = (counting_world, from_tools [counting_tool])"
    by (simp add: counting_executor_def executor_new_def static_catalog_def)
  from durable_batch_answers_every_call [OF counting_codec this counting_leaves run] run show ?thesis by blast
qed

lemma durable_batch_is_replayed_witness:
  "\<exists>b w w2. counting_batch [counting_call] False counting_world = (Inr b, w) \<and> dw_rest w = 1
     \<and> w2 = w\<lparr>dw_session := session_new (record_of w) [], dw_root_cancelled := False\<rparr>
     \<and> counting_batch [counting_call] False w2
       = (Inr \<lparr>br_results = br_results b, br_durations = [0], br_panicked = False\<rparr>, w2)"
proof -
  obtain b w where run: "counting_batch [counting_call] False counting_world = (Inr b, w)"
    and w: "dw_rest w = 1" "rr_status (record_of w) = SuspendedRun"
    using counting_batch_succeeds by blast
  let ?w = "w\<lparr>dw_session := session_new (record_of w) [], dw_root_cancelled := False\<rparr>"
  have catalog: "ex_catalog counting_executor = static_catalog (from_tools [counting_tool])"
    by (simp add: counting_executor_def executor_new_def)
  from durable_batch_is_replayed [OF counting_codec catalog counting_leaves run, of ?w keep_records counting_env False] w run
  show ?thesis by (auto simp: session_new_def)
qed

end
