(* ===== verification/Agent_Team.thy ===== *)
theory Agent_Team
  imports Agent_Loop Codec_Core
begin

text \<open>
  The template of a planner, parallel workers and a reviewer
  (\<open>lellm-agent/src/runtime/templates/mod.rs\<close>, \<open>state.rs\<close>): the state of the team, the merge of
  the workers' branches, and the graph in which each role is a compiled agent behind a lens.

  The state is compared by its JSON, as \<open>serde_json::to_value\<close> gives it; how messages and the
  states of agents are written is an argument, \<open>team_json\<close>.
\<close>

section \<open>The state\<close>

record team_state =
  tm_request :: "message list"
  tm_planner :: agent_state
  tm_workers :: "agent_state list"
  tm_reviewer :: agent_state

datatype team_mutation = Workers "agent_state list" | Reviewer agent_state

fun team_apply :: "team_mutation \<Rightarrow> team_state \<Rightarrow> team_state" where
  "team_apply (Workers ws) s = s\<lparr>tm_workers := ws\<rparr>"
| "team_apply (Reviewer r) s = s\<lparr>tm_reviewer := r\<rparr>"

record team_checkpoint =
  tk_request :: "message list"
  tk_planner :: agent_checkpoint
  tk_workers :: "agent_checkpoint list"
  tk_reviewer :: agent_checkpoint

definition team_snapshot :: "team_state \<Rightarrow> team_checkpoint" where
  "team_snapshot s = \<lparr>tk_request = tm_request s, tk_planner = agent_snapshot (tm_planner s),
     tk_workers = map agent_snapshot (tm_workers s), tk_reviewer = agent_snapshot (tm_reviewer s)\<rparr>"

definition team_restore :: "team_checkpoint \<Rightarrow> team_state" where
  "team_restore c = \<lparr>tm_request = tk_request c, tm_planner = agent_restore (tk_planner c),
     tm_workers = map agent_restore (tk_workers c), tm_reviewer = agent_restore (tk_reviewer c)\<rparr>"

definition team_ops :: "(team_state, team_mutation, team_checkpoint) workflow_ops" where
  "team_ops = \<lparr>op_apply = team_apply, op_snapshot = team_snapshot, op_restore = team_restore\<rparr>"

lemma team_restore_snapshot [simp]: "team_restore (team_snapshot s) = s"
  by (simp add: team_restore_def team_snapshot_def comp_def)

section \<open>Merging the workers' branches\<close>

record team_json =
  tj_messages :: "message list \<Rightarrow> string + json"
  tj_agent :: "agent_checkpoint \<Rightarrow> string + json"

definition team_to_value :: "team_json \<Rightarrow> team_checkpoint \<Rightarrow> string + json" where
  "team_to_value tj c =
     (case tj_messages tj (tk_request c) of Inl e \<Rightarrow> Inl e | Inr request \<Rightarrow>
      case tj_agent tj (tk_planner c) of Inl e \<Rightarrow> Inl e | Inr planner \<Rightarrow>
      case traverse (tj_agent tj) (tk_workers c) of Inl e \<Rightarrow> Inl e | Inr workers \<Rightarrow>
      case tj_agent tj (tk_reviewer c) of Inl e \<Rightarrow> Inl e | Inr reviewer \<Rightarrow>
      Inr (JObject [(''planner'', planner), (''request'', request), (''reviewer'', reviewer), (''workers'', JArray workers)]))"

text \<open>Indexing a \<open>Value\<close> by a key or a position that is not there gives \<open>Null\<close>.\<close>

definition value_key :: "json \<Rightarrow> string \<Rightarrow> json" where
  "value_key v k = (case json_get v k of None \<Rightarrow> JNull | Some x \<Rightarrow> x)"

definition value_at :: "json \<Rightarrow> nat \<Rightarrow> json" where
  "value_at v i = (case v of JArray xs \<Rightarrow> (if i < length xs then xs ! i else JNull) | _ \<Rightarrow> JNull)"

definition team_conflict :: "string \<Rightarrow> merge_error" where
  "team_conflict t = OtherMergeError (MergeConflict t)"

text \<open>The workers of one branch, from position \<open>i\<close> on; \<open>d\<close> says where its JSON differs from the base's.\<close>

fun merge_workers ::
  "(nat \<Rightarrow> bool) \<Rightarrow> nat \<Rightarrow> agent_state list \<Rightarrow> bool list \<times> agent_state list \<Rightarrow> merge_error + bool list \<times> agent_state list" where
  "merge_workers d i [] (written, result) = Inr (written, result)"
| "merge_workers d i (w # ws) (written, result) =
     (if d i
      then if written ! i then Inl (team_conflict (''multiple writers for worker '' @ show_nat i))
           else merge_workers d (Suc i) ws (written[i := True], result[i := w])
      else merge_workers d (Suc i) ws (written, result))"

fun merge_branches ::
  "team_json \<Rightarrow> nat \<Rightarrow> json \<Rightarrow> team_state list \<Rightarrow> bool list \<times> agent_state list \<Rightarrow> merge_error + bool list \<times> agent_state list" where
  "merge_branches tj n base_json [] acc = Inr acc"
| "merge_branches tj n base_json (b # bs) acc =
     (case team_to_value tj (team_snapshot b) of Inl e \<Rightarrow> Inl (OtherMergeError (Serialization e)) | Inr v \<Rightarrow>
      if length (tm_workers b) \<noteq> n
         \<or> list_ex (\<lambda>k. value_key v k \<noteq> value_key base_json k) [''request'', ''planner'', ''reviewer'']
      then Inl (team_conflict ''worker changed team structure or another role'')
      else case merge_workers (\<lambda>i. value_at (value_key v ''workers'') i \<noteq> value_at (value_key base_json ''workers'') i)
                  0 (tm_workers b) acc of
             Inl e \<Rightarrow> Inl e
           | Inr acc' \<Rightarrow> merge_branches tj n base_json bs acc')"

definition team_merge :: "team_json \<Rightarrow> team_state \<Rightarrow> team_state list \<Rightarrow> merge_error + team_state" where
  "team_merge tj base branches =
     (case team_to_value tj (team_snapshot base) of Inl e \<Rightarrow> Inl (OtherMergeError (Serialization e)) | Inr base_json \<Rightarrow>
      case merge_branches tj (length (tm_workers base)) base_json branches
             (replicate (length (tm_workers base)) False, tm_workers base) of
        Inl e \<Rightarrow> Inl e
      | Inr (_, ws) \<Rightarrow> Inr (base\<lparr>tm_workers := ws\<rparr>))"

section \<open>The graph\<close>

datatype role_lens = PlannerRole | WorkerRole nat | ReviewerRole

text \<open>
  A worker's position beyond the list panics; no run of the team reaches that, since every step
  keeps the number of workers.
\<close>

definition lens_of_role :: "role_lens \<Rightarrow> (team_state, agent_state) lens" where
  "lens_of_role r =
     (case r of
        PlannerRole \<Rightarrow> \<lparr>lens_get = tm_planner, lens_put = (\<lambda>a s. s\<lparr>tm_planner := a\<rparr>)\<rparr>
      | WorkerRole i \<Rightarrow> \<lparr>lens_get = (\<lambda>s. tm_workers s ! i), lens_put = (\<lambda>a s. s\<lparr>tm_workers := (tm_workers s)[i := a]\<rparr>)\<rparr>
      | ReviewerRole \<Rightarrow> \<lparr>lens_get = tm_reviewer, lens_put = (\<lambda>a s. s\<lparr>tm_reviewer := a\<rparr>)\<rparr>)"

definition role_budget :: "tool_use_config \<Rightarrow> nat" where
  "role_budget c = min usize_max (min usize_max (uc_max_iterations c * 6) + 1)"

definition role ::
  "('w \<Rightarrow> nat \<Rightarrow> nat list) \<Rightarrow> 'w tool_use_loop \<Rightarrow> role_lens \<Rightarrow> (team_state, agent_chunk, 'w) projector" where
  "role schedule agent r =
     subgraph_compile (agent_env schedule) (tl_graph agent) (lens_of_role r) (role_budget (tl_config agent))"

definition output_text :: "agent_state \<Rightarrow> terminal_error + string" where
  "output_text s = (case as_response s of None \<Rightarrow> Inl (StateText ''agent finished without a response'')
     | Some r \<Rightarrow> Inr (flatten_text (rp_content r)))"

definition user_text :: "string \<Rightarrow> message" where
  "user_text t = UserMessage (text_blocks t)"

definition worker_prompt :: "string \<Rightarrow> string" where
  "worker_prompt plan = ''Planner output (reference material):'' @ [CHR 0x0A] @ plan @ [CHR 0x0A]
     @ ''Complete your assigned specialty using this plan.''"

definition role_messages :: "tool_use_config \<Rightarrow> message list \<Rightarrow> terminal_error + agent_state" where
  "role_messages c ms =
     (case build_request_messages c ms of Inl e \<Rightarrow> Inl (StateText (show_llm_error e)) | Inr ms' \<Rightarrow> Inr (from_messages ms'))"

definition prepare_workers :: "tool_use_config list \<Rightarrow> (team_state, team_mutation, 'k, 'w) node_fn" where
  "prepare_workers configs w s cancelled =
     (case output_text (tm_planner s) of Inl e \<Rightarrow> (w, [], Some e) | Inr plan \<Rightarrow>
      case traverse (\<lambda>c. role_messages c (tm_request s @ [user_text (worker_prompt plan)])) configs of
        Inl e \<Rightarrow> (w, [], Some e)
      | Inr states \<Rightarrow> (w, [Leaf (Record (Workers states))], None))"

fun worker_reports :: "(string \<times> agent_state) list \<Rightarrow> terminal_error + string" where
  "worker_reports [] = Inr []"
| "worker_reports ((name, s) # rest) =
     (case output_text s of Inl e \<Rightarrow> Inl e | Inr out \<Rightarrow>
      case worker_reports rest of Inl e \<Rightarrow> Inl e | Inr texts \<Rightarrow>
      Inr ([CHR 0x0A] @ ''Worker '' @ name @ '' output (reference material):'' @ [CHR 0x0A] @ out @ [CHR 0x0A] @ texts))"

definition review_prompt :: "string list \<Rightarrow> team_state \<Rightarrow> terminal_error + string" where
  "review_prompt names s =
     (if length (tm_workers s) \<noteq> length names then Inl (StateText ''worker state count changed'')
      else case output_text (tm_planner s) of Inl e \<Rightarrow> Inl e | Inr plan \<Rightarrow>
      case worker_reports (zip names (tm_workers s)) of Inl e \<Rightarrow> Inl e | Inr texts \<Rightarrow>
      Inr (''Plan (reference material):'' @ [CHR 0x0A] @ plan @ [CHR 0x0A] @ texts @ [CHR 0x0A]
        @ ''Review these results and provide the final answer.''))"

definition prepare_review :: "tool_use_config \<Rightarrow> string list \<Rightarrow> (team_state, team_mutation, 'k, 'w) node_fn" where
  "prepare_review config names w s cancelled =
     (case review_prompt names s of Inl e \<Rightarrow> (w, [], Some e) | Inr report \<Rightarrow>
      case role_messages config (tm_request s @ [user_text report]) of
        Inl e \<Rightarrow> (w, [], Some e)
      | Inr reviewer \<Rightarrow> (w, [Leaf (Record (Reviewer reviewer))], None))"

text \<open>\<open>worker.name.is_empty() || !names.insert(name)\<close>, over the workers in order.\<close>

fun bad_names :: "string list \<Rightarrow> string list \<Rightarrow> bool" where
  "bad_names seen [] = False"
| "bad_names seen (n # ns) = (n = [] \<or> n \<in> set seen \<or> bad_names (n # seen) ns)"

definition team_env :: "('w \<Rightarrow> nat \<Rightarrow> nat list) \<Rightarrow> (team_state, team_mutation, team_checkpoint, 'w) run_env" where
  "team_env schedule = \<lparr>re_ops = team_ops, re_schedule = schedule\<rparr>"

type_synonym 'w team_graph = "(team_state, team_mutation, agent_chunk, 'w) graph"

definition worker_builder ::
  "('w \<Rightarrow> nat \<Rightarrow> nat list) \<Rightarrow> nat \<Rightarrow> string \<Rightarrow> 'w tool_use_loop
   \<Rightarrow> (team_state, team_mutation, agent_chunk, 'w) graph_builder" where
  "worker_builder schedule i name agent =
     builder_node ''agent'' (Subgraph (role schedule agent (WorkerRole i)))
       (builder_end ''agent'' (builder_start ''agent'' (builder_new name)))"

definition team_built :: "error_text \<Rightarrow> build_error list + 'g \<Rightarrow> terminal_error + 'g" where
  "team_built x r = (case r of Inl es \<Rightarrow> Inl (StateText (show_build_errors x es)) | Inr g \<Rightarrow> Inr g)"

definition worker_branch ::
  "error_text \<Rightarrow> ('w \<Rightarrow> nat \<Rightarrow> nat list) \<Rightarrow> nat \<times> string \<times> 'w tool_use_loop
   \<Rightarrow> terminal_error + string \<times> (team_state, team_mutation, agent_chunk, 'w) flow_node" where
  "worker_branch x schedule = (\<lambda>(i, name, agent).
     case team_built x (build (worker_builder schedule i name agent)) of
       Inl e \<Rightarrow> Inl e
     | Inr g \<Rightarrow> Inr (name, graph_branch (team_env schedule) g 1))"

definition team_builder ::
  "('w \<Rightarrow> nat \<Rightarrow> nat list) \<Rightarrow> team_json \<Rightarrow> 'w tool_use_loop \<Rightarrow> (string \<times> 'w tool_use_loop) list \<Rightarrow> 'w tool_use_loop \<Rightarrow> bool
   \<Rightarrow> (string \<times> (team_state, team_mutation, agent_chunk, 'w) flow_node) list
   \<Rightarrow> (team_state, team_mutation, agent_chunk, 'w) graph_builder" where
  "team_builder schedule tj planner workers reviewer human_review branches =
     (let b1 = builder_end (if human_review then ''human_review'' else ''reviewer'')
                 (builder_start ''planner'' (builder_new ''planner-workers-reviewer''));
          b2 = builder_node ''planner'' (Subgraph (role schedule planner PlannerRole)) b1;
          b3 = builder_node ''prepare_workers'' (Task (prepare_workers (map (tl_config \<circ> snd) workers))) b2;
          b4 = builder_node ''workers''
                 (Parallel \<lparr>pn_branches = branches, pn_strategy = CollectAll, pn_merge = team_merge tj\<rparr>) b3;
          b5 = builder_node ''prepare_review'' (Task (prepare_review (tl_config reviewer) (map fst workers))) b4;
          b6 = builder_node ''reviewer'' (Subgraph (role schedule reviewer ReviewerRole)) b5;
          b7 = builder_edge ''workers'' ''prepare_review'' (builder_edge ''prepare_workers'' ''workers''
                 (builder_edge ''planner'' ''prepare_workers'' b6));
          b8 = builder_edge ''prepare_review'' ''reviewer'' b7
      in if human_review
         then builder_edge ''reviewer'' ''human_review''
                (builder_node ''human_review'' (Barrier (barrier_new ''human_review'')) b8)
         else b8)"

record 'w planner_workers_reviewer =
  pw_graph :: "'w team_graph"
  pw_planner :: "'w tool_use_loop"
  pw_worker_count :: nat

definition team_new ::
  "error_text \<Rightarrow> ('w \<Rightarrow> nat \<Rightarrow> nat list) \<Rightarrow> team_json \<Rightarrow> 'w tool_use_loop \<Rightarrow> (string \<times> 'w tool_use_loop) list \<Rightarrow> 'w tool_use_loop
   \<Rightarrow> bool \<Rightarrow> terminal_error + 'w planner_workers_reviewer" where
  "team_new x schedule tj planner workers reviewer human_review =
     (if workers = [] \<or> bad_names [] (map fst workers)
      then Inl (StateText ''expected at least one worker with unique, nonempty names'')
      else case traverse (worker_branch x schedule) (List.enumerate 0 workers) of Inl e \<Rightarrow> Inl e | Inr branches \<Rightarrow>
      case team_built x (build (team_builder schedule tj planner workers reviewer human_review branches)) of
        Inl e \<Rightarrow> Inl e
      | Inr g \<Rightarrow> Inr \<lparr>pw_graph = g, pw_planner = planner, pw_worker_count = length workers\<rparr>)"

definition initial_state :: "'w planner_workers_reviewer \<Rightarrow> message list \<Rightarrow> terminal_error + team_state" where
  "initial_state team ms =
     (case role_messages (tl_config (pw_planner team)) ms of Inl e \<Rightarrow> Inl e | Inr planner \<Rightarrow>
      Inr \<lparr>tm_request = ms, tm_planner = planner, tm_workers = replicate (pw_worker_count team) (from_messages []),
           tm_reviewer = from_messages []\<rparr>)"


section \<open>What the merge does\<close>

lemma merge_workers_spec:
  assumes "length written = i + length ws" "length result = i + length ws"
  shows "merge_workers d i ws (written, result) = Inr (wr, res) \<longleftrightarrow>
     (\<forall>j. i \<le> j \<and> j < i + length ws \<and> d j \<longrightarrow> \<not> written ! j)
     \<and> wr = map (\<lambda>j. written ! j \<or> i \<le> j \<and> d j) [0..<i + length ws]
     \<and> res = map (\<lambda>j. if i \<le> j \<and> d j then ws ! (j - i) else result ! j) [0..<i + length ws]"
  using assms
proof (induction ws arbitrary: i written result)
  case Nil
  then show ?case by (auto intro!: nth_equalityI)
next
  case (Cons w ws)
  let ?n = "i + length (w # ws)"
  have range: "(\<forall>j. i \<le> j \<and> j < ?n \<and> d j \<longrightarrow> \<not> written ! j)
      \<longleftrightarrow> (d i \<longrightarrow> \<not> written ! i) \<and> (\<forall>j. Suc i \<le> j \<and> j < ?n \<and> d j \<longrightarrow> \<not> written ! j)" (is "?L \<longleftrightarrow> ?R")
  proof
    assume ?L
    then show ?R by (simp add: Suc_le_eq)
  next
    assume R: ?R
    show ?L
    proof (intro allI impI)
      fix j assume "i \<le> j \<and> j < ?n \<and> d j"
      then show "\<not> written ! j" using R by (cases "j = i") auto
    qed
  qed
  let ?written = "if d i then written[i := True] else written" and ?result = "if d i then result[i := w] else result"
  have "merge_workers d i (w # ws) (written, result) = Inr (wr, res) \<longleftrightarrow>
      (d i \<longrightarrow> \<not> written ! i) \<and> merge_workers d (Suc i) ws (?written, ?result) = Inr (wr, res)"
    by simp
  also have "merge_workers d (Suc i) ws (?written, ?result) = Inr (wr, res) \<longleftrightarrow>
      (\<forall>j. Suc i \<le> j \<and> j < ?n \<and> d j \<longrightarrow> \<not> ?written ! j)
      \<and> wr = map (\<lambda>j. ?written ! j \<or> Suc i \<le> j \<and> d j) [0..<?n]
      \<and> res = map (\<lambda>j. if Suc i \<le> j \<and> d j then ws ! (j - Suc i) else ?result ! j) [0..<?n]"
    using Cons.IH [of ?written "Suc i" ?result] Cons.prems by simp
  also have "(\<forall>j. Suc i \<le> j \<and> j < ?n \<and> d j \<longrightarrow> \<not> ?written ! j) \<longleftrightarrow> (\<forall>j. Suc i \<le> j \<and> j < ?n \<and> d j \<longrightarrow> \<not> written ! j)"
    by auto
  also have "map (\<lambda>j. ?written ! j \<or> Suc i \<le> j \<and> d j) [0..<?n] = map (\<lambda>j. written ! j \<or> i \<le> j \<and> d j) [0..<?n]"
    using Cons.prems by (intro map_cong refl, rename_tac j, case_tac "j = i") (auto simp: Suc_le_eq simp del: upt_Suc)
  also have "map (\<lambda>j. if Suc i \<le> j \<and> d j then ws ! (j - Suc i) else ?result ! j) [0..<?n]
      = map (\<lambda>j. if i \<le> j \<and> d j then (w # ws) ! (j - i) else result ! j) [0..<?n]"
    using Cons.prems by (intro map_cong refl, rename_tac j, case_tac "j = i") (auto simp: nth_Cons' Suc_le_eq simp del: upt_Suc)
  finally show ?case unfolding range by (simp only: conj_assoc)
qed

text \<open>Two states with the same number of workers that differ, as JSON, at most in workers.\<close>

definition same_team :: "team_json \<Rightarrow> team_state \<Rightarrow> team_state \<Rightarrow> bool" where
  "same_team tj s b \<longleftrightarrow>
     (case (team_to_value tj (team_snapshot s), team_to_value tj (team_snapshot b)) of
        (Inr u, Inr v) \<Rightarrow> length (tm_workers b) = length (tm_workers s)
          \<and> list_all (\<lambda>k. value_key v k = value_key u k) [''request'', ''planner'', ''reviewer'']
      | _ \<Rightarrow> False)"

definition worker_value :: "team_json \<Rightarrow> team_state \<Rightarrow> nat \<Rightarrow> string + json" where
  "worker_value tj s i = tj_agent tj (agent_snapshot (tm_workers s ! i))"

definition changed_worker :: "team_json \<Rightarrow> team_state \<Rightarrow> nat \<Rightarrow> team_state \<Rightarrow> bool" where
  "changed_worker tj base i b \<longleftrightarrow> worker_value tj b i \<noteq> worker_value tj base i"

lemma team_to_value_Inr:
  assumes "team_to_value tj (team_snapshot s) = Inr v"
  shows "tj_messages tj (tm_request s) = Inr (value_key v ''request'')"
    "tj_agent tj (agent_snapshot (tm_planner s)) = Inr (value_key v ''planner'')"
    "tj_agent tj (agent_snapshot (tm_reviewer s)) = Inr (value_key v ''reviewer'')"
    "i < length (tm_workers s) \<Longrightarrow> worker_value tj s i = Inr (value_at (value_key v ''workers'') i)"
proof -
  from assms obtain workers where w: "traverse (tj_agent tj) (map agent_snapshot (tm_workers s)) = Inr workers"
    and v: "tj_messages tj (tm_request s) = Inr (value_key v ''request'')"
      "tj_agent tj (agent_snapshot (tm_planner s)) = Inr (value_key v ''planner'')"
      "tj_agent tj (agent_snapshot (tm_reviewer s)) = Inr (value_key v ''reviewer'')"
      "value_key v ''workers'' = JArray workers"
    by (auto simp: team_to_value_def team_snapshot_def value_key_def split: sum.splits)
  from v(1-3) show "tj_messages tj (tm_request s) = Inr (value_key v ''request'')"
    "tj_agent tj (agent_snapshot (tm_planner s)) = Inr (value_key v ''planner'')"
    "tj_agent tj (agent_snapshot (tm_reviewer s)) = Inr (value_key v ''reviewer'')" .
  from w have "list_all2 (\<lambda>c j. tj_agent tj c = Inr j) (map agent_snapshot (tm_workers s)) workers"
    by (simp add: traverse_Inr)
  then show "worker_value tj s i = Inr (value_at (value_key v ''workers'') i)" if "i < length (tm_workers s)"
    using that by (auto simp: v(4) worker_value_def value_at_def list_all2_conv_all_nth)
qed

text \<open>Which branches wrote a worker, and what is left at its position after them.\<close>

definition worker_writers :: "team_json \<Rightarrow> team_state \<Rightarrow> team_state list \<Rightarrow> nat \<Rightarrow> team_state list" where
  "worker_writers tj base bs i = filter (changed_worker tj base i) bs"

definition merged_worker :: "team_json \<Rightarrow> team_state \<Rightarrow> team_state list \<Rightarrow> nat \<Rightarrow> agent_state" where
  "merged_worker tj base bs i =
     (case worker_writers tj base bs i of [] \<Rightarrow> tm_workers base ! i | b # _ \<Rightarrow> tm_workers b ! i)"

lemma merge_branches_spec:
  assumes base: "team_to_value tj (team_snapshot base) = Inr u" and n: "n = length (tm_workers base)"
    and once: "\<forall>i<n. length (worker_writers tj base done i) \<le> 1"
  shows "merge_branches tj n u bs
           (map (\<lambda>i. worker_writers tj base done i \<noteq> []) [0..<n], map (merged_worker tj base done) [0..<n]) = Inr (wr, ws) \<longleftrightarrow>
     (\<forall>b \<in> set bs. same_team tj base b)
     \<and> (\<forall>i<n. length (worker_writers tj base (done @ bs) i) \<le> 1)
     \<and> wr = map (\<lambda>i. worker_writers tj base (done @ bs) i \<noteq> []) [0..<n]
     \<and> ws = map (merged_worker tj base (done @ bs)) [0..<n]"
  using once
proof (induction bs arbitrary: "done")
  case Nil
  then show ?case by auto
next
  case (Cons b bs)
  show ?case
  proof (cases "same_team tj base b")
    case False
    then show ?thesis
      using base n by (auto simp: same_team_def list_all_iff list_ex_iff split: sum.splits)
  next
    case True
    then obtain v where v: "team_to_value tj (team_snapshot b) = Inr v" and len: "length (tm_workers b) = n"
      and keys: "\<not> list_ex (\<lambda>k. value_key v k \<noteq> value_key u k) [''request'', ''planner'', ''reviewer'']"
      using base n by (auto simp: same_team_def split: sum.splits)
    define d where "d i \<longleftrightarrow> value_at (value_key v ''workers'') i \<noteq> value_at (value_key u ''workers'') i" for i
    have d: "d i \<longleftrightarrow> changed_worker tj base i b" if "i < n" for i
      using that team_to_value_Inr(4) [OF base] team_to_value_Inr(4) [OF v] n len by (simp add: changed_worker_def d_def)
    let ?acc = "\<lambda>bs. (map (\<lambda>i. worker_writers tj base bs i \<noteq> []) [0..<n], map (merged_worker tj base bs) [0..<n])"
    have free: "(\<forall>i<n. d i \<longrightarrow> worker_writers tj base done i = []) \<longleftrightarrow> (\<forall>i<n. length (worker_writers tj base (done @ [b]) i) \<le> 1)"
      using d Cons.prems by (auto simp: worker_writers_def)
    have marks: "map (\<lambda>i. worker_writers tj base done i \<noteq> [] \<or> d i) [0..<n] = fst (?acc (done @ [b]))"
      using d by (auto simp: worker_writers_def)
    have vals: "map (\<lambda>i. if d i then tm_workers b ! i else merged_worker tj base done i) [0..<n] = snd (?acc (done @ [b]))"
      if "\<forall>i<n. d i \<longrightarrow> worker_writers tj base done i = []"
      using d that by (auto simp: merged_worker_def worker_writers_def split: list.splits)
    have step: "merge_workers d 0 (tm_workers b) (?acc done) = Inr acc \<longleftrightarrow>
        (\<forall>i<n. length (worker_writers tj base (done @ [b]) i) \<le> 1) \<and> acc = ?acc (done @ [b])" for acc
    proof -
      obtain a1 a2 where acc: "acc = (a1, a2)" by fastforce
      let ?w = "fst (?acc done)" and ?r = "snd (?acc done)"
      have "merge_workers d 0 (tm_workers b) (?w, ?r) = Inr (a1, a2) \<longleftrightarrow>
          (\<forall>j. 0 \<le> j \<and> j < 0 + length (tm_workers b) \<and> d j \<longrightarrow> \<not> ?w ! j)
          \<and> a1 = map (\<lambda>j. ?w ! j \<or> 0 \<le> j \<and> d j) [0..<0 + length (tm_workers b)]
          \<and> a2 = map (\<lambda>j. if 0 \<le> j \<and> d j then tm_workers b ! (j - 0) else ?r ! j) [0..<0 + length (tm_workers b)]"
        using len by (intro merge_workers_spec) simp_all
      also have "(\<forall>j. 0 \<le> j \<and> j < 0 + length (tm_workers b) \<and> d j \<longrightarrow> \<not> ?w ! j)
          \<longleftrightarrow> (\<forall>i<n. d i \<longrightarrow> worker_writers tj base done i = [])"
        using len by auto
      also have "map (\<lambda>j. ?w ! j \<or> 0 \<le> j \<and> d j) [0..<0 + length (tm_workers b)] = fst (?acc (done @ [b]))"
        unfolding marks [symmetric] using len by (intro map_cong) auto
      also have "map (\<lambda>j. if 0 \<le> j \<and> d j then tm_workers b ! (j - 0) else ?r ! j) [0..<0 + length (tm_workers b)]
          = map (\<lambda>i. if d i then tm_workers b ! i else merged_worker tj base done i) [0..<n]"
        using len by (intro map_cong) auto
      finally have "merge_workers d 0 (tm_workers b) (?acc done) = Inr acc \<longleftrightarrow>
          (\<forall>i<n. d i \<longrightarrow> worker_writers tj base done i = []) \<and> a1 = fst (?acc (done @ [b]))
          \<and> a2 = map (\<lambda>i. if d i then tm_workers b ! i else merged_worker tj base done i) [0..<n]"
        by (simp only: acc fst_conv snd_conv)
      then show ?thesis unfolding free [symmetric] using vals by (auto simp only: acc fst_conv snd_conv prod.inject)
    qed
    have "merge_branches tj n u (b # bs) (?acc done)
        = (case merge_workers d 0 (tm_workers b) (?acc done) of Inl e \<Rightarrow> Inl e | Inr acc \<Rightarrow> merge_branches tj n u bs acc)"
      using keys len by (simp add: v d_def [abs_def])
    also have "\<dots> = Inr (wr, ws) \<longleftrightarrow> (\<forall>i<n. length (worker_writers tj base (done @ [b]) i) \<le> 1)
        \<and> merge_branches tj n u bs (?acc (done @ [b])) = Inr (wr, ws)"
    proof (cases "merge_workers d 0 (tm_workers b) (?acc done)")
      case (Inl e)
      then have "\<not> (\<forall>i<n. length (worker_writers tj base (done @ [b]) i) \<le> 1)"
        using step [of "?acc (done @ [b])"] by simp
      with Inl show ?thesis by (simp only: sum.case) simp
    next
      case (Inr acc)
      with step [of acc] show ?thesis by simp
    qed
    also have "\<dots> \<longleftrightarrow> (\<forall>i<n. length (worker_writers tj base (done @ [b]) i) \<le> 1)
        \<and> (\<forall>b \<in> set bs. same_team tj base b)
        \<and> (\<forall>i<n. length (worker_writers tj base ((done @ [b]) @ bs) i) \<le> 1)
        \<and> (wr, ws) = ?acc ((done @ [b]) @ bs)"
      using Cons.IH [of "done @ [b]"] by auto
    also have "\<dots> \<longleftrightarrow> (\<forall>b \<in> set (b # bs). same_team tj base b)
        \<and> (\<forall>i<n. length (worker_writers tj base (done @ b # bs) i) \<le> 1) \<and> (wr, ws) = ?acc (done @ b # bs)"
    proof -
      have "length (worker_writers tj base (done @ [b]) i) \<le> length (worker_writers tj base (done @ b # bs) i)" for i
        by (simp add: worker_writers_def)
      with True show ?thesis by (auto intro: order_trans)
    qed
    finally show ?thesis by auto
  qed
qed

text \<open>
  The merge of a team's branches succeeds exactly when every branch has kept the request,
  the planner, the reviewer and the number of workers, and no worker was changed by two
  branches; then each worker is as the branch that changed it left it, or as it was.
\<close>

lemma team_merge_spec:
  "team_merge tj base bs = Inr m \<longleftrightarrow>
     is_ok (team_to_value tj (team_snapshot base)) \<and> list_all (same_team tj base) bs
     \<and> list_all (\<lambda>i. length (worker_writers tj base bs i) \<le> 1) [0..<length (tm_workers base)]
     \<and> m = base\<lparr>tm_workers := map (merged_worker tj base bs) [0..<length (tm_workers base)]\<rparr>"
proof (cases "team_to_value tj (team_snapshot base)")
  case (Inl e)
  then show ?thesis by (simp add: team_merge_def)
next
  case (Inr u)
  let ?n = "length (tm_workers base)"
  have start: "(replicate ?n False, tm_workers base)
      = (map (\<lambda>i. worker_writers tj base [] i \<noteq> []) [0..<?n], map (merged_worker tj base []) [0..<?n])"
    by (auto simp: worker_writers_def merged_worker_def map_replicate_const intro!: nth_equalityI)
  have "merge_branches tj ?n u bs (replicate ?n False, tm_workers base) = Inr (wr, ws) \<longleftrightarrow>
      (\<forall>b \<in> set bs. same_team tj base b) \<and> (\<forall>i<?n. length (worker_writers tj base bs i) \<le> 1)
      \<and> wr = map (\<lambda>i. worker_writers tj base bs i \<noteq> []) [0..<?n] \<and> ws = map (merged_worker tj base bs) [0..<?n]" for wr ws
    using merge_branches_spec [OF Inr refl, of "[]" bs wr ws] by (simp add: start worker_writers_def)
  note spec = this
  show ?thesis
  proof (cases "merge_branches tj ?n u bs (replicate ?n False, tm_workers base)")
    case (Inl e)
    with spec [of "map (\<lambda>i. worker_writers tj base bs i \<noteq> []) [0..<?n]" "map (merged_worker tj base bs) [0..<?n]"]
    show ?thesis by (auto simp: team_merge_def Inr list_all_iff)
  next
    case inner: (Inr acc)
    obtain wr ws where "acc = (wr, ws)" by fastforce
    with inner spec [of wr ws] show ?thesis by (auto simp: team_merge_def Inr list_all_iff)
  qed
qed

text \<open>
  The merge as an instance of the interface, for the states that are, as JSON, one team: a single
  branch is taken over and unchanged branches leave the base, up to what the JSON shows.
\<close>

lemma is_ok_iff: "is_ok r \<longleftrightarrow> (\<exists>a. r = Inr a)"
  by (cases r) simp_all

definition alike_teams :: "team_json \<Rightarrow> team_state \<Rightarrow> team_state \<Rightarrow> bool" where
  "alike_teams tj a b \<longleftrightarrow> team_to_value tj (team_snapshot a) = team_to_value tj (team_snapshot b)"

lemma same_team_trans: "same_team tj a b \<Longrightarrow> same_team tj a c \<Longrightarrow> same_team tj b c"
  by (auto simp: same_team_def split: sum.splits)

lemma same_team_workers:
  assumes "same_team tj s b" "length ws = length (tm_workers s)"
    and "\<And>i. i < length ws \<Longrightarrow> is_ok (tj_agent tj (agent_snapshot (ws ! i)))"
  shows "same_team tj s (b\<lparr>tm_workers := ws\<rparr>)"
proof -
  from assms(1) obtain u v where u: "team_to_value tj (team_snapshot s) = Inr u"
    and v: "team_to_value tj (team_snapshot b) = Inr v"
    and keys: "list_all (\<lambda>k. value_key v k = value_key u k) [''request'', ''planner'', ''reviewer'']"
    by (auto simp: same_team_def split: sum.splits)
  have "\<forall>i < length ws. \<exists>j. tj_agent tj (agent_snapshot (ws ! i)) = Inr j"
    using assms(3) by (auto simp: is_ok_iff)
  then obtain f where "\<And>i. i < length ws \<Longrightarrow> tj_agent tj (agent_snapshot (ws ! i)) = Inr (f i)" by metis
  then have "traverse (tj_agent tj) (map agent_snapshot ws) = Inr (map f [0..<length ws])"
    by (simp add: traverse_Inr list_all2_conv_all_nth)
  then have "team_to_value tj (team_snapshot (b\<lparr>tm_workers := ws\<rparr>)) = Inr (JObject [(''planner'', value_key v ''planner''),
      (''request'', value_key v ''request''), (''reviewer'', value_key v ''reviewer''), (''workers'', JArray (map f [0..<length ws]))])"
    using team_to_value_Inr [OF v] by (simp add: team_to_value_def team_snapshot_def)
  then show ?thesis using u keys assms(2) by (simp add: same_team_def value_key_def)
qed

lemma alike_teams_iff:
  assumes "same_team tj s a" "same_team tj s b"
  shows "alike_teams tj a b \<longleftrightarrow> (\<forall>i < length (tm_workers s). worker_value tj a i = worker_value tj b i)"
proof -
  have "\<exists>u ws. team_to_value tj (team_snapshot s) = Inr u
      \<and> team_to_value tj (team_snapshot c) = Inr (JObject [(''planner'', value_key u ''planner''), (''request'', value_key u ''request''),
           (''reviewer'', value_key u ''reviewer''), (''workers'', JArray ws)])
      \<and> traverse (tj_agent tj) (map agent_snapshot (tm_workers c)) = Inr ws \<and> length (tm_workers c) = length (tm_workers s)"
    if "same_team tj s c" for c
    using that
    by (auto simp: same_team_def team_to_value_def team_snapshot_def value_key_def split: sum.splits)
  from this [OF assms(1)] this [OF assms(2)] obtain u wa wb where
    va: "team_to_value tj (team_snapshot a) = Inr (JObject [(''planner'', value_key u ''planner''), (''request'', value_key u ''request''),
           (''reviewer'', value_key u ''reviewer''), (''workers'', JArray wa)])"
    and vb: "team_to_value tj (team_snapshot b) = Inr (JObject [(''planner'', value_key u ''planner''), (''request'', value_key u ''request''),
           (''reviewer'', value_key u ''reviewer''), (''workers'', JArray wb)])"
    and ws: "list_all2 (\<lambda>x j. tj_agent tj (agent_snapshot x) = Inr j) (tm_workers a) wa" "length (tm_workers a) = length (tm_workers s)"
      "list_all2 (\<lambda>x j. tj_agent tj (agent_snapshot x) = Inr j) (tm_workers b) wb" "length (tm_workers b) = length (tm_workers s)"
    by (auto simp: traverse_Inr list_all2_map1)
  from ws have "wa = wb \<longleftrightarrow> (\<forall>i < length (tm_workers s). worker_value tj a i = worker_value tj b i)"
    by (auto simp: list_all2_conv_all_nth worker_value_def list_eq_iff_nth_eq)
  then show ?thesis by (simp add: alike_teams_def va vb)
qed

lemma same_team_ok:
  assumes "same_team tj s b" "i < length (tm_workers s)"
  shows "is_ok (worker_value tj b i)"
proof -
  from assms obtain v where "team_to_value tj (team_snapshot b) = Inr v" "length (tm_workers b) = length (tm_workers s)"
    by (auto simp: same_team_def split: sum.splits)
  with assms(2) team_to_value_Inr(4) show ?thesis by fastforce
qed

lemma same_team_length: "same_team tj s b \<Longrightarrow> length (tm_workers b) = length (tm_workers s)"
  by (auto simp: same_team_def split: sum.splits)

lemma merged_worker_cases: "merged_worker tj base bs i \<in> (\<lambda>b. tm_workers b ! i) ` insert base (set bs)"
proof -
  have "set (worker_writers tj base bs i) \<subseteq> set bs" by (auto simp: worker_writers_def)
  then show ?thesis by (auto simp: merged_worker_def split: list.splits)
qed

lemma team_merge_same_team:
  assumes "same_team tj s base" "\<forall>b \<in> set bs. same_team tj s b" "team_merge tj base bs = Inr m"
  shows "same_team tj s m"
proof -
  let ?n = "length (tm_workers s)"
  have n: "length (tm_workers base) = ?n" using same_team_length [OF assms(1)] .
  have m: "m = base\<lparr>tm_workers := map (merged_worker tj base bs) [0..<?n]\<rparr>"
    using assms(3) by (simp add: team_merge_spec n)
  have "is_ok (tj_agent tj (agent_snapshot (merged_worker tj base bs i)))" if "i < ?n" for i
    using merged_worker_cases [of tj base bs i] assms(1,2) same_team_ok [OF _ that] by (auto simp: worker_value_def)
  then show ?thesis unfolding m by (intro same_team_workers assms(1)) simp_all
qed

lemma team_merge_single:
  assumes "same_team tj s base" "same_team tj s b"
  shows "\<exists>m. team_merge tj base [b] = Inr m \<and> same_team tj s m \<and> alike_teams tj m b"
proof -
  let ?n = "length (tm_workers s)"
  have n: "length (tm_workers base) = ?n" using same_team_length [OF assms(1)] .
  have ok: "is_ok (team_to_value tj (team_snapshot base))"
    using assms(1) by (auto simp: same_team_def split: sum.splits)
  obtain m where m: "team_merge tj base [b] = Inr m"
    "m = base\<lparr>tm_workers := map (merged_worker tj base [b]) [0..<?n]\<rparr>"
    using ok same_team_trans [OF assms] by (auto simp: team_merge_spec n list_all_iff worker_writers_def)
  have same: "same_team tj s m" using team_merge_same_team [OF assms(1) _ m(1)] assms(2) by simp
  have "worker_value tj m i = worker_value tj b i" if "i < ?n" for i
    using that by (auto simp: m(2) worker_value_def merged_worker_def worker_writers_def changed_worker_def)
  then show ?thesis using m(1) same alike_teams_iff [OF same assms(2)] by blast
qed

lemma team_merge_unchanged:
  assumes "same_team tj s base" "set bs \<subseteq> {base}"
  shows "team_merge tj base bs = Inr base"
proof -
  have ok: "is_ok (team_to_value tj (team_snapshot base))"
    using assms(1) by (auto simp: same_team_def split: sum.splits)
  have "same_team tj base b" if "b \<in> set bs" for b using assms same_team_trans [OF assms(1) assms(1)] that by auto
  moreover have none: "worker_writers tj base bs i = []" for i
    using assms(2) by (auto simp: worker_writers_def changed_worker_def filter_empty_conv)
  moreover have "map (merged_worker tj base bs) [0..<length (tm_workers base)] = tm_workers base"
    by (rule nth_equalityI) (simp_all add: merged_worker_def none)
  ultimately show ?thesis using ok by (simp add: team_merge_spec list_all_iff)
qed

interpretation team_branches: merge_strategy "team_merge tj" "alike_teams tj" "same_team tj s" for tj s
proof (unfold_locales, goal_cases)
  case (1 base b)
  then show ?case by (rule team_merge_single)
next
  case (2 base bs)
  then show ?case using team_merge_unchanged by (auto simp: alike_teams_def)
next
  case (3 base bs m)
  then show ?case by (rule team_merge_same_team)
qed

section \<open>The graph of a team\<close>

lemma bad_names_iff: "bad_names seen ns \<longleftrightarrow> \<not> (list_all (\<lambda>n. n \<noteq> []) ns \<and> distinct ns \<and> set ns \<inter> set seen = {})"
  by (induction ns arbitrary: seen) auto

text \<open>The graphs are accepted by the builder, so the errors of \<open>team_built\<close> never arise.\<close>

lemma build_ok: "hm_ok (gb_nodes b) \<Longrightarrow> builder_wf b \<Longrightarrow> \<exists>g. build b = Inr g"
  using build_spec [of b] by (auto split: sum.splits)

lemmas team_builder_defs = worker_builder_def team_builder_def builder_node_def builder_end_def builder_start_def builder_new_def
  builder_edge_def Let_def

definition worker_graph :: "('w \<Rightarrow> nat \<Rightarrow> nat list) \<Rightarrow> nat \<Rightarrow> string \<Rightarrow> 'w tool_use_loop \<Rightarrow> 'w team_graph" where
  "worker_graph schedule i name agent = projr (build (worker_builder schedule i name agent))"

lemma build_worker_graph: "build (worker_builder schedule i name agent) = Inr (worker_graph schedule i name agent)"
proof -
  obtain g where "build (worker_builder schedule i name agent) = Inr g"
    using build_ok [of "worker_builder schedule i name agent"] by (auto simp: team_builder_defs builder_wf_def)
  then show ?thesis by (simp add: worker_graph_def)
qed

lemma worker_graph_simps [simp]:
  "g_nodes (worker_graph schedule i name agent) = [(''agent'', Subgraph (role schedule agent (WorkerRole i)))]"
  "g_start (worker_graph schedule i name agent) = ''agent''" "g_end (worker_graph schedule i name agent) = ''agent''"
  using build_InrD' [OF build_worker_graph, of schedule i name agent] by (auto simp: team_builder_defs)

definition team_branches ::
  "('w \<Rightarrow> nat \<Rightarrow> nat list) \<Rightarrow> (string \<times> 'w tool_use_loop) list
   \<Rightarrow> (string \<times> (team_state, team_mutation, agent_chunk, 'w) flow_node) list" where
  "team_branches schedule workers =
     map (\<lambda>(i, name, agent). (name, graph_branch (team_env schedule) (worker_graph schedule i name agent) 1)) (List.enumerate 0 workers)"

lemma traverse_worker_branches:
  "traverse (worker_branch x schedule) (List.enumerate 0 workers) = Inr (team_branches schedule workers)"
  unfolding traverse_Inr team_branches_def
  by (simp add: list_all2_map2 list_all2_refl worker_branch_def team_built_def build_worker_graph split_beta)

definition team_graph_of ::
  "('w \<Rightarrow> nat \<Rightarrow> nat list) \<Rightarrow> team_json \<Rightarrow> 'w tool_use_loop \<Rightarrow> (string \<times> 'w tool_use_loop) list \<Rightarrow> 'w tool_use_loop \<Rightarrow> bool \<Rightarrow> 'w team_graph" where
  "team_graph_of schedule tj planner workers reviewer hr =
     projr (build (team_builder schedule tj planner workers reviewer hr (team_branches schedule workers)))"

text \<open>What the builder holds.\<close>

lemma team_builder_parts:
  "gb_nodes (team_builder schedule tj planner workers reviewer hr branches) =
     [(''planner'', Subgraph (role schedule planner PlannerRole)),
      (''prepare_workers'', Task (prepare_workers (map (tl_config \<circ> snd) workers))),
      (''workers'', Parallel \<lparr>pn_branches = branches, pn_strategy = CollectAll, pn_merge = team_merge tj\<rparr>),
      (''prepare_review'', Task (prepare_review (tl_config reviewer) (map fst workers))),
      (''reviewer'', Subgraph (role schedule reviewer ReviewerRole))]
     @ (if hr then [(''human_review'', Barrier (barrier_new ''human_review''))] else [])"
  "gb_edges (team_builder schedule tj planner workers reviewer hr branches) =
     map (\<lambda>(a, b). \<lparr>e_from = a, e_to = b, e_condition = None, e_analysis = None, e_fallback = False\<rparr>)
       ([(''planner'', ''prepare_workers''), (''prepare_workers'', ''workers''), (''workers'', ''prepare_review''),
         (''prepare_review'', ''reviewer'')] @ (if hr then [(''reviewer'', ''human_review'')] else []))"
  "gb_start (team_builder schedule tj planner workers reviewer hr branches) = Some ''planner''"
  "gb_end (team_builder schedule tj planner workers reviewer hr branches) = Some (if hr then ''human_review'' else ''reviewer'')"
  by (simp_all add: team_builder_defs)

lemma build_team_graph:
  "build (team_builder schedule tj planner workers reviewer hr (team_branches schedule workers))
     = Inr (team_graph_of schedule tj planner workers reviewer hr)"
proof -
  obtain g where "build (team_builder schedule tj planner workers reviewer hr (team_branches schedule workers)) = Inr g"
    using build_ok [of "team_builder schedule tj planner workers reviewer hr (team_branches schedule workers)"]
    by (cases hr) (auto simp: team_builder_parts builder_wf_def)
  then show ?thesis by (simp add: team_graph_of_def)
qed

lemma team_new_spec:
  "team_new x schedule tj planner workers reviewer hr =
     (if workers \<noteq> [] \<and> list_all (\<lambda>n. n \<noteq> []) (map fst workers) \<and> distinct (map fst workers)
      then Inr \<lparr>pw_graph = team_graph_of schedule tj planner workers reviewer hr, pw_planner = planner, pw_worker_count = length workers\<rparr>
      else Inl (StateText ''expected at least one worker with unique, nonempty names''))"
  by (auto simp: team_new_def bad_names_iff traverse_worker_branches team_built_def build_team_graph)

lemmas team_graph_parts = build_InrD' [OF build_team_graph, unfolded team_builder_parts]

lemma team_graph_ends [simp]:
  "g_start (team_graph_of schedule tj planner workers reviewer hr) = ''planner''"
  "g_end (team_graph_of schedule tj planner workers reviewer hr) = (if hr then ''human_review'' else ''reviewer'')"
  using team_graph_parts [of schedule tj planner workers reviewer hr] by (simp_all only: option.inject)

definition workers_node ::
  "('w \<Rightarrow> nat \<Rightarrow> nat list) \<Rightarrow> team_json \<Rightarrow> (string \<times> 'w tool_use_loop) list \<Rightarrow> (team_state, team_mutation, agent_chunk, 'w) parallel_node" where
  "workers_node schedule tj workers =
     \<lparr>pn_branches = team_branches schedule workers, pn_strategy = CollectAll, pn_merge = team_merge tj\<rparr>"

lemma team_graph_nodes:
  "hm_get (g_nodes (team_graph_of schedule tj planner workers reviewer hr)) n =
     (if n = ''planner'' then Some (Subgraph (role schedule planner PlannerRole))
      else if n = ''prepare_workers'' then Some (Task (prepare_workers (map (tl_config \<circ> snd) workers)))
      else if n = ''workers'' then Some (Parallel (workers_node schedule tj workers))
      else if n = ''prepare_review'' then Some (Task (prepare_review (tl_config reviewer) (map fst workers)))
      else if n = ''reviewer'' then Some (Subgraph (role schedule reviewer ReviewerRole))
      else if n = ''human_review'' \<and> hr then Some (Barrier (barrier_new ''human_review'')) else None)"
  using team_graph_parts [of schedule tj planner workers reviewer hr] by (simp add: workers_node_def)

lemma team_graph_routes:
  "resolve_next_inline (team_graph_of schedule tj planner workers reviewer hr) ''planner'' s = Inr ''prepare_workers''"
  "resolve_next_inline (team_graph_of schedule tj planner workers reviewer hr) ''prepare_workers'' s = Inr ''workers''"
  "resolve_next_inline (team_graph_of schedule tj planner workers reviewer hr) ''workers'' s = Inr ''prepare_review''"
  "resolve_next_inline (team_graph_of schedule tj planner workers reviewer hr) ''prepare_review'' s = Inr ''reviewer''"
  using team_graph_parts [of schedule tj planner workers reviewer hr]
  by (simp_all add: resolve_next_inline_def resolve_next_def edges_from_def ok_or_def edge_fires_def
      is_normal_def is_conditional_def)

section \<open>A run of a team\<close>

text \<open>A role's run on a state, and the states it can end in.\<close>

definition role_run where
  "role_run schedule t s w cancelled =
     run_inline (agent_env schedule) (tl_graph t) no_sinks (role_budget (tl_config t)) (inner_run_state w s cancelled)"

definition finishes :: "('w \<Rightarrow> nat \<Rightarrow> nat list) \<Rightarrow> 'w tool_use_loop \<Rightarrow> agent_state \<Rightarrow> agent_state \<Rightarrow> bool" where
  "finishes schedule t s s' \<longleftrightarrow> (\<exists>w cancelled rs. role_run schedule t s w cancelled = (None, rs) \<and> eng_state (rs_engine rs) = s')"

lemma role_execute:
  "subgraph_node_execute (role schedule t r) rs =
     (case role_run schedule t (lens_get (lens_of_role r) (eng_state (rs_engine rs))) (rs_world rs) (eng_cancelled (rs_engine rs)) of
        (err, rs') \<Rightarrow> (err, rs\<lparr>rs_world := rs_world rs',
          rs_engine := (rs_engine rs)\<lparr>eng_state := lens_put (lens_of_role r) (eng_state (rs_engine rs')) (eng_state (rs_engine rs)),
            eng_stream := map_option (\<lambda>cs. cs @ emitted rs') (eng_stream (rs_engine rs)),
            eng_cancelled := eng_cancelled (rs_engine rs')\<rparr>\<rparr>))"
  by (simp add: subgraph_node_execute_def role_def subgraph_compile_def role_run_def Let_def split: prod.splits)

text \<open>One step at a node that sets no control.\<close>

lemma quiet_step:
  assumes node: "hm_get (g_nodes g) c = Some node"
    and ex: "exec_node par c node (log_event (NodeStart c (Suc k)) rs) = (res, rs1)"
    and quiet: "eng_control (rs_engine rs1) = control_new"
    and run: "run_loop env par g sk c k mx rs = (None, rs')"
  defines "s \<equiv> apply_batch (re_ops env) (eng_mutations (rs_engine rs1)) (eng_state (rs_engine rs1))"
  shows "res = None" "c = g_end g \<Longrightarrow> eng_state (rs_engine rs') = s"
    "c \<noteq> g_end g \<Longrightarrow> \<exists>n rs2. resolve_next_inline g c s = Inr n \<and> eng_state (rs_engine rs2) = s \<and> clean (rs_engine rs2)
       \<and> run_loop env par g sk n (Suc k) mx rs2 = (None, rs')"
proof -
  have lim: "Suc k \<le> mx" "Suc k \<le> usize_max"
    using run node by (cases rule: loop_step_cases [of env par g sk c k mx]; simp add: run_loop_Stop has_node_def)+
  obtain action signal rs2 where ct: "commit_and_take env (log_event (NodeEnd c (Suc k) True) rs1) = ((action, signal), rs2)"
    by (metis prod.exhaust)
  have act: "action = Next" "signal = None"
    using ct quiet by (auto simp: commit_and_take_def take_control_def control_take_def control_new_def split: prod.splits)
  have rs2: "eng_state (rs_engine rs2) = s" "clean (rs_engine rs2)"
    using ct commit_and_take_simps [of env "log_event (NodeEnd c (Suc k) True) rs1"] by (simp_all add: clean_def s_def)
  have ro: "route g sk c node action signal rs2 = (resolve_next_opt g Next c s, rs2)"
    by (simp add: route_def act rs2)
  note step = loop_step_ran [OF node lim ex ct ro]
  show "res = None" using run step by (cases res) (simp_all add: run_loop_Stop)
  have route: "resolve_next_opt g Next c s = (if c = g_end g then Inr None else map_sum id Some (resolve_next_inline g c s))"
    by (cases "resolve_next_inline g c s") (simp_all add: resolve_next_opt_def)
  have goes: "\<exists>nx rs4. resolve_next_opt g Next c s = Inr nx \<and> rs_engine rs4 = rs_engine rs2
      \<and> (case nx of None \<Rightarrow> rs' = rs4 | Some n \<Rightarrow> run_loop env par g sk n (Suc k) mx rs4 = (None, rs'))"
  proof (cases "resolve_next_opt g Next c s")
    case (Inl e)
    with run step \<open>res = None\<close> show ?thesis by (simp add: run_loop_Stop)
  next
    case (Inr nx)
    obtain r rs4 where em: "emit_checkpoint sk nx (Suc k) rs2 = (r, rs4)" by fastforce
    then have "rs_engine rs4 = rs_engine rs2" by (rule emit_checkpoint_engine)
    with em Inr run step \<open>res = None\<close> show ?thesis
      by (cases r; cases nx) (auto simp: run_loop_Stop run_loop_Continue)
  qed
  show "eng_state (rs_engine rs') = s" if "c = g_end g"
  proof -
    from that route have "resolve_next_opt g Next c s = Inr None" by simp
    with goes rs2 show ?thesis by auto
  qed
  show "\<exists>n rs2. resolve_next_inline g c s = Inr n \<and> eng_state (rs_engine rs2) = s \<and> clean (rs_engine rs2)
       \<and> run_loop env par g sk n (Suc k) mx rs2 = (None, rs')" if "c \<noteq> g_end g"
  proof (cases "resolve_next_inline g c s")
    case (Inl e)
    with goes that show ?thesis by (auto simp: route)
  next
    case (Inr n)
    with goes that obtain rs4 where "rs_engine rs4 = rs_engine rs2" "run_loop env par g sk n (Suc k) mx rs4 = (None, rs')"
      by (auto simp: route)
    with Inr rs2 show ?thesis by (intro exI [of _ n] exI [of _ rs4]) simp
  qed
qed

text \<open>A worker's branch runs the worker on its own position and changes nothing else.\<close>

lemma exec_node_ops_simps [simp]:
  "exec_node_ops [] e = e" "exec_node_ops (n # ns) e = exec_node_ops ns (exec_node_op n e)"
  by (simp_all add: exec_node_ops_def)

lemma exec_emits: "exec_node_ops (map (\<lambda>c. Leaf (Emit c)) cs @ ls) e = exec_node_ops ls (e\<lparr>eng_stream := map_option (\<lambda>xs. xs @ cs) (eng_stream e)\<rparr>)"
proof (induction cs arbitrary: e)
  case Nil
  show ?case by (cases e; cases "eng_stream e") simp_all
next
  case (Cons c cs)
  show ?case
    using Cons.IH [of "exec_leaf_op (Emit c) e"] by (cases "eng_stream e") simp_all
qed

lemma worker_branch_result:
  assumes "branch_spec ops s cancelled (graph_branch (team_env schedule) (worker_graph schedule i name t) 1) w = Inr s'"
  shows "\<exists>a. finishes schedule t (tm_workers s ! i) a \<and> s' = s\<lparr>tm_workers := (tm_workers s)[i := a]\<rparr>"
proof -
  let ?g = "worker_graph schedule i name t"
  obtain err rs where run: "run_inline (team_env schedule) ?g no_sinks 1 (inner_run_state w s cancelled) = (err, rs)" by fastforce
  have err: "err = None" and s': "s' = eng_state (rs_engine rs)"
    using assms run
    by (auto simp: branch_spec_def graph_branch_def exec_emits control_new_def Let_def apply_batch_def
        split: option.splits if_splits)
  have node: "hm_get (g_nodes ?g) ''agent'' = Some (Subgraph (role schedule t (WorkerRole i)))" by simp
  have loop: "run_loop (team_env schedule) (parallel_execute (team_env schedule)) ?g no_sinks ''agent'' 0 1 (inner_run_state w s cancelled)
      = (None, rs)"
    using run err by (simp add: run_inline_def run_inline_from_def run_graph_loop_def split: option.splits)
  obtain e rs0 where inner: "role_run schedule t (tm_workers s ! i) w cancelled = (e, rs0)" by fastforce
  let ?rs = "log_event (NodeStart ''agent'' (Suc 0)) (inner_run_state w s cancelled)"
  obtain rs1 where ex: "exec_node (parallel_execute (team_env schedule)) ''agent'' (Subgraph (role schedule t (WorkerRole i))) ?rs = (e, rs1)"
    and rs1: "eng_control (rs_engine rs1) = control_new" "eng_mutations (rs_engine rs1) = []"
      "eng_state (rs_engine rs1) = s\<lparr>tm_workers := (tm_workers s)[i := eng_state (rs_engine rs0)]\<rparr>"
    using inner by (simp add: role_execute inner_run_state_def lens_of_role_def)
  from quiet_step(1,2) [OF node ex rs1(1) loop] inner rs1 show ?thesis
    by (auto simp: s' finishes_def apply_batch_def)
qed

text \<open>What is asked of the JSON of an agent's state: it determines the state, since it can be read back.\<close>

definition json_determines :: "team_json \<Rightarrow> bool" where
  "json_determines tj \<longleftrightarrow> (\<forall>c c'. is_ok (tj_agent tj c) \<longrightarrow> tj_agent tj c = tj_agent tj c' \<longrightarrow> c = c')"

text \<open>The own change of a worker's branch is all that the merge finds in it.\<close>

lemma merged_own_workers:
  assumes merge: "team_merge tj base (map (\<lambda>i. base\<lparr>tm_workers := (tm_workers base)[i := a i]\<rparr>) [0..<length (tm_workers base)]) = Inr m"
    and inj: "json_determines tj"
  shows "m = base\<lparr>tm_workers := map a [0..<length (tm_workers base)]\<rparr>"
proof -
  let ?n = "length (tm_workers base)" and ?f = "\<lambda>i. base\<lparr>tm_workers := (tm_workers base)[i := a i]\<rparr>"
  from merge have same: "same_team tj base (?f i)" if "i < ?n" for i using that by (simp add: team_merge_spec list_all_iff)
  have worker: "merged_worker tj base (map ?f [0..<?n]) i = a i" if i: "i < ?n" for i
  proof -
    have "changed_worker tj base i (?f j) \<longleftrightarrow> j = i \<and> changed_worker tj base i (?f i)" if "j < ?n" for j
      using that i by (cases "j = i") (simp_all add: changed_worker_def worker_value_def)
    then have "worker_writers tj base (map ?f [0..<?n]) i = map ?f (filter (\<lambda>j. j = i \<and> changed_worker tj base i (?f i)) [0..<?n])"
      unfolding worker_writers_def filter_map by (intro arg_cong [where f = "map ?f"] filter_cong) (auto simp: comp_def)
    moreover have "filter (\<lambda>j. j = i) [0..<?n] = [i]"
    proof -
      have "[0..<?n] = [0..<i] @ i # [Suc i..<?n]"
        using i by (metis le_add_same_cancel1 less_imp_add_positive upt_add_eq_append upt_conv_Cons zero_le)
      then show ?thesis by (simp del: upt_Suc)
    qed
    ultimately have writers: "worker_writers tj base (map ?f [0..<?n]) i = (if changed_worker tj base i (?f i) then [?f i] else [])"
      by simp
    show ?thesis
    proof (cases "changed_worker tj base i (?f i)")
      case True
      with writers i show ?thesis by (simp add: merged_worker_def)
    next
      case False
      then have eq: "tj_agent tj (agent_snapshot (a i)) = tj_agent tj (agent_snapshot (tm_workers base ! i))"
        using i by (simp add: changed_worker_def worker_value_def)
      moreover have "is_ok (tj_agent tj (agent_snapshot (a i)))"
        using same_team_ok [OF same [OF i] i] i by (simp add: worker_value_def)
      ultimately have "agent_snapshot (a i) = agent_snapshot (tm_workers base ! i)" using inj by (simp add: json_determines_def)
      then have "a i = tm_workers base ! i" by (metis agent_restore_snapshot)
      with writers False show ?thesis by (simp add: merged_worker_def)
    qed
  qed
  then have "map (merged_worker tj base (map ?f [0..<?n])) [0..<?n] = map a [0..<?n]" by simp
  with merge show ?thesis by (simp add: team_merge_spec)
qed

lemma workers_execute:
  fixes rs :: "(team_state, team_mutation, agent_chunk, 'w) run_state"
  assumes run: "parallel_execute (team_env schedule) (workers_node schedule tj workers) rs = (res, rs1)"
    and inj: "json_determines tj"
    and n: "length (tm_workers (eng_state (rs_engine rs))) = length workers"
  shows "eng_control (rs_engine rs1) = eng_control (rs_engine rs)" "eng_mutations (rs_engine rs1) = eng_mutations (rs_engine rs)"
    "res = None \<Longrightarrow> \<exists>ws. list_all2 (\<lambda>((name, t), s) s'. finishes schedule t s s') (zip workers (tm_workers (eng_state (rs_engine rs)))) ws
       \<and> eng_state (rs_engine rs1) = (eng_state (rs_engine rs))\<lparr>tm_workers := ws\<rparr>"
proof -
  let ?base = "eng_state (rs_engine rs)" and ?n = "length workers"
  let ?order = "completion_order (schedule (rs_world rs) ?n) ?n"
  let ?bs = "scheduled_branches (schedule (rs_world rs) ?n) (team_branches schedule workers)"
  have len: "length (team_branches schedule workers) = ?n" by (simp add: team_branches_def)
  obtain outs rs0 where branches: "run_branches (team_env schedule) CollectAll ?base (eng_cancelled (rs_engine rs)) ?bs rs = (outs, rs0)"
    by fastforce
  have result: "parallel_execute (team_env schedule) (workers_node schedule tj workers) rs =
      (case parallel_verdict CollectAll (team_merge tj) ?base (collect outs) of
         Inl e \<Rightarrow> (Some e, rs0) | Inr merged \<Rightarrow> (None, rs0\<lparr>rs_engine := (rs_engine rs0)\<lparr>eng_state := merged\<rparr>\<rparr>))"
    using branches by (simp add: parallel_execute_def workers_node_def team_env_def Let_def len)
  note each = run_branches_each [OF branches]
  show "eng_control (rs_engine rs1) = eng_control (rs_engine rs)" "eng_mutations (rs_engine rs1) = eng_mutations (rs_engine rs)"
    using run each by (auto simp: result split: sum.splits)
  assume "res = None"
  with run obtain m where verdict: "parallel_verdict CollectAll (team_merge tj) ?base (collect outs) = Inr m"
    and rs1: "eng_state (rs_engine rs1) = m"
    by (auto simp: result split: sum.splits)
  have branch: "team_branches schedule workers ! i = (fst (workers ! i), graph_branch (team_env schedule) (worker_graph schedule i (fst (workers ! i)) (snd (workers ! i))) 1)"
    if "i < ?n" for i
    using that by (simp add: team_branches_def nth_enumerate_eq split_beta)
  from verdict have oks: "list_all (\<lambda>(_, _, out). is_ok out) outs"
    and merge: "team_merge tj ?base (map snd (sort_key fst (co_states (collect outs)))) = Inr m"
    by (simp_all add: parallel_verdict_Inr)
  have bs: "?bs = map (\<lambda>i. (i, team_branches schedule workers ! i)) ?order" by (simp add: scheduled_branches_def len)
  have keys: "map fst outs = ?order"
    using each by (auto simp: bs list_all2_conv_all_nth split_beta intro!: nth_equalityI)
  have entry: "\<exists>s'. finishes schedule (snd (workers ! i)) (tm_workers ?base ! i) s'
      \<and> out = Inr (?base\<lparr>tm_workers := (tm_workers ?base)[i := s']\<rparr>) \<and> name = fst (workers ! i) \<and> i < ?n"
    if "(i, name, out) \<in> set outs" for i name out
  proof -
    from that obtain k where k: "k < length outs" "outs ! k = (i, name, out)" by (meson in_set_conv_nth)
    moreover have "length outs = length ?order" using keys by (metis length_map)
    ultimately have i: "?order ! k = i" "k < length ?order" using keys by (metis fst_conv nth_map, simp)
    then have "i < ?n" using nth_mem [of k ?order] by simp
    have "\<exists>c w. out = branch_spec team_ops ?base c (snd (team_branches schedule workers ! i)) w \<and> name = fst (team_branches schedule workers ! i)"
      using list_all2_nthD [OF conjunct1 [OF each], of k] k i by (simp add: bs team_env_def split_beta)
    moreover have "is_ok out" using oks that by (auto simp: list_all_iff)
    ultimately show ?thesis
      using worker_branch_result [of team_ops ?base _ schedule i "fst (workers ! i)" "snd (workers ! i)"] branch [OF \<open>i < ?n\<close>] \<open>i < ?n\<close>
      by (fastforce simp: is_ok_iff)
  qed
  define a where "a i = tm_workers (projr (snd (the (map_of outs i)))) ! i" for i
  have dist: "distinct (map fst outs)" by (simp add: keys)
  have a: "finishes schedule (snd (workers ! i)) (tm_workers ?base ! i) (a i)
      \<and> out = Inr (?base\<lparr>tm_workers := (tm_workers ?base)[i := a i]\<rparr>) \<and> name = fst (workers ! i)"
    if "(i, name, out) \<in> set outs" for i name out
    using entry [OF that] map_of_is_SomeI [OF dist that] n by (auto simp: a_def)
  have outs: "outs = map (\<lambda>(i, name, _). (i, name, Inr (?base\<lparr>tm_workers := (tm_workers ?base)[i := a i]\<rparr>))) ?bs"
  proof (rule nth_equalityI)
    show len_outs: "length outs = length (map (\<lambda>(i, name, _). (i, name, Inr (?base\<lparr>tm_workers := (tm_workers ?base)[i := a i]\<rparr>))) ?bs)"
      using list_all2_lengthD [OF conjunct1 [OF each]] by simp
    fix k assume k: "k < length outs"
    then have k': "k < length ?order" using len_outs by (simp add: bs)
    obtain i name out where o: "outs ! k = (i, name, out)" by (metis prod_cases3)
    have i: "i = ?order ! k" using keys k o by (metis fst_conv nth_map)
    have "i < ?n" using nth_mem [OF k'] i by simp
    with a [of i name out] branch [OF this] o k nth_mem [OF k] i k'
    show "outs ! k = map (\<lambda>(i, name, _). (i, name, Inr (?base\<lparr>tm_workers := (tm_workers ?base)[i := a i]\<rparr>))) ?bs ! k"
      by (simp add: bs)
  qed
  show "\<exists>ws. list_all2 (\<lambda>((name, t), s) s'. finishes schedule t s s') (zip workers (tm_workers ?base)) ws
       \<and> eng_state (rs_engine rs1) = ?base\<lparr>tm_workers := ws\<rparr>"
  proof (intro exI conjI)
    have "map snd (sort_key fst (co_states (collect outs))) = map (\<lambda>i. ?base\<lparr>tm_workers := (tm_workers ?base)[i := a i]\<rparr>) [0..<?n]"
      unfolding outs collect_success by (simp add: bs collect_empty_def comp_def split_beta sort_completion_order)
    with merge merged_own_workers [OF _ inj, of ?base a m] n show "eng_state (rs_engine rs1) = ?base\<lparr>tm_workers := map a [0..<?n]\<rparr>"
      by (simp add: rs1)
    have "finishes schedule (snd (workers ! i)) (tm_workers ?base ! i) (a i)" if "i < ?n" for i
    proof -
      have "i \<in> set (map fst outs)" using that by (simp add: keys)
      then obtain name out where "(i, name, out) \<in> set outs" by fastforce
      with a show ?thesis by blast
    qed
    with n show "list_all2 (\<lambda>((name, t), s) s'. finishes schedule t s s') (zip workers (tm_workers ?base)) (map a [0..<?n])"
      by (simp add: list_all2_conv_all_nth split_beta)
  qed
qed

lemma role_step:
  assumes node: "hm_get (g_nodes g) c = Some (Subgraph (role schedule t r))"
    and run: "run_loop (team_env schedule) par g sk c k mx rs = (None, rs')" and cl: "clean (rs_engine rs)"
  obtains a where "finishes schedule t (lens_get (lens_of_role r) (eng_state (rs_engine rs))) a"
    "c = g_end g \<Longrightarrow> eng_state (rs_engine rs') = lens_put (lens_of_role r) a (eng_state (rs_engine rs))"
    "c \<noteq> g_end g \<Longrightarrow> \<exists>n rs2. resolve_next_inline g c (lens_put (lens_of_role r) a (eng_state (rs_engine rs))) = Inr n
       \<and> eng_state (rs_engine rs2) = lens_put (lens_of_role r) a (eng_state (rs_engine rs)) \<and> clean (rs_engine rs2)
       \<and> run_loop (team_env schedule) par g sk n (Suc k) mx rs2 = (None, rs')"
proof -
  obtain e rs0 where inner: "role_run schedule t (lens_get (lens_of_role r) (eng_state (rs_engine rs))) (rs_world rs) (eng_cancelled (rs_engine rs)) = (e, rs0)"
    by fastforce
  obtain rs1 where ex: "exec_node par c (Subgraph (role schedule t r)) (log_event (NodeStart c (Suc k)) rs) = (e, rs1)"
    and rs1: "eng_control (rs_engine rs1) = control_new" "eng_mutations (rs_engine rs1) = []"
      "eng_state (rs_engine rs1) = lens_put (lens_of_role r) (eng_state (rs_engine rs0)) (eng_state (rs_engine rs))"
    using inner cl by (simp add: role_execute clean_def)
  note step = quiet_step [OF node ex rs1(1) run]
  have "finishes schedule t (lens_get (lens_of_role r) (eng_state (rs_engine rs))) (eng_state (rs_engine rs0))"
    using inner step(1) by (auto simp: finishes_def)
  then show ?thesis using step(2,3) rs1 by (intro that) (simp_all add: apply_batch_def)
qed

lemma task_step:
  assumes node: "hm_get (g_nodes g) c = Some (Task f)" and "c \<noteq> g_end g"
    and run: "run_loop (team_env schedule) par g sk c k mx rs = (None, rs')" and cl: "clean (rs_engine rs)"
    and f: "f (rs_world rs) (eng_state (rs_engine rs)) (eng_cancelled (rs_engine rs)) = (w, ops, e)"
    and ops: "ops = (if e = None then [Leaf (Record m)] else [])"
  shows "e = None \<and> (\<exists>n rs2. resolve_next_inline g c (team_apply m (eng_state (rs_engine rs))) = Inr n
       \<and> eng_state (rs_engine rs2) = team_apply m (eng_state (rs_engine rs)) \<and> clean (rs_engine rs2)
       \<and> run_loop (team_env schedule) par g sk n (Suc k) mx rs2 = (None, rs'))"
proof -
  obtain rs1 where ex: "exec_node par c (Task f) (log_event (NodeStart c (Suc k)) rs) = (e, rs1)"
    and rs1: "rs_engine rs1 = exec_node_ops ops (rs_engine rs)"
    using f by (simp add: run_node_fn_def)
  have quiet: "eng_control (rs_engine rs1) = control_new" using rs1 ops cl by (cases e) (simp_all add: clean_def)
  note step = quiet_step [OF node ex quiet run]
  have e: "e = None" by (rule step(1))
  have "apply_batch (re_ops (team_env schedule)) (eng_mutations (rs_engine rs1)) (eng_state (rs_engine rs1)) = team_apply m (eng_state (rs_engine rs))"
    using rs1 ops e cl by (simp add: apply_batch_def team_env_def team_ops_def clean_def)
  with step(3) assms(2) e show ?thesis by simp
qed

lemma review_prompt_cong:
  "tm_planner a = tm_planner b \<Longrightarrow> tm_workers a = tm_workers b \<Longrightarrow> review_prompt names a = review_prompt names b"
  by (simp only: review_prompt_def)

lemma prepare_workers_cases:
  assumes "prepare_workers configs w s cancelled = (w', ops, e)"
  obtains plan sts where "e = None \<Longrightarrow> output_text (tm_planner s) = Inr plan
      \<and> traverse (\<lambda>c. role_messages c (tm_request s @ [user_text (worker_prompt plan)])) configs = Inr sts"
    "ops = (if e = None then [Leaf (Record (Workers sts))] else [])"
proof (cases "e = None")
  case True
  with assms that show ?thesis by (auto simp: prepare_workers_def split: sum.splits)
next
  case False
  with assms that show ?thesis by (auto simp: prepare_workers_def split: sum.splits)
qed

lemma prepare_review_cases:
  assumes "prepare_review config names w s cancelled = (w', ops, e)"
  obtains report start where "e = None \<Longrightarrow> review_prompt names s = Inr report
      \<and> role_messages config (tm_request s @ [user_text report]) = Inr start"
    "ops = (if e = None then [Leaf (Record (Reviewer start))] else [])"
proof (cases "e = None")
  case True
  with assms that show ?thesis by (auto simp: prepare_review_def split: sum.splits)
next
  case False
  with assms that show ?thesis by (auto simp: prepare_review_def split: sum.splits)
qed

lemma team_run_outcome:
  assumes new: "team_new x schedule tj planner workers reviewer False = Inr team"
    and initial: "initial_state team request = Inr s0"
    and run: "run_inline (team_env schedule) (pw_graph team) sk mx rs = (None, rs')"
    and cl: "clean (rs_engine rs)" and s0: "eng_state (rs_engine rs) = s0"
    and inj: "json_determines tj"
  shows "\<exists>p plan ws report start r.
     finishes schedule planner (tm_planner s0) p \<and> output_text p = Inr plan
     \<and> list_all2 (\<lambda>(name, t) s. \<exists>st. role_messages (tl_config t) (request @ [user_text (worker_prompt plan)]) = Inr st
         \<and> finishes schedule t st s) workers ws
     \<and> review_prompt (map fst workers) (eng_state (rs_engine rs')) = Inr report
     \<and> role_messages (tl_config reviewer) (request @ [user_text report]) = Inr start \<and> finishes schedule reviewer start r
     \<and> eng_state (rs_engine rs') = \<lparr>tm_request = request, tm_planner = p, tm_workers = ws, tm_reviewer = r\<rparr>"
proof -
  let ?par = "parallel_execute (team_env schedule)" and ?g = "team_graph_of schedule tj planner workers reviewer False"
  have g: "pw_graph team = ?g" "pw_worker_count team = length workers" using new by (auto simp: team_new_spec split: if_splits)
  have req: "tm_request s0 = request" using initial by (auto simp: initial_state_def split: sum.splits)
  from run have loop: "run_loop (team_env schedule) ?par ?g sk ''planner'' 0 mx rs = (None, rs')"
    by (auto simp: g run_inline_def run_inline_from_def run_graph_loop_def split: option.splits)
  note nodes = team_graph_nodes [of schedule tj planner workers reviewer False]
  obtain p rs1 where p: "finishes schedule planner (tm_planner s0) p"
    and rs1: "eng_state (rs_engine rs1) = s0\<lparr>tm_planner := p\<rparr>" "clean (rs_engine rs1)"
      "run_loop (team_env schedule) ?par ?g sk ''prepare_workers'' 1 mx rs1 = (None, rs')"
    by (rule role_step [OF _ loop cl, of planner PlannerRole]) (auto simp: nodes s0 team_graph_routes lens_of_role_def)
  obtain w1 ops1 e1 where f1: "prepare_workers (map (tl_config \<circ> snd) workers) (rs_world rs1) (eng_state (rs_engine rs1))
      (eng_cancelled (rs_engine rs1)) = (w1, ops1 :: (team_state, team_mutation, agent_chunk) node_op list, e1)" by (metis prod_cases3)
  obtain plan sts where plan: "e1 = None \<Longrightarrow> output_text p = Inr plan
      \<and> traverse (\<lambda>c. role_messages c (request @ [user_text (worker_prompt plan)])) (map (tl_config \<circ> snd) workers) = Inr sts"
      "ops1 = (if e1 = None then [Leaf (Record (Workers sts))] else [])"
  proof (rule prepare_workers_cases [OF f1])
    fix plan sts
    assume out: "e1 = None \<Longrightarrow> output_text (tm_planner (eng_state (rs_engine rs1))) = Inr plan
        \<and> traverse (\<lambda>c. role_messages c (tm_request (eng_state (rs_engine rs1)) @ [user_text (worker_prompt plan)]))
            (map (tl_config \<circ> snd) workers) = Inr sts"
      and ops: "ops1 = (if e1 = None then [Leaf (Record (Workers sts))] else [])"
    show thesis by (rule that [of plan sts]) (use out ops in \<open>simp_all add: rs1 req\<close>)
  qed
  have "e1 = None \<and> (\<exists>n rs2. resolve_next_inline ?g ''prepare_workers'' (team_apply (Workers sts) (eng_state (rs_engine rs1))) = Inr n
      \<and> eng_state (rs_engine rs2) = team_apply (Workers sts) (eng_state (rs_engine rs1)) \<and> clean (rs_engine rs2)
      \<and> run_loop (team_env schedule) ?par ?g sk n (Suc 1) mx rs2 = (None, rs'))"
    by (rule task_step [where f = "prepare_workers (map (tl_config \<circ> snd) workers)", OF _ _ rs1(3,2) f1 plan(2)]) (simp_all add: nodes)
  then obtain rs2 where e1: "e1 = None" and rs2: "eng_state (rs_engine rs2) = s0\<lparr>tm_planner := p, tm_workers := sts\<rparr>" "clean (rs_engine rs2)"
      "run_loop (team_env schedule) ?par ?g sk ''workers'' 2 mx rs2 = (None, rs')"
    by (auto simp: team_graph_routes rs1 numeral_2_eq_2)
  have sts: "list_all2 (\<lambda>(name, t) st. role_messages (tl_config t) (request @ [user_text (worker_prompt plan)]) = Inr st) workers sts"
    using plan(1) [OF e1] by (auto simp: traverse_Inr list_all2_conv_all_nth split_beta)
  obtain res rs3 where f2: "?par (workers_node schedule tj workers) (log_event (NodeStart ''workers'' (Suc 2)) rs2) = (res, rs3)" by fastforce
  have n: "length (tm_workers (eng_state (rs_engine (log_event (NodeStart ''workers'' (Suc 2)) rs2)))) = length workers"
    using list_all2_lengthD [OF sts] by (simp add: rs2)
  note we = workers_execute [OF f2 inj n]
  have ex2: "exec_node ?par ''workers'' (Parallel (workers_node schedule tj workers)) (log_event (NodeStart ''workers'' (Suc 2)) rs2) = (res, rs3)"
    using f2 by simp
  have node2: "hm_get (g_nodes ?g) ''workers'' = Some (Parallel (workers_node schedule tj workers))" by (simp add: nodes)
  have quiet2: "eng_control (rs_engine rs3) = control_new" using we(1) rs2(2) by (simp add: clean_def)
  note step2 = quiet_step [OF node2 ex2 quiet2 rs2(3)]
  obtain ws where ws: "list_all2 (\<lambda>((name, t), s) s'. finishes schedule t s s') (zip workers sts) ws"
    and s3: "eng_state (rs_engine rs3) = s0\<lparr>tm_planner := p, tm_workers := ws\<rparr>"
    using we(3) [OF step2(1)] by (auto simp: rs2)
  have m3: "eng_mutations (rs_engine rs3) = []" using we(2) rs2(2) by (simp add: clean_def)
  obtain rs4 where rs4: "eng_state (rs_engine rs4) = s0\<lparr>tm_planner := p, tm_workers := ws\<rparr>" "clean (rs_engine rs4)"
      "run_loop (team_env schedule) ?par ?g sk ''prepare_review'' 3 mx rs4 = (None, rs')"
    using step2(3) by (auto simp: team_graph_routes s3 m3 apply_batch_def numeral_3_eq_3 numeral_2_eq_2)
  obtain w3 ops3 e3 where f3: "prepare_review (tl_config reviewer) (map fst workers) (rs_world rs4) (eng_state (rs_engine rs4))
      (eng_cancelled (rs_engine rs4)) = (w3, ops3 :: (team_state, team_mutation, agent_chunk) node_op list, e3)" by (metis prod_cases3)
  obtain report start where review: "e3 = None \<Longrightarrow> review_prompt (map fst workers) (eng_state (rs_engine rs4)) = Inr report
      \<and> role_messages (tl_config reviewer) (request @ [user_text report]) = Inr start"
      "ops3 = (if e3 = None then [Leaf (Record (Reviewer start))] else [])"
  proof (rule prepare_review_cases [OF f3])
    fix report start
    assume out: "e3 = None \<Longrightarrow> review_prompt (map fst workers) (eng_state (rs_engine rs4)) = Inr report
        \<and> role_messages (tl_config reviewer) (tm_request (eng_state (rs_engine rs4)) @ [user_text report]) = Inr start"
      and ops: "ops3 = (if e3 = None then [Leaf (Record (Reviewer start))] else [])"
    show thesis by (rule that [of report start]) (use out ops in \<open>simp_all add: rs4 req\<close>)
  qed
  have "e3 = None \<and> (\<exists>n rs5. resolve_next_inline ?g ''prepare_review'' (team_apply (Reviewer start) (eng_state (rs_engine rs4))) = Inr n
      \<and> eng_state (rs_engine rs5) = team_apply (Reviewer start) (eng_state (rs_engine rs4)) \<and> clean (rs_engine rs5)
      \<and> run_loop (team_env schedule) ?par ?g sk n (Suc 3) mx rs5 = (None, rs'))"
    by (rule task_step [where f = "prepare_review (tl_config reviewer) (map fst workers)", OF _ _ rs4(3,2) f3 review(2)]) (simp_all add: nodes)
  then obtain rs5 where e3: "e3 = None" and rs5: "eng_state (rs_engine rs5) = s0\<lparr>tm_planner := p, tm_workers := ws, tm_reviewer := start\<rparr>"
      "clean (rs_engine rs5)" "run_loop (team_env schedule) ?par ?g sk ''reviewer'' 4 mx rs5 = (None, rs')"
    by (auto simp: team_graph_routes rs4)
  obtain r where r: "finishes schedule reviewer start r"
    and final: "eng_state (rs_engine rs') = s0\<lparr>tm_planner := p, tm_workers := ws, tm_reviewer := r\<rparr>"
    by (rule role_step [OF _ rs5(3,2), of reviewer ReviewerRole]) (auto simp: nodes rs5 lens_of_role_def)
  have "list_all2 (\<lambda>(name, t) s. \<exists>st. role_messages (tl_config t) (request @ [user_text (worker_prompt plan)]) = Inr st
      \<and> finishes schedule t st s) workers ws"
    using sts ws by (auto simp: list_all2_conv_all_nth split_beta)
  moreover have "eng_state (rs_engine rs') = \<lparr>tm_request = request, tm_planner = p, tm_workers = ws, tm_reviewer = r\<rparr>"
    using final req by (cases s0) simp
  moreover have "review_prompt (map fst workers) (eng_state (rs_engine rs')) = Inr report"
    using review(1) [OF e3] review_prompt_cong [of "eng_state (rs_engine rs')" "eng_state (rs_engine rs4)"] by (simp add: final rs4)
  ultimately show ?thesis using p plan(1) [OF e1] review(1) [OF e3] r by blast
qed

end
