(* ===== verification/Mcp_Protocol.thy ===== *)
theory Mcp_Protocol
  imports Checkpoint Durable_Record
begin

text \<open>
  The tool protocol (the crate \<open>lellm-mcp\<close>, \<open>protocol/*.rs\<close>): JSON-RPC messages, the
  methods and their parameters and results, the errors and what a caller may do about them.

  A message is written to a JSON tree and read from one as the derived serialisers do it:
  members in any order, unknown members ignored, a missing or \<open>null\<close> optional member is
  \<open>None\<close>. (The derived code also reads a structure from an array of its members; the model
  refuses that form.)
\<close>

section \<open>Errors\<close>

datatype io_kind = ConnectionReset | ConnectionRefused | BrokenPipe | OtherIo

datatype transport_error =
    TransportDisconnected
  | TransportTimeout
  | DnsFailed string
  | ConnectFailed string
  | TlsFailed string
  | HttpFailed string
  | IoFailed io_kind string
  | UnsupportedOperation string

datatype retry_disposition = NeverRetry | RetryNow | Reconnect | BackoffFirst

record mcp_server_error =
  me_code :: int
  me_message :: string

datatype mcp_error =
    McpTransport transport_error
  | McpProtocol string
  | McpInvalidParams string
  | McpServer mcp_server_error
  | McpMethodNotFound string

fun io_disposition :: "io_kind \<Rightarrow> retry_disposition" where
  "io_disposition OtherIo = BackoffFirst"
| "io_disposition _ = Reconnect"

fun transport_disposition :: "transport_error \<Rightarrow> retry_disposition" where
  "transport_disposition TransportDisconnected = Reconnect"
| "transport_disposition TransportTimeout = RetryNow"
| "transport_disposition (DnsFailed _) = BackoffFirst"
| "transport_disposition (ConnectFailed _) = BackoffFirst"
| "transport_disposition (TlsFailed _) = NeverRetry"
| "transport_disposition (HttpFailed _) = BackoffFirst"
| "transport_disposition (IoFailed k _) = io_disposition k"
| "transport_disposition (UnsupportedOperation _) = NeverRetry"

fun retry_disposition_of :: "mcp_error \<Rightarrow> retry_disposition" where
  "retry_disposition_of (McpTransport t) = transport_disposition t"
| "retry_disposition_of (McpServer e) = (if me_code e = - 32603 then BackoffFirst else NeverRetry)"
| "retry_disposition_of (McpProtocol _) = NeverRetry"
| "retry_disposition_of (McpInvalidParams _) = NeverRetry"
| "retry_disposition_of (McpMethodNotFound _) = NeverRetry"

definition mcp_is_retriable :: "mcp_error \<Rightarrow> bool" where
  "mcp_is_retriable e \<longleftrightarrow> retry_disposition_of e \<noteq> NeverRetry"

definition show_int :: "int \<Rightarrow> string" where
  "show_int i = (if i < 0 then ''-'' else []) @ show_nat (nat \<bar>i\<bar>)"

fun show_transport_error :: "transport_error \<Rightarrow> string" where
  "show_transport_error TransportDisconnected = ''connection disconnected''"
| "show_transport_error TransportTimeout = ''request timeout''"
| "show_transport_error (DnsFailed t) = ''dns resolution failed: '' @ t"
| "show_transport_error (ConnectFailed t) = ''connection failed: '' @ t"
| "show_transport_error (TlsFailed t) = ''tls handshake failed: '' @ t"
| "show_transport_error (HttpFailed t) = ''http transport error: '' @ t"
| "show_transport_error (IoFailed _ t) = t"
| "show_transport_error (UnsupportedOperation t) = ''unsupported transport operation: '' @ t"

definition show_server_error :: "mcp_server_error \<Rightarrow> string" where
  "show_server_error e = ''server error '' @ show_int (me_code e) @ '': '' @ me_message e"

fun show_mcp_error :: "mcp_error \<Rightarrow> string" where
  "show_mcp_error (McpTransport t) = show_transport_error t"
| "show_mcp_error (McpProtocol t) = ''protocol error: '' @ t"
| "show_mcp_error (McpInvalidParams t) = ''invalid params: '' @ t"
| "show_mcp_error (McpServer e) = show_server_error e"
| "show_mcp_error (McpMethodNotFound t) = ''method not found: '' @ t"

abbreviation mcp_disconnected :: mcp_error where "mcp_disconnected \<equiv> McpTransport TransportDisconnected"
abbreviation mcp_timeout :: mcp_error where "mcp_timeout \<equiv> McpTransport TransportTimeout"

text \<open>What the function of a server's tool may fail with.\<close>

datatype mcp_tool_error = ToolInvalidInput string | ToolExecution string

fun show_mcp_tool_error :: "mcp_tool_error \<Rightarrow> string" where
  "show_mcp_tool_error (ToolInvalidInput t) = ''invalid input: '' @ t"
| "show_mcp_tool_error (ToolExecution t) = ''tool execution failed: '' @ t"

section \<open>Reading and writing members\<close>

definition object_of :: "json \<Rightarrow> (string \<times> json) list option" where
  "object_of v = (case v of JObject kvs \<Rightarrow> Some kvs | _ \<Rightarrow> None)"

text \<open>\<open>serde(default)\<close>: the default when the member is missing, and no other value for a present one.\<close>

definition member_or :: "'a \<Rightarrow> (string \<times> json) list \<Rightarrow> string \<Rightarrow> (json \<Rightarrow> 'a option) \<Rightarrow> 'a option" where
  "member_or d kvs k f = (case map_of kvs k of None \<Rightarrow> Some d | Some v \<Rightarrow> f v)"

text \<open>\<open>skip_serializing_if = "Option::is_none"\<close>.\<close>

definition if_some :: "string \<Rightarrow> ('a \<Rightarrow> json) \<Rightarrow> 'a option \<Rightarrow> (string \<times> json) list" where
  "if_some k f x = (case x of None \<Rightarrow> [] | Some v \<Rightarrow> [(k, f v)])"

definition list_of :: "(json \<Rightarrow> 'a option) \<Rightarrow> json \<Rightarrow> 'a list option" where
  "list_of f v = (case v of JArray vs \<Rightarrow> those (map f vs) | _ \<Rightarrow> None)"

definition i32_of :: "json \<Rightarrow> int option" where
  "i32_of v = (case v of JInt i \<Rightarrow> if - (2 ^ 31) \<le> i \<and> i < 2 ^ 31 then Some i else None | _ \<Rightarrow> None)"

section \<open>Messages\<close>

record rpc_request =
  rq_jsonrpc :: string
  rq_id :: nat
  rq_method :: string
  rq_params :: "json option"

record rpc_error =
  re_code :: int
  re_message :: string
  re_data :: "json option"

datatype rpc_result = RpcSuccess json | RpcFailure rpc_error

record rpc_response =
  rs_jsonrpc :: string
  rs_id :: nat
  rs_result :: rpc_result

record rpc_notification =
  nf_jsonrpc :: string
  nf_method :: string
  nf_params :: "json option"

datatype rpc_message = RequestMessage rpc_request | ResponseMessage rpc_response | NotificationMessage rpc_notification

definition request_new :: "nat \<Rightarrow> string \<Rightarrow> json option \<Rightarrow> rpc_request" where
  "request_new i m p = \<lparr>rq_jsonrpc = ''2.0'', rq_id = i, rq_method = m, rq_params = p\<rparr>"

definition request_json :: "rpc_request \<Rightarrow> json" where
  "request_json r = JObject ([(''jsonrpc'', JString (rq_jsonrpc r)), (''id'', nat_json (rq_id r)),
     (''method'', JString (rq_method r))] @ if_some ''params'' (\<lambda>v. v) (rq_params r))"

definition request_of :: "json \<Rightarrow> rpc_request option" where
  "request_of v = do {
     kvs \<leftarrow> object_of v;
     j \<leftarrow> member kvs ''jsonrpc'' json_as_str;
     i \<leftarrow> member kvs ''id'' u64_of;
     m \<leftarrow> member kvs ''method'' json_as_str;
     p \<leftarrow> opt_member kvs ''params'' Some;
     Some \<lparr>rq_jsonrpc = j, rq_id = i, rq_method = m, rq_params = p\<rparr> }"

definition rpc_error_json :: "rpc_error \<Rightarrow> json" where
  "rpc_error_json e = JObject ([(''code'', JInt (re_code e)), (''message'', JString (re_message e))]
     @ if_some ''data'' (\<lambda>v. v) (re_data e))"

definition rpc_error_of :: "json \<Rightarrow> rpc_error option" where
  "rpc_error_of v = do {
     kvs \<leftarrow> object_of v;
     c \<leftarrow> member kvs ''code'' i32_of;
     m \<leftarrow> member kvs ''message'' json_as_str;
     d \<leftarrow> opt_member kvs ''data'' Some;
     Some \<lparr>re_code = c, re_message = m, re_data = d\<rparr> }"

text \<open>\<open>flatten\<close>: the one member of the result stands beside the others.\<close>

fun result_members :: "rpc_result \<Rightarrow> (string \<times> json) list" where
  "result_members (RpcSuccess v) = [(''result'', v)]"
| "result_members (RpcFailure e) = [(''error'', rpc_error_json e)]"

definition result_of :: "(string \<times> json) list \<Rightarrow> rpc_result option" where
  "result_of kvs =
     (case map_of kvs ''result'' of
        Some v \<Rightarrow> Some (RpcSuccess v)
      | None \<Rightarrow> map_option RpcFailure (member kvs ''error'' rpc_error_of))"

definition response_json :: "rpc_response \<Rightarrow> json" where
  "response_json r = JObject ([(''jsonrpc'', JString (rs_jsonrpc r)), (''id'', nat_json (rs_id r))] @ result_members (rs_result r))"

definition response_of :: "json \<Rightarrow> rpc_response option" where
  "response_of v = do {
     kvs \<leftarrow> object_of v;
     j \<leftarrow> member kvs ''jsonrpc'' json_as_str;
     i \<leftarrow> member kvs ''id'' u64_of;
     r \<leftarrow> result_of kvs;
     Some \<lparr>rs_jsonrpc = j, rs_id = i, rs_result = r\<rparr> }"

definition notification_json :: "rpc_notification \<Rightarrow> json" where
  "notification_json n = JObject ([(''jsonrpc'', JString (nf_jsonrpc n)), (''method'', JString (nf_method n))]
     @ if_some ''params'' (\<lambda>v. v) (nf_params n))"

definition notification_of :: "json \<Rightarrow> rpc_notification option" where
  "notification_of v = do {
     kvs \<leftarrow> object_of v;
     j \<leftarrow> member kvs ''jsonrpc'' json_as_str;
     m \<leftarrow> member kvs ''method'' json_as_str;
     p \<leftarrow> opt_member kvs ''params'' Some;
     Some \<lparr>nf_jsonrpc = j, nf_method = m, nf_params = p\<rparr> }"

text \<open>The untagged message: the first form that fits.\<close>

definition message_of :: "json \<Rightarrow> rpc_message option" where
  "message_of v =
     (case request_of v of
        Some r \<Rightarrow> Some (RequestMessage r)
      | None \<Rightarrow>
          (case response_of v of
             Some r \<Rightarrow> Some (ResponseMessage r)
           | None \<Rightarrow> map_option NotificationMessage (notification_of v)))"

datatype notification_kind =
    InitializedNote
  | ToolsListChanged
  | ProgressNote nat "nat option"
  | OtherNote string "json option"

definition kind_of_notification :: "rpc_notification \<Rightarrow> notification_kind" where
  "kind_of_notification n =
     (if nf_method n = ''notifications/initialized'' then InitializedNote
      else if nf_method n = ''notifications/tools/list_changed'' then ToolsListChanged
      else if nf_method n = ''notifications/progress'' then
        (case nf_params n of
           None \<Rightarrow> ProgressNote 0 None
         | Some p \<Rightarrow>
             ProgressNote (case Option.bind (json_get p ''progress'') json_as_u64 of None \<Rightarrow> 0 | Some k \<Rightarrow> k)
               (Option.bind (json_get p ''total'') json_as_u64))
      else OtherNote (nf_method n) (nf_params n))"

section \<open>Parameters and results\<close>

record implementation_info =
  ii_name :: string
  ii_version :: string

definition info_json :: "implementation_info \<Rightarrow> json" where
  "info_json i = JObject [(''name'', JString (ii_name i)), (''version'', JString (ii_version i))]"

definition info_of :: "json \<Rightarrow> implementation_info option" where
  "info_of v = do {
     kvs \<leftarrow> object_of v;
     n \<leftarrow> member kvs ''name'' json_as_str;
     ve \<leftarrow> member kvs ''version'' json_as_str;
     Some \<lparr>ii_name = n, ii_version = ve\<rparr> }"

text \<open>
  \<open>with_meta\<close>; parameters that are not an object make it panic, which no caller in the crate
  does but \<open>request\<close> may. A \<open>Value\<close> keeps the members of an object in order.
\<close>

definition meta_json :: "string \<Rightarrow> implementation_info option \<Rightarrow> json option \<Rightarrow> json" where
  "meta_json version info caps = JObject
     ([(''io.modelcontextprotocol/protocolVersion'', JString version)]
      @ if_some ''io.modelcontextprotocol/clientInfo'' info_json info
      @ if_some ''io.modelcontextprotocol/clientCapabilities'' (\<lambda>v. v) caps)"

definition with_meta :: "string \<Rightarrow> implementation_info option \<Rightarrow> json option \<Rightarrow> rpc_request \<Rightarrow> rpc_request option" where
  "with_meta version info caps r =
     map_option (\<lambda>kvs. r\<lparr>rq_params := Some (json_norm (JObject (hm_insert ''_meta'' (meta_json version info caps) kvs)))\<rparr>)
       (object_of (case rq_params r of None \<Rightarrow> JObject [] | Some p \<Rightarrow> p))"

record initialize_params =
  ip_version :: string
  ip_capabilities :: json
  ip_info :: "implementation_info option"

definition initialize_params_new :: "string \<Rightarrow> initialize_params" where
  "initialize_params_new v = \<lparr>ip_version = v, ip_capabilities = JObject [], ip_info = None\<rparr>"

definition with_client_info :: "string \<Rightarrow> string \<Rightarrow> initialize_params \<Rightarrow> initialize_params" where
  "with_client_info n v p = p\<lparr>ip_info := Some \<lparr>ii_name = n, ii_version = v\<rparr>\<rparr>"

definition initialize_params_json :: "initialize_params \<Rightarrow> json" where
  "initialize_params_json p = JObject ([(''protocolVersion'', JString (ip_version p)), (''capabilities'', ip_capabilities p)]
     @ if_some ''clientInfo'' info_json (ip_info p))"

record call_tool_params =
  cq_name :: string
  cq_arguments :: "json option"

definition call_params_json :: "call_tool_params \<Rightarrow> json" where
  "call_params_json p = JObject ([(''name'', JString (cq_name p))] @ if_some ''arguments'' (\<lambda>v. v) (cq_arguments p))"

definition call_params_of :: "json \<Rightarrow> call_tool_params option" where
  "call_params_of v = do {
     kvs \<leftarrow> object_of v;
     n \<leftarrow> member kvs ''name'' json_as_str;
     a \<leftarrow> opt_member kvs ''arguments'' Some;
     Some \<lparr>cq_name = n, cq_arguments = a\<rparr> }"

definition discover_params_json :: "string list option \<Rightarrow> json" where
  "discover_params_json vs = JObject (if_some ''protocolVersions'' (\<lambda>xs. JArray (map JString xs)) vs)"

definition discover_params_of :: "json \<Rightarrow> string list option option" where
  "discover_params_of v = do { kvs \<leftarrow> object_of v; opt_member kvs ''protocolVersions'' (list_of json_as_str) }"

record discovery_result =
  dv_versions :: "string list"
  dv_capabilities :: json
  dv_info :: implementation_info

definition discovery_json :: "discovery_result \<Rightarrow> json" where
  "discovery_json d = JObject [(''protocolVersions'', JArray (map JString (dv_versions d))),
     (''capabilities'', dv_capabilities d), (''serverInfo'', info_json (dv_info d))]"

definition discovery_of :: "json \<Rightarrow> discovery_result option" where
  "discovery_of v = do {
     kvs \<leftarrow> object_of v;
     vs \<leftarrow> member kvs ''protocolVersions'' (list_of json_as_str);
     c \<leftarrow> member kvs ''capabilities'' Some;
     i \<leftarrow> member kvs ''serverInfo'' info_of;
     Some \<lparr>dv_versions = vs, dv_capabilities = c, dv_info = i\<rparr> }"

definition listen_params_json :: "string list \<Rightarrow> json" where
  "listen_params_json subs = JObject [(''subscriptions'', JArray (map JString subs))]"

definition listen_params_of :: "json \<Rightarrow> string list option" where
  "listen_params_of v = do { kvs \<leftarrow> object_of v; member kvs ''subscriptions'' (list_of json_as_str) }"

record initialize_result =
  ir_version :: string
  ir_capabilities :: json
  ir_info :: implementation_info

definition initialize_result_of :: "json \<Rightarrow> initialize_result option" where
  "initialize_result_of v = do {
     kvs \<leftarrow> object_of v;
     ve \<leftarrow> member kvs ''protocolVersion'' json_as_str;
     c \<leftarrow> member kvs ''capabilities'' Some;
     i \<leftarrow> member kvs ''serverInfo'' info_of;
     Some \<lparr>ir_version = ve, ir_capabilities = c, ir_info = i\<rparr> }"

record tool_info =
  tf_name :: string
  tf_description :: string
  tf_schema :: json

definition tool_info_json :: "tool_info \<Rightarrow> json" where
  "tool_info_json t = JObject [(''name'', JString (tf_name t)), (''description'', JString (tf_description t)),
     (''input_schema'', tf_schema t)]"

definition tool_info_of :: "json \<Rightarrow> tool_info option" where
  "tool_info_of v = do {
     kvs \<leftarrow> object_of v;
     n \<leftarrow> member kvs ''name'' json_as_str;
     d \<leftarrow> member_or [] kvs ''description'' json_as_str;
     s \<leftarrow> member_or JNull kvs ''input_schema'' Some;
     Some \<lparr>tf_name = n, tf_description = d, tf_schema = s\<rparr> }"

definition list_tools_json :: "tool_info list \<Rightarrow> json" where
  "list_tools_json ts = JObject [(''tools'', JArray (map tool_info_json ts))]"

definition list_tools_of :: "json \<Rightarrow> tool_info list option" where
  "list_tools_of v = do { kvs \<leftarrow> object_of v; member kvs ''tools'' (list_of tool_info_of) }"

datatype mcp_block = McpText string | McpImage string string | McpUnknown

fun mcp_block_json :: "mcp_block \<Rightarrow> json" where
  "mcp_block_json (McpText t) = JObject [(''type'', JString ''text''), (''text'', JString t)]"
| "mcp_block_json (McpImage d m) = JObject [(''type'', JString ''image''), (''data'', JString d), (''mimeType'', JString m)]"
| "mcp_block_json McpUnknown = JObject [(''type'', JString ''unknown'')]"

definition mcp_block_of :: "json \<Rightarrow> mcp_block option" where
  "mcp_block_of v = do {
     kvs \<leftarrow> object_of v;
     t \<leftarrow> member kvs ''type'' json_as_str;
     (if t = ''text'' then map_option McpText (member kvs ''text'' json_as_str)
      else if t = ''image'' then do {
        d \<leftarrow> member kvs ''data'' json_as_str;
        m \<leftarrow> member kvs ''mimeType'' json_as_str;
        Some (McpImage d m) }
      else Some McpUnknown) }"

fun mcp_block_text :: "mcp_block \<Rightarrow> string option" where
  "mcp_block_text (McpText t) = Some t"
| "mcp_block_text _ = None"

text \<open>\<open>join("\n\n")\<close>.\<close>

fun join_paragraphs :: "string list \<Rightarrow> string" where
  "join_paragraphs [] = []"
| "join_paragraphs [s] = s"
| "join_paragraphs (s # t # r) = s @ [CHR 0x0A, CHR 0x0A] @ join_paragraphs (t # r)"

definition flatten_text :: "mcp_block list \<Rightarrow> string" where
  "flatten_text bs = join_paragraphs (List.map_filter mcp_block_text bs)"

datatype result_type = ResultComplete | ResultInputRequired | ResultOther string

fun show_result_type :: "result_type \<Rightarrow> string" where
  "show_result_type ResultComplete = ''complete''"
| "show_result_type ResultInputRequired = ''input_required''"
| "show_result_type (ResultOther s) = s"

definition result_type_of :: "json \<Rightarrow> result_type option" where
  "result_type_of v = map_option (\<lambda>s. if s = ''complete'' then ResultComplete
     else if s = ''input_required'' then ResultInputRequired else ResultOther s) (json_as_str v)"

record call_tool_result =
  cr_content :: "mcp_block list"
  cr_is_error :: bool
  cr_type :: "result_type option"

definition call_result_json :: "call_tool_result \<Rightarrow> json" where
  "call_result_json r = JObject ([(''content'', JArray (map mcp_block_json (cr_content r))), (''is_error'', JBool (cr_is_error r))]
     @ if_some ''resultType'' (\<lambda>t. JString (show_result_type t)) (cr_type r))"

definition call_result_of :: "json \<Rightarrow> call_tool_result option" where
  "call_result_of v = do {
     kvs \<leftarrow> object_of v;
     c \<leftarrow> member kvs ''content'' (list_of mcp_block_of);
     e \<leftarrow> member_or False kvs ''is_error'' json_as_bool;
     t \<leftarrow> opt_member kvs ''resultType'' result_type_of;
     Some \<lparr>cr_content = c, cr_is_error = e, cr_type = t\<rparr> }"

definition is_input_required :: "call_tool_result \<Rightarrow> bool" where
  "is_input_required r \<longleftrightarrow> cr_type r = Some ResultInputRequired"

record input_request =
  iq_method :: string
  iq_params :: "json option"
  iq_id :: string

definition input_request_of :: "json \<Rightarrow> input_request option" where
  "input_request_of v = do {
     kvs \<leftarrow> object_of v;
     m \<leftarrow> member kvs ''method'' json_as_str;
     p \<leftarrow> opt_member kvs ''params'' Some;
     i \<leftarrow> member kvs ''requestId'' json_as_str;
     Some \<lparr>iq_method = m, iq_params = p, iq_id = i\<rparr> }"

section \<open>What the other side reads\<close>

text \<open>A message that is written as text and parsed again is a tree whose objects are in order.\<close>

definition norm_members :: "(string \<times> json) list \<Rightarrow> (string \<times> json) list" where
  "norm_members kvs = sort_key fst (map (\<lambda>(k, v). (k, json_norm v)) kvs)"

lemma object_of_norm [simp]: "object_of (json_norm (JObject kvs)) = Some (norm_members kvs)"
  by (simp add: object_of_def norm_members_def)

lemma norm_members_get:
  "distinct (map fst kvs) \<Longrightarrow> map_of (norm_members kvs) k = map_option json_norm (map_of kvs k)"
  using json_get_norm [of kvs k] by (simp add: norm_members_def)

lemma norm_members_read:
  assumes "distinct (map fst kvs)"
  shows "member (norm_members kvs) k f = Option.bind (map_of kvs k) (\<lambda>v. f (json_norm v))"
    "opt_member (norm_members kvs) k f = (case map_of kvs k of None \<Rightarrow> Some None | Some v \<Rightarrow> nullable f (json_norm v))"
    "member_or d (norm_members kvs) k f = (case map_of kvs k of None \<Rightarrow> Some d | Some v \<Rightarrow> f (json_norm v))"
  by (simp_all add: member_def opt_member_def member_or_def norm_members_get [OF assms] bind_map_option comp_def
      split: option.split)

lemma json_norm_JNull [simp]: "json_norm v = JNull \<longleftrightarrow> v = JNull"
  by (cases v) auto

lemma nat_of_norm_nat_json [simp]: "n < b \<Longrightarrow> nat_of b (json_norm (nat_json n)) = Some n"
  by (simp add: nat_of_def nat_json_def)

text \<open>Optional members of a \<open>Value\<close>: \<open>null\<close> is read as missing.\<close>

definition norm_value :: "json option \<Rightarrow> json option" where
  "norm_value p = (case p of Some v \<Rightarrow> if v = JNull then None else Some (json_norm v) | None \<Rightarrow> None)"

lemma request_back:
  assumes "rq_id r < 2 ^ 64"
  shows "request_of (json_norm (request_json r)) = Some (r\<lparr>rq_params := norm_value (rq_params r)\<rparr>)"
proof (cases "rq_params r")
  case None
  with assms show ?thesis
    by (simp add: request_of_def request_json_def if_some_def norm_members_read norm_value_def del: json_norm.simps(2))
next
  case (Some p)
  with assms show ?thesis
    by (simp add: request_of_def request_json_def if_some_def norm_members_read norm_value_def nullable_def del: json_norm.simps(2))
qed

definition norm_result :: "rpc_result \<Rightarrow> rpc_result" where
  "norm_result r = (case r of RpcSuccess v \<Rightarrow> RpcSuccess (json_norm v) | RpcFailure e \<Rightarrow> RpcFailure (e\<lparr>re_data := norm_value (re_data e)\<rparr>))"

lemma rpc_error_back:
  assumes "i32_of (JInt (re_code e)) = Some (re_code e)"
  shows "rpc_error_of (json_norm (rpc_error_json e)) = Some (e\<lparr>re_data := norm_value (re_data e)\<rparr>)"
  using assms
  by (cases "re_data e")
    (simp_all add: rpc_error_of_def rpc_error_json_def if_some_def norm_members_read norm_value_def nullable_def del: json_norm.simps(2))

definition sendable_result :: "rpc_result \<Rightarrow> bool" where
  "sendable_result r \<longleftrightarrow> (case r of RpcSuccess _ \<Rightarrow> True | RpcFailure e \<Rightarrow> i32_of (JInt (re_code e)) = Some (re_code e))"

lemma result_members_distinct [simp]:
  "distinct (map fst (result_members r))" "''jsonrpc'' \<notin> fst ` set (result_members r)" "''id'' \<notin> fst ` set (result_members r)"
  by (cases r; simp)+

lemma response_back:
  assumes "rs_id r < 2 ^ 64" "sendable_result (rs_result r)"
  shows "response_of (json_norm (response_json r)) = Some (r\<lparr>rs_result := norm_result (rs_result r)\<rparr>)"
proof (cases "rs_result r")
  case (RpcSuccess v)
  with assms show ?thesis
    by (simp add: response_of_def response_json_def norm_members_read norm_members_get result_of_def norm_result_def
        del: json_norm.simps(2))
next
  case (RpcFailure e)
  with assms rpc_error_back [of e] show ?thesis
    by (simp add: response_of_def response_json_def norm_members_read norm_members_get result_of_def norm_result_def
        sendable_result_def del: json_norm.simps(2))
qed

text \<open>A request and a notification are told apart by the identifier, both from a response by the method.\<close>

lemma response_is_no_request: "request_of (json_norm (response_json r)) = None"
  by (cases "rs_result r")
    (simp_all add: request_of_def response_json_def norm_members_read bind_eq_None_conv del: json_norm.simps(2))

lemma message_back:
  assumes "rs_id r < 2 ^ 64" "sendable_result (rs_result r)"
  shows "message_of (json_norm (response_json r)) = Some (ResponseMessage (r\<lparr>rs_result := norm_result (rs_result r)\<rparr>))"
  by (simp add: message_of_def response_is_no_request response_back [OF assms])

lemma notification_back:
  "message_of (json_norm (notification_json n)) = Some (NotificationMessage (n\<lparr>nf_params := norm_value (nf_params n)\<rparr>))"
  by (cases "nf_params n")
    (simp_all add: message_of_def request_of_def response_of_def result_of_def notification_of_def notification_json_def
      if_some_def norm_members_read norm_members_get norm_value_def nullable_def del: json_norm.simps(2))

lemma list_of_map_back:
  assumes "\<And>x. x \<in> set xs \<Longrightarrow> f (json_norm (g x)) = Some x"
  shows "list_of f (json_norm (JArray (map g xs))) = Some xs"
  using assms by (induction xs) (auto simp: list_of_def)

lemma mcp_block_back [simp]: "mcp_block_of (json_norm (mcp_block_json b)) = Some b"
  by (cases b) (simp_all add: mcp_block_of_def norm_members_read del: json_norm.simps(2))

lemma result_type_back: "show_result_type t \<notin> {''complete'', ''input_required''} \<or> t \<in> {ResultComplete, ResultInputRequired}
    \<Longrightarrow> result_type_of (JString (show_result_type t)) = Some t"
  by (cases t) (auto simp: result_type_of_def)

lemma call_result_back:
  assumes "cr_type r = None"
  shows "call_result_of (json_norm (call_result_json r)) = Some r"
  using assms
  by (simp add: call_result_of_def call_result_json_def if_some_def norm_members_read list_of_map_back del: json_norm.simps(1,2))

lemma tool_info_back [simp]: "tool_info_of (json_norm (tool_info_json t)) = Some (t\<lparr>tf_schema := json_norm (tf_schema t)\<rparr>)"
  by (simp add: tool_info_of_def tool_info_json_def norm_members_read del: json_norm.simps(2))

lemma call_params_back:
  "call_params_of (json_norm (call_params_json p)) = Some (p\<lparr>cq_arguments := norm_value (cq_arguments p)\<rparr>)"
  by (cases "cq_arguments p")
    (simp_all add: call_params_of_def call_params_json_def if_some_def norm_members_read norm_value_def nullable_def del: json_norm.simps(2))

end
