(* ===== verification/Mcp_Server.thy ===== *)
theory Mcp_Server
  imports Mcp_Protocol Utf8
begin

text \<open>
  The server side of the tool protocol (\<open>server/simple.rs\<close>, \<open>server/handler.rs\<close>): tools and
  their calls, the handler of requests, its three ways to be reached (lines of standard input,
  the single HTTP endpoint, and the deprecated event stream), and the subscribers to
  notifications.

  The functions of the tools act on the world \<open>'w\<close>. \<open>serde_json\<close> is an argument: how a tree is
  printed, what a text parses to, and what is said of a value that does not fit a type.
\<close>

record json_io =
  io_print :: "json \<Rightarrow> string"
  io_parse :: "string \<Rightarrow> string + json"
  io_mismatch :: "string \<Rightarrow> json \<Rightarrow> string"

definition read_as :: "json_io \<Rightarrow> string \<Rightarrow> (json \<Rightarrow> 'a option) \<Rightarrow> string \<Rightarrow> string + 'a" where
  "read_as io type f text =
     (case io_parse io text of
        Inl e \<Rightarrow> Inl e
      | Inr v \<Rightarrow> (case f v of None \<Rightarrow> Inl (io_mismatch io type v) | Some x \<Rightarrow> Inr x))"

section \<open>Tools\<close>

record 'w mcp_tool =
  mt_name :: string
  mt_description :: string
  mt_schema :: json
  mt_run :: "json \<Rightarrow> 'w \<Rightarrow> 'w \<times> (mcp_tool_error + json)"

text \<open>The tools are a \<open>HashMap\<close>; their list is in the order of the map, whatever that is.\<close>

record 'w simple_mcp =
  sm_name :: string
  sm_tools :: "(string, 'w mcp_tool) hashmap"

definition simple_new :: "string \<Rightarrow> 'w simple_mcp" where
  "simple_new n = \<lparr>sm_name = n, sm_tools = []\<rparr>"

definition tool_with_schema ::
  "string \<Rightarrow> string \<Rightarrow> json \<Rightarrow> (json \<Rightarrow> 'w \<Rightarrow> 'w \<times> (mcp_tool_error + json)) \<Rightarrow> 'w simple_mcp \<Rightarrow> 'w simple_mcp" where
  "tool_with_schema n d schema f s = s\<lparr>sm_tools :=
     hm_insert n \<lparr>mt_name = n, mt_description = d, mt_schema = schema, mt_run = f\<rparr> (sm_tools s)\<rparr>"

definition simple_tool ::
  "string \<Rightarrow> string \<Rightarrow> (json \<Rightarrow> 'w \<Rightarrow> 'w \<times> (mcp_tool_error + json)) \<Rightarrow> 'w simple_mcp \<Rightarrow> 'w simple_mcp" where
  "simple_tool n d f s =
     tool_with_schema n d (JObject [(''properties'', JObject []), (''type'', JString ''object'')]) f s"

definition tool_list :: "'w simple_mcp \<Rightarrow> tool_info list" where
  "tool_list s = map (\<lambda>(_, t). \<lparr>tf_name = mt_name t, tf_description = mt_description t, tf_schema = mt_schema t\<rparr>) (sm_tools s)"

definition text_result :: "bool \<Rightarrow> string \<Rightarrow> call_tool_result" where
  "text_result failed t = \<lparr>cr_content = [McpText t], cr_is_error = failed, cr_type = None\<rparr>"

text \<open>The one error of \<open>call_tool\<close> is \<open>ServerError::ToolNotFound\<close>, given here as its text.\<close>

definition serve_call :: "json_io \<Rightarrow> 'w simple_mcp \<Rightarrow> string \<Rightarrow> json \<Rightarrow> 'w \<Rightarrow> 'w \<times> (string + call_tool_result)" where
  "serve_call io s n args w =
     (case hm_get (sm_tools s) n of
        None \<Rightarrow> (w, Inl (''tool not found: '' @ n))
      | Some t \<Rightarrow>
          (case mt_run t args w of
             (w', Inr v) \<Rightarrow> (w', Inr (text_result False (io_print io v)))
           | (w', Inl e) \<Rightarrow> (w', Inr (text_result True (show_mcp_tool_error e)))))"

section \<open>Requests\<close>

definition protocol_version :: string where
  "protocol_version = ''2026-07-28''"

definition package_version :: string where
  "package_version = ''0.4.12''"

definition server_capabilities :: json where
  "server_capabilities = JObject [(''subscriptions'', JBool True), (''tools'', JObject [(''listChanged'', JBool True)])]"

definition server_info :: "'w simple_mcp \<Rightarrow> implementation_info" where
  "server_info s = \<lparr>ii_name = sm_name s, ii_version = package_version\<rparr>"

definition initialize_reply :: "'w simple_mcp \<Rightarrow> json" where
  "initialize_reply s = JObject [(''capabilities'', server_capabilities), (''protocolVersion'', JString protocol_version),
     (''serverInfo'', info_json (server_info s))]"

definition supported_versions :: "string list" where
  "supported_versions = [protocol_version, ''2025-11-25'', ''2025-03-26'', ''2024-11-05'']"

text \<open>Parameters that do not fit count as none.\<close>

definition discover_reply :: "'w simple_mcp \<Rightarrow> json option \<Rightarrow> json" where
  "discover_reply s p =
     (let versions = (case Option.bind (Option.bind p discover_params_of) (\<lambda>vs. vs) of
            None \<Rightarrow> supported_versions
          | Some wanted \<Rightarrow> filter (\<lambda>v. v \<in> set wanted) supported_versions) in
      json_norm (discovery_json \<lparr>dv_versions = versions, dv_capabilities = server_capabilities, dv_info = server_info s\<rparr>))"

definition error_response :: "nat \<Rightarrow> int \<Rightarrow> string \<Rightarrow> rpc_response" where
  "error_response i code message =
     \<lparr>rs_jsonrpc = ''2.0'', rs_id = i, rs_result = RpcFailure \<lparr>re_code = code, re_message = message, re_data = None\<rparr>\<rparr>"

definition success_response :: "nat \<Rightarrow> json \<Rightarrow> rpc_response" where
  "success_response i v = \<lparr>rs_jsonrpc = ''2.0'', rs_id = i, rs_result = RpcSuccess v\<rparr>"

definition handle_call :: "json_io \<Rightarrow> 'w simple_mcp \<Rightarrow> rpc_request \<Rightarrow> 'w \<Rightarrow> 'w \<times> rpc_response" where
  "handle_call io s r w =
     (case rq_params r of
        None \<Rightarrow> (w, error_response (rq_id r) (- 32602) ''missing params'')
      | Some p \<Rightarrow>
          (case call_params_of p of
             None \<Rightarrow> (w, error_response (rq_id r) (- 32602) (io_mismatch io ''CallToolParams'' p))
           | Some q \<Rightarrow>
               (case serve_call io s (cq_name q) (case cq_arguments q of None \<Rightarrow> JObject [] | Some a \<Rightarrow> a) w of
                  (w', Inl e) \<Rightarrow> (w', error_response (rq_id r) (- 32603) e)
                | (w', Inr res) \<Rightarrow> (w', success_response (rq_id r) (json_norm (call_result_json res))))))"

definition handle_request :: "json_io \<Rightarrow> 'w simple_mcp \<Rightarrow> rpc_request \<Rightarrow> 'w \<Rightarrow> 'w \<times> rpc_response" where
  "handle_request io s r w =
     (if rq_method r = ''initialize'' then (w, success_response (rq_id r) (initialize_reply s))
      else if rq_method r = ''server/discover'' then (w, success_response (rq_id r) (discover_reply s (rq_params r)))
      else if rq_method r = ''tools/list'' then (w, success_response (rq_id r) (json_norm (list_tools_json (tool_list s))))
      else if rq_method r = ''tools/call'' then handle_call io s r w
      else if rq_method r = ''ping'' then (w, success_response (rq_id r) (JObject []))
      else (w, error_response (rq_id r) (- 32601) (''unknown method: '' @ rq_method r)))"

section \<open>Standard input\<close>

text \<open>
  The lines that are read, until the end of the input or a read error (a line that is not UTF-8
  is one), and the lines that are written. A line that is no request, a notification for
  instance, is reported on standard error and gets no answer. Writing succeeds here.
\<close>

datatype read_event = ReadLine string | ReadFails

fun run_stdio :: "json_io \<Rightarrow> 'w simple_mcp \<Rightarrow> read_event list \<Rightarrow> 'w \<Rightarrow> 'w \<times> string list" where
  "run_stdio io s [] w = (w, [])"
| "run_stdio io s (ReadFails # es) w = (w, [])"
| "run_stdio io s (ReadLine raw # es) w =
     (let line = trim_text raw in
      if line = [] then run_stdio io s es w
      else case read_as io ''JsonRpcRequest'' request_of line of
        Inl _ \<Rightarrow> run_stdio io s es w
      | Inr r \<Rightarrow>
          (case handle_request io s r w of
             (w', resp) \<Rightarrow>
               (case run_stdio io s es w' of
                  (w'', out) \<Rightarrow> (w'', (io_print io (response_json resp) @ [CHR 0x0A]) # out))))"

section \<open>Subscribers\<close>

text \<open>
  The broadcast channel keeps the last 256 notifications. A subscriber has its place in what was
  sent; one that fell behind skips to the oldest that is kept, and what it lost is counted.
\<close>

definition notification_buffer :: nat where
  "notification_buffer = 256"

record subscriptions =
  sb_sent :: "rpc_notification list"
  sb_counter :: nat
  sb_lagged :: nat

record subscriber =
  su_id :: string
  su_ack :: "string option"
  su_place :: nat

definition subscriptions_new :: subscriptions where
  "subscriptions_new = \<lparr>sb_sent = [], sb_counter = 1, sb_lagged = 0\<rparr>"

definition in_quotes :: "string \<Rightarrow> string" where
  "in_quotes s = [CHR 0x22] @ s @ [CHR 0x22]"

definition ack_event :: "json_io \<Rightarrow> string \<Rightarrow> string list \<Rightarrow> string" where
  "ack_event io sub subs =
     ''event: acknowledged'' @ [CHR 0x0A] @ ''data: {'' @ in_quotes ''subscriptionId'' @ '':'' @ in_quotes sub
       @ '','' @ in_quotes ''subscriptions'' @ '':'' @ io_print io (JArray (map JString subs)) @ ''}'' @ [CHR 0x0A, CHR 0x0A]"

definition message_event :: "string \<Rightarrow> string" where
  "message_event json = ''event: message'' @ [CHR 0x0A] @ ''data: '' @ json @ [CHR 0x0A, CHR 0x0A]"

definition subscribe_stream :: "json_io \<Rightarrow> string list \<Rightarrow> subscriptions \<Rightarrow> subscriber \<times> subscriptions" where
  "subscribe_stream io subs st =
     (let sub = ''sub-'' @ show_nat (sb_counter st) in
      (\<lparr>su_id = sub, su_ack = Some (ack_event io sub subs), su_place = length (sb_sent st)\<rparr>,
       st\<lparr>sb_counter := (sb_counter st + 1) mod 2 ^ 64\<rparr>))"

definition notify_all :: "rpc_notification \<Rightarrow> subscriptions \<Rightarrow> subscriptions" where
  "notify_all n st = st\<lparr>sb_sent := sb_sent st @ [n]\<rparr>"

text \<open>What the stream of a subscriber gives next, if there is something.\<close>

definition subscriber_next :: "json_io \<Rightarrow> subscriber \<Rightarrow> subscriptions \<Rightarrow> (string \<times> subscriber \<times> subscriptions) option" where
  "subscriber_next io s st =
     (case su_ack s of
        Some a \<Rightarrow> Some (a, s\<lparr>su_ack := None\<rparr>, st)
      | None \<Rightarrow>
          (let oldest = length (sb_sent st) - notification_buffer; place = max (su_place s) oldest in
           if place < length (sb_sent st)
           then Some (message_event (io_print io (notification_json (sb_sent st ! place))),
             s\<lparr>su_place := place + 1\<rparr>, st\<lparr>sb_lagged := (sb_lagged st + (place - su_place s)) mod 2 ^ 64\<rparr>)
           else None))"

section \<open>The HTTP endpoint\<close>

record http_reply =
  hp_status :: nat
  hp_content_type :: string
  hp_body :: string

definition wants_event_stream :: "string option \<Rightarrow> bool" where
  "wants_event_stream accept = (case accept of None \<Rightarrow> False | Some v \<Rightarrow> sublist ''text/event-stream'' v)"

text \<open>Every method but \<open>subscriptions/listen\<close>, whose reply is the stream of a new subscriber.\<close>

definition handle_http ::
  "json_io \<Rightarrow> 'w simple_mcp \<Rightarrow> string option \<Rightarrow> rpc_request \<Rightarrow> 'w \<Rightarrow> 'w \<times> http_reply" where
  "handle_http io s accept r w =
     (case handle_request io s r w of
        (w', resp) \<Rightarrow>
          (let json = io_print io (response_json resp) in
           (w', if wants_event_stream accept
                then \<lparr>hp_status = 200, hp_content_type = ''text/event-stream'', hp_body = message_event json\<rparr>
                else \<lparr>hp_status = 200, hp_content_type = ''application/json'', hp_body = json\<rparr>)))"

definition handle_listen :: "json_io \<Rightarrow> rpc_request \<Rightarrow> subscriptions \<Rightarrow> (subscriber \<times> subscriptions) option" where
  "handle_listen io r st =
     (if rq_method r = ''subscriptions/listen''
      then Some (subscribe_stream io (case Option.bind (rq_params r) listen_params_of of None \<Rightarrow> [] | Some subs \<Rightarrow> subs) st)
      else None)"

text \<open>The whole handler: a subscription, or the reply to one request.\<close>

definition http_endpoint ::
  "json_io \<Rightarrow> 'w simple_mcp \<Rightarrow> string option \<Rightarrow> rpc_request \<Rightarrow> subscriptions \<times> 'w
   \<Rightarrow> (subscriber + http_reply) \<times> subscriptions \<times> 'w" where
  "http_endpoint io s accept r sw =
     (case sw of (st, w) \<Rightarrow>
        (case handle_listen io r st of
           Some (sub, st') \<Rightarrow> (Inl sub, st', w)
         | None \<Rightarrow> (case handle_http io s accept r w of (w', reply) \<Rightarrow> (Inr reply, st, w'))))"

section \<open>The deprecated event stream\<close>

text \<open>Every response is broadcast with the number of its session, and a session keeps its own.\<close>

definition session_message :: "json_io \<Rightarrow> 'w simple_mcp \<Rightarrow> nat \<Rightarrow> rpc_request \<Rightarrow> 'w \<Rightarrow> 'w \<times> string" where
  "session_message io s sid r w =
     (case handle_request io s r w of (w', resp) \<Rightarrow> (w', show_nat sid @ '':'' @ io_print io (response_json resp)))"

definition session_accepts :: "nat \<Rightarrow> string \<Rightarrow> string option" where
  "session_accepts sid m =
     (case split_at CHR '':'' m of
        None \<Rightarrow> None
      | Some (s, d) \<Rightarrow>
          (if s = show_nat sid then Some (case strip_prefix '' '' d of Some d' \<Rightarrow> d' | None \<Rightarrow> d) else None))"

end
