(* ===== verification/Mcp_Transport.thy ===== *)
theory Mcp_Transport
  imports Mcp_Server Sse_Parser
begin

text \<open>
  The transports of the client (\<open>transport/mod.rs\<close>, \<open>state.rs\<close>, \<open>http.rs\<close>, \<open>stdio.rs\<close>): the event
  stream parsers of the HTTP transport, its requests, and the transport over a child process,
  which matches responses to the requests that wait for them.

  What the network answers is a function on the world. The child process is the order of what
  happens to the transport: lines of its output, requests that are started, timeouts, the end.
\<close>

section \<open>Connection states\<close>

datatype connection_state = Disconnected | Connecting | Initializing | Ready | ClosedState

definition allows_request :: "connection_state \<Rightarrow> bool" where
  "allows_request s \<longleftrightarrow> s = Ready"

fun show_connection_state :: "connection_state \<Rightarrow> string" where
  "show_connection_state Disconnected = ''Disconnected''"
| "show_connection_state Connecting = ''Connecting''"
| "show_connection_state Initializing = ''Initializing''"
| "show_connection_state Ready = ''Ready''"
| "show_connection_state ClosedState = ''Closed''"

section \<open>Frames of an event stream\<close>

record mcp_frame =
  mf_event :: "string option"
  mf_data :: string

definition parse_sse_field :: "string \<Rightarrow> (string \<times> string) option" where
  "parse_sse_field line =
     (case split_at CHR '':'' line of
        None \<Rightarrow> None
      | Some (k, v) \<Rightarrow> Some (trim_text k, dropWhile (\<lambda>c. c = CHR '' '') v))"

text \<open>The event and the data of the frame that is being read.\<close>

type_synonym frame_state = "string option \<times> string"

definition frame_line :: "string \<Rightarrow> frame_state \<Rightarrow> mcp_frame list \<times> frame_state" where
  "frame_line line st =
     (case st of (event, data) \<Rightarrow>
        if line = [] then
          (if data \<noteq> [] then ([\<lparr>mf_event = event, mf_data = data\<rparr>], None, []) else ([], event, data))
        else case parse_sse_field line of
          None \<Rightarrow> ([], event, data)
        | Some (key, value) \<Rightarrow>
            if key = ''event'' then ([], (if value = [] then None else Some value), data)
            else if key = ''data'' then ([], event, (if data = [] then [] else data @ [CHR 0x0A]) @ value)
            else ([], event, data))"

fun frame_lines :: "string list \<Rightarrow> frame_state \<Rightarrow> mcp_frame list \<times> frame_state" where
  "frame_lines [] st = ([], st)"
| "frame_lines (l # ls) st =
     (case frame_line l st of (fs, st') \<Rightarrow> case frame_lines ls st' of (fs', st'') \<Rightarrow> (fs @ fs', st''))"

definition flush_frame :: "frame_state \<Rightarrow> mcp_frame list" where
  "flush_frame st = (case st of (event, data) \<Rightarrow> if data = [] then [] else [\<lparr>mf_event = event, mf_data = data\<rparr>])"

text \<open>\<open>str::lines\<close>: a line ends with a newline or with a carriage return and a newline.\<close>

definition strip_cr :: "string \<Rightarrow> string" where
  "strip_cr l = (if l \<noteq> [] \<and> last l = CHR 0x0D then butlast l else l)"

definition str_lines :: "string \<Rightarrow> string list" where
  "str_lines s = (case split_lines s of (ls, rest) \<Rightarrow> map strip_cr ls @ (if rest = [] then [] else [rest]))"

definition parse_sse_frames :: "string \<Rightarrow> mcp_frame list" where
  "parse_sse_frames text = (case frame_lines (str_lines text) (None, []) of (fs, st) \<Rightarrow> fs @ flush_frame st)"

text \<open>
  The parser of a stream, which keeps the unfinished line and the frame. The code walks over the
  newlines of the buffer from its start, and takes the place of each as counted from the end of
  the line before: from the second newline on the line that is cut out is another one, and a
  slice that is out of range or cuts a character is a panic, \<open>None\<close>.
\<close>

record stream_parser =
  sp_buffer :: string
  sp_frame :: frame_state

definition stream_parser_new :: stream_parser where
  "stream_parser_new = \<lparr>sp_buffer = [], sp_frame = (None, [])\<rparr>"

definition char_boundary :: "string \<Rightarrow> nat \<Rightarrow> bool" where
  "char_boundary s k \<longleftrightarrow> k = 0 \<or> k = length s \<or> k < length s \<and> \<not> continuation (drop k s)"

definition str_slice :: "string \<Rightarrow> nat \<Rightarrow> nat \<Rightarrow> string option" where
  "str_slice s i j =
     (if i \<le> j \<and> j \<le> length s \<and> char_boundary s i \<and> char_boundary s j then Some (take (j - i) (drop i s)) else None)"

definition newlines :: "string \<Rightarrow> nat list" where
  "newlines s = filter (\<lambda>i. s ! i = CHR 0x0A) [0..<length s]"

fun feed_lines :: "string \<Rightarrow> nat list \<Rightarrow> nat \<Rightarrow> frame_state \<Rightarrow> (mcp_frame list \<times> nat \<times> frame_state) option" where
  "feed_lines b [] done st = Some ([], done, st)"
| "feed_lines b (i # is) done st =
     (case str_slice b done (done + i) of
        None \<Rightarrow> None
      | Some line \<Rightarrow>
          (case frame_line line st of (fs, st') \<Rightarrow>
             map_option (\<lambda>(fs', r). (fs @ fs', r)) (feed_lines b is (done + i + 1) st')))"

definition stream_feed :: "string \<Rightarrow> stream_parser \<Rightarrow> (mcp_frame list \<times> stream_parser) option" where
  "stream_feed chunk p =
     (let b = sp_buffer p @ from_utf8_lossy chunk in
      case feed_lines b (newlines b) 0 (sp_frame p) of
        None \<Rightarrow> None
      | Some (fs, done, st) \<Rightarrow>
          (if done \<le> length b \<and> char_boundary b done then Some (fs, \<lparr>sp_buffer = drop done b, sp_frame = st\<rparr>) else None))"

text \<open>The chunks of a subscription: what is found, and the parser unless the reader panicked.\<close>

fun feed_chunks :: "string list \<Rightarrow> stream_parser \<Rightarrow> mcp_frame list \<times> stream_parser option" where
  "feed_chunks [] p = ([], Some p)"
| "feed_chunks (c # cs) p =
     (case stream_feed c p of
        None \<Rightarrow> ([], None)
      | Some (fs, p') \<Rightarrow> (case feed_chunks cs p' of (fs', r) \<Rightarrow> (fs @ fs', r)))"

definition subscription_frames :: "string list \<Rightarrow> mcp_frame list" where
  "subscription_frames cs =
     (case feed_chunks cs stream_parser_new of (fs, r) \<Rightarrow> fs @ (case r of None \<Rightarrow> [] | Some p \<Rightarrow> flush_frame (sp_frame p)))"

definition frame_message :: "json_io \<Rightarrow> mcp_frame \<Rightarrow> rpc_message option" where
  "frame_message io f =
     (if (case mf_event f of None \<Rightarrow> ''message'' | Some e \<Rightarrow> e) = ''message'' \<and> mf_data f \<noteq> []
      then (case read_as io ''JsonRpcMessage'' message_of (mf_data f) of Inr m \<Rightarrow> Some m | Inl _ \<Rightarrow> None)
      else None)"

text \<open>\<open>handle_sse_frame\<close>: the notifications are sent on, an acknowledgement is only logged.\<close>

definition frame_notification :: "json_io \<Rightarrow> mcp_frame \<Rightarrow> rpc_notification option" where
  "frame_notification io f = (case frame_message io f of Some (NotificationMessage n) \<Rightarrow> Some n | _ \<Rightarrow> None)"

definition subscription_notifications :: "json_io \<Rightarrow> string list \<Rightarrow> rpc_notification list" where
  "subscription_notifications io cs = List.map_filter (frame_notification io) (subscription_frames cs)"

section \<open>The HTTP transport\<close>

record http_config =
  hc_endpoint :: string
  hc_timeout :: nat
  hc_version :: string

definition http_config_new :: "string \<Rightarrow> http_config" where
  "http_config_new url = \<lparr>hc_endpoint = url, hc_timeout = 30 * 10 ^ 9, hc_version = protocol_version\<rparr>"

definition extract_mcp_name :: "string \<Rightarrow> json option \<Rightarrow> string option" where
  "extract_mcp_name method params =
     Option.bind params (\<lambda>p.
       if method = ''tools/call'' then Option.bind (json_get p ''name'') json_as_str
       else if method = ''resources/read'' \<or> method = ''prompts/get'' then Option.bind (json_get p ''uri'') json_as_str
       else None)"

record http_post =
  po_url :: string
  po_headers :: "(string \<times> string) list"
  po_body :: string

text \<open>An answer: status with its text, the content type, and the bytes or why they could not be read.\<close>

record http_answer =
  an_status :: nat
  an_status_text :: string
  an_content_type :: string
  an_body :: "string + string"

type_synonym 'w network = "http_post \<Rightarrow> 'w \<Rightarrow> 'w \<times> (string + http_answer)"

definition post_of :: "json_io \<Rightarrow> http_config \<Rightarrow> rpc_request \<Rightarrow> http_post" where
  "post_of io c r = \<lparr>po_url = hc_endpoint c,
     po_headers = [(''Content-Type'', ''application/json''), (''Accept'', ''application/json, text/event-stream''),
       (''MCP-Protocol-Version'', hc_version c), (''Mcp-Method'', rq_method r)]
       @ (case extract_mcp_name (rq_method r) (rq_params r) of None \<Rightarrow> [] | Some n \<Rightarrow> [(''Mcp-Name'', n)]),
     po_body = io_print io (request_json r)\<rparr>"

definition mismatch_text :: "nat \<Rightarrow> nat \<Rightarrow> string" where
  "mismatch_text expected got =
     ''Response ID mismatch: expected '' @ show_nat expected @ '', got '' @ show_nat got"

text \<open>The first response among the frames; the notifications before it are passed on.\<close>

fun first_response ::
  "json_io \<Rightarrow> nat \<Rightarrow> mcp_frame list \<Rightarrow> rpc_notification list \<times> (mcp_error + rpc_response)" where
  "first_response io i [] = ([], Inl (McpProtocol ''No response in SSE stream''))"
| "first_response io i (f # fs) =
     (case frame_message io f of
        Some (ResponseMessage r) \<Rightarrow>
          ([], if rs_id r \<noteq> i then Inl (McpProtocol (mismatch_text i (rs_id r))) else Inr r)
      | Some (NotificationMessage n) \<Rightarrow> (case first_response io i fs of (ns, res) \<Rightarrow> (n # ns, res))
      | _ \<Rightarrow> first_response io i fs)"

definition http_result :: "json_io \<Rightarrow> nat \<Rightarrow> http_answer \<Rightarrow> rpc_notification list \<times> (mcp_error + rpc_response)" where
  "http_result io i a =
     (if \<not> (200 \<le> an_status a \<and> an_status a < 300) then
        ([], Inl (McpTransport (HttpFailed (''HTTP '' @ an_status_text a @ '': ''
           @ (case an_body a of Inl _ \<Rightarrow> [] | Inr b \<Rightarrow> from_utf8_lossy b)))))
      else case an_body a of
        Inl e \<Rightarrow> ([], Inl (McpTransport (HttpFailed e)))
      | Inr b \<Rightarrow>
          (if sublist ''text/event-stream'' (an_content_type a)
           then first_response io i (parse_sse_frames (from_utf8_lossy b))
           else case read_as io ''JsonRpcResponse'' response_of (from_utf8_lossy b) of
                  Inl e \<Rightarrow> ([], Inl (McpProtocol e))
                | Inr r \<Rightarrow> ([], if rs_id r \<noteq> i then Inl (McpProtocol (mismatch_text i (rs_id r))) else Inr r)))"

text \<open>The transport: whether it was connected, its state, the notifications passed on, the world.\<close>

record 'w http_transport =
  ht_config :: http_config
  ht_inner :: bool
  ht_state :: connection_state
  ht_notified :: "rpc_notification list"
  ht_world :: 'w

definition http_transport_new :: "http_config \<Rightarrow> 'w \<Rightarrow> 'w http_transport" where
  "http_transport_new c w = \<lparr>ht_config = c, ht_inner = False, ht_state = Disconnected, ht_notified = [], ht_world = w\<rparr>"

definition http_connect :: "'w http_transport \<Rightarrow> 'w http_transport \<times> mcp_error option" where
  "http_connect t = (t\<lparr>ht_inner := True, ht_state := Ready\<rparr>, None)"

definition http_request ::
  "json_io \<Rightarrow> 'w network \<Rightarrow> rpc_request \<Rightarrow> 'w http_transport \<Rightarrow> 'w http_transport \<times> (mcp_error + rpc_response)" where
  "http_request io net r t =
     (if \<not> ht_inner t then (t, Inl mcp_disconnected)
      else case net (post_of io (ht_config t) r) (ht_world t) of
        (w, Inl e) \<Rightarrow> (t\<lparr>ht_world := w\<rparr>, Inl (McpTransport (HttpFailed e)))
      | (w, Inr a) \<Rightarrow>
          (case http_result io (rq_id r) a of
             (ns, res) \<Rightarrow> (t\<lparr>ht_world := w, ht_notified := ht_notified t @ ns\<rparr>, res)))"

text \<open>
  A subscription has a request of its own. Its answer carries an identifier and its body as the
  chunks that arrive, until the stream ends or breaks; the body of a refusal is read as a whole.
\<close>

record stream_answer =
  sa_status :: nat
  sa_status_text :: string
  sa_id :: "string option"
  sa_chunks :: "string list"

type_synonym 'w stream_network = "http_post \<Rightarrow> 'w \<Rightarrow> 'w \<times> (string + stream_answer)"

definition subscribe_post :: "json_io \<Rightarrow> http_config \<Rightarrow> rpc_request \<Rightarrow> http_post" where
  "subscribe_post io c r = \<lparr>po_url = hc_endpoint c,
     po_headers = [(''Content-Type'', ''application/json''), (''Accept'', ''text/event-stream''),
       (''MCP-Protocol-Version'', hc_version c), (''Mcp-Method'', rq_method r)],
     po_body = io_print io (request_json r)\<rparr>"

definition http_subscribe ::
  "json_io \<Rightarrow> 'w stream_network \<Rightarrow> rpc_request \<Rightarrow> 'w http_transport
   \<Rightarrow> 'w http_transport \<times> (mcp_error + string option \<times> rpc_notification list)" where
  "http_subscribe io net r t =
     (if \<not> ht_inner t then (t, Inl mcp_disconnected)
      else case net (subscribe_post io (ht_config t) r) (ht_world t) of
        (w, Inl e) \<Rightarrow> (t\<lparr>ht_world := w\<rparr>, Inl (McpTransport (HttpFailed e)))
      | (w, Inr a) \<Rightarrow>
          (t\<lparr>ht_world := w\<rparr>,
           if \<not> (200 \<le> sa_status a \<and> sa_status a < 300)
           then Inl (McpTransport (HttpFailed (''HTTP '' @ sa_status_text a @ '': '' @ from_utf8_lossy (concat (sa_chunks a)))))
           else Inr (sa_id a, subscription_notifications io (sa_chunks a))))"

definition http_close :: "'w http_transport \<Rightarrow> 'w http_transport \<times> mcp_error option" where
  "http_close t = (t\<lparr>ht_inner := False, ht_state := ClosedState\<rparr>, None)"

section \<open>The transport over a child process\<close>

text \<open>
  Who waits for a response is a number, in the order in which requests are started. \<open>sd_results\<close>
  is what each was given. \<open>sd_reading\<close>: the task that reads the output runs. \<open>sd_writing\<close> are
  the requests that are registered and whose line is not written yet (those that wait for the lock of
  the input included); what comes for them meanwhile is in their channels, \<open>sd_held\<close>.
\<close>

record stdio_state =
  sd_open :: bool
  sd_reading :: bool
  sd_state :: connection_state
  sd_pending :: "(nat, nat) hashmap"
  sd_waiters :: "nat list"
  sd_results :: "(nat \<times> (mcp_error + rpc_response)) list"
  sd_writing :: "nat list"
  sd_held :: "(nat \<times> (mcp_error + rpc_response)) list"
  sd_notified :: "rpc_notification list"

definition stdio_new :: stdio_state where
  "stdio_new = \<lparr>sd_open = False, sd_reading = False, sd_state = Disconnected, sd_pending = [], sd_waiters = [],
     sd_results = [], sd_writing = [], sd_held = [], sd_notified = []\<rparr>"

definition stdio_connect :: "(io_kind \<times> string) option \<Rightarrow> stdio_state \<Rightarrow> stdio_state \<times> mcp_error option" where
  "stdio_connect spawn t =
     (case spawn of
        Some (k, e) \<Rightarrow> (t\<lparr>sd_state := Disconnected\<rparr>, Some (McpTransport (IoFailed k e)))
      | None \<Rightarrow> (t\<lparr>sd_open := True, sd_reading := True, sd_state := Ready, sd_pending := []\<rparr>, None))"

definition settled :: "stdio_state \<Rightarrow> (nat \<times> (mcp_error + rpc_response)) list" where
  "settled t = sd_results t @ sd_held t"

text \<open>
  The channel of a request is given its value. Who is still writing looks into it when the line is
  out; the receiver of a request that was given up is gone.
\<close>

definition give :: "nat \<Rightarrow> mcp_error + rpc_response \<Rightarrow> stdio_state \<Rightarrow> stdio_state" where
  "give waiter res t =
     (if waiter \<in> fst ` set (settled t) then t
      else if waiter \<in> set (sd_writing t) then t\<lparr>sd_held := sd_held t @ [(waiter, res)]\<rparr>
      else t\<lparr>sd_results := sd_results t @ [(waiter, res)]\<rparr>)"

text \<open>
  The start of a request: it is registered; the sender of an earlier request with the same
  identifier is dropped. Then its line is written: a failed write ends the request and leaves the
  registration; after a good one it waits, or finds what came in the meantime.
\<close>

definition stdio_register :: "rpc_request \<Rightarrow> stdio_state \<Rightarrow> stdio_state" where
  "stdio_register r t =
     (let waiter = length (sd_waiters t);
          t' = t\<lparr>sd_waiters := sd_waiters t @ [rq_id r]\<rparr> in
      if \<not> sd_open t then t'\<lparr>sd_results := sd_results t @ [(waiter, Inl mcp_disconnected)]\<rparr>
      else (case hm_get (sd_pending t) (rq_id r) of None \<Rightarrow> t' | Some old \<Rightarrow> give old (Inl mcp_disconnected) t')
             \<lparr>sd_writing := sd_writing t @ [waiter], sd_pending := hm_insert (rq_id r) waiter (sd_pending t)\<rparr>)"

definition stdio_written :: "nat \<Rightarrow> (io_kind \<times> string) option \<Rightarrow> stdio_state \<Rightarrow> stdio_state" where
  "stdio_written waiter write t =
     (let t' = t\<lparr>sd_writing := removeAll waiter (sd_writing t),
                 sd_held := filter (\<lambda>(w, _). w \<noteq> waiter) (sd_held t)\<rparr> in
      case write of
        Some (k, e) \<Rightarrow> t'\<lparr>sd_results := sd_results t @ [(waiter, Inl (McpTransport (IoFailed k e)))]\<rparr>
      | None \<Rightarrow>
          (case map_of (sd_held t) waiter of
             None \<Rightarrow> t'
           | Some res \<Rightarrow> t'\<lparr>sd_results := sd_results t @ [(waiter, res)]\<rparr>))"

text \<open>A line of the output.\<close>

definition stdio_line :: "json_io \<Rightarrow> string \<Rightarrow> stdio_state \<Rightarrow> stdio_state" where
  "stdio_line io line t =
     (case read_as io ''JsonRpcMessage'' message_of line of
        Inr (ResponseMessage r) \<Rightarrow>
          (case hm_get (sd_pending t) (rs_id r) of
             None \<Rightarrow> t
           | Some waiter \<Rightarrow> give waiter (Inr r) (t\<lparr>sd_pending := hm_remove (rs_id r) (sd_pending t)\<rparr>))
      | Inr (NotificationMessage n) \<Rightarrow> t\<lparr>sd_notified := sd_notified t @ [n]\<rparr>
      | _ \<Rightarrow> t)"

text \<open>The output ends, cannot be read, or the transport is shut down: everyone who waits is told.\<close>

definition stdio_exit :: "stdio_state \<Rightarrow> stdio_state" where
  "stdio_exit t =
     fold (\<lambda>(_, w). give w (Inl mcp_disconnected)) (sd_pending t)
       (t\<lparr>sd_reading := False, sd_state := Disconnected, sd_pending := []\<rparr>)"

text \<open>The wait for the response took too long; the registration is removed.\<close>

definition stdio_timeout :: "nat \<Rightarrow> stdio_state \<Rightarrow> stdio_state" where
  "stdio_timeout waiter t =
     give waiter (Inl mcp_timeout) (t\<lparr>sd_pending := hm_remove (sd_waiters t ! waiter) (sd_pending t)\<rparr>)"

definition stdio_close :: "stdio_state \<Rightarrow> stdio_state" where
  "stdio_close t = (if sd_open t \<and> sd_reading t then stdio_exit t else t)\<lparr>sd_open := False, sd_state := ClosedState\<rparr>"

text \<open>
  What can happen to the transport. A request is two steps, its registration and the end of its
  write, and anything may happen between them.
\<close>

inductive stdio_step :: "json_io \<Rightarrow> stdio_state \<Rightarrow> stdio_state \<Rightarrow> bool" for io where
  register: "stdio_step io t (stdio_register r t)"
| written: "w \<in> set (sd_writing t) \<Longrightarrow> stdio_step io t (stdio_written w write t)"
| line: "sd_reading t \<Longrightarrow> stdio_step io t (stdio_line io l t)"
| exit: "sd_reading t \<Longrightarrow> stdio_step io t (stdio_exit t)"
| timeout: "w < length (sd_waiters t) \<Longrightarrow> w \<notin> fst ` set (settled t) \<Longrightarrow> w \<notin> set (sd_writing t) \<Longrightarrow>
    stdio_step io t (stdio_timeout w t)"
| close: "stdio_step io t (stdio_close t)"

inductive stdio_steps :: "json_io \<Rightarrow> stdio_state \<Rightarrow> stdio_state \<Rightarrow> bool" for io where
  none: "stdio_steps io t t"
| more: "stdio_steps io t t' \<Longrightarrow> stdio_step io t' t'' \<Longrightarrow> stdio_steps io t t''"

section \<open>Chunks of a stream\<close>

lemma second_byte_continues: "second_byte b s \<Longrightarrow> continuation s"
  by (cases s) (auto simp: second_byte_def continuation_def split: if_splits)

lemma utf8_unit_continues:
  assumes "utf8_unit c s = (n, True)" "k < n"
  shows "continuation (drop k s)"
proof -
  from assms(1) have "n = 0 \<or> n = 1 \<and> continuation s \<or> n = 2 \<and> second_byte (byte c) s \<and> continuation (drop 1 s)
      \<or> n = 3 \<and> second_byte (byte c) s \<and> continuation (drop 1 s) \<and> continuation (drop 2 s)"
    by (simp add: utf8_unit_def Let_def split: if_splits)
  moreover from assms(2) have "k = 0 \<or> k = 1 \<or> k = 2 \<or> 3 < n" by linarith
  ultimately show ?thesis using assms(2) second_byte_continues by auto
qed

lemma utf8_starts: "valid_utf8 s \<Longrightarrow> \<not> continuation s"
  by (cases s) (auto simp: continuation_def utf8_unit_def Let_def split: if_splits)

lemma utf8_after_newline: "valid_utf8 (l @ CHR 0x0A # r) \<Longrightarrow> valid_utf8 r"
proof (induction l rule: length_induct)
  case (1 l)
  show ?case
  proof (cases l)
    case Nil
    with 1(2) show ?thesis by (simp add: utf8_unit_def)
  next
    case (Cons c s)
    obtain n good where "utf8_unit c (s @ CHR 0x0A # r) = (n, good)" by fastforce
    with 1(2) Cons have good: "utf8_unit c (s @ CHR 0x0A # r) = (n, True)" "valid_utf8 (drop n (s @ CHR 0x0A # r))" by auto
    have "n \<le> length s"
    proof (rule ccontr)
      assume "\<not> n \<le> length s"
      with utf8_unit_continues [OF good(1), of "length s"] show False by (simp add: continuation_def)
    qed
    with good(2) have "valid_utf8 (drop n s @ CHR 0x0A # r)" by simp
    moreover have "length (drop n s) < length l" using Cons by simp
    ultimately show ?thesis using 1(1) by blast
  qed
qed

lemma newlines_none: "CHR 0x0A \<notin> set s \<Longrightarrow> newlines s = []"
proof -
  assume "CHR 0x0A \<notin> set s"
  then have "s ! i \<noteq> CHR 0x0A" if "i < length s" for i using that nth_mem [of i s] by force
  then show ?thesis unfolding newlines_def by (simp add: filter_empty_conv)
qed

lemma newlines_append: "newlines (s @ t) = newlines s @ map (\<lambda>i. i + length s) (newlines t)"
proof -
  let ?n = "\<lambda>s i. s ! i = CHR 0x0A"
  have upt: "[0..<length (s @ t)] = [0..<length s] @ map (\<lambda>i. i + length s) [0..<length t]"
    using upt_add_eq_append [of 0 "length s" "length t"] unfolding map_add_upt length_append by (simp only: add.commute le0)
  have "filter (?n (s @ t)) [0..<length s] = filter (?n s) [0..<length s]" by (rule filter_cong) (simp_all add: nth_append)
  moreover have "filter (?n (s @ t)) (map (\<lambda>i. i + length s) is) = map (\<lambda>i. i + length s) (filter (?n t) is)" for "is"
    by (induction "is") (simp_all add: nth_append)
  ultimately show ?thesis unfolding newlines_def upt filter_append by metis
qed

lemma newlines_line: "newlines (CHR 0x0A # t) = 0 # map Suc (newlines t)"
proof -
  have "newlines [CHR 0x0A] = [0]" by (simp add: newlines_def)
  with newlines_append [of "[CHR 0x0A]" t] show ?thesis by simp
qed

lemma newlines_one: "CHR 0x0A \<notin> set l \<Longrightarrow> newlines (l @ CHR 0x0A # r) = length l # map (\<lambda>i. Suc (i + length l)) (newlines r)"
  by (simp add: newlines_append newlines_line newlines_none comp_def)

lemma one_newline:
  assumes "count_list s (CHR 0x0A) \<le> 1"
  obtains "CHR 0x0A \<notin> set s" | l r where "s = l @ CHR 0x0A # r" "CHR 0x0A \<notin> set l" "CHR 0x0A \<notin> set r"
proof (cases "CHR 0x0A \<in> set s")
  case True
  then obtain l r where s: "s = l @ CHR 0x0A # r" by (metis split_list)
  with assms have "count_list l (CHR 0x0A) = 0" "count_list r (CHR 0x0A) = 0" by simp_all
  with s that show ?thesis by (simp add: count_list_0_iff)
qed (use that in blast)

lemma split_lines_one:
  "CHR 0x0A \<notin> set l \<Longrightarrow> split_lines (l @ CHR 0x0A # r) = (l # fst (split_lines r), snd (split_lines r))"
  by (induction l) (auto simp: split_beta)

lemma char_boundary_newline:
  assumes "valid_utf8 (l @ CHR 0x0A # r)"
  shows "char_boundary (l @ CHR 0x0A # r) (length l)" "char_boundary (l @ CHR 0x0A # r) (Suc (length l))"
  using utf8_starts [OF utf8_after_newline [OF assms]] by (auto simp: char_boundary_def continuation_def)

lemma feed_first_line:
  assumes "valid_utf8 (l @ CHR 0x0A # r)"
  shows "feed_lines (l @ CHR 0x0A # r) (length l # is) 0 st =
    (case frame_line l st of (fs, st') \<Rightarrow>
       map_option (\<lambda>(fs', x). (fs @ fs', x)) (feed_lines (l @ CHR 0x0A # r) is (Suc (length l)) st'))"
proof -
  have "char_boundary (l @ CHR 0x0A # r) 0" by (simp add: char_boundary_def)
  with char_boundary_newline [OF assms] show ?thesis by (simp add: str_slice_def)
qed

lemma stream_feed_line:
  assumes "valid_utf8 c" "count_list c (CHR 0x0A) \<le> 1" "valid_utf8 (sp_buffer p)" "CHR 0x0A \<notin> set (sp_buffer p)"
  shows "stream_feed c p = (case split_lines (sp_buffer p @ c) of (ls, rest) \<Rightarrow>
      case frame_lines ls (sp_frame p) of (fs, st) \<Rightarrow> Some (fs, \<lparr>sp_buffer = rest, sp_frame = st\<rparr>))
    \<and> valid_utf8 (snd (split_lines (sp_buffer p @ c)))"
proof -
  have valid: "valid_utf8 (sp_buffer p @ c)" using assms by (simp add: valid_utf8_append)
  have "count_list (sp_buffer p @ c) (CHR 0x0A) \<le> 1" using assms(2,4) by (simp add: count_list_0_iff)
  then show ?thesis
  proof (cases rule: one_newline)
    case 1
    with valid assms(1) show ?thesis
      by (simp add: stream_feed_def newlines_none split_lines_line char_boundary_def)
  next
    case (2 l r)
    note feed = feed_first_line [of l r "[]"] and boundary = char_boundary_newline [of l r]
    from 2 valid have "valid_utf8 (l @ CHR 0x0A # r)" by simp
    with 2 assms(1) feed boundary utf8_after_newline show ?thesis
      by (simp add: stream_feed_def newlines_one newlines_none split_lines_one split_lines_line split_beta)
  qed
qed

lemma frame_lines_append:
  "frame_lines (ls @ ls') st =
     (case frame_lines ls st of (fs, st') \<Rightarrow> case frame_lines ls' st' of (fs', st'') \<Rightarrow> (fs @ fs', st''))"
  by (induction ls arbitrary: st) (auto simp: split_beta)

definition line_chunks :: "string list \<Rightarrow> bool" where
  "line_chunks cs \<longleftrightarrow> list_all (\<lambda>c. valid_utf8 c \<and> count_list c (CHR 0x0A) \<le> 1) cs"

lemma feed_chunks_concat:
  assumes "line_chunks cs" "valid_utf8 (sp_buffer p)" "CHR 0x0A \<notin> set (sp_buffer p)"
  shows "feed_chunks cs p =
    (case split_lines (sp_buffer p @ concat cs) of (ls, rest) \<Rightarrow>
       case frame_lines ls (sp_frame p) of (fs, st) \<Rightarrow> (fs, Some \<lparr>sp_buffer = rest, sp_frame = st\<rparr>))"
  using assms
proof (induction cs arbitrary: p)
  case Nil
  then show ?case by (simp add: split_lines_line)
next
  case (Cons c cs)
  obtain ls rest where l: "split_lines (sp_buffer p @ c) = (ls, rest)" by fastforce
  obtain fs st where f: "frame_lines ls (sp_frame p) = (fs, st)" by (metis surj_pair)
  have c: "line_chunks cs" "stream_feed c p = Some (fs, \<lparr>sp_buffer = rest, sp_frame = st\<rparr>)" "valid_utf8 rest"
    using Cons.prems stream_feed_line [of c p] l f by (simp_all add: line_chunks_def)
  have "CHR 0x0A \<notin> set rest" using split_lines_rest [of "sp_buffer p @ c"] l by simp
  with Cons.IH [of "\<lparr>sp_buffer = rest, sp_frame = st\<rparr>"] c
  have "feed_chunks cs \<lparr>sp_buffer = rest, sp_frame = st\<rparr> =
    (case split_lines (rest @ concat cs) of (ls', rest') \<Rightarrow>
       case frame_lines ls' st of (fs', st') \<Rightarrow> (fs', Some \<lparr>sp_buffer = rest', sp_frame = st'\<rparr>))" by simp
  with l f c(2) split_lines_append [of "sp_buffer p @ c" "concat cs"] show ?case
    by (simp add: frame_lines_append split_beta)
qed

lemma subscription_frames_concat:
  assumes "line_chunks cs"
  shows "subscription_frames cs = (case frame_lines (fst (split_lines (concat cs))) (None, []) of (fs, st) \<Rightarrow> fs @ flush_frame st)"
  using feed_chunks_concat [OF assms, of stream_parser_new]
  by (simp add: subscription_frames_def stream_parser_new_def split_beta)

lemma split_lines_set: "l \<in> set (fst (split_lines s)) \<Longrightarrow> set l \<subseteq> set s"
proof (induction s arbitrary: l)
  case (Cons c s)
  obtain ls rest where s: "split_lines s = (ls, rest)" by fastforce
  with Cons show ?case by (cases ls) (fastforce split: if_splits)+
qed simp

lemma strip_cr_none: "CHR 0x0D \<notin> set l \<Longrightarrow> strip_cr l = l"
  by (auto simp: strip_cr_def dest: last_in_set)

lemma trim_data: "trim_text ''data'' = ''data''"
  by code_simp

text \<open>
  When every chunk is a line or a part of one, its characters whole, a subscription finds the same
  frames however the body was cut into such chunks; and where lines end with newlines alone and the last one is
  complete, they are the frames that the parser of a whole body finds.
\<close>

theorem line_chunks_give_the_frames_of_the_body:
  assumes "line_chunks cs" "line_chunks cs'" "concat cs = concat cs'"
  shows "subscription_frames cs = subscription_frames cs'
    \<and> (CHR 0x0D \<notin> set (concat cs) \<longrightarrow> snd (split_lines (concat cs)) = [] \<longrightarrow> subscription_frames cs = parse_sse_frames (concat cs))"
proof -
  have same: "subscription_frames cs = subscription_frames cs'"
    using assms by (simp add: subscription_frames_concat)
  have "map strip_cr (fst (split_lines (concat cs))) = fst (split_lines (concat cs))" if "CHR 0x0D \<notin> set (concat cs)"
    using that by (intro map_idI strip_cr_none) (blast dest: split_lines_set)
  then have "subscription_frames cs = parse_sse_frames (concat cs)"
    if "CHR 0x0D \<notin> set (concat cs)" "snd (split_lines (concat cs)) = []"
    using that by (simp add: subscription_frames_concat [OF assms(1)] parse_sse_frames_def str_lines_def split_beta)
  with same show ?thesis by blast
qed

lemma line_chunks_give_the_frames_of_the_body_witness:
  "subscription_frames [''data: '', ''a'' @ [CHR 0x0A], [CHR 0x0A]] = parse_sse_frames (''data: a'' @ [CHR 0x0A, CHR 0x0A])"
proof -
  have "line_chunks [''data: '', ''a'' @ [CHR 0x0A], [CHR 0x0A]]" "line_chunks [''data: a'' @ [CHR 0x0A], [CHR 0x0A]]"
    by (simp_all add: line_chunks_def valid_utf8_ascii del: valid_utf8.simps)
  note conjunct2 [OF line_chunks_give_the_frames_of_the_body [OF this]]
  then show ?thesis by simp
qed

text \<open>
  C7: A subscription whose first chunk is a whole event of two lines, as the server sends its
  acknowledgement and its notifications, delivers nothing, whatever follows: the reader panics at the second
  newline. The parser of a whole body finds the event.
\<close>

theorem whole_events_end_the_reader:
  assumes "chunk = l @ [CHR 0x0A] @ l' @ [CHR 0x0A, CHR 0x0A]" "CHR 0x0A \<notin> set l" "CHR 0x0A \<notin> set l'" "2 \<le> length l" "valid_utf8 chunk"
  shows "feed_chunks (chunk # cs) stream_parser_new = ([], None) \<and> subscription_frames (chunk # cs) = []
    \<and> subscription_notifications io (chunk # cs) = []"
proof -
  let ?r = "l' @ CHR 0x0A # [CHR 0x0A]"
  have chunk: "chunk = l @ CHR 0x0A # ?r" using assms(1) by simp
  have "newlines chunk = length l # map (\<lambda>i. Suc (i + length l)) [length l', Suc (length l')]"
    using assms(2,3) unfolding chunk by (simp add: newlines_one newlines_line newlines_none del: append_assoc)
  moreover have "str_slice chunk (Suc (length l)) (Suc (length l) + Suc (length l' + length l)) = None"
    using assms(4) by (simp add: str_slice_def chunk)
  ultimately have "stream_feed chunk stream_parser_new = None"
    using feed_first_line [of l ?r] assms(5) by (simp add: stream_feed_def stream_parser_new_def chunk split_beta)
  then show ?thesis by (simp add: subscription_frames_def subscription_notifications_def map_filter_simps)
qed

lemma whole_events_end_the_reader_witness:
  "subscription_frames [message_event ''{}''] = [] \<and> parse_sse_frames (message_event ''{}'') = [\<lparr>mf_event = Some ''message'', mf_data = ''{}''\<rparr>]"
proof -
  have "message_event ''{}'' = ''event: message'' @ [CHR 0x0A] @ ''data: {}'' @ [CHR 0x0A, CHR 0x0A]" by (simp add: message_event_def)
  moreover from this have "valid_utf8 (message_event ''{}'')" by (simp add: valid_utf8_ascii del: valid_utf8.simps)
  ultimately have "subscription_frames [message_event ''{}''] = []"
    using whole_events_end_the_reader [of "message_event ''{}''" "''event: message''" "''data: {}''" "[]"] by simp
  moreover have "trim_text ''event'' = ''event''" by code_simp
  then have "parse_sse_frames (message_event ''{}'') = [\<lparr>mf_event = Some ''message'', mf_data = ''{}''\<rparr>]"
    by (simp add: parse_sse_frames_def str_lines_def message_event_def strip_cr_def frame_line_def parse_sse_field_def trim_data flush_frame_def)
  ultimately show ?thesis by blast
qed

section \<open>Responses reach those who asked\<close>

text \<open>
  What holds of the transport over a child process: every identifier that is registered has one
  waiter, who asked with it; nobody was given two results; and who was given none is registered.
  What is held back is for those who are still writing.
\<close>

definition pending_ok :: "nat list \<Rightarrow> (nat, nat) hashmap \<Rightarrow> bool" where
  "pending_ok ws p \<longleftrightarrow> hm_ok p \<and> (\<forall>i w. hm_get p i = Some w \<longrightarrow> w < length ws \<and> ws ! w = i)"

definition results_ok :: "nat list \<Rightarrow> (nat \<times> (mcp_error + rpc_response)) list \<Rightarrow> bool" where
  "results_ok ws rs \<longleftrightarrow> distinct (map fst rs) \<and> (\<forall>w \<in> fst ` set rs. w < length ws)
     \<and> (\<forall>w r. (w, Inr r) \<in> set rs \<longrightarrow> rs_id r = ws ! w)"

definition nobody_lost :: "nat list \<Rightarrow> (nat, nat) hashmap \<Rightarrow> (nat \<times> (mcp_error + rpc_response)) list \<Rightarrow> bool" where
  "nobody_lost ws p rs \<longleftrightarrow> (\<forall>w < length ws. w \<notin> fst ` set rs \<longrightarrow> hm_get p (ws ! w) = Some w)"

definition phases_ok :: "stdio_state \<Rightarrow> bool" where
  "phases_ok t \<longleftrightarrow> distinct (sd_writing t) \<and> set (sd_writing t) \<subseteq> {..<length (sd_waiters t)}
     \<and> fst ` set (sd_held t) \<subseteq> set (sd_writing t) \<and> set (sd_writing t) \<inter> fst ` set (sd_results t) = {}"

definition stdio_inv :: "stdio_state \<Rightarrow> bool" where
  "stdio_inv t \<longleftrightarrow> pending_ok (sd_waiters t) (sd_pending t) \<and> results_ok (sd_waiters t) (settled t)
     \<and> nobody_lost (sd_waiters t) (sd_pending t) (settled t) \<and> phases_ok t"

lemma pending_okD: "pending_ok ws p \<Longrightarrow> hm_get p i = Some w \<Longrightarrow> w < length ws \<and> ws ! w = i"
  by (simp add: pending_ok_def)

lemma pending_ok_Nil [simp]: "pending_ok ws []"
  by (simp add: pending_ok_def)

lemma pending_ok_remove: "pending_ok ws p \<Longrightarrow> pending_ok ws (hm_remove i p)"
  by (simp add: pending_ok_def)

lemma pending_ok_insert: "pending_ok ws p \<Longrightarrow> pending_ok (ws @ [i]) (hm_insert i (length ws) p)"
  by (auto simp: pending_ok_def nth_append dest: less_SucI split: if_splits)

lemma pending_ok_waiters:
  assumes "pending_ok ws p"
  shows "distinct (map snd p)" "w \<in> snd ` set p \<Longrightarrow> w < length ws"
proof -
  have get: "hm_get p i = Some w" if "(i, w) \<in> set p" for i w
    using that assms hm_get_Some_iff [of p i w] by (simp add: pending_ok_def)
  have "inj_on snd (set p)"
    by (intro inj_onI) (metis assms get pending_okD prod.collapse)
  moreover have "distinct p" using assms by (simp add: pending_ok_def hm_ok_def distinct_map)
  ultimately show "distinct (map snd p)" by (simp add: distinct_map)
  show "w < length ws" if "w \<in> snd ` set p" using that get pending_okD [OF assms] by fastforce
qed

lemma results_ok_Nil [simp]: "results_ok ws []"
  by (simp add: results_ok_def)

lemma results_ok_waiter: "results_ok ws rs \<Longrightarrow> results_ok (ws @ [i]) rs"
  unfolding results_ok_def by (force simp: nth_append)

lemma results_ok_errors:
  assumes "results_ok ws rs" "distinct new" "\<forall>w \<in> set new. w < length ws \<and> w \<notin> fst ` set rs"
  shows "results_ok ws (rs @ map (\<lambda>w. (w, Inl (e w))) new)"
proof -
  have "map fst (map (\<lambda>w. (w, Inl (e w) :: mcp_error + rpc_response)) new) = new" by (simp add: comp_def)
  with assms show ?thesis unfolding results_ok_def by (auto simp del: map_map)
qed

lemma results_ok_reply:
  "results_ok ws rs \<Longrightarrow> w < length ws \<Longrightarrow> w \<notin> fst ` set rs \<Longrightarrow> rs_id r = ws ! w \<Longrightarrow> results_ok ws (rs @ [(w, Inr r)])"
  by (auto simp: results_ok_def)

lemma results_ok_error:
  "results_ok ws rs \<Longrightarrow> w < length ws \<Longrightarrow> w \<notin> fst ` set rs \<Longrightarrow> results_ok ws (rs @ [(w, Inl e)])"
  using results_ok_errors [of ws rs "[w]" "\<lambda>_. e"] by simp

lemma results_ok_mset:
  assumes "mset rs = mset rs'" "results_ok ws rs"
  shows "results_ok ws rs'"
proof -
  have "set rs = set rs'" "mset (map fst rs) = mset (map fst rs')"
    using assms(1) mset_eq_setD by (blast, simp)
  moreover from this(2) have "distinct (map fst rs) = distinct (map fst rs')" by (rule mset_eq_imp_distinct_iff)
  ultimately show ?thesis using assms(2) by (simp add: results_ok_def)
qed

lemma give_simps [simp]:
  "sd_waiters (give w res t) = sd_waiters t" "sd_pending (give w res t) = sd_pending t"
  "sd_writing (give w res t) = sd_writing t" "sd_open (give w res t) = sd_open t"
  by (simp_all add: give_def)

lemma give_settled:
  "mset (settled (give w res t)) = mset (if w \<in> fst ` set (settled t) then settled t else settled t @ [(w, res)])"
  "set (settled (give w res t)) = set (if w \<in> fst ` set (settled t) then settled t else settled t @ [(w, res)])"
  by (auto simp: give_def settled_def)

lemma give_phases: "phases_ok t \<Longrightarrow> w \<in> set (sd_writing t) \<or> w < length (sd_waiters t) \<Longrightarrow> phases_ok (give w res t)"
  by (auto simp: phases_ok_def give_def settled_def)

lemma give_results_ok:
  assumes "results_ok ws (settled t)" "w < length ws" "case res of Inl _ \<Rightarrow> True | Inr r \<Rightarrow> rs_id r = ws ! w"
  shows "results_ok ws (settled (give w res t))"
proof -
  have "results_ok ws (if w \<in> fst ` set (settled t) then settled t else settled t @ [(w, res)])"
    using assms by (cases res) (auto simp: results_ok_reply results_ok_error simp del: set_append)
  then show ?thesis by (rule results_ok_mset [OF give_settled(1) [symmetric]])
qed

lemma give_nobody_lost:
  "nobody_lost ws p (settled t) \<Longrightarrow> nobody_lost ws p (settled (give w res t))"
  by (auto simp: nobody_lost_def give_settled(2))

lemma give_pending: "give w res (t\<lparr>sd_pending := p\<rparr>) = (give w res t)\<lparr>sd_pending := p\<rparr>"
  by (simp add: give_def settled_def)

lemma settled_updates [simp]:
  "settled (t\<lparr>sd_pending := p\<rparr>) = settled t" "settled (t\<lparr>sd_waiters := ws\<rparr>) = settled t"
  "settled (t\<lparr>sd_writing := wr\<rparr>) = settled t" "settled (t\<lparr>sd_open := a\<rparr>) = settled t"
  "settled (t\<lparr>sd_state := b\<rparr>) = settled t" "settled (t\<lparr>sd_reading := a\<rparr>) = settled t"
  "settled (t\<lparr>sd_notified := ns\<rparr>) = settled t"
  by (simp_all add: settled_def)

lemma phases_ok_updates [simp]:
  "phases_ok (t\<lparr>sd_pending := p\<rparr>) = phases_ok t" "phases_ok (t\<lparr>sd_open := a\<rparr>) = phases_ok t"
  "phases_ok (t\<lparr>sd_state := b\<rparr>) = phases_ok t" "phases_ok (t\<lparr>sd_reading := a\<rparr>) = phases_ok t"
  "phases_ok (t\<lparr>sd_notified := ns\<rparr>) = phases_ok t"
  by (simp_all add: phases_ok_def)

lemma settled_waiter: "results_ok ws (settled t) \<Longrightarrow> length ws \<notin> fst ` set (settled t)"
  by (auto simp: results_ok_def)

lemma stdio_inv_new: "stdio_inv stdio_new"
  by (simp add: stdio_inv_def stdio_new_def nobody_lost_def settled_def phases_ok_def)

text \<open>
  A result is given to whoever is registered under an identifier, unless it was given up; and the
  registration goes or is replaced.
\<close>

lemma stdio_inv_answer:
  assumes "stdio_inv t" "hm_get (sd_pending t) i = Some w" "case res of Inl _ \<Rightarrow> True | Inr r \<Rightarrow> rs_id r = i"
  shows "stdio_inv (give w res (t\<lparr>sd_pending := hm_remove i (sd_pending t)\<rparr>))"
proof -
  have w: "w < length (sd_waiters t)" "sd_waiters t ! w = i"
    using pending_okD [OF _ assms(2)] assms(1) by (auto simp: stdio_inv_def)
  have "hm_get (hm_remove i (sd_pending t)) (sd_waiters t ! v) = Some v"
    if v: "v < length (sd_waiters t)" "v \<notin> fst ` set (settled (give w res t))" for v
  proof -
    from v(2) have "v \<notin> fst ` set (settled t)" "v \<noteq> w"
      unfolding give_settled(2) by (auto split: if_splits)
    moreover from this v(1) assms(1) have "hm_get (sd_pending t) (sd_waiters t ! v) = Some v"
      by (simp add: stdio_inv_def nobody_lost_def)
    ultimately show ?thesis using assms(2) by auto
  qed
  then have "nobody_lost (sd_waiters t) (hm_remove i (sd_pending t)) (settled (give w res t))"
    by (simp add: nobody_lost_def)
  moreover have "case res of Inl _ \<Rightarrow> True | Inr r \<Rightarrow> rs_id r = sd_waiters t ! w" using assms(3) w(2) by (cases res) auto
  note give_results_ok [OF _ w(1) this]
  ultimately show ?thesis using assms(1) w give_phases [of t w res]
    by (simp add: stdio_inv_def give_pending pending_ok_remove)
qed

lemma stdio_inv_register_new:
  assumes "stdio_inv t" "hm_get (sd_pending t) i = None"
  shows "stdio_inv (t\<lparr>sd_waiters := sd_waiters t @ [i], sd_writing := sd_writing t @ [length (sd_waiters t)],
    sd_pending := hm_insert i (length (sd_waiters t)) (sd_pending t)\<rparr>)"
proof -
  have "hm_get (sd_pending t) (sd_waiters t ! w) = Some w" if "w < length (sd_waiters t)" "w \<notin> fst ` set (settled t)" for w
    using assms(1) that by (simp add: stdio_inv_def nobody_lost_def)
  with assms(2) have "nobody_lost (sd_waiters t @ [i]) (hm_insert i (length (sd_waiters t)) (sd_pending t)) (settled t)"
    unfolding nobody_lost_def by (metis hm_get_insert length_append_singleton less_Suc_eq nth_append nth_append_length option.discI)
  moreover have "length (sd_waiters t) \<notin> fst ` set (sd_results t)"
    using assms(1) settled_waiter [of "sd_waiters t" t] by (simp add: stdio_inv_def settled_def image_Un)
  ultimately show ?thesis using assms(1)
    by (fastforce simp: stdio_inv_def pending_ok_insert results_ok_waiter phases_ok_def)
qed

lemma stdio_inv_same_pending:
  "stdio_inv (t\<lparr>sd_pending := p\<rparr>) \<Longrightarrow> hm_ok q \<Longrightarrow> hm_get q = hm_get p \<Longrightarrow> stdio_inv (t\<lparr>sd_pending := q\<rparr>)"
  by (simp add: stdio_inv_def pending_ok_def nobody_lost_def)

lemma stdio_inv_register:
  assumes "stdio_inv t"
  shows "stdio_inv (stdio_register r t)"
proof (cases "sd_open t")
  case False
  let ?n = "length (sd_waiters t)" and ?res = "Inl mcp_disconnected :: mcp_error + rpc_response"
  have new: "?n \<notin> fst ` set (settled t)" using assms settled_waiter by (simp add: stdio_inv_def)
  have "mset (settled t @ [(?n, ?res)]) = mset (sd_results t @ [(?n, ?res)] @ sd_held t)" by (simp add: settled_def)
  moreover have "results_ok (sd_waiters t @ [rq_id r]) (settled t @ [(?n, ?res)])"
    using assms new by (intro results_ok_error) (simp_all add: stdio_inv_def results_ok_waiter)
  ultimately have "results_ok (sd_waiters t @ [rq_id r]) (sd_results t @ [(?n, ?res)] @ sd_held t)"
    by (rule results_ok_mset)
  moreover have "nobody_lost (sd_waiters t @ [rq_id r]) (sd_pending t) (sd_results t @ [(?n, ?res)] @ sd_held t)"
    using assms by (auto simp: stdio_inv_def nobody_lost_def nth_append less_Suc_eq settled_def)
  moreover have "pending_ok (sd_waiters t @ [rq_id r]) (sd_pending t)"
    using assms by (auto simp: stdio_inv_def pending_ok_def nth_append less_SucI)
  moreover have "set (sd_writing t) \<subseteq> {..<?n}" using assms by (simp add: stdio_inv_def phases_ok_def)
  ultimately show ?thesis
    using False assms by (auto simp: stdio_register_def stdio_inv_def settled_def phases_ok_def)
next
  case True
  let ?i = "rq_id r" and ?n = "length (sd_waiters t)"
  define t1 where "t1 = (case hm_get (sd_pending t) ?i of None \<Rightarrow> t
      | Some old \<Rightarrow> give old (Inl mcp_disconnected) (t\<lparr>sd_pending := hm_remove ?i (sd_pending t)\<rparr>))"
  have t1: "sd_waiters t1 = sd_waiters t" "sd_writing t1 = sd_writing t" by (simp_all add: t1_def split: option.split)
  have inv1: "stdio_inv t1"
    using assms stdio_inv_answer [OF assms] by (auto simp: t1_def split: option.split)
  have none: "hm_get (sd_pending t1) ?i = None" by (simp add: t1_def split: option.split)
  have ok: "hm_ok (hm_insert ?i ?n (sd_pending t))" using assms by (simp add: stdio_inv_def pending_ok_def)
  have get: "hm_get (hm_insert ?i ?n (sd_pending t)) = hm_get (hm_insert ?i ?n (sd_pending t1))"
    by (auto simp: t1_def split: option.split)
  note stdio_inv_register_new [OF inv1 none]
  then have "stdio_inv (t1\<lparr>sd_waiters := sd_waiters t @ [?i], sd_writing := sd_writing t @ [?n],
      sd_pending := hm_insert ?i ?n (sd_pending t)\<rparr>)"
    using stdio_inv_same_pending [of "hm_insert ?i ?n (sd_pending t1)" "t1\<lparr>sd_waiters := sd_waiters t @ [?i], sd_writing := sd_writing t @ [?n]\<rparr>"
        "hm_insert ?i ?n (sd_pending t)"] ok get by (simp add: t1)
  moreover have "stdio_register r t =
      t1\<lparr>sd_waiters := sd_waiters t @ [?i], sd_writing := sd_writing t @ [?n], sd_pending := hm_insert ?i ?n (sd_pending t)\<rparr>"
    using True by (intro stdio_state.equality) (simp_all add: stdio_register_def t1_def give_def settled_def Let_def split: option.split)
  ultimately show ?thesis by simp
qed

lemma stdio_inv_line:
  assumes "stdio_inv t"
  shows "stdio_inv (stdio_line io l t)"
proof -
  have "stdio_inv (t\<lparr>sd_notified := ns\<rparr>)" for ns using assms by (simp add: stdio_inv_def)
  then show ?thesis
    using assms stdio_inv_answer [OF assms]
    by (simp add: stdio_line_def split: sum.split rpc_message.split option.split)
qed

text \<open>What the end of a write changes: the waiter is given what was held for it, or the error.\<close>

lemma written_phases:
  "phases_ok t \<Longrightarrow> phases_ok (stdio_written w write t)"
  by (auto simp: stdio_written_def phases_ok_def Let_def distinct_removeAll split: option.split)

lemma written_frame:
  "sd_waiters (stdio_written w write t) = sd_waiters t" "sd_pending (stdio_written w write t) = sd_pending t"
  "sd_writing (stdio_written w write t) = removeAll w (sd_writing t)"
  by (simp_all add: stdio_written_def Let_def split: option.split)

lemma held_none: "map_of hs w = None \<Longrightarrow> filter (\<lambda>(v, _). v \<noteq> w) hs = hs"
  by (induction hs) (auto split: if_splits)

lemma held_value:
  assumes "results_ok ws (settled t)" "map_of (sd_held t) w = Some res"
  shows "mset (sd_results t @ (w, res) # filter (\<lambda>(v, _). v \<noteq> w) (sd_held t)) = mset (settled t)"
proof -
  have d: "distinct (map fst (sd_held t))" using assms(1) by (simp add: results_ok_def settled_def)
  have "mset hs = add_mset (w, res) (mset (filter (\<lambda>(v, _). v \<noteq> w) hs))"
    if "distinct (map fst hs)" "map_of hs w = Some res" for hs
    using that
  proof (induction hs)
    case (Cons h hs)
    show ?case
    proof (cases "fst h = w")
      case True
      with Cons.prems have "map_of hs w = None" by (auto simp: map_of_eq_None_iff)
      then have "filter (\<lambda>(v, _). v \<noteq> w) hs = hs" by (rule held_none)
      with True Cons.prems show ?thesis by (cases h) auto
    qed (use Cons in \<open>auto split: if_splits prod.splits\<close>)
  qed simp
  from this [OF d assms(2)] show ?thesis by (simp add: settled_def)
qed

lemma results_ok_without:
  assumes "results_ok ws (rs @ hs)" "w < length ws" "w \<notin> fst ` set rs"
  shows "results_ok ws ((rs @ [(w, Inl e)]) @ filter (\<lambda>(v, _). v \<noteq> w) hs)"
proof -
  have "distinct (map fst (filter (\<lambda>(v, _). v \<noteq> w) hs))"
    using assms(1) by (induction hs) (auto simp: results_ok_def)
  with assms show ?thesis unfolding results_ok_def by (auto simp: image_iff)
qed

lemma stdio_inv_written:
  assumes "stdio_inv t" "w \<in> set (sd_writing t)"
  shows "stdio_inv (stdio_written w write t)"
proof -
  have ok: "results_ok (sd_waiters t) (settled t)" "nobody_lost (sd_waiters t) (sd_pending t) (settled t)"
    using assms(1) by (simp_all add: stdio_inv_def)
  have w: "w < length (sd_waiters t)" "w \<notin> fst ` set (sd_results t)"
    using assms by (auto simp: stdio_inv_def phases_ok_def)
  have "results_ok (sd_waiters t) (settled (stdio_written w write t))
      \<and> nobody_lost (sd_waiters t) (sd_pending t) (settled (stdio_written w write t))"
  proof (cases "write")
    case None
    show ?thesis
    proof (cases "map_of (sd_held t) w")
      case none: None
      then have "settled (stdio_written w write t) = settled t"
        by (simp add: stdio_written_def None held_none settled_def Let_def)
      with ok show ?thesis by simp
    next
      case (Some res)
      then have "mset (settled (stdio_written w write t)) = mset (settled t)"
        using held_value [OF ok(1) Some] by (simp add: stdio_written_def None settled_def Let_def)
      moreover from this have "set (settled (stdio_written w write t)) = set (settled t)" by (rule mset_eq_setD)
      ultimately show ?thesis using ok results_ok_mset by (metis nobody_lost_def)
    qed
  next
    case (Some ke)
    obtain k e where ke: "ke = (k, e)" by fastforce
    have s: "settled (stdio_written w write t)
        = (sd_results t @ [(w, Inl (McpTransport (IoFailed k e)))]) @ filter (\<lambda>(v, _). v \<noteq> w) (sd_held t)"
      by (simp add: stdio_written_def Some ke settled_def Let_def)
    have "fst ` set (settled t) \<subseteq> fst ` set (settled (stdio_written w write t))"
      unfolding s by (force simp: settled_def)
    with ok(2) have "nobody_lost (sd_waiters t) (sd_pending t) (settled (stdio_written w write t))"
      unfolding nobody_lost_def by blast
    with results_ok_without [OF ok(1) [unfolded settled_def] w] show ?thesis unfolding s by blast
  qed
  with assms(1) written_phases written_frame show ?thesis by (simp add: stdio_inv_def)
qed

text \<open>The end of the process: everyone registered is given an error.\<close>

lemma fold_give:
  assumes "results_ok ws (settled t)" "\<forall>w \<in> snd ` set p. w < length ws" "sd_waiters t = ws" "phases_ok t"
  shows "results_ok ws (settled (fold (\<lambda>(_, w). give w (Inl e)) p t)) \<and> phases_ok (fold (\<lambda>(_, w). give w (Inl e)) p t)
    \<and> fst ` set (settled (fold (\<lambda>(_, w). give w (Inl e)) p t)) = fst ` set (settled t) \<union> snd ` set p"
  using assms
proof (induction p arbitrary: t)
  case (Cons q p)
  obtain i w where q: "q = (i, w)" by fastforce
  have "results_ok ws (settled (give w (Inl e) t))" "phases_ok (give w (Inl e) t)"
    using Cons.prems by (auto intro!: give_results_ok give_phases simp: q)
  moreover have "fst ` set (settled (give w (Inl e) t)) = insert w (fst ` set (settled t))"
    by (auto simp: give_settled(2))
  ultimately show ?case using Cons.IH [of "give w (Inl e) t"] Cons.prems by (simp add: q)
qed simp

lemma fold_give_frame:
  "sd_waiters (fold (\<lambda>(_, w). give w (Inl e)) p t) = sd_waiters t"
  "sd_pending (fold (\<lambda>(_, w). give w (Inl e)) p t) = sd_pending t"
  "sd_writing (fold (\<lambda>(_, w). give w (Inl e)) p t) = sd_writing t"
  by (induction p arbitrary: t) (auto simp: split_beta)

lemma stdio_exit_frame:
  "sd_waiters (stdio_exit t) = sd_waiters t" "sd_pending (stdio_exit t) = []" "sd_writing (stdio_exit t) = sd_writing t"
  by (simp_all add: stdio_exit_def fold_give_frame)

lemma stdio_exit_settles:
  assumes "stdio_inv t"
  shows "stdio_inv (stdio_exit t) \<and> fst ` set (settled (stdio_exit t)) = {..<length (sd_waiters t)}"
proof -
  have p: "pending_ok (sd_waiters t) (sd_pending t)" using assms by (simp add: stdio_inv_def)
  have bound: "\<forall>w \<in> snd ` set (sd_pending t). w < length (sd_waiters t)" using pending_ok_waiters(2) [OF p] by blast
  note told = fold_give [where t = "t\<lparr>sd_reading := False, sd_state := Disconnected, sd_pending := []\<rparr>" and e = mcp_disconnected,
      OF _ bound, folded stdio_exit_def, simplified]
  have told: "results_ok (sd_waiters t) (settled (stdio_exit t))" "phases_ok (stdio_exit t)"
    "fst ` set (settled (stdio_exit t)) = fst ` set (settled t) \<union> snd ` set (sd_pending t)"
    using told assms by (auto simp: stdio_inv_def)
  have "w \<in> snd ` set (sd_pending t)" if "w < length (sd_waiters t)" "w \<notin> fst ` set (settled t)" for w
  proof -
    have "hm_get (sd_pending t) (sd_waiters t ! w) = Some w" using assms that by (simp add: stdio_inv_def nobody_lost_def)
    then have "(sd_waiters t ! w, w) \<in> set (sd_pending t)"
      using hm_get_Some_iff [of "sd_pending t"] p unfolding pending_ok_def by blast
    then show ?thesis by force
  qed
  moreover have "fst ` set (settled t) \<subseteq> {..<length (sd_waiters t)}"
    using assms by (auto simp: stdio_inv_def results_ok_def)
  ultimately have all: "fst ` set (settled (stdio_exit t)) = {..<length (sd_waiters t)}"
    using told(3) bound by auto
  then have "nobody_lost (sd_waiters t) [] (settled (stdio_exit t))" by (simp add: nobody_lost_def)
  with told all show ?thesis by (simp add: stdio_inv_def stdio_exit_frame)
qed

lemma stdio_inv_timeout:
  assumes "stdio_inv t" "w < length (sd_waiters t)" "w \<notin> fst ` set (settled t)"
  shows "stdio_inv (stdio_timeout w t)"
proof -
  have "hm_get (sd_pending t) (sd_waiters t ! w) = Some w" using assms by (simp add: stdio_inv_def nobody_lost_def)
  from stdio_inv_answer [OF assms(1) this, of "Inl mcp_timeout"] show ?thesis by (simp add: stdio_timeout_def)
qed

lemma stdio_inv_state: "stdio_inv (t\<lparr>sd_open := a, sd_state := b\<rparr>) = stdio_inv t"
  by (simp add: stdio_inv_def)

lemma stdio_inv_step: "stdio_step io t t' \<Longrightarrow> stdio_inv t \<Longrightarrow> stdio_inv t'"
  by (erule stdio_step.cases)
    (simp_all add: stdio_close_def stdio_inv_state stdio_inv_register stdio_inv_written stdio_inv_line stdio_exit_settles stdio_inv_timeout)

lemma stdio_inv_steps: "stdio_steps io t t' \<Longrightarrow> stdio_inv t \<Longrightarrow> stdio_inv t'"
  by (induction rule: stdio_steps.induct) (auto intro: stdio_inv_step)

lemma stdio_inv_connect: "sd_pending t = [] \<Longrightarrow> stdio_inv (fst (stdio_connect sp t)) = stdio_inv t"
  by (auto simp: stdio_connect_def stdio_inv_def split: option.split)

text \<open>When everyone has a result or one is held back, and the writes end, everyone has a result.\<close>

lemma stdio_inv_writes:
  "stdio_inv t \<Longrightarrow> distinct ws \<Longrightarrow> set ws \<subseteq> set (sd_writing t) \<Longrightarrow>
     stdio_inv (fold (\<lambda>w. stdio_written w (outcome w)) ws t)
     \<and> sd_writing (fold (\<lambda>w. stdio_written w (outcome w)) ws t) = filter (\<lambda>w. w \<notin> set ws) (sd_writing t)
     \<and> fst ` set (settled t) \<subseteq> fst ` set (settled (fold (\<lambda>w. stdio_written w (outcome w)) ws t))
     \<and> sd_waiters (fold (\<lambda>w. stdio_written w (outcome w)) ws t) = sd_waiters t"
proof (induction ws arbitrary: t)
  case (Cons w ws)
  let ?t = "stdio_written w (outcome w) t"
  have inv: "stdio_inv ?t" using Cons.prems by (simp add: stdio_inv_written)
  have kept: "fst ` set (settled t) \<subseteq> fst ` set (settled ?t)"
    by (auto simp: stdio_written_def settled_def Let_def image_iff held_none split: option.split)
  have "set ws \<subseteq> set (sd_writing ?t)" using Cons.prems by (auto simp: written_frame)
  note IH = Cons.IH [OF inv _ this]
  moreover have "filter (\<lambda>v. v \<notin> set ws) (sd_writing ?t) = filter (\<lambda>v. v \<notin> set (w # ws)) (sd_writing t)"
    by (auto simp: written_frame removeAll_filter_not_eq intro: filter_cong)
  ultimately show ?case using Cons.prems order_trans [OF kept] by (simp add: written_frame)
qed simp

text \<open>
  C4: However registrations, writes and their failures, lines of the output, the end of the process,
  timeouts and shutdowns interleave, a transport over a child process gives nobody two results, gives a
  response only to one who asked with its identifier, and loses no one: who has no result yet is the one
  registered under the identifier that was asked with, or is still writing and has one held back; and once
  the process has ended and the writes that were under way have ended in whatever way, everyone who had
  asked has a result.
\<close>

theorem stdio_answers_those_who_asked:
  assumes "stdio_steps io (fst (stdio_connect None stdio_new)) t"
  shows "distinct (map fst (sd_results t))
    \<and> (\<forall>w r. (w, Inr r) \<in> set (sd_results t) \<longrightarrow> w < length (sd_waiters t) \<and> rs_id r = sd_waiters t ! w)
    \<and> (\<forall>w < length (sd_waiters t). w \<notin> fst ` set (sd_results t) \<longrightarrow>
         hm_get (sd_pending t) (sd_waiters t ! w) = Some w \<or> w \<in> set (sd_writing t) \<inter> fst ` set (sd_held t))
    \<and> fst ` set (sd_results (fold (\<lambda>w. stdio_written w (outcome w)) (sd_writing t) (stdio_exit t))) = {..<length (sd_waiters t)}"
proof -
  have inv: "stdio_inv t"
    using stdio_inv_steps [OF assms] stdio_inv_connect [of stdio_new None] stdio_inv_new by (simp add: stdio_new_def)
  then have settled_all: "results_ok (sd_waiters t) (settled t)" by (simp add: stdio_inv_def)
  note ended = stdio_exit_settles [OF inv]
  define t' where "t' = fold (\<lambda>w. stdio_written w (outcome w)) (sd_writing t) (stdio_exit t)"
  have t': "stdio_inv t'" "sd_writing t' = []" "{..<length (sd_waiters t)} \<subseteq> fst ` set (settled t')" "sd_waiters t' = sd_waiters t"
    using stdio_inv_writes [of "stdio_exit t" "sd_writing t" outcome] ended inv
    unfolding t'_def [symmetric] by (auto simp: stdio_exit_frame stdio_inv_def phases_ok_def)
  then have "sd_held t' = []" by (simp add: stdio_inv_def phases_ok_def)
  with t' have "fst ` set (sd_results t') = {..<length (sd_waiters t)}"
    by (auto simp: stdio_inv_def results_ok_def settled_def)
  moreover have "distinct (map fst (sd_results t))"
    "\<forall>w r. (w, Inr r) \<in> set (sd_results t) \<longrightarrow> w < length (sd_waiters t) \<and> rs_id r = sd_waiters t ! w"
    using settled_all by (simp_all add: results_ok_def settled_def) force
  moreover have "hm_get (sd_pending t) (sd_waiters t ! w) = Some w \<or> w \<in> set (sd_writing t) \<inter> fst ` set (sd_held t)"
    if "w < length (sd_waiters t)" "w \<notin> fst ` set (sd_results t)" for w
    using inv that by (auto simp: stdio_inv_def nobody_lost_def settled_def phases_ok_def image_Un)
  ultimately show ?thesis unfolding t'_def by blast
qed

lemma stdio_answers_those_who_asked_witness:
  "\<exists>io t. stdio_steps io (fst (stdio_connect None stdio_new)) t \<and> length (sd_waiters t) = 2 \<and> sd_writing t = [1]
     \<and> sd_results t = [] \<and> sd_held t = [(1, Inr \<lparr>rs_jsonrpc = ''2.0'', rs_id = 8, rs_result = RpcSuccess (JBool True)\<rparr>)]
     \<and> fst ` set (sd_results (fold (\<lambda>w. stdio_written w None) (sd_writing t) (stdio_exit t))) = {..<2}"
proof -
  define r :: rpc_response where "r = \<lparr>rs_jsonrpc = ''2.0'', rs_id = 8, rs_result = RpcSuccess (JBool True)\<rparr>"
  define io where "io = \<lparr>io_print = \<lambda>_. [], io_parse = \<lambda>_. Inr (json_norm (response_json r)), io_mismatch = \<lambda>_ _. []\<rparr>"
  define t0 where "t0 = fst (stdio_connect None stdio_new)"
  define t1 where "t1 = stdio_register (request_new 7 ''ping'' None) t0"
  define t2 where "t2 = stdio_written 0 None t1"
  define t3 where "t3 = stdio_register (request_new 8 ''ping'' None) t2"
  define t where "t = stdio_line io ''{}'' t3"
  note defs = t1_def t2_def t3_def t0_def stdio_connect_def stdio_new_def stdio_register_def stdio_written_def Let_def request_new_def
  have read: "read_as io ''JsonRpcMessage'' message_of ''{}'' = Inr (ResponseMessage r)"
    using message_back [of r] by (simp add: read_as_def io_def r_def sendable_result_def norm_result_def)
  have reading: "sd_reading t3" "0 \<in> set (sd_writing t1)" by (simp_all add: defs)
  have s: "stdio_step io t0 t1" "stdio_step io t1 t2" "stdio_step io t2 t3"
    by (simp_all only: t3_def t2_def stdio_step.written [OF reading(2)] stdio_step.register) (simp only: t1_def stdio_step.register)
  have steps: "stdio_steps io t0 t"
    unfolding t_def
    by (rule stdio_steps.more [OF stdio_steps.more [OF stdio_steps.more [OF stdio_steps.more [OF stdio_steps.none s(1)] s(2)] s(3)]])
      (rule stdio_step.line [OF reading(1)])
  have t: "length (sd_waiters t) = 2" "sd_results t = []" "sd_writing t = [1]" "sd_held t = [(1, Inr r)]"
    by (simp_all add: t_def stdio_line_def read r_def defs give_def settled_def)
  have "fst ` set (sd_results (fold (\<lambda>w. stdio_written w ((\<lambda>_. None) w)) (sd_writing t) (stdio_exit t))) = {..<length (sd_waiters t)}"
    using stdio_answers_those_who_asked [OF steps [unfolded t0_def], of "\<lambda>_. None"] by (elim conjE)
  with steps t show ?thesis
    unfolding t0_def r_def by (intro exI [of _ io] exI [of _ t] conjI) simp_all
qed

end
