(* ===== verification/Mcp_Client.thy ===== *)
theory Mcp_Client
  imports Mcp_Transport
begin

text \<open>
  The client of the tool protocol (\<open>client/mod.rs\<close>) over any transport: the numbering of
  requests, what is added to each, its calls. Composed with the HTTP transport and the server it
  gives what the tools of the server return.

  A result \<open>None\<close> is a panic.
\<close>

record client_meta =
  cm_version :: string
  cm_info :: "implementation_info option"
  cm_capabilities :: json

definition client_meta_new :: client_meta where
  "client_meta_new = \<lparr>cm_version = protocol_version, cm_info = None, cm_capabilities = JObject []\<rparr>"

text \<open>The operations of a transport \<open>'t\<close>.\<close>

record 't transport_ops =
  tr_connect :: "'t \<Rightarrow> 't \<times> mcp_error option"
  tr_request :: "rpc_request \<Rightarrow> 't \<Rightarrow> 't \<times> (mcp_error + rpc_response)"
  tr_subscribe :: "rpc_request \<Rightarrow> 't \<Rightarrow> 't \<times> (mcp_error + string option \<times> rpc_notification list)"
  tr_notifies :: bool
  tr_close :: "'t \<Rightarrow> 't \<times> mcp_error option"
  tr_state :: "'t \<Rightarrow> connection_state"

record 't mcp_client =
  mc_transport :: 't
  mc_next :: nat
  mc_meta :: client_meta

type_synonym ('t, 'a) client_result = "'t mcp_client \<times> (mcp_error + 'a) option"

definition with_transport :: "'t \<Rightarrow> 't mcp_client" where
  "with_transport t = \<lparr>mc_transport = t, mc_next = 1, mc_meta = client_meta_new\<rparr>"

definition set_client_info :: "string \<Rightarrow> string \<Rightarrow> 't mcp_client \<Rightarrow> 't mcp_client" where
  "set_client_info n v cl = cl\<lparr>mc_meta := (mc_meta cl)\<lparr>cm_info := Some \<lparr>ii_name = n, ii_version = v\<rparr>\<rparr>\<rparr>"

definition set_client_capabilities :: "json \<Rightarrow> 't mcp_client \<Rightarrow> 't mcp_client" where
  "set_client_capabilities c cl = cl\<lparr>mc_meta := (mc_meta cl)\<lparr>cm_capabilities := c\<rparr>\<rparr>"

definition set_protocol_version :: "string \<Rightarrow> 't mcp_client \<Rightarrow> 't mcp_client" where
  "set_protocol_version v cl = cl\<lparr>mc_meta := (mc_meta cl)\<lparr>cm_version := v\<rparr>\<rparr>"

definition client_connect :: "'t transport_ops \<Rightarrow> 't mcp_client \<Rightarrow> 't mcp_client \<times> mcp_error option" where
  "client_connect ops cl = (case tr_connect ops (mc_transport cl) of (t, r) \<Rightarrow> (cl\<lparr>mc_transport := t\<rparr>, r))"

definition client_close :: "'t transport_ops \<Rightarrow> 't mcp_client \<Rightarrow> 't mcp_client \<times> mcp_error option" where
  "client_close ops cl = (case tr_close ops (mc_transport cl) of (t, r) \<Rightarrow> (cl\<lparr>mc_transport := t\<rparr>, r))"

section \<open>Requests\<close>

text \<open>
  \<open>build_request\<close>: nothing is numbered while the transport is not ready. \<open>to_value\<close> puts the
  members of the parameters in order; it does not fail on what the client sends.
\<close>

definition build_request ::
  "'t transport_ops \<Rightarrow> string \<Rightarrow> json option \<Rightarrow> bool \<Rightarrow> 't mcp_client \<Rightarrow> ('t, rpc_request) client_result" where
  "build_request ops method params meta cl =
     (if \<not> allows_request (tr_state ops (mc_transport cl)) then (cl, Some (Inl mcp_disconnected))
      else
        let r = request_new (mc_next cl) method (map_option json_norm params);
            cl' = cl\<lparr>mc_next := (mc_next cl + 1) mod 2 ^ 64\<rparr> in
        (cl', if meta
              then map_option Inr (with_meta (cm_version (mc_meta cl)) (cm_info (mc_meta cl)) (Some (cm_capabilities (mc_meta cl))) r)
              else Some (Inr r)))"

definition parsed_result :: "json_io \<Rightarrow> string \<Rightarrow> (json \<Rightarrow> 'a option) \<Rightarrow> rpc_result \<Rightarrow> mcp_error + 'a" where
  "parsed_result io type f r =
     (case r of
        RpcSuccess v \<Rightarrow> (case f v of None \<Rightarrow> Inl (McpProtocol (io_mismatch io type v)) | Some x \<Rightarrow> Inr x)
      | RpcFailure e \<Rightarrow> Inl (McpServer \<lparr>me_code = re_code e, me_message = re_message e\<rparr>))"

definition send_and_parse ::
  "'t transport_ops \<Rightarrow> json_io \<Rightarrow> string \<Rightarrow> (json \<Rightarrow> 'a option) \<Rightarrow> rpc_request \<Rightarrow> 't mcp_client
   \<Rightarrow> 't mcp_client \<times> (mcp_error + 'a)" where
  "send_and_parse ops io type f r cl =
     (case tr_request ops r (mc_transport cl) of
        (t, Inl e) \<Rightarrow> (cl\<lparr>mc_transport := t\<rparr>, Inl e)
      | (t, Inr resp) \<Rightarrow> (cl\<lparr>mc_transport := t\<rparr>, parsed_result io type f (rs_result resp)))"

text \<open>The pipeline of every request; a caller's own parameters may make it panic.\<close>

definition client_request ::
  "'t transport_ops \<Rightarrow> json_io \<Rightarrow> string \<Rightarrow> json option \<Rightarrow> bool \<Rightarrow> string \<Rightarrow> (json \<Rightarrow> 'a option) \<Rightarrow> 't mcp_client
   \<Rightarrow> ('t, 'a) client_result" where
  "client_request ops io method params meta type f cl =
     (case build_request ops method params meta cl of
        (cl', None) \<Rightarrow> (cl', None)
      | (cl', Some (Inl e)) \<Rightarrow> (cl', Some (Inl e))
      | (cl', Some (Inr r)) \<Rightarrow> (case send_and_parse ops io type f r cl' of (cl'', res) \<Rightarrow> (cl'', Some res)))"

definition client_initialize :: "'t transport_ops \<Rightarrow> json_io \<Rightarrow> 't mcp_client \<Rightarrow> ('t, initialize_result) client_result" where
  "client_initialize ops io cl =
     client_request ops io ''initialize''
       (Some (initialize_params_json (with_client_info ''lellm-mcp'' package_version
          (initialize_params_new (cm_version (mc_meta cl)))))) False ''InitializeResult'' initialize_result_of cl"

definition client_discover ::
  "'t transport_ops \<Rightarrow> json_io \<Rightarrow> string list option \<Rightarrow> 't mcp_client \<Rightarrow> ('t, discovery_result) client_result" where
  "client_discover ops io versions cl =
     client_request ops io ''server/discover'' (Some (discover_params_json versions)) True ''DiscoveryResult'' discovery_of cl"

definition tools_list :: "'t transport_ops \<Rightarrow> json_io \<Rightarrow> 't mcp_client \<Rightarrow> ('t, tool_info list) client_result" where
  "tools_list ops io cl = client_request ops io ''tools/list'' None True ''ListToolsResult'' list_tools_of cl"

definition call_tool ::
  "'t transport_ops \<Rightarrow> json_io \<Rightarrow> string \<Rightarrow> json option \<Rightarrow> 't mcp_client \<Rightarrow> ('t, call_tool_result) client_result" where
  "call_tool ops io name args cl =
     client_request ops io ''tools/call'' (Some (call_params_json \<lparr>cq_name = name, cq_arguments = args\<rparr>)) True
       ''CallToolResult'' call_result_of cl"

text \<open>A subscription is one request more; what it gives is the transport's.\<close>

definition subscriptions_listen ::
  "'t transport_ops \<Rightarrow> string list \<Rightarrow> 't mcp_client \<Rightarrow> ('t, string option \<times> rpc_notification list) client_result" where
  "subscriptions_listen ops subs cl =
     (case build_request ops ''subscriptions/listen'' (Some (listen_params_json subs)) True cl of
        (cl', None) \<Rightarrow> (cl', None)
      | (cl', Some (Inl e)) \<Rightarrow> (cl', Some (Inl e))
      | (cl', Some (Inr r)) \<Rightarrow>
          (case tr_subscribe ops r (mc_transport cl') of (t, res) \<Rightarrow> (cl'\<lparr>mc_transport := t\<rparr>, Some res)))"

definition reconnect_once :: "'t transport_ops \<Rightarrow> json_io \<Rightarrow> 't mcp_client \<Rightarrow> ('t, unit) client_result" where
  "reconnect_once ops io cl =
     (case client_connect ops (fst (client_close ops cl)) of
        (cl', Some e) \<Rightarrow> (cl', Some (Inl e))
      | (cl', None) \<Rightarrow>
          (case client_initialize ops io cl' of (cl'', res) \<Rightarrow> (cl'', map_option (map_sum id (\<lambda>_. ())) res)))"

text \<open>The three convenience constructors: connect, then \<open>initialize\<close>.\<close>

definition connect_client :: "'t transport_ops \<Rightarrow> json_io \<Rightarrow> 't \<Rightarrow> ('t, unit) client_result" where
  "connect_client ops io t =
     (case client_connect ops (with_transport t) of
        (cl, Some e) \<Rightarrow> (cl, Some (Inl e))
      | (cl, None) \<Rightarrow> (case client_initialize ops io cl of (cl', res) \<Rightarrow> (cl', map_option (map_sum id (\<lambda>_. ())) res)))"

section \<open>Over HTTP, to a server\<close>

definition http_ops :: "json_io \<Rightarrow> 'w network \<Rightarrow> 'w stream_network \<Rightarrow> 'w http_transport transport_ops" where
  "http_ops io net streams = \<lparr>tr_connect = http_connect, tr_request = http_request io net,
     tr_subscribe = http_subscribe io streams, tr_notifies = False, tr_close = http_close, tr_state = ht_state\<rparr>"

lemma http_ops_simps [simp]:
  "tr_request (http_ops io net streams) = http_request io net"
  "tr_state (http_ops io net streams) = ht_state"
  by (simp_all add: http_ops_def)

text \<open>
  A network that brings every request to one server and its reply back. What the web framework
  says of a body that is no request is an argument.
\<close>

definition served_by :: "json_io \<Rightarrow> (string \<Rightarrow> http_answer) \<Rightarrow> 'w simple_mcp \<Rightarrow> 'w network" where
  "served_by io reject s p w =
     (case read_as io ''JsonRpcRequest'' request_of (po_body p) of
        Inl e \<Rightarrow> (w, Inr (reject e))
      | Inr r \<Rightarrow>
          (case handle_http io s (map_of (po_headers p) ''Accept'') r w of
             (w', h) \<Rightarrow> (w', Inr \<lparr>an_status = hp_status h, an_status_text = show_nat (hp_status h),
                an_content_type = hp_content_type h, an_body = Inr (hp_body h)\<rparr>)))"

section \<open>What a call of a tool gives\<close>

lemma sort_key_map: "(\<And>x. x \<in> set xs \<Longrightarrow> f (g x) = f x) \<Longrightarrow> sort_key f (map g xs) = map g (sort_key f xs)"
  for f :: "'a \<Rightarrow> 'b :: linorder"
proof (induction xs)
  case (Cons x xs)
  have "insort_key f (g x) (map g ys) = map g (insort_key f x ys)" if "\<forall>y \<in> insert x (set ys). f (g y) = f y" for ys
    using that by (induction ys) auto
  with Cons show ?case by simp
qed simp

lemma json_norm_norm [simp]: "json_norm (json_norm v) = json_norm v"
proof (induction v rule: json_norm.induct)
  case (2 kvs)
  let ?f = "\<lambda>(k, v). (k, json_norm v)"
  have "?f (?f x) = ?f x" if "x \<in> set kvs" for x using 2 that by (cases x) auto
  then have "map ?f (map ?f kvs) = map ?f kvs" by simp
  moreover have "sort_key fst (map ?f ys) = map ?f (sort_key fst ys)" for ys by (rule sort_key_map) auto
  ultimately have "sort_key fst (map ?f (sort_key fst (map ?f kvs))) = sort_key fst (map ?f kvs)"
    by (metis sorted_sort_key sorted_sort_id sort_key_id_if_sorted)
  then show ?case by simp
qed (auto simp: comp_def)

lemma trim_event: "trim_text ''event'' = ''event''"
  by code_simp

definition served_arguments :: "json option \<Rightarrow> json" where
  "served_arguments args = (case norm_value args of None \<Rightarrow> JObject [] | Some v \<Rightarrow> v)"

definition call_members :: "string \<Rightarrow> json option \<Rightarrow> (string \<times> json) list" where
  "call_members name args = (''name'', JString name) # if_some ''arguments'' (\<lambda>v. v) args"

lemma call_params_members:
  "call_params_json \<lparr>cq_name = name, cq_arguments = args\<rparr> = JObject (call_members name args)"
  by (simp add: call_params_json_def call_members_def)

lemma norm_members_keys: "distinct (map fst kvs) \<Longrightarrow> distinct (map fst (norm_members kvs))"
proof -
  have "mset (map fst (norm_members kvs)) = mset (map fst kvs)"
    by (simp add: norm_members_def image_mset.compositionality comp_def split_beta)
  then show "distinct (map fst kvs) \<Longrightarrow> distinct (map fst (norm_members kvs))" by (metis mset_eq_imp_distinct_iff)
qed

lemma call_members_read:
  "call_params_of (json_norm (JObject (hm_insert ''_meta'' m (norm_members (call_members name args))))) =
     Some \<lparr>cq_name = name, cq_arguments = norm_value args\<rparr>"
proof -
  have members: "distinct (map fst (call_members name args))" by (simp add: call_members_def if_some_def split: option.split)
  then have "hm_ok (hm_insert ''_meta'' m (norm_members (call_members name args)))"
    by (intro hm_ok_insert) (simp add: hm_ok_def norm_members_keys)
  then have "distinct (map fst (hm_insert ''_meta'' m (norm_members (call_members name args))))" by (simp add: hm_ok_def)
  with members show ?thesis
    by (simp add: call_params_of_def norm_members_read norm_members_get call_members_def if_some_def norm_value_def nullable_def
        del: json_norm.simps(2) split: option.split)
qed

lemma list_tools_back:
  "list_tools_of (json_norm (list_tools_json ts)) = Some (map (\<lambda>t. t\<lparr>tf_schema := json_norm (tf_schema t)\<rparr>) ts)"
proof -
  have "those (map tool_info_of (map json_norm (map tool_info_json ts))) = Some (map (\<lambda>t. t\<lparr>tf_schema := json_norm (tf_schema t)\<rparr>) ts)"
    by (induction ts) simp_all
  then have "list_of tool_info_of (json_norm (JArray (map tool_info_json ts))) = Some (map (\<lambda>t. t\<lparr>tf_schema := json_norm (tf_schema t)\<rparr>) ts)"
    by (simp add: list_of_def)
  then show ?thesis by (simp add: list_tools_of_def list_tools_json_def norm_members_read del: json_norm.simps(1,2))
qed

text \<open>What a printer and a parser of JSON texts promise, for texts on one line.\<close>

locale json_wire =
  fixes io :: json_io
  assumes parse_print: "io_parse io (io_print io v) = Inr (json_norm v)"
    and one_line: "CHR 0x0A \<notin> set (io_print io v)" "CHR 0x0D \<notin> set (io_print io v)"
    and no_space: "io_print io v \<noteq> []" "hd (io_print io v) \<noteq> CHR '' ''"
    and print_utf8: "valid_utf8 (io_print io v)"
begin

lemma read_printed: "read_as io type f (io_print io v) = (case f (json_norm v) of None \<Rightarrow> Inl (io_mismatch io type (json_norm v)) | Some x \<Rightarrow> Inr x)"
  by (simp add: read_as_def parse_print)

lemma printed_line: "frame_line (''data: '' @ io_print io v) (e, []) = ([], e, io_print io v)"
proof -
  obtain c t where t: "io_print io v = c # t" using no_space by (cases "io_print io v") auto
  with no_space [of v] show ?thesis by (simp add: frame_line_def parse_sse_field_def trim_data)
qed

lemma message_lines:
  "str_lines (message_event (io_print io v)) = [''event: message'', ''data: '' @ io_print io v, []]"
proof -
  let ?d = "''data: '' @ io_print io v"
  have event: "message_event (io_print io v) = ''event: message'' @ CHR 0x0A # ?d @ CHR 0x0A # [] @ CHR 0x0A # []"
    by (simp add: message_event_def)
  have "CHR 0x0A \<notin> set ?d" "CHR 0x0D \<notin> set ?d" using one_line by simp_all
  note d = this
  have e: "CHR 0x0A \<notin> set ''event: message''" "strip_cr ''event: message'' = ''event: message''" by (simp_all add: strip_cr_def)
  show ?thesis
    unfolding str_lines_def event split_lines_one [OF e(1)] split_lines_one [OF d(1)]
    using e(2) strip_cr_none [OF d(2)] by (simp add: strip_cr_def)
qed

lemma frames_of_message:
  "parse_sse_frames (message_event (io_print io v)) = [\<lparr>mf_event = Some ''message'', mf_data = io_print io v\<rparr>]"
proof -
  have "frame_line ''event: message'' (None, []) = ([], Some ''message'', [])"
    by (simp add: frame_line_def parse_sse_field_def trim_event)
  moreover have "frame_line [] (Some ''message'', io_print io v) = ([\<lparr>mf_event = Some ''message'', mf_data = io_print io v\<rparr>], None, [])"
    using no_space by (simp add: frame_line_def)
  ultimately show ?thesis
    using printed_line [of v "Some ''message''"] unfolding parse_sse_frames_def message_lines
    by (simp add: flush_frame_def)
qed

lemma message_utf8: "valid_utf8 (message_event (io_print io v))"
proof -
  have "valid_utf8 (''event: message'' @ [CHR 0x0A] @ ''data: '')" "valid_utf8 [CHR 0x0A, CHR 0x0A]"
    by (simp_all add: valid_utf8_ascii del: valid_utf8.simps)
  then have "valid_utf8 ((''event: message'' @ [CHR 0x0A] @ ''data: '') @ io_print io v @ [CHR 0x0A, CHR 0x0A])"
    by (metis print_utf8 valid_utf8_append)
  then show ?thesis by (simp add: message_event_def)
qed

lemma http_result_message:
  assumes "rs_id r < 2 ^ 64" "sendable_result (rs_result r)" "an_status a = 200" "an_content_type a = ''text/event-stream''"
    "an_body a = Inr (message_event (io_print io (response_json r)))"
  shows "http_result io (rs_id r) a = ([], Inr (r\<lparr>rs_result := norm_result (rs_result r)\<rparr>))"
proof -
  have "frame_message io \<lparr>mf_event = Some ''message'', mf_data = io_print io (response_json r)\<rparr>
      = Some (ResponseMessage (r\<lparr>rs_result := norm_result (rs_result r)\<rparr>))"
    using no_space by (simp add: frame_message_def read_printed message_back [OF assms(1,2)])
  with assms(3-5) show ?thesis
    by (simp add: http_result_def frames_of_message message_utf8)
qed

text \<open>A request over the served network: what the server's handler answers to what it reads.\<close>

lemma http_request_served:
  assumes "rq_id r < 2 ^ 64" "ht_inner t"
    "handle_request io s (r\<lparr>rq_params := norm_value (rq_params r)\<rparr>) (ht_world t) = (w', resp)"
    "rs_id resp = rq_id r" "sendable_result (rs_result resp)"
  shows "http_request io (served_by io reject s) r t = (t\<lparr>ht_world := w'\<rparr>, Inr (resp\<lparr>rs_result := norm_result (rs_result resp)\<rparr>))"
proof -
  have accept: "map_of (po_headers (post_of io c r)) ''Accept'' = Some ''application/json, text/event-stream''" for c
    by (simp add: post_of_def)
  have read: "read_as io ''JsonRpcRequest'' request_of (po_body (post_of io c r)) = Inr (r\<lparr>rq_params := norm_value (rq_params r)\<rparr>)" for c
    by (simp add: post_of_def read_printed request_back [OF assms(1)])
  have "wants_event_stream (Some ''application/json, text/event-stream'')" by (simp add: wants_event_stream_def) code_simp
  with assms(3) have "served_by io reject s (post_of io c r) (ht_world t) =
      (w', Inr \<lparr>an_status = 200, an_status_text = show_nat 200, an_content_type = ''text/event-stream'',
         an_body = Inr (message_event (io_print io (response_json resp)))\<rparr>)" for c
    by (simp add: served_by_def read accept handle_http_def Let_def)
  with assms(1,2,4,5) show ?thesis
    by (simp add: http_request_def http_result_message [of resp, unfolded assms(4)])
qed

text \<open>A call, and the list of the tools, as the client returns them.\<close>

lemma call_tool_served:
  assumes "mc_next cl < 2 ^ 64" "ht_inner (mc_transport cl)" "ht_state (mc_transport cl) = Ready"
    "serve_call io s name (served_arguments args) (ht_world (mc_transport cl)) = (w', res)"
  shows "call_tool (http_ops io (served_by io reject s) streams) io name args cl =
    (cl\<lparr>mc_transport := (mc_transport cl)\<lparr>ht_world := w'\<rparr>, mc_next := (mc_next cl + 1) mod 2 ^ 64\<rparr>,
     Some (map_sum (\<lambda>e. McpServer \<lparr>me_code = - 32603, me_message = e\<rparr>) id res))"
proof -
  define m where "m = meta_json (cm_version (mc_meta cl)) (cm_info (mc_meta cl)) (Some (cm_capabilities (mc_meta cl)))"
  define p where "p = json_norm (JObject (hm_insert ''_meta'' m (norm_members (call_members name args))))"
  define r where "r = request_new (mc_next cl) ''tools/call'' (Some p)"
  have built: "build_request (http_ops io (served_by io reject s) streams) ''tools/call''
      (Some (call_params_json \<lparr>cq_name = name, cq_arguments = args\<rparr>)) True cl
      = (cl\<lparr>mc_next := (mc_next cl + 1) mod 2 ^ 64\<rparr>, Some (Inr r))"
    using assms(3) by (simp add: build_request_def allows_request_def Let_def with_meta_def request_new_def object_of_norm
        call_params_members r_def p_def m_def del: json_norm.simps(2))
  have "norm_value (Some p) = Some p" by (simp add: norm_value_def p_def del: json_norm.simps(2))
  moreover have "handle_call io s r (ht_world (mc_transport cl)) =
      (w', case res of Inl e \<Rightarrow> error_response (rq_id r) (- 32603) e | Inr x \<Rightarrow> success_response (rq_id r) (json_norm (call_result_json x)))"
    using assms(4) by (simp add: handle_call_def r_def request_new_def p_def call_members_read served_arguments_def
        del: json_norm.simps(2) split: sum.split)
  ultimately have handled: "handle_request io s (r\<lparr>rq_params := norm_value (rq_params r)\<rparr>) (ht_world (mc_transport cl)) =
      (w', case res of Inl e \<Rightarrow> error_response (rq_id r) (- 32603) e | Inr x \<Rightarrow> success_response (rq_id r) (json_norm (call_result_json x)))"
    by (simp add: handle_request_def r_def request_new_def)
  have "cr_type x = None" if "res = Inr x" for x
    using assms(4) that by (auto simp: serve_call_def text_result_def split: option.splits prod.splits sum.splits)
  then show ?thesis
    using assms(1) http_request_served [OF _ assms(2) handled]
    by (cases res)
      (simp_all add: call_tool_def client_request_def built send_and_parse_def parsed_result_def norm_result_def
        error_response_def success_response_def sendable_result_def i32_of_def norm_value_def call_result_back
        r_def request_new_def)
qed

lemma tools_list_served:
  assumes "mc_next cl < 2 ^ 64" "ht_inner (mc_transport cl)" "ht_state (mc_transport cl) = Ready"
  shows "tools_list (http_ops io (served_by io reject s) streams) io cl =
    (cl\<lparr>mc_next := (mc_next cl + 1) mod 2 ^ 64\<rparr>,
     Some (Inr (map (\<lambda>t. t\<lparr>tf_schema := json_norm (tf_schema t)\<rparr>) (tool_list s))))"
proof -
  define m where "m = meta_json (cm_version (mc_meta cl)) (cm_info (mc_meta cl)) (Some (cm_capabilities (mc_meta cl)))"
  define p where "p = json_norm (JObject (hm_insert ''_meta'' m []))"
  define r where "r = request_new (mc_next cl) ''tools/list'' (Some p)"
  have built: "build_request (http_ops io (served_by io reject s) streams) ''tools/list'' None True cl
      = (cl\<lparr>mc_next := (mc_next cl + 1) mod 2 ^ 64\<rparr>, Some (Inr r))"
    using assms(3) by (simp add: build_request_def allows_request_def Let_def with_meta_def request_new_def
        object_of_def r_def p_def m_def)
  have handled: "handle_request io s (r\<lparr>rq_params := norm_value (rq_params r)\<rparr>) (ht_world (mc_transport cl)) =
      (ht_world (mc_transport cl), success_response (rq_id r) (json_norm (list_tools_json (tool_list s))))"
    by (simp add: handle_request_def r_def request_new_def)
  show ?thesis
    using assms(1) http_request_served [OF _ assms(2) handled]
    by (simp add: tools_list_def client_request_def built send_and_parse_def parsed_result_def norm_result_def
        success_response_def sendable_result_def list_tools_back r_def request_new_def del: json_norm.simps(1,2))
qed

end

text \<open>Numbered texts are such texts.\<close>

definition numbered_io :: json_io where
  "numbered_io = \<lparr>io_print = sd_text state_serde, io_parse = sd_parse state_serde, io_mismatch = \<lambda>t _. ''invalid type, expected '' @ t\<rparr>"

lemma digit_ascii: "char_digit c \<noteq> None \<Longrightarrow> byte c < 128 \<and> c \<notin> {CHR 0x0A, CHR 0x0D, CHR '' ''}"
  by (auto simp: char_digit_def split: if_splits)

interpretation numbered_io: json_wire numbered_io
proof unfold_locales
  fix v
  have "io_print numbered_io v = show_nat (to_nat v)" by (simp add: numbered_io_def state_serde_def)
  moreover have "list_all (\<lambda>c. byte c < 128 \<and> c \<notin> {CHR 0x0A, CHR 0x0D, CHR '' ''}) (show_nat (to_nat v))"
    using digit_ascii show_nat_digits by (auto simp: list_all_iff)
  moreover from this have "valid_utf8 (show_nat (to_nat v))" by (intro valid_utf8_ascii) (auto simp: list_all_iff)
  moreover have "hd (show_nat (to_nat v)) \<in> set (show_nat (to_nat v))" by simp
  ultimately show "CHR 0x0A \<notin> set (io_print numbered_io v)" "CHR 0x0D \<notin> set (io_print numbered_io v)"
    "io_print numbered_io v \<noteq> []" "hd (io_print numbered_io v) \<noteq> CHR '' ''" "valid_utf8 (io_print numbered_io v)"
    unfolding list_all_iff by auto
  show "io_parse numbered_io (io_print numbered_io v) = Inr (json_norm v)"
    by (simp add: numbered_io_def state_serde.parse_text)
qed

end
