(* ===== verification/Agent_Mcp.thy ===== *)
theory Agent_Mcp
  imports Mcp_Client Agent_Tools
begin

text \<open>
  The tools of protocol servers as tools of an agent (\<open>runtime/tools/mcp\<close>): the catalog of one
  server, the registry of several with its check of names, the refreshing of a catalog when the
  server says that its list has changed.

  A client is seen through its calls on the agent's world. A result \<open>None\<close> of a call is a panic.
\<close>

record 'w client_ref =
  cf_list :: "'w \<Rightarrow> 'w \<times> (mcp_error + tool_info list) option"
  cf_call :: "string \<Rightarrow> json option \<Rightarrow> 'w \<Rightarrow> 'w \<times> (mcp_error + call_tool_result) option"
  cf_close :: "'w \<Rightarrow> 'w"
  cf_notifies :: bool

text \<open>The client that is kept at a place of the world.\<close>

definition client_at ::
  "'t transport_ops \<Rightarrow> json_io \<Rightarrow> ('w \<Rightarrow> 't mcp_client) \<Rightarrow> ('t mcp_client \<Rightarrow> 'w \<Rightarrow> 'w) \<Rightarrow> 'w client_ref" where
  "client_at ops io get put = \<lparr>
     cf_list = (\<lambda>w. case tools_list ops io (get w) of (cl, r) \<Rightarrow> (put cl w, r)),
     cf_call = (\<lambda>n args w. case call_tool ops io n args (get w) of (cl, r) \<Rightarrow> (put cl w, r)),
     cf_close = (\<lambda>w. put (fst (client_close ops (get w))) w),
     cf_notifies = tr_notifies ops\<rparr>"

section \<open>The catalog of a server\<close>

definition mcp_error_to_tool_error :: "mcp_error \<Rightarrow> tool_error" where
  "mcp_error_to_tool_error e =
     (if e = mcp_timeout then \<lparr>te_kind = ToolTimeout, te_message = ''mcp request timeout''\<rparr>
      else if e = mcp_disconnected then \<lparr>te_kind = ToolNetwork, te_message = ''mcp disconnected''\<rparr>
      else \<lparr>te_kind = InternalError, te_message = ''mcp error: '' @ show_mcp_error e\<rparr>)"

definition tool_outcome :: "(mcp_error + call_tool_result) option \<Rightarrow> tool_run" where
  "tool_outcome r =
     (case r of
        None \<Rightarrow> Panicked ''params must be object''
      | Some (Inl e) \<Rightarrow> Returned (Inl (mcp_error_to_tool_error e))
      | Some (Inr c) \<Rightarrow>
          Returned (if cr_is_error c then Inl \<lparr>te_kind = InternalError, te_message = Mcp_Protocol.flatten_text (cr_content c)\<rparr>
            else Inr (JString (Mcp_Protocol.flatten_text (cr_content c)))))"

definition make_tool_entry :: "'w client_ref \<Rightarrow> string \<Rightarrow> tool_definition \<Rightarrow> 'w executable_tool" where
  "make_tool_entry cf name d =
     tool_safe d (\<lambda>input w. case cf_call cf name (Some input) w of (w', r) \<Rightarrow> (w', tool_outcome r))"

definition definition_of_info :: "tool_info \<Rightarrow> tool_definition" where
  "definition_of_info t = \<lparr>td_name = tf_name t, td_description = tf_description t, td_parameters = tf_schema t, td_cache = None\<rparr>"

definition snapshot_of_infos :: "'w client_ref \<Rightarrow> tool_info list \<Rightarrow> 'w tool_snapshot" where
  "snapshot_of_infos cf ts =
     snapshot_new (fold (\<lambda>t. hm_insert (tf_name t) (make_tool_entry cf (tf_name t) (definition_of_info t))) ts [])"

definition build_snapshot :: "'w client_ref \<Rightarrow> 'w \<Rightarrow> 'w \<times> (mcp_error + 'w tool_snapshot) option" where
  "build_snapshot cf w =
     (case cf_list cf w of (w', r) \<Rightarrow> (w', map_option (map_sum id (snapshot_of_infos cf)) r))"

section \<open>The registry\<close>

datatype name_policy = RefuseConflicts | LaterOverrides

record name_conflict =
  nc_tool :: string
  nc_existing :: string
  nc_new :: string

datatype registry_error = NameConflict name_conflict | RegistryMcp mcp_error

fun show_registry_error :: "registry_error \<Rightarrow> string" where
  "show_registry_error (NameConflict e) = ''tool name conflict: '' @ in_quotes (nc_tool e) @ '' already registered by server ''
     @ in_quotes (nc_existing e) @ '', attempted by server '' @ in_quotes (nc_new e)"
| "show_registry_error (RegistryMcp e) = ''mcp error: '' @ show_mcp_error e"

text \<open>
  The stores of snapshots are shared by the servers, the catalogs and the watchers: they have
  numbers, and \<open>rg_heap\<close> holds what is in each. \<open>ms_watched\<close>: a watcher runs for the server.
\<close>

record 'w managed_server =
  ms_client :: "'w client_ref"
  ms_store_id :: nat
  ms_watched :: bool

record 'w registry =
  rg_servers :: "(string, 'w managed_server) hashmap"
  rg_index :: "(string, string) hashmap"
  rg_policy :: name_policy
  rg_stores :: "(string, nat) hashmap"
  rg_heap :: "'w tool_snapshot list"

definition registry_new :: "'w registry" where
  "registry_new = \<lparr>rg_servers = [], rg_index = [], rg_policy = RefuseConflicts, rg_stores = [], rg_heap = []\<rparr>"

definition set_conflict_policy :: "name_policy \<Rightarrow> 'w registry \<Rightarrow> 'w registry" where
  "set_conflict_policy p reg = reg\<lparr>rg_policy := p\<rparr>"

definition check_conflicts :: "string \<Rightarrow> tool_definition list \<Rightarrow> 'w registry \<Rightarrow> name_conflict option" where
  "check_conflicts server ds reg =
     (if rg_policy reg \<noteq> RefuseConflicts then None
      else case List.map_filter (\<lambda>d. map_option (\<lambda>s. \<lparr>nc_tool = td_name d, nc_existing = s, nc_new = server\<rparr>)
             (hm_get (rg_index reg) (td_name d))) ds of
        [] \<Rightarrow> None
      | c # _ \<Rightarrow> Some c)"

definition register_tool_names :: "string \<Rightarrow> tool_definition list \<Rightarrow> 'w registry \<Rightarrow> 'w registry" where
  "register_tool_names server ds reg = reg\<lparr>rg_index := fold (\<lambda>d. hm_insert (td_name d) server) ds (rg_index reg)\<rparr>"

text \<open>A server that is dropped stops its watcher and closes its client.\<close>

definition drop_server :: "'w managed_server option \<Rightarrow> 'w \<Rightarrow> 'w" where
  "drop_server ms w = (case ms of None \<Rightarrow> w | Some m \<Rightarrow> cf_close (ms_client m) w)"

definition add_server :: "string \<Rightarrow> 'w client_ref \<Rightarrow> 'w tool_snapshot \<Rightarrow> 'w registry \<Rightarrow> 'w registry" where
  "add_server name cf snap reg =
     (let reg' = register_tool_names name (snapshot_definitions snap) reg; i = length (rg_heap reg) in
      reg'\<lparr>rg_servers := hm_insert name \<lparr>ms_client = cf, ms_store_id = i, ms_watched = cf_notifies cf\<rparr> (rg_servers reg),
           rg_stores := hm_insert name i (rg_stores reg), rg_heap := rg_heap reg @ [snap]\<rparr>)"

definition register_server ::
  "string \<Rightarrow> 'w client_ref \<Rightarrow> 'w registry \<Rightarrow> 'w \<Rightarrow> ('w registry \<times> registry_error option) option \<times> 'w" where
  "register_server name cf reg w =
     (case build_snapshot cf w of
        (w', None) \<Rightarrow> (None, w')
      | (w', Some (Inl e)) \<Rightarrow> (Some (reg, Some (RegistryMcp e)), w')
      | (w', Some (Inr snap)) \<Rightarrow>
          (case check_conflicts name (snapshot_definitions snap) reg of
             Some c \<Rightarrow> (Some (reg, Some (NameConflict c)), w')
           | None \<Rightarrow> (Some (add_server name cf snap reg, None), drop_server (hm_get (rg_servers reg) name) w')))"

definition store_of :: "'w registry \<Rightarrow> 'w managed_server \<Rightarrow> 'w tool_snapshot" where
  "store_of reg m = rg_heap reg ! ms_store_id m"

definition registry_tool_names :: "'w registry \<Rightarrow> (string \<times> string list) list" where
  "registry_tool_names reg = map (\<lambda>(n, m). (n, map td_name (snapshot_definitions (store_of reg m)))) (rg_servers reg)"

definition total_tools :: "'w registry \<Rightarrow> nat" where
  "total_tools reg = sum_list (map (\<lambda>(_, m). length (sn_tools (store_of reg m))) (rg_servers reg))"

definition remove_server :: "string \<Rightarrow> 'w registry \<Rightarrow> 'w \<Rightarrow> string option \<times> 'w registry \<times> 'w" where
  "remove_server name reg w =
     (let gone = hm_get (rg_servers reg) name in
      (map_option (\<lambda>_. name) gone,
       reg\<lparr>rg_servers := hm_remove name (rg_servers reg), rg_stores := hm_remove name (rg_stores reg),
         rg_index := (if rg_policy reg = RefuseConflicts then filter (\<lambda>(_, s). s \<noteq> name) (rg_index reg) else rg_index reg)\<rparr>,
       drop_server gone w))"

text \<open>
  \<open>shutdown\<close> stops the watchers and keeps the servers; dropping the registry drops them all.
\<close>

definition registry_shutdown :: "'w registry \<Rightarrow> 'w registry" where
  "registry_shutdown reg = reg\<lparr>rg_servers := map (\<lambda>(n, m). (n, m\<lparr>ms_watched := False\<rparr>)) (rg_servers reg)\<rparr>"

definition drop_registry :: "'w registry \<Rightarrow> 'w \<Rightarrow> 'w" where
  "drop_registry reg w = fold (\<lambda>(_, m). drop_server (Some m)) (rg_servers reg) w"

text \<open>
  The catalog shares the stores, not the servers. Both policies merge alike: a later server
  takes the place of an earlier one's tool.
\<close>

definition registry_snapshot :: "'w registry \<Rightarrow> 'w tool_snapshot" where
  "registry_snapshot reg =
     snapshot_new (fold (\<lambda>(_, i) m. fold (\<lambda>(n, t). hm_insert n t) (sn_tools (rg_heap reg ! i)) m) (rg_stores reg) [])"

section \<open>Watching a server\<close>

text \<open>
  A refresh puts the new snapshot into the server's store and nowhere else; a client that is gone
  counts as disconnected.
\<close>

definition refresh_store :: "'w client_ref option \<Rightarrow> nat \<Rightarrow> 'w registry \<Rightarrow> 'w \<Rightarrow> ('w registry \<times> mcp_error option) option \<times> 'w" where
  "refresh_store cf i reg w =
     (case cf of
        None \<Rightarrow> (Some (reg, Some mcp_disconnected), w)
      | Some c \<Rightarrow>
          (case build_snapshot c w of
             (w', None) \<Rightarrow> (None, w')
           | (w', Some (Inl e)) \<Rightarrow> (Some (reg, Some e), w')
           | (w', Some (Inr snap)) \<Rightarrow> (Some (reg\<lparr>rg_heap := (rg_heap reg)[i := snap]\<rparr>, None), w')))"

text \<open>What a watcher does with a notification, while its server is registered; errors are logged.\<close>

definition watcher_note :: "string \<Rightarrow> rpc_notification \<Rightarrow> 'w registry \<Rightarrow> 'w \<Rightarrow> 'w registry option \<times> 'w" where
  "watcher_note name note reg w =
     (case hm_get (rg_servers reg) name of
        Some m \<Rightarrow>
          (if ms_watched m \<and> kind_of_notification note = ToolsListChanged
           then (case refresh_store (Some (ms_client m)) (ms_store_id m) reg w of (r, w') \<Rightarrow> (map_option fst r, w'))
           else (Some reg, w))
      | None \<Rightarrow> (Some reg, w))"

section \<open>Calls reach the server's tools\<close>

lemma snapshot_of_distinct_infos:
  assumes "distinct (map tf_name ts)"
  shows "sn_tools (snapshot_of_infos cf ts) = map (\<lambda>t. (tf_name t, make_tool_entry cf (tf_name t) (definition_of_info t))) ts"
proof -
  let ?g = "\<lambda>t. (tf_name t, make_tool_entry cf (tf_name t) (definition_of_info t))"
  have "fold (\<lambda>t. hm_insert (tf_name t) (make_tool_entry cf (tf_name t) (definition_of_info t))) ts [] =
      fold (\<lambda>(k, v). hm_insert k v) (map ?g ts) []"
    by (simp add: fold_map comp_def)
  also have "\<dots> = map ?g ts" using fold_insert_fresh [of "[]" "map ?g ts"] assms by (simp add: comp_def)
  finally show ?thesis by (simp add: snapshot_of_infos_def snapshot_new_def)
qed

lemma served_tool_names:
  assumes "\<forall>(n, t) \<in> set (sm_tools s). mt_name t = n"
  shows "map tf_name (map (\<lambda>t. t\<lparr>tf_schema := json_norm (tf_schema t)\<rparr>) (tool_list s)) = map fst (sm_tools s)"
  using assms by (auto simp: tool_list_def)

lemma tool_outcome_of_text [simp]:
  "tool_outcome (Some (Inr (text_result failed t))) =
     Returned (if failed then Inl \<lparr>te_kind = InternalError, te_message = t\<rparr> else Inr (JString t))"
  by (simp add: tool_outcome_def text_result_def Mcp_Protocol.flatten_text_def map_filter_simps)

definition entry_of :: "'w client_ref \<Rightarrow> string \<Rightarrow> 'v mcp_tool \<Rightarrow> 'w executable_tool" where
  "entry_of cf n t = make_tool_entry cf n
     \<lparr>td_name = n, td_description = mt_description t, td_parameters = json_norm (mt_schema t), td_cache = None\<rparr>"

lemma served_snapshot:
  assumes "hm_ok (sm_tools s)" "\<forall>(n, t) \<in> set (sm_tools s). mt_name t = n"
  shows "sn_tools (snapshot_of_infos cf (map (\<lambda>t. t\<lparr>tf_schema := json_norm (tf_schema t)\<rparr>) (tool_list s)))
    = map (\<lambda>(n, t). (n, entry_of cf n t)) (sm_tools s)"
proof -
  have "distinct (map tf_name (map (\<lambda>t. t\<lparr>tf_schema := json_norm (tf_schema t)\<rparr>) (tool_list s)))"
    using assms(1) unfolding served_tool_names [OF assms(2)] by (simp add: hm_ok_def)
  note snapshot_of_distinct_infos [OF this, of cf]
  moreover have "map (\<lambda>t. (tf_name t, make_tool_entry cf (tf_name t) (definition_of_info t)))
      (map (\<lambda>t. t\<lparr>tf_schema := json_norm (tf_schema t)\<rparr>) (tool_list s)) = map (\<lambda>(n, t). (n, entry_of cf n t)) (sm_tools s)"
    using assms(2) by (auto simp: tool_list_def entry_of_def definition_of_info_def)
  ultimately show ?thesis by simp
qed

lemma map_of_map_pairs: "map_of (map (\<lambda>(k, v). (k, f k v)) m) k = map_option (f k) (map_of m k)"
  by (induction m) auto

text \<open>What the agent's tool returns for what the function of the server's tool returned.\<close>

definition tool_reply :: "json_io \<Rightarrow> mcp_tool_error + json \<Rightarrow> tool_run" where
  "tool_reply io r = Returned (case r of Inl e \<Rightarrow> Inl \<lparr>te_kind = InternalError, te_message = show_mcp_tool_error e\<rparr>
     | Inr v \<Rightarrow> Inr (JString (io_print io v)))"

lemma entry_runs_tool:
  assumes "json_wire io" "\<And>cl w. get (put cl w) = cl"
    and "mc_next (get w) < 2 ^ 64" "ht_inner (mc_transport (get w))" "ht_state (mc_transport (get w)) = Ready"
    and "hm_get (sm_tools s) n = Some t"
    and "mt_run t (served_arguments (Some args)) (ht_world (mc_transport (get w))) = (v, r)"
    and "tool_execute (entry_of (client_at (http_ops io (served_by io reject s) streams) io get put) n t) args w = (w', res)"
  shows "res = tool_reply io r \<and> ht_world (mc_transport (get w')) = v"
proof -
  have "serve_call io s n (served_arguments (Some args)) (ht_world (mc_transport (get w))) =
      (v, Inr (case r of Inr x \<Rightarrow> text_result False (io_print io x) | Inl e \<Rightarrow> text_result True (show_mcp_tool_error e)))"
    using assms(6,7) by (simp add: serve_call_def split: sum.split)
  note json_wire.call_tool_served [OF assms(1,3-5) this, of reject streams]
  with assms(8) show ?thesis
    by (cases r) (auto simp: tool_execute_def entry_of_def make_tool_entry_def tool_safe_def tool_from_fn_def client_at_def
        assms(2) tool_reply_def)
qed

text \<open>
  C2: An agent's catalog that is discovered at a server over HTTP holds the server's tools under their
  names and in their order, and executing one of them, at any later time while the client is connected, runs
  the function of the server's tool once, on the same arguments (\<open>null\<close> stands for the empty
  object), and returns the text of its value or its error as an internal one.
\<close>

theorem discovered_tools_run_on_the_server:
  fixes io :: json_io and get :: "'w \<Rightarrow> 'v http_transport mcp_client"
  assumes "\<And>v. io_parse io (io_print io v) = Inr (json_norm v)"
    and "\<And>v. CHR 0x0A \<notin> set (io_print io v) \<and> CHR 0x0D \<notin> set (io_print io v) \<and> valid_utf8 (io_print io v)"
    and "\<And>v. io_print io v \<noteq> [] \<and> hd (io_print io v) \<noteq> CHR '' ''"
    and "\<And>cl w. get (put cl w) = cl"
    and "ht_inner (mc_transport (get w))" "ht_state (mc_transport (get w)) = Ready" "mc_next (get w) < 2 ^ 64"
    and "hm_ok (sm_tools s)" "\<forall>(n, t) \<in> set (sm_tools s). mt_name t = n"
  shows "\<exists>w' snap. build_snapshot (client_at (http_ops io (served_by io reject s) streams) io get put) w = (w', Some (Inr snap))
    \<and> map fst (sn_tools snap) = map fst (sm_tools s)
    \<and> (\<forall>n t args w1. hm_get (sm_tools s) n = Some t \<and> ht_inner (mc_transport (get w1)) \<and> ht_state (mc_transport (get w1)) = Ready
          \<and> mc_next (get w1) < 2 ^ 64 \<longrightarrow>
        (\<exists>e w2. snapshot_get snap n = Some e
          \<and> tool_execute e args w1 = (w2, tool_reply io (snd (mt_run t (served_arguments (Some args)) (ht_world (mc_transport (get w1))))))
          \<and> ht_world (mc_transport (get w2)) = fst (mt_run t (served_arguments (Some args)) (ht_world (mc_transport (get w1))))))"
proof -
  have wire: "json_wire io" by unfold_locales (use assms(1-3) in auto)
  let ?cf = "client_at (http_ops io (served_by io reject s) streams) io get put"
  define cl where "cl = (get w)\<lparr>mc_next := (mc_next (get w) + 1) mod 2 ^ 64\<rparr>"
  define snap where "snap = snapshot_of_infos ?cf (map (\<lambda>t. t\<lparr>tf_schema := json_norm (tf_schema t)\<rparr>) (tool_list s))"
  have built: "build_snapshot ?cf w = (put cl w, Some (Inr snap))"
    using json_wire.tools_list_served [OF wire assms(7,5,6)] by (simp add: build_snapshot_def client_at_def cl_def snap_def)
  have tools: "sn_tools snap = map (\<lambda>(n, t). (n, entry_of ?cf n t)) (sm_tools s)"
    unfolding snap_def by (rule served_snapshot [OF assms(8,9)])
  have get: "snapshot_get snap n = Some (entry_of ?cf n t)" if "hm_get (sm_tools s) n = Some t" for n t
    using that by (simp add: snapshot_get_def tools map_of_map_pairs)
  have run: "\<exists>e w2. snapshot_get snap n = Some e
      \<and> tool_execute e args w1 = (w2, tool_reply io (snd (mt_run t (served_arguments (Some args)) (ht_world (mc_transport (get w1))))))
      \<and> ht_world (mc_transport (get w2)) = fst (mt_run t (served_arguments (Some args)) (ht_world (mc_transport (get w1))))"
    if "hm_get (sm_tools s) n = Some t" "ht_inner (mc_transport (get w1))" "ht_state (mc_transport (get w1)) = Ready"
      "mc_next (get w1) < 2 ^ 64" for n t args w1
  proof -
    obtain w2 res where e: "tool_execute (entry_of ?cf n t) args w1 = (w2, res)" by fastforce
    from entry_runs_tool [OF wire assms(4) that(4,2,3,1) surjective_pairing e] e get [OF that(1)] show ?thesis by auto
  qed
  show ?thesis
    by (intro exI [of _ "put cl w"] exI [of _ snap] conjI built allI impI) (simp add: tools comp_def split_beta, elim conjE, rule run)
qed

definition failing_server :: "nat simple_mcp" where
  "failing_server = simple_tool ''fail'' ''always fails'' (\<lambda>_ w. (Suc w, Inl (ToolExecution ''disk full''))) (simple_new ''demo'')"

lemma discovered_tools_run_on_the_server_witness:
  "\<exists>w snap e w1. build_snapshot (client_at (http_ops numbered_io (served_by numbered_io (\<lambda>_. undefined) failing_server) (\<lambda>_ w. (w, Inl [])))
        numbered_io (\<lambda>w. w) (\<lambda>cl _. cl)) \<lparr>mc_transport = fst (http_connect (http_transport_new (http_config_new ''http://mcp'') 0)),
          mc_next = 1, mc_meta = client_meta_new\<rparr> = (w, Some (Inr snap))
     \<and> snapshot_get snap ''fail'' = Some e
     \<and> tool_execute e (JInt 3) \<lparr>mc_transport = fst (http_connect (http_transport_new (http_config_new ''http://mcp'') 5)),
          mc_next = 2, mc_meta = client_meta_new\<rparr> =
         (w1, Returned (Inl \<lparr>te_kind = InternalError, te_message = ''tool execution failed: disk full''\<rparr>))
     \<and> ht_world (mc_transport w1) = 6"
proof -
  let ?cl = "\<lambda>(k :: nat) i. \<lparr>mc_transport = fst (http_connect (http_transport_new (http_config_new ''http://mcp'') k)),
      mc_next = i, mc_meta = client_meta_new\<rparr>"
  let ?t = "\<lparr>mt_name = ''fail'', mt_description = ''always fails'',
      mt_schema = JObject [(''properties'', JObject []), (''type'', JString ''object'')],
      mt_run = \<lambda>_ w. (Suc w, Inl (ToolExecution ''disk full''))\<rparr>"
  have tools: "sm_tools failing_server = [(''fail'', ?t)]"
    by (simp add: failing_server_def simple_tool_def tool_with_schema_def simple_new_def)
  have cl: "ht_inner (mc_transport (?cl k i))" "ht_state (mc_transport (?cl k i)) = Ready" "ht_world (mc_transport (?cl k i)) = k" for k i
    by (simp_all add: http_connect_def http_transport_new_def)
  have one: "CHR 0x0A \<notin> set (io_print numbered_io v) \<and> CHR 0x0D \<notin> set (io_print numbered_io v) \<and> valid_utf8 (io_print numbered_io v)" for v
    using numbered_io.one_line numbered_io.print_utf8 by blast
  have two: "io_print numbered_io v \<noteq> [] \<and> hd (io_print numbered_io v) \<noteq> CHR '' ''" for v using numbered_io.no_space by blast
  have ok: "hm_ok (sm_tools failing_server)" "\<forall>(n, t) \<in> set (sm_tools failing_server). mt_name t = n" "mc_next (?cl 0 1) < 2 ^ 64"
    by (simp_all add: tools hm_ok_def)
  note found = discovered_tools_run_on_the_server [of numbered_io "\<lambda>w. w" "\<lambda>cl _. cl" "?cl 0 1" failing_server "\<lambda>_. undefined" "\<lambda>_ w. (w, Inl [])",
      OF numbered_io.parse_print one two refl cl(1,2) ok(3,1,2)]
  obtain w snap where run: "build_snapshot (client_at (http_ops numbered_io (served_by numbered_io (\<lambda>_. undefined) failing_server) (\<lambda>_ w. (w, Inl [])))
        numbered_io (\<lambda>w. w) (\<lambda>cl _. cl)) (?cl 0 1) = (w, Some (Inr snap))"
    and calls: "\<forall>n t args w1. hm_get (sm_tools failing_server) n = Some t \<and> ht_inner (mc_transport w1) \<and> ht_state (mc_transport w1) = Ready
          \<and> mc_next w1 < 2 ^ 64 \<longrightarrow>
        (\<exists>e w2. snapshot_get snap n = Some e
          \<and> tool_execute e args w1 = (w2, tool_reply numbered_io (snd (mt_run t (served_arguments (Some args)) (ht_world (mc_transport w1)))))
          \<and> ht_world (mc_transport w2) = fst (mt_run t (served_arguments (Some args)) (ht_world (mc_transport w1))))"
    using found by blast
  have "\<exists>e w2. snapshot_get snap ''fail'' = Some e
      \<and> tool_execute e (JInt 3) (?cl 5 2) = (w2, tool_reply numbered_io (Inl (ToolExecution ''disk full''))) \<and> ht_world (mc_transport w2) = 6"
    using calls [rule_format, of "''fail''" ?t "?cl 5 2" "JInt 3"] cl [of 5 2] tools by simp
  with run show ?thesis by (simp add: tool_reply_def)
qed

section \<open>The registry keeps tools apart\<close>

inductive registry_step :: "'w registry \<times> 'w \<Rightarrow> 'w registry \<times> 'w \<Rightarrow> bool" where
  register: "register_server name cf reg w = (Some (reg', err), w') \<Longrightarrow> registry_step (reg, w) (reg', w')"
| remove: "remove_server name reg w = (found, reg', w') \<Longrightarrow> registry_step (reg, w) (reg', w')"
| elsewhere: "registry_step (reg, w) (reg, w')"

inductive registry_steps :: "'w registry \<times> 'w \<Rightarrow> 'w registry \<times> 'w \<Rightarrow> bool" where
  none: "registry_steps s s"
| more: "registry_steps s s' \<Longrightarrow> registry_step s' s'' \<Longrightarrow> registry_steps s s''"

text \<open>
  Servers and catalogs share the stores; a snapshot has its tools under their names; and every tool of a
  registered server is indexed as this server's.
\<close>

definition named_tools :: "(string, 'w executable_tool) hashmap \<Rightarrow> bool" where
  "named_tools m \<longleftrightarrow> hm_ok m \<and> (\<forall>n e. hm_get m n = Some e \<longrightarrow> td_name (et_definition e) = n)"

abbreviation snapshot_ok :: "'w tool_snapshot \<Rightarrow> bool" where
  "snapshot_ok s \<equiv> named_tools (sn_tools s)"

definition indexed :: "(string, string) hashmap \<Rightarrow> string \<Rightarrow> 'w tool_snapshot \<Rightarrow> bool" where
  "indexed index n s \<longleftrightarrow> (\<forall>t. snapshot_get s t \<noteq> None \<longrightarrow> hm_get index t = Some n)"

definition registry_inv :: "'w registry \<Rightarrow> bool" where
  "registry_inv reg \<longleftrightarrow> rg_policy reg = RefuseConflicts \<and> hm_ok (rg_servers reg)
     \<and> rg_stores reg = map (\<lambda>(n, m). (n, ms_store_id m)) (rg_servers reg)
     \<and> (\<forall>n m. hm_get (rg_servers reg) n = Some m \<longrightarrow>
          ms_store_id m < length (rg_heap reg) \<and> snapshot_ok (store_of reg m) \<and> indexed (rg_index reg) n (store_of reg m))"

lemma registry_inv_parts:
  assumes "registry_inv reg"
  shows "rg_policy reg = RefuseConflicts" "hm_ok (rg_servers reg)"
    "rg_stores reg = map (\<lambda>(n, m). (n, ms_store_id m)) (rg_servers reg)"
  using assms unfolding registry_inv_def by blast+

lemma registry_invD:
  "registry_inv reg \<Longrightarrow> hm_get (rg_servers reg) n = Some m \<Longrightarrow>
     ms_store_id m < length (rg_heap reg) \<and> snapshot_ok (store_of reg m) \<and> indexed (rg_index reg) n (store_of reg m)"
  by (simp add: registry_inv_def)

lemma named_tools_insert: "named_tools m \<Longrightarrow> td_name (et_definition e) = n \<Longrightarrow> named_tools (hm_insert n e m)"
  unfolding named_tools_def by (metis hm_get_insert hm_ok_insert option.inject)

lemma snapshot_of_infos_ok: "snapshot_ok (snapshot_of_infos cf ts)"
proof -
  have "named_tools m \<Longrightarrow> named_tools (fold (\<lambda>t. hm_insert (tf_name t) (make_tool_entry cf (tf_name t) (definition_of_info t))) ts m)" for m
    by (induction ts arbitrary: m)
      (simp_all add: named_tools_insert make_tool_entry_def tool_safe_def tool_from_fn_def definition_of_info_def)
  from this [of "[]"] show ?thesis by (simp add: named_tools_def snapshot_of_infos_def snapshot_new_def)
qed

lemma definition_names:
  assumes "snapshot_ok s"
  shows "td_name ` set (snapshot_definitions s) = fst ` set (sn_tools s)"
proof -
  have "td_name (et_definition e) = n" if "(n, e) \<in> set (sn_tools s)" for n e
    using assms that hm_get_Some_iff unfolding named_tools_def by metis
  then have "map td_name (snapshot_definitions s) = map fst (sn_tools s)" by (auto simp: snapshot_definitions_def)
  then show ?thesis by (metis set_map)
qed

lemma snapshot_get_defined: "snapshot_get s t \<noteq> None \<longleftrightarrow> t \<in> fst ` set (sn_tools s)"
  by (simp add: snapshot_get_def hm_contains_iff)

lemma registered_index:
  "hm_get (fold (\<lambda>d. hm_insert (td_name d) server) ds index) t = (if t \<in> td_name ` set ds then Some server else hm_get index t)"
  by (induction ds arbitrary: index) auto

lemma no_conflicts:
  assumes "rg_policy reg = RefuseConflicts" "check_conflicts name ds reg = None" "d \<in> set ds"
  shows "hm_get (rg_index reg) (td_name d) = None"
  using assms by (induction ds) (auto simp: check_conflicts_def map_filter_simps split: option.splits list.splits)

lemma map_insert: "map (\<lambda>(n, m). (n, f m)) (hm_insert k v xs) = hm_insert k (f v) (map (\<lambda>(n, m). (n, f m)) xs)"
  by (induction xs) auto

lemma map_remove: "map (\<lambda>(n, m). (n, f m)) (hm_remove k xs) = hm_remove k (map (\<lambda>(n, m). (n, f m)) xs)"
  by (induction xs) auto

lemma registry_inv_new: "registry_inv registry_new"
  by (simp add: registry_inv_def registry_new_def)

lemma registry_inv_add:
  assumes "registry_inv reg" "snapshot_ok snap" "check_conflicts name (snapshot_definitions snap) reg = None"
  shows "registry_inv (add_server name cf snap reg)"
proof -
  let ?reg = "add_server name cf snap reg"
  note policy = registry_inv_parts(1) [OF assms(1)]
  have fresh: "hm_get (rg_index reg) t = None" if "t \<in> fst ` set (sn_tools snap)" for t
  proof -
    have "t \<in> td_name ` set (snapshot_definitions snap)" using that definition_names [OF assms(2)] by simp
    then obtain d where "d \<in> set (snapshot_definitions snap)" "t = td_name d" by auto
    then show ?thesis using no_conflicts [OF policy assms(3)] by simp
  qed
  have index: "hm_get (rg_index ?reg) t = (if t \<in> fst ` set (sn_tools snap) then Some name else hm_get (rg_index reg) t)" for t
    using definition_names [OF assms(2)] by (simp add: add_server_def register_tool_names_def registered_index Let_def)
  have servers: "rg_servers ?reg = hm_insert name \<lparr>ms_client = cf, ms_store_id = length (rg_heap reg), ms_watched = cf_notifies cf\<rparr> (rg_servers reg)"
    "rg_heap ?reg = rg_heap reg @ [snap]"
    by (simp_all add: add_server_def register_tool_names_def Let_def)
  have "ms_store_id m < length (rg_heap ?reg) \<and> snapshot_ok (store_of ?reg m) \<and> indexed (rg_index ?reg) n (store_of ?reg m)"
    if m: "hm_get (rg_servers ?reg) n = Some m" for n m
  proof (cases "n = name")
    case True
    with m have "ms_store_id m = length (rg_heap reg)" by (auto simp: servers(1))
    then have "ms_store_id m < length (rg_heap ?reg)" "store_of ?reg m = snap" by (simp_all add: store_of_def servers(2))
    moreover have "indexed (rg_index ?reg) name snap" unfolding indexed_def snapshot_get_defined using index by simp
    ultimately show ?thesis using assms(2) True by simp
  next
    case False
    with m have old: "hm_get (rg_servers reg) n = Some m" by (simp add: servers(1))
    from registry_invD [OF assms(1) old]
    have inv: "ms_store_id m < length (rg_heap reg)" "snapshot_ok (store_of reg m)" "indexed (rg_index reg) n (store_of reg m)" by blast+
    have store: "store_of ?reg m = store_of reg m" using inv(1) by (simp add: store_of_def servers(2) nth_append)
    have "t \<notin> fst ` set (sn_tools snap)" if "snapshot_get (store_of reg m) t \<noteq> None" for t
      using inv(3) that fresh [of t] unfolding indexed_def by (metis option.discI)
    with inv(3) index have "indexed (rg_index ?reg) n (store_of reg m)" unfolding indexed_def by metis
    with inv(1,2) show ?thesis unfolding store servers(2) by simp
  qed
  moreover have "rg_stores ?reg = map (\<lambda>(n, m). (n, ms_store_id m)) (rg_servers ?reg)"
    using registry_inv_parts(3) [OF assms(1)] by (simp add: add_server_def register_tool_names_def Let_def map_insert)
  moreover have "rg_policy ?reg = RefuseConflicts" using policy by (simp add: add_server_def register_tool_names_def Let_def)
  moreover have "hm_ok (rg_servers ?reg)" using registry_inv_parts(2) [OF assms(1)] unfolding servers(1) by (rule hm_ok_insert)
  ultimately show ?thesis unfolding registry_inv_def by blast
qed

lemma registry_inv_remove:
  assumes "registry_inv reg" "remove_server name reg w = (found, reg', w')"
  shows "registry_inv reg'"
proof -
  have reg': "reg' = reg\<lparr>rg_servers := hm_remove name (rg_servers reg), rg_stores := hm_remove name (rg_stores reg),
      rg_index := filter (\<lambda>(_, s). s \<noteq> name) (rg_index reg)\<rparr>"
    using assms(2) registry_inv_parts(1) [OF assms(1)] by (simp add: remove_server_def Let_def)
  have kept: "hm_get (filter (\<lambda>(_, s). s \<noteq> name) m) t = Some n" if "hm_get m t = Some n" "n \<noteq> name" for m :: "(string, string) hashmap" and t n
    using that by (induction m) auto
  have "ms_store_id m < length (rg_heap reg') \<and> snapshot_ok (store_of reg' m) \<and> indexed (rg_index reg') n (store_of reg' m)"
    if "hm_get (rg_servers reg') n = Some m" for n m
  proof -
    have "n \<noteq> name" "hm_get (rg_servers reg) n = Some m" using that by (auto simp: reg' split: if_splits)
    with registry_invD [OF assms(1), of n m] kept show ?thesis unfolding indexed_def by (simp add: reg' store_of_def)
  qed
  moreover have "rg_policy reg' = RefuseConflicts" "hm_ok (rg_servers reg')" "rg_stores reg' = map (\<lambda>(n, m). (n, ms_store_id m)) (rg_servers reg')"
    using registry_inv_parts [OF assms(1)] by (simp_all add: reg' map_remove)
  ultimately show ?thesis unfolding registry_inv_def by blast
qed

lemma map_sum_Inr: "map_sum f g z = Inr y \<longleftrightarrow> (\<exists>x. z = Inr x \<and> y = g x)"
  by (cases z) auto

lemma registry_inv_register:
  assumes "registry_inv reg" "register_server name cf reg w = (Some (reg', err), w')"
  shows "registry_inv reg'"
proof -
  obtain w1 r where built: "build_snapshot cf w = (w1, r)" by fastforce
  have ok: "snapshot_ok snap" if "r = Some (Inr snap)" for snap
  proof -
    from built that obtain ts where "snap = snapshot_of_infos cf ts"
      by (auto simp: build_snapshot_def map_sum_Inr split: prod.splits)
    then show ?thesis by (simp add: snapshot_of_infos_ok)
  qed
  from assms(2) built have "reg' = reg \<or> (\<exists>snap. r = Some (Inr snap)
      \<and> check_conflicts name (snapshot_definitions snap) reg = None \<and> reg' = add_server name cf snap reg)"
    by (auto simp: register_server_def split: option.splits sum.splits)
  with assms(1) ok registry_inv_add show ?thesis by blast
qed

lemma registry_inv_steps: "registry_steps s s' \<Longrightarrow> registry_inv (fst s) \<Longrightarrow> registry_inv (fst s')"
proof (induction rule: registry_steps.induct)
  case (more s s' s'')
  have "registry_inv (fst s')" by (rule more.IH [OF more(4)])
  with more(2) show ?case
    by (cases rule: registry_step.cases) (metis fst_conv registry_inv_register registry_inv_remove)+
qed simp

text \<open>Lists of tools that belong to different owners have different keys together.\<close>

lemma distinct_owned:
  assumes "distinct (map fst xs)" "\<forall>(n, m) \<in> set xs. distinct (map fst (f m)) \<and> (\<forall>t \<in> fst ` set (f m). owner t = Some n)"
  shows "distinct (map fst (concat (map (\<lambda>(_, m). f m) xs)))
    \<and> (\<forall>t \<in> fst ` set (concat (map (\<lambda>(_, m). f m) xs)). \<exists>n \<in> fst ` set xs. owner t = Some n)"
  using assms
proof (induction xs)
  case (Cons x xs)
  obtain n m where x: "x = (n, m)" by fastforce
  let ?rest = "concat (map (\<lambda>(_, m). f m) xs)"
  have rest: "distinct (map fst ?rest)" "\<forall>t \<in> fst ` set ?rest. \<exists>n \<in> fst ` set xs. owner t = Some n"
    using Cons.IH Cons.prems by (metis (no_types, lifting) distinct.simps(2) list.set_intros(2) list.simps(9))+
  have first: "distinct (map fst (f m))" "\<forall>t \<in> fst ` set (f m). owner t = Some n" "n \<notin> fst ` set xs"
    using bspec [OF Cons.prems(2), of "(n, m)"] Cons.prems(1) unfolding x by simp_all
  then have "fst ` set (f m) \<inter> fst ` set ?rest = {}" using rest(2) by (metis disjoint_iff option.inject)
  moreover have all: "concat (map (\<lambda>(_, m). f m) (x # xs)) = f m @ ?rest" by (simp add: x)
  ultimately have "distinct (map fst (concat (map (\<lambda>(_, m). f m) (x # xs))))" using rest(1) first(1) by simp
  moreover have "\<exists>n \<in> fst ` set (x # xs). owner t = Some n" if "t \<in> fst ` set (f m @ ?rest)" for t
    using that rest(2) first(2) by (auto simp: x image_Un simp del: set_concat)
  ultimately show ?case unfolding all by blast
qed simp

lemma fold_concat_inserts:
  "fold (\<lambda>(_, i) m. fold (\<lambda>(n, t). hm_insert n t) (f i) m) xs m = fold (\<lambda>(n, t). hm_insert n t) (concat (map (\<lambda>(_, i). f i) xs)) m"
  by (induction xs arbitrary: m) auto

lemma registry_snapshot_tools:
  assumes "registry_inv reg"
  shows "sn_tools (registry_snapshot reg) = concat (map (\<lambda>(_, m). sn_tools (store_of reg m)) (rg_servers reg))"
    "hm_ok (sn_tools (registry_snapshot reg))"
proof -
  let ?all = "concat (map (\<lambda>(_, m). sn_tools (store_of reg m)) (rg_servers reg))"
  note servers = registry_inv_parts(2) [OF assms] and reg = assms
  have "distinct (map fst (sn_tools (store_of reg m))) \<and> (\<forall>t \<in> fst ` set (sn_tools (store_of reg m)). hm_get (rg_index reg) t = Some n)"
    if "(n, m) \<in> set (rg_servers reg)" for n m
  proof -
    have "hm_get (rg_servers reg) n = Some m" using that servers hm_get_Some_iff by metis
    with registry_invD [OF reg] show ?thesis
      unfolding named_tools_def hm_ok_def indexed_def snapshot_get_defined by blast
  qed
  then have "distinct (map fst ?all)"
    using distinct_owned [of "rg_servers reg" "\<lambda>m. sn_tools (store_of reg m)" "hm_get (rg_index reg)"] servers
    by (auto simp: hm_ok_def)
  then have ok: "hm_ok ?all" by (simp add: hm_ok_def)
  have "map (\<lambda>(_, i). sn_tools (rg_heap reg ! i)) (rg_stores reg) = map (\<lambda>(_, m). sn_tools (store_of reg m)) (rg_servers reg)"
    using registry_inv_parts(3) [OF assms] by (simp add: store_of_def split_beta comp_def)
  then have tools: "sn_tools (registry_snapshot reg) = fold (\<lambda>(n, t). hm_insert n t) ?all []"
    using fold_concat_inserts [of "\<lambda>i. sn_tools (rg_heap reg ! i)" "rg_stores reg" "[]"]
    by (simp add: registry_snapshot_def snapshot_new_def)
  also have "\<dots> = ?all" using fold_insert_fresh [of "[]" ?all] ok by (simp add: hm_ok_def)
  finally show "sn_tools (registry_snapshot reg) = ?all" .
  with ok show "hm_ok (sn_tools (registry_snapshot reg))" by simp
qed

text \<open>
  C3: Under the default policy, whatever servers are registered, refused or removed, as long as no
  catalog is refreshed, no two registered servers have a tool of the same name; the catalog gives for each
  name the tool of the one server that has it, and as many tools as the registry counts.
\<close>

theorem registered_tools_are_unambiguous:
  assumes "registry_steps (registry_new, w) (reg, w')"
  shows "(\<forall>n m n' m' t. hm_get (rg_servers reg) n = Some m \<and> hm_get (rg_servers reg) n' = Some m'
          \<and> snapshot_get (store_of reg m) t \<noteq> None \<and> snapshot_get (store_of reg m') t \<noteq> None \<longrightarrow> n = n')
    \<and> (\<forall>t e. snapshot_get (registry_snapshot reg) t = Some e \<longleftrightarrow>
         (\<exists>n m. hm_get (rg_servers reg) n = Some m \<and> snapshot_get (store_of reg m) t = Some e))
    \<and> total_tools reg = length (sn_tools (registry_snapshot reg))"
proof -
  have reg: "registry_inv reg" using registry_inv_steps [OF assms] registry_inv_new by simp
  note tools = registry_snapshot_tools [OF reg]
  have servers: "hm_get (rg_servers reg) n = Some m \<longleftrightarrow> (n, m) \<in> set (rg_servers reg)" for n m
    using reg hm_get_Some_iff unfolding registry_inv_def by metis
  have "n = n'" if "hm_get (rg_servers reg) n = Some m" "hm_get (rg_servers reg) n' = Some m'"
    "snapshot_get (store_of reg m) t \<noteq> None" "snapshot_get (store_of reg m') t \<noteq> None" for n m n' m' t
    using registry_invD [OF reg that(1)] registry_invD [OF reg that(2)] that(3,4) unfolding indexed_def by (metis option.inject)
  moreover have "snapshot_get (registry_snapshot reg) t = Some e \<longleftrightarrow>
      (\<exists>n m. hm_get (rg_servers reg) n = Some m \<and> snapshot_get (store_of reg m) t = Some e)" for t e
  proof -
    have store: "snapshot_get (store_of reg m) t = Some e \<longleftrightarrow> (t, e) \<in> set (sn_tools (store_of reg m))"
      if "hm_get (rg_servers reg) n = Some m" for n m
      using registry_invD [OF reg that] hm_get_Some_iff unfolding named_tools_def snapshot_get_def by metis
    have "snapshot_get (registry_snapshot reg) t = Some e \<longleftrightarrow> (\<exists>(n, m) \<in> set (rg_servers reg). (t, e) \<in> set (sn_tools (store_of reg m)))"
      using hm_get_Some_iff [OF tools(2)] by (auto simp: snapshot_get_def tools(1))
    with store servers show ?thesis by blast
  qed
  moreover have "total_tools reg = length (sn_tools (registry_snapshot reg))"
    by (simp add: total_tools_def tools(1) length_concat comp_def case_prod_unfold)
  ultimately show ?thesis by blast
qed

definition listing_client :: "string list \<Rightarrow> unit client_ref" where
  "listing_client names = \<lparr>cf_list = (\<lambda>w. (w, Some (Inr (map (\<lambda>n. \<lparr>tf_name = n, tf_description = [], tf_schema = JNull\<rparr>) names)))),
     cf_call = (\<lambda>_ _ w. (w, Some (Inl mcp_timeout))), cf_close = (\<lambda>w. w), cf_notifies = False\<rparr>"

lemma registered_tools_are_unambiguous_witness:
  "\<exists>reg. registry_steps (registry_new, ()) (reg, ()) \<and> total_tools reg = 3 \<and> length (sn_tools (registry_snapshot reg)) = 3
     \<and> fst (register_server ''c'' (listing_client [''q'', ''y'']) reg ()) =
         Some (reg, Some (NameConflict \<lparr>nc_tool = ''y'', nc_existing = ''a'', nc_new = ''c''\<rparr>))"
proof -
  let ?register = "\<lambda>n ts reg. fst (the (fst (register_server n (listing_client ts) reg ())))"
  define reg where "reg = ?register ''b'' [''z''] (?register ''a'' [''x'', ''y''] registry_new)"
  have step: "\<exists>err. register_server n (listing_client ts) r () = (Some (?register n ts r, err), ())" for n ts r
    by (simp add: register_server_def build_snapshot_def listing_client_def split: option.split)
  have "registry_steps (registry_new, ()) (reg, ())"
  proof -
    let ?one = "?register ''a'' [''x'', ''y''] registry_new"
    obtain e1 e2 where "register_server ''a'' (listing_client [''x'', ''y'']) registry_new () = (Some (?one, e1), ())"
      "register_server ''b'' (listing_client [''z'']) ?one () = (Some (reg, e2), ())"
      using step unfolding reg_def by metis
    from registry_steps.more [OF registry_steps.more [OF registry_steps.none registry_step.register] registry_step.register, OF this]
    show ?thesis .
  qed
  moreover from registered_tools_are_unambiguous [OF this]
  have "total_tools reg = length (sn_tools (registry_snapshot reg))" by (elim conjE)
  moreover have "total_tools reg = 3"
    by (simp add: reg_def total_tools_def register_server_def build_snapshot_def listing_client_def snapshot_of_infos_def snapshot_new_def
        check_conflicts_def map_filter_simps registry_new_def add_server_def register_tool_names_def Let_def snapshot_definitions_def
        make_tool_entry_def tool_safe_def tool_from_fn_def definition_of_info_def store_of_def)
  moreover have "fst (register_server ''c'' (listing_client [''q'', ''y'']) reg ()) =
      Some (reg, Some (NameConflict \<lparr>nc_tool = ''y'', nc_existing = ''a'', nc_new = ''c''\<rparr>))"
    by (simp add: reg_def register_server_def build_snapshot_def listing_client_def snapshot_of_infos_def snapshot_new_def
        check_conflicts_def map_filter_simps registry_new_def add_server_def register_tool_names_def Let_def snapshot_definitions_def
        make_tool_entry_def tool_safe_def tool_from_fn_def definition_of_info_def)
  ultimately show ?thesis by (intro exI [of _ reg] conjI) simp_all
qed

end
