(* ===== verification/Spec2Isabelle.thy ===== *)
theory Spec2Isabelle
  imports Prelude State_Core Engine Graph_Core Run_Loop Composite Text Blob_Store Checkpoint Resume
    Graph_Analysis Barrier_Sink Json_Text Durable_Record Durable_Store Durable_Scope Durable_Run Durable_Replay
    Utf8 Llm_Core Sse_Parser Tool_Calls Provider_Stream
    Codec_Core Anthropic_Codec Openai_Codec Google_Codec Codec_Provider
    Agent_Context Agent_State Agent_Retry Agent_Tools Agent_Nodes Agent_Run Agent_Loop Agent_Builder
    Agent_Durable_Tools Agent_Team Mcp_Protocol Mcp_Server Mcp_Transport Mcp_Client Agent_Mcp
begin

text \<open>
  A verification development for lellm, a Rust workspace for graph-shaped agent programs.

  The program. \<open>lellm-graph\<close> runs a graph of nodes over a typed state: a node buffers
  mutations in the engine, the loop commits them, resolves the route, saves a checkpoint
  and goes on until the end node or the step budget. Parallel nodes run branches on copies
  of the state and merge them; subgraphs run another graph through a lens; barriers wait
  for a decision. A checkpoint can be written at every boundary and a later process can
  continue from it.

  The theories, in the order of the code:

  \<^item> \<open>Prelude\<close>: JSON values, hash maps, sums, machine sizes. \<open>Text\<close>: the string functions
    of the standard library the code calls.
  \<^item> \<open>State_Core\<close> (\<open>state/state_core.rs\<close>, \<open>state/workflow_state.rs\<close>): the key-value
    state, its mutations, batches, and the merge strategies of parallel nodes.
  \<^item> \<open>Engine\<close> (\<open>exec/execution_engine.rs\<close>, \<open>node/node_context.rs\<close>): the buffered
    mutations, control signals and what a node may do to them.
  \<^item> \<open>Graph_Core\<close> (\<open>graph/graph_core.rs\<close>, \<open>graph/graph_builder.rs\<close>): edges and routing,
    the builder, the structural hash, the validation passes.
  \<^item> \<open>Run_Loop\<close> (\<open>graph/run_loop.rs\<close>) and \<open>Composite\<close> (\<open>node/parallel_execute.rs\<close>,
    \<open>node/graph_branch.rs\<close>, \<open>node/subgraph_spec.rs\<close>): the loop, and the nodes that run it
    again inside. The branches of a parallel node work on copies of the state and meet only in the
    outside world and in the cancelling of their group; each is one block, and the order of the
    blocks is an argument, the executor's schedule.
  \<^item> \<open>Blob_Store\<close> (\<open>checkpoint/store.rs\<close>), \<open>Checkpoint\<close> (\<open>checkpoint/*.rs\<close>,
    \<open>exec/checkpoint_save_sink.rs\<close>) and \<open>Resume\<close> (\<open>exec/execution_loop.rs\<close>): storage,
    format and codec, the save sink, and start, checkpointed start and restore.
  \<^item> \<open>Graph_Analysis\<close> (\<open>graph/graph_analysis.rs\<close>): cycles, reachability, diagnostics.

  \<^item> \<open>Barrier_Sink\<close> (\<open>node/barrier_sink.rs\<close>, \<open>event.rs\<close>): the channel through which a
    handle decides barriers.
  \<^item> \<open>Json_Text\<close>: the JSON texts of strings and tuples and when they determine their value.
    \<open>Durable_Record\<close> (\<open>durable/model.rs\<close>), \<open>Durable_Store\<close> (\<open>durable/store.rs\<close>),
    \<open>Durable_Scope\<close> (\<open>durable/scope.rs\<close>, \<open>durable/tasks.rs\<close>, the operator requests of
    \<open>durable/runtime.rs\<close>) and \<open>Durable_Run\<close> (the rest of \<open>durable/runtime.rs\<close> and the durable
    parts of \<open>graph/run_loop.rs\<close>): runs whose every step is recorded before it counts.
    \<open>Durable_Replay\<close>: over the file store with a fault at any point of any save, the record a run
    leaves behind is one from which it can be resumed to the end; proved once for a \<open>reliable_store\<close>.

  \<^item> \<open>Utf8\<close>: the lossy decoding and the trimming of the standard library, on bytes.
    \<open>Llm_Core\<close> (the crate \<open>lellm-core\<close>): messages, tools, requests, responses, errors, prompts.
  \<^item> \<open>Sse_Parser\<close>, \<open>Tool_Calls\<close>, \<open>Provider_Stream\<close> (\<open>providers/stream/*.rs\<close> and the channel
    of \<open>providers/base.rs\<close> in \<open>lellm-provider\<close>): from the chunks of a response body to
    frames, to the events that a consumer receives, and to the assembled tool calls.
  \<^item> \<open>Codec_Core\<close> (\<open>providers/codec.rs\<close>), \<open>Anthropic_Codec\<close>, \<open>Openai_Codec\<close>, \<open>Google_Codec\<close>
    (\<open>providers/anthropic.rs\<close>, \<open>openai_compat.rs\<close>, \<open>google.rs\<close>): the protocols, what of a
    message survives them, and what a stream loses. \<open>Codec_Provider\<close> (\<open>providers/base.rs\<close>,
    \<open>router.rs\<close>): the provider over a codec.

  \<^item> \<open>Agent_Context\<close> (\<open>runtime/context/*.rs\<close> in \<open>lellm-agent\<close>): the token estimate, the budget
    and the compactor. \<open>Agent_State\<close> (\<open>typed_state.rs\<close>, \<open>typed_state_merge.rs\<close>): the state of an
    agent. \<open>Agent_Retry\<close> (\<open>retry.rs\<close>, \<open>fallback.rs\<close>, \<open>invoker.rs\<close>) and \<open>Agent_Tools\<close>
    (\<open>tools/mod.rs\<close>, \<open>tools/executor.rs\<close>): recovery, catalogs, and batches of tool calls.
    \<open>Agent_Nodes\<close> (\<open>react/*.rs\<close>, \<open>config.rs\<close>): the nodes of an agent and its graph.
    \<open>Agent_Run\<close>: a run of that graph refines an abstract machine over the state of the agent,
    from which follow the number of its rounds and steps and what the model is sent.
    \<open>Agent_Loop\<close> (\<open>runtime.rs\<close>, \<open>checkpoint.rs\<close>, \<open>durable.rs\<close>, \<open>event_bridge.rs\<close>): calls,
    streams, runs with checkpoints, restores and durable runs of a compiled agent.
    \<open>Agent_Builder\<close> (\<open>builder.rs\<close>): what the builder makes of tools, catalogs and options.
    \<open>Agent_Durable_Tools\<close> (\<open>tools/durable.rs\<close>): batches of calls as tasks of a durable run.
    \<open>Agent_Team\<close> (\<open>templates/*.rs\<close>): a planner, parallel workers and a reviewer as one graph over
    the states of their agents, what its merge accepts, and what a run that completes has done.

  \<^item> \<open>Mcp_Protocol\<close> (\<open>protocol/*.rs\<close> in \<open>lellm-mcp\<close>): the messages of the tool protocol, their
    readers and writers, its errors. \<open>Mcp_Server\<close> (\<open>server/*.rs\<close>): the tools of a server and its
    replies. \<open>Mcp_Transport\<close> (\<open>transport/*.rs\<close>): event streams, the HTTP transport, and the
    matching of responses over a child process as a step relation, in which a request is two steps,
    its registration and the end of its write. \<open>Mcp_Client\<close>
    (\<open>client/mod.rs\<close>): the client over any transport. \<open>Agent_Mcp\<close> (\<open>tools/mcp/*.rs\<close> in
    \<open>lellm-agent\<close>): servers as catalogs of an agent, the registry, the refreshing.

  Interfaces are locales: \<open>merge_strategy\<close> (the merges, the agent's too), \<open>blob_store\<close> (the stores),
  \<open>file_codec_laws\<close> and \<open>checkpoint_serde\<close> (what is asked of the external serialisers),
  \<open>checkpointing\<close> (the sink over a store, with a generator of identifiers and times that gives no
  identifier twice), \<open>json_text\<close> and \<open>run_store\<close> (the texts and the stores of durable runs),
  \<open>reliable_store\<close> (a run store with the states from which no save fails), \<open>event_sink\<close> (where a stream's events go),
  \<open>frame_decoder\<close> (what the pipeline asks of a codec), \<open>json_wire\<close> (the texts of messages). Each is interpreted on the model's own
  definitions in the theory that provides them.

  What the outside does is an argument: the user's node functions and state operations, the
  serialisers, the identifiers and times given to checkpoints, the file system's faults, the network's
  exchanges, the executor's schedule. The loop is a function whose
  measure is the step budget that is left, so every run ends; the searches of the analysis
  count the edge targets not yet visited.

  Not modelled: the task and channel machinery of tokio (events are a list in the order they
  are sent), time, logging, the deprecated event stream of the MCP client, the macros.
\<close>

end
